(* ===== verification/Prelude.thy ===== *)
theory Prelude
  imports Complex_Main "HOL-Library.Word" "HOL-Library.Char_ord" "HOL-Library.List_Lexorder"
begin

text \<open>
  Shared vocabulary of the development: bytes and machine sizes, the result type of the
  Rust code (\<open>Result<T, E>\<close> is \<open>'e + 'a\<close>, \<open>Err\<close> being \<open>Inl\<close>) with its combinators, the
  slice operations of the standard library the code relies on (\<open>windows(2).any\<close>,
  \<open>sort\<close> followed by \<open>dedup\<close>, \<open>binary_search\<close>), and the collections of facts the
  component theories extend and use.
\<close>

named_theorems result_simps "facts on the result combinators"
named_theorems order_facts "facts on canonical (sorted, duplicate-free) lists"

section \<open>Bytes and sizes\<close>

type_synonym byte = "8 word"
type_synonym bytes = "byte list"

text \<open>Rust's \<open>usize\<close> of the supported 64-bit targets.\<close>

definition usize_limit :: nat where
  "usize_limit = 2 ^ 64"

definition checked_add :: "nat \<Rightarrow> nat \<Rightarrow> nat option" where
  "checked_add a b = (if a + b < usize_limit then Some (a + b) else None)"

lemma checked_add_Some [simp]:
  "checked_add a b = Some c \<longleftrightarrow> c = a + b \<and> a + b < usize_limit"
  by (auto simp: checked_add_def)

lemma checked_add_None [simp]: "checked_add a b = None \<longleftrightarrow> usize_limit \<le> a + b"
  by (auto simp: checked_add_def)

definition char_byte :: "char \<Rightarrow> byte" where
  "char_byte c = of_nat (of_char c)"

definition string_bytes :: "string \<Rightarrow> bytes" where
  "string_bytes s = map char_byte s"

lemma length_string_bytes [simp]: "length (string_bytes s) = length s"
  by (simp add: string_bytes_def)

section \<open>Results\<close>

definition bindR :: "'e + 'a \<Rightarrow> ('a \<Rightarrow> 'e + 'b) \<Rightarrow> 'e + 'b" where
  "bindR m f = (case m of Inl e \<Rightarrow> Inl e | Inr x \<Rightarrow> f x)"

definition map_err :: "('e \<Rightarrow> 'f) \<Rightarrow> 'e + 'a \<Rightarrow> 'f + 'a" where
  "map_err g m = (case m of Inl e \<Rightarrow> Inl (g e) | Inr x \<Rightarrow> Inr x)"

definition ok_or :: "'a option \<Rightarrow> 'e \<Rightarrow> 'e + 'a" where
  "ok_or m e = (case m of None \<Rightarrow> Inl e | Some x \<Rightarrow> Inr x)"

definition is_ok :: "'e + 'a \<Rightarrow> bool" where
  "is_ok m = (case m of Inl _ \<Rightarrow> False | Inr _ \<Rightarrow> True)"

lemma bindR_simps [simp, result_simps]:
  "bindR (Inl e) f = Inl e" "bindR (Inr x) f = f x"
  by (simp_all add: bindR_def)

lemma map_err_simps [simp, result_simps]:
  "map_err g (Inl e) = Inl (g e)" "map_err g (Inr x) = Inr x"
  by (simp_all add: map_err_def)

lemma ok_or_simps [simp, result_simps]:
  "ok_or None e = Inl e" "ok_or (Some x) e = Inr x"
  by (simp_all add: ok_or_def)

lemma is_ok_simps [simp, result_simps]: "is_ok (Inr x)" "\<not> is_ok (Inl e)"
  by (simp_all add: is_ok_def)

lemma is_ok_iff: "is_ok m \<longleftrightarrow> (\<exists>x. m = Inr x)"
  by (cases m) auto

lemma bindR_Inr_iff [result_simps]:
  "bindR m f = Inr y \<longleftrightarrow> (\<exists>x. m = Inr x \<and> f x = Inr y)"
  by (cases m) auto

lemma bindR_Inl_iff [result_simps]:
  "bindR m f = Inl e \<longleftrightarrow> m = Inl e \<or> (\<exists>x. m = Inr x \<and> f x = Inl e)"
  by (cases m) auto

lemma map_err_Inr_iff [simp, result_simps]: "map_err g m = Inr x \<longleftrightarrow> m = Inr x"
  by (cases m) auto

lemma map_err_Inl_iff [result_simps]: "map_err g m = Inl e \<longleftrightarrow> (\<exists>d. m = Inl d \<and> e = g d)"
  by (cases m) auto

lemma ok_or_Inr_iff [simp, result_simps]: "ok_or m e = Inr x \<longleftrightarrow> m = Some x"
  by (cases m) auto

lemma ok_or_Inl_iff [simp, result_simps]: "ok_or m e = Inl d \<longleftrightarrow> m = None \<and> d = e"
  by (cases m) auto

lemma if_Inl_eq_Inr [simp, result_simps]:
  "(if c then Inl e else m) = Inr x \<longleftrightarrow> \<not> c \<and> m = Inr x"
  by simp

text \<open>\<open>iter().map(f).collect::<Result<Vec<_>, _>>()\<close>.\<close>

primrec collectR :: "('a \<Rightarrow> 'e + 'b) \<Rightarrow> 'a list \<Rightarrow> 'e + 'b list" where
  "collectR f [] = Inr []"
| "collectR f (x # xs) = bindR (f x) (\<lambda>y. bindR (collectR f xs) (\<lambda>ys. Inr (y # ys)))"

text \<open>A \<open>for\<close> loop whose body updates a state and may return early with an error.\<close>

primrec foldR :: "('a \<Rightarrow> 's \<Rightarrow> 'e + 's) \<Rightarrow> 'a list \<Rightarrow> 's \<Rightarrow> 'e + 's" where
  "foldR f [] s = Inr s"
| "foldR f (x # xs) s = bindR (f x s) (foldR f xs)"

text \<open>A \<open>for\<close> loop that only checks.\<close>

primrec forR :: "('a \<Rightarrow> 'e + unit) \<Rightarrow> 'a list \<Rightarrow> 'e + unit" where
  "forR f [] = Inr ()"
| "forR f (x # xs) = bindR (f x) (\<lambda>_. forR f xs)"

lemma collectR_cong [fundef_cong]:
  "xs = ys \<Longrightarrow> (\<And>x. x \<in> set ys \<Longrightarrow> f x = g x) \<Longrightarrow> collectR f xs = collectR g ys"
  by (induction ys arbitrary: xs) auto

lemma forR_cong [fundef_cong]:
  "xs = ys \<Longrightarrow> (\<And>x. x \<in> set ys \<Longrightarrow> f x = g x) \<Longrightarrow> forR f xs = forR g ys"
  by (induction ys arbitrary: xs) auto

lemma foldR_cong [fundef_cong]:
  "xs = ys \<Longrightarrow> s = t \<Longrightarrow> (\<And>x a. x \<in> set ys \<Longrightarrow> f x a = g x a) \<Longrightarrow> foldR f xs s = foldR g ys t"
proof (induction ys arbitrary: xs s t)
  case (Cons y ys)
  then show ?case by (cases "g y t") auto
qed simp

lemma bindR_cong [fundef_cong]:
  "m = n \<Longrightarrow> (\<And>x. n = Inr x \<Longrightarrow> f x = g x) \<Longrightarrow> bindR m f = bindR n g"
  by (cases n) auto

lemma collectR_Inr_iff:
  "collectR f xs = Inr ys \<longleftrightarrow> list_all2 (\<lambda>x y. f x = Inr y) xs ys"
  by (induction xs arbitrary: ys) (auto simp: bindR_Inr_iff list_all2_Cons1)

lemma collectR_map_Inr:
  assumes "\<And>x. x \<in> set xs \<Longrightarrow> f (g x) = Inr (h x)"
  shows "collectR f (map g xs) = Inr (map h xs)"
  using assms by (induction xs) auto

lemma collectR_length: "collectR f xs = Inr ys \<Longrightarrow> length ys = length xs"
  by (simp add: collectR_Inr_iff list_all2_lengthD)

lemma forR_Inr_iff: "forR f xs = Inr u \<longleftrightarrow> (\<forall>x \<in> set xs. f x = Inr ())"
  by (induction xs) (auto simp: bindR_Inr_iff)

lemma foldR_append: "foldR f (xs @ ys) s = bindR (foldR f xs s) (foldR f ys)"
proof (induction xs arbitrary: s)
  case (Cons x xs)
  then show ?case by (cases "f x s") auto
qed simp

lemma foldR_invariant:
  assumes "foldR f xs s = Inr t" and "P s"
    and "\<And>x a b. x \<in> set xs \<Longrightarrow> P a \<Longrightarrow> f x a = Inr b \<Longrightarrow> P b"
  shows "P t"
  using assms
proof (induction xs arbitrary: s)
  case (Cons x xs)
  from Cons.prems(1) obtain b where b: "f x s = Inr b" "foldR f xs b = Inr t"
    by (auto simp: bindR_Inr_iff)
  moreover have "P b" using Cons.prems(3) [of x s b] Cons.prems(2) b(1) by simp
  ultimately show ?case using Cons.IH [of b] Cons.prems(3) by (meson list.set_intros(2))
qed simp

section \<open>Slices\<close>

text \<open>\<open>xs.windows(2).any(|pair| p(pair[0], pair[1]))\<close>.\<close>

fun windows2_any :: "('a \<Rightarrow> 'a \<Rightarrow> bool) \<Rightarrow> 'a list \<Rightarrow> bool" where
  "windows2_any p (x # y # xs) = (p x y \<or> windows2_any p (y # xs))"
| "windows2_any p _ = False"

definition strictly_sorted :: "('a \<Rightarrow> 'k::linorder) \<Rightarrow> 'a list \<Rightarrow> bool" where
  "strictly_sorted key xs = sorted_wrt (\<lambda>a b. key a < key b) xs"

lemma strictly_sorted_Nil [simp]: "strictly_sorted key []"
  by (simp add: strictly_sorted_def)

lemma strictly_sorted_Cons [simp]:
  "strictly_sorted key (x # xs) \<longleftrightarrow> (\<forall>y \<in> set xs. key x < key y) \<and> strictly_sorted key xs"
  by (auto simp: strictly_sorted_def)

lemma windows2_any_ge_iff [order_facts]:
  "\<not> windows2_any (\<lambda>a b. key b \<le> key a) xs \<longleftrightarrow> strictly_sorted key xs"
proof (induction xs rule: induct_list012)
  case (3 x y zs)
  then show ?case by (auto simp: not_le intro: less_trans)
qed auto

lemma strictly_sorted_distinct [order_facts]: "strictly_sorted key xs \<Longrightarrow> distinct xs"
  by (induction xs) auto

lemma strictly_sorted_sorted [order_facts]: "strictly_sorted key xs \<Longrightarrow> sorted (map key xs)"
  by (induction xs) (auto intro: less_imp_le)

lemma strictly_sorted_filter [order_facts]:
  "strictly_sorted key xs \<Longrightarrow> strictly_sorted key (filter p xs)"
  by (induction xs) auto

lemma strictly_sorted_map [order_facts]:
  "strictly_sorted key (map f xs) \<longleftrightarrow> strictly_sorted (\<lambda>x. key (f x)) xs"
  by (simp add: strictly_sorted_def sorted_wrt_map)

text \<open>A strictly sorted list is determined by its elements.\<close>

lemma strictly_sorted_unique [order_facts]:
  assumes "strictly_sorted key xs" "strictly_sorted key ys" "set xs = set ys"
  shows "xs = ys"
  using assms
proof (induction xs arbitrary: ys)
  case (Cons x xs)
  then obtain y ys' where ys: "ys = y # ys'" by (cases ys) auto
  have "x = y"
  proof (rule ccontr)
    assume "x \<noteq> y"
    with Cons.prems ys have "x \<in> set ys'" "y \<in> set xs" by auto
    with Cons.prems ys have "key x < key y" "key y < key x" by auto
    then show False by simp
  qed
  with Cons.prems ys have "set xs = set ys'" by (auto simp: insert_eq_iff)
  with Cons ys \<open>x = y\<close> show ?case by simp
qed simp

text \<open>\<open>xs.sort(); xs.dedup();\<close> for an order given by a key: a stable sort, then removal of
  equal neighbours.\<close>

definition sort_dedup :: "('a \<Rightarrow> 'k::linorder) \<Rightarrow> 'a list \<Rightarrow> 'a list" where
  "sort_dedup key xs = remdups_adj (sort_key key xs)"

lemma set_sort_dedup [simp]: "set (sort_dedup key xs) = set xs"
  by (simp add: sort_dedup_def)

lemma sort_dedup_Nil [simp]: "sort_dedup key [] = []"
  by (simp add: sort_dedup_def)

lemma sort_dedup_eq_Nil [simp]: "sort_dedup key xs = [] \<longleftrightarrow> xs = []"
  by (metis set_empty set_sort_dedup)

lemma length_sort_dedup: "length (sort_dedup key xs) \<le> length xs"
  by (metis length_sort remdups_adj_length sort_dedup_def)

lemma strictly_sorted_remdups_adj:
  "sorted (map key xs) \<Longrightarrow> inj_on key (set xs) \<Longrightarrow> strictly_sorted key (remdups_adj xs)"
proof (induction xs rule: remdups_adj.induct)
  case (3 x y xs)
  show ?case
  proof (cases "x = y")
    case True
    with 3 show ?thesis by (auto simp: inj_on_def)
  next
    case False
    with "3.prems" have lt: "key x < key y"
      by (auto simp: inj_on_def order.strict_iff_order)
    with False 3 show ?thesis
      by (auto simp: inj_on_def intro: less_le_trans)
  qed
qed auto

lemma strictly_sorted_sort_dedup [order_facts]:
  "inj_on key (set xs) \<Longrightarrow> strictly_sorted key (sort_dedup key xs)"
  unfolding sort_dedup_def by (rule strictly_sorted_remdups_adj) auto

text \<open>\<open>xs.binary_search(k).is_ok()\<close>: the standard library keeps a window of the slice and halves
  it; the base moves to the middle unless the element there is greater.\<close>

function bsearch_base :: "('a \<Rightarrow> 'k::linorder) \<Rightarrow> 'k \<Rightarrow> 'a list \<Rightarrow> nat \<Rightarrow> nat \<Rightarrow> nat" where
  "bsearch_base key k xs base len =
     (if len \<le> 1 then base
      else let half = len div 2; mid = base + half
        in bsearch_base key k xs (if key (xs ! mid) > k then base else mid) (len - half))"
  by pat_completeness auto
termination
  by (relation "measure (\<lambda>(key, k, xs, base, len). len)") auto

declare bsearch_base.simps [simp del]

definition bsearch :: "('a \<Rightarrow> 'k::linorder) \<Rightarrow> 'k \<Rightarrow> 'a list \<Rightarrow> bool" where
  "bsearch key k xs \<longleftrightarrow> xs \<noteq> [] \<and> key (xs ! bsearch_base key k xs 0 (length xs)) = k"

lemma bsearch_base_window:
  "0 < len \<Longrightarrow> base + len \<le> n \<Longrightarrow>
    base \<le> bsearch_base key k xs base len \<and> bsearch_base key k xs base len < n"
proof (induction key k xs base len rule: bsearch_base.induct)
  case (1 key k xs base len)
  show ?case
  proof (cases "len \<le> 1")
    case True
    then show ?thesis using "1.prems" by (subst (1 2) bsearch_base.simps) simp
  next
    case False
    define half where "half = len div 2"
    define next_base where "next_base = (if key (xs ! (base + half)) > k then base else base + half)"
    have "0 < len - half" "next_base + (len - half) \<le> n" "base \<le> next_base"
      using False "1.prems" by (auto simp: half_def next_base_def)
    then have "next_base \<le> bsearch_base key k xs next_base (len - half) \<and>
        bsearch_base key k xs next_base (len - half) < n"
      using "1.IH" [OF False half_def refl] by (simp add: next_base_def)
    moreover have "bsearch_base key k xs base len = bsearch_base key k xs next_base (len - half)"
      using False by (subst bsearch_base.simps) (simp add: half_def next_base_def Let_def)
    ultimately show ?thesis using \<open>base \<le> next_base\<close> by linarith
  qed
qed

lemma bsearch_found: "bsearch key k xs \<Longrightarrow> k \<in> key ` set xs"
  using bsearch_base_window [of "length xs" 0 "length xs" key k xs]
  by (auto simp: bsearch_def intro!: image_eqI [OF _ nth_mem])

text \<open>In a sorted list the searched key stays in the window.\<close>

lemma bsearch_base_sorted:
  assumes "sorted (map key xs)"
  shows "0 < len \<Longrightarrow> base + len \<le> length xs \<Longrightarrow> (\<exists>j. base \<le> j \<and> j < base + len \<and> key (xs ! j) = k) \<Longrightarrow>
    key (xs ! bsearch_base key k xs base len) = k"
  using assms
proof (induction key k xs base len rule: bsearch_base.induct)
  case (1 key k xs base len)
  obtain j where j: "base \<le> j" "j < base + len" "key (xs ! j) = k" using "1.prems"(3) by blast
  show ?case
  proof (cases "len \<le> 1")
    case True
    then have "j = base" using j "1.prems"(1) by simp
    then show ?thesis using True j(3) by (subst bsearch_base.simps) simp
  next
    case False
    define half where "half = len div 2"
    define next_base where "next_base = (if key (xs ! (base + half)) > k then base else base + half)"
    have half: "0 < half" "half < len" "base + half < length xs" using False "1.prems"(2) by (auto simp: half_def)
    have mono: "key (xs ! a) \<le> key (xs ! b)" if "a \<le> b" "b < length xs" for a b
      using sorted_nth_mono [OF "1.prems"(4), of a b] that by simp
    have window: "\<exists>j. next_base \<le> j \<and> j < next_base + (len - half) \<and> key (xs ! j) = k"
    proof (cases "key (xs ! (base + half)) > k")
      case True
      have "j < base + half"
      proof (rule ccontr)
        assume "\<not> j < base + half"
        then have "key (xs ! (base + half)) \<le> key (xs ! j)" using j "1.prems"(2) by (intro mono) auto
        with True j(3) show False by simp
      qed
      moreover have "half \<le> len - half" using False by (simp add: half_def)
      ultimately show ?thesis using True j by (intro exI [of _ j]) (simp add: next_base_def)
    next
      case upper: False
      show ?thesis
      proof (cases "base + half \<le> j")
        case True
        then show ?thesis using upper j by (intro exI [of _ j]) (simp add: next_base_def)
      next
        case below: False
        then have "k \<le> key (xs ! (base + half))" using mono [of j "base + half"] j(3) half(3) by simp
        with upper have "key (xs ! (base + half)) = k" by simp
        then show ?thesis using upper half by (intro exI [of _ "base + half"]) (simp add: next_base_def)
      qed
    qed
    have "key (xs ! bsearch_base key k xs next_base (len - half)) = k"
    proof -
      have pre: "0 < len - half" "next_base + (len - half) \<le> length xs"
        using half "1.prems"(2) by (auto simp: next_base_def)
      show ?thesis
        using "1.IH" [OF False half_def refl] pre window "1.prems"(4) unfolding next_base_def by blast
    qed
    moreover have "bsearch_base key k xs base len = bsearch_base key k xs next_base (len - half)"
      using False by (subst bsearch_base.simps) (simp add: half_def next_base_def Let_def)
    ultimately show ?thesis by simp
  qed
qed

lemma bsearch_iff [order_facts]:
  assumes "sorted (map key xs)"
  shows "bsearch key k xs \<longleftrightarrow> k \<in> key ` set xs"
proof
  assume "k \<in> key ` set xs"
  then obtain j where "j < length xs" "key (xs ! j) = k" by (auto simp: in_set_conv_nth)
  then show "bsearch key k xs"
    using bsearch_base_sorted [OF assms, of "length xs" 0 k] by (force simp: bsearch_def)
qed (rule bsearch_found)

lemma bsearch_strictly_sorted [order_facts]:
  "strictly_sorted key xs \<Longrightarrow> bsearch key k xs \<longleftrightarrow> k \<in> key ` set xs"
  by (simp add: bsearch_iff strictly_sorted_sorted)

section \<open>Rows selected by a key\<close>

lemma filter_key_absent: "k \<notin> f ` set xs \<Longrightarrow> filter (\<lambda>y. f y = k) xs = []"
  by (auto simp: filter_empty_conv)

lemma filter_key:
  "distinct (map f xs) \<Longrightarrow> x \<in> set xs \<Longrightarrow> filter (\<lambda>y. f y = f x) xs = [x]"
  by (induction xs) (auto simp: filter_key_absent)

lemma filter_key_eq:
  "distinct (map f xs) \<Longrightarrow> x \<in> set xs \<Longrightarrow> f x = k \<Longrightarrow> filter (\<lambda>y. f y = k) xs = [x]"
  using filter_key by metis

lemma find_key_eq:
  "distinct (map f xs) \<Longrightarrow> x \<in> set xs \<Longrightarrow> f x = k \<Longrightarrow> find (\<lambda>y. f y = k) xs = Some x"
  by (induction xs) force+

lemma find_SomeD: "find p xs = Some x \<Longrightarrow> x \<in> set xs \<and> p x"
  by (induction xs) (auto split: if_splits)

lemma find_append: "find p (xs @ ys) = (case find p xs of None \<Rightarrow> find p ys | Some x \<Rightarrow> Some x)"
  by (induction xs) auto

lemma find_key_absent: "k \<notin> f ` set xs \<Longrightarrow> find (\<lambda>y. f y = k) xs = None"
  by (auto simp: find_None_iff)

section \<open>The order in which identifiers are kept\<close>

text \<open>
  Several components keep lists of identifiers in the order of a rendering that depends on
  the runtime environment. What they rely on is that the rendering tells identifiers apart.
\<close>

locale canonical_order =
  fixes lawful :: "'env \<Rightarrow> bool"
    and key :: "'env \<Rightarrow> 'a \<Rightarrow> 'k::linorder"
    and wf :: "'a \<Rightarrow> bool"
  assumes key_inj: "lawful E \<Longrightarrow> wf a \<Longrightarrow> wf b \<Longrightarrow> key E a = key E b \<Longrightarrow> a = b"
begin

lemma key_inj_on: "lawful E \<Longrightarrow> \<forall>x \<in> set xs. wf x \<Longrightarrow> inj_on (key E) (set xs)"
  by (auto intro!: inj_onI key_inj)

lemma canonical_sort_dedup:
  "lawful E \<Longrightarrow> \<forall>x \<in> set xs. wf x \<Longrightarrow> strictly_sorted (key E) (sort_dedup (key E) xs)"
  by (simp add: key_inj_on strictly_sorted_sort_dedup)

lemma canonical_sort_dedup_cong:
  "lawful E \<Longrightarrow> \<forall>x \<in> set xs. wf x \<Longrightarrow> set xs = set ys \<Longrightarrow>
    sort_dedup (key E) xs = sort_dedup (key E) ys"
  by (rule strictly_sorted_unique [of "key E"]) (auto intro!: canonical_sort_dedup)

lemma canonical_bsearch:
  "lawful E \<Longrightarrow> \<forall>x \<in> set xs. wf x \<Longrightarrow> wf a \<Longrightarrow> strictly_sorted (key E) xs \<Longrightarrow>
    bsearch (key E) (key E a) xs \<longleftrightarrow> a \<in> set xs"
  by (auto simp: bsearch_strictly_sorted dest: key_inj)

end

end
