(* ===== verification/Json.thy ===== *)
theory Json
  imports Prelude
begin

text \<open>
  JSON values as the code handles them (\<open>src/src/model.rs\<close>): \<open>serde_json::Value\<close>, the strict
  deserialisation visitor that rejects duplicate members, and the payload validation rules.
  The tokenizer of \<open>serde_json\<close> is not part of the repository: its result on an input is a
  tree of visitor calls (\<open>json_tree\<close>), where a syntax error sits at the place the parser
  reports it, so that the visitor's own errors keep their order relative to the parser's.
\<close>

section \<open>Errors of the signed-event contract\<close>

datatype contract_error =
    WireTooLarge | JsonSyntax | DuplicateKey | UnknownField | MissingField
  | UnsupportedVersion | InvalidEncoding | InvalidKind | ParentOrder | LimitExceeded
  | UnsafeNumber | Canonicalization | Entropy | AuthorMismatch | IdMismatch | SignatureInvalid

section \<open>Values\<close>

text \<open>
  \<open>serde_json::Number\<close>: an unsigned or a negative 64-bit integer or a finite double, the
  latter as the exact rational it denotes. \<open>serde_json::Map\<close> is a \<open>BTreeMap\<close> in this build
  (no \<open>preserve_order\<close> feature): an association list in ascending key order.
\<close>

datatype jnumber = PosInt nat | NegInt int | Float rat

datatype json =
    JNull | JBool bool | JNumber jnumber | JString string
  | JArray "json list" | JObject "(string \<times> json) list"

type_synonym json_map = "(string \<times> json) list"

definition number_from_i64 :: "int \<Rightarrow> jnumber" where
  "number_from_i64 i = (if i < 0 then NegInt i else PosInt (nat i))"

fun as_i64 :: "jnumber \<Rightarrow> int option" where
  "as_i64 (PosInt n) = (if n < 2 ^ 63 then Some (int n) else None)"
| "as_i64 (NegInt i) = Some i"
| "as_i64 (Float r) = None"

fun as_u64 :: "jnumber \<Rightarrow> nat option" where
  "as_u64 (PosInt n) = Some n"
| "as_u64 _ = None"

fun as_f64 :: "jnumber \<Rightarrow> rat option" where
  "as_f64 (PosInt n) = Some (of_nat n)"
| "as_f64 (NegInt i) = Some (of_int i)"
| "as_f64 (Float r) = Some r"

fun value_as_u64 :: "json \<Rightarrow> nat option" where
  "value_as_u64 (JNumber n) = as_u64 n"
| "value_as_u64 _ = None"

fun value_as_bool :: "json \<Rightarrow> bool option" where
  "value_as_bool (JBool b) = Some b"
| "value_as_bool _ = None"

fun value_as_str :: "json \<Rightarrow> string option" where
  "value_as_str (JString s) = Some s"
| "value_as_str _ = None"

fun obj_insert :: "string \<Rightarrow> 'v \<Rightarrow> (string \<times> 'v) list \<Rightarrow> (string \<times> 'v) list" where
  "obj_insert k v [] = [(k, v)]"
| "obj_insert k v ((a, b) # m) =
     (if k < a then (k, v) # (a, b) # m
      else if k = a then (k, v) # m
      else (a, b) # obj_insert k v m)"

definition obj_keys :: "(string \<times> 'v) list \<Rightarrow> string list" where
  "obj_keys m = map fst m"

definition obj_get :: "(string \<times> 'v) list \<Rightarrow> string \<Rightarrow> 'v option" where
  "obj_get m k = map_of m k"

definition obj_remove :: "string \<Rightarrow> (string \<times> 'v) list \<Rightarrow> (string \<times> 'v) list" where
  "obj_remove k m = filter (\<lambda>e. fst e \<noteq> k) m"

definition obj_of :: "(string \<times> 'v) list \<Rightarrow> (string \<times> 'v) list" where
  "obj_of es = foldl (\<lambda>m e. obj_insert (fst e) (snd e) m) [] es"

lemma map_of_obj_insert: "map_of (obj_insert k v m) = (map_of m)(k \<mapsto> v)"
  by (induction k v m rule: obj_insert.induct) (auto simp: fun_eq_iff)

lemma set_obj_insert_keys: "fst ` set (obj_insert k v m) = insert k (fst ` set m)"
  by (induction k v m rule: obj_insert.induct) auto

lemma obj_insert_sorted:
  "strictly_sorted fst m \<Longrightarrow> strictly_sorted fst (obj_insert k v m)"
proof (induction k v m rule: obj_insert.induct)
  case (2 k v a b m)
  then have "strictly_sorted fst (obj_insert k v m)" if "\<not> k < a" "k \<noteq> a" using that by auto
  moreover have "fst e \<in> insert k (fst ` set m)" if "e \<in> set (obj_insert k v m)" for e
    using that set_obj_insert_keys [of k v m] by blast
  ultimately show ?case using "2.prems" by (fastforce intro: less_trans)
qed auto

lemma obj_insert_last:
  "\<forall>e \<in> set m. fst e < k \<Longrightarrow> obj_insert k v m = m @ [(k, v)]"
  by (induction k v m rule: obj_insert.induct) auto

lemma obj_of_sorted_id: "strictly_sorted fst es \<Longrightarrow> obj_of es = es"
proof (induction es rule: rev_induct)
  case (snoc e es)
  then have "strictly_sorted fst es" "\<forall>d \<in> set es. fst d < fst e"
    by (auto simp: strictly_sorted_def sorted_wrt_append)
  with snoc.IH show ?case by (simp add: obj_of_def obj_insert_last)
qed (simp add: obj_of_def)

section \<open>Strict deserialisation\<close>

datatype json_tree =
    TNull | TBool bool | TI64 int | TU64 nat | TF64 "rat option" | TStr string
  | TSeq "json_tree list" "string option"
  | TMap "(string \<times> json_tree) list" "string option"
  | TError string

definition DUPLICATE_MARKER :: string where
  "DUPLICATE_MARKER = ''__contextmesh_duplicate_object_member__''"

text \<open>
  \<open>StrictValueVisitor\<close>: \<open>TF64 None\<close> is a double without a finite value. A sequence or map
  ends regularly (\<open>None\<close>) or with a parser error when the next element or key is read.
\<close>

fun strict_value :: "json_tree \<Rightarrow> string + json"
  and strict_seq :: "json_tree list \<Rightarrow> string + json list"
  and strict_map :: "(string \<times> json_tree) list \<Rightarrow> string set \<Rightarrow> json_map \<Rightarrow> string + json_map"
where
  "strict_value TNull = Inr JNull"
| "strict_value (TBool b) = Inr (JBool b)"
| "strict_value (TI64 i) = Inr (JNumber (number_from_i64 i))"
| "strict_value (TU64 n) = Inr (JNumber (PosInt n))"
| "strict_value (TF64 r) =
     (case r of Some x \<Rightarrow> Inr (JNumber (Float x)) | None \<Rightarrow> Inl ''number out of range'')"
| "strict_value (TStr s) = Inr (JString s)"
| "strict_value (TSeq ts e) =
     bindR (strict_seq ts) (\<lambda>vs. case e of Some m \<Rightarrow> Inl m | None \<Rightarrow> Inr (JArray vs))"
| "strict_value (TMap es e) =
     bindR (strict_map es {} []) (\<lambda>m. case e of Some d \<Rightarrow> Inl d | None \<Rightarrow> Inr (JObject m))"
| "strict_value (TError m) = Inl m"
| "strict_seq [] = Inr []"
| "strict_seq (t # ts) =
     bindR (strict_value t) (\<lambda>v. bindR (strict_seq ts) (\<lambda>vs. Inr (v # vs)))"
| "strict_map [] keys values = Inr values"
| "strict_map ((k, t) # es) keys values =
     (if k \<in> keys then Inl DUPLICATE_MARKER
      else bindR (strict_value t) (\<lambda>v. strict_map es (insert k keys) (obj_insert k v values)))"

fun contains :: "string \<Rightarrow> string \<Rightarrow> bool" where
  "contains pat s \<longleftrightarrow> take (length pat) s = pat \<or> (case s of [] \<Rightarrow> False | _ # r \<Rightarrow> contains pat r)"

declare contains.simps [simp del]

definition map_json_error :: "string \<Rightarrow> contract_error" where
  "map_json_error message =
     (if contains DUPLICATE_MARKER message then DuplicateKey
      else if contains ''number out of range'' message then UnsafeNumber
      else JsonSyntax)"

text \<open>
  \<open>strict_json\<close>: the parameter \<open>reader\<close> stands for \<open>serde_json::Deserializer::from_slice\<close>;
  its second component is the error of \<open>Deserializer::end\<close>, trailing input.
\<close>

definition strict_json ::
  "(bytes \<Rightarrow> json_tree \<times> string option) \<Rightarrow> bytes \<Rightarrow> contract_error + json" where
  "strict_json reader input =
     (if take 3 input = [0xef, 0xbb, 0xbf] then Inl JsonSyntax
      else case reader input of (tree, trailing) \<Rightarrow>
        bindR (map_err map_json_error (strict_value tree)) (\<lambda>value.
          case trailing of Some m \<Rightarrow> Inl (map_json_error m) | None \<Rightarrow> Inr value))"

text \<open>
  \<open>serde_json::from_slice::<Value>\<close>, which keeps the last of duplicate members and reads a
  double without a finite value as null.
\<close>

fun plain_value :: "json_tree \<Rightarrow> string + json"
  and plain_seq :: "json_tree list \<Rightarrow> string + json list"
  and plain_map :: "(string \<times> json_tree) list \<Rightarrow> json_map \<Rightarrow> string + json_map"
where
  "plain_value TNull = Inr JNull"
| "plain_value (TBool b) = Inr (JBool b)"
| "plain_value (TI64 i) = Inr (JNumber (number_from_i64 i))"
| "plain_value (TU64 n) = Inr (JNumber (PosInt n))"
| "plain_value (TF64 r) = Inr (case r of Some x \<Rightarrow> JNumber (Float x) | None \<Rightarrow> JNull)"
| "plain_value (TStr s) = Inr (JString s)"
| "plain_value (TSeq ts e) =
     bindR (plain_seq ts) (\<lambda>vs. case e of Some m \<Rightarrow> Inl m | None \<Rightarrow> Inr (JArray vs))"
| "plain_value (TMap es e) =
     bindR (plain_map es []) (\<lambda>m. case e of Some d \<Rightarrow> Inl d | None \<Rightarrow> Inr (JObject m))"
| "plain_value (TError m) = Inl m"
| "plain_seq [] = Inr []"
| "plain_seq (t # ts) =
     bindR (plain_value t) (\<lambda>v. bindR (plain_seq ts) (\<lambda>vs. Inr (v # vs)))"
| "plain_map [] values = Inr values"
| "plain_map ((k, t) # es) values =
     bindR (plain_value t) (\<lambda>v. plain_map es (obj_insert k v values))"

definition from_slice_value ::
  "(bytes \<Rightarrow> json_tree \<times> string option) \<Rightarrow> bytes \<Rightarrow> string + json" where
  "from_slice_value reader input =
     (case reader input of (tree, trailing) \<Rightarrow>
        bindR (plain_value tree) (\<lambda>value.
          case trailing of Some m \<Rightarrow> Inl m | None \<Rightarrow> Inr value))"

section \<open>Field access\<close>

fun into_object :: "json \<Rightarrow> contract_error + json_map" where
  "into_object (JObject m) = Inr m"
| "into_object _ = Inl JsonSyntax"

fun into_string :: "json \<Rightarrow> contract_error + string" where
  "into_string (JString s) = Inr s"
| "into_string _ = Inl JsonSyntax"

definition reject_unknown :: "json_map \<Rightarrow> string list \<Rightarrow> contract_error + unit" where
  "reject_unknown object allowed =
     (if list_ex (\<lambda>key. key \<notin> set allowed) (obj_keys object) then Inl UnknownField else Inr ())"

definition take_required :: "json_map \<Rightarrow> string \<Rightarrow> contract_error + (json \<times> json_map)" where
  "take_required object key =
     bindR (ok_or (obj_get object key) MissingField) (\<lambda>v. Inr (v, obj_remove key object))"

section \<open>Payload validation\<close>

definition MAX_PAYLOAD_DEPTH :: nat where "MAX_PAYLOAD_DEPTH = 64"
definition MAX_SAFE_INTEGER :: nat where "MAX_SAFE_INTEGER = 9007199254740991"

definition f64_fract :: "rat \<Rightarrow> rat" where
  "f64_fract r = r - of_int (if r < 0 then \<lceil>r\<rceil> else \<lfloor>r\<rfloor>)"

definition validate_number :: "jnumber \<Rightarrow> contract_error + unit" where
  "validate_number number =
     (case as_i64 number of
        Some value \<Rightarrow> if nat \<bar>value\<bar> > MAX_SAFE_INTEGER then Inl UnsafeNumber else Inr ()
      | None \<Rightarrow>
        (case as_u64 number of
           Some value \<Rightarrow> if value > MAX_SAFE_INTEGER then Inl UnsafeNumber else Inr ()
         | None \<Rightarrow>
           bindR (ok_or (as_f64 number) UnsafeNumber) (\<lambda>value.
             if f64_fract value = 0 \<and> \<bar>value\<bar> > of_nat MAX_SAFE_INTEGER
             then Inl UnsafeNumber else Inr ())))"

fun validate_json_value :: "json \<Rightarrow> nat \<Rightarrow> contract_error + unit" where
  "validate_json_value value depth =
     (if depth > MAX_PAYLOAD_DEPTH then Inl LimitExceeded
      else case value of
        JNull \<Rightarrow> Inr () | JBool _ \<Rightarrow> Inr () | JString _ \<Rightarrow> Inr ()
      | JNumber number \<Rightarrow> validate_number number
      | JArray values \<Rightarrow> forR (\<lambda>v. validate_json_value v (depth + 1)) values
      | JObject object \<Rightarrow> forR (\<lambda>e. validate_json_value (snd e) (depth + 1)) object)"

section \<open>Well-formed values\<close>

text \<open>The invariants of the Rust types: maps have ascending keys, negative numbers are negative.\<close>

fun json_wf :: "json \<Rightarrow> bool" where
  "json_wf (JNumber (NegInt i)) \<longleftrightarrow> i < 0"
| "json_wf (JArray vs) \<longleftrightarrow> (\<forall>v \<in> set vs. json_wf v)"
| "json_wf (JObject m) \<longleftrightarrow> strictly_sorted fst m \<and> (\<forall>e \<in> set m. json_wf (snd e))"
| "json_wf _ \<longleftrightarrow> True"

lemma set_obj_insert: "set (obj_insert k v m) \<subseteq> insert (k, v) (set m)"
  by (induction k v m rule: obj_insert.induct) auto

lemma strict_value_wf_aux:
  "strict_value t = Inr v \<Longrightarrow> json_wf v"
  "strict_seq ts = Inr vs \<Longrightarrow> \<forall>v \<in> set vs. json_wf v"
  "strict_map es keys acc = Inr m \<Longrightarrow> json_wf (JObject acc) \<Longrightarrow> json_wf (JObject m)"
proof (induction t and ts and es keys acc arbitrary: v and vs and m
    rule: strict_value_strict_seq_strict_map.induct)
  case (13 k t es keys acc)
  then obtain v where v: "k \<notin> keys" "strict_value t = Inr v"
      "strict_map es (insert k keys) (obj_insert k v acc) = Inr m"
    by (auto simp: bindR_Inr_iff split: if_splits)
  have "json_wf (JObject (obj_insert k v acc))"
    using "13.IH"(1) [OF v(1,2)] "13.prems"(2) set_obj_insert [of k v acc]
    by (auto simp: obj_insert_sorted)
  with "13.IH"(2) [OF v] show ?case by simp
qed (auto simp: bindR_Inr_iff number_from_i64_def split: option.splits)

lemma strict_value_wf: "strict_value t = Inr v \<Longrightarrow> json_wf v"
  by (rule strict_value_wf_aux)

lemma strict_json_wf: "strict_json reader input = Inr v \<Longrightarrow> json_wf v"
  by (auto simp: strict_json_def bindR_Inr_iff split: if_splits prod.splits option.splits
      intro: strict_value_wf)

section \<open>What payload validation accepts\<close>

fun json_depth :: "json \<Rightarrow> nat" where
  "json_depth (JArray vs) = Suc (foldr max (map json_depth vs) 0)"
| "json_depth (JObject m) = Suc (foldr max (map (\<lambda>e. json_depth (snd e)) m) 0)"
| "json_depth _ = 1"

fun number_safe :: "jnumber \<Rightarrow> bool" where
  "number_safe (PosInt n) \<longleftrightarrow> n \<le> MAX_SAFE_INTEGER"
| "number_safe (NegInt i) \<longleftrightarrow> \<bar>i\<bar> \<le> int MAX_SAFE_INTEGER"
| "number_safe (Float r) \<longleftrightarrow> (f64_fract r = 0 \<longrightarrow> \<bar>r\<bar> \<le> of_nat MAX_SAFE_INTEGER)"

fun numbers_safe :: "json \<Rightarrow> bool" where
  "numbers_safe (JNumber n) \<longleftrightarrow> number_safe n"
| "numbers_safe (JArray vs) \<longleftrightarrow> (\<forall>v \<in> set vs. numbers_safe v)"
| "numbers_safe (JObject m) \<longleftrightarrow> (\<forall>e \<in> set m. numbers_safe (snd e))"
| "numbers_safe _ \<longleftrightarrow> True"

lemma validate_number_iff: "validate_number n = Inr () \<longleftrightarrow> number_safe n"
proof (cases n)
  case (PosInt k)
  show ?thesis
  proof (cases "k < 2 ^ 63")
    case True
    with PosInt show ?thesis by (simp add: validate_number_def not_less)
  next
    case False
    with PosInt show ?thesis by (simp add: validate_number_def MAX_SAFE_INTEGER_def not_less)
  qed
next
  case (NegInt i)
  then show ?thesis by (auto simp: validate_number_def not_less nat_le_iff)
next
  case (Float r)
  then show ?thesis by (auto simp: validate_number_def not_less)
qed

lemma foldr_max_le_iff: "foldr max xs (0::nat) \<le> b \<longleftrightarrow> (\<forall>x \<in> set xs. x \<le> b)"
  by (induction xs) auto

lemma json_depth_pos [simp]: "0 < json_depth v"
  by (cases v) auto

lemma validate_json_value_iff_aux:
  "validate_json_value v d = Inr () \<longleftrightarrow> d + json_depth v \<le> Suc MAX_PAYLOAD_DEPTH \<and> numbers_safe v"
proof (induction v d rule: validate_json_value.induct)
  case (1 v d)
  show ?case
  proof (cases "d \<le> MAX_PAYLOAD_DEPTH")
    case False
    then show ?thesis by (cases v) auto
  next
    case d: True
    then have nd: "\<not> MAX_PAYLOAD_DEPTH < d" by simp
    show ?thesis
    proof (cases v)
      case (JArray vs)
      have "validate_json_value v d = Inr () \<longleftrightarrow>
          (\<forall>x \<in> set vs. Suc d + json_depth x \<le> Suc MAX_PAYLOAD_DEPTH \<and> numbers_safe x)"
        using "1.IH"(1) [OF nd JArray] d by (simp add: JArray forR_Inr_iff)
      also have "\<dots> \<longleftrightarrow> d + json_depth v \<le> Suc MAX_PAYLOAD_DEPTH \<and> numbers_safe v"
        using d foldr_max_le_iff [of "map json_depth vs" "MAX_PAYLOAD_DEPTH - d"]
        by (auto simp: JArray le_diff_conv2 add.commute)
      finally show ?thesis .
    next
      case (JObject m)
      have "validate_json_value v d = Inr () \<longleftrightarrow>
          (\<forall>x \<in> set m. Suc d + json_depth (snd x) \<le> Suc MAX_PAYLOAD_DEPTH \<and> numbers_safe (snd x))"
        using "1.IH"(2) [OF nd JObject] d by (simp add: JObject forR_Inr_iff)
      also have "\<dots> \<longleftrightarrow> d + json_depth v \<le> Suc MAX_PAYLOAD_DEPTH \<and> numbers_safe v"
        using d foldr_max_le_iff [of "map (\<lambda>e. json_depth (snd e)) m" "MAX_PAYLOAD_DEPTH - d"]
        by (auto simp: JObject le_diff_conv2 add.commute)
      finally show ?thesis .
    qed (use d in \<open>auto simp: validate_number_iff\<close>)
  qed
qed

declare validate_json_value.simps [simp del]

lemma validate_json_value_iff:
  "validate_json_value v 1 = Inr () \<longleftrightarrow> json_depth v \<le> MAX_PAYLOAD_DEPTH \<and> numbers_safe v"
  by (simp add: validate_json_value_iff_aux)

section \<open>The value a canonical rendering denotes\<close>

text \<open>
  JCS renders an integral double like the integer, so parsing it back yields the integer:
  \<open>json_norm\<close> is that value, and \<open>tree_of\<close> the visitor calls of a parser reading it.
\<close>

fun norm_number :: "jnumber \<Rightarrow> jnumber" where
  "norm_number (Float r) = (if f64_fract r = 0 then number_from_i64 \<lfloor>r\<rfloor> else Float r)"
| "norm_number n = n"

fun json_norm :: "json \<Rightarrow> json" where
  "json_norm (JNumber n) = JNumber (norm_number n)"
| "json_norm (JArray vs) = JArray (map json_norm vs)"
| "json_norm (JObject m) = JObject (map (\<lambda>e. (fst e, json_norm (snd e))) m)"
| "json_norm v = v"

fun tree_of :: "json \<Rightarrow> json_tree" where
  "tree_of JNull = TNull"
| "tree_of (JBool b) = TBool b"
| "tree_of (JNumber (PosInt n)) = TU64 n"
| "tree_of (JNumber (NegInt i)) = TI64 i"
| "tree_of (JNumber (Float r)) = TF64 (Some r)"
| "tree_of (JString s) = TStr s"
| "tree_of (JArray vs) = TSeq (map tree_of vs) None"
| "tree_of (JObject m) = TMap (map (\<lambda>e. (fst e, tree_of (snd e))) m) None"

lemma strict_seq_map:
  "\<forall>v \<in> set vs. strict_value (tree_of v) = Inr v \<Longrightarrow> strict_seq (map tree_of vs) = Inr vs"
  by (induction vs) auto

lemma strict_map_map:
  "\<lbrakk>\<forall>e \<in> set m. strict_value (tree_of (snd e)) = Inr (snd e); strictly_sorted fst (acc @ m);
     keys = fst ` set acc\<rbrakk> \<Longrightarrow>
   strict_map (map (\<lambda>e. (fst e, tree_of (snd e))) m) keys acc = Inr (acc @ m)"
proof (induction m arbitrary: keys acc)
  case (Cons e m)
  obtain k v where e: "e = (k, v)" by (cases e)
  from Cons.prems(2) have lt: "\<forall>d \<in> set acc. fst d < k"
    by (auto simp: e strictly_sorted_def sorted_wrt_append)
  then have "k \<notin> keys" using Cons.prems(3) by auto
  moreover have "obj_insert k v acc = acc @ [(k, v)]" using lt by (rule obj_insert_last)
  ultimately show ?case
    using Cons.prems Cons.IH [of "acc @ [(k, v)]" "insert k keys"] by (simp add: e)
qed simp

lemma strict_value_tree_of: "json_wf v \<Longrightarrow> strict_value (tree_of v) = Inr v"
proof (induction v rule: tree_of.induct)
  case (7 vs)
  then show ?case by (simp add: strict_seq_map)
next
  case (8 m)
  then show ?case using strict_map_map [of m "[]" "{}"] by simp
qed (auto simp: number_from_i64_def)

lemma plain_seq_map:
  "\<forall>v \<in> set vs. plain_value (tree_of v) = Inr v \<Longrightarrow> plain_seq (map tree_of vs) = Inr vs"
  by (induction vs) auto

lemma plain_map_map:
  "\<lbrakk>\<forall>e \<in> set m. plain_value (tree_of (snd e)) = Inr (snd e); strictly_sorted fst (acc @ m)\<rbrakk> \<Longrightarrow>
   plain_map (map (\<lambda>e. (fst e, tree_of (snd e))) m) acc = Inr (acc @ m)"
proof (induction m arbitrary: acc)
  case (Cons e m)
  obtain k v where e: "e = (k, v)" by (cases e)
  from Cons.prems(2) have "\<forall>d \<in> set acc. fst d < k"
    by (auto simp: e strictly_sorted_def sorted_wrt_append)
  then have "obj_insert k v acc = acc @ [(k, v)]" by (rule obj_insert_last)
  then show ?case
    using Cons.prems Cons.IH [of "acc @ [(k, v)]"] by (simp add: e)
qed simp

lemma plain_value_tree_of: "json_wf v \<Longrightarrow> plain_value (tree_of v) = Inr v"
proof (induction v rule: tree_of.induct)
  case (7 vs)
  then show ?case by (simp add: plain_seq_map)
next
  case (8 m)
  then show ?case using plain_map_map [of m "[]"] by simp
qed (auto simp: number_from_i64_def)

lemma json_wf_norm: "json_wf v \<Longrightarrow> json_wf (json_norm v)"
proof (induction v rule: json_norm.induct)
  case (1 n)
  then show ?case by (cases n) (auto simp: number_from_i64_def)
qed (auto simp: strictly_sorted_map)

section \<open>Objects built from a list of fields\<close>

lemma obj_of_snoc: "obj_of (es @ [e]) = obj_insert (fst e) (snd e) (obj_of es)"
  by (simp add: obj_of_def)

lemma obj_of_sorted: "strictly_sorted fst (obj_of es)"
proof (induction es rule: rev_induct)
  case (snoc e es)
  then show ?case by (simp add: obj_of_snoc obj_insert_sorted)
qed (simp add: obj_of_def)

lemma obj_of_keys: "fst ` set (obj_of es) = fst ` set es"
proof (induction es rule: rev_induct)
  case (snoc e es)
  then show ?case by (simp add: obj_of_snoc set_obj_insert_keys)
qed (simp add: obj_of_def)

lemma set_obj_of: "set (obj_of es) \<subseteq> set es"
proof (induction es rule: rev_induct)
  case (snoc e es)
  then show ?case using set_obj_insert [of "fst e" "snd e" "obj_of es"] by (auto simp: obj_of_snoc)
qed (simp add: obj_of_def)

lemma obj_get_obj_of: "distinct (map fst es) \<Longrightarrow> obj_get (obj_of es) k = map_of es k"
proof (induction es arbitrary: k rule: rev_induct)
  case (snoc e es)
  then have IH: "map_of (obj_of es) = map_of es" and new: "fst e \<notin> fst ` set es"
    by (auto simp: obj_get_def fun_eq_iff)
  have "map_of es (fst e) = None" using new by (simp add: map_of_eq_None_iff)
  with IH show ?case
    by (cases e) (auto simp: obj_of_snoc obj_get_def map_of_obj_insert map_add_def split: option.splits)
qed (simp add: obj_of_def obj_get_def)

lemma obj_get_obj_remove [simp]:
  "obj_get (obj_remove k m) k' = (if k' = k then None else obj_get m k')"
  by (induction m) (auto simp: obj_get_def obj_remove_def)

lemma take_required_Inr_iff [simp]:
  "take_required m k = Inr (v, m') \<longleftrightarrow> obj_get m k = Some v \<and> m' = obj_remove k m"
  by (auto simp: take_required_def bindR_Inr_iff)

lemma take_required_present: "obj_get m k = Some v \<Longrightarrow> take_required m k = Inr (v, obj_remove k m)"
  by simp

lemma reject_unknown_Inr_iff: "reject_unknown m allowed = Inr () \<longleftrightarrow> fst ` set m \<subseteq> set allowed"
  by (auto simp: reject_unknown_def obj_keys_def list_ex_iff)

lemma reject_unknown_obj_of:
  "fst ` set es \<subseteq> set allowed \<Longrightarrow> reject_unknown (obj_of es) allowed = Inr ()"
  by (simp add: reject_unknown_Inr_iff obj_of_keys)

lemma map_obj_insert:
  "map (\<lambda>e. (fst e, f (snd e))) (obj_insert k v m) =
    obj_insert k (f v) (map (\<lambda>e. (fst e, f (snd e))) m)"
  by (induction k v m rule: obj_insert.induct) auto

lemma map_obj_of:
  "map (\<lambda>e. (fst e, f (snd e))) (obj_of es) = obj_of (map (\<lambda>e. (fst e, f (snd e))) es)"
proof (induction es rule: rev_induct)
  case (snoc e es)
  then show ?case by (simp add: obj_of_snoc map_obj_insert)
qed (simp add: obj_of_def)

lemma json_norm_obj_of [simp]:
  "json_norm (JObject (obj_of es)) = JObject (obj_of (map (\<lambda>e. (fst e, json_norm (snd e))) es))"
  by (simp add: map_obj_of)

lemma json_wf_obj_of: "\<forall>e \<in> set es. json_wf (snd e) \<Longrightarrow> json_wf (JObject (obj_of es))"
  using set_obj_of [of es] by (auto simp: obj_of_sorted)

lemma numbers_safe_obj_of:
  "\<forall>e \<in> set es. numbers_safe (snd e) \<Longrightarrow> numbers_safe (JObject (obj_of es))"
  using set_obj_of [of es] by auto

lemma json_depth_obj_of:
  "\<forall>e \<in> set es. json_depth (snd e) \<le> d \<Longrightarrow> json_depth (JObject (obj_of es)) \<le> Suc d"
  using set_obj_of [of es] by (auto simp: foldr_max_le_iff)

lemma json_depth_array: "\<forall>v \<in> set vs. json_depth v \<le> d \<Longrightarrow> json_depth (JArray vs) \<le> Suc d"
  by (auto simp: foldr_max_le_iff)

declare json_norm.simps(3) [simp del]

lemma f64_fract_0_iff: "f64_fract r = 0 \<longleftrightarrow> r \<in> \<int>"
proof
  assume "f64_fract r = 0"
  then have "r = of_int (if r < 0 then \<lceil>r\<rceil> else \<lfloor>r\<rfloor>)" by (simp add: f64_fract_def)
  then show "r \<in> \<int>" by (metis Ints_of_int)
next
  assume "r \<in> \<int>"
  then obtain i where "r = of_int i" by (auto elim: Ints_cases)
  then show "f64_fract r = 0" by (simp add: f64_fract_def)
qed

lemma number_safe_norm: "number_safe n \<Longrightarrow> number_safe (norm_number n)"
proof (cases n)
  case (Float r)
  assume safe: "number_safe n"
  show ?thesis
  proof (cases "f64_fract r = 0")
    case True
    then obtain i where i: "r = of_int i" by (auto simp: f64_fract_0_iff elim: Ints_cases)
    have "\<bar>r\<bar> \<le> of_nat MAX_SAFE_INTEGER" using safe Float True by simp
    then have "of_int \<bar>i\<bar> \<le> (of_int (int MAX_SAFE_INTEGER) :: rat)" using i by simp
    then have "\<bar>i\<bar> \<le> int MAX_SAFE_INTEGER" by (simp only: of_int_le_iff)
    then show ?thesis using Float True i by (auto simp: number_from_i64_def)
  qed (use Float safe in simp)
qed auto

lemma numbers_safe_norm: "numbers_safe v \<Longrightarrow> numbers_safe (json_norm v)"
  by (induction v rule: json_norm.induct) (auto simp: number_safe_norm json_norm.simps(3))

lemma json_depth_norm [simp]: "json_depth (json_norm v) = json_depth v"
proof (induction v rule: json_norm.induct)
  case (2 vs)
  then have "map (json_depth \<circ> json_norm) vs = map json_depth vs" by simp
  then show ?case by (simp only: json_norm.simps json_depth.simps map_map)
next
  case (3 m)
  then have "map (\<lambda>e. json_depth (json_norm (snd e))) m = map (\<lambda>e. json_depth (snd e)) m" by simp
  then show ?case by (simp only: json_norm.simps json_depth.simps map_map comp_def snd_conv)
qed auto

lemma norm_number_idem: "norm_number (norm_number n) = norm_number n"
  by (cases n) (auto simp: number_from_i64_def)

lemma json_norm_idem [simp]: "json_norm (json_norm v) = json_norm v"
  by (induction v rule: json_norm.induct) (auto simp: norm_number_idem json_norm.simps(3))

end
