(* ===== verification/Primitives.thy ===== *)
theory Primitives
  imports Json
begin

text \<open>
  The third-party primitives the code calls, gathered in one record that every definition
  takes as a parameter: the \<open>base64\<close> engine, the JCS serializer and JSON tokenizer, BLAKE3
  and Ed25519. What the code relies on of each is a named predicate, stating documented
  behaviour; theorems that need one have it as a hypothesis. The fixed-size identifiers and
  their canonical text form (\<open>fixed_text_type!\<close> of \<open>src/src/model.rs\<close>) are defined here.
\<close>

section \<open>The environment\<close>

record env =
  b64_encode :: "bytes \<Rightarrow> string"
  b64_decode :: "string \<Rightarrow> bytes option"
  jcs_to_vec :: "json \<Rightarrow> bytes option"
  json_reader :: "bytes \<Rightarrow> json_tree \<times> string option"
  blake3_derive :: "string \<Rightarrow> bytes \<Rightarrow> bytes"
  blake3_hash :: "bytes \<Rightarrow> bytes"
  ed_public :: "bytes \<Rightarrow> bytes"
  ed_sign :: "bytes \<Rightarrow> bytes \<Rightarrow> bytes"
  ed_key_ok :: "bytes \<Rightarrow> bool"
  ed_verify_strict :: "bytes \<Rightarrow> bytes \<Rightarrow> bytes \<Rightarrow> bool"

text \<open>RFC 4648 without padding: decoding inverts encoding, and six bits go into a character.\<close>

definition base64_lawful :: "env \<Rightarrow> bool" where
  "base64_lawful E \<longleftrightarrow>
     (\<forall>b. b64_decode E (b64_encode E b) = Some b) \<and>
     (\<forall>b. length (b64_encode E b) = (length b * 8 + 5) div 6)"

definition digest_lawful :: "env \<Rightarrow> bool" where
  "digest_lawful E \<longleftrightarrow>
     (\<forall>c d. length (blake3_derive E c d) = 32) \<and> (\<forall>d. length (blake3_hash E d) = 32)"

text \<open>RFC 8032: the signature made with a seed verifies under the seed's public key.\<close>

definition ed25519_lawful :: "env \<Rightarrow> bool" where
  "ed25519_lawful E \<longleftrightarrow>
     (\<forall>s. length (ed_public E s) = 32) \<and> (\<forall>s m. length (ed_sign E s m) = 64) \<and>
     (\<forall>s. ed_key_ok E (ed_public E s)) \<and>
     (\<forall>s m. ed_verify_strict E (ed_public E s) m (ed_sign E s m))"

text \<open>
  RFC 8785: a value with interoperable numbers has a canonical rendering, which carries no
  byte order mark and which the tokenizer (recursion limit 128) reads back as the value,
  integral doubles being read as integers, and which depends on that value only.
\<close>

definition jcs_lawful :: "env \<Rightarrow> bool" where
  "jcs_lawful E \<longleftrightarrow>
     (\<forall>v. json_wf v \<and> numbers_safe v \<and> json_depth v \<le> 127 \<longrightarrow>
       (\<exists>b. jcs_to_vec E v = Some b \<and> take 3 b \<noteq> [0xef, 0xbb, 0xbf] \<and>
            json_reader E b = (tree_of (json_norm v), None) \<and>
            jcs_to_vec E (json_norm v) = Some b))"

text \<open>
  RFC 8785 emits no white space: a string is quoted, a character taking at most the six bytes
  of an escape, and an object adds two braces, and a colon and a comma for each member.
\<close>

definition rendered_len :: "env \<Rightarrow> json \<Rightarrow> nat" where
  "rendered_len E v = (case jcs_to_vec E v of None \<Rightarrow> 0 | Some b \<Rightarrow> length b)"

definition jcs_compact :: "env \<Rightarrow> bool" where
  "jcs_compact E \<longleftrightarrow>
     (\<forall>s. rendered_len E (JString s) \<le> 2 + 6 * length s) \<and>
     (\<forall>m. rendered_len E (JObject m) \<le>
       2 + (\<Sum>(k, v)\<leftarrow>m. rendered_len E (JString k) + rendered_len E v + 2))"

definition env_lawful :: "env \<Rightarrow> bool" where
  "env_lawful E \<longleftrightarrow> base64_lawful E \<and> digest_lawful E \<and> ed25519_lawful E \<and> jcs_lawful E \<and> jcs_compact E"

lemma env_lawfulD:
  assumes "env_lawful E"
  shows "base64_lawful E" "digest_lawful E" "ed25519_lawful E" "jcs_lawful E"
  using assms by (auto simp: env_lawful_def)

lemma env_lawful_compact: "env_lawful E \<Longrightarrow> jcs_compact E"
  by (simp add: env_lawful_def)

lemma digest_length: "digest_lawful E \<Longrightarrow> length (blake3_derive E c d) = 32"
  by (simp add: digest_lawful_def)

definition canonicalize :: "env \<Rightarrow> json \<Rightarrow> contract_error + bytes" where
  "canonicalize E value = ok_or (jcs_to_vec E value) Canonicalization"

lemma canonicalize_len: "canonicalize E v = Inr b \<Longrightarrow> length b = rendered_len E v"
  by (simp add: canonicalize_def rendered_len_def)

text \<open>Reading a canonical rendering back.\<close>

lemma strict_json_canonicalize:
  assumes "jcs_lawful E" "json_wf v" "numbers_safe v" "json_depth v \<le> 127"
  obtains b where "canonicalize E v = Inr b" "canonicalize E (json_norm v) = Inr b"
    "strict_json (json_reader E) b = Inr (json_norm v)"
    "from_slice_value (json_reader E) b = Inr (json_norm v)"
proof -
  from assms obtain b where b: "jcs_to_vec E v = Some b" "take 3 b \<noteq> [0xef, 0xbb, 0xbf]"
      "json_reader E b = (tree_of (json_norm v), None)" "jcs_to_vec E (json_norm v) = Some b"
    unfolding jcs_lawful_def by blast
  moreover have "strict_value (tree_of (json_norm v)) = Inr (json_norm v)"
    using assms(2) by (intro strict_value_tree_of json_wf_norm)
  moreover have "plain_value (tree_of (json_norm v)) = Inr (json_norm v)"
    using assms(2) by (intro plain_value_tree_of json_wf_norm)
  ultimately show thesis
    by (intro that [of b]) (simp_all add: canonicalize_def strict_json_def from_slice_value_def)
qed

section \<open>Fixed-size identifiers and their text form\<close>

definition encoded_len :: "nat \<Rightarrow> nat" where
  "encoded_len sz = (sz * 8 + 5) div 6"

definition fixed_to_text :: "env \<Rightarrow> string \<Rightarrow> bytes \<Rightarrow> string" where
  "fixed_to_text E prefix b = prefix @ b64_encode E b"

definition fixed_from_text :: "env \<Rightarrow> string \<Rightarrow> nat \<Rightarrow> string \<Rightarrow> contract_error + bytes" where
  "fixed_from_text E prefix sz text =
     (if take (length prefix) text \<noteq> prefix \<or> length text \<noteq> length prefix + encoded_len sz
      then Inl InvalidEncoding
      else bindR (ok_or (b64_decode E (drop (length prefix) text)) InvalidEncoding) (\<lambda>decoded.
        if length decoded \<noteq> sz then Inl InvalidEncoding
        else if fixed_to_text E prefix decoded \<noteq> text then Inl InvalidEncoding
        else Inr decoded))"

lemma fixed_from_text_Inr:
  "fixed_from_text E prefix sz text = Inr b \<Longrightarrow> fixed_to_text E prefix b = text \<and> length b = sz"
  by (auto simp: fixed_from_text_def bindR_Inr_iff split: if_splits)

lemma fixed_from_to_text:
  "base64_lawful E \<Longrightarrow> length b = sz \<Longrightarrow>
    fixed_from_text E prefix sz (fixed_to_text E prefix b) = Inr b"
  by (simp add: fixed_from_text_def fixed_to_text_def base64_lawful_def encoded_len_def)

datatype event_id = EventId bytes
datatype context_id = ContextId bytes
datatype author_id = AuthorId bytes
datatype event_signature = EventSignature bytes

primrec event_id_bytes :: "event_id \<Rightarrow> bytes" where "event_id_bytes (EventId b) = b"
primrec context_id_bytes :: "context_id \<Rightarrow> bytes" where "context_id_bytes (ContextId b) = b"
primrec author_id_bytes :: "author_id \<Rightarrow> bytes" where "author_id_bytes (AuthorId b) = b"
primrec event_signature_bytes :: "event_signature \<Rightarrow> bytes" where
  "event_signature_bytes (EventSignature b) = b"

text \<open>The array lengths of the Rust types.\<close>

definition event_id_wf :: "event_id \<Rightarrow> bool" where
  "event_id_wf x \<longleftrightarrow> length (event_id_bytes x) = 32"
definition context_id_wf :: "context_id \<Rightarrow> bool" where
  "context_id_wf x \<longleftrightarrow> length (context_id_bytes x) = 32"
definition author_id_wf :: "author_id \<Rightarrow> bool" where
  "author_id_wf x \<longleftrightarrow> length (author_id_bytes x) = 32"
definition event_signature_wf :: "event_signature \<Rightarrow> bool" where
  "event_signature_wf x \<longleftrightarrow> length (event_signature_bytes x) = 64"

definition event_id_text :: "env \<Rightarrow> event_id \<Rightarrow> string" where
  "event_id_text E x = fixed_to_text E ''evt1_'' (event_id_bytes x)"
definition context_id_text :: "env \<Rightarrow> context_id \<Rightarrow> string" where
  "context_id_text E x = fixed_to_text E ''ctx1_'' (context_id_bytes x)"
definition author_id_text :: "env \<Rightarrow> author_id \<Rightarrow> string" where
  "author_id_text E x = fixed_to_text E ''ed25519_'' (author_id_bytes x)"
definition event_signature_text :: "env \<Rightarrow> event_signature \<Rightarrow> string" where
  "event_signature_text E x = fixed_to_text E ''sig1_'' (event_signature_bytes x)"

definition event_id_of_text :: "env \<Rightarrow> string \<Rightarrow> contract_error + event_id" where
  "event_id_of_text E t = bindR (fixed_from_text E ''evt1_'' 32 t) (\<lambda>b. Inr (EventId b))"
definition context_id_of_text :: "env \<Rightarrow> string \<Rightarrow> contract_error + context_id" where
  "context_id_of_text E t = bindR (fixed_from_text E ''ctx1_'' 32 t) (\<lambda>b. Inr (ContextId b))"
definition author_id_of_text :: "env \<Rightarrow> string \<Rightarrow> contract_error + author_id" where
  "author_id_of_text E t = bindR (fixed_from_text E ''ed25519_'' 32 t) (\<lambda>b. Inr (AuthorId b))"
definition event_signature_of_text :: "env \<Rightarrow> string \<Rightarrow> contract_error + event_signature" where
  "event_signature_of_text E t =
     bindR (fixed_from_text E ''sig1_'' 64 t) (\<lambda>b. Inr (EventSignature b))"

text \<open>
  The contract of a canonical text form, shared by every identifier type: rendering and
  parsing are inverse to each other, so a value has exactly one accepted text.
\<close>

locale text_codec =
  fixes lawful :: "'env \<Rightarrow> bool"
    and to_text :: "'env \<Rightarrow> 'a \<Rightarrow> string"
    and of_text :: "'env \<Rightarrow> string \<Rightarrow> 'e + 'a"
    and wf :: "'a \<Rightarrow> bool"
  assumes of_to_text: "lawful E \<Longrightarrow> wf x \<Longrightarrow> of_text E (to_text E x) = Inr x"
    and to_of_text: "of_text E t = Inr x \<Longrightarrow> to_text E x = t \<and> wf x"
begin

lemma to_text_inj: "lawful E \<Longrightarrow> wf a \<Longrightarrow> wf b \<Longrightarrow> to_text E a = to_text E b \<Longrightarrow> a = b"
  by (metis Inr_inject of_to_text)

lemma of_text_inj: "of_text E s = Inr x \<Longrightarrow> of_text E t = Inr x \<Longrightarrow> s = t"
  using to_of_text by blast

lemma of_text_iff: "lawful E \<Longrightarrow> of_text E t = Inr x \<longleftrightarrow> wf x \<and> t = to_text E x"
  using of_to_text to_of_text by blast

end

sublocale text_codec \<subseteq> canonical_order lawful to_text wf
  by unfold_locales (rule to_text_inj)

interpretation event_id: text_codec base64_lawful event_id_text event_id_of_text event_id_wf
proof
  fix E t and x :: event_id
  show "base64_lawful E \<Longrightarrow> event_id_wf x \<Longrightarrow> event_id_of_text E (event_id_text E x) = Inr x"
    by (cases x) (simp add: event_id_of_text_def event_id_text_def event_id_wf_def fixed_from_to_text)
  show "event_id_of_text E t = Inr x \<Longrightarrow> event_id_text E x = t \<and> event_id_wf x"
    by (auto simp: event_id_of_text_def event_id_text_def event_id_wf_def bindR_Inr_iff
        dest: fixed_from_text_Inr)
qed

interpretation context_id: text_codec base64_lawful context_id_text context_id_of_text context_id_wf
proof
  fix E t and x :: context_id
  show "base64_lawful E \<Longrightarrow> context_id_wf x \<Longrightarrow> context_id_of_text E (context_id_text E x) = Inr x"
    by (cases x)
      (simp add: context_id_of_text_def context_id_text_def context_id_wf_def fixed_from_to_text)
  show "context_id_of_text E t = Inr x \<Longrightarrow> context_id_text E x = t \<and> context_id_wf x"
    by (auto simp: context_id_of_text_def context_id_text_def context_id_wf_def bindR_Inr_iff
        dest: fixed_from_text_Inr)
qed

interpretation author_id: text_codec base64_lawful author_id_text author_id_of_text author_id_wf
proof
  fix E t and x :: author_id
  show "base64_lawful E \<Longrightarrow> author_id_wf x \<Longrightarrow> author_id_of_text E (author_id_text E x) = Inr x"
    by (cases x)
      (simp add: author_id_of_text_def author_id_text_def author_id_wf_def fixed_from_to_text)
  show "author_id_of_text E t = Inr x \<Longrightarrow> author_id_text E x = t \<and> author_id_wf x"
    by (auto simp: author_id_of_text_def author_id_text_def author_id_wf_def bindR_Inr_iff
        dest: fixed_from_text_Inr)
qed

interpretation event_signature: text_codec base64_lawful event_signature_text
  event_signature_of_text event_signature_wf
proof
  fix E t and x :: event_signature
  show "base64_lawful E \<Longrightarrow> event_signature_wf x \<Longrightarrow>
      event_signature_of_text E (event_signature_text E x) = Inr x"
    by (cases x) (simp add: event_signature_of_text_def event_signature_text_def
        event_signature_wf_def fixed_from_to_text)
  show "event_signature_of_text E t = Inr x \<Longrightarrow>
      event_signature_text E x = t \<and> event_signature_wf x"
    by (auto simp: event_signature_of_text_def event_signature_text_def event_signature_wf_def
        bindR_Inr_iff dest: fixed_from_text_Inr)
qed

section \<open>Names: event kinds, branches, peers\<close>

definition is_ascii_lowercase :: "char \<Rightarrow> bool" where
  "is_ascii_lowercase c \<longleftrightarrow> CHR ''a'' \<le> c \<and> c \<le> CHR ''z''"
definition is_ascii_uppercase :: "char \<Rightarrow> bool" where
  "is_ascii_uppercase c \<longleftrightarrow> CHR ''A'' \<le> c \<and> c \<le> CHR ''Z''"
definition is_ascii_digit :: "char \<Rightarrow> bool" where
  "is_ascii_digit c \<longleftrightarrow> CHR ''0'' \<le> c \<and> c \<le> CHR ''9''"
definition is_name_separator :: "char \<Rightarrow> bool" where
  "is_name_separator c \<longleftrightarrow> c \<in> {CHR ''.'', CHR ''_'', CHR ''-''}"

text \<open>The loop over \<open>bytes[1..]\<close> that \<open>validate_kind\<close> and \<open>validate_name\<close> share; the flag is
  \<open>previous_separator\<close>, and the final check is the one after the loop.\<close>

fun name_tail_ok :: "string \<Rightarrow> bool \<Rightarrow> bool" where
  "name_tail_ok [] previous_separator = (\<not> previous_separator)"
| "name_tail_ok (c # cs) previous_separator =
     (if is_ascii_lowercase c \<or> is_ascii_digit c then name_tail_ok cs False
      else if is_name_separator c \<and> \<not> previous_separator then name_tail_ok cs True
      else False)"

definition name_ok :: "nat \<Rightarrow> string \<Rightarrow> bool" where
  "name_ok max_bytes text \<longleftrightarrow>
     text \<noteq> [] \<and> length text \<le> max_bytes \<and> is_ascii_lowercase (hd text) \<and>
     name_tail_ok (tl text) False"

text \<open>The grammar the loop accepts, stated without a scan state.\<close>

definition name_grammar :: "nat \<Rightarrow> string \<Rightarrow> bool" where
  "name_grammar max_bytes text \<longleftrightarrow>
     0 < length text \<and> length text \<le> max_bytes \<and> is_ascii_lowercase (text ! 0) \<and>
     (\<forall>c \<in> set text. is_ascii_lowercase c \<or> is_ascii_digit c \<or> is_name_separator c) \<and>
     (\<forall>i. Suc i < length text \<longrightarrow>
        \<not> (is_name_separator (text ! i) \<and> is_name_separator (text ! Suc i))) \<and>
     \<not> is_name_separator (last text)"

lemma separator_not_word:
  "is_name_separator c \<Longrightarrow> \<not> is_ascii_lowercase c \<and> \<not> is_ascii_digit c"
  by (auto simp: is_name_separator_def is_ascii_lowercase_def is_ascii_digit_def less_eq_char_def)

lemma all_adjacent_Cons:
  "(\<forall>i. Suc i < length (x # y # zs) \<longrightarrow> P ((x # y # zs) ! i) ((x # y # zs) ! Suc i)) \<longleftrightarrow>
   P x y \<and> (\<forall>i. Suc i < length (y # zs) \<longrightarrow> P ((y # zs) ! i) ((y # zs) ! Suc i))"
  (is "?L \<longleftrightarrow> ?R")
proof
  assume L: ?L
  have "P x y" using L [rule_format, of 0] by simp
  moreover have "P ((y # zs) ! i) ((y # zs) ! Suc i)" if "Suc i < length (y # zs)" for i
    using L [rule_format, of "Suc i"] that by simp
  ultimately show ?R by blast
next
  assume R: ?R
  show ?L
  proof (intro allI impI)
    fix i assume "Suc i < length (x # y # zs)"
    with R show "P ((x # y # zs) ! i) ((x # y # zs) ! Suc i)" by (cases i) auto
  qed
qed

lemma name_tail_ok_iff:
  "name_tail_ok cs (is_name_separator c) \<longleftrightarrow>
     (\<forall>d \<in> set cs. is_ascii_lowercase d \<or> is_ascii_digit d \<or> is_name_separator d) \<and>
     (\<forall>i. Suc i < length (c # cs) \<longrightarrow>
        \<not> (is_name_separator ((c # cs) ! i) \<and> is_name_separator ((c # cs) ! Suc i))) \<and>
     \<not> is_name_separator (last (c # cs))"
proof (induction cs arbitrary: c)
  case (Cons d cs)
  have d: "is_name_separator d \<Longrightarrow> \<not> is_ascii_lowercase d \<and> \<not> is_ascii_digit d"
    by (rule separator_not_word)
  have adj: "(\<forall>i. Suc i < length (c # d # cs) \<longrightarrow>
        \<not> (is_name_separator ((c # d # cs) ! i) \<and> is_name_separator ((c # d # cs) ! Suc i))) \<longleftrightarrow>
      \<not> (is_name_separator c \<and> is_name_separator d) \<and>
      (\<forall>i. Suc i < length (d # cs) \<longrightarrow>
        \<not> (is_name_separator ((d # cs) ! i) \<and> is_name_separator ((d # cs) ! Suc i)))"
    by (rule all_adjacent_Cons [of c d cs "\<lambda>a b. \<not> (is_name_separator a \<and> is_name_separator b)"])
  have "name_tail_ok (d # cs) (is_name_separator c) \<longleftrightarrow>
      (is_ascii_lowercase d \<or> is_ascii_digit d \<or> is_name_separator d) \<and>
      \<not> (is_name_separator c \<and> is_name_separator d) \<and> name_tail_ok cs (is_name_separator d)"
    using d by (cases "is_name_separator d") auto
  then show ?case
    unfolding adj Cons.IH [of d] by (simp only: list.set ball_simps last.simps list.distinct if_False) blast
qed simp

lemma name_ok_iff_grammar: "name_ok n s \<longleftrightarrow> name_grammar n s"
proof (cases s)
  case (Cons c cs)
  show ?thesis
  proof (cases "is_ascii_lowercase c")
    case True
    then have "\<not> is_name_separator c" using separator_not_word by blast
    then have "name_tail_ok cs False \<longleftrightarrow> name_tail_ok cs (is_name_separator c)" by simp
    with True Cons show ?thesis
      unfolding name_ok_def name_grammar_def name_tail_ok_iff by (auto simp: Cons)
  qed (simp add: Cons name_ok_def name_grammar_def)
qed (simp add: name_ok_def name_grammar_def)

end
