(* ===== verification/Event_Model.thy ===== *)
theory Event_Model
  imports Primitives
begin

text \<open>
  The version-1 event body of \<open>src/src/model.rs\<close>: construction, strict parsing, validation
  and canonical bytes. A body renders to JSON field by field as the derived \<open>Serialize\<close> does.
\<close>

section \<open>Limits\<close>

definition EVENT_VERSION :: nat where "EVENT_VERSION = 1"
definition MAX_PARENTS :: nat where "MAX_PARENTS = 64"
definition MAX_KIND_BYTES :: nat where "MAX_KIND_BYTES = 64"
definition MAX_CANONICAL_PAYLOAD_BYTES :: nat where "MAX_CANONICAL_PAYLOAD_BYTES = 1048576"
definition MAX_CANONICAL_BODY_BYTES :: nat where "MAX_CANONICAL_BODY_BYTES = 1114112"
definition MAX_RAW_WIRE_BYTES :: nat where "MAX_RAW_WIRE_BYTES = 2097152"

section \<open>The body\<close>

record event_body =
  body_version :: nat
  body_context :: context_id
  body_parents :: "event_id list"
  body_kind :: string
  body_author :: author_id
  body_payload :: json

definition body_fields :: "env \<Rightarrow> event_body \<Rightarrow> (string \<times> json) list" where
  "body_fields E b =
     [(''version'', JNumber (PosInt (body_version b))),
      (''context'', JString (context_id_text E (body_context b))),
      (''parents'', JArray (map (\<lambda>p. JString (event_id_text E p)) (body_parents b))),
      (''kind'', JString (body_kind b)),
      (''author'', JString (author_id_text E (body_author b))),
      (''payload'', body_payload b)]"

definition body_json :: "env \<Rightarrow> event_body \<Rightarrow> json" where
  "body_json E b = JObject (obj_of (body_fields E b))"

definition validate_kind :: "string \<Rightarrow> contract_error + unit" where
  "validate_kind kind =
     (if kind = [] \<or> length kind > MAX_KIND_BYTES \<or> \<not> is_ascii_lowercase (hd kind)
      then Inl InvalidKind
      else if name_tail_ok (tl kind) False then Inr () else Inl InvalidKind)"

definition validate_body :: "env \<Rightarrow> event_body \<Rightarrow> contract_error + unit" where
  "validate_body E b =
     (if body_version b \<noteq> EVENT_VERSION then Inl UnsupportedVersion
      else if length (body_parents b) > MAX_PARENTS then Inl LimitExceeded
      else bindR (validate_kind (body_kind b)) (\<lambda>_.
        if windows2_any (\<lambda>p q. event_id_text E q \<le> event_id_text E p) (body_parents b)
        then Inl ParentOrder
        else bindR (validate_json_value (body_payload b) 1) (\<lambda>_.
          bindR (canonicalize E (body_payload b)) (\<lambda>payload.
            if length payload > MAX_CANONICAL_PAYLOAD_BYTES then Inl LimitExceeded
            else bindR (canonicalize E (body_json E b)) (\<lambda>body.
              if length body > MAX_CANONICAL_BODY_BYTES then Inl LimitExceeded
              else Inr ())))))"

definition body_new ::
  "env \<Rightarrow> context_id \<Rightarrow> event_id list \<Rightarrow> string \<Rightarrow> author_id \<Rightarrow> json \<Rightarrow> contract_error + event_body"
where
  "body_new E context parents kind author payload =
     (let body = \<lparr>body_version = EVENT_VERSION, body_context = context, body_parents = parents,
                  body_kind = kind, body_author = author, body_payload = payload\<rparr>
      in bindR (validate_body E body) (\<lambda>_. Inr body))"

definition canonical_bytes :: "env \<Rightarrow> event_body \<Rightarrow> contract_error + bytes" where
  "canonical_bytes E b = bindR (validate_body E b) (\<lambda>_. canonicalize E (body_json E b))"

definition canonical_payload_bytes :: "env \<Rightarrow> json \<Rightarrow> contract_error + bytes" where
  "canonical_payload_bytes E payload =
     bindR (validate_json_value payload 1) (\<lambda>_.
       bindR (canonicalize E payload) (\<lambda>b.
         if length b > MAX_CANONICAL_PAYLOAD_BYTES then Inl LimitExceeded else Inr b))"

section \<open>Parsing\<close>

definition parse_text ::
  "(string \<Rightarrow> contract_error + 'a) \<Rightarrow> json \<Rightarrow> contract_error + 'a" where
  "parse_text of_text value = bindR (into_string value) of_text"

fun parse_version :: "nat \<Rightarrow> json \<Rightarrow> contract_error + nat" where
  "parse_version expected (JNumber n) =
     (if as_u64 n = Some expected then Inr expected else Inl UnsupportedVersion)"
| "parse_version expected _ = Inl JsonSyntax"

fun parse_id_array :: "env \<Rightarrow> json \<Rightarrow> contract_error + event_id list" where
  "parse_id_array E (JArray values) = collectR (parse_text (event_id_of_text E)) values"
| "parse_id_array E _ = Inl JsonSyntax"

definition parse_body :: "env \<Rightarrow> json \<Rightarrow> contract_error + event_body" where
  "parse_body E value =
     bindR (into_object value) (\<lambda>ob.
     bindR (reject_unknown ob
       [''version'', ''context'', ''parents'', ''kind'', ''author'', ''payload'']) (\<lambda>_.
     bindR (take_required ob ''version'') (\<lambda>(version_value, ob).
     bindR (take_required ob ''context'') (\<lambda>(context_value, ob).
     bindR (take_required ob ''parents'') (\<lambda>(parents_value, ob).
     bindR (take_required ob ''kind'') (\<lambda>(kind_value, ob).
     bindR (take_required ob ''author'') (\<lambda>(author_value, ob).
     bindR (take_required ob ''payload'') (\<lambda>(payload, ob).
     bindR (parse_version EVENT_VERSION version_value) (\<lambda>version.
     bindR (parse_text (context_id_of_text E) context_value) (\<lambda>context.
     bindR (parse_id_array E parents_value) (\<lambda>parents.
     bindR (into_string kind_value) (\<lambda>kind.
     bindR (parse_text (author_id_of_text E) author_value) (\<lambda>author.
     (let body = \<lparr>body_version = version, body_context = context, body_parents = parents,
                  body_kind = kind, body_author = author, body_payload = payload\<rparr>
      in bindR (validate_body E body) (\<lambda>_. Inr body)))))))))))))))"

definition body_from_json :: "env \<Rightarrow> bytes \<Rightarrow> contract_error + event_body" where
  "body_from_json E input =
     (if length input > MAX_RAW_WIRE_BYTES then Inl WireTooLarge
      else bindR (strict_json (json_reader E) input) (parse_body E))"

section \<open>What validation establishes\<close>

text \<open>The type invariants of the Rust fields.\<close>

definition body_wf :: "event_body \<Rightarrow> bool" where
  "body_wf b \<longleftrightarrow> context_id_wf (body_context b) \<and> author_id_wf (body_author b) \<and>
     (\<forall>p \<in> set (body_parents b). event_id_wf p) \<and> json_wf (body_payload b)"

lemma validate_kind_iff: "validate_kind k = Inr () \<longleftrightarrow> name_ok MAX_KIND_BYTES k"
  by (auto simp: validate_kind_def name_ok_def)

lemma validate_body_iff:
  "validate_body E b = Inr () \<longleftrightarrow>
     body_version b = EVENT_VERSION \<and> length (body_parents b) \<le> MAX_PARENTS \<and>
     name_ok MAX_KIND_BYTES (body_kind b) \<and>
     strictly_sorted (event_id_text E) (body_parents b) \<and>
     json_depth (body_payload b) \<le> MAX_PAYLOAD_DEPTH \<and> numbers_safe (body_payload b) \<and>
     (\<exists>p. canonicalize E (body_payload b) = Inr p \<and> length p \<le> MAX_CANONICAL_PAYLOAD_BYTES) \<and>
     (\<exists>c. canonicalize E (body_json E b) = Inr c \<and> length c \<le> MAX_CANONICAL_BODY_BYTES)"
  unfolding validate_body_def
  by (auto simp: bindR_Inr_iff validate_kind_iff validate_json_value_iff [unfolded One_nat_def]
      windows2_any_ge_iff [symmetric] not_less)

lemma canonical_bytes_Inr_iff:
  "canonical_bytes E b = Inr c \<longleftrightarrow> validate_body E b = Inr () \<and> canonicalize E (body_json E b) = Inr c"
  by (auto simp: canonical_bytes_def bindR_Inr_iff)

text \<open>The body a canonical rendering reads back as: its payload in normal form.\<close>

definition norm_body :: "event_body \<Rightarrow> event_body" where
  "norm_body b = b\<lparr>body_payload := json_norm (body_payload b)\<rparr>"

lemma norm_body_simps [simp]:
  "body_version (norm_body b) = body_version b" "body_context (norm_body b) = body_context b"
  "body_parents (norm_body b) = body_parents b" "body_kind (norm_body b) = body_kind b"
  "body_author (norm_body b) = body_author b"
  "body_payload (norm_body b) = json_norm (body_payload b)"
  by (simp_all add: norm_body_def)

lemma body_json_norm: "json_norm (body_json E b) = body_json E (norm_body b)"
  by (simp add: body_json_def body_fields_def comp_def)

lemma body_json_wf: "json_wf (body_payload b) \<Longrightarrow> json_wf (body_json E b)"
  unfolding body_json_def by (rule json_wf_obj_of) (simp add: body_fields_def)

lemma body_json_safe:
  "validate_body E b = Inr () \<Longrightarrow> numbers_safe (body_json E b)"
  unfolding body_json_def
  by (rule numbers_safe_obj_of)
    (auto simp: body_fields_def validate_body_iff EVENT_VERSION_def MAX_SAFE_INTEGER_def)

lemma body_json_depth:
  "validate_body E b = Inr () \<Longrightarrow> json_depth (body_json E b) \<le> 65"
  unfolding body_json_def
  using json_depth_obj_of [of "body_fields E b" 64]
  by (auto simp: body_fields_def validate_body_iff MAX_PAYLOAD_DEPTH_def foldr_max_le_iff)

lemma validate_norm_body:
  assumes "jcs_lawful E" "body_wf b" "validate_body E b = Inr ()"
  shows "validate_body E (norm_body b) = Inr ()"
    and "canonicalize E (body_json E (norm_body b)) = canonicalize E (body_json E b)"
proof -
  have depth: "json_depth (body_payload b) \<le> 127" "json_depth (body_json E b) \<le> 127"
    using assms(3) body_json_depth [OF assms(3)]
    by (auto simp: validate_body_iff MAX_PAYLOAD_DEPTH_def)
  have safe: "numbers_safe (body_payload b)" using assms(3) by (simp add: validate_body_iff)
  have wf: "json_wf (body_payload b)" using assms(2) by (simp add: body_wf_def)
  obtain p where p: "canonicalize E (body_payload b) = Inr p"
      "canonicalize E (json_norm (body_payload b)) = Inr p"
    by (rule strict_json_canonicalize [OF assms(1) wf safe depth(1)])
  obtain c where c: "canonicalize E (body_json E b) = Inr c"
      "canonicalize E (json_norm (body_json E b)) = Inr c"
    by (rule strict_json_canonicalize
        [OF assms(1) body_json_wf [OF wf] body_json_safe [OF assms(3)] depth(2)])
  show "canonicalize E (body_json E (norm_body b)) = canonicalize E (body_json E b)"
    using c by (simp add: body_json_norm)
  then show "validate_body E (norm_body b) = Inr ()"
    using assms(3) p safe by (simp add: validate_body_iff numbers_safe_norm)
qed

lemma parse_version_PosInt: "parse_version n (JNumber (PosInt n)) = Inr n"
  by simp

lemma parse_id_array_map:
  "base64_lawful E \<Longrightarrow> \<forall>p \<in> set ps. event_id_wf p \<Longrightarrow>
    parse_id_array E (JArray (map (\<lambda>p. JString (event_id_text E p)) ps)) = Inr ps"
  using collectR_map_Inr [of ps "parse_text (event_id_of_text E)"
      "\<lambda>p. JString (event_id_text E p)" "\<lambda>p. p"]
  by (simp add: parse_text_def event_id.of_to_text)

lemma parse_body_json:
  assumes "base64_lawful E" "body_wf b" "validate_body E b = Inr ()"
  shows "parse_body E (body_json E b) = Inr b"
proof -
  have dist: "distinct (map fst (body_fields E b))" by (simp add: body_fields_def)
  define m where "m = obj_of (body_fields E b)"
  have get [simp]: "obj_get m ''version'' = Some (JNumber (PosInt (body_version b)))"
    "obj_get m ''context'' = Some (JString (context_id_text E (body_context b)))"
    "obj_get m ''parents'' = Some (JArray (map (\<lambda>p. JString (event_id_text E p)) (body_parents b)))"
    "obj_get m ''kind'' = Some (JString (body_kind b))"
    "obj_get m ''author'' = Some (JString (author_id_text E (body_author b)))"
    "obj_get m ''payload'' = Some (body_payload b)"
    unfolding m_def obj_get_obj_of [OF dist] by (simp_all add: body_fields_def)
  have wf: "context_id_wf (body_context b)" "author_id_wf (body_author b)"
      "\<forall>p \<in> set (body_parents b). event_id_wf p"
    using assms(2) by (auto simp: body_wf_def)
  have version: "body_version b = EVENT_VERSION" using assms(3) by (simp add: validate_body_iff)
  have known: "reject_unknown m
      [''version'', ''context'', ''parents'', ''kind'', ''author'', ''payload''] = Inr ()"
    unfolding m_def by (rule reject_unknown_obj_of) (simp add: body_fields_def)
  have same: "\<lparr>body_version = EVENT_VERSION, body_context = body_context b,
      body_parents = body_parents b, body_kind = body_kind b, body_author = body_author b,
      body_payload = body_payload b\<rparr> = b"
    by (simp add: version [symmetric])
  show ?thesis
    unfolding parse_body_def body_json_def into_object.simps bindR_simps m_def [symmetric] known
    by (simp add: take_required_present parse_text_def wf assms(1) assms(3) version same
        context_id.of_to_text author_id.of_to_text parse_id_array_map del: parse_id_array.simps)
qed

lemma parse_id_array_wf: "parse_id_array E v = Inr ids \<Longrightarrow> \<forall>p \<in> set ids. event_id_wf p"
proof (cases v)
  case (JArray vs)
  assume "parse_id_array E v = Inr ids"
  with JArray have "list_all2 (\<lambda>x y. parse_text (event_id_of_text E) x = Inr y) vs ids"
    by (simp add: collectR_Inr_iff)
  then show ?thesis
    by (induction rule: list_all2_induct)
      (auto simp: parse_text_def bindR_Inr_iff dest: event_id.to_of_text)
qed auto

lemma parse_body_Inr:
  assumes "parse_body E v = Inr b" "json_wf v"
  shows "validate_body E b = Inr ()" "body_wf b"
proof -
  obtain m where m: "v = JObject m" using assms(1)
    by (cases v) (auto simp: parse_body_def)
  have payload: "json_wf p" if "obj_get m k = Some p" for k p
    using that assms(2) m map_of_SomeD by (fastforce simp: obj_get_def)
  show "validate_body E b = Inr ()" "body_wf b"
    using assms(1) unfolding parse_body_def m
    by (auto simp: bindR_Inr_iff Let_def body_wf_def parse_text_def
        dest: payload parse_id_array_wf context_id.to_of_text author_id.to_of_text)
qed

end
