(* ===== verification/Crypto.thy ===== *)
theory Crypto
  imports Event_Model
begin

text \<open>
  Identity, signatures and the signed envelope: \<open>src/src/crypto.rs\<close> and \<open>SignedEventV1\<close> of
  \<open>src/src/model.rs\<close>. Key-file custody (file system calls) is not modelled.
\<close>

section \<open>Domain-separated identity and signatures\<close>

definition EVENT_ID_DOMAIN :: string where
  "EVENT_ID_DOMAIN = ''org.aaif.contextmesh.event-id.v1''"
definition SIGNATURE_DOMAIN :: bytes where
  "SIGNATURE_DOMAIN = string_bytes ''org.aaif.contextmesh.signature.v1'' @ [0]"

datatype signing_identity = SigningIdentity bytes

primrec identity_seed :: "signing_identity \<Rightarrow> bytes" where
  "identity_seed (SigningIdentity seed) = seed"

text \<open>\<open>entropy\<close> is what \<open>getrandom::fill\<close> produced.\<close>

definition identity_generate :: "bytes option \<Rightarrow> contract_error + signing_identity" where
  "identity_generate entropy =
     bindR (ok_or entropy Entropy) (\<lambda>seed. Inr (SigningIdentity seed))"

definition identity_author :: "env \<Rightarrow> signing_identity \<Rightarrow> author_id" where
  "identity_author E idn = AuthorId (ed_public E (identity_seed idn))"

definition derive_event_id :: "env \<Rightarrow> event_body \<Rightarrow> contract_error + event_id" where
  "derive_event_id E body =
     bindR (canonical_bytes E body) (\<lambda>canonical. Inr (EventId (blake3_derive E EVENT_ID_DOMAIN canonical)))"

definition signing_message :: "event_id \<Rightarrow> bytes" where
  "signing_message eid = SIGNATURE_DOMAIN @ event_id_bytes eid"

definition sign_event_id :: "env \<Rightarrow> signing_identity \<Rightarrow> event_id \<Rightarrow> event_signature" where
  "sign_event_id E idn eid = EventSignature (ed_sign E (identity_seed idn) (signing_message eid))"

definition verify_parts ::
  "env \<Rightarrow> event_body \<Rightarrow> event_id \<Rightarrow> event_signature \<Rightarrow> contract_error + unit" where
  "verify_parts E body supplied_id signature =
     bindR (validate_body E body) (\<lambda>_.
     bindR (derive_event_id E body) (\<lambda>expected_id.
       if supplied_id \<noteq> expected_id then Inl IdMismatch
       else let author_bytes = author_id_bytes (body_author body) in
         if \<not> ed_key_ok E author_bytes then Inl SignatureInvalid
         else if ed_verify_strict E author_bytes (signing_message supplied_id)
                  (event_signature_bytes signature)
         then Inr () else Inl SignatureInvalid))"

definition sign_domain_message :: "env \<Rightarrow> signing_identity \<Rightarrow> bytes \<Rightarrow> bytes \<Rightarrow> bytes" where
  "sign_domain_message E idn domain message = ed_sign E (identity_seed idn) (domain @ message)"

definition verify_domain_message ::
  "env \<Rightarrow> author_id \<Rightarrow> bytes \<Rightarrow> bytes \<Rightarrow> bytes \<Rightarrow> contract_error + unit" where
  "verify_domain_message E author domain message signature =
     (if length signature \<noteq> 64 then Inl SignatureInvalid
      else if \<not> ed_key_ok E (author_id_bytes author) then Inl SignatureInvalid
      else if ed_verify_strict E (author_id_bytes author) (domain @ message) signature
      then Inr () else Inl SignatureInvalid)"

section \<open>The signed envelope\<close>

record signed_event =
  ev_id :: event_id
  ev_body :: event_body
  ev_signature :: event_signature

definition from_verified_parts :: "event_id \<Rightarrow> event_body \<Rightarrow> event_signature \<Rightarrow> signed_event" where
  "from_verified_parts eid body signature =
     \<lparr>ev_id = eid, ev_body = body, ev_signature = signature\<rparr>"

definition event_fields :: "env \<Rightarrow> signed_event \<Rightarrow> (string \<times> json) list" where
  "event_fields E ev =
     [(''event_id'', JString (event_id_text E (ev_id ev))),
      (''body'', body_json E (ev_body ev)),
      (''signature'', JString (event_signature_text E (ev_signature ev)))]"

definition event_json :: "env \<Rightarrow> signed_event \<Rightarrow> json" where
  "event_json E ev = JObject (obj_of (event_fields E ev))"

definition verify_event :: "env \<Rightarrow> signed_event \<Rightarrow> contract_error + unit" where
  "verify_event E ev = verify_parts E (ev_body ev) (ev_id ev) (ev_signature ev)"

definition to_wire :: "env \<Rightarrow> signed_event \<Rightarrow> contract_error + bytes" where
  "to_wire E ev = bindR (verify_event E ev) (\<lambda>_. canonicalize E (event_json E ev))"

definition event_of_json :: "env \<Rightarrow> json \<Rightarrow> contract_error + signed_event" where
  "event_of_json E value =
     bindR (into_object value) (\<lambda>ob.
     bindR (reject_unknown ob [''event_id'', ''body'', ''signature'']) (\<lambda>_.
     bindR (take_required ob ''event_id'') (\<lambda>(event_id_value, ob).
     bindR (take_required ob ''body'') (\<lambda>(body_value, ob).
     bindR (take_required ob ''signature'') (\<lambda>(signature_value, ob).
     bindR (parse_body E body_value) (\<lambda>body.
     bindR (parse_text (event_id_of_text E) event_id_value) (\<lambda>eid.
     bindR (parse_text (event_signature_of_text E) signature_value) (\<lambda>signature.
     bindR (verify_parts E body eid signature) (\<lambda>_.
       Inr (from_verified_parts eid body signature))))))))))"

definition from_wire :: "env \<Rightarrow> bytes \<Rightarrow> contract_error + signed_event" where
  "from_wire E input =
     (if length input > MAX_RAW_WIRE_BYTES then Inl WireTooLarge
      else bindR (strict_json (json_reader E) input) (event_of_json E))"

definition sign_body :: "env \<Rightarrow> signing_identity \<Rightarrow> event_body \<Rightarrow> contract_error + signed_event" where
  "sign_body E idn body =
     bindR (validate_body E body) (\<lambda>_.
       if body_author body \<noteq> identity_author E idn then Inl AuthorMismatch
       else bindR (derive_event_id E body) (\<lambda>eid.
         Inr (from_verified_parts eid body (sign_event_id E idn eid))))"

definition create_event ::
  "env \<Rightarrow> signing_identity \<Rightarrow> context_id \<Rightarrow> event_id list \<Rightarrow> string \<Rightarrow> json \<Rightarrow>
    contract_error + signed_event" where
  "create_event E idn context parents kind payload =
     bindR (body_new E context parents kind (identity_author E idn) payload) (sign_body E idn)"

section \<open>Facts on verified events\<close>

definition event_wf :: "signed_event \<Rightarrow> bool" where
  "event_wf ev \<longleftrightarrow> event_id_wf (ev_id ev) \<and> event_signature_wf (ev_signature ev) \<and> body_wf (ev_body ev)"

lemma derive_event_id_Inr_iff:
  "derive_event_id E b = Inr eid \<longleftrightarrow>
     (\<exists>c. canonical_bytes E b = Inr c \<and> eid = EventId (blake3_derive E EVENT_ID_DOMAIN c))"
  by (auto simp: derive_event_id_def bindR_Inr_iff)

lemma verify_parts_iff:
  "verify_parts E b eid sig = Inr () \<longleftrightarrow>
     derive_event_id E b = Inr eid \<and> ed_key_ok E (author_id_bytes (body_author b)) \<and>
     ed_verify_strict E (author_id_bytes (body_author b)) (signing_message eid)
       (event_signature_bytes sig)"
  by (auto simp: verify_parts_def bindR_Inr_iff Let_def derive_event_id_Inr_iff
      canonical_bytes_Inr_iff)

lemma derive_event_id_valid: "derive_event_id E b = Inr eid \<Longrightarrow> validate_body E b = Inr ()"
  by (auto simp: derive_event_id_Inr_iff canonical_bytes_Inr_iff)

lemma verify_event_valid: "verify_event E ev = Inr () \<Longrightarrow> validate_body E (ev_body ev) = Inr ()"
  by (auto simp: verify_event_def verify_parts_iff dest: derive_event_id_valid)

lemma to_wire_Inr_iff:
  "to_wire E ev = Inr w \<longleftrightarrow> verify_event E ev = Inr () \<and> canonicalize E (event_json E ev) = Inr w"
  by (auto simp: to_wire_def bindR_Inr_iff)

lemma event_of_json_Inr:
  assumes "event_of_json E v = Inr ev" "json_wf v"
  shows "verify_event E ev = Inr ()" "event_id_wf (ev_id ev)" "event_signature_wf (ev_signature ev)"
    "body_wf (ev_body ev)"
proof -
  obtain m where m: "v = JObject m" using assms(1)
    by (cases v) (auto simp: event_of_json_def)
  have field: "json_wf p" if "obj_get m k = Some p" for k p
    using that assms(2) m map_of_SomeD by (fastforce simp: obj_get_def)
  show "verify_event E ev = Inr ()" "event_id_wf (ev_id ev)" "event_signature_wf (ev_signature ev)"
    "body_wf (ev_body ev)"
    using assms(1) unfolding event_of_json_def m verify_event_def
    by (auto simp: bindR_Inr_iff from_verified_parts_def parse_text_def
        dest: field parse_body_Inr event_id.to_of_text event_signature.to_of_text)
qed

lemma from_wire_Inr:
  assumes "from_wire E w = Inr ev"
  shows "verify_event E ev = Inr ()" "event_wf ev" "validate_body E (ev_body ev) = Inr ()"
proof -
  from assms obtain v where v: "strict_json (json_reader E) w = Inr v" "event_of_json E v = Inr ev"
    by (auto simp: from_wire_def bindR_Inr_iff split: if_splits)
  then have "json_wf v" by (auto dest: strict_json_wf)
  with v(2) show "verify_event E ev = Inr ()" "event_wf ev"
    by (auto simp: event_wf_def dest: event_of_json_Inr)
  then show "validate_body E (ev_body ev) = Inr ()" by (intro verify_event_valid)
qed

text \<open>The event a canonical envelope reads back as.\<close>

definition norm_event :: "signed_event \<Rightarrow> signed_event" where
  "norm_event ev = ev\<lparr>ev_body := norm_body (ev_body ev)\<rparr>"

lemma norm_event_simps [simp]:
  "ev_id (norm_event ev) = ev_id ev" "ev_signature (norm_event ev) = ev_signature ev"
  "ev_body (norm_event ev) = norm_body (ev_body ev)"
  by (simp_all add: norm_event_def)

lemma event_json_norm: "json_norm (event_json E ev) = event_json E (norm_event ev)"
  by (simp add: event_json_def event_fields_def body_json_norm)

lemma body_wf_norm: "body_wf b \<Longrightarrow> body_wf (norm_body b)"
  by (simp add: body_wf_def json_wf_norm)

lemma derive_norm_body:
  "jcs_lawful E \<Longrightarrow> body_wf b \<Longrightarrow> derive_event_id E b = Inr eid \<Longrightarrow> derive_event_id E (norm_body b) = Inr eid"
  using validate_norm_body [of E b]
  by (auto simp: derive_event_id_Inr_iff canonical_bytes_Inr_iff)

lemma verify_norm_event:
  "jcs_lawful E \<Longrightarrow> event_wf ev \<Longrightarrow> verify_event E ev = Inr () \<Longrightarrow> verify_event E (norm_event ev) = Inr ()"
  by (auto simp: verify_event_def verify_parts_iff event_wf_def derive_norm_body)

lemma event_of_json_event_json:
  assumes "base64_lawful E" "event_wf ev" "verify_event E ev = Inr ()"
  shows "event_of_json E (event_json E ev) = Inr ev"
proof -
  have dist: "distinct (map fst (event_fields E ev))" by (simp add: event_fields_def)
  define m where "m = obj_of (event_fields E ev)"
  have [simp]: "obj_get m ''event_id'' = Some (JString (event_id_text E (ev_id ev)))"
    "obj_get m ''body'' = Some (body_json E (ev_body ev))"
    "obj_get m ''signature'' = Some (JString (event_signature_text E (ev_signature ev)))"
    unfolding m_def obj_get_obj_of [OF dist] by (simp_all add: event_fields_def)
  have known: "reject_unknown m [''event_id'', ''body'', ''signature''] = Inr ()"
    unfolding m_def by (rule reject_unknown_obj_of) (simp add: event_fields_def)
  have body: "parse_body E (body_json E (ev_body ev)) = Inr (ev_body ev)"
    using assms by (intro parse_body_json) (auto simp: event_wf_def verify_event_valid)
  show ?thesis
    using assms
    unfolding event_of_json_def event_json_def into_object.simps bindR_simps m_def [symmetric] known
    by (simp add: take_required_present body parse_text_def event_wf_def event_id.of_to_text
        event_signature.of_to_text verify_event_def from_verified_parts_def)
qed

lemma event_json_renders:
  assumes "jcs_lawful E" "event_wf ev" "verify_event E ev = Inr ()"
  obtains w where "canonicalize E (event_json E ev) = Inr w"
    "canonicalize E (event_json E (norm_event ev)) = Inr w"
    "strict_json (json_reader E) w = Inr (event_json E (norm_event ev))"
    "from_slice_value (json_reader E) w = Inr (event_json E (norm_event ev))"
    "json_wf (event_json E ev)" "numbers_safe (event_json E ev)" "json_depth (event_json E ev) \<le> 66"
proof -
  have valid: "validate_body E (ev_body ev) = Inr ()" using assms(3) by (rule verify_event_valid)
  have "json_wf (event_json E ev)"
    unfolding event_json_def using assms(2)
    by (intro json_wf_obj_of) (auto simp: event_fields_def event_wf_def body_wf_def body_json_wf)
  moreover have "numbers_safe (event_json E ev)"
    unfolding event_json_def using valid
    by (intro numbers_safe_obj_of) (auto simp: event_fields_def body_json_safe)
  moreover have depth: "json_depth (event_json E ev) \<le> Suc 65"
    unfolding event_json_def using body_json_depth [OF valid]
    by (intro json_depth_obj_of) (auto simp: event_fields_def)
  ultimately have prems: "json_wf (event_json E ev)" "numbers_safe (event_json E ev)"
      "json_depth (event_json E ev) \<le> 127" by simp_all
  obtain w where "canonicalize E (event_json E ev) = Inr w"
      "canonicalize E (json_norm (event_json E ev)) = Inr w"
      "strict_json (json_reader E) w = Inr (json_norm (event_json E ev))"
      "from_slice_value (json_reader E) w = Inr (json_norm (event_json E ev))"
    by (rule strict_json_canonicalize [OF assms(1) prems])
  with depth prems(1,2) show thesis by (intro that [of w]) (simp_all add: event_json_norm)
qed

text \<open>Whatever parses from the wire of an event is that event, with its payload in normal form.\<close>

lemma from_wire_to_wire_eq:
  assumes "env_lawful E" "event_wf ev" "to_wire E ev = Inr w"
  shows "from_wire E w =
    (if length w > MAX_RAW_WIRE_BYTES then Inl WireTooLarge else Inr (norm_event ev))"
    and "to_wire E (norm_event ev) = Inr w"
proof -
  note law = env_lawfulD [OF assms(1)]
  have ver: "verify_event E ev = Inr ()" and w: "canonicalize E (event_json E ev) = Inr w"
    using assms(3) by (auto simp: to_wire_Inr_iff)
  have ver': "verify_event E (norm_event ev) = Inr ()"
    using law assms(2) ver by (simp add: verify_norm_event)
  obtain w' where w': "canonicalize E (event_json E ev) = Inr w'"
      "canonicalize E (event_json E (norm_event ev)) = Inr w'"
      "strict_json (json_reader E) w' = Inr (event_json E (norm_event ev))"
    by (rule event_json_renders [OF law(4) assms(2) ver])
  have wf': "event_wf (norm_event ev)" using assms(2) by (simp add: event_wf_def body_wf_norm)
  have "event_of_json E (event_json E (norm_event ev)) = Inr (norm_event ev)"
    using law wf' ver' by (intro event_of_json_event_json)
  then show "from_wire E w =
    (if length w > MAX_RAW_WIRE_BYTES then Inl WireTooLarge else Inr (norm_event ev))"
    using w w' by (simp add: from_wire_def)
  show "to_wire E (norm_event ev) = Inr w"
    using w w' ver' by (simp add: to_wire_Inr_iff)
qed

lemma from_wire_of_to_wire:
  assumes "env_lawful E" "event_wf ev" "to_wire E ev = Inr w" "from_wire E w = Inr ev'"
  shows "ev' = norm_event ev" "to_wire E ev' = Inr w"
  using from_wire_to_wire_eq [OF assms(1-3)] assms(4) by (auto split: if_splits)

lemma create_event_Inr:
  assumes "create_event E idn context parents kind payload = Inr ev"
  shows "ev_body ev = \<lparr>body_version = EVENT_VERSION, body_context = context, body_parents = parents,
      body_kind = kind, body_author = identity_author E idn, body_payload = payload\<rparr>"
    and "derive_event_id E (ev_body ev) = Inr (ev_id ev)"
    and "ev_signature ev = sign_event_id E idn (ev_id ev)"
  using assms
  by (auto simp: create_event_def sign_body_def body_new_def bindR_Inr_iff from_verified_parts_def
      Let_def)

lemma create_event_verifies:
  assumes "ed25519_lawful E" "create_event E idn context parents kind payload = Inr ev"
  shows "verify_event E ev = Inr ()"
  using create_event_Inr [OF assms(2)] assms(1)
  by (simp add: verify_event_def verify_parts_iff identity_author_def sign_event_id_def
      ed25519_lawful_def)

lemma create_event_wf:
  assumes "env_lawful E" "create_event E idn context parents kind payload = Inr ev"
    and "context_id_wf context" "\<forall>p \<in> set parents. event_id_wf p" "json_wf payload"
  shows "event_wf ev"
  using create_event_Inr [OF assms(2)] assms env_lawfulD [OF assms(1)]
  by (auto simp: event_wf_def body_wf_def derive_event_id_Inr_iff event_id_wf_def digest_length
      event_signature_wf_def sign_event_id_def ed25519_lawful_def author_id_wf_def
      identity_author_def)

lemma sign_domain_verifies:
  "ed25519_lawful E \<Longrightarrow>
    verify_domain_message E (identity_author E idn) domain message
      (sign_domain_message E idn domain message) = Inr ()"
  by (simp add: verify_domain_message_def sign_domain_message_def identity_author_def
      ed25519_lawful_def)

text \<open>The envelope of a valid body stays below the wire limit, so it always reads back.\<close>

lemma fixed_to_text_len:
  "base64_lawful E \<Longrightarrow> length (fixed_to_text E prefix b) = length prefix + encoded_len (length b)"
  by (simp add: fixed_to_text_def base64_lawful_def encoded_len_def)

lemma jcs_compact_string:
  assumes "jcs_compact E" "length s \<le> n"
  shows "rendered_len E (JString s) \<le> 2 + 6 * n"
proof -
  have "rendered_len E (JString s) \<le> 2 + 6 * length s" using assms(1) by (simp add: jcs_compact_def)
  with assms(2) show ?thesis by simp
qed

lemma jcs_compact_object:
  "jcs_compact E \<Longrightarrow> rendered_len E (JObject m) \<le>
    2 + (\<Sum>(k, v)\<leftarrow>m. rendered_len E (JString k) + rendered_len E v + 2)"
  by (simp only: jcs_compact_def)

lemma event_json_obj:
  "event_json E ev = JObject
     [(''body'', body_json E (ev_body ev)),
      (''event_id'', JString (event_id_text E (ev_id ev))),
      (''signature'', JString (event_signature_text E (ev_signature ev)))]"
  by (simp add: event_json_def event_fields_def obj_of_def)

lemma to_wire_len:
  assumes "env_lawful E" "event_wf ev" "to_wire E ev = Inr w"
  shows "length w \<le> MAX_RAW_WIRE_BYTES"
proof -
  note law = env_lawfulD [OF assms(1)] and compact = env_lawful_compact [OF assms(1)]
  have "length w = rendered_len E (event_json E ev)"
    using assms(3) by (auto simp: to_wire_Inr_iff intro: canonicalize_len)
  also have "\<dots> \<le> 2 + (rendered_len E (JString ''body'') + rendered_len E (body_json E (ev_body ev)) + 2)
    + (rendered_len E (JString ''event_id'') + rendered_len E (JString (event_id_text E (ev_id ev))) + 2)
    + (rendered_len E (JString ''signature'')
       + rendered_len E (JString (event_signature_text E (ev_signature ev))) + 2)"
    unfolding event_json_obj by (rule order_trans [OF jcs_compact_object [OF compact]]) simp
  finally have len: "length w \<le> \<dots>" .
  have "validate_body E (ev_body ev) = Inr ()"
    using assms(3) by (auto simp: to_wire_Inr_iff intro: verify_event_valid)
  then have body: "rendered_len E (body_json E (ev_body ev)) \<le> 1114112"
    by (auto simp: validate_body_iff MAX_CANONICAL_BODY_BYTES_def dest!: canonicalize_len)
  have keys: "rendered_len E (JString ''body'') \<le> 2 + 6 * 9"
    "rendered_len E (JString ''event_id'') \<le> 2 + 6 * 9"
    "rendered_len E (JString ''signature'') \<le> 2 + 6 * 9"
    by (rule jcs_compact_string [OF compact], simp)+
  have texts: "length (event_id_text E (ev_id ev)) \<le> 48"
    "length (event_signature_text E (ev_signature ev)) \<le> 91"
    using assms(2) law(1)
    by (auto simp: event_id_text_def event_signature_text_def fixed_to_text_len event_wf_def
        event_id_wf_def event_signature_wf_def encoded_len_def)
  have ids: "rendered_len E (JString (event_id_text E (ev_id ev))) \<le> 2 + 6 * 48"
    "rendered_len E (JString (event_signature_text E (ev_signature ev))) \<le> 2 + 6 * 91"
    by (rule jcs_compact_string [OF compact texts(1)]) (rule jcs_compact_string [OF compact texts(2)])
  show ?thesis using len body keys ids by (simp add: MAX_RAW_WIRE_BYTES_def)
qed

lemma from_wire_to_wire:
  assumes "env_lawful E" "event_wf ev" "to_wire E ev = Inr w"
  shows "from_wire E w = Inr (norm_event ev)"
  using from_wire_to_wire_eq(1) [OF assms] to_wire_len [OF assms] by simp

end
