(* ===== verification/Store_Tables.thy ===== *)
theory Store_Tables
  imports Crypto
begin

text \<open>
  The embedded database of \<open>src/src/store.rs\<close>: the tables of \<open>SCHEMA_SQL\<close> as lists of rows in
  insertion order, the SQL statements the code issues as operations that enforce the schema's
  keys, foreign keys, checks and triggers, and the row readers. Identifier columns are typed
  (their length is a \<open>CHECK\<close> of the schema or follows from a foreign key), while names, states
  and wire bytes are what the code has to check. A constraint violation surfaces as
  \<open>DatabaseUnavailable\<close>, as \<open>map_db\<close> reports it.
\<close>

section \<open>Errors and rows\<close>

datatype store_error =
    DatabaseUnavailable | MigrationFailed | NewerSchema | CorruptStorage | ContextUnknown
  | ContextProvisionMismatch | GenesisMismatch | UnauthorizedAuthor
  | ParentMissing event_id | ParentContextMismatch event_id | EventCollision | InvalidRefName
  | RefMutationMismatch | RefMissing | RefAlreadyExists | StaleHead "event_id option"
  | StoreLimitExceeded | EntropyUnavailable | ReservedEventKind | InvalidMerge
  | ProjectionCycle | ProjectionLimitExceeded | BundleMalformed | BundleUnsupportedVersion
  | BundleOrder | BundleLimitExceeded | BundleRefInvalid | VerificationLimitInvalid
  | IndeterminateCommit | Contract contract_error

record context_row =
  ctx_id :: context_id
  ctx_expected :: event_id
  ctx_genesis :: "event_id option"
  ctx_state :: int

type_synonym author_row = "context_id \<times> author_id"

record event_row =
  er_id :: event_id
  er_context :: context_id
  er_author :: author_id
  er_kind :: string
  er_wire :: bytes

record edge_row =
  edge_child :: event_id
  edge_ordinal :: int
  edge_parent :: event_id

record ref_row =
  ref_context :: context_id
  ref_name :: string
  ref_head :: event_id

record remote_row =
  rem_peer :: string
  rem_context :: context_id
  rem_name :: string
  rem_head :: event_id

record db =
  db_contexts :: "context_row list"
  db_authors :: "author_row list"
  db_events :: "event_row list"
  db_edges :: "edge_row list"
  db_local :: "ref_row list"
  db_remote :: "remote_row list"

definition empty_db :: db where
  "empty_db = \<lparr>db_contexts = [], db_authors = [], db_events = [], db_edges = [],
               db_local = [], db_remote = []\<rparr>"

definition has_context :: "db \<Rightarrow> context_id \<Rightarrow> bool" where
  "has_context d c \<longleftrightarrow> c \<in> set (map ctx_id (db_contexts d))"

definition has_event :: "db \<Rightarrow> event_id \<Rightarrow> bool" where
  "has_event d i \<longleftrightarrow> i \<in> set (map er_id (db_events d))"

section \<open>Statements\<close>

definition insert_context :: "context_id \<Rightarrow> event_id \<Rightarrow> db \<Rightarrow> store_error + db" where
  "insert_context c expected d =
     (if has_context d c then Inl DatabaseUnavailable
      else Inr (d\<lparr>db_contexts := db_contexts d @
        [\<lparr>ctx_id = c, ctx_expected = expected, ctx_genesis = None, ctx_state = 0\<rparr>]\<rparr>))"

definition insert_author :: "context_id \<Rightarrow> author_id \<Rightarrow> db \<Rightarrow> store_error + db" where
  "insert_author c a d =
     (if \<not> has_context d c \<or> (c, a) \<in> set (db_authors d) then Inl DatabaseUnavailable
      else Inr (d\<lparr>db_authors := db_authors d @ [(c, a)]\<rparr>))"

text \<open>\<open>INSERT OR IGNORE\<close>, with the number of rows inserted.\<close>

definition insert_or_ignore_author ::
  "context_id \<Rightarrow> author_id \<Rightarrow> db \<Rightarrow> store_error + (nat \<times> db)" where
  "insert_or_ignore_author c a d =
     (if (c, a) \<in> set (db_authors d) then Inr (0, d)
      else if \<not> has_context d c then Inl DatabaseUnavailable
      else Inr (1, d\<lparr>db_authors := db_authors d @ [(c, a)]\<rparr>))"

definition insert_event ::
  "event_id \<Rightarrow> context_id \<Rightarrow> author_id \<Rightarrow> string \<Rightarrow> bytes \<Rightarrow> db \<Rightarrow> store_error + db" where
  "insert_event i c a kind wire d =
     (if has_event d i \<or> \<not> has_context d c then Inl DatabaseUnavailable
      else Inr (d\<lparr>db_events := db_events d @
        [\<lparr>er_id = i, er_context = c, er_author = a, er_kind = kind, er_wire = wire\<rparr>]\<rparr>))"

definition insert_edge :: "event_id \<Rightarrow> int \<Rightarrow> event_id \<Rightarrow> db \<Rightarrow> store_error + db" where
  "insert_edge child ordinal parent d =
     (if ordinal < 0 \<or> ordinal \<ge> 64 \<or> \<not> has_event d child \<or> \<not> has_event d parent \<or>
         list_ex (\<lambda>e. edge_child e = child \<and> (edge_ordinal e = ordinal \<or> edge_parent e = parent))
           (db_edges d)
      then Inl DatabaseUnavailable
      else Inr (d\<lparr>db_edges := db_edges d @
        [\<lparr>edge_child = child, edge_ordinal = ordinal, edge_parent = parent\<rparr>]\<rparr>))"

text \<open>
  \<open>UPDATE contexts SET genesis_event_id=?1,state=1 WHERE context_id=?2 AND state=0 AND
  expected_genesis_id=?1\<close>, with the number of rows changed; the trigger
  \<open>contexts_transition_only\<close> wants the old genesis to be null, and the new one is unique.
\<close>

definition activation_applies :: "event_id \<Rightarrow> context_id \<Rightarrow> context_row \<Rightarrow> bool" where
  "activation_applies i c r \<longleftrightarrow> ctx_id r = c \<and> ctx_state r = 0 \<and> ctx_expected r = i"

definition activate_context :: "event_id \<Rightarrow> context_id \<Rightarrow> db \<Rightarrow> store_error + (nat \<times> db)" where
  "activate_context i c d =
     (let hits = filter (activation_applies i c) (db_contexts d) in
      if hits = [] then Inr (0, d)
      else if list_ex (\<lambda>r. ctx_genesis r \<noteq> None) hits \<or>
              list_ex (\<lambda>r. ctx_genesis r = Some i) (db_contexts d)
      then Inl DatabaseUnavailable
      else Inr (length hits, d\<lparr>db_contexts := map (\<lambda>r. if activation_applies i c r
        then r\<lparr>ctx_genesis := Some i, ctx_state := 1\<rparr> else r) (db_contexts d)\<rparr>))"

definition insert_local :: "context_id \<Rightarrow> string \<Rightarrow> event_id \<Rightarrow> db \<Rightarrow> store_error + db" where
  "insert_local c name i d =
     (if \<not> has_context d c \<or> \<not> has_event d i \<or>
         list_ex (\<lambda>r. ref_context r = c \<and> ref_name r = name) (db_local d)
      then Inl DatabaseUnavailable
      else Inr (d\<lparr>db_local := db_local d @ [\<lparr>ref_context = c, ref_name = name, ref_head = i\<rparr>]\<rparr>))"

text \<open>\<open>UPDATE local_refs SET event_id=?1 WHERE context_id=?2 AND name=?3 AND event_id=?4\<close>.\<close>

definition update_local ::
  "event_id \<Rightarrow> context_id \<Rightarrow> string \<Rightarrow> event_id \<Rightarrow> db \<Rightarrow> store_error + (nat \<times> db)" where
  "update_local i c name expected d =
     (let applies = (\<lambda>r. ref_context r = c \<and> ref_name r = name \<and> ref_head r = expected);
          hits = filter applies (db_local d) in
      if hits \<noteq> [] \<and> \<not> has_event d i then Inl DatabaseUnavailable
      else Inr (length hits, d\<lparr>db_local :=
        map (\<lambda>r. if applies r then r\<lparr>ref_head := i\<rparr> else r) (db_local d)\<rparr>))"

definition remote_key :: "string \<Rightarrow> context_id \<Rightarrow> string \<Rightarrow> remote_row \<Rightarrow> bool" where
  "remote_key peer c name r \<longleftrightarrow> rem_peer r = peer \<and> rem_context r = c \<and> rem_name r = name"

definition insert_remote ::
  "string \<Rightarrow> context_id \<Rightarrow> string \<Rightarrow> event_id \<Rightarrow> db \<Rightarrow> store_error + db" where
  "insert_remote peer c name i d =
     (if \<not> has_context d c \<or> \<not> has_event d i \<or> list_ex (remote_key peer c name) (db_remote d)
      then Inl DatabaseUnavailable
      else Inr (d\<lparr>db_remote := db_remote d @
        [\<lparr>rem_peer = peer, rem_context = c, rem_name = name, rem_head = i\<rparr>]\<rparr>))"

text \<open>\<open>INSERT INTO remote_refs \<dots> ON CONFLICT(peer,context_id,name) DO UPDATE\<close>.\<close>

definition upsert_remote ::
  "string \<Rightarrow> context_id \<Rightarrow> string \<Rightarrow> event_id \<Rightarrow> db \<Rightarrow> store_error + db" where
  "upsert_remote peer c name i d =
     (if \<not> has_context d c \<or> \<not> has_event d i then Inl DatabaseUnavailable
      else if list_ex (remote_key peer c name) (db_remote d)
      then Inr (d\<lparr>db_remote :=
        map (\<lambda>r. if remote_key peer c name r then r\<lparr>rem_head := i\<rparr> else r) (db_remote d)\<rparr>)
      else Inr (d\<lparr>db_remote := db_remote d @
        [\<lparr>rem_peer = peer, rem_context = c, rem_name = name, rem_head = i\<rparr>]\<rparr>))"

definition delete_remote :: "string \<Rightarrow> context_id \<Rightarrow> db \<Rightarrow> db" where
  "delete_remote peer c d =
     d\<lparr>db_remote := filter (\<lambda>r. \<not> (rem_peer r = peer \<and> rem_context r = c)) (db_remote d)\<rparr>"

section \<open>Readers\<close>

definition context_row_of ::
  "db \<Rightarrow> context_id \<Rightarrow> store_error + (event_id \<times> int) option" where
  "context_row_of d c =
     (case filter (\<lambda>r. ctx_id r = c) (db_contexts d) of
        [] \<Rightarrow> Inr None
      | r # others \<Rightarrow>
          if ctx_state r \<notin> {0, 1} \<or>
             (ctx_state r = 0 \<and> ctx_genesis r \<noteq> None) \<or>
             (ctx_state r = 1 \<and> ctx_genesis r \<noteq> Some (ctx_expected r)) \<or> others \<noteq> []
          then Inl CorruptStorage
          else Inr (Some (ctx_expected r, ctx_state r)))"

definition author_rows :: "env \<Rightarrow> db \<Rightarrow> context_id \<Rightarrow> author_id list" where
  "author_rows E d c =
     sort_key (author_id_text E) (map snd (filter (\<lambda>r. fst r = c) (db_authors d)))"

definition is_authorized :: "db \<Rightarrow> context_id \<Rightarrow> author_id \<Rightarrow> bool" where
  "is_authorized d c a \<longleftrightarrow> length (filter (\<lambda>r. r = (c, a)) (db_authors d)) = 1"

text \<open>\<open>query_optional_id\<close> and \<open>event_wire\<close>: no row, one row, or a corrupt table.\<close>

definition at_most_one :: "'a list \<Rightarrow> store_error + 'a option" where
  "at_most_one rows =
     (case rows of [] \<Rightarrow> Inr None | [r] \<Rightarrow> Inr (Some r) | _ \<Rightarrow> Inl CorruptStorage)"

definition event_wire :: "db \<Rightarrow> event_id \<Rightarrow> store_error + bytes option" where
  "event_wire d i = at_most_one (map er_wire (filter (\<lambda>r. er_id r = i) (db_events d)))"

definition query_local :: "db \<Rightarrow> context_id \<Rightarrow> string \<Rightarrow> store_error + event_id option" where
  "query_local d c name =
     at_most_one (map ref_head (filter (\<lambda>r. ref_context r = c \<and> ref_name r = name) (db_local d)))"

definition query_remote ::
  "db \<Rightarrow> string \<Rightarrow> context_id \<Rightarrow> string \<Rightarrow> store_error + event_id option" where
  "query_remote d peer c name =
     at_most_one (map rem_head (filter (remote_key peer c name) (db_remote d)))"

definition authoritative_event_context ::
  "env \<Rightarrow> db \<Rightarrow> event_id \<Rightarrow> store_error + context_id option" where
  "authoritative_event_context E d i =
     bindR (event_wire d i) (\<lambda>found.
       case found of
         None \<Rightarrow> Inr None
       | Some wire \<Rightarrow>
           bindR (map_err (\<lambda>_. CorruptStorage) (from_wire E wire)) (\<lambda>event.
             if ev_id event \<noteq> i then Inl CorruptStorage
             else Inr (Some (body_context (ev_body event)))))"

definition edge_rows :: "db \<Rightarrow> event_id \<Rightarrow> event_id list" where
  "edge_rows d i =
     map edge_parent (sort_key edge_ordinal (filter (\<lambda>e. edge_child e = i) (db_edges d)))"

definition validate_stored_event :: "env \<Rightarrow> db \<Rightarrow> signed_event \<Rightarrow> store_error + unit" where
  "validate_stored_event E d event =
     (case filter (\<lambda>r. er_id r = ev_id event) (db_events d) of
        [] \<Rightarrow> Inl CorruptStorage
      | r # others \<Rightarrow>
          if others \<noteq> [] \<or> er_context r \<noteq> body_context (ev_body event) \<or>
             er_author r \<noteq> body_author (ev_body event) \<or> er_kind r \<noteq> body_kind (ev_body event)
          then Inl CorruptStorage
          else bindR (map_err Contract (to_wire E event)) (\<lambda>wire.
            if er_wire r \<noteq> wire then Inl CorruptStorage
            else if edge_rows d (ev_id event) \<noteq> body_parents (ev_body event)
            then Inl CorruptStorage else Inr ()))"

definition load_verified_event :: "env \<Rightarrow> db \<Rightarrow> event_id \<Rightarrow> store_error + signed_event" where
  "load_verified_event E d i =
     bindR (event_wire d i) (\<lambda>found.
     bindR (ok_or found (ParentMissing i)) (\<lambda>wire.
     bindR (map_err (\<lambda>_. CorruptStorage) (from_wire E wire)) (\<lambda>event.
       if ev_id event \<noteq> i then Inl CorruptStorage
       else bindR (validate_stored_event E d event) (\<lambda>_. Inr event))))"

section \<open>Transactions\<close>

text \<open>
  Writers are serialised by the write gate and run in one \<open>IMMEDIATE\<close> transaction each. When
  the commit is not acknowledged the code cannot know its outcome: \<open>CommitLost\<close> and
  \<open>CommitUnacknowledged\<close> are the two possibilities, and both report \<open>IndeterminateCommit\<close>.
\<close>

datatype commit_outcome = Committed | CommitLost | CommitUnacknowledged

definition finish_transaction ::
  "commit_outcome \<Rightarrow> 'd \<Rightarrow> store_error + ('a \<times> 'd) \<Rightarrow> (store_error + 'a) \<times> 'd" where
  "finish_transaction outcome before result =
     (case result of
        Inr (v, after) \<Rightarrow>
          (case outcome of
             Committed \<Rightarrow> (Inr v, after)
           | CommitLost \<Rightarrow> (Inl IndeterminateCommit, before)
           | CommitUnacknowledged \<Rightarrow> (Inl IndeterminateCommit, after))
      | Inl e \<Rightarrow> (Inl e, before))"

definition write_tx ::
  "commit_outcome \<Rightarrow> (db \<Rightarrow> store_error + ('a \<times> db)) \<Rightarrow> db \<Rightarrow> (store_error + 'a) \<times> db" where
  "write_tx outcome operation d = finish_transaction outcome d (operation d)"

lemma write_tx_cases:
  obtains v d' where "operation d = Inr (v, d')" "snd (write_tx outcome operation d) \<in> {d, d'}"
    "fst (write_tx outcome operation d) \<in> {Inr v, Inl IndeterminateCommit}"
  | e where "operation d = Inl e" "write_tx outcome operation d = (Inl e, d)"
  by (cases "operation d") (auto simp: write_tx_def finish_transaction_def split: commit_outcome.splits)

lemma write_tx_Inr:
  "fst (write_tx outcome operation d) = Inr v \<longleftrightarrow>
     outcome = Committed \<and> operation d = Inr (v, snd (write_tx outcome operation d))"
  by (auto simp: write_tx_def finish_transaction_def split: sum.splits commit_outcome.splits)

lemma write_tx_state:
  "snd (write_tx outcome operation d) = d \<or>
   (\<exists>v. operation d = Inr (v, snd (write_tx outcome operation d)))"
  by (auto simp: write_tx_def finish_transaction_def split: sum.splits commit_outcome.splits)

end
