(* ===== verification/Store_Core.thy ===== *)
theory Store_Core
  imports Store_Tables
begin

text \<open>
  The transactional store of \<open>src/src/store.rs\<close> and the semantic-free DAG operations of
  \<open>src/src/store/dag.rs\<close>: provisioning, authorization, admission with an optional
  compare-and-swap of a local ref, branches and merges. An operation takes the database and
  the outcome of its commit and returns the result with the database afterwards; its
  transaction body, suffixed \<open>_tx\<close>, returns an error or the value and the new database.
\<close>

section \<open>Names and provisioning data\<close>

definition MAX_REF_NAME_BYTES :: nat where "MAX_REF_NAME_BYTES = 64"
definition MAX_AUTHORIZED_AUTHORS :: nat where "MAX_AUTHORIZED_AUTHORS = 1024"

definition validate_name :: "string \<Rightarrow> store_error + unit" where
  "validate_name text =
     (if text = [] \<or> length text > MAX_REF_NAME_BYTES \<or> \<not> is_ascii_lowercase (hd text)
      then Inl InvalidRefName
      else if name_tail_ok (tl text) False then Inr () else Inl InvalidRefName)"

text \<open>\<open>LocalRefName\<close> and \<open>PeerName\<close> hold a text that passed \<open>validate_name\<close>.\<close>

definition name_from_str :: "string \<Rightarrow> store_error + string" where
  "name_from_str text = bindR (validate_name text) (\<lambda>_. Inr text)"

definition ref_name_wf :: "string \<Rightarrow> bool" where
  "ref_name_wf name \<longleftrightarrow> name_ok MAX_REF_NAME_BYTES name"

lemma validate_name_iff: "validate_name t = Inr () \<longleftrightarrow> ref_name_wf t"
  by (auto simp: validate_name_def ref_name_wf_def name_ok_def)

lemma name_from_str_Inr_iff [simp]: "name_from_str t = Inr n \<longleftrightarrow> n = t \<and> ref_name_wf t"
  by (auto simp: name_from_str_def bindR_Inr_iff validate_name_iff)

record context_provision =
  prov_context :: context_id
  prov_genesis :: event_id
  prov_authors :: "author_id list"

definition validate_authors :: "env \<Rightarrow> author_id list \<Rightarrow> store_error + unit" where
  "validate_authors E authors =
     (if length authors > MAX_AUTHORIZED_AUTHORS then Inl StoreLimitExceeded
      else if authors = [] then Inl UnauthorizedAuthor
      else if windows2_any (\<lambda>a b. author_id_text E b \<le> author_id_text E a) authors
      then Inl ContextProvisionMismatch else Inr ())"

lemma validate_authors_iff:
  "validate_authors E authors = Inr () \<longleftrightarrow>
     length authors \<le> MAX_AUTHORIZED_AUTHORS \<and> authors \<noteq> [] \<and>
     strictly_sorted (author_id_text E) authors"
  by (auto simp: validate_authors_def windows2_any_ge_iff [symmetric] not_less)

definition insert_provision :: "context_provision \<Rightarrow> db \<Rightarrow> store_error + db" where
  "insert_provision p d =
     bindR (insert_context (prov_context p) (prov_genesis p) d)
       (foldR (insert_author (prov_context p)) (prov_authors p))"

definition provision_context_tx :: "env \<Rightarrow> context_provision \<Rightarrow> db \<Rightarrow> store_error + (unit \<times> db)" where
  "provision_context_tx E p d =
     bindR (context_row_of d (prov_context p)) (\<lambda>found.
       case found of
         Some (expected, state) \<Rightarrow>
           if expected = prov_genesis p \<and> author_rows E d (prov_context p) = prov_authors p
           then Inr ((), d) else Inl ContextProvisionMismatch
       | None \<Rightarrow> bindR (insert_provision p d) (\<lambda>d'. Inr ((), d')))"

definition provision_context ::
  "env \<Rightarrow> context_provision \<Rightarrow> commit_outcome \<Rightarrow> db \<Rightarrow> (store_error + unit) \<times> db" where
  "provision_context E p oc d =
     (case validate_authors E (prov_authors p) of
        Inl e \<Rightarrow> (Inl e, d)
      | Inr _ \<Rightarrow> write_tx oc (provision_context_tx E p) d)"

definition join_context_tx :: "env \<Rightarrow> context_provision \<Rightarrow> db \<Rightarrow> store_error + (unit \<times> db)" where
  "join_context_tx E p d =
     bindR (context_row_of d (prov_context p)) (\<lambda>found.
       case found of
         Some (expected, state) \<Rightarrow>
           if state \<noteq> 0 \<or> expected \<noteq> prov_genesis p \<or>
              author_rows E d (prov_context p) \<noteq> prov_authors p
           then Inl ContextProvisionMismatch else Inr ((), d)
       | None \<Rightarrow> bindR (insert_provision p d) (\<lambda>d'. Inr ((), d')))"

definition join_context ::
  "env \<Rightarrow> context_provision \<Rightarrow> commit_outcome \<Rightarrow> db \<Rightarrow> (store_error + unit) \<times> db" where
  "join_context E p oc d =
     (case validate_authors E (prov_authors p) of
        Inl e \<Rightarrow> (Inl e, d)
      | Inr _ \<Rightarrow> write_tx oc (join_context_tx E p) d)"

definition authorize_author_tx ::
  "context_id \<Rightarrow> author_id \<Rightarrow> db \<Rightarrow> store_error + (bool \<times> db)" where
  "authorize_author_tx c a d =
     bindR (context_row_of d c) (\<lambda>found.
       if found = None then Inl ContextUnknown
       else bindR (insert_or_ignore_author c a d) (\<lambda>(changed, d'). Inr (changed = 1, d')))"

definition authorize_author ::
  "context_id \<Rightarrow> author_id \<Rightarrow> commit_outcome \<Rightarrow> db \<Rightarrow> (store_error + bool) \<times> db" where
  "authorize_author c a oc d = write_tx oc (authorize_author_tx c a) d"

section \<open>Local refs\<close>

datatype ref_expectation = Absent | Head event_id

datatype ref_mutation =
    NoMutation
  | CompareAndSwap context_id string ref_expectation event_id

datatype admission_status = Inserted | AlreadyPresent | AlreadyApplied

fun apply_ref_mutation :: "event_id \<Rightarrow> ref_mutation \<Rightarrow> db \<Rightarrow> store_error + (bool \<times> db)" where
  "apply_ref_mutation event NoMutation d = Inr (False, d)"
| "apply_ref_mutation event (CompareAndSwap c name expected new_head) d =
     bindR (query_local d c name) (\<lambda>current.
       if current = Some new_head then Inr (True, d)
       else case (expected, current) of
         (Absent, None) \<Rightarrow> bindR (insert_local c name event d) (\<lambda>d'. Inr (False, d'))
       | (Head e, Some cur) \<Rightarrow>
           if e = cur then
             bindR (update_local event c name e d) (\<lambda>(changed, d').
               if changed \<noteq> 1
               then bindR (query_local d' c name) (\<lambda>now. Inl (StaleHead now))
               else Inr (False, d'))
           else Inl (StaleHead current)
       | _ \<Rightarrow> Inl (StaleHead current))"

fun mutation_matches :: "signed_event \<Rightarrow> ref_mutation \<Rightarrow> bool" where
  "mutation_matches event NoMutation = True"
| "mutation_matches event (CompareAndSwap c name expected new_head) =
     (c = body_context (ev_body event) \<and> new_head = ev_id event)"

section \<open>Admission\<close>

definition check_parents ::
  "env \<Rightarrow> db \<Rightarrow> context_id \<Rightarrow> event_id list \<Rightarrow> store_error + unit" where
  "check_parents E d c parents =
     forR (\<lambda>parent.
       bindR (authoritative_event_context E d parent) (\<lambda>found.
       bindR (ok_or found (ParentMissing parent)) (\<lambda>parent_context.
         if parent_context \<noteq> c then Inl (ParentContextMismatch parent) else Inr ()))) parents"

definition insert_edges :: "event_id \<Rightarrow> event_id list \<Rightarrow> db \<Rightarrow> store_error + db" where
  "insert_edges child parents =
     foldR (\<lambda>(ordinal, parent). insert_edge child (int ordinal) parent) (List.enumerate 0 parents)"

definition is_genesis_event :: "event_id \<Rightarrow> signed_event \<Rightarrow> bool" where
  "is_genesis_event expected event \<longleftrightarrow>
     ev_id event = expected \<and> body_kind (ev_body event) = ''context.genesis'' \<and>
     body_parents (ev_body event) = []"

definition activate_pending :: "int \<Rightarrow> event_id \<Rightarrow> context_id \<Rightarrow> db \<Rightarrow> store_error + db" where
  "activate_pending state i c d =
     (if state = 0 then
        bindR (activate_context i c d) (\<lambda>(changed, d').
          if changed \<noteq> 1 then Inl GenesisMismatch else Inr d')
      else Inr d)"

text \<open>The row and its edges are written, or an existing row is rechecked.\<close>

definition record_event ::
  "env \<Rightarrow> signed_event \<Rightarrow> bytes \<Rightarrow> signed_event \<Rightarrow> bytes option \<Rightarrow> db \<Rightarrow> store_error + (bool \<times> db)" where
  "record_event E event wire verified_event existing d =
     (case existing of
        None \<Rightarrow>
          (let i = ev_id event; body = ev_body event in
           bindR (insert_event i (body_context body) (body_author body) (body_kind body) wire d) (\<lambda>d1.
           bindR (insert_edges i (body_parents body) d1) (\<lambda>d2. Inr (True, d2))))
      | Some stored \<Rightarrow>
          if stored = wire
          then bindR (validate_stored_event E d verified_event) (\<lambda>_. Inr (False, d))
          else Inl EventCollision)"

definition admission_status_of :: "bool \<Rightarrow> bool \<Rightarrow> admission_status" where
  "admission_status_of applied inserted =
     (if applied then AlreadyApplied else if inserted then Inserted else AlreadyPresent)"

definition admit_tx ::
  "env \<Rightarrow> signed_event \<Rightarrow> bytes \<Rightarrow> signed_event \<Rightarrow> ref_mutation \<Rightarrow> db \<Rightarrow>
    store_error + (admission_status \<times> db)" where
  "admit_tx E event wire verified_event mutation d =
     (let i = ev_id event; body = ev_body event; c = body_context body;
          parents = body_parents body in
      bindR (context_row_of d c) (\<lambda>row.
      bindR (ok_or row ContextUnknown) (\<lambda>(expected_genesis, state).
      (let is_genesis = is_genesis_event expected_genesis event in
       if state = 0 \<and> \<not> is_genesis then Inl GenesisMismatch
       else if state \<noteq> 0 \<and> \<not> is_genesis \<and> (parents = [] \<or> body_kind body = ''context.genesis'')
       then Inl GenesisMismatch
       else if \<not> is_authorized d c (body_author body) then Inl UnauthorizedAuthor
       else
         bindR (check_parents E d c parents) (\<lambda>_.
         bindR (event_wire d i) (\<lambda>existing.
           if state = 1 \<and> is_genesis \<and> existing = None then Inl CorruptStorage
           else
             bindR (record_event E event wire verified_event existing d) (\<lambda>(inserted, d1).
             bindR (activate_pending state i c d1) (\<lambda>d2.
             bindR (apply_ref_mutation i mutation d2) (\<lambda>(already_applied, d3).
               Inr (admission_status_of already_applied inserted, d3))))))))))"

definition admit ::
  "env \<Rightarrow> signed_event \<Rightarrow> ref_mutation \<Rightarrow> commit_outcome \<Rightarrow> db \<Rightarrow>
    (store_error + admission_status) \<times> db" where
  "admit E event mutation oc d =
     (case bindR (map_err Contract (verify_event E event)) (\<lambda>_.
           bindR (map_err Contract (to_wire E event)) (\<lambda>wire.
           bindR (map_err Contract (from_wire E wire)) (\<lambda>verified_event.
             if \<not> mutation_matches event mutation then Inl RefMutationMismatch
             else Inr (wire, verified_event)))) of
        Inl e \<Rightarrow> (Inl e, d)
      | Inr (wire, verified_event) \<Rightarrow>
          write_tx oc (admit_tx E event wire verified_event mutation) d)"

definition admit_wire ::
  "env \<Rightarrow> bytes \<Rightarrow> ref_mutation \<Rightarrow> commit_outcome \<Rightarrow> db \<Rightarrow>
    (store_error + admission_status) \<times> db" where
  "admit_wire E wire mutation oc d =
     (case from_wire E wire of
        Inl e \<Rightarrow> (Inl (Contract e), d)
      | Inr event \<Rightarrow> admit E event mutation oc d)"

section \<open>Queries\<close>

definition store_event :: "env \<Rightarrow> db \<Rightarrow> event_id \<Rightarrow> store_error + signed_event option" where
  "store_event E d i =
     bindR (event_wire d i) (\<lambda>found.
       case found of
         Some wire \<Rightarrow>
           bindR (map_err (\<lambda>_. CorruptStorage) (from_wire E wire)) (\<lambda>event.
           bindR (validate_stored_event E d event) (\<lambda>_. Inr (Some event)))
       | None \<Rightarrow> Inr None)"

definition local_ref :: "env \<Rightarrow> db \<Rightarrow> context_id \<Rightarrow> string \<Rightarrow> store_error + event_id option" where
  "local_ref E d c name =
     bindR (query_local d c name) (\<lambda>head.
       case head of
         Some h \<Rightarrow>
           bindR (authoritative_event_context E d h) (\<lambda>found.
             if found \<noteq> Some c then Inl CorruptStorage else Inr head)
       | None \<Rightarrow> Inr None)"

definition check_ref_row :: "env \<Rightarrow> db \<Rightarrow> ref_row \<Rightarrow> store_error + ref_row" where
  "check_ref_row E d r =
     bindR (authoritative_event_context E d (ref_head r)) (\<lambda>found.
       if found \<noteq> Some (ref_context r) then Inl CorruptStorage
       else bindR (name_from_str (ref_name r)) (\<lambda>_. Inr r))"

definition list_local_refs :: "env \<Rightarrow> db \<Rightarrow> context_id \<Rightarrow> store_error + ref_row list" where
  "list_local_refs E d c =
     collectR (check_ref_row E d)
       (sort_key ref_name (filter (\<lambda>r. ref_context r = c) (db_local d)))"

definition check_remote_row :: "env \<Rightarrow> db \<Rightarrow> remote_row \<Rightarrow> store_error + remote_row" where
  "check_remote_row E d r =
     bindR (authoritative_event_context E d (rem_head r)) (\<lambda>found.
       if found \<noteq> Some (rem_context r) then Inl CorruptStorage
       else bindR (name_from_str (rem_peer r)) (\<lambda>_.
            bindR (name_from_str (rem_name r)) (\<lambda>_. Inr r)))"

text \<open>\<open>ORDER BY peer,name\<close>: a stable sort by name, then by peer.\<close>

definition list_remote_refs ::
  "env \<Rightarrow> db \<Rightarrow> string option \<Rightarrow> context_id \<Rightarrow> store_error + remote_row list" where
  "list_remote_refs E d peer c =
     collectR (check_remote_row E d)
       (sort_key rem_peer (sort_key rem_name
         (filter (\<lambda>r. rem_context r = c \<and> (case peer of Some p \<Rightarrow> rem_peer r = p | None \<Rightarrow> True))
           (db_remote d))))"

definition set_remote_ref_tx ::
  "env \<Rightarrow> string \<Rightarrow> context_id \<Rightarrow> string \<Rightarrow> event_id \<Rightarrow> db \<Rightarrow> store_error + (unit \<times> db)" where
  "set_remote_ref_tx E peer c name head d =
     bindR (authoritative_event_context E d head) (\<lambda>found.
     bindR (ok_or found (ParentMissing head)) (\<lambda>event_context.
       if event_context \<noteq> c then Inl (ParentContextMismatch head)
       else bindR (upsert_remote peer c name head d) (\<lambda>d'. Inr ((), d'))))"

definition set_remote_ref ::
  "env \<Rightarrow> string \<Rightarrow> context_id \<Rightarrow> string \<Rightarrow> event_id \<Rightarrow> commit_outcome \<Rightarrow> db \<Rightarrow>
    (store_error + unit) \<times> db" where
  "set_remote_ref E peer c name head oc d = write_tx oc (set_remote_ref_tx E peer c name head) d"

section \<open>DAG operations\<close>

text \<open>\<open>create_context\<close>; \<open>entropy\<close> is what \<open>getrandom::fill\<close> produced.\<close>

definition create_context_tx ::
  "signed_event \<Rightarrow> bytes \<Rightarrow> context_id \<Rightarrow> author_id \<Rightarrow> string \<Rightarrow> db \<Rightarrow> store_error + (unit \<times> db)"
where
  "create_context_tx genesis wire c author name d =
     (let i = ev_id genesis in
      bindR (context_row_of d c) (\<lambda>found.
        if found \<noteq> None then Inl ContextProvisionMismatch
        else
          bindR (insert_context c i d) (\<lambda>d1.
          bindR (insert_author c author d1) (\<lambda>d2.
          bindR (insert_event i c author ''context.genesis'' wire d2) (\<lambda>d3.
          bindR (activate_context i c d3) (\<lambda>(changed, d4).
            if changed \<noteq> 1 then Inl GenesisMismatch
            else bindR (insert_local c name i d4) (\<lambda>d5. Inr ((), d5))))))))"

record created_context =
  created_context_id :: context_id
  created_genesis :: signed_event
  created_branch :: ref_row

definition create_context ::
  "env \<Rightarrow> signing_identity \<Rightarrow> string \<Rightarrow> bytes option \<Rightarrow> commit_outcome \<Rightarrow> db \<Rightarrow>
    (store_error + created_context) \<times> db" where
  "create_context E idn branch entropy oc d =
     (case bindR (ok_or entropy EntropyUnavailable) (\<lambda>b.
           bindR (map_err Contract
             (create_event E idn (ContextId b) [] ''context.genesis'' (JObject []))) (\<lambda>genesis.
           bindR (map_err Contract (to_wire E genesis)) (\<lambda>wire.
             Inr (ContextId b, genesis, wire)))) of
        Inl e \<Rightarrow> (Inl e, d)
      | Inr (c, genesis, wire) \<Rightarrow>
          (case write_tx oc (create_context_tx genesis wire c (identity_author E idn) branch) d of
             (Inl e, d') \<Rightarrow> (Inl e, d')
           | (Inr _, d') \<Rightarrow>
               (Inr \<lparr>created_context_id = c, created_genesis = genesis,
                     created_branch = \<lparr>ref_context = c, ref_name = branch, ref_head = ev_id genesis\<rparr>\<rparr>,
                d')))"

text \<open>Both \<open>append\<close> and \<open>merge\<close> end by admitting the signed event under an expected head.\<close>

definition admit_on_branch ::
  "env \<Rightarrow> signed_event \<Rightarrow> context_id \<Rightarrow> string \<Rightarrow> event_id \<Rightarrow> commit_outcome \<Rightarrow> db \<Rightarrow>
    (store_error + signed_event) \<times> db" where
  "admit_on_branch E event c branch expected oc d =
     (case admit E event (CompareAndSwap c branch (Head expected) (ev_id event)) oc d of
        (Inl e, d') \<Rightarrow> (Inl e, d')
      | (Inr _, d') \<Rightarrow> (Inr event, d'))"

definition append ::
  "env \<Rightarrow> signing_identity \<Rightarrow> context_id \<Rightarrow> string \<Rightarrow> event_id \<Rightarrow> string \<Rightarrow> json \<Rightarrow>
    commit_outcome \<Rightarrow> db \<Rightarrow> (store_error + signed_event) \<times> db" where
  "append E idn c branch expected kind payload oc d =
     (if kind = ''context.genesis'' \<or> kind = ''context.merge'' then (Inl ReservedEventKind, d)
      else case create_event E idn c [expected] kind payload of
        Inl e \<Rightarrow> (Inl (Contract e), d)
      | Inr event \<Rightarrow> admit_on_branch E event c branch expected oc d)"

definition merge ::
  "env \<Rightarrow> signing_identity \<Rightarrow> context_id \<Rightarrow> string \<Rightarrow> event_id \<Rightarrow> event_id list \<Rightarrow> json \<Rightarrow>
    commit_outcome \<Rightarrow> db \<Rightarrow> (store_error + signed_event) \<times> db" where
  "merge E idn c branch expected parents payload oc d =
     (if \<not> (2 \<le> length parents \<and> length parents \<le> MAX_PARENTS) then (Inl InvalidMerge, d)
      else
        (let parents = sort_key (event_id_text E) parents in
         if windows2_any (\<lambda>p q. p = q) parents \<or>
            \<not> bsearch (event_id_text E) (event_id_text E expected) parents
         then (Inl InvalidMerge, d)
         else case create_event E idn c parents ''context.merge'' payload of
           Inl e \<Rightarrow> (Inl (Contract e), d)
         | Inr event \<Rightarrow> admit_on_branch E event c branch expected oc d))"

definition create_branch_tx ::
  "env \<Rightarrow> context_id \<Rightarrow> string \<Rightarrow> event_id \<Rightarrow> db \<Rightarrow> store_error + (unit \<times> db)" where
  "create_branch_tx E c name from_head d =
     bindR (authoritative_event_context E d from_head) (\<lambda>found.
     bindR (ok_or found (ParentMissing from_head)) (\<lambda>event_context.
       if event_context \<noteq> c then Inl (ParentContextMismatch from_head)
       else bindR (query_local d c name) (\<lambda>current.
         case current of
           Some head \<Rightarrow> if head = from_head then Inr ((), d) else Inl RefAlreadyExists
         | None \<Rightarrow> bindR (insert_local c name from_head d) (\<lambda>d'. Inr ((), d')))))"

definition create_branch ::
  "env \<Rightarrow> context_id \<Rightarrow> string \<Rightarrow> event_id \<Rightarrow> commit_outcome \<Rightarrow> db \<Rightarrow>
    (store_error + ref_row) \<times> db" where
  "create_branch E c name from_head oc d =
     (case write_tx oc (create_branch_tx E c name from_head) d of
        (Inl e, d') \<Rightarrow> (Inl e, d')
      | (Inr _, d') \<Rightarrow> (Inr \<lparr>ref_context = c, ref_name = name, ref_head = from_head\<rparr>, d'))"

end
