(* ===== verification/Store_Invariant.thy ===== *)
theory Store_Invariant
  imports Store_Core
begin

text \<open>
  The integrity invariant of the store and what its readers return under it. The invariant is
  what \<open>src/src/store/verify.rs\<close> scans for: keys are unique, every event row is its own
  canonical, verified envelope with matching columns and edges, parents come before children in
  insertion order and share their context, contexts and their genesis agree, and refs point at
  stored events of their context. The building blocks at the end say which changes of the
  tables keep it.
\<close>

section \<open>The invariant\<close>

definition row_parents :: "env \<Rightarrow> event_row \<Rightarrow> event_id list" where
  "row_parents E r =
     (case from_wire E (er_wire r) of Inl _ \<Rightarrow> [] | Inr ev \<Rightarrow> body_parents (ev_body ev))"

definition mk_edges :: "event_id \<Rightarrow> event_id list \<Rightarrow> edge_row list" where
  "mk_edges child parents =
     map (\<lambda>(ordinal, parent).
       \<lparr>edge_child = child, edge_ordinal = int ordinal, edge_parent = parent\<rparr>)
       (List.enumerate 0 parents)"

definition edges_of :: "db \<Rightarrow> event_id \<Rightarrow> edge_row list" where
  "edges_of d i = filter (\<lambda>e. edge_child e = i) (db_edges d)"

text \<open>A row is the canonical envelope of a verified event, with its columns.\<close>

definition event_row_ok :: "env \<Rightarrow> event_row \<Rightarrow> bool" where
  "event_row_ok E r =
     (case from_wire E (er_wire r) of
        Inl _ \<Rightarrow> False
      | Inr ev \<Rightarrow> to_wire E ev = Inr (er_wire r) \<and> ev_id ev = er_id r \<and>
          body_context (ev_body ev) = er_context r \<and> body_author (ev_body ev) = er_author r \<and>
          body_kind (ev_body ev) = er_kind r)"

definition stored_in :: "db \<Rightarrow> event_id \<Rightarrow> context_id \<Rightarrow> bool" where
  "stored_in d i c \<longleftrightarrow> (\<exists>r \<in> set (db_events d). er_id r = i \<and> er_context r = c)"

definition inv_keys :: "db \<Rightarrow> bool" where
  "inv_keys d \<longleftrightarrow> distinct (map ctx_id (db_contexts d)) \<and> distinct (db_authors d) \<and>
     distinct (map er_id (db_events d)) \<and>
     distinct (map (\<lambda>r. (ref_context r, ref_name r)) (db_local d)) \<and>
     distinct (map (\<lambda>r. (rem_peer r, rem_context r, rem_name r)) (db_remote d))"

definition inv_types :: "db \<Rightarrow> bool" where
  "inv_types d \<longleftrightarrow>
     (\<forall>c \<in> set (db_contexts d). context_id_wf (ctx_id c) \<and> event_id_wf (ctx_expected c)) \<and>
     (\<forall>(c, a) \<in> set (db_authors d). author_id_wf a)"

definition inv_authors :: "db \<Rightarrow> bool" where
  "inv_authors d \<longleftrightarrow>
     (\<forall>(c, a) \<in> set (db_authors d). c \<in> set (map ctx_id (db_contexts d))) \<and>
     (\<forall>c \<in> set (db_contexts d). \<exists>a. (ctx_id c, a) \<in> set (db_authors d))"

definition inv_events :: "env \<Rightarrow> db \<Rightarrow> bool" where
  "inv_events E d \<longleftrightarrow> (\<forall>r \<in> set (db_events d). event_row_ok E r \<and>
     edges_of d (er_id r) = mk_edges (er_id r) (row_parents E r) \<and>
     (er_context r, er_author r) \<in> set (db_authors d))"

definition inv_edges :: "db \<Rightarrow> bool" where
  "inv_edges d \<longleftrightarrow> (\<forall>e \<in> set (db_edges d). has_event d (edge_child e))"

text \<open>Parents precede their children in insertion order and belong to the same context.\<close>

primrec parents_first :: "env \<Rightarrow> (event_id \<times> context_id) set \<Rightarrow> event_row list \<Rightarrow> bool" where
  "parents_first E seen [] = True"
| "parents_first E seen (r # rs) =
     ((\<forall>p \<in> set (row_parents E r). (p, er_context r) \<in> seen) \<and>
      parents_first E (insert (er_id r, er_context r) seen) rs)"

text \<open>An event exists only in an active context, and only the expected one is a root.\<close>

definition root_row :: "env \<Rightarrow> event_row \<Rightarrow> bool" where
  "root_row E r \<longleftrightarrow> row_parents E r = [] \<or> er_kind r = ''context.genesis''"

definition row_in_context :: "env \<Rightarrow> event_row \<Rightarrow> context_row \<Rightarrow> bool" where
  "row_in_context E r c \<longleftrightarrow> ctx_id c = er_context r \<and> ctx_state c = 1 \<and>
     (root_row E r \<longrightarrow> er_id r = ctx_expected c)"

definition inv_roots :: "env \<Rightarrow> db \<Rightarrow> bool" where
  "inv_roots E d \<longleftrightarrow>
     (\<forall>r \<in> set (db_events d). \<exists>c \<in> set (db_contexts d). row_in_context E r c)"

definition genesis_row :: "env \<Rightarrow> context_row \<Rightarrow> event_row \<Rightarrow> bool" where
  "genesis_row E c r \<longleftrightarrow> er_id r = ctx_expected c \<and> er_context r = ctx_id c \<and>
     er_kind r = ''context.genesis'' \<and> row_parents E r = []"

definition context_ok :: "env \<Rightarrow> event_row list \<Rightarrow> context_row \<Rightarrow> bool" where
  "context_ok E rows c \<longleftrightarrow>
     (ctx_state c = 0 \<and> ctx_genesis c = None) \<or>
     (ctx_state c = 1 \<and> ctx_genesis c = Some (ctx_expected c) \<and>
      (\<exists>r \<in> set rows. genesis_row E c r))"

definition inv_contexts :: "env \<Rightarrow> db \<Rightarrow> bool" where
  "inv_contexts E d \<longleftrightarrow> (\<forall>c \<in> set (db_contexts d). context_ok E (db_events d) c)"

definition inv_local :: "db \<Rightarrow> bool" where
  "inv_local d \<longleftrightarrow> (\<forall>r \<in> set (db_local d).
     ref_name_wf (ref_name r) \<and> stored_in d (ref_head r) (ref_context r))"

definition inv_remote :: "db \<Rightarrow> bool" where
  "inv_remote d \<longleftrightarrow> (\<forall>r \<in> set (db_remote d). ref_name_wf (rem_peer r) \<and>
     ref_name_wf (rem_name r) \<and> stored_in d (rem_head r) (rem_context r))"

definition store_inv :: "env \<Rightarrow> db \<Rightarrow> bool" where
  "store_inv E d \<longleftrightarrow> inv_keys d \<and> inv_types d \<and> inv_authors d \<and> inv_events E d \<and> inv_edges d \<and>
     parents_first E {} (db_events d) \<and> inv_roots E d \<and> inv_contexts E d \<and>
     inv_local d \<and> inv_remote d"

lemma store_invD:
  assumes "store_inv E d"
  shows "inv_keys d" "inv_types d" "inv_authors d" "inv_events E d" "inv_edges d"
    "parents_first E {} (db_events d)" "inv_roots E d" "inv_contexts E d" "inv_local d"
    "inv_remote d"
  using assms by (simp_all add: store_inv_def)

lemma store_inv_empty: "store_inv E empty_db"
  by (simp add: store_inv_def empty_db_def inv_keys_def inv_types_def inv_authors_def
      inv_events_def inv_edges_def inv_roots_def inv_contexts_def inv_local_def inv_remote_def)

section \<open>Small facts on rows\<close>

lemma has_event_row: "r \<in> set (db_events d) \<Longrightarrow> has_event d (er_id r)"
  by (simp add: has_event_def)

lemma has_event_cong [simp]:
  "has_event (d\<lparr>db_contexts := cs\<rparr>) = has_event d" "has_event (d\<lparr>db_authors := as\<rparr>) = has_event d"
  "has_event (d\<lparr>db_edges := es\<rparr>) = has_event d" "has_event (d\<lparr>db_local := ls\<rparr>) = has_event d"
  "has_event (d\<lparr>db_remote := rs\<rparr>) = has_event d"
  by (simp_all add: has_event_def fun_eq_iff)

lemma stored_in_cong [simp]:
  "stored_in (d\<lparr>db_contexts := cs\<rparr>) = stored_in d" "stored_in (d\<lparr>db_authors := as\<rparr>) = stored_in d"
  "stored_in (d\<lparr>db_edges := es\<rparr>) = stored_in d" "stored_in (d\<lparr>db_local := ls\<rparr>) = stored_in d"
  "stored_in (d\<lparr>db_remote := rs\<rparr>) = stored_in d"
  by (simp_all add: stored_in_def fun_eq_iff)

lemma edges_of_cong [simp]:
  "edges_of (d\<lparr>db_contexts := cs\<rparr>) = edges_of d" "edges_of (d\<lparr>db_authors := as\<rparr>) = edges_of d"
  "edges_of (d\<lparr>db_events := es\<rparr>) = edges_of d" "edges_of (d\<lparr>db_local := ls\<rparr>) = edges_of d"
  "edges_of (d\<lparr>db_remote := rs\<rparr>) = edges_of d"
  by (simp_all add: edges_of_def fun_eq_iff)

lemma stored_in_has_event: "stored_in d i c \<Longrightarrow> has_event d i"
  by (auto simp: stored_in_def has_event_def)

lemma has_event_stored_in: "has_event d i \<Longrightarrow> \<exists>c. stored_in d i c"
  by (auto simp: stored_in_def has_event_def)

lemma event_row_okE:
  assumes "event_row_ok E r"
  obtains ev where "from_wire E (er_wire r) = Inr ev" "to_wire E ev = Inr (er_wire r)"
    "ev_id ev = er_id r" "body_context (ev_body ev) = er_context r"
    "body_author (ev_body ev) = er_author r" "body_kind (ev_body ev) = er_kind r"
    "body_parents (ev_body ev) = row_parents E r" "verify_event E ev = Inr ()" "event_wf ev"
  using assms
  by (auto simp: event_row_ok_def row_parents_def split: sum.splits dest: from_wire_Inr(1,2))

lemma mk_edges_Nil [simp]: "mk_edges i [] = []"
  by (simp add: mk_edges_def)

lemma mk_edges_child [simp]: "e \<in> set (mk_edges i ps) \<Longrightarrow> edge_child e = i"
  by (auto simp: mk_edges_def)

lemma filter_mk_edges [simp]:
  "filter (\<lambda>e. edge_child e = j) (mk_edges i ps) = (if i = j then mk_edges i ps else [])"
  by (auto simp: filter_id_conv filter_empty_conv dest: mk_edges_child)

lemma map_edge_parent_mk_edges [simp]: "map edge_parent (mk_edges i ps) = ps"
  by (rule nth_equalityI) (auto simp: mk_edges_def nth_enumerate_eq)

lemma sorted_mk_edges [simp]: "sort_key edge_ordinal (mk_edges i ps) = mk_edges i ps"
proof -
  have "map edge_ordinal (mk_edges i ps) = map int [0..<length ps]"
    by (rule nth_equalityI) (auto simp: mk_edges_def nth_enumerate_eq)
  then have "sorted (map edge_ordinal (mk_edges i ps))"
    by (simp add: sorted_map sorted_wrt_upt)
  then show ?thesis by (rule sort_key_id_if_sorted)
qed

lemma parents_first_append [simp]:
  "parents_first E seen (rs @ [r]) \<longleftrightarrow> parents_first E seen rs \<and>
     (\<forall>p \<in> set (row_parents E r).
       (p, er_context r) \<in> seen \<union> (\<lambda>r. (er_id r, er_context r)) ` set rs)"
  by (induction rs arbitrary: seen) auto

lemma parents_first_seen:
  "parents_first E seen rs \<Longrightarrow> r \<in> set rs \<Longrightarrow> p \<in> set (row_parents E r) \<Longrightarrow>
    (p, er_context r) \<in> seen \<union> (\<lambda>r. (er_id r, er_context r)) ` set rs"
  by (induction rs arbitrary: seen) fastforce+

lemma parent_stored_in:
  "store_inv E d \<Longrightarrow> r \<in> set (db_events d) \<Longrightarrow> p \<in> set (row_parents E r) \<Longrightarrow>
    stored_in d p (er_context r)"
  using parents_first_seen [of E "{}" "db_events d" r p]
  by (force simp: stored_in_def store_inv_def)

section \<open>What the readers return\<close>

text \<open>The event a store holds under an identifier.\<close>

definition lookup_event :: "env \<Rightarrow> db \<Rightarrow> event_id \<Rightarrow> signed_event option" where
  "lookup_event E d i =
     (case find (\<lambda>r. er_id r = i) (db_events d) of
        None \<Rightarrow> None
      | Some r \<Rightarrow> (case from_wire E (er_wire r) of Inl _ \<Rightarrow> None | Inr ev \<Rightarrow> Some ev))"

definition event_context :: "signed_event \<Rightarrow> context_id" where
  "event_context ev = body_context (ev_body ev)"

definition event_parents :: "signed_event \<Rightarrow> event_id list" where
  "event_parents ev = body_parents (ev_body ev)"

lemma inv_row_ok: "store_inv E d \<Longrightarrow> r \<in> set (db_events d) \<Longrightarrow> event_row_ok E r"
  by (simp add: store_inv_def inv_events_def)

lemma inv_distinct_events: "store_inv E d \<Longrightarrow> distinct (map er_id (db_events d))"
  by (simp add: store_inv_def inv_keys_def)

lemma inv_distinct_contexts: "store_inv E d \<Longrightarrow> distinct (map ctx_id (db_contexts d))"
  by (simp add: store_inv_def inv_keys_def)

lemma lookup_event_row:
  assumes "store_inv E d" "r \<in> set (db_events d)"
  obtains ev where "lookup_event E d (er_id r) = Some ev" "from_wire E (er_wire r) = Inr ev"
    "to_wire E ev = Inr (er_wire r)" "ev_id ev = er_id r" "event_context ev = er_context r"
    "body_author (ev_body ev) = er_author r" "body_kind (ev_body ev) = er_kind r"
    "event_parents ev = row_parents E r" "verify_event E ev = Inr ()" "event_wf ev"
proof -
  obtain ev where ev: "from_wire E (er_wire r) = Inr ev" "to_wire E ev = Inr (er_wire r)"
    "ev_id ev = er_id r" "body_context (ev_body ev) = er_context r"
    "body_author (ev_body ev) = er_author r" "body_kind (ev_body ev) = er_kind r"
    "body_parents (ev_body ev) = row_parents E r" "verify_event E ev = Inr ()" "event_wf ev"
    by (rule event_row_okE [OF inv_row_ok [OF assms]])
  moreover have "find (\<lambda>r'. er_id r' = er_id r) (db_events d) = Some r"
    using assms inv_distinct_events by (intro find_key_eq) auto
  ultimately show thesis
    by (intro that [of ev]) (simp_all add: lookup_event_def event_context_def event_parents_def)
qed

lemma lookup_event_None: "store_inv E d \<Longrightarrow> lookup_event E d i = None \<longleftrightarrow> \<not> has_event d i"
proof -
  assume inv: "store_inv E d"
  show ?thesis
  proof (cases "has_event d i")
    case True
    then obtain r where "r \<in> set (db_events d)" "er_id r = i" by (auto simp: has_event_def)
    with inv show ?thesis by (metis True lookup_event_row option.distinct(1))
  next
    case False
    then have "find (\<lambda>r. er_id r = i) (db_events d) = None"
      by (intro find_key_absent) (simp add: has_event_def)
    with False show ?thesis by (simp add: lookup_event_def)
  qed
qed

lemma lookup_eventE:
  assumes "store_inv E d" "lookup_event E d i = Some ev"
  obtains r where "r \<in> set (db_events d)" "er_id r = i" "from_wire E (er_wire r) = Inr ev"
    "to_wire E ev = Inr (er_wire r)" "ev_id ev = i" "event_context ev = er_context r"
    "body_author (ev_body ev) = er_author r" "body_kind (ev_body ev) = er_kind r"
    "event_parents ev = row_parents E r" "verify_event E ev = Inr ()" "event_wf ev"
proof -
  have "has_event d i" using assms lookup_event_None [OF assms(1), of i] by auto
  then obtain r where r: "r \<in> set (db_events d)" "er_id r = i" by (auto simp: has_event_def)
  obtain ev' where ev': "lookup_event E d (er_id r) = Some ev'" "from_wire E (er_wire r) = Inr ev'"
    "to_wire E ev' = Inr (er_wire r)" "ev_id ev' = er_id r" "event_context ev' = er_context r"
    "body_author (ev_body ev') = er_author r" "body_kind (ev_body ev') = er_kind r"
    "event_parents ev' = row_parents E r" "verify_event E ev' = Inr ()" "event_wf ev'"
    by (rule lookup_event_row [OF assms(1) r(1)])
  with r assms(2) show thesis by (intro that [of r]) auto
qed

lemma stored_in_iff:
  assumes "store_inv E d"
  shows "stored_in d i c \<longleftrightarrow> (\<exists>ev. lookup_event E d i = Some ev \<and> event_context ev = c)"
proof
  assume "stored_in d i c"
  then show "\<exists>ev. lookup_event E d i = Some ev \<and> event_context ev = c"
    using assms by (auto simp: stored_in_def elim: lookup_event_row)
next
  assume "\<exists>ev. lookup_event E d i = Some ev \<and> event_context ev = c"
  then obtain ev where ev: "lookup_event E d i = Some ev" "event_context ev = c" by blast
  show "stored_in d i c"
    by (rule lookup_eventE [OF assms ev(1)]) (use ev(2) in \<open>auto simp: stored_in_def\<close>)
qed

lemma lookup_parent:
  assumes "store_inv E d" "lookup_event E d i = Some ev" "p \<in> set (event_parents ev)"
  obtains pev where "lookup_event E d p = Some pev" "event_context pev = event_context ev"
  using assms lookup_eventE [OF assms(1,2)] parent_stored_in [OF assms(1)] stored_in_iff [OF assms(1)]
  by metis

lemma event_wire_lookup:
  assumes "store_inv E d"
  shows "event_wire d i = Inr None \<and> lookup_event E d i = None \<or>
    (\<exists>ev w. event_wire d i = Inr (Some w) \<and> from_wire E w = Inr ev \<and> to_wire E ev = Inr w \<and>
      lookup_event E d i = Some ev \<and> ev_id ev = i)"
proof (cases "lookup_event E d i")
  case None
  with assms have "i \<notin> er_id ` set (db_events d)" by (simp add: lookup_event_None has_event_def)
  then show ?thesis using None by (simp add: event_wire_def at_most_one_def filter_key_absent)
next
  case (Some ev)
  then show ?thesis
    by (rule lookup_eventE [OF assms])
      (use Some inv_distinct_events [OF assms] in
        \<open>auto simp: event_wire_def at_most_one_def filter_key_eq\<close>)
qed

lemma event_wire_Some:
  assumes "store_inv E d" "lookup_event E d i = Some ev"
  obtains w where "event_wire d i = Inr (Some w)" "from_wire E w = Inr ev" "to_wire E ev = Inr w"
  using event_wire_lookup [OF assms(1), of i] assms(2) by auto

lemma authoritative_lookup:
  "store_inv E d \<Longrightarrow>
    authoritative_event_context E d i = Inr (map_option event_context (lookup_event E d i))"
  using event_wire_lookup [of E d i]
  by (auto simp: authoritative_event_context_def event_context_def)

lemma edge_rows_lookup:
  assumes "store_inv E d" "lookup_event E d i = Some ev"
  shows "edge_rows d i = event_parents ev"
proof -
  obtain r where r: "r \<in> set (db_events d)" "er_id r = i" "event_parents ev = row_parents E r"
    by (rule lookup_eventE [OF assms])
  then have "edges_of d i = mk_edges i (row_parents E r)"
    using assms(1) by (auto simp: store_inv_def inv_events_def)
  with r show ?thesis by (simp add: edge_rows_def edges_of_def)
qed

lemma validate_stored_lookup:
  assumes "store_inv E d" "lookup_event E d i = Some ev"
  shows "validate_stored_event E d ev = Inr ()"
proof -
  obtain r where r: "r \<in> set (db_events d)" "er_id r = i" "from_wire E (er_wire r) = Inr ev"
    "to_wire E ev = Inr (er_wire r)" "ev_id ev = i" "event_context ev = er_context r"
    "body_author (ev_body ev) = er_author r" "body_kind (ev_body ev) = er_kind r"
    by (rule lookup_eventE [OF assms])
  have "filter (\<lambda>r. er_id r = ev_id ev) (db_events d) = [r]"
    using r inv_distinct_events [OF assms(1)] by (intro filter_key_eq) auto
  then show ?thesis
    using r edge_rows_lookup [OF assms]
    by (simp add: validate_stored_event_def event_context_def event_parents_def)
qed

lemma store_event_lookup: "store_inv E d \<Longrightarrow> store_event E d i = Inr (lookup_event E d i)"
  using event_wire_lookup [of E d i] validate_stored_lookup [of E d i]
  by (auto simp: store_event_def)

lemma load_verified_lookup:
  "store_inv E d \<Longrightarrow> load_verified_event E d i = ok_or (lookup_event E d i) (ParentMissing i)"
  using event_wire_lookup [of E d i] validate_stored_lookup [of E d i]
  by (auto simp: load_verified_event_def)

lemma context_row_of_Some:
  "context_row_of d c = Inr (Some (x, s)) \<Longrightarrow>
    \<exists>r \<in> set (db_contexts d). ctx_id r = c \<and> ctx_expected r = x \<and> ctx_state r = s"
  by (auto simp: context_row_of_def split: list.splits if_splits dest: filter_eq_ConsD)

lemma context_row_of_None: "context_row_of d c = Inr None \<longleftrightarrow> \<not> has_context d c"
  by (auto simp: context_row_of_def has_context_def filter_empty_conv split: list.splits if_splits
      dest: filter_eq_ConsD)

lemma context_row_of_row:
  assumes "store_inv E d" "r \<in> set (db_contexts d)"
  shows "context_row_of d (ctx_id r) = Inr (Some (ctx_expected r, ctx_state r))"
proof -
  have "filter (\<lambda>r'. ctx_id r' = ctx_id r) (db_contexts d) = [r]"
    using assms inv_distinct_contexts by (intro filter_key_eq) auto
  moreover have "context_ok E (db_events d) r"
    using assms by (simp add: store_inv_def inv_contexts_def)
  ultimately show ?thesis by (auto simp: context_row_of_def context_ok_def)
qed

lemma is_authorized_iff: "store_inv E d \<Longrightarrow> is_authorized d c a \<longleftrightarrow> (c, a) \<in> set (db_authors d)"
proof -
  assume "store_inv E d"
  then have dist: "distinct (db_authors d)" by (simp add: store_inv_def inv_keys_def)
  then have "(c, a) \<in> set (db_authors d) \<Longrightarrow> filter (\<lambda>r. r = (c, a)) (db_authors d) = [(c, a)]"
    using filter_key_eq [of "\<lambda>x. x" "db_authors d" "(c, a)"] by simp
  moreover have "(c, a) \<notin> set (db_authors d) \<Longrightarrow> filter (\<lambda>r. r = (c, a)) (db_authors d) = []"
    by (auto simp: filter_empty_conv)
  ultimately show ?thesis by (cases "(c, a) \<in> set (db_authors d)") (auto simp: is_authorized_def)
qed

text \<open>The position of an event in insertion order decreases along parents: no cycles.\<close>

definition event_rank :: "db \<Rightarrow> event_id \<Rightarrow> nat" where
  "event_rank d i = length (takeWhile (\<lambda>r. er_id r \<noteq> i) (db_events d))"

lemma takeWhile_rank:
  assumes "distinct (map er_id (xs @ r # ys))" "q \<in> set xs"
  shows "length (takeWhile (\<lambda>x. er_id x \<noteq> er_id q) (xs @ r # ys)) <
    length (takeWhile (\<lambda>x. er_id x \<noteq> er_id r) (xs @ r # ys))"
proof -
  have "er_id r \<notin> er_id ` set xs" using assms(1) by simp
  then have "er_id x \<noteq> er_id r" if "x \<in> set xs" for x using that by (metis imageI)
  then have "takeWhile (\<lambda>x. er_id x \<noteq> er_id r) (xs @ r # ys) = xs"
    by (simp add: takeWhile_append)
  moreover have "length (takeWhile (\<lambda>x. er_id x \<noteq> er_id q) (xs @ r # ys)) < length xs"
    using assms(2) by (induction xs) auto
  ultimately show ?thesis by simp
qed

lemma parents_first_split:
  "parents_first E seen (xs @ r # ys) \<Longrightarrow> p \<in> set (row_parents E r) \<Longrightarrow>
    (p, er_context r) \<in> seen \<union> (\<lambda>r. (er_id r, er_context r)) ` set xs"
  by (induction xs arbitrary: seen) fastforce+

lemma event_rank_parent:
  assumes "store_inv E d" "lookup_event E d i = Some ev" "p \<in> set (event_parents ev)"
  shows "event_rank d p < event_rank d i"
proof -
  obtain r where r: "r \<in> set (db_events d)" "er_id r = i" "event_parents ev = row_parents E r"
    by (rule lookup_eventE [OF assms(1,2)])
  obtain xs ys where split: "db_events d = xs @ r # ys" using r(1) by (auto simp: in_set_conv_decomp)
  have "parents_first E {} (xs @ r # ys)" using assms(1) split by (simp add: store_inv_def)
  then obtain q where "q \<in> set xs" "er_id q = p"
    using parents_first_split [of E "{}" xs r ys p] assms(3) r(3) by auto
  then show ?thesis
    using takeWhile_rank [of xs r ys q] inv_distinct_events [OF assms(1)] r split
    by (simp add: event_rank_def)
qed

end
