(* ===== verification/Store_Blocks.thy ===== *)
theory Store_Blocks
  imports Store_Invariant "HOL-Library.Sublist"
begin

text \<open>
  The changes of the tables that keep the integrity invariant: a new pending context, a new
  author, a recorded event (its row, its edges and the activation it may cause), and the
  changes of local and remote refs. Every one of them only adds to the immutable tables.
\<close>

section \<open>Growth\<close>

text \<open>Events, edges and authors are only appended to; a context keeps its expected genesis and
  never leaves the active state; a local ref may move but stays.\<close>

definition db_grows :: "db \<Rightarrow> db \<Rightarrow> bool" where
  "db_grows d d' \<longleftrightarrow>
     prefix (db_events d) (db_events d') \<and> prefix (db_edges d) (db_edges d') \<and>
     prefix (db_authors d) (db_authors d') \<and>
     prefix (map (\<lambda>c. (ctx_id c, ctx_expected c)) (db_contexts d))
       (map (\<lambda>c. (ctx_id c, ctx_expected c)) (db_contexts d')) \<and>
     (\<forall>c \<in> set (db_contexts d). ctx_state c = 1 \<longrightarrow> c \<in> set (db_contexts d')) \<and>
     prefix (map (\<lambda>r. (ref_context r, ref_name r)) (db_local d))
       (map (\<lambda>r. (ref_context r, ref_name r)) (db_local d'))"

lemma db_grows_refl [simp]: "db_grows d d"
  by (simp add: db_grows_def)

lemma db_grows_trans: "db_grows a b \<Longrightarrow> db_grows b c \<Longrightarrow> db_grows a c"
  by (auto simp: db_grows_def intro: prefix_order.trans)

lemma db_grows_stored_in: "db_grows d d' \<Longrightarrow> stored_in d i c \<Longrightarrow> stored_in d' i c"
  by (auto simp: db_grows_def stored_in_def dest: set_mono_prefix)

lemma db_grows_context:
  assumes "db_grows d d'" "r \<in> set (db_contexts d)"
  obtains r' where "r' \<in> set (db_contexts d')" "ctx_id r' = ctx_id r" "ctx_expected r' = ctx_expected r"
proof -
  have "set (map (\<lambda>c. (ctx_id c, ctx_expected c)) (db_contexts d)) \<subseteq>
      set (map (\<lambda>c. (ctx_id c, ctx_expected c)) (db_contexts d'))"
    using assms(1) unfolding db_grows_def by (intro set_mono_prefix) blast
  then have "(ctx_id r, ctx_expected r) \<in> set (map (\<lambda>c. (ctx_id c, ctx_expected c)) (db_contexts d'))"
    using assms(2) by (auto simp: subset_iff image_iff)
  then show thesis using that by auto
qed

lemma lookup_event_mono:
  "db_grows d d' \<Longrightarrow> lookup_event E d i = Some ev \<Longrightarrow> lookup_event E d' i = Some ev"
  by (auto simp: db_grows_def lookup_event_def prefix_def find_append split: option.splits)

section \<open>Contexts and authors\<close>

definition pending_context :: "context_id \<Rightarrow> event_id \<Rightarrow> context_row" where
  "pending_context c x = \<lparr>ctx_id = c, ctx_expected = x, ctx_genesis = None, ctx_state = 0\<rparr>"

lemma pending_context_sel [simp]:
  "ctx_id (pending_context c x) = c" "ctx_expected (pending_context c x) = x"
  "ctx_genesis (pending_context c x) = None" "ctx_state (pending_context c x) = 0"
  by (simp_all add: pending_context_def)

definition put_context :: "context_id \<Rightarrow> event_id \<Rightarrow> author_id list \<Rightarrow> db \<Rightarrow> db" where
  "put_context c x as d =
     d\<lparr>db_contexts := db_contexts d @ [pending_context c x],
       db_authors := db_authors d @ map (Pair c) as\<rparr>"

definition put_author :: "context_id \<Rightarrow> author_id \<Rightarrow> db \<Rightarrow> db" where
  "put_author c a d = d\<lparr>db_authors := db_authors d @ [(c, a)]\<rparr>"

lemma inv_put_context:
  assumes "store_inv E d" "\<not> has_context d c" "context_id_wf c" "event_id_wf x"
    and "distinct as" "as \<noteq> []" "\<forall>a \<in> set as. author_id_wf a"
  shows "store_inv E (put_context c x as d)"
proof -
  note inv = store_invD [OF assms(1)]
  have fresh: "c \<notin> ctx_id ` set (db_contexts d)" using assms(2) by (simp add: has_context_def)
  have no_authors: "(c, a) \<notin> set (db_authors d)" for a
    using inv(3) fresh by (auto simp: inv_authors_def)
  have "inv_keys (put_context c x as d)"
    using inv(1) fresh no_authors assms(5)
    by (auto simp: inv_keys_def put_context_def distinct_map inj_on_def)
  moreover have "inv_types (put_context c x as d)"
    using inv(2) assms(3,4,7) by (auto simp: inv_types_def put_context_def)
  moreover have "inv_authors (put_context c x as d)"
    using inv(3) assms(6) by (force simp: inv_authors_def put_context_def neq_Nil_conv)
  moreover have "inv_events E (put_context c x as d)"
    using inv(4) by (auto simp: inv_events_def put_context_def)
  moreover have "inv_edges (put_context c x as d)"
    using inv(5) by (auto simp: inv_edges_def put_context_def)
  moreover have "inv_roots E (put_context c x as d)"
    using inv(7) by (fastforce simp: inv_roots_def put_context_def)
  moreover have "inv_contexts E (put_context c x as d)"
    using inv(8) by (auto simp: inv_contexts_def put_context_def context_ok_def)
  moreover have "inv_local (put_context c x as d)" "inv_remote (put_context c x as d)"
    using inv(9,10) by (auto simp: inv_local_def inv_remote_def put_context_def)
  ultimately show ?thesis using inv(6) by (simp add: store_inv_def put_context_def)
qed

lemma grows_put_context: "db_grows d (put_context c x as d)"
  by (simp add: db_grows_def put_context_def)

lemma inv_put_author:
  assumes "store_inv E d" "has_context d c" "author_id_wf a" "(c, a) \<notin> set (db_authors d)"
  shows "store_inv E (put_author c a d)"
proof -
  note inv = store_invD [OF assms(1)]
  have "inv_keys (put_author c a d)" "inv_types (put_author c a d)"
    using inv(1,2) assms(3,4) by (auto simp: inv_keys_def inv_types_def put_author_def)
  moreover have "inv_authors (put_author c a d)"
    using inv(3) assms(2) by (force simp: inv_authors_def put_author_def has_context_def)
  moreover have "inv_events E (put_author c a d)" "inv_edges (put_author c a d)"
    using inv(4,5) by (auto simp: inv_events_def inv_edges_def put_author_def)
  moreover have "inv_roots E (put_author c a d)" "inv_contexts E (put_author c a d)"
    using inv(7,8) by (auto simp: inv_roots_def inv_contexts_def put_author_def)
  moreover have "inv_local (put_author c a d)" "inv_remote (put_author c a d)"
    using inv(9,10) by (auto simp: inv_local_def inv_remote_def put_author_def)
  ultimately show ?thesis using inv(6) by (simp add: store_inv_def put_author_def)
qed

lemma grows_put_author: "db_grows d (put_author c a d)"
  by (simp add: db_grows_def put_author_def)

section \<open>Recording an event\<close>

definition settle :: "event_id \<Rightarrow> context_id \<Rightarrow> context_row list \<Rightarrow> context_row list" where
  "settle i c = map (\<lambda>r. if activation_applies i c r
     then r\<lparr>ctx_genesis := Some i, ctx_state := 1\<rparr> else r)"

definition put_event :: "env \<Rightarrow> event_row \<Rightarrow> db \<Rightarrow> db" where
  "put_event E r d =
     d\<lparr>db_contexts := settle (er_id r) (er_context r) (db_contexts d),
       db_events := db_events d @ [r],
       db_edges := db_edges d @ mk_edges (er_id r) (row_parents E r)\<rparr>"

text \<open>What admission has checked of a new event when it records it.\<close>

definition admissible :: "env \<Rightarrow> db \<Rightarrow> event_row \<Rightarrow> bool" where
  "admissible E d r \<longleftrightarrow> \<not> has_event d (er_id r) \<and> event_row_ok E r \<and>
     (er_context r, er_author r) \<in> set (db_authors d) \<and>
     (\<forall>p \<in> set (row_parents E r). stored_in d p (er_context r)) \<and>
     (\<exists>x \<in> set (db_contexts d). ctx_id x = er_context r \<and>
        (if ctx_state x = 0 then genesis_row E x r
         else root_row E r \<longrightarrow> er_id r = ctx_expected x))"

lemma settle_keys [simp]:
  "map ctx_id (settle i c rows) = map ctx_id rows"
  "map (\<lambda>c. (ctx_id c, ctx_expected c)) (settle i c rows) = map (\<lambda>c. (ctx_id c, ctx_expected c)) rows"
  by (auto simp: settle_def)

lemma settle_active: "x \<in> set rows \<Longrightarrow> ctx_state x = 1 \<Longrightarrow> x \<in> set (settle i c rows)"
  by (force simp: settle_def activation_applies_def)

lemma settle_id: "\<forall>x \<in> set rows. \<not> activation_applies i c x \<Longrightarrow> settle i c rows = rows"
  by (auto simp: settle_def intro: map_idI)

lemma grows_put_event: "db_grows d (put_event E r d)"
  by (auto simp: db_grows_def put_event_def intro: settle_active)

lemma stored_in_put_event [simp]:
  "stored_in (put_event E r d) i c \<longleftrightarrow> stored_in d i c \<or> (er_id r = i \<and> er_context r = c)"
  by (auto simp: stored_in_def put_event_def)

lemma settle_cases:
  assumes "y \<in> set (settle i c rows)"
  obtains "y \<in> set rows" "\<not> activation_applies i c y"
  | x where "x \<in> set rows" "activation_applies i c x"
      "y = x\<lparr>ctx_genesis := Some i, ctx_state := 1\<rparr>"
  using assms by (auto simp: settle_def split: if_splits)

lemma inv_put_event:
  assumes "store_inv E d" "admissible E d r"
  shows "store_inv E (put_event E r d)"
proof -
  note inv = store_invD [OF assms(1)]
  let ?i = "er_id r" and ?c = "er_context r" and ?d = "put_event E r d"
  from assms(2) have fresh: "\<not> has_event d ?i" and ok: "event_row_ok E r"
    and author: "(?c, er_author r) \<in> set (db_authors d)"
    and parents: "\<forall>p \<in> set (row_parents E r). stored_in d p ?c"
    by (auto simp: admissible_def)
  from assms(2) obtain x where x: "x \<in> set (db_contexts d)" "ctx_id x = ?c"
    "if ctx_state x = 0 then genesis_row E x r else root_row E r \<longrightarrow> ?i = ctx_expected x"
    by (auto simp: admissible_def)
  have state: "ctx_state x = 0 \<or> ctx_state x = 1"
    using inv(8) x(1) by (auto simp: inv_contexts_def context_ok_def)
  have only: "y = x" if "y \<in> set (db_contexts d)" "ctx_id y = ?c" for y
    using that x inv_distinct_contexts [OF assms(1)] by (metis inj_on_contraD distinct_map)
  have "inv_keys ?d"
    using inv(1) fresh by (auto simp: inv_keys_def put_event_def has_event_def)
  moreover have "inv_types ?d"
    using inv(2) by (auto simp: inv_types_def put_event_def elim!: settle_cases)
  moreover have "inv_authors ?d"
  proof -
    have same: "set (map ctx_id (settle ?i ?c (db_contexts d))) = set (map ctx_id (db_contexts d))"
      by simp
    have "\<exists>a. (ctx_id y, a) \<in> set (db_authors d)" if "y \<in> set (settle ?i ?c (db_contexts d))" for y
    proof -
      from that have "ctx_id y \<in> ctx_id ` set (db_contexts d)"
        by (metis imageI image_set settle_keys(1))
      with inv(3) show ?thesis by (auto simp: inv_authors_def)
    qed
    then show ?thesis
      using inv(3) by (auto simp: inv_authors_def put_event_def same simp del: set_map)
  qed
  moreover have "inv_events E ?d"
  proof -
    have none: "edges_of d ?i = []"
      using inv(5) fresh by (auto simp: edges_of_def filter_empty_conv inv_edges_def)
    have edges: "edges_of ?d j = edges_of d j @ (if ?i = j then mk_edges ?i (row_parents E r) else [])" for j
      by (simp add: edges_of_def put_event_def)
    have "?i \<noteq> er_id q" if "q \<in> set (db_events d)" for q
      using that fresh has_event_row [of q d] by metis
    then have "edges_of ?d (er_id q) = mk_edges (er_id q) (row_parents E q)"
      if "q \<in> set (db_events d)" for q
      using that inv(4) by (simp add: edges inv_events_def)
    moreover have "edges_of ?d ?i = mk_edges ?i (row_parents E r)" by (simp add: edges none)
    ultimately show ?thesis
      using inv(4) ok author by (simp add: inv_events_def ball_Un) (simp add: put_event_def)
  qed
  moreover have "inv_edges ?d"
    using inv(5) by (auto simp: inv_edges_def put_event_def has_event_def)
  moreover have "parents_first E {} (db_events ?d)"
    using inv(6) parents by (force simp: put_event_def stored_in_def)
  moreover have "inv_roots E ?d"
  proof -
    have old: "\<exists>y \<in> set (settle ?i ?c (db_contexts d)). row_in_context E q y"
      if "q \<in> set (db_events d)" for q
      using inv(7) that by (force simp: inv_roots_def row_in_context_def dest: settle_active)
    have new: "\<exists>y \<in> set (settle ?i ?c (db_contexts d)). row_in_context E r y"
    proof (cases "ctx_state x = 0")
      case True
      with x have "activation_applies ?i ?c x"
        by (simp add: activation_applies_def genesis_row_def)
      with x(1) have "x\<lparr>ctx_genesis := Some ?i, ctx_state := 1\<rparr> \<in> set (settle ?i ?c (db_contexts d))"
        by (force simp: settle_def)
      with True x show ?thesis
        by (intro bexI) (auto simp: row_in_context_def genesis_row_def)
    next
      case False
      with x state show ?thesis by (intro bexI [of _ x] settle_active) (auto simp: row_in_context_def)
    qed
    from old new show ?thesis by (auto simp: inv_roots_def put_event_def)
  qed
  moreover have "inv_contexts E ?d"
  proof -
    have "context_ok E (db_events d @ [r]) y" if "y \<in> set (settle ?i ?c (db_contexts d))" for y
      using that
    proof (rule settle_cases)
      assume "y \<in> set (db_contexts d)"
      then have "context_ok E (db_events d) y" using inv(8) by (simp add: inv_contexts_def)
      then show ?thesis by (auto simp: context_ok_def)
    next
      fix z assume z: "z \<in> set (db_contexts d)" "activation_applies ?i ?c z"
        "y = z\<lparr>ctx_genesis := Some ?i, ctx_state := 1\<rparr>"
      then have "z = x" by (intro only) (simp_all add: activation_applies_def)
      with z x(3) show ?thesis
        by (auto simp: context_ok_def activation_applies_def genesis_row_def)
    qed
    then show ?thesis by (simp add: inv_contexts_def put_event_def)
  qed
  moreover have "inv_local ?d" "inv_remote ?d"
    using inv(9,10) by (auto simp: inv_local_def inv_remote_def put_event_def stored_in_def)
  ultimately show ?thesis by (simp add: store_inv_def)
qed

section \<open>Refs\<close>

lemma store_inv_local:
  assumes "store_inv E d" "inv_local (d\<lparr>db_local := ls\<rparr>)"
    and "distinct (map (\<lambda>r. (ref_context r, ref_name r)) ls)"
  shows "store_inv E (d\<lparr>db_local := ls\<rparr>)"
  using assms
  by (auto simp: store_inv_def inv_keys_def inv_types_def inv_authors_def inv_events_def
      inv_edges_def inv_roots_def inv_contexts_def inv_remote_def)

lemma store_inv_remote:
  assumes "store_inv E d" "inv_remote (d\<lparr>db_remote := rs\<rparr>)"
    and "distinct (map (\<lambda>r. (rem_peer r, rem_context r, rem_name r)) rs)"
  shows "store_inv E (d\<lparr>db_remote := rs\<rparr>)"
  using assms
  by (auto simp: store_inv_def inv_keys_def inv_types_def inv_authors_def inv_events_def
      inv_edges_def inv_roots_def inv_contexts_def inv_local_def)

lemma grows_remote [simp]: "db_grows d (d\<lparr>db_remote := rs\<rparr>)"
  by (simp add: db_grows_def)

lemma insert_local_keeps:
  assumes "store_inv E d" "insert_local c n i d = Inr d'" "stored_in d i c" "ref_name_wf n"
  shows "store_inv E d'" "db_grows d d'"
proof -
  from assms(2) have d': "d' = d\<lparr>db_local := db_local d @ [\<lparr>ref_context = c, ref_name = n, ref_head = i\<rparr>]\<rparr>"
    and new: "\<forall>r \<in> set (db_local d). \<not> (ref_context r = c \<and> ref_name r = n)"
    by (auto simp: insert_local_def list_ex_iff split: if_splits)
  note inv = store_invD [OF assms(1)]
  show "store_inv E d'" unfolding d'
    using inv(1,9) assms(3,4) new
    by (intro store_inv_local assms(1)) (auto simp: inv_local_def inv_keys_def)
  show "db_grows d d'" unfolding d' by (simp add: db_grows_def)
qed

lemma update_local_keeps:
  assumes "store_inv E d" "update_local i c n x d = Inr (k, d')" "stored_in d i c"
  shows "store_inv E d'" "db_grows d d'"
proof -
  let ?move = "\<lambda>r. if ref_context r = c \<and> ref_name r = n \<and> ref_head r = x then r\<lparr>ref_head := i\<rparr> else r"
  from assms(2) have d': "d' = d\<lparr>db_local := map ?move (db_local d)\<rparr>"
    by (auto simp: update_local_def Let_def split: if_splits)
  have keys: "map (\<lambda>r. (ref_context r, ref_name r)) (map ?move (db_local d)) =
    map (\<lambda>r. (ref_context r, ref_name r)) (db_local d)" by auto
  note inv = store_invD [OF assms(1)]
  show "store_inv E d'" unfolding d'
  proof (rule store_inv_local [OF assms(1)])
    show "inv_local (d\<lparr>db_local := map ?move (db_local d)\<rparr>)"
      using inv(9) assms(3) by (auto simp: inv_local_def)
    show "distinct (map (\<lambda>r. (ref_context r, ref_name r)) (map ?move (db_local d)))"
      unfolding keys using inv(1) by (simp add: inv_keys_def)
  qed
  show "db_grows d d'" unfolding d' db_grows_def using keys by (simp del: map_map)
qed

lemma insert_remote_keeps:
  assumes "store_inv E d" "insert_remote p c n i d = Inr d'" "stored_in d i c"
    and "ref_name_wf p" "ref_name_wf n"
  shows "store_inv E d'" "db_grows d d'"
proof -
  from assms(2) have d': "d' = d\<lparr>db_remote := db_remote d @
      [\<lparr>rem_peer = p, rem_context = c, rem_name = n, rem_head = i\<rparr>]\<rparr>"
    and new: "\<forall>r \<in> set (db_remote d). \<not> remote_key p c n r"
    by (auto simp: insert_remote_def list_ex_iff split: if_splits)
  note inv = store_invD [OF assms(1)]
  show "store_inv E d'" unfolding d'
    using inv(1,10) assms(3-5) new
    by (intro store_inv_remote assms(1)) (auto simp: inv_remote_def inv_keys_def remote_key_def)
  show "db_grows d d'" unfolding d' by simp
qed

definition move_remote :: "string \<Rightarrow> context_id \<Rightarrow> string \<Rightarrow> event_id \<Rightarrow> remote_row \<Rightarrow> remote_row" where
  "move_remote p c n i r = (if remote_key p c n r then r\<lparr>rem_head := i\<rparr> else r)"

lemma move_remote_keys [simp]:
  "rem_peer (move_remote p c n i r) = rem_peer r"
  "rem_context (move_remote p c n i r) = rem_context r"
  "rem_name (move_remote p c n i r) = rem_name r"
  "rem_head (move_remote p c n i r) = (if remote_key p c n r then i else rem_head r)"
  by (simp_all add: move_remote_def)

lemma upsert_remote_cases:
  assumes "upsert_remote p c n i d = Inr d'"
  obtains "insert_remote p c n i d = Inr d'"
  | "d' = d\<lparr>db_remote := map (move_remote p c n i) (db_remote d)\<rparr>"
proof (cases "list_ex (remote_key p c n) (db_remote d)")
  case True
  with assms show thesis
    by (intro that(2)) (simp add: upsert_remote_def move_remote_def [abs_def] eq_commute split: if_splits)
next
  case False
  with assms show thesis
    by (intro that(1)) (simp add: upsert_remote_def insert_remote_def split: if_splits)
qed

lemma upsert_remote_local: "upsert_remote p c n i d = Inr d' \<Longrightarrow> db_local d' = db_local d"
  by (erule upsert_remote_cases) (auto simp: insert_remote_def split: if_splits)

lemma upsert_remote_keeps:
  assumes "store_inv E d" "upsert_remote p c n i d = Inr d'" "stored_in d i c"
    and "ref_name_wf p" "ref_name_wf n"
  shows "store_inv E d'" "db_grows d d'"
proof -
  note inv = store_invD [OF assms(1)]
  have "store_inv E d' \<and> db_grows d d'" using assms(2)
  proof (rule upsert_remote_cases)
    assume "insert_remote p c n i d = Inr d'"
    then show ?thesis using assms insert_remote_keeps by metis
  next
    assume d': "d' = d\<lparr>db_remote := map (move_remote p c n i) (db_remote d)\<rparr>"
    have "inv_remote (d\<lparr>db_remote := map (move_remote p c n i) (db_remote d)\<rparr>)"
      using inv(10) assms(3) by (auto simp: inv_remote_def remote_key_def)
    then show ?thesis unfolding d' using inv(1)
      by (auto intro!: store_inv_remote [OF assms(1)] simp: inv_keys_def comp_def)
  qed
  then show "store_inv E d'" "db_grows d d'" by auto
qed

lemma delete_remote_keeps:
  assumes "store_inv E d"
  shows "store_inv E (delete_remote p c d)" "db_grows d (delete_remote p c d)"
proof -
  note inv = store_invD [OF assms]
  show "store_inv E (delete_remote p c d)" unfolding delete_remote_def
    using inv(1,10)
    by (intro store_inv_remote assms) (auto simp: inv_remote_def inv_keys_def distinct_map_filter)
qed (simp add: delete_remote_def)

lemmas ref_changes_keep = insert_local_keeps update_local_keeps insert_remote_keeps
  upsert_remote_keeps delete_remote_keeps

end
