(* ===== verification/Store_Preserve.thy ===== *)
theory Store_Preserve
  imports Store_Blocks
begin

text \<open>
  Every write operation of \<open>src/src/store.rs\<close> and \<open>src/src/store/dag.rs\<close> keeps the integrity
  invariant and only grows the store. The contract of a transaction body is a locale; each
  body interprets it, and the operations inherit the contract whatever their commit's outcome.
\<close>

section \<open>The contract of a write transaction\<close>

locale store_transaction =
  fixes arg_ok :: "env \<Rightarrow> 'p \<Rightarrow> bool"
    and tx :: "env \<Rightarrow> 'p \<Rightarrow> db \<Rightarrow> store_error + ('a \<times> db)"
  assumes keeps: "env_lawful E \<Longrightarrow> arg_ok E p \<Longrightarrow> store_inv E d \<Longrightarrow> tx E p d = Inr (v, d') \<Longrightarrow>
    store_inv E d' \<and> db_grows d d'"
begin

lemma run_keeps:
  assumes "env_lawful E" "arg_ok E p" "store_inv E d"
  shows "store_inv E (snd (write_tx oc (tx E p) d))" "db_grows d (snd (write_tx oc (tx E p) d))"
  using write_tx_state [of oc "tx E p" d] keeps [OF assms] assms(3) by fastforce+

lemma run_keeps_result:
  assumes "write_tx oc (tx E p) d = (res, d')" "env_lawful E" "arg_ok E p" "store_inv E d"
  shows "store_inv E d'" "db_grows d d'"
  using run_keeps [OF assms(2-4), of oc] assms(1) by simp_all

end

section \<open>Provisioning and authorization\<close>

definition provision_wf :: "context_provision \<Rightarrow> bool" where
  "provision_wf p \<longleftrightarrow> context_id_wf (prov_context p) \<and> event_id_wf (prov_genesis p) \<and>
     (\<forall>a \<in> set (prov_authors p). author_id_wf a)"

definition provision_ok :: "env \<Rightarrow> context_provision \<Rightarrow> bool" where
  "provision_ok E p \<longleftrightarrow> provision_wf p \<and> validate_authors E (prov_authors p) = Inr ()"

lemma insert_author_Inr:
  "insert_author c a d = Inr d' \<longleftrightarrow> has_context d c \<and> (c, a) \<notin> set (db_authors d) \<and>
    d' = d\<lparr>db_authors := db_authors d @ [(c, a)]\<rparr>"
  by (auto simp: insert_author_def)

lemma insert_authors_Inr:
  "foldR (insert_author c) as d = Inr d' \<Longrightarrow> d' = d\<lparr>db_authors := db_authors d @ map (Pair c) as\<rparr>"
proof (induction as arbitrary: d)
  case (Cons a as)
  then obtain d1 where "insert_author c a d = Inr d1" "foldR (insert_author c) as d1 = Inr d'"
    by (auto simp: bindR_Inr_iff)
  with Cons.IH [of d1] show ?case by (simp add: insert_author_Inr)
qed simp

lemma insert_provision_Inr:
  assumes "insert_provision p d = Inr d'"
  shows "\<not> has_context d (prov_context p)"
    "d' = put_context (prov_context p) (prov_genesis p) (prov_authors p) d"
  using assms
  by (auto simp: insert_provision_def bindR_Inr_iff insert_context_def put_context_def
      pending_context_def dest!: insert_authors_Inr split: if_splits)

lemma insert_provision_keeps:
  assumes "provision_ok E p" "store_inv E d" "insert_provision p d = Inr d'"
  shows "store_inv E d' \<and> db_grows d d'"
proof -
  note shape = insert_provision_Inr [OF assms(3)]
  have "distinct (prov_authors p)" "prov_authors p \<noteq> []"
    using assms(1) by (auto simp: provision_ok_def validate_authors_iff strictly_sorted_distinct)
  then have "store_inv E d'"
    unfolding shape(2) using assms(1,2) shape(1)
    by (intro inv_put_context) (auto simp: provision_ok_def provision_wf_def)
  then show ?thesis by (simp add: shape(2) grows_put_context)
qed

interpretation provision: store_transaction provision_ok provision_context_tx
proof
  fix E p d v d'
  assume ok: "provision_ok E p" "store_inv E d" and tx: "provision_context_tx E p d = Inr (v, d')"
  have "d' = d \<or> insert_provision p d = Inr d'"
    using tx by (auto simp: provision_context_tx_def bindR_Inr_iff split: option.splits if_splits)
  then show "store_inv E d' \<and> db_grows d d'" using insert_provision_keeps [OF ok] ok(2) by auto
qed

interpretation join: store_transaction provision_ok join_context_tx
proof
  fix E p d v d'
  assume ok: "provision_ok E p" "store_inv E d" and tx: "join_context_tx E p d = Inr (v, d')"
  have "d' = d \<or> insert_provision p d = Inr d'"
    using tx by (auto simp: join_context_tx_def bindR_Inr_iff split: option.splits if_splits)
  then show "store_inv E d' \<and> db_grows d d'" using insert_provision_keeps [OF ok] ok(2) by auto
qed

lemma insert_or_ignore_author_Inr:
  "insert_or_ignore_author c a d = Inr (n, d') \<Longrightarrow>
    d' = d \<and> (c, a) \<in> set (db_authors d) \<or>
    d' = put_author c a d \<and> has_context d c \<and> (c, a) \<notin> set (db_authors d)"
  by (auto simp: insert_or_ignore_author_def put_author_def split: if_splits)

interpretation authorize: store_transaction "\<lambda>E (c, a). author_id_wf a"
  "\<lambda>E (c, a). authorize_author_tx c a"
proof
  fix E and p :: "context_id \<times> author_id" and d v d'
  assume ok: "(case p of (c, a) \<Rightarrow> author_id_wf a)" "store_inv E d"
    and tx: "(case p of (c, a) \<Rightarrow> authorize_author_tx c a) d = Inr (v, d')"
  obtain c a where p: "p = (c, a)" by fastforce
  obtain n where "insert_or_ignore_author c a d = Inr (n, d')"
    using tx by (auto simp: p authorize_author_tx_def bindR_Inr_iff split: if_splits)
  then show "store_inv E d' \<and> db_grows d d'"
    using ok by (auto simp: p dest!: insert_or_ignore_author_Inr intro: inv_put_author grows_put_author)
qed

section \<open>Recording an event\<close>

definition new_row :: "signed_event \<Rightarrow> bytes \<Rightarrow> event_row" where
  "new_row ev wire = \<lparr>er_id = ev_id ev, er_context = event_context ev,
     er_author = body_author (ev_body ev), er_kind = body_kind (ev_body ev), er_wire = wire\<rparr>"

lemma new_row_sel [simp]:
  "er_id (new_row ev w) = ev_id ev" "er_context (new_row ev w) = event_context ev"
  "er_author (new_row ev w) = body_author (ev_body ev)"
  "er_kind (new_row ev w) = body_kind (ev_body ev)" "er_wire (new_row ev w) = w"
  by (simp_all add: new_row_def)

text \<open>An event in canonical form and its bytes.\<close>

definition wire_of :: "env \<Rightarrow> signed_event \<Rightarrow> bytes \<Rightarrow> bool" where
  "wire_of E ev w \<longleftrightarrow> event_wf ev \<and> to_wire E ev = Inr w"

lemma wire_of_row:
  assumes "env_lawful E" "wire_of E ev w"
  shows "event_row_ok E (new_row ev w)" "row_parents E (new_row ev w) = event_parents ev"
  using from_wire_to_wire [OF assms(1), of ev w] from_wire_to_wire_eq(2) [OF assms(1), of ev w] assms(2)
  by (auto simp: wire_of_def event_row_ok_def row_parents_def event_context_def event_parents_def)

lemma insert_edge_Inr:
  "insert_edge i n p d = Inr d' \<Longrightarrow>
    d' = d\<lparr>db_edges := db_edges d @ [\<lparr>edge_child = i, edge_ordinal = n, edge_parent = p\<rparr>]\<rparr>"
  by (simp add: insert_edge_def split: if_splits)

lemma insert_edges_Inr:
  assumes "insert_edges i ps d = Inr d'"
  shows "d' = d\<lparr>db_edges := db_edges d @ mk_edges i ps\<rparr>"
proof -
  have "d' = d\<lparr>db_edges := db_edges d @
      map (\<lambda>(n, p). \<lparr>edge_child = i, edge_ordinal = int n, edge_parent = p\<rparr>) xs\<rparr>"
    if "foldR (\<lambda>(n, p). insert_edge i (int n) p) xs d = Inr d'" for xs d
    using that
  proof (induction xs arbitrary: d)
    case (Cons x xs)
    obtain n p where x: "x = (n, p)" by fastforce
    with Cons.prems obtain d1 where "insert_edge i (int n) p d = Inr d1"
        "foldR (\<lambda>(n, p). insert_edge i (int n) p) xs d1 = Inr d'"
      by (auto simp: bindR_Inr_iff)
    with Cons.IH [of d1] insert_edge_Inr [of i "int n" p d d1] show ?case by (simp add: x)
  qed simp
  from this [of "List.enumerate 0 ps" d] assms show ?thesis
    by (simp add: insert_edges_def mk_edges_def)
qed

lemma activate_context_Inr:
  "activate_context i c d = Inr (n, d') \<Longrightarrow> d' = d\<lparr>db_contexts := settle i c (db_contexts d)\<rparr>"
  by (auto simp: activate_context_def settle_def Let_def filter_empty_conv map_idI split: if_splits)

lemma activate_pending_Inr:
  assumes "activate_pending s i c d = Inr d'"
    and "s \<noteq> 0 \<Longrightarrow> \<forall>x \<in> set (db_contexts d). \<not> activation_applies i c x"
  shows "d' = d\<lparr>db_contexts := settle i c (db_contexts d)\<rparr>"
  using assms
  by (auto simp: activate_pending_def bindR_Inr_iff settle_id split: if_splits
      dest!: activate_context_Inr)

lemma insert_event_Inr:
  "insert_event i c a k w d = Inr d' \<longleftrightarrow> \<not> has_event d i \<and> has_context d c \<and>
    d' = d\<lparr>db_events := db_events d @
      [\<lparr>er_id = i, er_context = c, er_author = a, er_kind = k, er_wire = w\<rparr>]\<rparr>"
  by (auto simp: insert_event_def)

text \<open>A known context in an invariant store.\<close>

lemma context_row_of_unique:
  assumes "store_inv E d" "context_row_of d c = Inr (Some (x, s))"
  obtains r where "r \<in> set (db_contexts d)" "ctx_id r = c" "ctx_expected r = x" "ctx_state r = s"
    "s = 0 \<or> s = 1" "\<forall>q \<in> set (db_contexts d). ctx_id q = c \<longrightarrow> q = r"
proof -
  obtain r where r: "r \<in> set (db_contexts d)" "ctx_id r = c" "ctx_expected r = x" "ctx_state r = s"
    using context_row_of_Some [OF assms(2)] by auto
  moreover have "s = 0 \<or> s = 1"
    using assms(1) r by (auto simp: store_inv_def inv_contexts_def context_ok_def)
  moreover have "q = r" if "q \<in> set (db_contexts d)" "ctx_id q = c" for q
    using that r inv_distinct_contexts [OF assms(1)] by (metis inj_on_contraD distinct_map)
  ultimately show thesis by (intro that [of r]) blast+
qed

text \<open>What is stored lives in an active context.\<close>

lemma stored_context_active:
  assumes "store_inv E d" "context_row_of d c = Inr (Some (x, s))" "stored_in d i c"
  shows "s = 1"
proof -
  obtain r where r: "ctx_id r = c" "ctx_state r = s" "\<forall>q \<in> set (db_contexts d). ctx_id q = c \<longrightarrow> q = r"
    by (rule context_row_of_unique [OF assms(1,2)]) blast
  from assms(1,3) obtain q where "q \<in> set (db_contexts d)" "ctx_id q = c" "ctx_state q = 1"
    by (auto simp: store_inv_def inv_roots_def row_in_context_def stored_in_def)
  with r show ?thesis by auto
qed

text \<open>The guards admission and import share.\<close>

definition event_guards :: "env \<Rightarrow> db \<Rightarrow> event_id \<Rightarrow> int \<Rightarrow> signed_event \<Rightarrow> bool" where
  "event_guards E d x s ev \<longleftrightarrow>
     (s = 0 \<longrightarrow> is_genesis_event x ev) \<and>
     (s \<noteq> 0 \<and> \<not> is_genesis_event x ev \<longrightarrow>
        event_parents ev \<noteq> [] \<and> body_kind (ev_body ev) \<noteq> ''context.genesis'') \<and>
     is_authorized d (event_context ev) (body_author (ev_body ev)) \<and>
     check_parents E d (event_context ev) (event_parents ev) = Inr ()"

lemma check_parents_iff:
  "store_inv E d \<Longrightarrow> check_parents E d c ps = Inr () \<longleftrightarrow> (\<forall>p \<in> set ps. stored_in d p c)"
  by (auto simp: check_parents_def forR_Inr_iff bindR_Inr_iff authoritative_lookup stored_in_iff
      split: if_splits)

lemma guards_admissible:
  assumes "env_lawful E" "store_inv E d" "wire_of E ev w"
    and "context_row_of d (event_context ev) = Inr (Some (x, s))" "event_guards E d x s ev"
    and "\<not> has_event d (ev_id ev)"
  shows "admissible E d (new_row ev w)"
proof -
  note row = wire_of_row [OF assms(1,3)]
  obtain r where r: "r \<in> set (db_contexts d)" "ctx_id r = event_context ev" "ctx_expected r = x"
      "ctx_state r = s"
    by (rule context_row_of_unique [OF assms(2,4)]) blast
  have "if s = 0 then genesis_row E r (new_row ev w)
    else root_row E (new_row ev w) \<longrightarrow> ev_id ev = x"
    using assms(5) r row
    by (auto simp: event_guards_def is_genesis_event_def genesis_row_def root_row_def event_parents_def)
  then show ?thesis
    unfolding admissible_def using assms(2,5,6) row r
    by (auto simp: event_guards_def is_authorized_iff check_parents_iff intro!: bexI [of _ r])
qed

lemma record_new_event:
  assumes "env_lawful E" "store_inv E d" "wire_of E ev w"
    and "context_row_of d (event_context ev) = Inr (Some (x, s))" "event_guards E d x s ev"
    and "insert_event (ev_id ev) (event_context ev) (body_author (ev_body ev)) (body_kind (ev_body ev)) w d = Inr d1"
    and "insert_edges (ev_id ev) (event_parents ev) d1 = Inr d2"
    and "activate_pending s (ev_id ev) (event_context ev) d2 = Inr d3"
  shows "d3 = put_event E (new_row ev w) d" "admissible E d (new_row ev w)"
proof -
  obtain r where r: "ctx_state r = s" "\<forall>q \<in> set (db_contexts d). ctx_id q = event_context ev \<longrightarrow> q = r"
    by (rule context_row_of_unique [OF assms(2,4)]) blast
  have ins: "\<not> has_event d (ev_id ev)" "d1 = d\<lparr>db_events := db_events d @ [new_row ev w]\<rparr>"
    using assms(6) by (auto simp: insert_event_Inr new_row_def)
  have d2: "d2 = d1\<lparr>db_edges := db_edges d1 @ mk_edges (ev_id ev) (event_parents ev)\<rparr>"
    by (rule insert_edges_Inr [OF assms(7)])
  have "d3 = d2\<lparr>db_contexts := settle (ev_id ev) (event_context ev) (db_contexts d2)\<rparr>"
  proof (rule activate_pending_Inr [OF assms(8)])
    assume "s \<noteq> 0"
    then show "\<forall>q \<in> set (db_contexts d2). \<not> activation_applies (ev_id ev) (event_context ev) q"
      using r by (auto simp: d2 ins(2) activation_applies_def)
  qed
  then show "d3 = put_event E (new_row ev w) d"
    using wire_of_row(2) [OF assms(1,3)] by (simp add: put_event_def d2 ins(2))
  show "admissible E d (new_row ev w)"
    by (rule guards_admissible [OF assms(1-5) ins(1)])
qed

section \<open>Admission\<close>

fun mutation_wf :: "ref_mutation \<Rightarrow> bool" where
  "mutation_wf NoMutation = True"
| "mutation_wf (CompareAndSwap c n x h) = ref_name_wf n"

fun mutation_target :: "db \<Rightarrow> event_id \<Rightarrow> ref_mutation \<Rightarrow> bool" where
  "mutation_target d i NoMutation = True"
| "mutation_target d i (CompareAndSwap c n x h) = (ref_name_wf n \<and> stored_in d i c)"

lemma apply_ref_mutation_keeps:
  assumes "store_inv E d" "apply_ref_mutation i m d = Inr (b, d')" "mutation_target d i m"
  shows "store_inv E d' \<and> db_grows d d'"
proof (cases m)
  case NoMutation
  then show ?thesis using assms by simp
next
  case (CompareAndSwap c n x h)
  then have "d' = d \<or> insert_local c n i d = Inr d' \<or> (\<exists>e k. update_local i c n e d = Inr (k, d'))"
    using assms(2)
    by (auto simp: bindR_Inr_iff split: if_splits ref_expectation.splits option.splits)
  then show ?thesis
    using assms(1,3) CompareAndSwap by (auto intro: ref_changes_keep)
qed

definition admit_ok :: "env \<Rightarrow> signed_event \<times> bytes \<times> signed_event \<times> ref_mutation \<Rightarrow> bool" where
  "admit_ok E = (\<lambda>(ev, w, verified, m). wire_of E ev w \<and> from_wire E w = Inr verified \<and>
     mutation_matches ev m \<and> mutation_wf m)"

text \<open>What a successful admission did before the ref moved: nothing, or it recorded the event.\<close>

lemma admit_tx_Inr:
  assumes "env_lawful E" "store_inv E d" "wire_of E ev w"
    and "admit_tx E ev w verified m d = Inr (st, d')"
  obtains d1 applied where "apply_ref_mutation (ev_id ev) m d1 = Inr (applied, d')"
      "d1 = d" "event_wire d (ev_id ev) = Inr (Some w)"
      "st = (if applied then AlreadyApplied else AlreadyPresent)"
  | d1 applied where "apply_ref_mutation (ev_id ev) m d1 = Inr (applied, d')"
      "d1 = put_event E (new_row ev w) d" "admissible E d (new_row ev w)"
      "st = (if applied then AlreadyApplied else Inserted)"
proof -
  let ?i = "ev_id ev" and ?c = "event_context ev"
  obtain x s where row: "context_row_of d ?c = Inr (Some (x, s))" and guards: "event_guards E d x s ev"
    using assms(4)
    by (auto simp: admit_tx_def bindR_Inr_iff Let_def event_guards_def event_context_def
        event_parents_def)
  obtain existing ins d1 d2 applied where ex: "event_wire d ?i = Inr existing"
    and add: "record_event E ev w verified existing d = Inr (ins, d1)"
    and act: "activate_pending s ?i ?c d1 = Inr d2"
    and mut: "apply_ref_mutation ?i m d2 = Inr (applied, d')"
    and st: "st = admission_status_of applied ins"
    using assms(4) row
    by (auto simp: admit_tx_def bindR_Inr_iff Let_def event_context_def split: if_splits)
  show thesis
  proof (cases existing)
    case None
    then obtain d0 where "insert_event ?i ?c (body_author (ev_body ev)) (body_kind (ev_body ev)) w d = Inr d0"
        "insert_edges ?i (event_parents ev) d0 = Inr d1" and "ins"
      using add
      by (auto simp: record_event_def bindR_Inr_iff Let_def event_context_def event_parents_def)
    from record_new_event [OF assms(1-3) row guards this(1,2) act] show thesis
      using mut st \<open>ins\<close> by (intro that(2)) (auto simp: admission_status_of_def)
  next
    case (Some stored)
    then have same: "stored = w" "\<not> ins" "d1 = d"
      using add by (auto simp: record_event_def bindR_Inr_iff split: if_splits)
    obtain ev' where ev': "lookup_event E d ?i = Some ev'" "from_wire E w = Inr ev'"
      using event_wire_lookup [OF assms(2), of ?i] ex Some same by auto
    have "ev' = norm_event ev"
      using from_wire_to_wire [OF assms(1), of ev w] assms(3) ev' by (simp add: wire_of_def)
    then have "stored_in d ?i ?c"
      using ev'(1) stored_in_iff [OF assms(2)] by (auto simp: event_context_def)
    then have "s = 1" by (rule stored_context_active [OF assms(2) row])
    then have "d2 = d" using act same by (simp add: activate_pending_def)
    then show thesis using mut st same ex Some
      by (intro that(1)) (auto simp: admission_status_of_def)
  qed
qed

interpretation admit: store_transaction admit_ok
  "\<lambda>E (ev, w, verified, m). admit_tx E ev w verified m"
proof
  fix E and p :: "signed_event \<times> bytes \<times> signed_event \<times> ref_mutation" and d v d'
  assume lawful: "env_lawful E" and ok: "admit_ok E p" "store_inv E d"
    and tx: "(case p of (ev, w, verified, m) \<Rightarrow> admit_tx E ev w verified m) d = Inr (v, d')"
  obtain ev w verified m where p: "p = (ev, w, verified, m)" by (cases p)
  from ok have wire: "wire_of E ev w" "from_wire E w = Inr verified" "mutation_matches ev m" "mutation_wf m"
    by (auto simp: p admit_ok_def)
  have target: "mutation_target d1 (ev_id ev) m" if "stored_in d1 (ev_id ev) (event_context ev)" for d1
    using that wire(3,4) by (cases m) (auto simp: event_context_def)
  have "admit_tx E ev w verified m d = Inr (v, d')" using tx by (simp add: p)
  then show "store_inv E d' \<and> db_grows d d'"
  proof (rule admit_tx_Inr [OF lawful ok(2) wire(1)])
    fix d1 applied
    assume mut: "apply_ref_mutation (ev_id ev) m d1 = Inr (applied, d')" "d1 = d"
      and stored: "event_wire d (ev_id ev) = Inr (Some w)"
    have "stored_in d (ev_id ev) (event_context ev)"
      using event_wire_lookup [OF ok(2), of "ev_id ev"] stored from_wire_to_wire [OF lawful, of ev w] wire(1)
        stored_in_iff [OF ok(2)]
      by (auto simp: wire_of_def event_context_def)
    then show ?thesis using apply_ref_mutation_keeps [OF ok(2)] mut target by auto
  next
    fix d1 applied
    assume mut: "apply_ref_mutation (ev_id ev) m d1 = Inr (applied, d')"
      and d1: "d1 = put_event E (new_row ev w) d" and adm: "admissible E d (new_row ev w)"
    have "store_inv E d1" unfolding d1 by (rule inv_put_event [OF ok(2) adm])
    moreover have "stored_in d1 (ev_id ev) (event_context ev)" by (simp add: d1)
    ultimately have "store_inv E d' \<and> db_grows d1 d'"
      using apply_ref_mutation_keeps mut target by blast
    then show ?thesis using grows_put_event d1 db_grows_trans by blast
  qed
qed

section \<open>Contexts, branches and remote refs\<close>

definition create_ok :: "env \<Rightarrow> signed_event \<times> bytes \<times> context_id \<times> author_id \<times> string \<Rightarrow> bool" where
  "create_ok E = (\<lambda>(genesis, w, c, a, n). wire_of E genesis w \<and> event_context genesis = c \<and>
     body_author (ev_body genesis) = a \<and> body_kind (ev_body genesis) = ''context.genesis'' \<and>
     event_parents genesis = [] \<and> ref_name_wf n)"

lemma insert_context_Inr:
  "insert_context c x d = Inr d' \<longleftrightarrow>
    \<not> has_context d c \<and> d' = d\<lparr>db_contexts := db_contexts d @ [pending_context c x]\<rparr>"
  by (auto simp: insert_context_def pending_context_def)

lemma create_context_tx_Inr:
  assumes "env_lawful E" "create_ok E (genesis, w, c, a, n)"
    and "create_context_tx genesis w c a n d = Inr (u, d')"
  shows "\<not> has_context d c" "\<not> has_event d (ev_id genesis)"
    "insert_local c n (ev_id genesis)
       (put_event E (new_row genesis w) (put_context c (ev_id genesis) [a] d)) = Inr d'"
proof -
  have wire: "wire_of E genesis w" and "event_context genesis = c"
      "body_author (ev_body genesis) = a" "body_kind (ev_body genesis) = ''context.genesis''"
      "event_parents genesis = []"
    using assms(2) by (auto simp: create_ok_def)
  note fields = this(2-5)
  obtain d1 d2 d3 k d4 where
    steps: "\<not> has_context d c" "insert_context c (ev_id genesis) d = Inr d1" "insert_author c a d1 = Inr d2"
      "insert_event (ev_id genesis) c a ''context.genesis'' w d2 = Inr d3"
      "activate_context (ev_id genesis) c d3 = Inr (k, d4)"
      "insert_local c n (ev_id genesis) d4 = Inr d'"
    using assms(3)
    by (auto simp: create_context_tx_def bindR_Inr_iff Let_def context_row_of_None [symmetric]
        simp del: not_None_eq split_paired_Ex)
  have d2: "d2 = put_context c (ev_id genesis) [a] d"
    using steps(2,3) by (simp add: insert_context_Inr insert_author_Inr put_context_def)
  have d3: "\<not> has_event d2 (ev_id genesis)" "d3 = d2\<lparr>db_events := db_events d2 @ [new_row genesis w]\<rparr>"
    using steps(4) fields by (auto simp: insert_event_Inr new_row_def)
  have d4: "d4 = d3\<lparr>db_contexts := settle (ev_id genesis) c (db_contexts d3)\<rparr>"
    by (rule activate_context_Inr [OF steps(5)])
  have "d4 = put_event E (new_row genesis w) d2"
    using wire_of_row(2) [OF assms(1) wire] fields by (simp add: put_event_def d4 d3)
  with steps(6) d2 show "insert_local c n (ev_id genesis)
       (put_event E (new_row genesis w) (put_context c (ev_id genesis) [a] d)) = Inr d'" by simp
  show "\<not> has_context d c" by (rule steps(1))
  show "\<not> has_event d (ev_id genesis)" using d3(1) d2 by (simp add: put_context_def has_event_def)
qed

interpretation create_context: store_transaction create_ok
  "\<lambda>E (genesis, w, c, a, n). create_context_tx genesis w c a n"
proof
  fix E and p :: "signed_event \<times> bytes \<times> context_id \<times> author_id \<times> string" and d v d'
  assume lawful: "env_lawful E" and ok: "create_ok E p" and inv: "store_inv E d"
    and tx: "(case p of (genesis, w, c, a, n) \<Rightarrow> create_context_tx genesis w c a n) d = Inr (v, d')"
  obtain genesis w c a n where p: "p = (genesis, w, c, a, n)" by (cases p)
  let ?d1 = "put_context c (ev_id genesis) [a] d" and ?r = "new_row genesis w"
  let ?d2 = "put_event E ?r ?d1"
  have wire: "wire_of E genesis w" and fields: "event_context genesis = c"
      "body_author (ev_body genesis) = a" "body_kind (ev_body genesis) = ''context.genesis''"
      "event_parents genesis = []" "ref_name_wf n"
    using ok by (auto simp: p create_ok_def)
  note row = wire_of_row [OF lawful wire]
  note shape = create_context_tx_Inr [OF lawful ok [unfolded p] tx [unfolded p prod.case]]
  have types: "context_id_wf c" "event_id_wf (ev_id genesis)" "author_id_wf a"
    using wire fields by (auto simp: wire_of_def event_wf_def body_wf_def event_context_def)
  have inv1: "store_inv E ?d1"
    using inv shape(1) types by (intro inv_put_context) auto
  have "admissible E ?d1 ?r"
    unfolding admissible_def using row fields shape(2)
    by (auto simp: put_context_def has_event_def genesis_row_def)
  then have inv2: "store_inv E ?d2" by (rule inv_put_event [OF inv1])
  have "stored_in ?d2 (ev_id genesis) c" using fields by simp
  with insert_local_keeps [OF inv2 shape(3)] fields(5)
  have "store_inv E d'" "db_grows ?d2 d'" by auto
  then show "store_inv E d' \<and> db_grows d d'"
    by (meson db_grows_trans grows_put_context grows_put_event)
qed

interpretation create_branch: store_transaction "\<lambda>E (c, n, i). ref_name_wf n"
  "\<lambda>E (c, n, i). create_branch_tx E c n i"
proof
  fix E and p :: "context_id \<times> string \<times> event_id" and d v d'
  assume ok: "(case p of (c, n, i) \<Rightarrow> ref_name_wf n)" and inv: "store_inv E d"
    and tx: "(case p of (c, n, i) \<Rightarrow> create_branch_tx E c n i) d = Inr (v, d')"
  obtain c n i where p: "p = (c, n, i)" by (cases p)
  have "stored_in d i c" and "d' = d \<or> insert_local c n i d = Inr d'"
    using tx inv
    by (auto simp: p create_branch_tx_def bindR_Inr_iff authoritative_lookup stored_in_iff
        split: option.splits if_splits)
  then show "store_inv E d' \<and> db_grows d d'" using ok inv by (auto simp: p intro: ref_changes_keep)
qed

interpretation set_remote: store_transaction "\<lambda>E (p, c, n, i). ref_name_wf p \<and> ref_name_wf n"
  "\<lambda>E (p, c, n, i). set_remote_ref_tx E p c n i"
proof
  fix E and q :: "string \<times> context_id \<times> string \<times> event_id" and d v d'
  assume ok: "(case q of (p, c, n, i) \<Rightarrow> ref_name_wf p \<and> ref_name_wf n)" and inv: "store_inv E d"
    and tx: "(case q of (p, c, n, i) \<Rightarrow> set_remote_ref_tx E p c n i) d = Inr (v, d')"
  obtain p c n i where q: "q = (p, c, n, i)" by (cases q)
  have "stored_in d i c" and "upsert_remote p c n i d = Inr d'"
    using tx inv
    by (auto simp: q set_remote_ref_tx_def bindR_Inr_iff authoritative_lookup stored_in_iff
        split: if_splits)
  then show "store_inv E d' \<and> db_grows d d'" using ok inv by (auto simp: q intro: ref_changes_keep)
qed

section \<open>Operations\<close>

text \<open>The result of an operation on an invariant store.\<close>

definition keeps_store :: "env \<Rightarrow> db \<Rightarrow> db \<Rightarrow> bool" where
  "keeps_store E d d' \<longleftrightarrow> store_inv E d' \<and> db_grows d d'"

lemma keeps_store_refl: "store_inv E d \<Longrightarrow> keeps_store E d d"
  by (simp add: keeps_store_def)

lemma provision_context_keeps:
  "env_lawful E \<Longrightarrow> store_inv E d \<Longrightarrow> provision_wf p \<Longrightarrow>
    keeps_store E d (snd (provision_context E p oc d))"
  using provision.run_keeps [of E p d oc]
  by (auto simp: provision_context_def provision_ok_def keeps_store_def split: sum.splits)

lemma join_context_keeps:
  "env_lawful E \<Longrightarrow> store_inv E d \<Longrightarrow> provision_wf p \<Longrightarrow>
    keeps_store E d (snd (join_context E p oc d))"
  using join.run_keeps [of E p d oc]
  by (auto simp: join_context_def provision_ok_def keeps_store_def split: sum.splits)

lemma authorize_author_keeps:
  "env_lawful E \<Longrightarrow> store_inv E d \<Longrightarrow> author_id_wf a \<Longrightarrow>
    keeps_store E d (snd (authorize_author c a oc d))"
  using authorize.run_keeps [of E "(c, a)" d oc] by (simp add: authorize_author_def keeps_store_def)

lemma admit_keeps:
  assumes "env_lawful E" "store_inv E d" "event_wf ev" "mutation_wf m"
  shows "keeps_store E d (snd (admit E ev m oc d))"
proof (cases "bindR (map_err Contract (verify_event E ev)) (\<lambda>_.
           bindR (map_err Contract (to_wire E ev)) (\<lambda>wire.
           bindR (map_err Contract (from_wire E wire)) (\<lambda>verified_event.
             if \<not> mutation_matches ev m then Inl RefMutationMismatch
             else Inr (wire, verified_event))))")
  case (Inl e)
  then show ?thesis using assms by (simp add: admit_def keeps_store_def)
next
  case (Inr r)
  then obtain w verified where r: "r = (w, verified)" "to_wire E ev = Inr w"
      "from_wire E w = Inr verified" "mutation_matches ev m"
    by (auto simp: bindR_Inr_iff split: if_splits)
  then have "admit_ok E (ev, w, verified, m)" using assms by (auto simp: admit_ok_def wire_of_def)
  then show ?thesis
    using admit.run_keeps [OF assms(1) _ assms(2), of "(ev, w, verified, m)" oc] Inr r(1)
    by (simp add: admit_def keeps_store_def)
qed

lemma admit_wire_keeps:
  "env_lawful E \<Longrightarrow> store_inv E d \<Longrightarrow> mutation_wf m \<Longrightarrow>
    keeps_store E d (snd (admit_wire E w m oc d))"
  by (auto simp: admit_wire_def keeps_store_refl split: sum.splits
      intro: admit_keeps dest: from_wire_Inr(2))

lemma admit_on_branch_keeps:
  "env_lawful E \<Longrightarrow> store_inv E d \<Longrightarrow> event_wf ev \<Longrightarrow> ref_name_wf n \<Longrightarrow>
    keeps_store E d (snd (admit_on_branch E ev c n x oc d))"
  using admit_keeps [of E d ev "CompareAndSwap c n (Head x) (ev_id ev)" oc]
  by (auto simp: admit_on_branch_def split: sum.splits prod.splits)

lemma append_keeps:
  assumes "env_lawful E" "store_inv E d" "context_id_wf c" "event_id_wf x" "ref_name_wf n" "json_wf payload"
  shows "keeps_store E d (snd (append E idn c n x kind payload oc d))"
  using assms create_event_wf [OF assms(1), of idn c "[x]" kind payload]
  by (auto simp: append_def keeps_store_refl split: sum.splits intro: admit_on_branch_keeps)

lemma merge_keeps:
  assumes "env_lawful E" "store_inv E d" "context_id_wf c" "\<forall>p \<in> set ps. event_id_wf p"
    and "ref_name_wf n" "json_wf payload"
  shows "keeps_store E d (snd (merge E idn c n x ps payload oc d))"
  using assms create_event_wf [OF assms(1), of idn c "sort_key (event_id_text E) ps" "''context.merge''" payload]
  by (auto simp: merge_def Let_def keeps_store_refl split: sum.splits intro: admit_on_branch_keeps)

lemma create_context_keeps:
  assumes "env_lawful E" "store_inv E d" "\<forall>b. entropy = Some b \<longrightarrow> length b = 32" "ref_name_wf n"
  shows "keeps_store E d (snd (create_context E idn n entropy oc d))"
proof (cases "bindR (ok_or entropy EntropyUnavailable) (\<lambda>b.
           bindR (map_err Contract
             (create_event E idn (ContextId b) [] ''context.genesis'' (JObject []))) (\<lambda>genesis.
           bindR (map_err Contract (to_wire E genesis)) (\<lambda>wire.
             Inr (ContextId b, genesis, wire))))")
  case (Inl e)
  then show ?thesis using assms by (simp add: create_context_def keeps_store_def)
next
  case (Inr r)
  then obtain b genesis w where r: "r = (ContextId b, genesis, w)" "entropy = Some b"
      "create_event E idn (ContextId b) [] ''context.genesis'' (JObject []) = Inr genesis"
      "to_wire E genesis = Inr w"
    by (auto simp: bindR_Inr_iff)
  have "event_wf genesis"
    using create_event_wf [OF assms(1) r(3)] r(2) assms(3) by (simp add: context_id_wf_def)
  then have "create_ok E (genesis, w, ContextId b, identity_author E idn, n)"
    using r(4) assms(4) create_event_Inr(1) [OF r(3)]
    by (simp add: create_ok_def wire_of_def event_context_def event_parents_def)
  then have "keeps_store E d (snd (write_tx oc
      (create_context_tx genesis w (ContextId b) (identity_author E idn) n) d))"
    using create_context.run_keeps [OF assms(1) _ assms(2),
        of "(genesis, w, ContextId b, identity_author E idn, n)" oc]
    by (simp add: keeps_store_def)
  then show ?thesis using Inr r(1) by (auto simp: create_context_def split: prod.splits sum.splits)
qed

lemma create_branch_keeps:
  "env_lawful E \<Longrightarrow> store_inv E d \<Longrightarrow> ref_name_wf n \<Longrightarrow>
    keeps_store E d (snd (create_branch E c n i oc d))"
  using create_branch.run_keeps [of E "(c, n, i)" d oc]
  by (auto simp: create_branch_def keeps_store_def split: prod.splits sum.splits)

lemma set_remote_ref_keeps:
  "env_lawful E \<Longrightarrow> store_inv E d \<Longrightarrow> ref_name_wf p \<Longrightarrow> ref_name_wf n \<Longrightarrow>
    keeps_store E d (snd (set_remote_ref E p c n i oc d))"
  using set_remote.run_keeps [of E "(p, c, n, i)" d oc]
  by (simp add: set_remote_ref_def keeps_store_def)

lemmas store_core_keeps = provision_context_keeps join_context_keeps authorize_author_keeps
  admit_keeps admit_wire_keeps append_keeps merge_keeps create_context_keeps create_branch_keeps
  set_remote_ref_keeps

end
