(* ===== verification/Dag_Walk.thy ===== *)
theory Dag_Walk
  imports Prelude
begin

text \<open>
  Depth-first walks over a graph of parents with an explicit stack of \<open>Enter\<close> and \<open>Exit\<close>
  frames, as \<open>src/src/store/dag.rs\<close>, \<open>src/src/store/verify.rs\<close> and \<open>src/src/closure.rs\<close>
  write them: what holds between two iterations, how each kind of iteration keeps it, and what
  it says when the stack is empty. An \<open>Enter\<close> frame that meets a node that is still open closes
  a cycle, and a walk that ends has met none.
\<close>

datatype 'a frame = Enter 'a | Exit 'a

primrec frame_node :: "'a frame \<Rightarrow> 'a" where
  "frame_node (Enter i) = i"
| "frame_node (Exit i) = i"

section \<open>Ancestors\<close>

inductive_set ancestors :: "('a \<Rightarrow> 'a list) \<Rightarrow> 'a set \<Rightarrow> 'a set"
  for par :: "'a \<Rightarrow> 'a list" and heads :: "'a set" where
  head: "i \<in> heads \<Longrightarrow> i \<in> ancestors par heads"
| parent: "i \<in> ancestors par heads \<Longrightarrow> p \<in> set (par i) \<Longrightarrow> p \<in> ancestors par heads"

lemma ancestors_closed:
  "heads \<subseteq> X \<Longrightarrow> (\<And>i. i \<in> X \<Longrightarrow> set (par i) \<subseteq> X) \<Longrightarrow> ancestors par heads \<subseteq> X"
proof
  fix i assume "heads \<subseteq> X" "\<And>i. i \<in> X \<Longrightarrow> set (par i) \<subseteq> X" "i \<in> ancestors par heads"
  from this(3,1,2) show "i \<in> X" by induction auto
qed

lemma ancestors_mono: "A \<subseteq> B \<Longrightarrow> ancestors par A \<subseteq> ancestors par B"
  by (rule ancestors_closed) (auto intro: ancestors.intros)

lemma ancestors_cong:
  assumes "\<And>i. i \<in> ancestors f H \<Longrightarrow> f i = g i"
  shows "ancestors f H = ancestors g H"
proof
  show "ancestors f H \<subseteq> ancestors g H"
  proof
    fix i assume i: "i \<in> ancestors f H"
    then show "i \<in> ancestors g H"
    proof induction
      case (parent i p)
      then show ?case using assms [of i] ancestors.parent [of i g H p] by simp
    qed (rule ancestors.head)
  qed
  show "ancestors g H \<subseteq> ancestors f H"
  proof
    fix i assume "i \<in> ancestors g H"
    then show "i \<in> ancestors f H"
    proof induction
      case (parent i p)
      then show ?case using assms [of i] ancestors.parent [of i f H p] by simp
    qed (rule ancestors.head)
  qed
qed

section \<open>Parent-first lists\<close>

primrec parents_before :: "('a \<Rightarrow> 'a list) \<Rightarrow> 'a set \<Rightarrow> 'a list \<Rightarrow> bool" where
  "parents_before par seen [] = True"
| "parents_before par seen (i # xs) =
     (set (par i) \<subseteq> seen \<and> parents_before par (insert i seen) xs)"

lemma parents_before_snoc [simp]:
  "parents_before par seen (xs @ [i]) \<longleftrightarrow>
    parents_before par seen xs \<and> set (par i) \<subseteq> seen \<union> set xs"
  by (induction xs arbitrary: seen) auto

lemma parents_before_closed:
  "parents_before par seen xs \<Longrightarrow> i \<in> set xs \<Longrightarrow> set (par i) \<subseteq> seen \<union> set xs"
  by (induction xs arbitrary: seen) fastforce+

lemma parents_before_append:
  "parents_before par seen (xs @ ys) \<longleftrightarrow>
    parents_before par seen xs \<and> parents_before par (seen \<union> set xs) ys"
  by (induction xs arbitrary: seen) auto

lemma parents_before_split:
  "parents_before par seen (xs @ i # ys) \<Longrightarrow> set (par i) \<subseteq> seen \<union> set xs"
  by (simp add: parents_before_append)

section \<open>The walk\<close>

text \<open>Whatever an \<open>Exit\<close> frame waits for is done or above it on the stack.\<close>

fun exits_ready :: "('a \<Rightarrow> 'a list) \<Rightarrow> 'a set \<Rightarrow> 'a frame list \<Rightarrow> bool" where
  "exits_ready par B [] = True"
| "exits_ready par B (Enter i # st) = exits_ready par (insert i B) st"
| "exits_ready par B (Exit i # st) = (set (par i) \<subseteq> B \<and> exits_ready par (insert i B) st)"

lemma exits_ready_mono: "exits_ready par B st \<Longrightarrow> B \<subseteq> C \<Longrightarrow> exits_ready par C st"
proof (induction par B st arbitrary: C rule: exits_ready.induct)
  case (2 par B i st)
  then show ?case using "2.IH" [of "insert i C"] by auto
next
  case (3 par B i st)
  then show ?case using "3.IH" [of "insert i C"] by auto
qed simp

lemma exits_ready_enter [simp]:
  "exits_ready par B (map Enter xs @ st) = exits_ready par (B \<union> set xs) st"
  by (induction xs arbitrary: B) auto

lemma exits_ready_only_enter [simp]: "exits_ready par B (map Enter xs)"
  by (induction xs arbitrary: B) auto

text \<open>Above an \<open>Exit\<close> frame there are only proper ancestors of its node.\<close>

definition parent_rel :: "('a \<Rightarrow> 'a list) \<Rightarrow> ('a \<times> 'a) set" where
  "parent_rel par = {(i, p). p \<in> set (par i)}"

fun frame_above :: "('a \<Rightarrow> 'a list) \<Rightarrow> 'a frame \<Rightarrow> 'a frame \<Rightarrow> bool" where
  "frame_above par f (Exit i) = ((i, frame_node f) \<in> (parent_rel par)\<^sup>+)"
| "frame_above par f (Enter i) = True"

fun open_list :: "'a frame list \<Rightarrow> 'a list" where
  "open_list [] = []"
| "open_list (Enter i # st) = open_list st"
| "open_list (Exit i # st) = i # open_list st"

definition open_nodes :: "'a frame list \<Rightarrow> 'a set" where
  "open_nodes st = {i. Exit i \<in> set st}"

definition walk_inv ::
  "('a \<Rightarrow> 'a list) \<Rightarrow> 'a set \<Rightarrow> 'a frame list \<Rightarrow> 'a list \<Rightarrow> bool" where
  "walk_inv par H st order \<longleftrightarrow>
     exits_ready par (set order) st \<and> sorted_wrt (frame_above par) st \<and> distinct (open_list st) \<and>
     distinct order \<and> open_nodes st \<inter> set order = {} \<and> parents_before par {} order \<and>
     frame_node ` set st \<union> set order \<subseteq> ancestors par H \<and>
     H \<subseteq> set order \<union> frame_node ` set st"

lemma set_open_list: "set (open_list st) = open_nodes st"
  by (induction st rule: open_list.induct) (auto simp: open_nodes_def)

lemma open_nodes_simps [simp]:
  "open_nodes [] = {}" "open_nodes (Enter i # st) = open_nodes st"
  "open_nodes (Exit i # st) = insert i (open_nodes st)"
  "open_nodes (map Enter xs @ st) = open_nodes st" "open_nodes (map Enter xs) = {}"
  by (auto simp: open_nodes_def)

lemma open_list_enter [simp]:
  "open_list (map Enter xs @ st) = open_list st" "open_list (map Enter xs) = []"
  by (induction xs) auto

lemma walk_start: "walk_inv par (set hs) (map Enter hs) []"
  by (auto simp: walk_inv_def sorted_wrt_map image_image intro: ancestors.head sorted_wrt_mono_rel [of _ "\<lambda>_ _. True"])

text \<open>A finished walk goes on with another head.\<close>

lemma walk_restart: "walk_inv par H [] order \<Longrightarrow> walk_inv par (insert r H) [Enter r] order"
  using ancestors_mono [of H "insert r H" par] ancestors.head [of r "insert r H" par]
  by (auto simp: walk_inv_def)

lemma walk_skip: "walk_inv par H (Enter i # st) order \<Longrightarrow> i \<in> set order \<Longrightarrow> walk_inv par H st order"
  by (auto simp: walk_inv_def insert_absorb)

lemma walk_cycle: "walk_inv par H (Enter i # st) order \<Longrightarrow> i \<in> open_nodes st \<Longrightarrow> (i, i) \<in> (parent_rel par)\<^sup>+"
  by (fastforce simp: walk_inv_def open_nodes_def)

lemma walk_enter:
  assumes "walk_inv par H (Enter i # st) order" "i \<notin> set order" "i \<notin> open_nodes st"
  shows "walk_inv par H (map Enter (par i) @ Exit i # st) order"
proof -
  have above: "\<forall>f \<in> set st. frame_above par (Enter i) f"
    using assms(1) by (simp add: walk_inv_def)
  have below: "frame_above par (Enter p) f" if "p \<in> set (par i)" "f \<in> set st" for p f
    using bspec [OF above that(2)] that(1) by (cases f) (auto simp: parent_rel_def intro: trancl.intros(2))
  have same: "frame_above par (Exit i) f" if "f \<in> set st" for f
    using bspec [OF above that] by (cases f) auto
  have step: "frame_above par (Enter p) (Exit i)" if "p \<in> set (par i)" for p
    using that by (auto simp: parent_rel_def)
  have "exits_ready par (insert i (set order)) st"
    using assms(1) by (simp add: walk_inv_def)
  then have "exits_ready par (insert i (set order \<union> set (par i))) st"
    by (rule exits_ready_mono) auto
  moreover have "i \<in> ancestors par H" using assms(1) by (simp add: walk_inv_def)
  moreover have "distinct (i # open_list st)"
    using assms(1,3) by (simp add: walk_inv_def set_open_list)
  ultimately show ?thesis
    using assms below same step
    by (auto simp: walk_inv_def sorted_wrt_append sorted_wrt_map image_Un image_image
        intro: ancestors.parent sorted_wrt_mono_rel [of _ "\<lambda>_ _. True"])
qed

lemma walk_exit:
  assumes "walk_inv par H (Exit i # st) order"
  shows "walk_inv par H st (order @ [i])" "i \<notin> open_nodes st" "i \<notin> set order"
proof -
  show fresh: "i \<notin> open_nodes st" "i \<notin> set order"
    using assms set_open_list [of st] by (auto simp: walk_inv_def)
  show "walk_inv par H st (order @ [i])"
    using assms fresh by (auto simp: walk_inv_def)
qed

lemma walk_done:
  assumes "walk_inv par H [] order"
  shows "distinct order" "parents_before par {} order" "set order = ancestors par H"
proof -
  show "distinct order" "parents_before par {} order" using assms by (auto simp: walk_inv_def)
  have "ancestors par H \<subseteq> set order"
    using assms parents_before_closed [of par "{}" order]
    by (intro ancestors_closed) (auto simp: walk_inv_def)
  then show "set order = ancestors par H" using assms by (auto simp: walk_inv_def)
qed

text \<open>The nodes of a walk are ancestors of its heads.\<close>

lemma walk_ancestors:
  "walk_inv par H st order \<Longrightarrow> open_nodes st \<union> set order \<subseteq> ancestors par H"
  by (force simp: walk_inv_def open_nodes_def)

lemma walk_top: "walk_inv par H (f # st) order \<Longrightarrow> frame_node f \<in> ancestors par H"
  by (simp add: walk_inv_def)

lemmas walk_steps = walk_skip walk_enter walk_exit

text \<open>Where every parent comes before its children there is no cycle.\<close>

lemma parents_before_rank:
  assumes "parents_before par seen xs" "distinct xs" "set xs \<inter> seen = {}"
  shows "\<exists>rank :: 'a \<Rightarrow> nat. \<forall>i \<in> set xs. \<forall>p \<in> set (par i). p \<in> set xs \<longrightarrow> rank p < rank i"
  using assms
proof (induction xs rule: rev_induct)
  case (snoc x xs)
  then obtain rank :: "'a \<Rightarrow> nat" where rank: "\<forall>i \<in> set xs. \<forall>p \<in> set (par i). p \<in> set xs \<longrightarrow> rank p < rank i"
    by auto
  define top where "top = Suc (\<Sum>i\<in>set xs. rank i)"
  have below: "rank i < top" if "i \<in> set xs" for i
    using member_le_sum [of i "set xs" rank] that by (simp add: top_def less_Suc_eq_le)
  have "set (par i) \<subseteq> seen \<union> set xs" if "i \<in> set xs" for i
    using parents_before_closed [of par seen xs i] snoc.prems that by simp
  then have "x \<notin> set (par i)" if "i \<in> set xs" for i
    using that snoc.prems(2,3) by auto
  moreover have "x \<notin> set (par x)" using snoc.prems by auto
  ultimately show ?case
    using rank below snoc.prems by (intro exI [of _ "rank(x := top)"]) (auto split: if_splits)
qed simp

lemma ranked_acyclic:
  fixes rank :: "'a \<Rightarrow> nat"
  assumes "\<And>i p. i \<in> X \<Longrightarrow> p \<in> set (par i) \<Longrightarrow> p \<in> X \<and> rank p < rank i" "i \<in> X"
  shows "(i, i) \<notin> (parent_rel par)\<^sup>+"
proof
  assume "(i, i) \<in> (parent_rel par)\<^sup>+"
  moreover have "(i, j) \<in> (parent_rel par)\<^sup>+ \<Longrightarrow> j \<in> X \<and> rank j < rank i" for j
  proof (induction rule: trancl_induct)
    case (base y)
    then show ?case using assms by (auto simp: parent_rel_def)
  next
    case (step y z)
    then show ?case using assms(1) [of y z] by (auto simp: parent_rel_def intro: less_trans)
  qed
  ultimately show False by blast
qed

lemma walk_acyclic:
  assumes "walk_inv par H [] order" "i \<in> ancestors par H"
  shows "(i, i) \<notin> (parent_rel par)\<^sup>+"
proof -
  note facts = walk_done [OF assms(1)]
  obtain rank :: "'a \<Rightarrow> nat" where
    rank: "\<forall>i \<in> set order. \<forall>p \<in> set (par i). p \<in> set order \<longrightarrow> rank p < rank i"
    using parents_before_rank [OF facts(2,1)] by blast
  show ?thesis
    using rank parents_before_closed [OF facts(2)] assms(2) facts(3)
    by (intro ranked_acyclic [of "set order" par rank]) auto
qed

section \<open>Visit marks\<close>

text \<open>The programs mark an open node with 1 and a finished one with 2.\<close>

definition visit_marks :: "'a frame list \<Rightarrow> 'a list \<Rightarrow> 'a \<Rightarrow> nat option" where
  "visit_marks st order i =
     (if i \<in> set order then Some 2 else if i \<in> open_nodes st then Some 1 else None)"

definition walk_state ::
  "('a \<Rightarrow> 'a list) \<Rightarrow> 'a set \<Rightarrow> ('a \<rightharpoonup> nat) \<Rightarrow> 'a frame list \<Rightarrow> bool" where
  "walk_state par H marks st \<longleftrightarrow>
     (\<exists>order. walk_inv par H st order \<and> marks = visit_marks st order)"

definition cyclic :: "('a \<Rightarrow> 'a list) \<Rightarrow> bool" where
  "cyclic par \<longleftrightarrow> (\<exists>i. (i, i) \<in> (parent_rel par)\<^sup>+)"

lemma walk_stateE:
  assumes "walk_state par H marks st"
  obtains order where "walk_inv par H st order" "marks = visit_marks st order"
  using assms by (auto simp: walk_state_def)

lemma walk_state_skip:
  assumes "walk_state par H marks (Enter i # st)" "marks i = Some 2"
  shows "walk_state par H marks st"
  using assms(1)
proof (rule walk_stateE)
  fix order
  assume *: "walk_inv par H (Enter i # st) order" "marks = visit_marks (Enter i # st) order"
  then have "i \<in> set order" using assms(2) by (simp add: visit_marks_def split: if_splits)
  with walk_skip [OF *(1)] *(2) show ?thesis by (auto simp: walk_state_def visit_marks_def fun_eq_iff)
qed

lemma walk_state_closes:
  assumes "walk_state par H marks (Enter i # st)" "marks i = Some 1"
  shows "cyclic par"
  using assms(1)
proof (rule walk_stateE)
  fix order
  assume *: "walk_inv par H (Enter i # st) order" "marks = visit_marks (Enter i # st) order"
  then have "i \<in> open_nodes st" using assms(2) by (simp add: visit_marks_def split: if_splits)
  with walk_cycle [OF *(1)] show ?thesis by (auto simp: cyclic_def)
qed

lemma walk_state_enter:
  assumes "walk_state par H marks (Enter i # st)" "marks i \<noteq> Some 2" "marks i \<noteq> Some 1"
  shows "walk_state par H (marks(i \<mapsto> 1)) (map Enter (par i) @ Exit i # st)"
  using assms(1)
proof (rule walk_stateE)
  fix order
  assume *: "walk_inv par H (Enter i # st) order" "marks = visit_marks (Enter i # st) order"
  then have i: "i \<notin> set order" "i \<notin> open_nodes st"
    using assms(2,3) by (auto simp: visit_marks_def split: if_splits)
  from walk_enter [OF *(1) i] *(2) i show ?thesis
    by (auto simp: walk_state_def visit_marks_def fun_eq_iff intro!: exI [of _ order])
qed

lemma walk_state_exit:
  assumes "walk_state par H marks (Exit i # st)"
  shows "walk_state par H (marks(i \<mapsto> 2)) st"
  using assms
proof (rule walk_stateE)
  fix order
  assume *: "walk_inv par H (Exit i # st) order" "marks = visit_marks (Exit i # st) order"
  from walk_exit [OF *(1)] *(2) show ?thesis
    by (auto simp: walk_state_def visit_marks_def fun_eq_iff intro!: exI [of _ "order @ [i]"])
qed

lemma walk_state_root:
  assumes "walk_state par H marks []"
  shows "marks i = Some 2 \<Longrightarrow> walk_state par (insert i H) marks []"
    and "walk_state par (insert i H) marks [Enter i]"
proof -
  obtain order where order: "walk_inv par H [] order" "marks = visit_marks [] order"
    using assms by (rule walk_stateE)
  show "walk_state par (insert i H) marks [Enter i]"
    using walk_restart [OF order(1), of i] order(2)
    by (auto simp: walk_state_def visit_marks_def fun_eq_iff intro!: exI [of _ order])
  then show "marks i = Some 2 \<Longrightarrow> walk_state par (insert i H) marks []" by (rule walk_state_skip)
qed

lemma walk_state_start: "walk_state par (set hs) Map.empty (map Enter hs)"
  using walk_start [of par hs] by (auto simp: walk_state_def visit_marks_def fun_eq_iff intro!: exI [of _ "[]"])

lemma walk_state_seen:
  assumes "walk_state par H marks st"
  shows "dom marks \<subseteq> ancestors par H"
proof -
  obtain order where "walk_inv par H st order" "marks = visit_marks st order"
    using assms by (rule walk_stateE)
  then show ?thesis
    using walk_ancestors [of par H st order] by (auto simp: visit_marks_def split: if_splits)
qed

lemma walk_state_top: "walk_state par H marks (f # st) \<Longrightarrow> frame_node f \<in> ancestors par H"
  by (erule walk_stateE) (rule walk_top)

lemma walk_state_done:
  assumes "walk_state par H marks []"
  shows "dom marks = ancestors par H" "i \<in> ancestors par H \<Longrightarrow> (i, i) \<notin> (parent_rel par)\<^sup>+"
proof -
  obtain order where order: "walk_inv par H [] order" "marks = visit_marks [] order"
    using assms by (rule walk_stateE)
  have "dom (visit_marks [] order) = set order" by (auto simp: visit_marks_def dom_def)
  then show "dom marks = ancestors par H" using walk_done(3) [OF order(1)] order(2) by simp
  show "i \<in> ancestors par H \<Longrightarrow> (i, i) \<notin> (parent_rel par)\<^sup>+" by (rule walk_acyclic [OF order(1)])
qed

lemmas walk_state_steps = walk_state_skip walk_state_enter walk_state_exit

end
