(* ===== verification/Store_Dag.thy ===== *)
theory Store_Dag
  imports Store_Blocks Dag_Walk
begin

text \<open>
  Ancestry projection of \<open>src/src/store/dag.rs\<close>: the limits, the normalised heads and the
  Enter/Exit walk of \<open>project_on\<close>, with what it returns on an invariant store: exactly the
  ancestors of the heads, each once and parents first, or the first reason to refuse.
\<close>

section \<open>Limits and heads\<close>

definition MAX_PROJECTION_EVENTS :: nat where "MAX_PROJECTION_EVENTS = 100000"
definition MAX_PROJECTION_WIRE_BYTES :: nat where "MAX_PROJECTION_WIRE_BYTES = 67108864"
definition MAX_PROJECTION_HEADS :: nat where "MAX_PROJECTION_HEADS = 256"
definition MAX_BUNDLE_EVENTS :: nat where "MAX_BUNDLE_EVENTS = 1024"

record projection_limits =
  pl_max_events :: nat
  pl_max_wire_bytes :: nat

definition projection_limits_new :: "nat \<Rightarrow> nat \<Rightarrow> store_error + projection_limits" where
  "projection_limits_new max_events max_wire_bytes =
     (if max_events = 0 \<or> max_events > MAX_PROJECTION_EVENTS \<or>
         max_wire_bytes = 0 \<or> max_wire_bytes > MAX_PROJECTION_WIRE_BYTES
      then Inl ProjectionLimitExceeded
      else Inr \<lparr>pl_max_events = max_events, pl_max_wire_bytes = max_wire_bytes\<rparr>)"

definition default_projection_limits :: projection_limits where
  "default_projection_limits =
     \<lparr>pl_max_events = MAX_PROJECTION_EVENTS, pl_max_wire_bytes = MAX_PROJECTION_WIRE_BYTES\<rparr>"

definition validate_projection_limits :: "projection_limits \<Rightarrow> store_error + unit" where
  "validate_projection_limits limits =
     bindR (projection_limits_new (pl_max_events limits) (pl_max_wire_bytes limits)) (\<lambda>_. Inr ())"

definition normalize_heads :: "env \<Rightarrow> event_id list \<Rightarrow> store_error + event_id list" where
  "normalize_heads E heads =
     (if heads = [] \<or> length heads > MAX_PROJECTION_HEADS then Inl ProjectionLimitExceeded
      else Inr (sort_dedup (event_id_text E) heads))"

section \<open>The walk\<close>

type_synonym loaded_map = "(event_id \<times> signed_event) list"

text \<open>
  \<open>loaded\<close> holds each identifier at most once, because an identifier is inserted only when it
  has no visit mark: insertion is a cons and removal takes the first entry.
\<close>

fun loaded_remove :: "event_id \<Rightarrow> loaded_map \<Rightarrow> loaded_map" where
  "loaded_remove i [] = []"
| "loaded_remove i ((j, ev) # m) = (if j = i then m else (j, ev) # loaded_remove i m)"

text \<open>What entering an unvisited identifier checks, before the marks change.\<close>

definition enter_event ::
  "env \<Rightarrow> db \<Rightarrow> context_id \<Rightarrow> projection_limits \<Rightarrow> event_id \<Rightarrow> nat \<Rightarrow> nat \<Rightarrow> nat \<Rightarrow>
    store_error + (signed_event \<times> nat)" where
  "enter_event E d c limits i n_loaded n_ordered bytes =
     bindR (load_verified_event E d i) (\<lambda>event.
       if body_context (ev_body event) \<noteq> c then Inl (ParentContextMismatch i)
       else bindR (map_err (\<lambda>_. CorruptStorage) (to_wire E event)) (\<lambda>wire.
         bindR (ok_or (case checked_add n_loaded n_ordered of None \<Rightarrow> None | Some v \<Rightarrow> checked_add v 1)
           ProjectionLimitExceeded) (\<lambda>next_count.
         bindR (ok_or (checked_add bytes (length wire)) ProjectionLimitExceeded) (\<lambda>next_bytes.
           if next_count > pl_max_events limits \<or> next_bytes > pl_max_wire_bytes limits
           then Inl ProjectionLimitExceeded
           else Inr (event, next_bytes)))))"

lemma enter_event_count:
  "enter_event E d c limits i n_loaded n_ordered bytes = Inr r \<Longrightarrow>
    n_loaded + n_ordered < pl_max_events limits"
  by (auto simp: enter_event_def bindR_Inr_iff split: option.splits if_splits)

lemma length_loaded_remove:
  "i \<in> fst ` set m \<Longrightarrow> Suc (length (loaded_remove i m)) = length m"
  by (induction i m rule: loaded_remove.induct) auto

function project_loop ::
  "env \<Rightarrow> db \<Rightarrow> context_id \<Rightarrow> projection_limits \<Rightarrow> (event_id \<rightharpoonup> nat) \<Rightarrow> loaded_map \<Rightarrow>
    event_id frame list \<Rightarrow> nat \<Rightarrow> signed_event list \<Rightarrow> store_error + (signed_event list \<times> nat)"
where
  "project_loop E d c limits marks loaded [] bytes ordered = Inr (ordered, bytes)"
| "project_loop E d c limits marks loaded (Enter i # stack) bytes ordered =
     (if marks i = Some 2 then project_loop E d c limits marks loaded stack bytes ordered
      else if marks i = Some 1 then Inl ProjectionCycle
      else case enter_event E d c limits i (length loaded) (length ordered) bytes of
          Inl e \<Rightarrow> Inl e
        | Inr (event, next_bytes) \<Rightarrow>
            project_loop E d c limits (marks(i \<mapsto> 1)) ((i, event) # loaded)
              (map Enter (body_parents (ev_body event)) @ Exit i # stack) next_bytes ordered)"
| "project_loop E d c limits marks loaded (Exit i # stack) bytes ordered =
     (if marks i = Some 1 then
        (case map_of loaded i of
           None \<Rightarrow> Inl CorruptStorage
         | Some event \<Rightarrow>
             project_loop E d c limits (marks(i \<mapsto> 2)) (loaded_remove i loaded) stack bytes
               (ordered @ [event]))
      else project_loop E d c limits marks loaded stack bytes ordered)"
  by pat_completeness auto
termination
proof (relation "measures
    [\<lambda>(E, d, c, limits, marks, loaded, stack, bytes, ordered).
       pl_max_events limits - (length loaded + length ordered),
     \<lambda>(E, d, c, limits, marks, loaded, stack, bytes, ordered). length stack]", goal_cases)
  case (3 E d c limits marks loaded i stack bytes ordered r event next_bytes)
  then show ?case using enter_event_count [of E d c limits i "length loaded" "length ordered" bytes]
    by auto
next
  case (4 E d c limits marks loaded i stack bytes ordered event)
  then have "i \<in> fst ` set loaded" by (metis map_of_eq_None_iff option.distinct(1))
  then have "length loaded = Suc (length (loaded_remove i loaded))" by (simp add: length_loaded_remove)
  then show ?case by simp
qed auto

declare project_loop.simps [simp del]

definition project_on ::
  "env \<Rightarrow> db \<Rightarrow> context_id \<Rightarrow> event_id list \<Rightarrow> projection_limits \<Rightarrow>
    store_error + (signed_event list \<times> nat)" where
  "project_on E d c heads limits =
     bindR (validate_projection_limits limits) (\<lambda>_.
       if heads = [] \<or> length heads > MAX_BUNDLE_EVENTS then Inl ProjectionLimitExceeded
       else project_loop E d c limits Map.empty [] (map Enter heads) 0 [])"

record projection =
  proj_context :: context_id
  proj_heads :: "event_id list"
  proj_events :: "signed_event list"
  proj_wire_bytes :: nat

definition project ::
  "env \<Rightarrow> db \<Rightarrow> context_id \<Rightarrow> event_id list \<Rightarrow> projection_limits \<Rightarrow> store_error + projection" where
  "project E d c heads limits =
     bindR (validate_projection_limits limits) (\<lambda>_.
     bindR (normalize_heads E heads) (\<lambda>heads.
     bindR (project_on E d c heads limits) (\<lambda>(events, bytes).
       Inr \<lparr>proj_context = c, proj_heads = heads, proj_events = events, proj_wire_bytes = bytes\<rparr>)))"

section \<open>The graph of a store\<close>

definition store_parents :: "env \<Rightarrow> db \<Rightarrow> event_id \<Rightarrow> event_id list" where
  "store_parents E d i = (case lookup_event E d i of None \<Rightarrow> [] | Some ev \<Rightarrow> event_parents ev)"

definition store_wire_len :: "env \<Rightarrow> db \<Rightarrow> event_id \<Rightarrow> nat" where
  "store_wire_len E d i =
     (case lookup_event E d i of None \<Rightarrow> 0
      | Some ev \<Rightarrow> (case to_wire E ev of Inl _ \<Rightarrow> 0 | Inr w \<Rightarrow> length w))"

text \<open>The ancestors of a list of events, themselves included.\<close>

definition ancestry :: "env \<Rightarrow> db \<Rightarrow> event_id list \<Rightarrow> event_id set" where
  "ancestry E d heads = ancestors (store_parents E d) (set heads)"

lemma store_parents_rank:
  "store_inv E d \<Longrightarrow> p \<in> set (store_parents E d i) \<Longrightarrow> event_rank d p < event_rank d i"
  by (cases "lookup_event E d i") (auto simp: store_parents_def intro: event_rank_parent)

lemma head_ancestry: "i \<in> set heads \<Longrightarrow> i \<in> ancestry E d heads"
  by (simp add: ancestry_def ancestors.head)

lemma parent_ancestry:
  "i \<in> ancestry E d heads \<Longrightarrow> p \<in> set (store_parents E d i) \<Longrightarrow> p \<in> ancestry E d heads"
  unfolding ancestry_def by (rule ancestors.parent)

text \<open>When every head is stored in a context, so is every ancestor.\<close>

lemma ancestry_stored:
  assumes "store_inv E d" "\<forall>h \<in> set heads. stored_in d h c" "i \<in> ancestry E d heads"
  shows "stored_in d i c"
  using assms(3) unfolding ancestry_def
proof induction
  case (head i)
  then show ?case using assms(2) by simp
next
  case (parent i p)
  then obtain ev where "lookup_event E d i = Some ev" "event_context ev = c"
    using stored_in_iff [OF assms(1)] by blast
  with parent lookup_parent [OF assms(1), of i ev p] show ?case
    using stored_in_iff [OF assms(1), of p c] by (auto simp: store_parents_def)
qed

lemma ancestry_has_event:
  assumes "store_inv E d" "\<forall>h \<in> set heads. has_event d h"
  shows "ancestry E d heads \<subseteq> {i. has_event d i}"
proof
  fix i assume "i \<in> ancestry E d heads"
  then show "i \<in> {i. has_event d i}" unfolding ancestry_def
  proof induction
    case (parent i p)
    then obtain ev where ev: "lookup_event E d i = Some ev"
      using lookup_event_None [OF assms(1), of i] by auto
    with parent(2) obtain pev where "lookup_event E d p = Some pev"
      by (auto simp: store_parents_def elim: lookup_parent [OF assms(1)])
    then show ?case using lookup_event_None [OF assms(1), of p] by auto
  qed (use assms(2) in auto)
qed

lemma finite_ancestry:
  assumes "store_inv E d"
  shows "finite (ancestry E d heads)"
proof -
  have "ancestry E d heads \<subseteq> set heads \<union> {i. has_event d i}"
    unfolding ancestry_def
  proof (rule ancestors_closed)
    fix i
    have "p \<in> {i. has_event d i}" if p: "p \<in> set (store_parents E d i)" for p
    proof -
      from p obtain ev where "lookup_event E d i = Some ev" "p \<in> set (event_parents ev)"
        by (cases "lookup_event E d i") (auto simp: store_parents_def)
      then obtain pev where "lookup_event E d p = Some pev" by (rule lookup_parent [OF assms])
      then show ?thesis using lookup_event_None [OF assms, of p] by auto
    qed
    then show "set (store_parents E d i) \<subseteq> set heads \<union> {i. has_event d i}" by auto
  qed simp
  moreover have "finite {i. has_event d i}" by (simp add: has_event_def)
  ultimately show ?thesis by (meson finite_UnI finite_set finite_subset)
qed

section \<open>The walk on an invariant store\<close>

lemma valid_limits:
  "validate_projection_limits limits = Inr () \<Longrightarrow>
    pl_max_events limits < usize_limit \<and> pl_max_wire_bytes limits < usize_limit"
  by (auto simp: validate_projection_limits_def projection_limits_new_def usize_limit_def
      MAX_PROJECTION_EVENTS_def MAX_PROJECTION_WIRE_BYTES_def bindR_Inr_iff split: if_splits)

lemma enter_event_lookup:
  assumes "store_inv E d" "validate_projection_limits limits = Inr ()"
  shows "enter_event E d c limits i a b bytes =
    (case lookup_event E d i of
       None \<Rightarrow> Inl (ParentMissing i)
     | Some ev \<Rightarrow>
         if event_context ev \<noteq> c then Inl (ParentContextMismatch i)
         else if a + b + 1 > pl_max_events limits \<or>
                 bytes + store_wire_len E d i > pl_max_wire_bytes limits
         then Inl ProjectionLimitExceeded
         else Inr (ev, bytes + store_wire_len E d i))"
proof (cases "lookup_event E d i")
  case None
  then show ?thesis by (simp add: enter_event_def load_verified_lookup [OF assms(1)])
next
  case (Some ev)
  obtain w where w: "to_wire E ev = Inr w" by (rule event_wire_Some [OF assms(1) Some])
  have len: "store_wire_len E d i = length w" by (simp add: store_wire_len_def Some w)
  show ?thesis
    using valid_limits [OF assms(2)] Some w
    by (auto simp: enter_event_def load_verified_lookup [OF assms(1)] event_context_def len checked_add_def)
qed

definition marks_of :: "event_id frame list \<Rightarrow> signed_event list \<Rightarrow> event_id \<Rightarrow> nat option" where
  "marks_of stack ordered i =
     (if i \<in> ev_id ` set ordered then Some 2 else if i \<in> open_nodes stack then Some 1 else None)"

definition seen_nodes :: "event_id frame list \<Rightarrow> signed_event list \<Rightarrow> event_id set" where
  "seen_nodes stack ordered = open_nodes stack \<union> ev_id ` set ordered"

definition project_inv ::
  "env \<Rightarrow> db \<Rightarrow> context_id \<Rightarrow> projection_limits \<Rightarrow> event_id list \<Rightarrow> (event_id \<rightharpoonup> nat) \<Rightarrow> loaded_map \<Rightarrow>
    event_id frame list \<Rightarrow> nat \<Rightarrow> signed_event list \<Rightarrow> bool" where
  "project_inv E d c limits heads marks loaded stack bytes ordered \<longleftrightarrow>
     walk_inv (store_parents E d) (set heads) stack (map ev_id ordered) \<and>
     marks = marks_of stack ordered \<and>
     distinct (map fst loaded) \<and> fst ` set loaded = open_nodes stack \<and>
     (\<forall>(i, ev) \<in> set loaded. lookup_event E d i = Some ev) \<and>
     (\<forall>ev \<in> set ordered. lookup_event E d (ev_id ev) = Some ev) \<and>
     (\<forall>i \<in> seen_nodes stack ordered. stored_in d i c) \<and>
     bytes = sum (store_wire_len E d) (seen_nodes stack ordered) \<and>
     card (seen_nodes stack ordered) \<le> pl_max_events limits \<and>
     bytes \<le> pl_max_wire_bytes limits"

text \<open>What a projection returns.\<close>

definition exact_projection ::
  "env \<Rightarrow> db \<Rightarrow> context_id \<Rightarrow> projection_limits \<Rightarrow> event_id list \<Rightarrow> signed_event list \<Rightarrow> nat \<Rightarrow> bool" where
  "exact_projection E d c limits heads events bytes \<longleftrightarrow>
     distinct (map ev_id events) \<and> ev_id ` set events = ancestry E d heads \<and>
     parents_before (store_parents E d) {} (map ev_id events) \<and>
     (\<forall>ev \<in> set events. lookup_event E d (ev_id ev) = Some ev \<and> event_context ev = c) \<and>
     bytes = sum (store_wire_len E d) (ancestry E d heads) \<and>
     card (ancestry E d heads) \<le> pl_max_events limits \<and> bytes \<le> pl_max_wire_bytes limits"

text \<open>Why a projection is refused.\<close>

definition projection_refused ::
  "env \<Rightarrow> db \<Rightarrow> context_id \<Rightarrow> projection_limits \<Rightarrow> event_id list \<Rightarrow> store_error \<Rightarrow> bool" where
  "projection_refused E d c limits heads e \<longleftrightarrow>
     (\<exists>i \<in> ancestry E d heads. \<not> has_event d i \<and> e = ParentMissing i) \<or>
     (\<exists>i \<in> ancestry E d heads. has_event d i \<and> \<not> stored_in d i c \<and> e = ParentContextMismatch i) \<or>
     (e = ProjectionLimitExceeded \<and>
       (pl_max_events limits < card (ancestry E d heads) \<or>
        pl_max_wire_bytes limits < sum (store_wire_len E d) (ancestry E d heads)))"

definition projection_spec ::
  "env \<Rightarrow> db \<Rightarrow> context_id \<Rightarrow> projection_limits \<Rightarrow> event_id list \<Rightarrow>
    store_error + (signed_event list \<times> nat) \<Rightarrow> bool" where
  "projection_spec E d c limits heads res =
     (case res of Inl e \<Rightarrow> projection_refused E d c limits heads e
      | Inr (events, bytes) \<Rightarrow> exact_projection E d c limits heads events bytes)"

lemma seen_nodes_simps [simp]:
  "seen_nodes (Enter i # st) os = seen_nodes st os"
  "seen_nodes (map Enter ps @ Exit i # st) os = insert i (seen_nodes st os)"
  "seen_nodes st (os @ [ev]) = insert (ev_id ev) (seen_nodes st os)"
  "seen_nodes (Exit i # st) os = insert i (seen_nodes st os)"
  by (auto simp: seen_nodes_def)

lemma project_inv_start:
  "project_inv E d c limits heads Map.empty [] (map Enter heads) 0 []"
  using walk_start [of "store_parents E d" heads]
  by (auto simp: project_inv_def marks_of_def seen_nodes_def)

lemma project_inv_skip:
  assumes "project_inv E d c limits heads marks loaded (Enter i # st) bytes os" "marks i = Some 2"
  shows "project_inv E d c limits heads marks loaded st bytes os"
proof -
  have "i \<in> ev_id ` set os" using assms by (auto simp: project_inv_def marks_of_def split: if_splits)
  then show ?thesis using assms(1) walk_skip [of "store_parents E d" "set heads" i st]
    by (auto simp: project_inv_def marks_of_def)
qed

lemma store_parents_acyclic: "store_inv E d \<Longrightarrow> (i, i) \<notin> (parent_rel (store_parents E d))\<^sup>+"
  using ranked_acyclic [of UNIV "store_parents E d" "event_rank d" i] store_parents_rank by blast

lemma project_inv_no_cycle:
  assumes "store_inv E d" "project_inv E d c limits heads marks loaded (Enter i # st) bytes os"
  shows "i \<notin> open_nodes st" "marks i \<noteq> Some 1"
proof -
  have "walk_inv (store_parents E d) (set heads) (Enter i # st) (map ev_id os)"
    using assms(2) by (simp add: project_inv_def)
  then show "i \<notin> open_nodes st"
    using walk_cycle store_parents_acyclic [OF assms(1)] by metis
  then show "marks i \<noteq> Some 1" using assms(2) by (simp add: project_inv_def marks_of_def)
qed

lemma project_inv_fresh:
  assumes "store_inv E d"
    and "project_inv E d c limits heads marks loaded (Enter i # st) bytes os" "marks i \<noteq> Some 2"
  shows "i \<notin> ev_id ` set os" "i \<notin> open_nodes st" "i \<notin> seen_nodes st os" "i \<in> ancestry E d heads"
    "finite (seen_nodes st os)" "card (seen_nodes st os) = length loaded + length os"
    "insert i (seen_nodes st os) \<subseteq> ancestry E d heads"
proof -
  have walk: "walk_inv (store_parents E d) (set heads) (Enter i # st) (map ev_id os)"
    using assms(2) by (simp add: project_inv_def)
  show fresh: "i \<notin> ev_id ` set os" "i \<notin> open_nodes st"
    using assms(2,3) project_inv_no_cycle [OF assms(1,2)] by (auto simp: project_inv_def marks_of_def)
  then show "i \<notin> seen_nodes st os" by (simp add: seen_nodes_def)
  show i: "i \<in> ancestry E d heads" using walk_top [OF walk] by (simp add: ancestry_def)
  have loaded: "open_nodes st = set (map fst loaded)" "distinct (map fst loaded)"
    using assms(2) by (auto simp: project_inv_def)
  have disj: "open_nodes st \<inter> ev_id ` set os = {}" "distinct (map ev_id os)"
    using walk by (auto simp: walk_inv_def)
  show "finite (seen_nodes st os)" by (simp add: seen_nodes_def loaded(1))
  have "card (ev_id ` set os) = length os" using distinct_card [OF disj(2)] by simp
  moreover have "card (set (map fst loaded)) = length loaded" using distinct_card [OF loaded(2)] by simp
  ultimately show "card (seen_nodes st os) = length loaded + length os"
    unfolding seen_nodes_def using disj(1) by (subst card_Un_disjoint) (auto simp: loaded(1))
  show "insert i (seen_nodes st os) \<subseteq> ancestry E d heads"
    using walk_ancestors [OF walk] i by (auto simp: seen_nodes_def ancestry_def)
qed

lemma project_inv_enter:
  assumes "store_inv E d" "validate_projection_limits limits = Inr ()"
    and "project_inv E d c limits heads marks loaded (Enter i # st) bytes os" "marks i \<noteq> Some 2"
    and "enter_event E d c limits i (length loaded) (length os) bytes = Inr (ev, nb)"
  shows "project_inv E d c limits heads (marks(i \<mapsto> 1)) ((i, ev) # loaded)
    (map Enter (body_parents (ev_body ev)) @ Exit i # st) nb os"
proof -
  note fresh = project_inv_fresh [OF assms(1,3,4)]
  have ev: "lookup_event E d i = Some ev" "event_context ev = c"
    and lim: "length loaded + length os + 1 \<le> pl_max_events limits"
      "bytes + store_wire_len E d i \<le> pl_max_wire_bytes limits" "nb = bytes + store_wire_len E d i"
    using assms(5) unfolding enter_event_lookup [OF assms(1,2)]
    by (auto split: option.splits if_splits)
  have par: "store_parents E d i = body_parents (ev_body ev)"
    by (simp add: store_parents_def ev event_parents_def)
  have walk: "walk_inv (store_parents E d) (set heads) (Enter i # st) (map ev_id os)"
    using assms(3) by (simp add: project_inv_def)
  have "walk_inv (store_parents E d) (set heads)
      (map Enter (body_parents (ev_body ev)) @ Exit i # st) (map ev_id os)"
    using walk_enter [OF walk] fresh(1,2) par by auto
  moreover have "marks(i \<mapsto> 1) = marks_of (map Enter (body_parents (ev_body ev)) @ Exit i # st) os"
    using assms(3) fresh(1) by (auto simp: project_inv_def marks_of_def fun_eq_iff)
  moreover have "stored_in d i c" using ev stored_in_iff [OF assms(1)] by auto
  moreover have "sum (store_wire_len E d) (insert i (seen_nodes st os)) = nb"
    using assms(3) fresh(3,5) lim(3) by (simp add: project_inv_def)
  moreover have "card (insert i (seen_nodes st os)) \<le> pl_max_events limits"
    using fresh(3,5,6) lim(1) by simp
  moreover have "distinct (map fst ((i, ev) # loaded))"
    "fst ` set ((i, ev) # loaded) = insert i (open_nodes st)"
    "\<forall>(j, ev) \<in> set ((i, ev) # loaded). lookup_event E d j = Some ev"
    using assms(3) fresh(2) ev(1) by (auto simp: project_inv_def)
  ultimately show ?thesis
    using assms(3) lim(2,3) unfolding project_inv_def by simp
qed

lemma loaded_remove_facts:
  assumes "distinct (map fst m)"
  shows "distinct (map fst (loaded_remove i m))" "set (loaded_remove i m) = {x \<in> set m. fst x \<noteq> i}"
    "fst ` set (loaded_remove i m) = fst ` set m - {i}"
proof -
  have *: "distinct (map fst (loaded_remove i m)) \<and> set (loaded_remove i m) = {x \<in> set m. fst x \<noteq> i}"
    using assms by (induction i m rule: loaded_remove.induct) force+
  then show "distinct (map fst (loaded_remove i m))" "set (loaded_remove i m) = {x \<in> set m. fst x \<noteq> i}"
    by auto
  then show "fst ` set (loaded_remove i m) = fst ` set m - {i}" by auto
qed

lemma project_inv_exit:
  assumes "store_inv E d" "project_inv E d c limits heads marks loaded (Exit i # st) bytes os"
  obtains ev where "marks i = Some 1" "map_of loaded i = Some ev"
    "project_inv E d c limits heads (marks(i \<mapsto> 2)) (loaded_remove i loaded) st bytes (os @ [ev])"
proof -
  have walk: "walk_inv (store_parents E d) (set heads) (Exit i # st) (map ev_id os)"
    and loaded: "distinct (map fst loaded)" "fst ` set loaded = insert i (open_nodes st)"
      "\<forall>(i, ev) \<in> set loaded. lookup_event E d i = Some ev"
    using assms(2) by (auto simp: project_inv_def)
  note exit = walk_exit [OF walk]
  obtain ev where ev: "map_of loaded i = Some ev"
    using loaded(2) by (metis insertI1 map_of_eq_None_iff not_Some_eq)
  then have look: "lookup_event E d i = Some ev" using loaded(3) by (auto dest: map_of_SomeD)
  have id: "ev_id ev = i" by (rule lookup_eventE [OF assms(1) look])
  note removed = loaded_remove_facts [OF loaded(1), of i]
  have keys: "fst ` set (loaded_remove i loaded) = open_nodes st"
    using removed(3) loaded(2) exit(2) by auto
  have marks: "marks i = Some 1" "marks(i \<mapsto> 2) = marks_of st (os @ [ev])"
    using assms(2) exit(2,3) id by (auto simp: project_inv_def marks_of_def fun_eq_iff)
  have inv: "project_inv E d c limits heads (marks(i \<mapsto> 2)) (loaded_remove i loaded) st bytes (os @ [ev])"
    unfolding project_inv_def marks(2)
    using assms(2) exit(1) id look keys removed(1,2) by (auto simp: project_inv_def)
  show thesis using that [OF marks(1) ev inv] .
qed

lemma project_inv_done:
  assumes "store_inv E d" "project_inv E d c limits heads marks loaded [] bytes os"
  shows "exact_projection E d c limits heads os bytes"
proof -
  have walk: "walk_inv (store_parents E d) (set heads) [] (map ev_id os)"
    using assms(2) by (simp add: project_inv_def)
  note finished = walk_done [OF walk]
  have ids: "ev_id ` set os = ancestry E d heads" using finished(3) by (simp add: ancestry_def)
  then have seen: "seen_nodes [] os = ancestry E d heads" by (simp add: seen_nodes_def)
  have "event_context ev = c" if "ev \<in> set os" for ev
  proof -
    have "lookup_event E d (ev_id ev) = Some ev" "stored_in d (ev_id ev) c"
      using assms(2) that by (auto simp: project_inv_def seen_nodes_def)
    then show ?thesis using stored_in_iff [OF assms(1)] by auto
  qed
  then show ?thesis
    using assms(2) finished(1,2) ids seen by (auto simp: exact_projection_def project_inv_def)
qed

lemma enter_refused:
  assumes "store_inv E d" "validate_projection_limits limits = Inr ()"
    and "project_inv E d c limits heads marks loaded (Enter i # st) bytes os" "marks i \<noteq> Some 2"
    and "enter_event E d c limits i (length loaded) (length os) bytes = Inl e"
  shows "projection_refused E d c limits heads e"
proof -
  note fresh = project_inv_fresh [OF assms(1,3,4)]
  have fin: "finite (ancestry E d heads)" by (rule finite_ancestry [OF assms(1)])
  have "card (insert i (seen_nodes st os)) \<le> card (ancestry E d heads)"
    by (rule card_mono [OF fin fresh(7)])
  then have card: "length loaded + length os + 1 \<le> card (ancestry E d heads)"
    using fresh(3,5,6) by simp
  have "sum (store_wire_len E d) (insert i (seen_nodes st os)) \<le> sum (store_wire_len E d) (ancestry E d heads)"
    by (rule sum_mono2 [OF fin fresh(7)]) simp
  then have bytes: "bytes + store_wire_len E d i \<le> sum (store_wire_len E d) (ancestry E d heads)"
    using assms(3) fresh(3,5) by (simp add: project_inv_def)
  show ?thesis
  proof (cases "lookup_event E d i")
    case None
    then show ?thesis using assms(5) fresh(4) lookup_event_None [OF assms(1), of i]
      by (auto simp: enter_event_lookup [OF assms(1,2)] projection_refused_def)
  next
    case (Some ev)
    then have "has_event d i" using lookup_event_None [OF assms(1), of i] by auto
    with Some show ?thesis using assms(5) fresh(4) card bytes stored_in_iff [OF assms(1), of i c]
      by (auto simp: enter_event_lookup [OF assms(1,2)] projection_refused_def split: if_splits)
  qed
qed

lemma project_loop_spec:
  assumes "store_inv E d" "validate_projection_limits limits = Inr ()"
    and "project_inv E d c limits heads marks loaded stack bytes ordered"
  shows "projection_spec E d c limits heads (project_loop E d c limits marks loaded stack bytes ordered)"
  using assms
proof (induction E d c limits marks loaded stack bytes ordered rule: project_loop.induct)
  case (1 E d c limits marks loaded bytes ordered)
  then show ?case by (simp add: projection_spec_def project_loop.simps project_inv_done)
next
  case (2 E d c limits marks loaded i stack bytes ordered)
  have cycle: "marks i \<noteq> Some 1" by (rule project_inv_no_cycle(2) [OF "2.prems"(1,3)])
  show ?case
  proof (cases "marks i = Some 2")
    case True
    then have "projection_spec E d c limits heads (project_loop E d c limits marks loaded stack bytes ordered)"
      using "2.IH"(1) "2.prems" project_inv_skip by blast
    then show ?thesis using True by (simp add: project_loop.simps)
  next
    case False
    show ?thesis
    proof (cases "enter_event E d c limits i (length loaded) (length ordered) bytes")
      case (Inl e)
      then show ?thesis
        using enter_refused [OF "2.prems" False Inl] False cycle
        by (simp add: project_loop.simps projection_spec_def)
    next
      case (Inr r)
      obtain ev nb where r: "r = (ev, nb)" by fastforce
      from project_inv_enter [OF "2.prems" False Inr [unfolded r]]
      have "projection_spec E d c limits heads
          (project_loop E d c limits (marks(i \<mapsto> 1)) ((i, ev) # loaded)
            (map Enter (body_parents (ev_body ev)) @ Exit i # stack) nb ordered)"
        using "2.IH"(2) [OF False cycle Inr r [symmetric]] "2.prems"(1,2) by blast
      then show ?thesis using False cycle Inr r by (simp add: project_loop.simps)
    qed
  qed
next
  case (3 E d c limits marks loaded i stack bytes ordered)
  obtain ev where ev: "marks i = Some 1" "map_of loaded i = Some ev"
    "project_inv E d c limits heads (marks(i \<mapsto> 2)) (loaded_remove i loaded) stack bytes (ordered @ [ev])"
    by (rule project_inv_exit [OF "3.prems"(1,3)])
  then have "projection_spec E d c limits heads (project_loop E d c limits (marks(i \<mapsto> 2))
      (loaded_remove i loaded) stack bytes (ordered @ [ev]))"
    using "3.IH"(1) "3.prems"(1,2) by blast
  then show ?case using ev(1,2) by (simp add: project_loop.simps)
qed

lemma project_on_spec:
  assumes "store_inv E d" "validate_projection_limits limits = Inr ()"
    and "heads \<noteq> []" "length heads \<le> MAX_BUNDLE_EVENTS"
  shows "projection_spec E d c limits heads (project_on E d c heads limits)"
  using project_loop_spec [OF assms(1,2) project_inv_start] assms
  by (simp add: project_on_def)

lemma projection_cases:
  assumes "store_inv E d" "project_on E d c heads limits = Inr (events, bytes)"
  shows "exact_projection E d c limits heads events bytes"
proof -
  have "validate_projection_limits limits = Inr ()" "heads \<noteq> []" "length heads \<le> MAX_BUNDLE_EVENTS"
    using assms(2) by (auto simp: project_on_def bindR_Inr_iff)
  from project_on_spec [OF assms(1) this, of c] assms(2) show ?thesis
    by (simp add: projection_spec_def)
qed

section \<open>What a projection depends on\<close>

lemma enter_event_agree:
  assumes "store_inv E d" "store_inv E d'" "lookup_event E d i = lookup_event E d' i"
  shows "enter_event E d c limits i a b bytes = enter_event E d' c limits i a b bytes"
  using assms by (simp add: enter_event_def load_verified_lookup)

lemma project_loop_agree:
  assumes "store_inv E d" "store_inv E d'"
    and "\<forall>i \<in> X. lookup_event E d i = lookup_event E d' i"
    and "\<forall>i \<in> X. set (store_parents E d i) \<subseteq> X"
    and "frame_node ` set stack \<subseteq> X"
  shows "project_loop E d c limits marks loaded stack bytes ordered =
    project_loop E d' c limits marks loaded stack bytes ordered"
  using assms
proof (induction E d c limits marks loaded stack bytes ordered rule: project_loop.induct)
  case (1 E d c limits marks loaded bytes ordered)
  then show ?case by (simp add: project_loop.simps)
next
  case (2 E d c limits marks loaded i stack bytes ordered)
  have i: "i \<in> X" using "2.prems"(5) by simp
  have rest: "frame_node ` set stack \<subseteq> X" using "2.prems"(5) by simp
  have enter: "enter_event E d c limits i (length loaded) (length ordered) bytes =
      enter_event E d' c limits i (length loaded) (length ordered) bytes"
    by (rule enter_event_agree [OF "2.prems"(1,2) bspec [OF "2.prems"(3) i]])
  consider "marks i = Some 2" | "marks i = Some 1" | "marks i \<noteq> Some 2" "marks i \<noteq> Some 1" by blast
  then show ?case
  proof cases
    case 1
    with "2.IH"(1) [OF 1 "2.prems"(1-4) rest] show ?thesis by (simp add: project_loop.simps)
  next
    case 2
    then show ?thesis by (simp add: project_loop.simps)
  next
    case 3
    show ?thesis
    proof (cases "enter_event E d c limits i (length loaded) (length ordered) bytes")
      case (Inl e)
      moreover have "enter_event E d' c limits i (length loaded) (length ordered) bytes = Inl e"
        using Inl enter by simp
      ultimately show ?thesis using 3 by (simp add: project_loop.simps)
    next
      case (Inr r)
      obtain ev nb where r: "r = (ev, nb)" by fastforce
      have "lookup_event E d i = Some ev"
        using Inr r by (auto simp: enter_event_def bindR_Inr_iff load_verified_lookup [OF "2.prems"(1)]
            split: if_splits)
      then have "set (body_parents (ev_body ev)) \<subseteq> X"
        using bspec [OF "2.prems"(4) i] by (simp add: store_parents_def event_parents_def)
      then have "frame_node ` set (map Enter (body_parents (ev_body ev)) @ Exit i # stack) \<subseteq> X"
        using rest i by auto
      then have "project_loop E d c limits (marks(i \<mapsto> 1)) ((i, ev) # loaded)
          (map Enter (body_parents (ev_body ev)) @ Exit i # stack) nb ordered =
        project_loop E d' c limits (marks(i \<mapsto> 1)) ((i, ev) # loaded)
          (map Enter (body_parents (ev_body ev)) @ Exit i # stack) nb ordered"
        by (rule "2.IH"(2) [OF 3 Inr r [symmetric] "2.prems"(1-4)])
      moreover have "enter_event E d' c limits i (length loaded) (length ordered) bytes = Inr r"
        using Inr enter by simp
      ultimately show ?thesis using 3 Inr r by (simp only: project_loop.simps if_False sum.case prod.case)
    qed
  qed
next
  case (3 E d c limits marks loaded i stack bytes ordered)
  have rest: "frame_node ` set stack \<subseteq> X" using "3.prems"(5) by simp
  show ?case
  proof (cases "marks i = Some 1")
    case True
    with "3.IH"(1) [OF True _ "3.prems"(1-4) rest] show ?thesis
      by (simp add: project_loop.simps split: option.splits del: fun_upd_apply)
  next
    case False
    with "3.IH"(2) [OF False "3.prems"(1-4) rest] show ?thesis by (simp add: project_loop.simps)
  qed
qed

text \<open>Two stores that hold the same events among the ancestors of the heads project alike.\<close>

lemma project_on_agree:
  assumes "store_inv E d" "store_inv E d'"
    and "\<forall>i \<in> ancestry E d heads. lookup_event E d i = lookup_event E d' i"
  shows "project_on E d c heads limits = project_on E d' c heads limits"
proof -
  have "project_loop E d c limits Map.empty [] (map Enter heads) 0 [] =
    project_loop E d' c limits Map.empty [] (map Enter heads) 0 []"
    using assms(3)
    by (intro project_loop_agree [OF assms(1,2), of "ancestry E d heads"])
      (auto intro: head_ancestry parent_ancestry)
  then show ?thesis by (simp add: project_on_def)
qed

lemma grown_lookup:
  assumes "store_inv E d" "db_grows d d'" "has_event d i"
  shows "lookup_event E d' i = lookup_event E d i"
proof -
  obtain ev where "lookup_event E d i = Some ev"
    using lookup_event_None [OF assms(1), of i] assms(3) by auto
  then show ?thesis using lookup_event_mono [OF assms(2)] by simp
qed

lemma project_on_grows:
  assumes "store_inv E d" "store_inv E d'" "db_grows d d'" "\<forall>h \<in> set heads. has_event d h"
  shows "project_on E d' c heads limits = project_on E d c heads limits"
  using ancestry_has_event [OF assms(1,4)] grown_lookup [OF assms(1,3)]
  by (intro project_on_agree [OF assms(1,2), symmetric]) auto

end
