(* ===== verification/Store_Bundle.thy ===== *)
theory Store_Bundle
  imports Store_Preserve Store_Dag
begin

text \<open>
  Bundle v1 of \<open>src/src/store/bundle.rs\<close>: the checked value with its strict wire form, the
  deterministic export of an ancestry difference, and the atomic import into a peer's
  namespace.
\<close>

section \<open>The bundle value\<close>

definition BUNDLE_VERSION :: nat where "BUNDLE_VERSION = 1"
definition MAX_BUNDLE_CANONICAL_BYTES :: nat where "MAX_BUNDLE_CANONICAL_BYTES = 16777216"
definition MAX_BUNDLE_REFS :: nat where "MAX_BUNDLE_REFS = 256"

datatype ref_namespace = LocalNamespace

record advertised_ref =
  ar_namespace :: ref_namespace
  ar_name :: string
  ar_head :: event_id

record bundle_limits =
  bl_max_events :: nat
  bl_max_canonical_bytes :: nat
  bl_max_refs :: nat

definition bundle_limits_new :: "nat \<Rightarrow> nat \<Rightarrow> nat \<Rightarrow> store_error + bundle_limits" where
  "bundle_limits_new max_events max_canonical_bytes max_refs =
     (if max_events = 0 \<or> max_events > MAX_BUNDLE_EVENTS \<or>
         max_canonical_bytes = 0 \<or> max_canonical_bytes > MAX_BUNDLE_CANONICAL_BYTES \<or>
         max_refs = 0 \<or> max_refs > MAX_BUNDLE_REFS
      then Inl BundleLimitExceeded
      else Inr \<lparr>bl_max_events = max_events, bl_max_canonical_bytes = max_canonical_bytes,
                bl_max_refs = max_refs\<rparr>)"

definition default_bundle_limits :: bundle_limits where
  "default_bundle_limits = \<lparr>bl_max_events = MAX_BUNDLE_EVENTS,
     bl_max_canonical_bytes = MAX_BUNDLE_CANONICAL_BYTES, bl_max_refs = MAX_BUNDLE_REFS\<rparr>"

definition validate_bundle_limits :: "bundle_limits \<Rightarrow> store_error + unit" where
  "validate_bundle_limits l =
     bindR (bundle_limits_new (bl_max_events l) (bl_max_canonical_bytes l) (bl_max_refs l))
       (\<lambda>_. Inr ())"

record bundle_v1 =
  bundle_context :: context_id
  bundle_events :: "signed_event list"
  bundle_refs :: "advertised_ref list"

text \<open>\<open>ref_key\<close> pairs the name with the constant namespace, so the name decides.\<close>

definition ref_key :: "advertised_ref \<Rightarrow> string" where
  "ref_key r = ar_name r"

definition check_bundle_event ::
  "env \<Rightarrow> context_id \<Rightarrow> event_id set \<Rightarrow> signed_event \<Rightarrow> event_id set \<Rightarrow> store_error + event_id set" where
  "check_bundle_event E context all event seen =
     bindR (map_err (\<lambda>_. BundleMalformed) (verify_event E event)) (\<lambda>_.
       if body_context (ev_body event) \<noteq> context then Inl BundleMalformed
       else if list_ex (\<lambda>parent. parent \<in> all \<and> parent \<notin> seen) (body_parents (ev_body event))
       then Inl BundleOrder
       else Inr (insert (ev_id event) seen))"

definition bundle_from_parts ::
  "env \<Rightarrow> context_id \<Rightarrow> signed_event list \<Rightarrow> advertised_ref list \<Rightarrow> store_error + bundle_v1" where
  "bundle_from_parts E context events refs =
     (if length events > MAX_BUNDLE_EVENTS \<or> length refs > MAX_BUNDLE_REFS
      then Inl BundleLimitExceeded
      else
        let all = set (map ev_id events) in
        if card all \<noteq> length events then Inl BundleOrder
        else bindR (foldR (check_bundle_event E context all) events {}) (\<lambda>_.
          if windows2_any (\<lambda>a b. ref_key b \<le> ref_key a) refs then Inl BundleOrder
          else Inr \<lparr>bundle_context = context, bundle_events = events, bundle_refs = refs\<rparr>))"

definition ref_json :: "env \<Rightarrow> advertised_ref \<Rightarrow> json" where
  "ref_json E r = JObject (obj_of
     [(''namespace'', JString ''local''), (''name'', JString (ar_name r)),
      (''head'', JString (event_id_text E (ar_head r)))])"

definition bundle_json :: "env \<Rightarrow> context_id \<Rightarrow> json list \<Rightarrow> json list \<Rightarrow> json" where
  "bundle_json E context events refs = JObject (obj_of
     [(''bundle_version'', JNumber (PosInt BUNDLE_VERSION)),
      (''context'', JString (context_id_text E context)),
      (''events'', JArray events), (''refs'', JArray refs)])"

definition bundle_event_value :: "env \<Rightarrow> signed_event \<Rightarrow> store_error + json" where
  "bundle_event_value E event =
     bindR (map_err (\<lambda>_. BundleMalformed) (to_wire E event)) (\<lambda>wire.
       map_err (\<lambda>_. BundleMalformed) (from_slice_value (json_reader E) wire))"

definition bundle_to_wire :: "env \<Rightarrow> bundle_v1 \<Rightarrow> store_error + bytes" where
  "bundle_to_wire E b =
     bindR (collectR (bundle_event_value E) (bundle_events b)) (\<lambda>events.
     bindR (map_err (\<lambda>_. BundleMalformed) (canonicalize E
       (bundle_json E (bundle_context b) events (map (ref_json E) (bundle_refs b))))) (\<lambda>wire.
       if length wire > MAX_BUNDLE_CANONICAL_BYTES then Inl BundleLimitExceeded else Inr wire))"

section \<open>Parsing\<close>

definition take_string :: "json_map \<Rightarrow> string \<Rightarrow> store_error + (string \<times> json_map)" where
  "take_string object key =
     bindR (map_err (\<lambda>_. BundleMalformed) (take_required object key)) (\<lambda>(value, object).
       case value of JString text \<Rightarrow> Inr (text, object) | _ \<Rightarrow> Inl BundleMalformed)"

definition parse_ref :: "env \<Rightarrow> json \<Rightarrow> store_error + advertised_ref" where
  "parse_ref E value =
     bindR (map_err (\<lambda>_. BundleMalformed) (into_object value)) (\<lambda>object.
       if list_ex (\<lambda>key. key \<notin> {''namespace'', ''name'', ''head''}) (obj_keys object)
       then Inl BundleMalformed
       else
         bindR (take_string object ''namespace'') (\<lambda>(namespace, object).
           if namespace \<noteq> ''local'' then Inl BundleRefInvalid
           else
             bindR (take_string object ''name'') (\<lambda>(name_text, object).
             bindR (map_err (\<lambda>_. BundleRefInvalid) (name_from_str name_text)) (\<lambda>name.
             bindR (take_string object ''head'') (\<lambda>(head_text, object).
             bindR (map_err (\<lambda>_. BundleRefInvalid) (event_id_of_text E head_text)) (\<lambda>head.
               Inr \<lparr>ar_namespace = LocalNamespace, ar_name = name, ar_head = head\<rparr>))))))"

definition parse_bundle_event :: "env \<Rightarrow> json \<Rightarrow> store_error + signed_event" where
  "parse_bundle_event E value =
     bindR (map_err (\<lambda>_. BundleMalformed) (canonicalize E value)) (\<lambda>wire.
       map_err (\<lambda>_. BundleMalformed) (from_wire E wire))"

fun as_array :: "json \<Rightarrow> store_error + json list" where
  "as_array (JArray values) = Inr values"
| "as_array _ = Inl BundleMalformed"

definition bundle_of_json :: "env \<Rightarrow> json \<Rightarrow> store_error + bundle_v1" where
  "bundle_of_json E value =
     bindR (map_err (\<lambda>_. BundleMalformed) (into_object value)) (\<lambda>object.
       if list_ex (\<lambda>key. key \<notin> {''bundle_version'', ''context'', ''events'', ''refs''}) (obj_keys object)
       then Inl BundleMalformed
       else
         bindR (map_err (\<lambda>_. BundleMalformed) (take_required object ''bundle_version'')) (\<lambda>(version, object).
           if value_as_u64 version \<noteq> Some BUNDLE_VERSION then Inl BundleUnsupportedVersion
           else
             bindR (take_string object ''context'') (\<lambda>(context_text, object).
             bindR (map_err (\<lambda>_. BundleMalformed) (context_id_of_text E context_text)) (\<lambda>context.
             bindR (map_err (\<lambda>_. BundleMalformed) (take_required object ''events'')) (\<lambda>(event_value, object).
             bindR (map_err (\<lambda>_. BundleMalformed) (take_required object ''refs'')) (\<lambda>(ref_value, object).
             bindR (as_array event_value) (\<lambda>event_values.
             bindR (as_array ref_value) (\<lambda>ref_values.
               if length event_values > MAX_BUNDLE_EVENTS \<or> length ref_values > MAX_BUNDLE_REFS
               then Inl BundleLimitExceeded
               else
                 bindR (collectR (parse_bundle_event E) event_values) (\<lambda>events.
                 bindR (collectR (parse_ref E) ref_values) (\<lambda>refs.
                 bindR (bundle_from_parts E context events refs) (\<lambda>bundle.
                 bindR (bundle_to_wire E bundle) (\<lambda>wire.
                   if length wire > MAX_BUNDLE_CANONICAL_BYTES then Inl BundleLimitExceeded
                   else Inr bundle))))))))))))"

definition bundle_from_wire :: "env \<Rightarrow> bytes \<Rightarrow> store_error + bundle_v1" where
  "bundle_from_wire E input =
     (if length input > MAX_BUNDLE_CANONICAL_BYTES then Inl BundleLimitExceeded
      else bindR (map_err (\<lambda>_. BundleMalformed) (strict_json (json_reader E) input)) (bundle_of_json E))"

section \<open>Export\<close>

definition normalize_bundle_heads :: "env \<Rightarrow> event_id list \<Rightarrow> store_error + event_id list" where
  "normalize_bundle_heads E heads =
     (if heads = [] \<or> length heads > MAX_BUNDLE_EVENTS then Inl BundleLimitExceeded
      else Inr (sort_dedup (event_id_text E) heads))"

text \<open>The identifiers the receiver is known to have: the projection of its frontier.\<close>

definition known_closure ::
  "env \<Rightarrow> db \<Rightarrow> context_id \<Rightarrow> event_id list \<Rightarrow> store_error + event_id set" where
  "known_closure E d c known =
     (if known = [] then Inr {}
      else bindR (project_on E d c known default_projection_limits) (\<lambda>(events, _).
        Inr (set (map ev_id events))))"

definition advertise_ref :: "env \<Rightarrow> db \<Rightarrow> context_id \<Rightarrow> ref_row \<Rightarrow> store_error + advertised_ref" where
  "advertise_ref E d c item =
     (if ref_context item \<noteq> c then Inl BundleRefInvalid
      else bindR (authoritative_event_context E d (ref_head item)) (\<lambda>found.
        if found \<noteq> Some c then Inl BundleRefInvalid
        else Inr \<lparr>ar_namespace = LocalNamespace, ar_name = ref_name item, ar_head = ref_head item\<rparr>))"

definition export_bundle ::
  "env \<Rightarrow> db \<Rightarrow> context_id \<Rightarrow> event_id list \<Rightarrow> event_id list \<Rightarrow> ref_row list \<Rightarrow> bundle_limits \<Rightarrow>
    store_error + bundle_v1" where
  "export_bundle E d c requested_heads known_frontier snapshot limits =
     bindR (validate_bundle_limits limits) (\<lambda>_.
     bindR (normalize_bundle_heads E requested_heads) (\<lambda>requested.
     bindR (if known_frontier = [] then Inr [] else normalize_bundle_heads E known_frontier) (\<lambda>known.
     bindR (project_on E d c requested default_projection_limits) (\<lambda>(requested_events, _).
     bindR (known_closure E d c known) (\<lambda>known_ids.
       let events = filter (\<lambda>event. ev_id event \<notin> known_ids) requested_events in
       if length events > bl_max_events limits then Inl BundleLimitExceeded
       else if length snapshot > bl_max_refs limits then Inl BundleLimitExceeded
       else
         bindR (collectR (advertise_ref E d c) snapshot) (\<lambda>refs.
         bindR (bundle_from_parts E c events (sort_key ref_key refs)) (\<lambda>bundle.
         bindR (bundle_to_wire E bundle) (\<lambda>wire.
           if length wire > bl_max_canonical_bytes limits then Inl BundleLimitExceeded
           else Inr bundle))))))))"

section \<open>Import\<close>

record import_report =
  import_inserted :: nat
  import_already_present :: nat
  import_remote_refs_updated :: nat

record import_state =
  imp_state :: int
  imp_inserted :: nat
  imp_already :: nat
  imp_db :: db

definition count_up :: "nat \<Rightarrow> store_error + nat" where
  "count_up n = ok_or (checked_add n 1) BundleLimitExceeded"

definition import_record ::
  "env \<Rightarrow> context_id \<Rightarrow> signed_event \<Rightarrow> bytes \<Rightarrow> bool \<Rightarrow> bytes option \<Rightarrow> import_state \<Rightarrow> store_error + import_state" where
  "import_record E c event event_bytes is_genesis existing s =
     (let i = ev_id event; body = ev_body event; d = imp_db s in
      case existing of
        None \<Rightarrow>
          if imp_state s = 1 \<and> is_genesis then Inl CorruptStorage
          else
            bindR (insert_event i c (body_author body) (body_kind body) event_bytes d) (\<lambda>d1.
            bindR (insert_edges i (body_parents body) d1) (\<lambda>d2.
            bindR (count_up (imp_inserted s)) (\<lambda>n.
              Inr (s\<lparr>imp_inserted := n, imp_db := d2\<rparr>))))
      | Some stored \<Rightarrow>
          if imp_state s = 0 \<and> is_genesis then Inl CorruptStorage
          else if stored = event_bytes then
            bindR (validate_stored_event E d event) (\<lambda>_.
            bindR (count_up (imp_already s)) (\<lambda>n. Inr (s\<lparr>imp_already := n\<rparr>)))
          else Inl EventCollision)"

definition import_activate :: "event_id \<Rightarrow> context_id \<Rightarrow> import_state \<Rightarrow> store_error + import_state" where
  "import_activate i c s =
     (if imp_state s = 0 then
        bindR (activate_context i c (imp_db s)) (\<lambda>(changed, d').
          if changed \<noteq> 1 then Inl GenesisMismatch
          else Inr (s\<lparr>imp_state := 1, imp_db := d'\<rparr>))
      else Inr s)"

definition import_event ::
  "env \<Rightarrow> context_id \<Rightarrow> event_id \<Rightarrow> signed_event \<Rightarrow> import_state \<Rightarrow> store_error + import_state" where
  "import_event E c expected_genesis event s =
     (let i = ev_id event; body = ev_body event; parents = body_parents body;
          is_genesis = is_genesis_event expected_genesis event; d = imp_db s in
      if imp_state s = 0 \<and> \<not> is_genesis then Inl GenesisMismatch
      else if imp_state s = 1 \<and> \<not> is_genesis \<and> (parents = [] \<or> body_kind body = ''context.genesis'')
      then Inl GenesisMismatch
      else if \<not> is_authorized d c (body_author body) then Inl UnauthorizedAuthor
      else
        bindR (check_parents E d c parents) (\<lambda>_.
        bindR (map_err Contract (to_wire E event)) (\<lambda>event_bytes.
        bindR (event_wire d i) (\<lambda>existing.
        bindR (import_record E c event event_bytes is_genesis existing s) (import_activate i c)))))"

definition import_ref ::
  "env \<Rightarrow> string \<Rightarrow> context_id \<Rightarrow> advertised_ref \<Rightarrow> nat \<times> db \<Rightarrow> store_error + (nat \<times> db)" where
  "import_ref E peer c item = (\<lambda>(updated, d).
     bindR (authoritative_event_context E d (ar_head item)) (\<lambda>found.
       if found \<noteq> Some c then Inl BundleRefInvalid
       else bindR (query_remote d peer c (ar_name item)) (\<lambda>current.
         if current \<noteq> Some (ar_head item)
         then bindR (upsert_remote peer c (ar_name item) (ar_head item) d) (\<lambda>d'.
              bindR (count_up updated) (\<lambda>n. Inr (n, d')))
         else Inr (updated, d))))"

definition import_bundle_tx ::
  "env \<Rightarrow> string \<Rightarrow> bundle_v1 \<Rightarrow> db \<Rightarrow> store_error + (import_report \<times> db)" where
  "import_bundle_tx E peer b d =
     (let c = bundle_context b in
      bindR (context_row_of d c) (\<lambda>row.
      bindR (ok_or row ContextUnknown) (\<lambda>(expected_genesis, state).
      bindR (foldR (import_event E c expected_genesis) (bundle_events b)
        \<lparr>imp_state = state, imp_inserted = 0, imp_already = 0, imp_db = d\<rparr>) (\<lambda>s.
      bindR (foldR (import_ref E peer c) (bundle_refs b) (0, imp_db s)) (\<lambda>(updated, d').
        Inr (\<lparr>import_inserted = imp_inserted s, import_already_present = imp_already s,
              import_remote_refs_updated = updated\<rparr>, d'))))))"

definition import_bundle ::
  "env \<Rightarrow> string \<Rightarrow> bytes \<Rightarrow> bundle_limits \<Rightarrow> commit_outcome \<Rightarrow> db \<Rightarrow>
    (store_error + import_report) \<times> db" where
  "import_bundle E peer wire limits oc d =
     (case bindR (validate_bundle_limits limits) (\<lambda>_.
           if length wire > bl_max_canonical_bytes limits then Inl BundleLimitExceeded
           else bindR (bundle_from_wire E wire) (\<lambda>bundle.
             if length (bundle_events bundle) > bl_max_events limits \<or>
                length (bundle_refs bundle) > bl_max_refs limits
             then Inl BundleLimitExceeded
             else bindR (bundle_to_wire E bundle) (\<lambda>canonical.
               if length canonical > bl_max_canonical_bytes limits then Inl BundleLimitExceeded
               else Inr bundle))) of
        Inl e \<Rightarrow> (Inl e, d)
      | Inr bundle \<Rightarrow> write_tx oc (import_bundle_tx E peer bundle) d)"

end
