(* ===== verification/Store_Import.thy ===== *)
theory Store_Import
  imports Store_Bundle
begin

text \<open>
  Importing a bundle keeps the integrity invariant, grows the store, leaves local refs alone
  and is idempotent: a second import of the same bundle finds everything in place.
\<close>

section \<open>Facts that survive growth\<close>

lemma event_wire_row:
  "store_inv E d \<Longrightarrow> r \<in> set (db_events d) \<Longrightarrow> event_wire d (er_id r) = Inr (Some (er_wire r))"
  using filter_key [OF inv_distinct_events] by (simp add: event_wire_def at_most_one_def)

lemma event_wire_mono:
  assumes "store_inv E d" "store_inv E d'" "db_grows d d'" "event_wire d i = Inr (Some w)"
  shows "event_wire d' i = Inr (Some w)"
proof -
  obtain ev where "lookup_event E d i = Some ev"
    using event_wire_lookup [OF assms(1), of i] assms(4) by auto
  then obtain r where r: "r \<in> set (db_events d)" "er_id r = i" by (rule lookup_eventE [OF assms(1)])
  then have "er_wire r = w" using event_wire_row [OF assms(1) r(1)] assms(4) by simp
  moreover have "r \<in> set (db_events d')"
    using assms(3) r(1) by (auto simp: db_grows_def dest: set_mono_prefix)
  ultimately show ?thesis using event_wire_row [OF assms(2), of r] r(2) by simp
qed

lemma event_guards_mono:
  assumes "store_inv E d" "store_inv E d'" "db_grows d d'" "event_guards E d x s ev"
  shows "event_guards E d' x s ev"
  using assms db_grows_stored_in [OF assms(3)]
  by (auto simp: event_guards_def is_authorized_iff check_parents_iff db_grows_def dest: set_mono_prefix)

text \<open>An event is in place: a second import would find it.\<close>

definition in_place :: "env \<Rightarrow> db \<Rightarrow> event_id \<Rightarrow> signed_event \<Rightarrow> bool" where
  "in_place E d x ev \<longleftrightarrow> event_guards E d x 1 ev \<and>
     (\<exists>w. to_wire E ev = Inr w \<and> event_wire d (ev_id ev) = Inr (Some w))"

lemma in_place_mono:
  assumes "store_inv E d" "store_inv E d'" "db_grows d d'" "in_place E d x ev"
  shows "in_place E d' x ev"
  using event_guards_mono [OF assms(1-3)] event_wire_mono [OF assms(1-3)] assms(4)
  by (auto simp: in_place_def)

lemma in_place_stored:
  assumes "env_lawful E" "store_inv E d" "event_wf ev" "in_place E d x ev"
  shows "stored_in d (ev_id ev) (event_context ev)"
proof -
  obtain w where w: "to_wire E ev = Inr w" "event_wire d (ev_id ev) = Inr (Some w)"
    using assms(4) by (auto simp: in_place_def)
  then obtain ev' where "lookup_event E d (ev_id ev) = Some ev'" "from_wire E w = Inr ev'"
    using event_wire_lookup [OF assms(2), of "ev_id ev"] by auto
  then show ?thesis
    using from_wire_to_wire [OF assms(1,3) w(1)] stored_in_iff [OF assms(2)]
    by (auto simp: event_context_def)
qed

lemma context_row_of_stored:
  assumes "store_inv E d" "store_inv E d'" "db_grows d d'"
    and "context_row_of d c = Inr (Some (x, s))" "stored_in d' i c"
  shows "context_row_of d' c = Inr (Some (x, 1))"
proof -
  obtain r where r: "r \<in> set (db_contexts d)" "ctx_id r = c" "ctx_expected r = x"
    using context_row_of_Some [OF assms(4)] by auto
  obtain r' where r': "r' \<in> set (db_contexts d')" "ctx_id r' = c" "ctx_expected r' = x"
    using db_grows_context [OF assms(3) r(1)] r(2,3) by auto
  then have row: "context_row_of d' c = Inr (Some (x, ctx_state r'))"
    using context_row_of_row [OF assms(2) r'(1)] by simp
  moreover have "ctx_state r' = 1" by (rule stored_context_active [OF assms(2) row assms(5)])
  ultimately show ?thesis by simp
qed

section \<open>One event\<close>

lemma import_activate_Inr:
  assumes "import_activate i c s = Inr s'"
  shows "activate_pending (imp_state s) i c (imp_db s) = Inr (imp_db s')"
    "imp_state s' = (if imp_state s = 0 then 1 else imp_state s)"
    "imp_inserted s' = imp_inserted s" "imp_already s' = imp_already s"
  using assms by (auto simp: import_activate_def activate_pending_def bindR_Inr_iff split: if_splits)

text \<open>What holds of the import state between two events.\<close>

definition import_inv :: "env \<Rightarrow> db \<Rightarrow> context_id \<Rightarrow> event_id \<Rightarrow> import_state \<Rightarrow> bool" where
  "import_inv E d0 c x s \<longleftrightarrow> store_inv E (imp_db s) \<and> db_grows d0 (imp_db s) \<and>
     context_row_of (imp_db s) c = Inr (Some (x, imp_state s)) \<and>
     db_local (imp_db s) = db_local d0 \<and> db_remote (imp_db s) = db_remote d0"

lemma import_event_keeps:
  assumes "env_lawful E" "event_wf ev" "event_context ev = c" "import_inv E d0 c x s"
    and "import_event E c x ev s = Inr s'"
  shows "import_inv E d0 c x s'" "db_grows (imp_db s) (imp_db s')" "in_place E (imp_db s') x ev"
    "imp_inserted s' + imp_already s' = imp_inserted s + imp_already s + 1"
proof -
  let ?d = "imp_db s" and ?i = "ev_id ev"
  have inv: "store_inv E ?d" and row: "context_row_of ?d c = Inr (Some (x, imp_state s))"
    using assms(4) by (auto simp: import_inv_def)
  have state: "imp_state s = 0 \<or> imp_state s = 1"
    by (rule context_row_of_unique [OF inv row]) blast
  obtain w existing s1 where w: "to_wire E ev = Inr w" and ex: "event_wire ?d ?i = Inr existing"
    and rec: "import_record E c ev w (is_genesis_event x ev) existing s = Inr s1"
    and act: "import_activate ?i c s1 = Inr s'"
    and guards: "event_guards E ?d x (imp_state s) ev"
    using assms(3,5) state
    by (auto simp: import_event_def Let_def bindR_Inr_iff event_guards_def event_context_def
        event_parents_def split: if_splits)
  have wire: "wire_of E ev w" using assms(2) w by (simp add: wire_of_def)
  have later: "event_guards E ?d x 1 ev"
    using guards state by (auto simp: event_guards_def is_genesis_event_def)
  have "import_inv E d0 c x s' \<and> db_grows ?d (imp_db s') \<and> in_place E (imp_db s') x ev \<and>
    imp_inserted s' + imp_already s' = imp_inserted s + imp_already s + 1"
  proof (cases existing)
    case None
    then obtain d1 d2 where
      ins: "insert_event ?i c (body_author (ev_body ev)) (body_kind (ev_body ev)) w ?d = Inr d1"
        "insert_edges ?i (event_parents ev) d1 = Inr d2"
      and s1: "s1 = s\<lparr>imp_inserted := imp_inserted s + 1, imp_db := d2\<rparr>"
      using rec by (auto simp: import_record_def Let_def bindR_Inr_iff event_parents_def count_up_def
          split: if_splits)
    let ?d' = "put_event E (new_row ev w) ?d"
    have act': "activate_pending (imp_state s) ?i c d2 = Inr (imp_db s')"
      using import_activate_Inr(1) [OF act] s1 by simp
    note new = record_new_event [OF assms(1) inv wire, of x "imp_state s", unfolded assms(3),
        OF row guards ins act']
    have inv': "store_inv E ?d'" by (rule inv_put_event [OF inv new(2)])
    have grows: "db_grows ?d ?d'" by (rule grows_put_event)
    have stored: "stored_in ?d' ?i c" using assms(3) by simp
    have "event_wire ?d' ?i = Inr (Some w)"
      using event_wire_row [OF inv', of "new_row ev w"] by (simp add: put_event_def)
    then have "in_place E ?d' x ev"
      using event_guards_mono [OF inv inv' grows later] w by (simp add: in_place_def)
    moreover have "context_row_of ?d' c = Inr (Some (x, 1))"
      by (rule context_row_of_stored [OF inv inv' grows row stored])
    moreover have "imp_state s' = 1" using import_activate_Inr(2) [OF act] s1 state by auto
    moreover have "imp_inserted s' + imp_already s' = imp_inserted s + imp_already s + 1"
      using import_activate_Inr(3,4) [OF act] s1 by simp
    ultimately show ?thesis
      using new(1) inv' grows assms(4) db_grows_trans [of d0 ?d ?d']
      by (simp add: import_inv_def) (simp add: put_event_def)
  next
    case (Some stored)
    then have "stored = w" "imp_state s \<noteq> 0" "s1 = s\<lparr>imp_already := imp_already s + 1\<rparr>"
      using rec guards
      by (auto simp: import_record_def Let_def bindR_Inr_iff count_up_def event_guards_def split: if_splits)
    moreover from this act have "s' = s1" by (simp add: import_activate_def)
    ultimately show ?thesis
      using assms(4) later w ex Some by (auto simp: import_inv_def in_place_def)
  qed
  then show "import_inv E d0 c x s'" "db_grows (imp_db s) (imp_db s')" "in_place E (imp_db s') x ev"
    "imp_inserted s' + imp_already s' = imp_inserted s + imp_already s + 1" by auto
qed

lemma import_events_keep:
  assumes "env_lawful E" "\<forall>ev \<in> set evs. event_wf ev \<and> event_context ev = c" "import_inv E d0 c x s"
    and "foldR (import_event E c x) evs s = Inr s'"
  shows "import_inv E d0 c x s' \<and> db_grows (imp_db s) (imp_db s') \<and>
    (\<forall>ev \<in> set evs. in_place E (imp_db s') x ev) \<and>
    imp_inserted s' + imp_already s' = imp_inserted s + imp_already s + length evs"
  using assms(2-4)
proof (induction evs arbitrary: s)
  case (Cons ev evs)
  then obtain s1 where s1: "import_event E c x ev s = Inr s1" "foldR (import_event E c x) evs s1 = Inr s'"
    by (auto simp: bindR_Inr_iff)
  have ev: "event_wf ev" "event_context ev = c" using Cons.prems(1) by auto
  note step = import_event_keeps [OF assms(1) ev Cons.prems(2) s1(1)]
  have rest: "import_inv E d0 c x s' \<and> db_grows (imp_db s1) (imp_db s') \<and>
      (\<forall>ev \<in> set evs. in_place E (imp_db s') x ev) \<and>
      imp_inserted s' + imp_already s' = imp_inserted s1 + imp_already s1 + length evs"
    using Cons.IH [OF _ step(1) s1(2)] Cons.prems(1) by simp
  then have "in_place E (imp_db s') x ev"
    using step(1,3) in_place_mono by (auto simp: import_inv_def)
  then show ?case using rest step(2,4) db_grows_trans by auto
qed simp

text \<open>An event in place is counted as already present and changes nothing.\<close>

lemma import_event_in_place:
  assumes "env_lawful E" "store_inv E d" "event_wf ev" "event_context ev = c" "in_place E d x ev"
    and "context_row_of d c = Inr (Some (x, 1))" "n + 1 < usize_limit"
  shows "import_event E c x ev \<lparr>imp_state = 1, imp_inserted = m, imp_already = n, imp_db = d\<rparr> =
    Inr \<lparr>imp_state = 1, imp_inserted = m, imp_already = n + 1, imp_db = d\<rparr>"
proof -
  obtain w where w: "to_wire E ev = Inr w" "event_wire d (ev_id ev) = Inr (Some w)"
    using assms(5) by (auto simp: in_place_def)
  obtain ev' where ev': "lookup_event E d (ev_id ev) = Some ev'" "from_wire E w = Inr ev'"
    using event_wire_lookup [OF assms(2), of "ev_id ev"] w(2) by auto
  have "ev' = norm_event ev" using from_wire_to_wire [OF assms(1,3) w(1)] ev'(2) by simp
  then have same: "validate_stored_event E d ev = validate_stored_event E d ev'"
    using w(1) from_wire_to_wire_eq(2) [OF assms(1,3) w(1)]
    by (simp add: validate_stored_event_def \<open>ev' = norm_event ev\<close> split: list.split)
  have "validate_stored_event E d ev = Inr ()"
    unfolding same by (rule validate_stored_lookup [OF assms(2) ev'(1)])
  then show ?thesis
    using assms(4,5,7) w
    by (auto simp: import_event_def Let_def in_place_def event_guards_def event_context_def
        event_parents_def import_record_def import_activate_def count_up_def checked_add_def)
qed

lemma import_events_in_place:
  assumes "env_lawful E" "store_inv E d" "context_row_of d c = Inr (Some (x, 1))"
    and "\<forall>ev \<in> set evs. event_wf ev \<and> event_context ev = c \<and> in_place E d x ev"
    and "n + length evs < usize_limit"
  shows "foldR (import_event E c x) evs \<lparr>imp_state = 1, imp_inserted = m, imp_already = n, imp_db = d\<rparr> =
    Inr \<lparr>imp_state = 1, imp_inserted = m, imp_already = n + length evs, imp_db = d\<rparr>"
  using assms(4,5)
proof (induction evs arbitrary: n)
  case (Cons ev evs)
  have "import_event E c x ev \<lparr>imp_state = 1, imp_inserted = m, imp_already = n, imp_db = d\<rparr> =
      Inr \<lparr>imp_state = 1, imp_inserted = m, imp_already = n + 1, imp_db = d\<rparr>"
    using Cons.prems by (intro import_event_in_place [OF assms(1,2) _ _ _ assms(3)]) auto
  then show ?case using Cons.IH [of "n + 1"] Cons.prems by simp
qed simp

section \<open>The refs\<close>

lemma query_remote_upsert:
  assumes "store_inv E d'" "upsert_remote p c n i d = Inr d'"
  shows "query_remote d' p c n = Inr (Some i)"
    "\<And>m. m \<noteq> n \<Longrightarrow> query_remote d' p c m = query_remote d p c m"
proof -
  have dist: "distinct (map (\<lambda>r. (rem_peer r, rem_context r, rem_name r)) (db_remote d'))"
    using assms(1) by (simp add: store_inv_def inv_keys_def)
  have key: "remote_key p c m = (\<lambda>r. (rem_peer r, rem_context r, rem_name r) = (p, c, m))" for m
    by (auto simp: remote_key_def fun_eq_iff)
  have "\<exists>r \<in> set (db_remote d'). (rem_peer r, rem_context r, rem_name r) = (p, c, n) \<and> rem_head r = i"
  proof (cases "list_ex (remote_key p c n) (db_remote d)")
    case True
    then obtain r where r: "r \<in> set (db_remote d)" "remote_key p c n r" by (auto simp: list_ex_iff)
    have "db_remote d' = map (\<lambda>r. if remote_key p c n r then r\<lparr>rem_head := i\<rparr> else r) (db_remote d)"
      using assms(2) True by (auto simp: upsert_remote_def split: if_splits)
    with r show ?thesis by (intro bexI [of _ "r\<lparr>rem_head := i\<rparr>"]) (auto simp: remote_key_def image_iff)
  next
    case False
    then have "db_remote d' = db_remote d @
        [\<lparr>rem_peer = p, rem_context = c, rem_name = n, rem_head = i\<rparr>]"
      using assms(2) by (auto simp: upsert_remote_def split: if_splits)
    then show ?thesis by simp
  qed
  then obtain r where r: "r \<in> set (db_remote d')" "(rem_peer r, rem_context r, rem_name r) = (p, c, n)"
      "rem_head r = i" by blast
  show "query_remote d' p c n = Inr (Some i)"
    using filter_key_eq [OF dist r(1,2)] r(3) by (simp add: query_remote_def key at_most_one_def)
  fix m assume "m \<noteq> n"
  then have "map rem_head (filter (remote_key p c m) (db_remote d')) =
      map rem_head (filter (remote_key p c m) (db_remote d))"
    using assms(2)
  proof (elim upsert_remote_cases)
    assume "insert_remote p c n i d = Inr d'" "m \<noteq> n"
    then show ?thesis by (auto simp: insert_remote_def remote_key_def split: if_splits)
  next
    assume d': "d' = d\<lparr>db_remote := map (move_remote p c n i) (db_remote d)\<rparr>" and "m \<noteq> n"
    have "filter (remote_key p c m) (map (move_remote p c n i) rs) = filter (remote_key p c m) rs" for rs
      using \<open>m \<noteq> n\<close> by (induction rs) (auto simp: remote_key_def move_remote_def)
    then show ?thesis by (simp add: d')
  qed
  then show "query_remote d' p c m = query_remote d p c m" by (simp add: query_remote_def)
qed

lemma import_ref_keeps:
  assumes "store_inv E d" "ref_name_wf peer" "ref_name_wf (ar_name item)"
    and "import_ref E peer c item (n, d) = Inr (n', d')"
  shows "store_inv E d'" "db_grows d d'" "db_local d' = db_local d"
    "stored_in d' (ar_head item) c" "query_remote d' peer c (ar_name item) = Inr (Some (ar_head item))"
    "\<And>m. m \<noteq> ar_name item \<Longrightarrow> query_remote d' peer c m = query_remote d peer c m"
proof -
  have stored: "stored_in d (ar_head item) c"
    using assms(4) by (auto simp: import_ref_def bindR_Inr_iff authoritative_lookup [OF assms(1)]
        stored_in_iff [OF assms(1)] split: if_splits)
  have cases: "d' = d \<and> query_remote d peer c (ar_name item) = Inr (Some (ar_head item)) \<or>
    upsert_remote peer c (ar_name item) (ar_head item) d = Inr d'"
    using assms(4) by (auto simp: import_ref_def bindR_Inr_iff split: if_splits)
  then show inv: "store_inv E d'" and grows: "db_grows d d'"
    using assms(1) upsert_remote_keeps [OF assms(1) _ stored assms(2,3)] by auto
  show "stored_in d' (ar_head item) c" by (rule db_grows_stored_in [OF grows stored])
  show "db_local d' = db_local d"
    using cases upsert_remote_local by blast
  show "query_remote d' peer c (ar_name item) = Inr (Some (ar_head item))"
    "\<And>m. m \<noteq> ar_name item \<Longrightarrow> query_remote d' peer c m = query_remote d peer c m"
    using cases query_remote_upsert [OF inv] by auto
qed

lemma import_refs_keep:
  assumes "store_inv E d" "ref_name_wf peer" "\<forall>r \<in> set refs. ref_name_wf (ar_name r)"
    and "distinct (map ar_name refs)" "foldR (import_ref E peer c) refs (n, d) = Inr (n', d')"
  shows "store_inv E d' \<and> db_grows d d' \<and> db_local d' = db_local d \<and>
    (\<forall>r \<in> set refs. stored_in d' (ar_head r) c \<and>
       query_remote d' peer c (ar_name r) = Inr (Some (ar_head r))) \<and>
    (\<forall>m. m \<notin> ar_name ` set refs \<longrightarrow> query_remote d' peer c m = query_remote d peer c m)"
  using assms
proof (induction refs arbitrary: n d)
  case (Cons item refs)
  then obtain n1 d1 where one: "import_ref E peer c item (n, d) = Inr (n1, d1)"
      "foldR (import_ref E peer c) refs (n1, d1) = Inr (n', d')"
    by (auto simp: bindR_Inr_iff)
  have names: "ref_name_wf (ar_name item)" using Cons.prems(3) by simp
  note step = import_ref_keeps [OF Cons.prems(1,2) names one(1)]
  have rest: "store_inv E d' \<and> db_grows d1 d' \<and> db_local d' = db_local d1 \<and>
    (\<forall>r \<in> set refs. stored_in d' (ar_head r) c \<and>
       query_remote d' peer c (ar_name r) = Inr (Some (ar_head r))) \<and>
    (\<forall>m. m \<notin> ar_name ` set refs \<longrightarrow> query_remote d' peer c m = query_remote d1 peer c m)"
    using Cons.IH [OF step(1) Cons.prems(2) _ _ one(2)] Cons.prems(3,4) by simp
  have "db_grows d d'" using rest step(2) db_grows_trans by blast
  moreover have "stored_in d' (ar_head item) c" using rest step(4) db_grows_stored_in by blast
  moreover have "query_remote d' peer c (ar_name item) = Inr (Some (ar_head item))"
    using rest step(5) Cons.prems(4) by simp
  moreover have "db_local d' = db_local d" using rest step(3) by simp
  moreover have "\<forall>m. m \<notin> ar_name ` set (item # refs) \<longrightarrow>
      query_remote d' peer c m = query_remote d peer c m"
    using rest step(6) by simp
  ultimately show ?case using rest by simp
qed simp

lemma import_refs_in_place:
  assumes "store_inv E d"
    and "\<forall>r \<in> set refs. stored_in d (ar_head r) c \<and>
       query_remote d peer c (ar_name r) = Inr (Some (ar_head r))"
  shows "foldR (import_ref E peer c) refs (n, d) = Inr (n, d)"
  using assms(2)
proof (induction refs)
  case (Cons r refs)
  then have "import_ref E peer c r (n, d) = Inr (n, d)"
    using stored_in_iff [OF assms(1)] by (auto simp: import_ref_def authoritative_lookup [OF assms(1)])
  with Cons show ?case by simp
qed simp

section \<open>The whole bundle\<close>

definition bundle_wf :: "bundle_v1 \<Rightarrow> bool" where
  "bundle_wf b \<longleftrightarrow> (\<forall>ev \<in> set (bundle_events b). event_wf ev \<and> event_context ev = bundle_context b) \<and>
     context_id_wf (bundle_context b) \<and>
     (\<forall>r \<in> set (bundle_refs b). ref_name_wf (ar_name r) \<and> event_id_wf (ar_head r)) \<and> distinct (map ar_name (bundle_refs b)) \<and>
     length (bundle_events b) \<le> MAX_BUNDLE_EVENTS"

lemma import_bundle_tx_Inr:
  assumes "env_lawful E" "store_inv E d" "ref_name_wf peer" "bundle_wf b"
    and "import_bundle_tx E peer b d = Inr (rep, d')"
  obtains x where "store_inv E d'" "db_grows d d'" "db_local d' = db_local d"
    "\<exists>s. context_row_of d (bundle_context b) = Inr (Some (x, s))"
    "\<forall>ev \<in> set (bundle_events b). in_place E d' x ev"
    "\<forall>r \<in> set (bundle_refs b). stored_in d' (ar_head r) (bundle_context b) \<and>
       query_remote d' peer (bundle_context b) (ar_name r) = Inr (Some (ar_head r))"
    "import_inserted rep + import_already_present rep = length (bundle_events b)"
    "\<And>s. context_row_of d (bundle_context b) = Inr (Some (x, s)) \<Longrightarrow> s = 1 \<or> bundle_events b \<noteq> [] \<Longrightarrow>
       context_row_of d' (bundle_context b) = Inr (Some (x, 1))"
proof -
  let ?c = "bundle_context b"
  obtain x state s updated where row: "context_row_of d ?c = Inr (Some (x, state))"
    and evs: "foldR (import_event E ?c x) (bundle_events b)
        \<lparr>imp_state = state, imp_inserted = 0, imp_already = 0, imp_db = d\<rparr> = Inr s"
    and refs: "foldR (import_ref E peer ?c) (bundle_refs b) (0, imp_db s) = Inr (updated, d')"
    and rep: "rep = \<lparr>import_inserted = imp_inserted s, import_already_present = imp_already s,
        import_remote_refs_updated = updated\<rparr>"
    using assms(5) by (auto simp: import_bundle_tx_def Let_def bindR_Inr_iff)
  have start: "import_inv E d ?c x \<lparr>imp_state = state, imp_inserted = 0, imp_already = 0, imp_db = d\<rparr>"
    using assms(2) row by (simp add: import_inv_def)
  have wf: "\<forall>ev \<in> set (bundle_events b). event_wf ev \<and> event_context ev = ?c"
    and names: "\<forall>r \<in> set (bundle_refs b). ref_name_wf (ar_name r)" "distinct (map ar_name (bundle_refs b))"
    using assms(4) by (auto simp: bundle_wf_def)
  from import_events_keep [OF assms(1) wf start evs]
  have s: "import_inv E d ?c x s" "\<forall>ev \<in> set (bundle_events b). in_place E (imp_db s) x ev"
      "imp_inserted s + imp_already s = length (bundle_events b)" by simp_all
  have inv1: "store_inv E (imp_db s)" "db_grows d (imp_db s)" "db_local (imp_db s) = db_local d"
    using s(1) by (auto simp: import_inv_def)
  from import_refs_keep [OF inv1(1) assms(3) names refs]
  have d': "store_inv E d'" "db_grows (imp_db s) d'" "db_local d' = db_local (imp_db s)"
    "\<forall>r \<in> set (bundle_refs b). stored_in d' (ar_head r) ?c \<and>
       query_remote d' peer ?c (ar_name r) = Inr (Some (ar_head r))" by blast+
  have grows: "db_grows d d'" using inv1(2) d'(2) db_grows_trans by blast
  have place: "\<forall>ev \<in> set (bundle_events b). in_place E d' x ev"
    using s(2) in_place_mono [OF inv1(1) d'(1,2)] by blast
  have active: "context_row_of d' ?c = Inr (Some (x, 1))"
    if pre: "context_row_of d ?c = Inr (Some (x, t))" "t = 1 \<or> bundle_events b \<noteq> []" for t
  proof -
    have "\<exists>i. stored_in d' i ?c"
    proof (cases "bundle_events b = []")
      case True
      then obtain r where "r \<in> set (db_contexts d)" "ctx_id r = ?c" "ctx_state r = 1"
        using context_row_of_Some [OF pre(1)] pre(2) by auto
      then have "\<exists>i. stored_in d i ?c"
        using assms(2) by (fastforce simp: store_inv_def inv_contexts_def context_ok_def genesis_row_def
            stored_in_def)
      then show ?thesis using db_grows_stored_in [OF grows] by blast
    next
      case False
      then have "hd (bundle_events b) \<in> set (bundle_events b)" by simp
      then show ?thesis using in_place_stored [OF assms(1) d'(1)] place wf by metis
    qed
    then show ?thesis using context_row_of_stored [OF assms(2) d'(1) grows pre(1)] by blast
  qed
  show thesis
    by (rule that [OF d'(1) grows _ _ place d'(4) _ active]) (use d'(3) inv1(3) row s(3) rep in auto)
qed

interpretation import: store_transaction "\<lambda>E (peer, b). ref_name_wf peer \<and> bundle_wf b"
  "\<lambda>E (peer, b). import_bundle_tx E peer b"
proof
  fix E and p :: "string \<times> bundle_v1" and d v d'
  assume "env_lawful E" "case p of (peer, b) \<Rightarrow> ref_name_wf peer \<and> bundle_wf b" "store_inv E d"
    and tx: "(case p of (peer, b) \<Rightarrow> import_bundle_tx E peer b) d = Inr (v, d')"
  then show "store_inv E d' \<and> db_grows d d'"
    by (auto split: prod.splits elim!: import_bundle_tx_Inr)
qed

lemma import_bundle_tx_idempotent:
  assumes "env_lawful E" "store_inv E d" "ref_name_wf peer" "bundle_wf b"
    and "import_bundle_tx E peer b d = Inr (rep, d')"
  shows "import_bundle_tx E peer b d' =
    Inr (\<lparr>import_inserted = 0, import_already_present = length (bundle_events b),
          import_remote_refs_updated = 0\<rparr>, d')"
proof -
  let ?c = "bundle_context b"
  obtain x where d': "store_inv E d'" "db_grows d d'"
    "\<exists>s. context_row_of d ?c = Inr (Some (x, s))"
    "\<forall>ev \<in> set (bundle_events b). in_place E d' x ev"
    "\<forall>r \<in> set (bundle_refs b). stored_in d' (ar_head r) ?c \<and>
       query_remote d' peer ?c (ar_name r) = Inr (Some (ar_head r))"
    "\<And>s. context_row_of d ?c = Inr (Some (x, s)) \<Longrightarrow> s = 1 \<or> bundle_events b \<noteq> [] \<Longrightarrow>
       context_row_of d' ?c = Inr (Some (x, 1))"
    by (rule import_bundle_tx_Inr [OF assms]) blast
  obtain s where s: "context_row_of d ?c = Inr (Some (x, s))" using d'(3) by blast
  have refs: "foldR (import_ref E peer ?c) (bundle_refs b) (0, d') = Inr (0, d')"
    by (rule import_refs_in_place [OF d'(1,5)])
  show ?thesis
  proof (cases "s = 1 \<or> bundle_events b \<noteq> []")
    case True
    have row: "context_row_of d' ?c = Inr (Some (x, 1))" by (rule d'(6) [OF s True])
    have evs: "foldR (import_event E ?c x) (bundle_events b)
        \<lparr>imp_state = 1, imp_inserted = 0, imp_already = 0, imp_db = d'\<rparr> =
      Inr \<lparr>imp_state = 1, imp_inserted = 0, imp_already = 0 + length (bundle_events b), imp_db = d'\<rparr>"
      using d'(4) assms(4)
      by (intro import_events_in_place [OF assms(1) d'(1) row])
        (auto simp: bundle_wf_def MAX_BUNDLE_EVENTS_def usize_limit_def)
    from row evs refs show ?thesis by (simp add: import_bundle_tx_def Let_def)
  next
    case False
    obtain r where r: "r \<in> set (db_contexts d')" "ctx_id r = ?c"
      using context_row_of_Some [OF s] db_grows_context [OF d'(2)] by metis
    with context_row_of_row [OF d'(1) r(1)] False refs show ?thesis
      by (simp add: import_bundle_tx_def Let_def)
  qed
qed

end
