(* ===== verification/Bundle_Wire.thy ===== *)
theory Bundle_Wire
  imports Store_Import
begin

text \<open>
  What a checked bundle guarantees, the round trip of its wire form, and what the export of an
  ancestry difference contains.
\<close>

section \<open>Checked parts\<close>

lemma check_bundle_events_Inr:
  "foldR (check_bundle_event E c all) evs seen = Inr seen' \<Longrightarrow>
    seen' = seen \<union> ev_id ` set evs \<and>
    (\<forall>ev \<in> set evs. verify_event E ev = Inr () \<and> event_context ev = c) \<and>
    (\<forall>xs ev ys. evs = xs @ ev # ys \<longrightarrow>
       set (event_parents ev) \<inter> all \<subseteq> seen \<union> ev_id ` set xs)"
proof (induction evs arbitrary: seen)
  case (Cons e evs)
  then obtain seen1 where one: "check_bundle_event E c all e seen = Inr seen1"
      "foldR (check_bundle_event E c all) evs seen1 = Inr seen'"
    by (auto simp: bindR_Inr_iff)
  from one(1) have e: "seen1 = insert (ev_id e) seen" "verify_event E e = Inr ()" "event_context e = c"
      "set (event_parents e) \<inter> all \<subseteq> seen"
    by (auto simp: check_bundle_event_def bindR_Inr_iff list_ex_iff event_context_def event_parents_def
        split: if_splits)
  note rest = Cons.IH [OF one(2)]
  show ?case
  proof (intro conjI)
    show "seen' = seen \<union> ev_id ` set (e # evs)" using rest e(1) by auto
    show "\<forall>ev \<in> set (e # evs). verify_event E ev = Inr () \<and> event_context ev = c" using rest e by auto
    show "\<forall>xs ev ys. e # evs = xs @ ev # ys \<longrightarrow>
       set (event_parents ev) \<inter> all \<subseteq> seen \<union> ev_id ` set xs"
    proof (intro allI impI)
      fix xs ev ys assume split: "e # evs = xs @ ev # ys"
      show "set (event_parents ev) \<inter> all \<subseteq> seen \<union> ev_id ` set xs"
      proof (cases xs)
        case Nil
        with split e(4) show ?thesis by auto
      next
        case (Cons x xs')
        with split have "evs = xs' @ ev # ys" "x = e" by auto
        with rest have "set (event_parents ev) \<inter> all \<subseteq> seen1 \<union> ev_id ` set xs'" by blast
        with Cons \<open>x = e\<close> e(1) show ?thesis by auto
      qed
    qed
  qed
qed simp

lemma check_bundle_events_ok:
  assumes "\<forall>ev \<in> set evs. verify_event E ev = Inr () \<and> event_context ev = c"
    and "\<forall>xs ev ys. evs = xs @ ev # ys \<longrightarrow> set (event_parents ev) \<inter> all \<subseteq> seen \<union> ev_id ` set xs"
  shows "foldR (check_bundle_event E c all) evs seen = Inr (seen \<union> ev_id ` set evs)"
  using assms
proof (induction evs arbitrary: seen)
  case (Cons e evs)
  have "set (event_parents e) \<inter> all \<subseteq> seen"
    using spec [OF spec [OF spec [OF Cons.prems(2), of "[]"], of e], of evs] by simp
  then have "check_bundle_event E c all e seen = Inr (insert (ev_id e) seen)"
    using Cons.prems(1)
    by (auto simp: check_bundle_event_def list_ex_iff event_context_def event_parents_def)
  moreover have "\<forall>xs ev ys. evs = xs @ ev # ys \<longrightarrow>
      set (event_parents ev) \<inter> all \<subseteq> insert (ev_id e) seen \<union> ev_id ` set xs"
  proof (intro allI impI)
    fix xs ev ys assume "evs = xs @ ev # ys"
    then have "e # evs = (e # xs) @ ev # ys" by simp
    with Cons.prems(2) have "set (event_parents ev) \<inter> all \<subseteq> seen \<union> ev_id ` set (e # xs)" by blast
    then show "set (event_parents ev) \<inter> all \<subseteq> insert (ev_id e) seen \<union> ev_id ` set xs" by auto
  qed
  ultimately show ?case
    using Cons.IH [of "insert (ev_id e) seen"] Cons.prems(1) by simp
qed simp

text \<open>No event of a list precedes a parent of its own that the list contains.\<close>

definition parents_in_order :: "signed_event list \<Rightarrow> bool" where
  "parents_in_order evs \<longleftrightarrow> (\<forall>xs ev ys. evs = xs @ ev # ys \<longrightarrow>
     set (event_parents ev) \<inter> ev_id ` set evs \<subseteq> ev_id ` set xs)"

definition bundle_ok :: "env \<Rightarrow> bundle_v1 \<Rightarrow> bool" where
  "bundle_ok E b \<longleftrightarrow>
     length (bundle_events b) \<le> MAX_BUNDLE_EVENTS \<and> length (bundle_refs b) \<le> MAX_BUNDLE_REFS \<and>
     distinct (map ev_id (bundle_events b)) \<and>
     (\<forall>ev \<in> set (bundle_events b).
        verify_event E ev = Inr () \<and> event_context ev = bundle_context b) \<and>
     parents_in_order (bundle_events b) \<and> strictly_sorted ar_name (bundle_refs b)"

lemma bundle_from_parts_iff:
  "bundle_from_parts E c evs refs = Inr b \<longleftrightarrow>
    b = \<lparr>bundle_context = c, bundle_events = evs, bundle_refs = refs\<rparr> \<and> bundle_ok E b"
proof -
  have dist: "card (ev_id ` set evs) = length evs \<longleftrightarrow> distinct (map ev_id evs)"
    using card_distinct [of "map ev_id evs"] distinct_card [of "map ev_id evs"] by auto
  have refs: "\<not> windows2_any (\<lambda>a b. ref_key b \<le> ref_key a) refs \<longleftrightarrow> strictly_sorted ar_name refs"
    using windows2_any_ge_iff [of ref_key refs] by (simp add: ref_key_def [abs_def])
  have events: "(\<exists>s. foldR (check_bundle_event E c (ev_id ` set evs)) evs {} = Inr s) \<longleftrightarrow>
      (\<forall>ev \<in> set evs. verify_event E ev = Inr () \<and> event_context ev = c) \<and> parents_in_order evs"
  proof
    assume "\<exists>s. foldR (check_bundle_event E c (ev_id ` set evs)) evs {} = Inr s"
    then obtain s where "foldR (check_bundle_event E c (ev_id ` set evs)) evs {} = Inr s" by blast
    from check_bundle_events_Inr [OF this]
    show "(\<forall>ev \<in> set evs. verify_event E ev = Inr () \<and> event_context ev = c) \<and> parents_in_order evs"
      unfolding parents_in_order_def Un_empty_left by (elim conjE) (intro conjI)
  next
    assume "(\<forall>ev \<in> set evs. verify_event E ev = Inr () \<and> event_context ev = c) \<and> parents_in_order evs"
    then show "\<exists>s. foldR (check_bundle_event E c (ev_id ` set evs)) evs {} = Inr s"
      using check_bundle_events_ok [of evs E c "ev_id ` set evs" "{}"]
      unfolding parents_in_order_def Un_empty_left by (elim conjE) (rule exI)
  qed
  let ?b = "\<lparr>bundle_context = c, bundle_events = evs, bundle_refs = refs\<rparr>"
  have "bundle_from_parts E c evs refs = Inr b \<longleftrightarrow>
      length evs \<le> MAX_BUNDLE_EVENTS \<and> length refs \<le> MAX_BUNDLE_REFS \<and>
      card (ev_id ` set evs) = length evs \<and>
      (\<exists>s. foldR (check_bundle_event E c (ev_id ` set evs)) evs {} = Inr s) \<and>
      \<not> windows2_any (\<lambda>a b. ref_key b \<le> ref_key a) refs \<and> ?b = b"
    unfolding bundle_from_parts_def Let_def set_map
    by (cases "foldR (check_bundle_event E c (ev_id ` set evs)) evs {}")
      (simp_all only: not_less de_Morgan_disj if_Inl_eq_Inr bindR_simps sum.inject sum.distinct
        simp_thms not_not conj_assoc)
  then show ?thesis unfolding dist refs events by (auto simp: bundle_ok_def)
qed

section \<open>The wire form\<close>

definition norm_bundle :: "bundle_v1 \<Rightarrow> bundle_v1" where
  "norm_bundle b = b\<lparr>bundle_events := map norm_event (bundle_events b)\<rparr>"

lemma norm_event_idem [simp]: "norm_event (norm_event ev) = norm_event ev"
  by (simp add: norm_event_def norm_body_def)

lemma norm_event_facts [simp]:
  "event_context (norm_event ev) = event_context ev" "event_parents (norm_event ev) = event_parents ev"
  by (simp_all add: event_context_def event_parents_def)

lemma event_wf_norm: "event_wf ev \<Longrightarrow> event_wf (norm_event ev)"
  by (simp add: event_wf_def body_wf_norm)

lemma bundle_ok_norm:
  assumes "env_lawful E" "bundle_wf b" "bundle_ok E b"
  shows "bundle_ok E (norm_bundle b)"
proof -
  have "parents_in_order (map norm_event (bundle_events b))"
    unfolding parents_in_order_def
  proof (intro allI impI)
    fix xs ev ys assume split: "map norm_event (bundle_events b) = xs @ ev # ys"
    then obtain xs' ev' ys' where parts: "bundle_events b = xs' @ ev' # ys'" "xs = map norm_event xs'"
        "ev = norm_event ev'" "ys = map norm_event ys'"
      by (auto simp: map_eq_append_conv map_eq_Cons_conv)
    then have "set (event_parents ev') \<inter> ev_id ` set (bundle_events b) \<subseteq> ev_id ` set xs'"
      using assms(3) unfolding bundle_ok_def parents_in_order_def by blast
    then show "set (event_parents ev) \<inter> ev_id ` set (map norm_event (bundle_events b)) \<subseteq> ev_id ` set xs"
      by (simp add: parts image_image image_Un)
  qed
  then show ?thesis
    using assms verify_norm_event [OF env_lawfulD(4) [OF assms(1)]]
    by (auto simp: bundle_ok_def norm_bundle_def bundle_wf_def comp_def)
qed

lemma bundle_event_value_lawful:
  assumes "env_lawful E" "event_wf ev" "verify_event E ev = Inr ()"
  shows "bundle_event_value E ev = Inr (event_json E (norm_event ev))"
proof -
  obtain w where w: "canonicalize E (event_json E ev) = Inr w"
      "from_slice_value (json_reader E) w = Inr (event_json E (norm_event ev))"
    by (rule event_json_renders [OF env_lawfulD(4) [OF assms(1)] assms(2,3)])
  then have "to_wire E ev = Inr w" using assms(3) by (simp add: to_wire_Inr_iff)
  with w(2) show ?thesis by (simp add: bundle_event_value_def)
qed

lemma parse_bundle_event_lawful:
  assumes "env_lawful E" "event_wf ev" "verify_event E ev = Inr ()"
  shows "parse_bundle_event E (event_json E (norm_event ev)) = Inr (norm_event ev)"
proof -
  obtain w where w: "canonicalize E (event_json E ev) = Inr w"
      "canonicalize E (event_json E (norm_event ev)) = Inr w"
    by (rule event_json_renders [OF env_lawfulD(4) [OF assms(1)] assms(2,3)])
  then have "to_wire E ev = Inr w" using assms(3) by (simp add: to_wire_Inr_iff)
  with from_wire_to_wire [OF assms(1,2) this] w(2) show ?thesis by (simp add: parse_bundle_event_def)
qed

lemma take_string_Inr_iff:
  "take_string ob k = Inr (t, ob') \<longleftrightarrow> obj_get ob k = Some (JString t) \<and> ob' = obj_remove k ob"
proof (cases "obj_get ob k")
  case (Some v)
  then show ?thesis
    by (cases v) (auto simp: take_string_def take_required_present)
qed (simp add: take_string_def take_required_def)

lemma take_string_present: "obj_get ob k = Some (JString t) \<Longrightarrow> take_string ob k = Inr (t, obj_remove k ob)"
  by (simp add: take_string_Inr_iff)

lemma unknown_keys_obj_of:
  "list_ex (\<lambda>k. k \<notin> K) (obj_keys (obj_of es)) \<longleftrightarrow> \<not> fst ` set es \<subseteq> K"
  using obj_of_keys [of es] by (auto simp: list_ex_iff obj_keys_def image_iff)

lemma parse_ref_json:
  assumes "base64_lawful E" "ref_name_wf (ar_name r)" "event_id_wf (ar_head r)"
  shows "parse_ref E (ref_json E r) = Inr r"
proof -
  define es where "es = [(''namespace'', JString ''local''), (''name'', JString (ar_name r)),
      (''head'', JString (event_id_text E (ar_head r)))]"
  have get: "obj_get (obj_of es) k = map_of es k" for k
    by (rule obj_get_obj_of) (simp add: es_def)
  have known: "\<not> list_ex (\<lambda>k. k \<notin> {''namespace'', ''name'', ''head''}) (obj_keys (obj_of es))"
    unfolding unknown_keys_obj_of by (simp add: es_def)
  have r: "ref_json E r = JObject (obj_of es)" by (simp add: ref_json_def es_def)
  have "ar_namespace r = LocalNamespace" by (rule ref_namespace.exhaust)
  then have same: "\<lparr>ar_namespace = LocalNamespace, ar_name = ar_name r, ar_head = ar_head r\<rparr> = r" by simp
  have fields: "obj_get (obj_of es) ''namespace'' = Some (JString ''local'')"
    "obj_get (obj_of es) ''name'' = Some (JString (ar_name r))"
    "obj_get (obj_of es) ''head'' = Some (JString (event_id_text E (ar_head r)))"
    by (simp_all add: get) (simp_all add: es_def)
  have name: "name_from_str (ar_name r) = Inr (ar_name r)" using assms(2) by simp
  show ?thesis
    unfolding r parse_ref_def into_object.simps map_err_simps bindR_simps using known fields assms
    by (simp add: take_string_present event_id.of_to_text same name)
qed

lemma bundle_json_facts:
  fixes c :: context_id and refs :: "advertised_ref list"
  assumes "env_lawful E" "\<forall>ev \<in> set evs. event_wf ev \<and> verify_event E ev = Inr ()"
  defines "v \<equiv> bundle_json E c (map (\<lambda>ev. event_json E (norm_event ev)) evs) (map (ref_json E) refs)"
  shows "json_wf v" "numbers_safe v" "json_depth v \<le> 127" "json_norm v = v" "json_depth v \<le> 68"
proof -
  have jcs: "jcs_lawful E" using assms(1) by (rule env_lawfulD)
  have ev: "json_wf (event_json E (norm_event ev)) \<and> numbers_safe (event_json E (norm_event ev)) \<and>
      json_depth (event_json E (norm_event ev)) \<le> 66" if "ev \<in> set evs" for ev
  proof -
    have "event_wf (norm_event ev)" "verify_event E (norm_event ev) = Inr ()"
      using that assms(2) verify_norm_event [OF jcs] by (auto simp: event_wf_norm)
    then show ?thesis by (metis event_json_renders [OF jcs])
  qed
  have ref: "json_wf (ref_json E r)" "numbers_safe (ref_json E r)" "json_depth (ref_json E r) \<le> Suc 1"
      "json_norm (ref_json E r) = ref_json E r" for r
    unfolding ref_json_def
    by (rule json_wf_obj_of, simp, rule numbers_safe_obj_of, simp, rule json_depth_obj_of, simp,
        simp)
  show "json_wf v" unfolding v_def bundle_json_def
    by (rule json_wf_obj_of) (use ev ref in \<open>auto simp: BUNDLE_VERSION_def\<close>)
  show "numbers_safe v" unfolding v_def bundle_json_def
    by (rule numbers_safe_obj_of) (use ev ref in \<open>auto simp: BUNDLE_VERSION_def MAX_SAFE_INTEGER_def\<close>)
  have "json_depth v \<le> Suc 67" unfolding v_def bundle_json_def
    by (rule json_depth_obj_of)
      (use ev order_trans [OF ref(3), of 66] in \<open>auto simp: foldr_max_le_iff\<close>)
  then show "json_depth v \<le> 68" "json_depth v \<le> 127" by simp_all
  show "json_norm v = v" unfolding v_def bundle_json_def
    using ref by (simp add: event_json_norm comp_def)
qed

lemma bundle_round_trip_aux:
  assumes "env_lawful E" "bundle_wf b" "bundle_ok E b" "bundle_to_wire E b = Inr w"
  shows "bundle_from_wire E w = Inr (norm_bundle b)" "bundle_to_wire E (norm_bundle b) = Inr w"
proof -
  have evs: "\<forall>ev \<in> set (bundle_events b). event_wf ev \<and> verify_event E ev = Inr ()"
    using assms(2,3) by (auto simp: bundle_wf_def bundle_ok_def)
  let ?vals = "map (\<lambda>ev. event_json E (norm_event ev)) (bundle_events b)"
  let ?v = "bundle_json E (bundle_context b) ?vals (map (ref_json E) (bundle_refs b))"
  have vals: "collectR (bundle_event_value E) (bundle_events b) = Inr ?vals"
    using evs bundle_event_value_lawful [OF assms(1)]
      collectR_map_Inr [of "bundle_events b" "bundle_event_value E" "\<lambda>ev. ev"]
    by simp
  have w: "canonicalize E ?v = Inr w" "length w \<le> MAX_BUNDLE_CANONICAL_BYTES"
    using assms(4) unfolding bundle_to_wire_def vals by (auto simp: bindR_Inr_iff split: if_splits)
  have "collectR (bundle_event_value E) (map norm_event (bundle_events b)) = Inr ?vals"
    using evs bundle_event_value_lawful [OF assms(1)] verify_norm_event [OF env_lawfulD(4) [OF assms(1)]]
    by (intro collectR_map_Inr) (simp add: event_wf_norm)
  then show again: "bundle_to_wire E (norm_bundle b) = Inr w"
    using w by (simp add: bundle_to_wire_def norm_bundle_def)
  note facts = bundle_json_facts [OF assms(1) evs, of "bundle_context b" "bundle_refs b"]
  obtain w' where w': "canonicalize E ?v = Inr w'" "strict_json (json_reader E) w' = Inr (json_norm ?v)"
    by (rule strict_json_canonicalize [OF env_lawfulD(4) [OF assms(1)] facts(1-3)])
  have read: "strict_json (json_reader E) w = Inr ?v" using w(1) w' facts(4) by simp
  define es where "es = [(''bundle_version'', JNumber (PosInt BUNDLE_VERSION)),
      (''context'', JString (context_id_text E (bundle_context b))),
      (''events'', JArray ?vals), (''refs'', JArray (map (ref_json E) (bundle_refs b)))]"
  have v: "?v = JObject (obj_of es)" by (simp add: bundle_json_def es_def)
  have get: "obj_get (obj_of es) k = map_of es k" for k
    by (rule obj_get_obj_of) (simp add: es_def)
  have known: "\<not> list_ex (\<lambda>k. k \<notin> {''bundle_version'', ''context'', ''events'', ''refs''}) (obj_keys (obj_of es))"
    unfolding unknown_keys_obj_of by (simp add: es_def)
  have fields: "obj_get (obj_of es) ''bundle_version'' = Some (JNumber (PosInt BUNDLE_VERSION))"
    "obj_get (obj_of es) ''context'' = Some (JString (context_id_text E (bundle_context b)))"
    "obj_get (obj_of es) ''events'' = Some (JArray ?vals)"
    "obj_get (obj_of es) ''refs'' = Some (JArray (map (ref_json E) (bundle_refs b)))"
    by (simp_all add: get) (simp_all add: es_def)
  have parse_events: "collectR (parse_bundle_event E) ?vals = Inr (map norm_event (bundle_events b))"
    using evs parse_bundle_event_lawful [OF assms(1)] by (intro collectR_map_Inr) simp
  have parse_refs: "collectR (parse_ref E) (map (ref_json E) (bundle_refs b)) = Inr (bundle_refs b)"
    using assms(2) parse_ref_json [OF env_lawfulD(1) [OF assms(1)]]
      collectR_map_Inr [of "bundle_refs b" "parse_ref E" "ref_json E" "\<lambda>r. r"]
    by (simp add: bundle_wf_def)
  have parts: "bundle_from_parts E (bundle_context b) (map norm_event (bundle_events b)) (bundle_refs b) =
      Inr (norm_bundle b)"
    using bundle_ok_norm [OF assms(1-3)] by (simp add: bundle_from_parts_iff norm_bundle_def)
  have ctx: "context_id_of_text E (context_id_text E (bundle_context b)) = Inr (bundle_context b)"
    using assms(2) by (intro context_id.of_to_text env_lawfulD(1) [OF assms(1)]) (simp add: bundle_wf_def)
  have lens: "\<not> length (bundle_events b) > MAX_BUNDLE_EVENTS" "\<not> length (bundle_refs b) > MAX_BUNDLE_REFS"
    using assms(3) by (auto simp: bundle_ok_def)
  have "bundle_of_json E ?v = Inr (norm_bundle b)"
    unfolding v bundle_of_json_def into_object.simps map_err_simps bindR_simps
    using known fields lens again w(2)
    by (simp add: take_required_present take_string_present ctx parse_events parse_refs parts
        BUNDLE_VERSION_def)
  then show "bundle_from_wire E w = Inr (norm_bundle b)"
    using read w(2) by (simp add: bundle_from_wire_def)
qed

text \<open>Whatever parses is well formed and checked.\<close>

lemma parse_ref_Inr:
  "parse_ref E v = Inr r \<Longrightarrow> ref_name_wf (ar_name r) \<and> event_id_wf (ar_head r)"
  by (auto simp: parse_ref_def bindR_Inr_iff dest: event_id.to_of_text split: if_splits)

lemma bundle_of_json_Inr:
  assumes "bundle_of_json E v = Inr b"
  shows "bundle_ok E b" "bundle_wf b" "is_ok (bundle_to_wire E b)"
proof -
  obtain c event_values ref_values evs refs ctext w where
    parts: "bundle_from_parts E c evs refs = Inr b" and c: "context_id_of_text E ctext = Inr c"
    and evs: "collectR (parse_bundle_event E) event_values = Inr evs"
    and refs: "collectR (parse_ref E) ref_values = Inr refs" and w: "bundle_to_wire E b = Inr w"
    using assms unfolding bundle_of_json_def
    by (auto simp: bindR_Inr_iff map_err_Inr_iff simp del: take_required_Inr_iff split: if_splits)
  have ok: "bundle_ok E b" and b: "b = \<lparr>bundle_context = c, bundle_events = evs, bundle_refs = refs\<rparr>"
    using parts unfolding bundle_from_parts_iff by blast+
  show "bundle_ok E b" by (rule ok)
  have "list_all2 (\<lambda>x y. parse_bundle_event E x = Inr y) event_values evs"
    using evs by (simp add: collectR_Inr_iff)
  then have "\<forall>ev \<in> set evs. event_wf ev"
    by (induction rule: list_all2_induct)
      (auto simp: parse_bundle_event_def bindR_Inr_iff dest: from_wire_Inr(2))
  moreover have "list_all2 (\<lambda>x y. parse_ref E x = Inr y) ref_values refs"
    using refs by (simp add: collectR_Inr_iff)
  then have "\<forall>r \<in> set refs. ref_name_wf (ar_name r) \<and> event_id_wf (ar_head r)"
    by (induction rule: list_all2_induct) (auto dest: parse_ref_Inr)
  moreover have "distinct (map ar_name refs)"
    using ok strictly_sorted_distinct [of id "map ar_name refs"]
    by (simp add: bundle_ok_def b strictly_sorted_map)
  ultimately show "bundle_wf b"
    using ok context_id.to_of_text [OF c] by (auto simp: bundle_wf_def bundle_ok_def b)
  show "is_ok (bundle_to_wire E b)" using w by simp
qed

lemma bundle_from_wire_Inr:
  assumes "bundle_from_wire E w = Inr b"
  shows "bundle_ok E b" "bundle_wf b" "is_ok (bundle_to_wire E b)"
  using assms by (auto simp: bundle_from_wire_def bindR_Inr_iff dest: bundle_of_json_Inr split: if_splits)

lemma import_bundle_keeps:
  assumes "env_lawful E" "store_inv E d" "ref_name_wf peer"
  shows "keeps_store E d (snd (import_bundle E peer w limits oc d))"
proof (cases "bindR (validate_bundle_limits limits) (\<lambda>_.
           if length w > bl_max_canonical_bytes limits then Inl BundleLimitExceeded
           else bindR (bundle_from_wire E w) (\<lambda>bundle.
             if length (bundle_events bundle) > bl_max_events limits \<or>
                length (bundle_refs bundle) > bl_max_refs limits
             then Inl BundleLimitExceeded
             else bindR (bundle_to_wire E bundle) (\<lambda>canonical.
               if length canonical > bl_max_canonical_bytes limits then Inl BundleLimitExceeded
               else Inr bundle)))")
  case (Inl e)
  then show ?thesis using assms by (simp add: import_bundle_def keeps_store_def)
next
  case (Inr b)
  then have "bundle_from_wire E w = Inr b" by (auto simp: bindR_Inr_iff split: if_splits)
  then have "bundle_wf b" by (rule bundle_from_wire_Inr)
  then show ?thesis
    using import.run_keeps [OF assms(1) _ assms(2), of "(peer, b)" oc] assms(3) Inr
    by (simp add: import_bundle_def keeps_store_def)
qed

section \<open>What an export contains\<close>

lemma sort_dedup_set_heads: "normalize_bundle_heads E heads = Inr hs \<Longrightarrow>
    set hs = set heads \<and> hs \<noteq> [] \<and> length hs \<le> MAX_BUNDLE_EVENTS"
  using length_sort_dedup [of "event_id_text E" heads]
  by (auto simp: normalize_bundle_heads_def split: if_splits)

lemma ancestry_set_cong: "set xs = set ys \<Longrightarrow> ancestry E d xs = ancestry E d ys"
  by (simp add: ancestry_def)

lemma known_closure_Inr:
  assumes "store_inv E d" "known_closure E d c known = Inr ids"
  shows "ids = ancestry E d known"
proof (cases "known = []")
  case True
  have "ancestors (store_parents E d) {} \<subseteq> {}" by (rule ancestors_closed) auto
  then show ?thesis using True assms(2) by (simp add: known_closure_def ancestry_def)
next
  case False
  then obtain evs bytes where p: "project_on E d c known default_projection_limits = Inr (evs, bytes)"
      "ids = ev_id ` set evs"
    using assms(2) by (auto simp: known_closure_def bindR_Inr_iff)
  from projection_cases [OF assms(1) p(1)] p(2) show ?thesis by (simp add: exact_projection_def)
qed

lemma export_bundle_exact:
  assumes "store_inv E d" "export_bundle E d c requested known snapshot limits = Inr b"
  shows "ev_id ` set (bundle_events b) = ancestry E d requested - ancestry E d known"
    "\<forall>ev \<in> set (bundle_events b). lookup_event E d (ev_id ev) = Some ev"
    "bundle_context b = c" "bundle_ok E b"
proof -
  obtain req kn evs bytes ids refs where
    req: "normalize_bundle_heads E requested = Inr req"
    and kn: "(if known = [] then Inr [] else normalize_bundle_heads E known) = Inr kn"
    and evs: "project_on E d c req default_projection_limits = Inr (evs, bytes)"
    and ids: "known_closure E d c kn = Inr ids"
    and b: "bundle_from_parts E c (filter (\<lambda>ev. ev_id ev \<notin> ids) evs) (sort_key ref_key refs) = Inr b"
    using assms(2) by (auto simp: export_bundle_def bindR_Inr_iff Let_def split: if_splits)
  have sets: "set req = set requested" "set kn = set known"
    using sort_dedup_set_heads [OF req] sort_dedup_set_heads kn by (auto split: if_splits)
  have ids': "ids = ancestry E d known"
    using known_closure_Inr [OF assms(1) ids] ancestry_set_cong [OF sets(2)] by simp
  have exact: "exact_projection E d c default_projection_limits req evs bytes"
    by (rule projection_cases [OF assms(1) evs])
  have parts: "b = \<lparr>bundle_context = c, bundle_events = filter (\<lambda>ev. ev_id ev \<notin> ids) evs,
      bundle_refs = sort_key ref_key refs\<rparr>" "bundle_ok E b"
    using b unfolding bundle_from_parts_iff by blast+
  show "ev_id ` set (bundle_events b) = ancestry E d requested - ancestry E d known"
    using exact ancestry_set_cong [OF sets(1)] ids' by (auto simp: parts(1) exact_projection_def)
  show "\<forall>ev \<in> set (bundle_events b). lookup_event E d (ev_id ev) = Some ev"
    using exact by (auto simp: parts(1) exact_projection_def)
  show "bundle_context b = c" "bundle_ok E b" using parts by auto
qed

end
