(* ===== verification/Store_Sync.thy ===== *)
theory Store_Sync
  imports Bundle_Wire
begin

text \<open>
  Read-snapshot export paging and remote-ref replacement of \<open>src/src/store/sync.rs\<close>: a page is
  a slice of the ancestry difference whose length a binary search finds, and replacing a
  peer's refs of a context makes them exactly the advertised ones.
\<close>

section \<open>Snapshots and pages\<close>

definition active_context :: "db \<Rightarrow> context_id \<Rightarrow> store_error + unit" where
  "active_context d c =
     bindR (context_row_of d c) (\<lambda>row.
     bindR (ok_or row ContextUnknown) (\<lambda>(expected, state).
       if state \<noteq> 1 then Inl ContextUnknown else Inr ()))"

definition snapshot_row :: "env \<Rightarrow> db \<Rightarrow> context_id \<Rightarrow> ref_row \<Rightarrow> store_error + ref_row" where
  "snapshot_row E d c r =
     bindR (authoritative_event_context E d (ref_head r)) (\<lambda>found.
       if found \<noteq> Some c then Inl CorruptStorage
       else bindR (name_from_str (ref_name r)) (\<lambda>name.
         Inr \<lparr>ref_context = c, ref_name = name, ref_head = ref_head r\<rparr>))"

definition sync_local_ref_snapshot :: "env \<Rightarrow> db \<Rightarrow> context_id \<Rightarrow> store_error + ref_row list" where
  "sync_local_ref_snapshot E d c =
     bindR (active_context d c) (\<lambda>_.
     bindR (collectR (snapshot_row E d c)
         (sort_key ref_name (filter (\<lambda>r. ref_context r = c) (db_local d)))) (\<lambda>refs.
       if length refs > MAX_BUNDLE_REFS then Inl BundleLimitExceeded else Inr refs))"

record sync_export_page =
  page_bundle :: bundle_v1
  page_known :: "event_id list"
  page_next :: "nat option"

definition effective_known :: "env \<Rightarrow> db \<Rightarrow> context_id \<Rightarrow> event_id list \<Rightarrow> store_error + event_id list" where
  "effective_known E d c known =
     foldR (\<lambda>head acc.
       bindR (authoritative_event_context E d head) (\<lambda>found.
         Inr (if found = Some c then acc @ [head] else acc))) known []"

text \<open>
  The search for the longest page: \<open>probe n\<close> builds the bundle of \<open>n\<close> events and its wire
  length. \<open>low\<close> starts at one and only grows; the test for it is what makes the recursion end.
\<close>

function page_search ::
  "(nat \<Rightarrow> store_error + (bundle_v1 \<times> nat)) \<Rightarrow> nat \<Rightarrow> nat \<Rightarrow> nat \<Rightarrow> (nat \<times> bundle_v1) option \<Rightarrow>
    store_error + (nat \<times> bundle_v1) option" where
  "page_search probe max_bytes low high best =
     (if 1 \<le> low \<and> low \<le> high then
        (let n = low + (high - low) div 2 in
         case probe n of
           Inl e \<Rightarrow> Inl e
         | Inr (b, len) \<Rightarrow>
             if len \<le> max_bytes then page_search probe max_bytes (n + 1) high (Some (n, b))
             else page_search probe max_bytes low (n - 1) best)
      else Inr best)"
  by pat_completeness auto
termination
proof (relation "measure (\<lambda>(probe, max_bytes, low, high, best). Suc high - low)", goal_cases)
  case (3 probe max_bytes low high best n r b len)
  have "(high - low) div 2 \<le> high - low" by simp
  with 3 show ?case by (auto simp: Let_def)
qed auto

declare page_search.simps [simp del]

definition page_probe ::
  "env \<Rightarrow> context_id \<Rightarrow> signed_event list \<Rightarrow> nat \<Rightarrow> store_error + (bundle_v1 \<times> nat)" where
  "page_probe E c remaining n =
     bindR (bundle_from_parts E c (take n remaining) []) (\<lambda>b.
     bindR (bundle_to_wire E b) (\<lambda>wire. Inr (b, length wire)))"

definition export_sync_page ::
  "env \<Rightarrow> db \<Rightarrow> context_id \<Rightarrow> event_id list \<Rightarrow> event_id list \<Rightarrow> nat \<Rightarrow> nat \<Rightarrow> nat \<Rightarrow>
    store_error + sync_export_page" where
  "export_sync_page E d c requested_heads known_heads offset max_events max_bundle_bytes =
     (if max_events = 0 \<or> max_events > MAX_BUNDLE_EVENTS \<or>
         max_bundle_bytes = 0 \<or> max_bundle_bytes > MAX_BUNDLE_CANONICAL_BYTES
      then Inl BundleLimitExceeded
      else
        bindR (normalize_heads E requested_heads) (\<lambda>requested.
          if length known_heads > MAX_BUNDLE_REFS then Inl BundleLimitExceeded
          else
            bindR (active_context d c) (\<lambda>_.
            bindR (effective_known E d c (sort_dedup (event_id_text E) known_heads)) (\<lambda>known.
            bindR (project_on E d c requested default_projection_limits) (\<lambda>(requested_events, _).
            bindR (known_closure E d c known) (\<lambda>known_ids.
              let plan = filter (\<lambda>event. ev_id event \<notin> known_ids) requested_events in
              if offset > length plan \<or> (offset = length plan \<and> offset \<noteq> 0) then Inl BundleOrder
              else if plan = [] then
                bindR (bundle_from_parts E c [] []) (\<lambda>b.
                  Inr \<lparr>page_bundle = b, page_known = known, page_next = None\<rparr>)
              else
                bindR (page_search (page_probe E c (drop offset plan)) max_bundle_bytes
                    1 (min (length plan - offset) max_events) None) (\<lambda>best.
                bindR (ok_or best BundleLimitExceeded) (\<lambda>(n, b).
                bindR (ok_or (checked_add offset n) BundleLimitExceeded) (\<lambda>next_offset.
                  Inr \<lparr>page_bundle = b, page_known = known,
                       page_next = (if next_offset < length plan then Some next_offset else None)\<rparr>)))))))))"

section \<open>Replacing the remote refs of a peer\<close>

text \<open>Both lists are collected into hash maps, where a later pair of the same name wins.\<close>

definition namespace_change_count ::
  "(string \<times> event_id) list \<Rightarrow> (string \<times> event_id) list \<Rightarrow> store_error + nat" where
  "namespace_change_count existing desired =
     (let old = map_of (rev existing); new = map_of (rev desired);
          deleted = length (filter (\<lambda>n. new n = None) (remdups (map fst existing)));
          inserted_or_changed =
            length (filter (\<lambda>n. old n \<noteq> new n) (remdups (map fst desired)))
      in ok_or (checked_add deleted inserted_or_changed) BundleLimitExceeded)"

definition remote_namespace :: "db \<Rightarrow> string \<Rightarrow> context_id \<Rightarrow> remote_row list" where
  "remote_namespace d peer c =
     sort_key rem_name (filter (\<lambda>r. rem_peer r = peer \<and> rem_context r = c) (db_remote d))"

definition existing_pair :: "remote_row \<Rightarrow> store_error + (string \<times> event_id)" where
  "existing_pair r = bindR (name_from_str (rem_name r)) (\<lambda>name. Inr (name, rem_head r))"

definition check_head :: "env \<Rightarrow> db \<Rightarrow> context_id \<Rightarrow> advertised_ref \<Rightarrow> store_error + unit" where
  "check_head E d c item =
     bindR (authoritative_event_context E d (ar_head item)) (\<lambda>found.
       if found \<noteq> Some c then Inl BundleRefInvalid else Inr ())"

definition replace_refs_tx ::
  "env \<Rightarrow> string \<Rightarrow> context_id \<Rightarrow> advertised_ref list \<Rightarrow> db \<Rightarrow> store_error + (nat \<times> db)" where
  "replace_refs_tx E peer c refs d =
     bindR (active_context d c) (\<lambda>_.
     bindR (forR (check_head E d c) refs) (\<lambda>_.
     bindR (collectR existing_pair (remote_namespace d peer c)) (\<lambda>existing.
     bindR (namespace_change_count existing (map (\<lambda>r. (ar_name r, ar_head r)) refs)) (\<lambda>changed.
       if changed = 0 then Inr (0, d)
       else bindR (foldR (\<lambda>item. insert_remote peer c (ar_name item) (ar_head item)) refs
           (delete_remote peer c d)) (\<lambda>d'. Inr (changed, d'))))))"

definition replace_remote_ref_snapshot ::
  "env \<Rightarrow> string \<Rightarrow> context_id \<Rightarrow> advertised_ref list \<Rightarrow> commit_outcome \<Rightarrow> db \<Rightarrow>
    (store_error + nat) \<times> db" where
  "replace_remote_ref_snapshot E peer c refs oc d =
     (if length refs > MAX_BUNDLE_REFS \<or> windows2_any (\<lambda>a b. ar_name b \<le> ar_name a) refs \<or>
         list_ex (\<lambda>r. ar_namespace r \<noteq> LocalNamespace) refs
      then (Inl BundleRefInvalid, d)
      else write_tx oc (replace_refs_tx E peer c refs) d)"

section \<open>The page search\<close>

text \<open>
  \<open>fits n\<close>: the probe of \<open>n\<close> events succeeds within the limit. The result fits, and one event
  more does not fit, or is beyond the upper end.
\<close>

definition probe_fits ::
  "(nat \<Rightarrow> store_error + (bundle_v1 \<times> nat)) \<Rightarrow> nat \<Rightarrow> nat \<Rightarrow> bundle_v1 \<Rightarrow> bool" where
  "probe_fits probe max_bytes n b \<longleftrightarrow> (\<exists>len. probe n = Inr (b, len) \<and> len \<le> max_bytes)"

definition probe_too_long :: "(nat \<Rightarrow> store_error + (bundle_v1 \<times> nat)) \<Rightarrow> nat \<Rightarrow> nat \<Rightarrow> bool" where
  "probe_too_long probe max_bytes n \<longleftrightarrow> (\<exists>b len. probe n = Inr (b, len) \<and> len > max_bytes)"

lemma page_search_spec:
  assumes "page_search probe max_bytes low high best = Inr res" "1 \<le> low" "low \<le> Suc high" "high \<le> upper"
    and "case best of None \<Rightarrow> low = 1 | Some (n, b) \<Rightarrow> Suc n = low \<and> probe_fits probe max_bytes n b \<and> 1 \<le> n"
    and "high = upper \<or> probe_too_long probe max_bytes (Suc high)"
  shows "case res of
      None \<Rightarrow> upper = 0 \<or> probe_too_long probe max_bytes 1
    | Some (n, b) \<Rightarrow> 1 \<le> n \<and> n \<le> upper \<and> probe_fits probe max_bytes n b \<and>
        (n = upper \<or> probe_too_long probe max_bytes (Suc n))"
  using assms
proof (induction probe max_bytes low high best rule: page_search.induct)
  case (1 probe max_bytes low high best)
  show ?case
  proof (cases "low \<le> high")
    case False
    then have "low = Suc high" using "1.prems"(3) by simp
    moreover have "res = best" using "1.prems"(1) False by (simp add: page_search.simps)
    ultimately show ?thesis using "1.prems"(4-6) by (auto split: option.splits)
  next
    case True
    define n where "n = low + (high - low) div 2"
    have n: "low \<le> n" "n \<le> high" using True by (auto simp: n_def)
    have guard: "1 \<le> low \<and> low \<le> high" using "1.prems"(2) True by simp
    obtain b len where probe: "probe n = Inr (b, len)"
      using "1.prems"(1) guard
      by (cases "probe n") (auto simp: page_search.simps [of _ _ low] Let_def n_def)
    show ?thesis
    proof (cases "len \<le> max_bytes")
      case fits: True
      have "page_search probe max_bytes (n + 1) high (Some (n, b)) = Inr res"
        using "1.prems"(1) guard probe fits by (simp add: page_search.simps [of _ _ low] Let_def n_def)
      then show ?thesis
        using "1.IH"(1) [OF guard n_def probe _ fits] "1.prems"(2-6) n probe fits
        by (auto simp: probe_fits_def)
    next
      case long: False
      have "page_search probe max_bytes low (n - 1) best = Inr res"
        using "1.prems"(1) guard probe long by (simp add: page_search.simps [of _ _ low] Let_def n_def)
      moreover have "probe_too_long probe max_bytes (Suc (n - 1))"
        using n guard probe long by (auto simp: probe_too_long_def)
      ultimately show ?thesis
        using "1.IH"(2) [OF guard n_def probe _ long] "1.prems"(2-6) n by auto
    qed
  qed
qed

lemma active_context_Inr: "active_context d c = Inr u \<longleftrightarrow> (\<exists>x. context_row_of d c = Inr (Some (x, 1)))"
  by (auto simp: active_context_def bindR_Inr_iff split: if_splits)

text \<open>The ancestry difference both sides of a sync talk about, in its deterministic order.\<close>

definition sync_plan ::
  "env \<Rightarrow> db \<Rightarrow> context_id \<Rightarrow> event_id list \<Rightarrow> event_id list \<Rightarrow> store_error + signed_event list" where
  "sync_plan E d c requested_heads known_heads =
     bindR (normalize_heads E requested_heads) (\<lambda>requested.
     bindR (effective_known E d c (sort_dedup (event_id_text E) known_heads)) (\<lambda>known.
     bindR (project_on E d c requested default_projection_limits) (\<lambda>(events, _).
     bindR (known_closure E d c known) (\<lambda>ids.
       Inr (filter (\<lambda>event. ev_id event \<notin> ids) events)))))"

lemma effective_known_lookup:
  assumes "store_inv E d"
  shows "effective_known E d c known = Inr (filter (\<lambda>h. stored_in d h c) known)"
proof -
  have "foldR (\<lambda>head acc. bindR (authoritative_event_context E d head) (\<lambda>found.
         Inr (if found = Some c then acc @ [head] else acc))) known acc =
      Inr (acc @ filter (\<lambda>h. stored_in d h c) known)" for acc
    by (induction known arbitrary: acc)
      (auto simp: authoritative_lookup [OF assms] stored_in_iff [OF assms])
  then show ?thesis by (simp add: effective_known_def)
qed

lemma export_sync_page_plan:
  assumes "export_sync_page E d c requested known offset max_events max_bytes = Inr page"
  obtains plan where "sync_plan E d c requested known = Inr plan"
    "offset < length plan \<or> (plan = [] \<and> offset = 0)"
    "\<exists>n. bundle_events (page_bundle page) = take n (drop offset plan) \<and> (plan \<noteq> [] \<longrightarrow> 1 \<le> n) \<and>
       n \<le> min (length plan - offset) max_events \<and>
       page_next page = (if offset + n < length plan then Some (offset + n) else None) \<and>
       (n = min (length plan - offset) max_events \<or>
        probe_too_long (page_probe E c (drop offset plan)) max_bytes (Suc n))"
    "plan \<noteq> [] \<longrightarrow> (\<exists>w. bundle_to_wire E (page_bundle page) = Inr w \<and> length w \<le> max_bytes)"
proof -
  obtain req kn evs bytes ids where
    req: "normalize_heads E requested = Inr req"
    and kn: "effective_known E d c (sort_dedup (event_id_text E) known) = Inr kn"
    and evs: "project_on E d c req default_projection_limits = Inr (evs, bytes)"
    and ids: "known_closure E d c kn = Inr ids"
    using assms unfolding export_sync_page_def
    by (simp add: bindR_Inr_iff Let_def) (elim conjE exE, blast)
  define plan where "plan = filter (\<lambda>ev. ev_id ev \<notin> ids) evs"
  have plan: "sync_plan E d c requested known = Inr plan"
    using req kn evs ids by (simp add: sync_plan_def plan_def)
  show thesis
  proof (cases "plan = []")
    case True
    then have "bundle_from_parts E c [] [] = Inr (page_bundle page)" "page_next page = None" "offset = 0"
      using assms req kn evs ids
      by (auto simp: export_sync_page_def bindR_Inr_iff Let_def plan_def split: if_splits)
    then show thesis
      using True plan
      by (intro that [of plan])
        (auto simp: bundle_from_parts_iff intro!: exI [of _ 0])
  next
    case False
    then obtain n b where offset: "offset < length plan"
      and search: "page_search (page_probe E c (drop offset plan)) max_bytes 1
          (min (length plan - offset) max_events) None = Inr (Some (n, b))"
      and page: "page_bundle page = b" "page_next page = (if offset + n < length plan then Some (offset + n) else None)"
      using assms req kn evs ids
      by (auto simp: export_sync_page_def bindR_Inr_iff Let_def plan_def split: if_splits)
    have "max_events \<noteq> 0" using assms by (auto simp: export_sync_page_def split: if_splits)
    with page_search_spec [OF search, of "min (length plan - offset) max_events"] offset
    have n: "1 \<le> n" "n \<le> min (length plan - offset) max_events"
      "probe_fits (page_probe E c (drop offset plan)) max_bytes n b"
      "n = min (length plan - offset) max_events \<or>
       probe_too_long (page_probe E c (drop offset plan)) max_bytes (Suc n)" by auto
    then obtain w where w: "bundle_from_parts E c (take n (drop offset plan)) [] = Inr b"
        "bundle_to_wire E b = Inr w" "length w \<le> max_bytes"
      by (auto simp: probe_fits_def page_probe_def bindR_Inr_iff)
    then have "bundle_events b = take n (drop offset plan)" by (auto simp: bundle_from_parts_iff)
    then show thesis
      using plan offset n(1,2,4) page w(2,3) by (intro that [of plan]) (auto intro!: exI [of _ n])
  qed
qed

section \<open>Draining the pages\<close>

text \<open>
  A client that follows \<open>next_offset\<close> receives the whole plan; \<open>fuel\<close> counts its requests,
  and one request more than there are events is enough.
\<close>

fun drain_pages ::
  "env \<Rightarrow> db \<Rightarrow> context_id \<Rightarrow> event_id list \<Rightarrow> event_id list \<Rightarrow> nat \<Rightarrow> nat \<Rightarrow> nat \<Rightarrow> nat \<Rightarrow>
    store_error + signed_event list option" where
  "drain_pages E d c requested known max_events max_bytes 0 offset = Inr None"
| "drain_pages E d c requested known max_events max_bytes (Suc fuel) offset =
     bindR (export_sync_page E d c requested known offset max_events max_bytes) (\<lambda>page.
       case page_next page of
         None \<Rightarrow> Inr (Some (bundle_events (page_bundle page)))
       | Some next_offset \<Rightarrow>
           bindR (drain_pages E d c requested known max_events max_bytes fuel next_offset) (\<lambda>rest.
             Inr (map_option (\<lambda>evs. bundle_events (page_bundle page) @ evs) rest)))"

lemma drain_pages_plan:
  assumes "drain_pages E d c requested known max_events max_bytes fuel offset = Inr res"
    and "sync_plan E d c requested known = Inr plan" "length plan - offset < fuel"
  shows "res = Some (drop offset plan)"
  using assms(1,3)
proof (induction fuel arbitrary: offset res)
  case 0
  then show ?case using assms(2) by simp
next
  case (Suc fuel)
  then obtain page where page: "export_sync_page E d c requested known offset max_events max_bytes = Inr page"
    by (auto simp: bindR_Inr_iff)
  obtain n where n: "bundle_events (page_bundle page) = take n (drop offset plan)"
      "plan \<noteq> [] \<longrightarrow> 1 \<le> n" "n \<le> length plan - offset"
      "page_next page = (if offset + n < length plan then Some (offset + n) else None)"
    using export_sync_page_plan [OF page] assms(2) by (metis min.boundedE sum.inject(2))
  show ?case
  proof (cases "offset + n < length plan")
    case True
    then obtain rest where rest: "drain_pages E d c requested known max_events max_bytes fuel (offset + n) = Inr rest"
        "res = map_option (\<lambda>evs. bundle_events (page_bundle page) @ evs) rest"
      using Suc.prems(1) page n(4) by (auto simp: bindR_Inr_iff)
    have "plan \<noteq> []" using True by auto
    then have "1 \<le> n" using n(2) by blast
    then have "rest = Some (drop (offset + n) plan)"
      using Suc.IH [OF rest(1)] Suc.prems(2) True by simp
    then show ?thesis using rest(2) n(1) append_take_drop_id [of n "drop offset plan"]
      by (simp add: add.commute)
  next
    case False
    then show ?thesis using Suc.prems(1) page n by auto
  qed
qed

section \<open>The refs of a peer\<close>

definition remote_pair :: "remote_row \<Rightarrow> string \<times> event_id" where
  "remote_pair r = (rem_name r, rem_head r)"

definition ref_pair :: "advertised_ref \<Rightarrow> string \<times> event_id" where
  "ref_pair r = (ar_name r, ar_head r)"

text \<open>What a store remembers of a peer's refs in a context.\<close>

definition remote_view :: "db \<Rightarrow> string \<Rightarrow> context_id \<Rightarrow> string \<rightharpoonup> event_id" where
  "remote_view d peer c =
     map_of (map remote_pair (filter (\<lambda>r. rem_peer r = peer \<and> rem_context r = c) (db_remote d)))"

lemma remote_names_distinct:
  assumes "inv_keys d"
  shows "distinct (map rem_name (filter (\<lambda>r. rem_peer r = peer \<and> rem_context r = c) (db_remote d)))"
  using assms by (auto simp: inv_keys_def distinct_map inj_on_def)

lemma remote_view_namespace:
  assumes "inv_keys d"
  shows "map_of (map remote_pair (remote_namespace d peer c)) = remote_view d peer c"
    "distinct (map rem_name (remote_namespace d peer c))"
proof -
  show dist: "distinct (map rem_name (remote_namespace d peer c))"
    using remote_names_distinct [OF assms, of peer c]
    by (auto simp: remote_namespace_def distinct_map)
  have "map fst (map remote_pair rs) = map rem_name rs" for rs
    by (simp add: remote_pair_def)
  then show "map_of (map remote_pair (remote_namespace d peer c)) = remote_view d peer c"
    using remote_names_distinct [OF assms, of peer c] dist
    unfolding remote_view_def
    by (subst map_of_inject_set) (simp_all add: remote_namespace_def remote_pair_def comp_def)
qed

lemma map_of_rev: "distinct (map fst xs) \<Longrightarrow> map_of (rev xs) = map_of xs"
  by (simp add: map_of_inject_set rev_map [symmetric])

lemma namespace_change_count_card:
  assumes "distinct (map fst old)" "distinct (map fst new)"
    and "namespace_change_count old new = Inr n"
  shows "n = card {name. map_of old name \<noteq> map_of new name}"
proof -
  let ?old = "map_of old" and ?new = "map_of new"
  have names: "set (map fst xs) = dom (map_of xs)" for xs :: "(string \<times> event_id) list"
    by (simp add: dom_map_of_conv_image_fst)
  have count: "length (filter p (remdups (map fst xs))) = card {k \<in> dom (map_of xs). p k}"
    for p and xs :: "(string \<times> event_id) list"
  proof -
    have "length (filter p (remdups (map fst xs))) = card (set (filter p (remdups (map fst xs))))"
      using distinct_card [of "filter p (remdups (map fst xs))"] by simp
    also have "set (filter p (remdups (map fst xs))) = {k \<in> dom (map_of xs). p k}"
      by (auto simp: dom_map_of_conv_image_fst)
    finally show ?thesis .
  qed
  have "n = card {k \<in> dom ?old. ?new k = None} + card {k \<in> dom ?new. ?old k \<noteq> ?new k}"
    using assms by (simp add: namespace_change_count_def Let_def map_of_rev count)
  also have "\<dots> = card ({k \<in> dom ?old. ?new k = None} \<union> {k \<in> dom ?new. ?old k \<noteq> ?new k})"
    by (rule card_Un_disjoint [symmetric]) (auto simp: finite_dom_map_of)
  also have "{k \<in> dom ?old. ?new k = None} \<union> {k \<in> dom ?new. ?old k \<noteq> ?new k} = {k. ?old k \<noteq> ?new k}"
    by (auto simp: domIff)
  finally show ?thesis .
qed

lemma insert_remotes_Inr:
  assumes "foldR (\<lambda>item. insert_remote peer c (ar_name item) (ar_head item)) refs d = Inr d'"
  shows "d' = d\<lparr>db_remote := db_remote d @ map (\<lambda>r. \<lparr>rem_peer = peer, rem_context = c,
    rem_name = ar_name r, rem_head = ar_head r\<rparr>) refs\<rparr>"
  using assms
proof (induction refs arbitrary: d)
  case (Cons r refs)
  then obtain d1 where d1: "insert_remote peer c (ar_name r) (ar_head r) d = Inr d1"
      "foldR (\<lambda>item. insert_remote peer c (ar_name item) (ar_head item)) refs d1 = Inr d'"
    by (auto simp: bindR_Inr_iff)
  then have "d1 = d\<lparr>db_remote := db_remote d @
      [\<lparr>rem_peer = peer, rem_context = c, rem_name = ar_name r, rem_head = ar_head r\<rparr>]\<rparr>"
    by (auto simp: insert_remote_def split: if_splits)
  with Cons.IH [OF d1(2)] show ?case by simp
qed simp

lemma insert_remotes_keep:
  assumes "foldR (\<lambda>item. insert_remote peer c (ar_name item) (ar_head item)) refs d = Inr d'"
    and "store_inv E d" "ref_name_wf peer"
    and "\<forall>r \<in> set refs. stored_in d (ar_head r) c \<and> ref_name_wf (ar_name r)"
  shows "store_inv E d'"
proof -
  have "store_inv E d' \<and> (\<forall>r \<in> set refs. stored_in d' (ar_head r) c)"
  proof (rule foldR_invariant [OF assms(1)])
    show "store_inv E d \<and> (\<forall>r \<in> set refs. stored_in d (ar_head r) c)" using assms by blast
  next
    fix item a b
    assume item: "item \<in> set refs" and a: "store_inv E a \<and> (\<forall>r \<in> set refs. stored_in a (ar_head r) c)"
      and ins: "insert_remote peer c (ar_name item) (ar_head item) a = Inr b"
    have "store_inv E b" "db_grows a b"
      using insert_remote_keeps [OF _ ins, of E] item a assms(3,4) by auto
    then show "store_inv E b \<and> (\<forall>r \<in> set refs. stored_in b (ar_head r) c)"
      using a db_grows_stored_in by blast
  qed
  then show ?thesis by blast
qed

definition replace_ok :: "string \<times> context_id \<times> advertised_ref list \<Rightarrow> bool" where
  "replace_ok = (\<lambda>(peer, c, refs). ref_name_wf peer \<and> (\<forall>r \<in> set refs. ref_name_wf (ar_name r)) \<and>
     strictly_sorted ar_name refs)"

lemma forR_check_head:
  "store_inv E d \<Longrightarrow> forR (check_head E d c) refs = Inr u \<Longrightarrow> \<forall>r \<in> set refs. stored_in d (ar_head r) c"
  by (auto simp: forR_Inr_iff check_head_def bindR_Inr_iff authoritative_lookup stored_in_iff split: if_splits)

lemma replace_refs_tx_Inr:
  assumes "store_inv E d" "replace_ok (peer, c, refs)"
    and "replace_refs_tx E peer c refs d = Inr (n, d')"
  shows "store_inv E d'" "db_grows d d'" "db_local d' = db_local d"
    "remote_view d' peer c = map_of (map ref_pair refs)"
    "\<And>peer' c'. (peer', c') \<noteq> (peer, c) \<Longrightarrow> remote_view d' peer' c' = remote_view d peer' c'"
    "n = card {name. remote_view d peer c name \<noteq> map_of (map ref_pair refs) name}"
    "n = 0 \<longleftrightarrow> d' = d"
proof -
  have keys: "inv_keys d" using assms(1) by (rule store_invD)
  have names: "\<forall>r \<in> set refs. ref_name_wf (ar_name r)" "ref_name_wf peer"
    and dist: "distinct (map fst (map ref_pair refs))"
    using assms(2) strictly_sorted_distinct [of id "map ar_name refs"]
    by (auto simp: replace_ok_def ref_pair_def strictly_sorted_map comp_def)
  obtain u1 u2 existing where check: "forR (check_head E d c) refs = Inr u2"
    and ex: "collectR existing_pair (remote_namespace d peer c) = Inr existing"
    and count: "namespace_change_count existing (map ref_pair refs) = Inr n"
    and res: "if n = 0 then d' = d else foldR (\<lambda>item. insert_remote peer c (ar_name item) (ar_head item)) refs
        (delete_remote peer c d) = Inr d'"
    using assms(3) by (auto simp: replace_refs_tx_def bindR_Inr_iff ref_pair_def [abs_def] split: if_splits)
  have stored: "\<forall>r \<in> set refs. stored_in d (ar_head r) c"
    by (rule forR_check_head [OF assms(1) check])
  have "list_all2 (\<lambda>x y. existing_pair x = Inr y) (remote_namespace d peer c) existing"
    using ex by (simp add: collectR_Inr_iff)
  then have existing: "existing = map remote_pair (remote_namespace d peer c)"
    by (induction rule: list_all2_induct) (auto simp: existing_pair_def remote_pair_def bindR_Inr_iff)
  have old: "map_of existing = remote_view d peer c" "distinct (map fst existing)"
    using remote_view_namespace [OF keys, of peer c] by (simp_all add: existing remote_pair_def comp_def)
  show n: "n = card {name. remote_view d peer c name \<noteq> map_of (map ref_pair refs) name}"
    using namespace_change_count_card [OF old(2) dist count] old(1) by simp
  have fin: "finite {name. remote_view d peer c name \<noteq> map_of (map ref_pair refs) name}"
    by (rule finite_subset [of _ "dom (remote_view d peer c) \<union> dom (map_of (map ref_pair refs))"])
      (auto simp: remote_view_def finite_dom_map_of)
  let ?row = "\<lambda>r. \<lparr>rem_peer = peer, rem_context = c, rem_name = ar_name r, rem_head = ar_head r\<rparr>"
  have "store_inv E d' \<and> db_grows d d' \<and> db_local d' = db_local d \<and>
    remote_view d' peer c = map_of (map ref_pair refs) \<and>
    (\<forall>peer' c'. (peer', c') \<noteq> (peer, c) \<longrightarrow> remote_view d' peer' c' = remote_view d peer' c') \<and>
    (n = 0 \<longleftrightarrow> d' = d)"
  proof (cases "n = 0")
    case True
    then have "remote_view d peer c = map_of (map ref_pair refs)" using n fin by auto
    with True res assms(1) show ?thesis by simp
  next
    case False
    then have ins: "foldR (\<lambda>item. insert_remote peer c (ar_name item) (ar_head item)) refs
        (delete_remote peer c d) = Inr d'" using res by simp
    have d': "db_remote d' = filter (\<lambda>r. \<not> (rem_peer r = peer \<and> rem_context r = c)) (db_remote d) @ map ?row refs"
        "db_local d' = db_local d"
      using insert_remotes_Inr [OF ins] by (simp_all add: delete_remote_def)
    have "store_inv E d'"
      using insert_remotes_keep [OF ins delete_remote_keeps(1) [OF assms(1)] names(2)] stored names(1)
      by (auto simp: delete_remote_def)
    moreover have "db_grows d d'" using insert_remotes_Inr [OF ins] by (simp add: delete_remote_def)
    moreover have "filter (\<lambda>r. rem_peer r = peer \<and> rem_context r = c) (db_remote d') = map ?row refs"
      by (auto simp: d' filter_empty_conv filter_map comp_def)
    then have view: "remote_view d' peer c = map_of (map ref_pair refs)"
      by (simp add: remote_view_def remote_pair_def [abs_def] ref_pair_def [abs_def] comp_def)
    moreover have "remote_view d' peer' c' = remote_view d peer' c'" if "(peer', c') \<noteq> (peer, c)" for peer' c'
    proof -
      have "filter (\<lambda>r. rem_peer r = peer' \<and> rem_context r = c') (map ?row refs) = []"
        using that by (auto simp: filter_empty_conv)
      moreover have "filter (\<lambda>r. (rem_peer r = peer' \<and> rem_context r = c') \<and>
          \<not> (rem_peer r = peer \<and> rem_context r = c)) (db_remote d) =
        filter (\<lambda>r. rem_peer r = peer' \<and> rem_context r = c') (db_remote d)"
        using that by (intro filter_cong) auto
      ultimately show ?thesis by (simp add: remote_view_def d' conj_commute)
    qed
    moreover have "d' \<noteq> d"
    proof
      assume "d' = d"
      then have "n = 0" using n view by simp
      with False show False by simp
    qed
    ultimately show ?thesis using False d'(2) by simp
  qed
  then show "store_inv E d'" "db_grows d d'" "db_local d' = db_local d"
    "remote_view d' peer c = map_of (map ref_pair refs)" "n = 0 \<longleftrightarrow> d' = d"
    "\<And>peer' c'. (peer', c') \<noteq> (peer, c) \<Longrightarrow> remote_view d' peer' c' = remote_view d peer' c'"
    by blast+
qed

interpretation replace_refs: store_transaction "\<lambda>E. replace_ok"
  "\<lambda>E (peer, c, refs). replace_refs_tx E peer c refs"
proof
  fix E and p :: "string \<times> context_id \<times> advertised_ref list" and d v d'
  assume "replace_ok p" "store_inv E d" "(case p of (peer, c, refs) \<Rightarrow> replace_refs_tx E peer c refs) d = Inr (v, d')"
  then show "store_inv E d' \<and> db_grows d d'"
    using replace_refs_tx_Inr(1,2) by (cases p) auto
qed

lemma replace_remote_ref_snapshot_keeps:
  assumes "env_lawful E" "store_inv E d" "ref_name_wf peer" "\<forall>r \<in> set refs. ref_name_wf (ar_name r)"
  shows "keeps_store E d (snd (replace_remote_ref_snapshot E peer c refs oc d))"
  using replace_refs.run_keeps [OF assms(1) _ assms(2), of "(peer, c, refs)" oc] assms
    windows2_any_ge_iff [of ar_name refs]
  by (auto simp: replace_remote_ref_snapshot_def keeps_store_def replace_ok_def)

end
