(* ===== verification/Store_Spec.thy ===== *)
theory Store_Spec
  imports Store_Preserve
begin

text \<open>
  What admission promises, without tables: a store is a map of contexts, a set of authors, a
  map of events and a map of refs, and admitting an event is a function on that view. The
  transaction body of \<open>Store::admit\<close> implements it on every invariant store.
\<close>

section \<open>The view and its specification\<close>

record store_view =
  view_contexts :: "context_id \<rightharpoonup> event_id \<times> bool"
  view_authors :: "(context_id \<times> author_id) set"
  view_events :: "event_id \<rightharpoonup> signed_event"
  view_refs :: "context_id \<times> string \<rightharpoonup> event_id"

definition local_view :: "db \<Rightarrow> context_id \<times> string \<rightharpoonup> event_id" where
  "local_view d = (\<lambda>k. map_option ref_head (find (\<lambda>r. (ref_context r, ref_name r) = k) (db_local d)))"

definition context_view :: "db \<Rightarrow> context_id \<rightharpoonup> event_id \<times> bool" where
  "context_view d = (\<lambda>c. map_option (\<lambda>r. (ctx_expected r, ctx_state r = 1))
     (find (\<lambda>r. ctx_id r = c) (db_contexts d)))"

definition store_view :: "env \<Rightarrow> db \<Rightarrow> store_view" where
  "store_view E d = \<lparr>view_contexts = context_view d, view_authors = set (db_authors d),
     view_events = lookup_event E d, view_refs = local_view d\<rparr>"

text \<open>The first parent that is absent or belongs to another context.\<close>

fun spec_parents :: "(event_id \<rightharpoonup> signed_event) \<Rightarrow> context_id \<Rightarrow> event_id list \<Rightarrow> store_error + unit" where
  "spec_parents events c [] = Inr ()"
| "spec_parents events c (p # ps) =
     (case events p of
        None \<Rightarrow> Inl (ParentMissing p)
      | Some ev \<Rightarrow>
          if event_context ev \<noteq> c then Inl (ParentContextMismatch p) else spec_parents events c ps)"

fun spec_mutation ::
  "event_id \<Rightarrow> ref_mutation \<Rightarrow> (context_id \<times> string \<rightharpoonup> event_id) \<Rightarrow>
    store_error + (bool \<times> (context_id \<times> string \<rightharpoonup> event_id))" where
  "spec_mutation i NoMutation refs = Inr (False, refs)"
| "spec_mutation i (CompareAndSwap c n expected new_head) refs =
     (if refs (c, n) = Some new_head then Inr (True, refs)
      else if refs (c, n) = (case expected of Absent \<Rightarrow> None | Head e \<Rightarrow> Some e)
      then Inr (False, refs((c, n) \<mapsto> i))
      else Inl (StaleHead (refs (c, n))))"

definition spec_admit ::
  "signed_event \<Rightarrow> ref_mutation \<Rightarrow> store_view \<Rightarrow> store_error + (admission_status \<times> store_view)" where
  "spec_admit ev m v =
     (let i = ev_id ev; c = event_context ev in
      case view_contexts v c of
        None \<Rightarrow> Inl ContextUnknown
      | Some (expected, active) \<Rightarrow>
          if \<not> is_genesis_event expected ev \<and>
             (\<not> active \<or> event_parents ev = [] \<or> body_kind (ev_body ev) = ''context.genesis'')
          then Inl GenesisMismatch
          else if (c, body_author (ev_body ev)) \<notin> view_authors v then Inl UnauthorizedAuthor
          else bindR (spec_parents (view_events v) c (event_parents ev)) (\<lambda>_.
            if view_events v i \<noteq> None \<and> view_events v i \<noteq> Some ev then Inl EventCollision
            else bindR (spec_mutation i m (view_refs v)) (\<lambda>(applied, refs).
              Inr (admission_status_of applied (view_events v i = None),
                v\<lparr>view_contexts := (view_contexts v)(c \<mapsto> (expected, True)),
                  view_events := (view_events v)(i \<mapsto> ev), view_refs := refs\<rparr>))))"

section \<open>The readers compute the view\<close>

lemma context_row_of_view:
  assumes "store_inv E d"
  shows "context_row_of d c = Inr (map_option (\<lambda>(x, active). (x, if active then 1 else 0)) (context_view d c))"
proof (cases "find (\<lambda>r. ctx_id r = c) (db_contexts d)")
  case None
  then have "\<not> has_context d c" by (auto simp: find_None_iff has_context_def)
  then show ?thesis using context_row_of_None [of d c] None by (simp add: context_view_def)
next
  case (Some r)
  then have r: "r \<in> set (db_contexts d)" "ctx_id r = c" by (auto simp: find_Some_iff)
  then have "ctx_state r = 0 \<or> ctx_state r = 1"
    using assms by (auto simp: store_inv_def inv_contexts_def context_ok_def)
  then show ?thesis using context_row_of_row [OF assms r(1)] r(2) Some by (auto simp: context_view_def)
qed

lemma query_local_view:
  assumes "store_inv E d"
  shows "query_local d c n = Inr (local_view d (c, n))"
proof -
  have dist: "distinct (map (\<lambda>r. (ref_context r, ref_name r)) (db_local d))"
    using assms by (simp add: store_inv_def inv_keys_def)
  have same: "filter (\<lambda>r. ref_context r = c \<and> ref_name r = n) (db_local d) =
      filter (\<lambda>r. (ref_context r, ref_name r) = (c, n)) (db_local d)" by simp
  show ?thesis
  proof (cases "(c, n) \<in> (\<lambda>r. (ref_context r, ref_name r)) ` set (db_local d)")
    case True
    then obtain r where r: "r \<in> set (db_local d)" "(ref_context r, ref_name r) = (c, n)" by auto
    show ?thesis
      by (simp only: query_local_def same filter_key_eq [OF dist r] local_view_def
          find_key_eq [OF dist r] at_most_one_def list.map list.case option.map)
  next
    case False
    show ?thesis
      by (simp only: query_local_def same filter_key_absent [OF False] local_view_def
          find_key_absent [OF False] at_most_one_def list.map list.case option.map)
  qed
qed

lemma check_parents_view:
  assumes "store_inv E d"
  shows "check_parents E d c ps = spec_parents (lookup_event E d) c ps"
proof (induction ps)
  case (Cons p ps)
  then show ?case
    by (cases "lookup_event E d p") (simp_all add: check_parents_def authoritative_lookup [OF assms])
qed (simp add: check_parents_def)

section \<open>Recording never fails on a checked event\<close>

lemma insert_edges_ok:
  assumes "distinct ps" "length ps \<le> 64" "has_event d i" "\<forall>p \<in> set ps. has_event d p"
    and "edges_of d i = []"
  shows "insert_edges i ps d = Inr (d\<lparr>db_edges := db_edges d @ mk_edges i ps\<rparr>)"
proof -
  let ?row = "\<lambda>(n, p). \<lparr>edge_child = i, edge_ordinal = int n, edge_parent = p\<rparr>"
  have "foldR (\<lambda>(n, p). insert_edge i (int n) p) xs d' = Inr (d'\<lparr>db_edges := db_edges d' @ map ?row xs\<rparr>)"
    if "distinct (map fst xs)" "distinct (map snd xs)" "\<forall>x \<in> set xs. fst x < 64 \<and> has_event d' (snd x)"
      "has_event d' i" "\<forall>e \<in> set (db_edges d'). edge_child e = i \<longrightarrow>
        (\<forall>x \<in> set xs. edge_ordinal e \<noteq> int (fst x) \<and> edge_parent e \<noteq> snd x)" for xs d'
    using that
  proof (induction xs arbitrary: d')
    case (Cons x xs)
    obtain n p where x: "x = (n, p)" by fastforce
    let ?d = "d'\<lparr>db_edges := db_edges d' @ [?row x]\<rparr>"
    have "\<not> list_ex (\<lambda>e. edge_child e = i \<and> (edge_ordinal e = int n \<or> edge_parent e = p)) (db_edges d')"
      using Cons.prems(5) by (auto simp: x list_ex_iff)
    then have "insert_edge i (int n) p d' = Inr ?d"
      using Cons.prems(3,4) by (simp add: x insert_edge_def)
    moreover have "foldR (\<lambda>(n, p). insert_edge i (int n) p) xs ?d =
        Inr (?d\<lparr>db_edges := db_edges ?d @ map ?row xs\<rparr>)"
    proof (rule Cons.IH)
      show "distinct (map fst xs)" "distinct (map snd xs)" using Cons.prems(1,2) by auto
      show "\<forall>x \<in> set xs. fst x < 64 \<and> has_event ?d (snd x)" "has_event ?d i" using Cons.prems(3,4) by auto
      have "n \<noteq> fst y \<and> p \<noteq> snd y" if "y \<in> set xs" for y
        using Cons.prems(1,2) that by (auto simp: x)
      then show "\<forall>e \<in> set (db_edges ?d). edge_child e = i \<longrightarrow>
          (\<forall>x \<in> set xs. edge_ordinal e \<noteq> int (fst x) \<and> edge_parent e \<noteq> snd x)"
        using Cons.prems(5) by (auto simp: x)
    qed
    ultimately show ?case by (simp add: x)
  qed simp
  note loop = this
  have "edge_child e \<noteq> i" if "e \<in> set (db_edges d)" for e
    using assms(5) that by (simp add: edges_of_def filter_empty_conv)
  moreover have "\<forall>x \<in> set (List.enumerate 0 ps). fst x < 64 \<and> has_event d (snd x)"
    using assms(2,4) by (auto simp: in_set_enumerate_eq)
  ultimately show ?thesis
    unfolding insert_edges_def mk_edges_def
    using assms(1,3) by (intro loop) (auto simp: map_fst_enumerate)
qed

lemma activate_fresh:
  assumes "store_inv E d" "r \<in> set (db_contexts d)" "ctx_state r = 0" "\<not> has_event d (ctx_expected r)"
    and "db_contexts d' = db_contexts d"
  shows "activate_context (ctx_expected r) (ctx_id r) d' =
    Inr (1, d'\<lparr>db_contexts := settle (ctx_expected r) (ctx_id r) (db_contexts d')\<rparr>)"
proof -
  note inv = store_invD [OF assms(1)]
  have dist: "distinct (map ctx_id (db_contexts d))" by (rule inv_distinct_contexts [OF assms(1)])
  have only: "activation_applies (ctx_expected r) (ctx_id r) q \<longleftrightarrow> q = r" if "q \<in> set (db_contexts d)" for q
    using that assms(2,3) dist by (auto simp: activation_applies_def distinct_map dest: inj_onD)
  have "filter (\<lambda>q. ctx_id q = ctx_id r) (db_contexts d) = [r]"
    by (rule filter_key [OF dist assms(2)])
  moreover have "filter (activation_applies (ctx_expected r) (ctx_id r)) (db_contexts d) =
      filter (\<lambda>q. ctx_id q = ctx_id r) (db_contexts d)"
    using only assms(2) dist by (intro filter_cong) (auto simp: distinct_map dest: inj_onD)
  ultimately have hits: "filter (activation_applies (ctx_expected r) (ctx_id r)) (db_contexts d) = [r]" by simp
  have "ctx_genesis q \<noteq> Some (ctx_expected r)" if "q \<in> set (db_contexts d)" for q
  proof
    assume "ctx_genesis q = Some (ctx_expected r)"
    moreover have "context_ok E (db_events d) q" using inv(8) that by (simp add: inv_contexts_def)
    ultimately obtain y where "y \<in> set (db_events d)" "er_id y = ctx_expected r"
      by (auto simp: context_ok_def genesis_row_def)
    then show False using assms(4) has_event_row by metis
  qed
  moreover have "ctx_genesis r = None"
    using inv(8) assms(2,3) by (auto simp: inv_contexts_def context_ok_def)
  ultimately show ?thesis
    using hits assms(5) by (auto simp: activate_context_def Let_def list_ex_iff settle_def)
qed

lemma record_succeeds:
  assumes "env_lawful E" "store_inv E d" "wire_of E ev w"
    and "context_row_of d (event_context ev) = Inr (Some (x, s))" "event_guards E d x s ev"
    and "event_wire d (ev_id ev) = Inr None"
  obtains d1 where "record_event E ev w verified None d = Inr (True, d1)"
    "activate_pending s (ev_id ev) (event_context ev) d1 = Inr (put_event E (new_row ev w) d)"
    "\<not> (s = 1 \<and> is_genesis_event x ev)" "admissible E d (new_row ev w)"
proof -
  let ?i = "ev_id ev" and ?c = "event_context ev"
  note inv = store_invD [OF assms(2)]
  have fresh: "\<not> has_event d ?i"
    using event_wire_lookup [OF assms(2), of ?i] assms(6) lookup_event_None [OF assms(2)] by auto
  obtain r where r: "r \<in> set (db_contexts d)" "ctx_id r = ?c" "ctx_expected r = x" "ctx_state r = s"
      "s = 0 \<or> s = 1"
    by (rule context_row_of_unique [OF assms(2,4)]) blast
  have valid: "validate_body E (ev_body ev) = Inr ()"
    using assms(3) by (auto simp: wire_of_def to_wire_Inr_iff intro: verify_event_valid)
  have parents: "distinct (event_parents ev)" "length (event_parents ev) \<le> 64"
    using valid by (auto simp: validate_body_iff event_parents_def MAX_PARENTS_def strictly_sorted_distinct)
  have stored: "\<forall>p \<in> set (event_parents ev). stored_in d p ?c"
    using assms(5) check_parents_iff [OF assms(2)] by (simp add: event_guards_def)
  let ?d0 = "d\<lparr>db_events := db_events d @ [new_row ev w]\<rparr>"
  have ins: "insert_event ?i ?c (body_author (ev_body ev)) (body_kind (ev_body ev)) w d = Inr ?d0"
    using fresh r(1) r(2) [symmetric] by (auto simp: insert_event_Inr has_context_def new_row_def)
  have "edges_of ?d0 ?i = []"
    using inv(5) fresh by (auto simp: edges_of_def filter_empty_conv inv_edges_def)
  then have edges: "insert_edges ?i (event_parents ev) ?d0 =
      Inr (?d0\<lparr>db_edges := db_edges ?d0 @ mk_edges ?i (event_parents ev)\<rparr>)" (is "_ = Inr ?d1")
    using parents stored stored_in_has_event
    by (intro insert_edges_ok) (auto simp: has_event_def stored_in_def)
  have rec: "record_event E ev w verified None d = Inr (True, ?d1)"
    using ins edges by (simp add: record_event_def Let_def event_context_def event_parents_def)
  have same: "db_contexts ?d1 = db_contexts d" by simp
  have "\<exists>d3. activate_pending s ?i ?c ?d1 = Inr d3"
  proof (cases "s = 0")
    case True
    then have "?i = ctx_expected r" using assms(5) r by (simp add: event_guards_def is_genesis_event_def)
    then have "\<exists>d3. activate_context ?i ?c ?d1 = Inr (1, d3)"
      using activate_fresh [OF assms(2) r(1) _ _ same] True r fresh by auto
    then show ?thesis using True by (auto simp: activate_pending_def)
  qed (simp add: activate_pending_def)
  then obtain d3 where act: "activate_pending s ?i ?c ?d1 = Inr d3" by blast
  note new = record_new_event [OF assms(1-5) ins edges act]
  have "\<not> (s = 1 \<and> is_genesis_event x ev)"
  proof
    assume "s = 1 \<and> is_genesis_event x ev"
    then have "ctx_expected r = ?i" "ctx_state r = 1" using r by (auto simp: is_genesis_event_def)
    moreover have "context_ok E (db_events d) r" using inv(8) r(1) by (simp add: inv_contexts_def)
    ultimately obtain y where "y \<in> set (db_events d)" "er_id y = ?i"
      by (auto simp: context_ok_def genesis_row_def)
    then show False using fresh has_event_row by metis
  qed
  then show thesis using that [OF rec _ _ new(2)] act new(1) by simp
qed

section \<open>The view after each step\<close>

lemma lookup_put_event:
  assumes "env_lawful E" "wire_of E ev w" "\<not> has_event d (ev_id ev)"
  shows "lookup_event E (put_event E (new_row ev w) d) = (lookup_event E d)(ev_id ev \<mapsto> norm_event ev)"
proof
  fix i
  have "from_wire E w = Inr (norm_event ev)"
    using assms(1,2) by (intro from_wire_to_wire) (auto simp: wire_of_def)
  moreover have "find (\<lambda>r. er_id r = ev_id ev) (db_events d) = None"
    using assms(3) by (intro find_key_absent) (simp add: has_event_def)
  ultimately show "lookup_event E (put_event E (new_row ev w) d) i =
      ((lookup_event E d)(ev_id ev \<mapsto> norm_event ev)) i"
    by (auto simp: lookup_event_def put_event_def find_append split: option.split)
qed

lemma find_settle:
  "find (\<lambda>r. ctx_id r = c) (settle i c' rows) =
    map_option (\<lambda>r. if activation_applies i c' r then r\<lparr>ctx_genesis := Some i, ctx_state := 1\<rparr> else r)
      (find (\<lambda>r. ctx_id r = c) rows)"
  by (induction rows) (auto simp: settle_def)

lemma context_view_put_event:
  assumes "store_inv E d" "admissible E d r" "context_view d (er_context r) = Some (x, active)"
  shows "context_view (put_event E r d) = (context_view d)(er_context r \<mapsto> (x, True))"
proof
  fix c
  obtain q where q: "find (\<lambda>r'. ctx_id r' = er_context r) (db_contexts d) = Some q" "ctx_expected q = x"
    using assms(3) by (auto simp: context_view_def)
  then have q': "q \<in> set (db_contexts d)" "ctx_id q = er_context r" by (auto simp: find_Some_iff)
  obtain y where y: "y \<in> set (db_contexts d)" "ctx_id y = er_context r"
      "if ctx_state y = 0 then genesis_row E y r else root_row E r \<longrightarrow> er_id r = ctx_expected y"
    using assms(2) by (auto simp: admissible_def)
  have "y = q"
    using y(1,2) q' inv_distinct_contexts [OF assms(1)] by (metis inj_on_contraD distinct_map)
  moreover have "ctx_state q = 0 \<or> ctx_state q = 1"
    using assms(1) q'(1) by (auto simp: store_inv_def inv_contexts_def context_ok_def)
  ultimately have "activation_applies (er_id r) (er_context r) q \<or> ctx_state q = 1"
    using y q' by (auto simp: activation_applies_def genesis_row_def)
  then have same: "context_view (put_event E r d) (er_context r) = Some (x, True)"
    using q by (auto simp: context_view_def put_event_def find_settle)
  show "context_view (put_event E r d) c = ((context_view d)(er_context r \<mapsto> (x, True))) c"
  proof (cases "c = er_context r")
    case False
    then have "\<not> activation_applies (er_id r) (er_context r) y"
      if "find (\<lambda>r. ctx_id r = c) (db_contexts d) = Some y" for y
      using that by (auto simp: activation_applies_def find_Some_iff)
    with False show ?thesis
      by (cases "find (\<lambda>r. ctx_id r = c) (db_contexts d)")
        (auto simp: context_view_def put_event_def find_settle)
  qed (simp add: same)
qed

lemma apply_mutation_view:
  assumes "store_inv E d" "mutation_target d i m"
  shows "map_sum id (\<lambda>(b, d'). (b, store_view E d')) (apply_ref_mutation i m d) =
    map_sum id (\<lambda>(b, refs). (b, store_view E d\<lparr>view_refs := refs\<rparr>)) (spec_mutation i m (local_view d))"
proof (cases m)
  case NoMutation
  then show ?thesis by (simp add: store_view_def)
next
  case (CompareAndSwap c n expected h)
  let ?cur = "local_view d (c, n)"
  have query: "query_local d c n = Inr ?cur" by (rule query_local_view [OF assms(1)])
  have target: "stored_in d i c" using assms(2) CompareAndSwap by simp
  then have ev: "has_event d i" by (rule stored_in_has_event)
  have ctx: "has_context d c"
    using assms(1) target
    by (force simp: store_inv_def inv_roots_def row_in_context_def stored_in_def has_context_def)
  have dist: "distinct (map (\<lambda>r. (ref_context r, ref_name r)) (db_local d))"
    using assms(1) by (simp add: store_inv_def inv_keys_def)
  have views: "store_view E (d\<lparr>db_local := ls\<rparr>) = store_view E d\<lparr>view_refs := local_view (d\<lparr>db_local := ls\<rparr>)\<rparr>"
    for ls by (simp add: store_view_def context_view_def lookup_event_def fun_eq_iff)
  have same: "store_view E d\<lparr>view_refs := local_view d\<rparr> = store_view E d" by (simp add: store_view_def)
  show ?thesis
  proof (cases ?cur)
    case None
    then have absent: "\<forall>r \<in> set (db_local d). \<not> (ref_context r = c \<and> ref_name r = n)"
      by (auto simp: local_view_def find_None_iff)
    let ?ls = "db_local d @ [\<lparr>ref_context = c, ref_name = n, ref_head = i\<rparr>]"
    have "insert_local c n i d = Inr (d\<lparr>db_local := ?ls\<rparr>)"
      using absent ev ctx by (auto simp: insert_local_def list_ex_iff)
    moreover have "local_view (d\<lparr>db_local := ?ls\<rparr>) = (local_view d)((c, n) \<mapsto> i)"
    proof
      fix k
      have "find (\<lambda>r. ref_context r = c \<and> ref_name r = n) (db_local d) = None"
        using absent by (simp add: find_None_iff)
      then show "local_view (d\<lparr>db_local := ?ls\<rparr>) k = ((local_view d)((c, n) \<mapsto> i)) k"
        by (cases "k = (c, n)") (auto simp: local_view_def find_append split: option.split)
    qed
    ultimately show ?thesis
      using query None CompareAndSwap by (cases expected) (auto simp: views)
  next
    case (Some cur)
    then obtain r where "find (\<lambda>r. (ref_context r, ref_name r) = (c, n)) (db_local d) = Some r"
        "ref_head r = cur" by (auto simp: local_view_def)
    then have r: "r \<in> set (db_local d)" "(ref_context r, ref_name r) = (c, n)" "ref_head r = cur"
      by (auto simp: find_Some_iff)
    let ?hit = "\<lambda>q. ref_context q = c \<and> ref_name q = n \<and> ref_head q = cur"
    let ?ls = "map (\<lambda>q. if ?hit q then q\<lparr>ref_head := i\<rparr> else q) (db_local d)"
    have "filter (\<lambda>q. (ref_context q, ref_name q) = (c, n)) (db_local d) = [r]"
      by (rule filter_key_eq [OF dist r(1,2)])
    then have "filter (\<lambda>q. ref_head q = cur) (filter (\<lambda>q. (ref_context q, ref_name q) = (c, n)) (db_local d)) = [r]"
      using r(3) by simp
    then have hits: "filter ?hit (db_local d) = [r]" by (simp add: conj_ac)
    have upd: "update_local i c n cur d = Inr (1, d\<lparr>db_local := ?ls\<rparr>)"
      using hits ev by (simp add: update_local_def Let_def)
    have "local_view (d\<lparr>db_local := ?ls\<rparr>) k = ((local_view d)((c, n) \<mapsto> i)) k" for k
    proof -
      have keys: "find (\<lambda>q. (ref_context q, ref_name q) = k) (map (\<lambda>q. if ?hit q then q\<lparr>ref_head := i\<rparr> else q) ls) =
          map_option (\<lambda>q. if ?hit q then q\<lparr>ref_head := i\<rparr> else q) (find (\<lambda>q. (ref_context q, ref_name q) = k) ls)" for ls
        by (induction ls) auto
      show ?thesis
      proof (cases "k = (c, n)")
        case True
        have "find (\<lambda>q. (ref_context q, ref_name q) = (c, n)) (db_local d) = Some r"
          by (rule find_key_eq [OF dist r(1,2)])
        with True keys [of "db_local d"]
        have "find (\<lambda>q. (ref_context q, ref_name q) = k) ?ls = Some (r\<lparr>ref_head := i\<rparr>)"
          using r by simp
        then show ?thesis using True by (simp add: local_view_def)
      next
        case False
        then show ?thesis
          using keys [of "db_local d"]
          by (cases "find (\<lambda>q. (ref_context q, ref_name q) = k) (db_local d)")
            (auto simp: local_view_def dest: find_SomeD)
      qed
    qed
    then have "local_view (d\<lparr>db_local := ?ls\<rparr>) = (local_view d)((c, n) \<mapsto> i)" by auto
    then show ?thesis
      using query Some CompareAndSwap upd same by (cases expected) (auto simp: views)
  qed
qed

section \<open>Admission implements its specification\<close>

lemma bindR_cases: "bindR m f = (case m of Inl e \<Rightarrow> Inl e | Inr x \<Rightarrow> f x)"
  by (simp add: bindR_def)

lemma map_sum_bindR:
  "map_sum id g (bindR m f) = bindR m (\<lambda>x. map_sum id g (f x))"
  by (cases m) auto

lemma bindR_map_sum: "bindR (map_sum id g m) f = bindR m (\<lambda>x. f (g x))"
  by (cases m) auto

text \<open>The stored bytes are those of the event at hand exactly when the events agree.\<close>

lemma stored_wire_eq:
  assumes "env_lawful E" "wire_of E ev w" "from_wire E w' = Inr ev'" "to_wire E ev' = Inr w'"
  shows "w' = w \<longleftrightarrow> ev' = norm_event ev"
  using from_wire_to_wire [OF assms(1), of ev w] from_wire_to_wire_eq(2) [OF assms(1), of ev w] assms(2-4)
  by (auto simp: wire_of_def)

lemma is_genesis_norm [simp]: "is_genesis_event x (norm_event ev) = is_genesis_event x ev"
  by (simp add: is_genesis_event_def)

lemma norm_event_spec [simp]:
  "body_kind (ev_body (norm_event ev)) = body_kind (ev_body ev)"
  "body_author (ev_body (norm_event ev)) = body_author (ev_body ev)"
  "event_context (norm_event ev) = event_context ev" "event_parents (norm_event ev) = event_parents ev"
  by (simp_all add: event_context_def event_parents_def)

lemma store_view_put_event:
  assumes "env_lawful E" "store_inv E d" "wire_of E ev w" "admissible E d (new_row ev w)"
    and "context_view d (event_context ev) = Some (x, active)"
  shows "store_view E (put_event E (new_row ev w) d) =
    store_view E d\<lparr>view_contexts := (context_view d)(event_context ev \<mapsto> (x, True)),
      view_events := (lookup_event E d)(ev_id ev \<mapsto> norm_event ev)\<rparr>"
proof -
  have "\<not> has_event d (ev_id ev)" using assms(4) by (simp add: admissible_def)
  then have "lookup_event E (put_event E (new_row ev w) d) = (lookup_event E d)(ev_id ev \<mapsto> norm_event ev)"
    by (rule lookup_put_event [OF assms(1,3)])
  moreover have "context_view (put_event E (new_row ev w) d) =
      (context_view d)(event_context ev \<mapsto> (x, True))"
    using context_view_put_event [OF assms(2,4), of x active] assms(5) by simp
  moreover have "local_view (put_event E (new_row ev w) d) = local_view d"
    by (simp add: local_view_def put_event_def fun_eq_iff)
  ultimately show ?thesis by (simp add: store_view_def) (simp add: put_event_def)
qed

theorem admit_tx_refines:
  assumes "env_lawful E" "store_inv E d" "wire_of E ev w" "mutation_matches ev m" "mutation_wf m"
  shows "map_sum id (\<lambda>(st, d'). (st, store_view E d')) (admit_tx E ev w (norm_event ev) m d) =
    spec_admit (norm_event ev) m (store_view E d)"
proof -
  let ?i = "ev_id ev" and ?c = "event_context ev" and ?a = "body_author (ev_body ev)"
  let ?view = "map_sum id (\<lambda>(st, d'). (st, store_view E d'))"
  have target: "mutation_target d1 ?i m" if "stored_in d1 ?i ?c" for d1
    using that assms(4,5) by (cases m) (auto simp: event_context_def)
  show ?thesis
  proof (cases "context_view d ?c")
    case None
    then show ?thesis
      using context_row_of_view [OF assms(2), of ?c]
      by (simp add: admit_tx_def spec_admit_def Let_def event_context_def store_view_def)
  next
    case (Some xa)
    obtain x active where xa: "xa = (x, active)" by fastforce
    define s :: int where "s = (if active then 1 else 0)"
    have row: "context_row_of d ?c = Inr (Some (x, s))"
      using context_row_of_view [OF assms(2), of ?c] Some xa by (simp add: s_def)
    have auth: "is_authorized d ?c ?a \<longleftrightarrow> (?c, ?a) \<in> set (db_authors d)"
      by (rule is_authorized_iff [OF assms(2)])
    have parents: "check_parents E d ?c (event_parents ev) = spec_parents (lookup_event E d) ?c (event_parents ev)"
      by (rule check_parents_view [OF assms(2)])
    define bad where "bad \<longleftrightarrow> \<not> is_genesis_event x ev \<and>
      (\<not> active \<or> event_parents ev = [] \<or> body_kind (ev_body ev) = ''context.genesis'')"
    let ?rest = "bindR (event_wire d ?i) (\<lambda>existing.
           if s = 1 \<and> is_genesis_event x ev \<and> existing = None then Inl CorruptStorage
           else
             bindR (record_event E ev w (norm_event ev) existing d) (\<lambda>(inserted, d1).
             bindR (activate_pending s ?i ?c d1) (\<lambda>d2.
             bindR (apply_ref_mutation ?i m d2) (\<lambda>(already_applied, d3).
               Inr (admission_status_of already_applied inserted, d3)))))"
    have lhs: "admit_tx E ev w (norm_event ev) m d =
        (if bad then Inl GenesisMismatch
         else if \<not> is_authorized d ?c ?a then Inl UnauthorizedAuthor
         else bindR (check_parents E d ?c (event_parents ev)) (\<lambda>_. ?rest))"
    proof -
      have s: "s = 0 \<longleftrightarrow> \<not> active" "s = 1 \<longleftrightarrow> active" by (auto simp: s_def)
      show ?thesis
        using row unfolding admit_tx_def Let_def bad_def event_context_def event_parents_def
        by (simp add: s)
    qed
    let ?v = "store_view E d"
    let ?srest = "if view_events ?v ?i \<noteq> None \<and> view_events ?v ?i \<noteq> Some (norm_event ev) then Inl EventCollision
            else bindR (spec_mutation ?i m (view_refs ?v)) (\<lambda>(applied, refs).
              Inr (admission_status_of applied (view_events ?v ?i = None),
                ?v\<lparr>view_contexts := (view_contexts ?v)(?c \<mapsto> (x, True)),
                  view_events := (view_events ?v)(?i \<mapsto> norm_event ev), view_refs := refs\<rparr>))"
    have rhs: "spec_admit (norm_event ev) m ?v =
        (if bad then Inl GenesisMismatch
         else if (?c, ?a) \<notin> set (db_authors d) then Inl UnauthorizedAuthor
         else bindR (spec_parents (lookup_event E d) ?c (event_parents ev)) (\<lambda>_. ?srest))"
      using Some xa by (simp add: spec_admit_def Let_def store_view_def bad_def)
    have rest: "?view ?rest = ?srest"
      if ok: "\<not> bad" "is_authorized d ?c ?a" "check_parents E d ?c (event_parents ev) = Inr ()"
    proof -
      have guards: "event_guards E d x s ev"
        using ok by (auto simp: event_guards_def bad_def s_def)
      show ?thesis
      proof (cases "lookup_event E d ?i")
        case None
        then have absent: "event_wire d ?i = Inr None" using event_wire_lookup [OF assms(2), of ?i] by auto
        obtain d1 where rec: "record_event E ev w (norm_event ev) None d = Inr (True, d1)"
          "activate_pending s ?i ?c d1 = Inr (put_event E (new_row ev w) d)"
          "\<not> (s = 1 \<and> is_genesis_event x ev)" "admissible E d (new_row ev w)"
          by (rule record_succeeds [OF assms(1-3) row guards absent, of "norm_event ev"])
        let ?d2 = "put_event E (new_row ev w) d"
        have inv2: "store_inv E ?d2" by (rule inv_put_event [OF assms(2) rec(4)])
        have view2: "store_view E ?d2 = ?v\<lparr>view_contexts := (view_contexts ?v)(?c \<mapsto> (x, True)),
            view_events := (view_events ?v)(?i \<mapsto> norm_event ev)\<rparr>" and refs2: "local_view ?d2 = view_refs ?v"
          using store_view_put_event [OF assms(1-3) rec(4)] Some xa
          by (simp_all add: store_view_def)
        have "mutation_target ?d2 ?i m" by (rule target) simp
        note mut = apply_mutation_view [OF inv2 this]
        have "?view ?rest = bindR (map_sum id (\<lambda>(b, d'). (b, store_view E d')) (apply_ref_mutation ?i m ?d2))
            (\<lambda>(applied, v). Inr (admission_status_of applied True, v))"
          using absent rec(1-3) by (auto simp: bindR_cases split: sum.split)
        also have "\<dots> = ?srest"
          unfolding mut view2 refs2 using None
          by (auto simp: bindR_cases store_view_def split: sum.split)
        finally show ?thesis .
      next
        case (Some ev')
        obtain w' where w': "event_wire d ?i = Inr (Some w')" "from_wire E w' = Inr ev'" "to_wire E ev' = Inr w'"
          by (rule event_wire_Some [OF assms(2) Some])
        have same: "w' = w \<longleftrightarrow> ev' = norm_event ev" by (rule stored_wire_eq [OF assms(1,3) w'(2,3)])
        have valid: "validate_stored_event E d ev' = Inr ()" by (rule validate_stored_lookup [OF assms(2) Some])
        show ?thesis
        proof (cases "ev' = norm_event ev")
          case False
          then show ?thesis
            using w'(1) same Some by (simp add: record_event_def store_view_def)
        next
          case True
          have stored: "stored_in d ?i ?c" using Some True stored_in_iff [OF assms(2)] by auto
          then have s: "s = 1" by (rule stored_context_active [OF assms(2) row])
          then have active by (simp add: s_def split: if_splits)
          then have noctx: "(context_view d)(?c \<mapsto> (x, True)) = context_view d"
            using \<open>context_view d ?c = Some xa\<close> xa by auto
          have noev: "(lookup_event E d)(?i \<mapsto> norm_event ev) = lookup_event E d"
            using Some True by auto
          note mut = apply_mutation_view [OF assms(2) target [OF stored]]
          have "?view ?rest = bindR (map_sum id (\<lambda>(b, d'). (b, store_view E d')) (apply_ref_mutation ?i m d))
              (\<lambda>(applied, v). Inr (admission_status_of applied False, v))"
            using w'(1) same True valid s
            by (auto simp: record_event_def activate_pending_def bindR_cases split: sum.split)
          also have "\<dots> = ?srest"
            unfolding mut using Some True
            by (auto simp: bindR_cases store_view_def noctx noev split: sum.split)
          finally show ?thesis .
        qed
      qed
    qed
    show ?thesis
      unfolding lhs rhs using auth parents rest
      by (cases "spec_parents (lookup_event E d) ?c (event_parents ev)") auto
  qed
qed

end
