(* ===== verification/Store_System.thy ===== *)
theory Store_System
  imports Store_Sync Store_Spec
begin

text \<open>
  The store as a state machine: the write operations of \<open>ContextStore\<close> are its commands, a
  step runs one of them with any outcome of its commit, and a store is reachable when commands
  with well-typed arguments lead to it from the empty database that opening a fresh file
  creates. Every reachable store satisfies the integrity invariant, and every step grows it.
\<close>

section \<open>Commands and steps\<close>

datatype store_command =
    ProvisionContext context_provision
  | JoinContext context_provision
  | AuthorizeAuthor context_id author_id
  | Admit signed_event ref_mutation
  | AdmitWire bytes ref_mutation
  | CreateContext signing_identity string "bytes option"
  | Append signing_identity context_id string event_id string json
  | Merge signing_identity context_id string event_id "event_id list" json
  | CreateBranch context_id string event_id
  | SetRemoteRef string context_id string event_id
  | ImportBundle string bytes bundle_limits
  | ReplaceRemoteRefs string context_id "advertised_ref list"

text \<open>The typing of the arguments: identifiers of 32 bytes and names that were parsed.\<close>

fun command_ok :: "store_command \<Rightarrow> bool" where
  "command_ok (ProvisionContext p) = provision_wf p"
| "command_ok (JoinContext p) = provision_wf p"
| "command_ok (AuthorizeAuthor c a) = author_id_wf a"
| "command_ok (Admit ev m) = (event_wf ev \<and> mutation_wf m)"
| "command_ok (AdmitWire w m) = mutation_wf m"
| "command_ok (CreateContext idn n entropy) =
     (ref_name_wf n \<and> (case entropy of Some b \<Rightarrow> length b = 32 | None \<Rightarrow> True))"
| "command_ok (Append idn c n x kind payload) =
     (context_id_wf c \<and> event_id_wf x \<and> ref_name_wf n \<and> json_wf payload)"
| "command_ok (Merge idn c n x ps payload) =
     (context_id_wf c \<and> (\<forall>p \<in> set ps. event_id_wf p) \<and> ref_name_wf n \<and> json_wf payload)"
| "command_ok (CreateBranch c n i) = ref_name_wf n"
| "command_ok (SetRemoteRef p c n i) = (ref_name_wf p \<and> ref_name_wf n)"
| "command_ok (ImportBundle p w limits) = ref_name_wf p"
| "command_ok (ReplaceRemoteRefs p c refs) =
     (ref_name_wf p \<and> (\<forall>r \<in> set refs. ref_name_wf (ar_name r)))"

definition reply_of :: "(store_error + 'a) \<times> db \<Rightarrow> store_error option \<times> db" where
  "reply_of r = ((case fst r of Inl e \<Rightarrow> Some e | Inr _ \<Rightarrow> None), snd r)"

lemma reply_of_simps [simp]:
  "reply_of (Inl e, d) = (Some e, d)" "reply_of (Inr v, d) = (None, d)" "snd (reply_of r) = snd r"
  by (simp_all add: reply_of_def)

fun run_command ::
  "env \<Rightarrow> store_command \<Rightarrow> commit_outcome \<Rightarrow> db \<Rightarrow> store_error option \<times> db" where
  "run_command E (ProvisionContext p) oc d = reply_of (provision_context E p oc d)"
| "run_command E (JoinContext p) oc d = reply_of (join_context E p oc d)"
| "run_command E (AuthorizeAuthor c a) oc d = reply_of (authorize_author c a oc d)"
| "run_command E (Admit ev m) oc d = reply_of (admit E ev m oc d)"
| "run_command E (AdmitWire w m) oc d = reply_of (admit_wire E w m oc d)"
| "run_command E (CreateContext idn n entropy) oc d = reply_of (create_context E idn n entropy oc d)"
| "run_command E (Append idn c n x kind payload) oc d =
     reply_of (append E idn c n x kind payload oc d)"
| "run_command E (Merge idn c n x ps payload) oc d =
     reply_of (merge E idn c n x ps payload oc d)"
| "run_command E (CreateBranch c n i) oc d = reply_of (create_branch E c n i oc d)"
| "run_command E (SetRemoteRef p c n i) oc d = reply_of (set_remote_ref E p c n i oc d)"
| "run_command E (ImportBundle p w limits) oc d = reply_of (import_bundle E p w limits oc d)"
| "run_command E (ReplaceRemoteRefs p c refs) oc d =
     reply_of (replace_remote_ref_snapshot E p c refs oc d)"

inductive store_step :: "env \<Rightarrow> db \<Rightarrow> store_error option \<Rightarrow> db \<Rightarrow> bool" for E where
  run: "command_ok cmd \<Longrightarrow> run_command E cmd oc d = (reply, d') \<Longrightarrow> store_step E d reply d'"

inductive store_steps :: "env \<Rightarrow> db \<Rightarrow> db \<Rightarrow> bool" for E where
  refl: "store_steps E d d"
| step: "store_steps E d d' \<Longrightarrow> store_step E d' reply d'' \<Longrightarrow> store_steps E d d''"

definition store_reachable :: "env \<Rightarrow> db \<Rightarrow> bool" where
  "store_reachable E d \<longleftrightarrow> store_steps E empty_db d"

inductive_cases store_stepE: "store_step E d reply d'"
inductive_simps store_step_iff: "store_step E d reply d'"

section \<open>Every command keeps the store\<close>

lemma run_command_keeps:
  assumes "env_lawful E" "store_inv E d" "command_ok cmd"
  shows "keeps_store E d (snd (run_command E cmd oc d))"
  using assms
  by (cases cmd)
    (simp_all add: store_core_keeps import_bundle_keeps replace_remote_ref_snapshot_keeps
      split: option.splits)

lemma store_step_keeps:
  "env_lawful E \<Longrightarrow> store_inv E d \<Longrightarrow> store_step E d reply d' \<Longrightarrow> keeps_store E d d'"
  using run_command_keeps [of E d] by (metis store_stepE snd_conv)

lemma store_steps_keeps:
  "store_steps E d d' \<Longrightarrow> env_lawful E \<Longrightarrow> store_inv E d \<Longrightarrow> keeps_store E d d'"
proof (induction rule: store_steps.induct)
  case (refl d)
  then show ?case by (simp add: keeps_store_refl)
next
  case (step d d' reply d'')
  then have "keeps_store E d d'" "keeps_store E d' d''"
    using store_step_keeps by (auto simp: keeps_store_def)
  then show ?case using db_grows_trans by (auto simp: keeps_store_def)
qed

lemma reachable_inv: "env_lawful E \<Longrightarrow> store_reachable E d \<Longrightarrow> store_inv E d"
  using store_steps_keeps [of E empty_db d] store_inv_empty
  by (simp add: store_reachable_def keeps_store_def)

lemma reachable_step:
  "store_reachable E d \<Longrightarrow> command_ok cmd \<Longrightarrow> store_reachable E (snd (run_command E cmd oc d))"
  unfolding store_reachable_def
  using store_steps.step store_step.run surjective_pairing by metis

lemma store_steps_trans: "store_steps E d' d'' \<Longrightarrow> store_steps E d d' \<Longrightarrow> store_steps E d d''"
  by (induction rule: store_steps.induct) (auto intro: store_steps.step)

end
