(* ===== verification/Store_Admission.thy ===== *)
theory Store_Admission
  imports Store_System Store_Import
begin

text \<open>
  Consequences of the specification of admission for the operation itself: when a local ref
  moves, what a repeated admission finds, and the atomicity of every command of the store.
\<close>

section \<open>The operation and its transaction\<close>

lemma write_tx_InrD: "write_tx oc tx d = (Inr v, d') \<Longrightarrow> oc = Committed \<and> tx d = Inr (v, d')"
  using write_tx_Inr [of oc tx d v] by simp

lemma admit_cases:
  assumes "env_lawful E" "event_wf ev"
  obtains (refused) e where "\<And>oc d. admit E ev m oc d = (Inl e, d)"
  | (run) w where "wire_of E ev w" "mutation_matches ev m"
      "\<And>oc d. admit E ev m oc d = write_tx oc (admit_tx E ev w (norm_event ev) m) d"
proof (cases "bindR (map_err Contract (verify_event E ev)) (\<lambda>_.
           bindR (map_err Contract (to_wire E ev)) (\<lambda>wire.
           bindR (map_err Contract (from_wire E wire)) (\<lambda>verified_event.
             if \<not> mutation_matches ev m then Inl RefMutationMismatch
             else Inr (wire, verified_event))))")
  case (Inl e)
  then show thesis by (intro refused [of e]) (simp add: admit_def)
next
  case (Inr r)
  then obtain w where r: "to_wire E ev = Inr w" "mutation_matches ev m" "r = (w, norm_event ev)"
    using from_wire_to_wire [OF assms] by (auto simp: bindR_Inr_iff split: if_splits)
  then show thesis using Inr assms(2) by (intro run [of w]) (auto simp: admit_def wire_of_def)
qed

lemma admit_run:
  assumes "env_lawful E" "event_wf ev" "to_wire E ev = Inr w" "mutation_matches ev m"
  shows "admit E ev m oc d = write_tx oc (admit_tx E ev w (norm_event ev) m) d"
  using from_wire_to_wire [OF assms(1-3)] assms(3,4) to_wire_Inr_iff [of E ev w]
  by (simp add: admit_def)

text \<open>A transaction body that implements a specification makes the committed run implement it.\<close>

lemma run_refines:
  assumes "map_sum id (\<lambda>(v, d'). (v, view d')) (tx d) = spec"
  shows "(case write_tx Committed tx d of (reply, d') \<Rightarrow> (reply, view d')) =
    (case spec of Inl e \<Rightarrow> (Inl e, view d) | Inr (v, s) \<Rightarrow> (Inr v, s))"
  unfolding assms [symmetric]
  by (cases "tx d") (auto simp: write_tx_def finish_transaction_def)

section \<open>When a ref moves\<close>

lemma spec_admit_ref:
  assumes "spec_admit ev (CompareAndSwap c n expected h) v = Inr (st, v')"
  shows "if view_refs v (c, n) = Some h then view_refs v' = view_refs v \<and> st = AlreadyApplied
    else view_refs v (c, n) = (case expected of Absent \<Rightarrow> None | Head e \<Rightarrow> Some e) \<and>
      view_refs v' = (view_refs v)((c, n) \<mapsto> ev_id ev) \<and> st \<noteq> AlreadyApplied"
  using assms
  by (auto simp: spec_admit_def Let_def bindR_Inr_iff admission_status_of_def split: option.splits if_splits)

lemma view_refs_store_view [simp]: "view_refs (store_view E d) = local_view d"
  by (simp add: store_view_def)

lemma spec_admit_event: "spec_admit ev m v = Inr (st, v') \<Longrightarrow> view_events v' (ev_id ev) = Some ev"
  by (auto simp: spec_admit_def Let_def bindR_Inr_iff split: option.splits if_splits)

lemma admit_tx_ref:
  assumes "env_lawful E" "store_inv E d" "wire_of E ev w"
    and "mutation_matches ev (CompareAndSwap c n expected h)" "ref_name_wf n"
    and "admit_tx E ev w (norm_event ev) (CompareAndSwap c n expected h) d = Inr (st, d')"
  shows "if local_view d (c, n) = Some (ev_id ev) then local_view d' = local_view d \<and> st = AlreadyApplied
    else local_view d (c, n) = (case expected of Absent \<Rightarrow> None | Head e \<Rightarrow> Some e) \<and>
      local_view d' = (local_view d)((c, n) \<mapsto> ev_id ev) \<and> st \<noteq> AlreadyApplied"
proof -
  have "spec_admit (norm_event ev) (CompareAndSwap c n expected h) (store_view E d) =
      Inr (st, store_view E d')"
    using admit_tx_refines [OF assms(1-4)] assms(5,6) by simp
  moreover have "h = ev_id ev" using assms(4) by simp
  ultimately show ?thesis
    using spec_admit_ref [of "norm_event ev" c n expected h "store_view E d" st "store_view E d'"]
    by (simp only: view_refs_store_view norm_event_spec split: if_splits) simp
qed

section \<open>Admitting again\<close>

lemma validate_stored_wire:
  assumes "env_lawful E" "store_inv E d" "wire_of E ev w" "event_wire d (ev_id ev) = Inr (Some w)"
  shows "validate_stored_event E d (norm_event ev) = Inr ()" "stored_in d (ev_id ev) (event_context ev)"
proof -
  obtain ev' where ev': "lookup_event E d (ev_id ev) = Some ev'" "from_wire E w = Inr ev'"
    using event_wire_lookup [OF assms(2), of "ev_id ev"] assms(4) by auto
  have "ev' = norm_event ev"
    using from_wire_to_wire [OF assms(1), of ev w] assms(3) ev'(2) by (auto simp: wire_of_def)
  then show "validate_stored_event E d (norm_event ev) = Inr ()"
    using validate_stored_lookup [OF assms(2) ev'(1)] by simp
  show "stored_in d (ev_id ev) (event_context ev)"
    using ev'(1) \<open>ev' = norm_event ev\<close> stored_in_iff [OF assms(2)] by simp
qed

lemma admit_tx_guards:
  assumes "admit_tx E ev w verified m d = Inr (st, d')"
  obtains x s where "context_row_of d (event_context ev) = Inr (Some (x, s))" "event_guards E d x s ev"
  using assms
  by (auto simp: admit_tx_def bindR_Inr_iff Let_def event_guards_def event_context_def
      event_parents_def)

definition repeated_status :: "ref_mutation \<Rightarrow> admission_status" where
  "repeated_status m = (case m of NoMutation \<Rightarrow> AlreadyPresent | CompareAndSwap _ _ _ _ \<Rightarrow> AlreadyApplied)"

lemma admit_tx_again:
  assumes "env_lawful E" "store_inv E d" "wire_of E ev w" "mutation_matches ev m" "mutation_wf m"
    and "admit_tx E ev w (norm_event ev) m d = Inr (st, d')"
  shows "admit_tx E ev w (norm_event ev) m d' = Inr (repeated_status m, d')"
proof -
  let ?c = "event_context ev" and ?i = "ev_id ev"
  have ok: "admit_ok E (ev, w, norm_event ev, m)"
    using assms(3-5) from_wire_to_wire [OF assms(1), of ev w] by (auto simp: admit_ok_def wire_of_def)
  have d': "store_inv E d'" "db_grows d d'"
    using admit.keeps [OF assms(1) ok assms(2)] assms(6) by auto
  have wire: "event_wire d' ?i = Inr (Some w)"
  proof -
    have "spec_admit (norm_event ev) m (store_view E d) = Inr (st, store_view E d')"
      using admit_tx_refines [OF assms(1-5)] assms(6) by simp
    from spec_admit_event [OF this] have "lookup_event E d' ?i = Some (norm_event ev)"
      by (simp add: store_view_def)
    then obtain w' where "event_wire d' ?i = Inr (Some w')" "to_wire E (norm_event ev) = Inr w'"
      by (rule event_wire_Some [OF d'(1)])
    then show ?thesis
      using from_wire_to_wire_eq(2) [OF assms(1), of ev w] assms(3) by (simp add: wire_of_def)
  qed
  obtain x s where row: "context_row_of d ?c = Inr (Some (x, s))" and guards: "event_guards E d x s ev"
    by (rule admit_tx_guards [OF assms(6)])
  note stored = validate_stored_wire [OF assms(1) d'(1) assms(3) wire]
  have row': "context_row_of d' ?c = Inr (Some (x, 1))"
    by (rule context_row_of_stored [OF assms(2) d' row stored(2)])
  have guards': "event_guards E d' x 1 ev"
    using event_guards_mono [OF assms(2) d' guards] by (auto simp: event_guards_def)
  have mut: "apply_ref_mutation ?i m d' = Inr (m \<noteq> NoMutation, d')"
  proof (cases m)
    case (CompareAndSwap c n expected h)
    then have "local_view d' (c, n) = Some ?i"
      using admit_tx_ref [OF assms(1-3), of c n expected h] assms(4-6)
      by (auto split: if_splits)
    then show ?thesis
      using CompareAndSwap assms(4) by (simp add: query_local_view [OF d'(1)])
  qed simp
  show ?thesis
    using row' guards' wire stored(1) mut
    by (cases m) (auto simp: admit_tx_def Let_def event_context_def event_parents_def event_guards_def
        record_event_def activate_pending_def admission_status_of_def repeated_status_def
        simp del: apply_ref_mutation.simps)
qed

section \<open>Commits are atomic\<close>

text \<open>
  An operation has the effect of its committed run or none: an error other than an
  indeterminate commit leaves the database as it was, and an indeterminate commit leaves it as
  it was or as the committed run would.
\<close>

definition atomic :: "db \<Rightarrow> (store_error + 'a) \<times> db \<Rightarrow> (store_error + 'a) \<times> db \<Rightarrow> bool" where
  "atomic d committed r \<longleftrightarrow>
     (case fst r of
        Inr v \<Rightarrow> r = committed
      | Inl e \<Rightarrow> snd r = d \<or> (e = IndeterminateCommit \<and> snd r = snd committed))"

lemma atomic_write_tx: "atomic d (write_tx Committed tx d) (write_tx oc tx d)"
  by (auto simp: atomic_def write_tx_def finish_transaction_def
      split: sum.splits commit_outcome.splits)

lemma atomic_refused: "atomic d committed (Inl e, d)"
  by (simp add: atomic_def)

text \<open>A reply may be rewritten on success.\<close>

definition map_reply :: "('a \<Rightarrow> 'b) \<Rightarrow> ('e + 'a) \<times> db \<Rightarrow> ('e + 'b) \<times> db" where
  "map_reply g r = (map_sum id g (fst r), snd r)"

lemma map_reply_case:
  "(case r of (Inl e, d') \<Rightarrow> (Inl e, d') | (Inr v, d') \<Rightarrow> (Inr (g v), d')) = map_reply g r"
  by (auto simp: map_reply_def split: prod.split sum.split)

lemma atomic_map_reply: "atomic d committed r \<Longrightarrow> atomic d (map_reply g committed) (map_reply g r)"
  by (cases r; cases "fst r") (auto simp: atomic_def map_reply_def)

lemma atomic_admit: "atomic d (admit E ev m Committed d) (admit E ev m oc d)"
  by (auto simp: admit_def atomic_refused atomic_write_tx split: sum.split)

lemma atomic_admit_wire: "atomic d (admit_wire E w m Committed d) (admit_wire E w m oc d)"
  by (auto simp: admit_wire_def atomic_refused atomic_admit split: sum.split)

lemma atomic_admit_on_branch:
  "atomic d (admit_on_branch E ev c n x Committed d) (admit_on_branch E ev c n x oc d)"
  unfolding admit_on_branch_def map_reply_case by (rule atomic_map_reply [OF atomic_admit])

lemma atomic_append:
  "atomic d (append E idn c n x kind payload Committed d) (append E idn c n x kind payload oc d)"
  by (auto simp: append_def atomic_refused atomic_admit_on_branch split: sum.split)

lemma atomic_merge:
  "atomic d (merge E idn c n x ps payload Committed d) (merge E idn c n x ps payload oc d)"
  by (auto simp: merge_def Let_def atomic_refused atomic_admit_on_branch split: sum.split)

lemma atomic_create_context:
  "atomic d (create_context E idn n entropy Committed d) (create_context E idn n entropy oc d)"
  unfolding create_context_def map_reply_case
  by (auto simp: atomic_refused intro: atomic_map_reply [OF atomic_write_tx] split: sum.split)

lemma atomic_create_branch:
  "atomic d (create_branch E c n i Committed d) (create_branch E c n i oc d)"
  unfolding create_branch_def map_reply_case by (rule atomic_map_reply [OF atomic_write_tx])

text \<open>The same of a command, whose reply is an error or nothing.\<close>

definition atomic_reply ::
  "db \<Rightarrow> store_error option \<times> db \<Rightarrow> store_error option \<times> db \<Rightarrow> bool" where
  "atomic_reply d committed r \<longleftrightarrow>
     (case fst r of
        None \<Rightarrow> r = committed
      | Some e \<Rightarrow> snd r = d \<or> (e = IndeterminateCommit \<and> snd r = snd committed))"

lemma atomic_reply_of: "atomic d committed r \<Longrightarrow> atomic_reply d (reply_of committed) (reply_of r)"
  by (auto simp: atomic_def atomic_reply_def reply_of_def split: sum.splits)

lemma atomic_store_ops:
  "atomic d (provision_context E p Committed d) (provision_context E p oc d)"
  "atomic d (join_context E p Committed d) (join_context E p oc d)"
  "atomic d (authorize_author c a Committed d) (authorize_author c a oc d)"
  "atomic d (set_remote_ref E peer c n i Committed d) (set_remote_ref E peer c n i oc d)"
  "atomic d (import_bundle E peer w limits Committed d) (import_bundle E peer w limits oc d)"
  "atomic d (replace_remote_ref_snapshot E peer c refs Committed d)
     (replace_remote_ref_snapshot E peer c refs oc d)"
  by (auto simp: provision_context_def join_context_def authorize_author_def set_remote_ref_def
      import_bundle_def replace_remote_ref_snapshot_def atomic_refused atomic_write_tx split: sum.split)

lemma atomic_command: "atomic_reply d (run_command E cmd Committed d) (run_command E cmd oc d)"
  by (cases cmd)
    (simp_all add: atomic_reply_of atomic_store_ops atomic_admit atomic_admit_wire
      atomic_create_context atomic_append atomic_merge atomic_create_branch)

end
