(* ===== verification/Store_Queries.thy ===== *)
theory Store_Queries
  imports Store_Spec Store_Dag Bundle_Wire
begin

text \<open>
  What the queries of \<open>src/src/store.rs\<close> return on a store that satisfies the invariant: the
  maps of the abstract view, never a corrupt-storage error.
\<close>

section \<open>Stored events and their contexts\<close>

lemma context_row_of_exists:
  assumes "store_inv E d" "has_context d c"
  obtains x s where "context_row_of d c = Inr (Some (x, s))"
  using assms context_row_of_row [OF assms(1)] by (force simp: has_context_def)

lemma stored_context_row:
  assumes "store_inv E d" "stored_in d i c"
  shows "\<exists>x. context_row_of d c = Inr (Some (x, 1))"
proof -
  obtain r where r: "r \<in> set (db_events d)" "er_context r = c" using assms(2) by (auto simp: stored_in_def)
  then obtain q where "q \<in> set (db_contexts d)" "row_in_context E r q"
    using assms(1) by (auto simp: store_inv_def inv_roots_def)
  then show ?thesis using context_row_of_row [OF assms(1)] r(2) by (fastforce simp: row_in_context_def)
qed

lemma ancestry_grows:
  assumes "store_inv E d" "db_grows d d'" "\<forall>h \<in> set heads. has_event d h"
  shows "ancestry E d' heads = ancestry E d heads"
proof -
  have "store_parents E d i = store_parents E d' i" if "i \<in> ancestors (store_parents E d) (set heads)" for i
  proof -
    have "has_event d i" using that ancestry_has_event [OF assms(1,3)] by (auto simp: ancestry_def)
    then show ?thesis using grown_lookup [OF assms(1,2), of i] by (simp add: store_parents_def)
  qed
  then show ?thesis unfolding ancestry_def by (rule ancestors_cong [symmetric])
qed

section \<open>Refs\<close>

lemma local_row_view:
  assumes "store_inv E d" "local_view d (c, n) = Some h"
  shows "stored_in d h c \<and> ref_name_wf n"
proof -
  obtain r where "find (\<lambda>r. (ref_context r, ref_name r) = (c, n)) (db_local d) = Some r" "ref_head r = h"
    using assms(2) by (auto simp: local_view_def)
  then have "r \<in> set (db_local d)" "ref_context r = c" "ref_name r = n" "ref_head r = h"
    by (auto simp: find_Some_iff)
  then show ?thesis using assms(1) by (auto simp: store_inv_def inv_local_def)
qed

lemma local_ref_view: "store_inv E d \<Longrightarrow> local_ref E d c n = Inr (local_view d (c, n))"
  using local_row_view [of E d c n]
  by (cases "local_view d (c, n)")
    (auto simp: local_ref_def query_local_view authoritative_lookup stored_in_iff)

lemma local_row_head:
  assumes "store_inv E d" "r \<in> set (db_local d)"
  obtains ev where "ref_name_wf (ref_name r)" "lookup_event E d (ref_head r) = Some ev"
    "event_context ev = ref_context r"
  using store_invD(9) [OF assms(1)] assms(2) stored_in_iff [OF assms(1)] by (auto simp: inv_local_def)

lemma remote_row_head:
  assumes "store_inv E d" "r \<in> set (db_remote d)"
  obtains ev where "ref_name_wf (rem_peer r)" "ref_name_wf (rem_name r)"
    "lookup_event E d (rem_head r) = Some ev" "event_context ev = rem_context r"
  using store_invD(10) [OF assms(1)] assms(2) stored_in_iff [OF assms(1)] by (auto simp: inv_remote_def)

lemma check_ref_row_inv:
  assumes "store_inv E d" "r \<in> set (db_local d)"
  shows "check_ref_row E d r = Inr r"
  by (rule local_row_head [OF assms])
    (simp add: check_ref_row_def authoritative_lookup [OF assms(1)] bindR_Inr_iff)

lemma check_remote_row_inv:
  assumes "store_inv E d" "r \<in> set (db_remote d)"
  shows "check_remote_row E d r = Inr r"
  by (rule remote_row_head [OF assms])
    (simp add: check_remote_row_def authoritative_lookup [OF assms(1)] bindR_Inr_iff)

lemma collectR_id: "\<forall>x \<in> set xs. f x = Inr x \<Longrightarrow> collectR f xs = Inr xs"
  by (induction xs) auto

lemma list_local_refs_view:
  "store_inv E d \<Longrightarrow> list_local_refs E d c =
    Inr (sort_key ref_name (filter (\<lambda>r. ref_context r = c) (db_local d)))"
  by (auto simp: list_local_refs_def check_ref_row_inv intro!: collectR_id)

lemma list_remote_refs_view:
  "store_inv E d \<Longrightarrow> list_remote_refs E d peer c =
    Inr (sort_key rem_peer (sort_key rem_name
      (filter (\<lambda>r. rem_context r = c \<and> (case peer of Some p \<Rightarrow> rem_peer r = p | None \<Rightarrow> True)) (db_remote d))))"
  by (auto simp: list_remote_refs_def check_remote_row_inv intro!: collectR_id)

section \<open>Imported events\<close>

lemma in_place_lookup:
  assumes "env_lawful E" "store_inv E d" "in_place E d x ev" "event_wf ev"
  shows "lookup_event E d (ev_id ev) = Some (norm_event ev)"
proof -
  obtain w where w: "to_wire E ev = Inr w" "event_wire d (ev_id ev) = Inr (Some w)"
    using assms(3) by (auto simp: in_place_def)
  then show ?thesis
    using event_wire_lookup [OF assms(2), of "ev_id ev"] from_wire_to_wire [OF assms(1,4) w(1)] by auto
qed

section \<open>Projections\<close>

lemma valid_default_limits: "validate_projection_limits default_projection_limits = Inr ()"
  by (simp add: validate_projection_limits_def projection_limits_new_def default_projection_limits_def
      MAX_PROJECTION_EVENTS_def MAX_PROJECTION_WIRE_BYTES_def)

lemma project_spec:
  assumes "store_inv E d" "validate_projection_limits limits = Inr ()"
    and "heads \<noteq> []" "length heads \<le> MAX_PROJECTION_HEADS"
  shows "case project E d c heads limits of
      Inl e \<Rightarrow> projection_refused E d c limits heads e
    | Inr p \<Rightarrow> proj_context p = c \<and> set (proj_heads p) = set heads \<and>
        exact_projection E d c limits heads (proj_events p) (proj_wire_bytes p)"
proof -
  let ?hs = "sort_dedup (event_id_text E) heads"
  have hs: "set ?hs = set heads" "?hs \<noteq> []" "length ?hs \<le> MAX_BUNDLE_EVENTS"
    using assms(3,4) length_sort_dedup [of "event_id_text E" heads]
    by (auto simp: MAX_PROJECTION_HEADS_def MAX_BUNDLE_EVENTS_def)
  from project_on_spec [OF assms(1,2) hs(2,3), of c]
  have spec: "projection_spec E d c limits ?hs (project_on E d c ?hs limits)" .
  have anc: "ancestry E d ?hs = ancestry E d heads" using hs(1) by (rule ancestry_set_cong)
  show ?thesis
  proof (cases "project_on E d c ?hs limits")
    case (Inl e)
    then show ?thesis using spec assms anc
      by (simp add: project_def normalize_heads_def projection_spec_def projection_refused_def)
  next
    case (Inr r)
    then show ?thesis using spec assms anc hs(1)
      by (cases r) (simp add: project_def normalize_heads_def projection_spec_def exact_projection_def)
  qed
qed

lemma project_grows:
  assumes "store_inv E d" "store_inv E d'" "db_grows d d'" "\<forall>h \<in> set heads. has_event d h"
  shows "project E d' c heads limits = project E d c heads limits"
  using project_on_grows [OF assms(1-3), of "sort_dedup (event_id_text E) heads" c limits] assms(4)
  by (cases "validate_projection_limits limits") (simp_all add: project_def normalize_heads_def)

end
