(* ===== verification/Receipt.thy ===== *)
theory Receipt
  imports Store_Queries
begin

text \<open>
  Agent-experience receipts, \<open>src/src/receipt.rs\<close>: the task, recipient and selector records, the
  version-1 body with its validation, the signed envelope with its strict wire format, the check
  of a receipt against a store and the UTC timestamps. Reading and writing receipt files, and the
  clock, are outside; the seconds since the epoch are an argument.
\<close>

section \<open>Limits\<close>

definition RECEIPT_ID_DOMAIN :: string where
  "RECEIPT_ID_DOMAIN = ''org.aaif.contextmesh.receipt-id.v1''"
definition RECEIPT_SIGNATURE_DOMAIN :: bytes where
  "RECEIPT_SIGNATURE_DOMAIN = string_bytes ''org.aaif.contextmesh.receipt-signature.v1'' @ [0]"
definition RECEIPT_VERSION :: nat where "RECEIPT_VERSION = 1"
definition MAX_RECEIPT_EVENTS :: nat where "MAX_RECEIPT_EVENTS = 4096"
definition MAX_TASK_BYTES :: nat where "MAX_TASK_BYTES = 65536"
definition MAX_SELECTOR_IDENTITY_BYTES :: nat where "MAX_SELECTOR_IDENTITY_BYTES = 128"
definition MAX_SELECTOR_VERSION_BYTES :: nat where "MAX_SELECTOR_VERSION_BYTES = 64"
definition MAX_SELECTOR_CONFIG_HASH_BYTES :: nat where "MAX_SELECTOR_CONFIG_HASH_BYTES = 128"
definition MAX_RECEIPT_NOTE_BYTES :: nat where "MAX_RECEIPT_NOTE_BYTES = 512"
definition MAX_RECEIPT_NOTES :: nat where "MAX_RECEIPT_NOTES = 4096"
definition MAX_RECEIPT_WIRE_BYTES :: nat where "MAX_RECEIPT_WIRE_BYTES = 2097152"

section \<open>Identifiers\<close>

datatype receipt_id = ReceiptId bytes
datatype receipt_signature = ReceiptSignature bytes

primrec receipt_id_bytes :: "receipt_id \<Rightarrow> bytes" where "receipt_id_bytes (ReceiptId b) = b"
primrec receipt_signature_bytes :: "receipt_signature \<Rightarrow> bytes" where
  "receipt_signature_bytes (ReceiptSignature b) = b"

definition receipt_id_wf :: "receipt_id \<Rightarrow> bool" where
  "receipt_id_wf x \<longleftrightarrow> length (receipt_id_bytes x) = 32"
definition receipt_signature_wf :: "receipt_signature \<Rightarrow> bool" where
  "receipt_signature_wf x \<longleftrightarrow> length (receipt_signature_bytes x) = 64"

definition receipt_id_text :: "env \<Rightarrow> receipt_id \<Rightarrow> string" where
  "receipt_id_text E x = fixed_to_text E ''rcpt1_'' (receipt_id_bytes x)"
definition receipt_signature_text :: "env \<Rightarrow> receipt_signature \<Rightarrow> string" where
  "receipt_signature_text E x = fixed_to_text E ''rsig1_'' (receipt_signature_bytes x)"
definition receipt_id_of_text :: "env \<Rightarrow> string \<Rightarrow> contract_error + receipt_id" where
  "receipt_id_of_text E t = bindR (fixed_from_text E ''rcpt1_'' 32 t) (\<lambda>b. Inr (ReceiptId b))"
definition receipt_signature_of_text :: "env \<Rightarrow> string \<Rightarrow> contract_error + receipt_signature" where
  "receipt_signature_of_text E t =
     bindR (fixed_from_text E ''rsig1_'' 64 t) (\<lambda>b. Inr (ReceiptSignature b))"

interpretation receipt_id: text_codec base64_lawful receipt_id_text receipt_id_of_text receipt_id_wf
proof
  fix E t and x :: receipt_id
  show "base64_lawful E \<Longrightarrow> receipt_id_wf x \<Longrightarrow> receipt_id_of_text E (receipt_id_text E x) = Inr x"
    by (cases x) (simp add: receipt_id_of_text_def receipt_id_text_def receipt_id_wf_def fixed_from_to_text)
  show "receipt_id_of_text E t = Inr x \<Longrightarrow> receipt_id_text E x = t \<and> receipt_id_wf x"
    by (auto simp: receipt_id_of_text_def receipt_id_text_def receipt_id_wf_def bindR_Inr_iff
        dest: fixed_from_text_Inr)
qed

interpretation receipt_signature: text_codec base64_lawful receipt_signature_text
  receipt_signature_of_text receipt_signature_wf
proof
  fix E t and x :: receipt_signature
  show "base64_lawful E \<Longrightarrow> receipt_signature_wf x \<Longrightarrow>
      receipt_signature_of_text E (receipt_signature_text E x) = Inr x"
    by (cases x) (simp add: receipt_signature_of_text_def receipt_signature_text_def
        receipt_signature_wf_def fixed_from_to_text)
  show "receipt_signature_of_text E t = Inr x \<Longrightarrow>
      receipt_signature_text E x = t \<and> receipt_signature_wf x"
    by (auto simp: receipt_signature_of_text_def receipt_signature_text_def receipt_signature_wf_def
        bindR_Inr_iff dest: fixed_from_text_Inr)
qed

section \<open>Task, selector and recipient records\<close>

record task_record =
  task_verbatim :: string
  task_hash :: string
  task_structured :: "json option"

definition hex_digit :: "nat \<Rightarrow> char" where
  "hex_digit n = ''0123456789abcdef'' ! n"

definition hex_byte :: "byte \<Rightarrow> string" where
  "hex_byte b = [hex_digit (unat b div 16), hex_digit (unat b mod 16)]"

definition task_content_hash :: "env \<Rightarrow> bytes \<Rightarrow> string" where
  "task_content_hash E text = ''blake3_'' @ concat (map hex_byte (blake3_hash E text))"

definition validate_task :: "env \<Rightarrow> task_record \<Rightarrow> contract_error + unit" where
  "validate_task E t =
     (if task_verbatim t = [] \<or> length (task_verbatim t) > MAX_TASK_BYTES then Inl LimitExceeded
      else if task_hash t = [] \<or> take 7 (task_hash t) \<noteq> ''blake3_'' then Inl InvalidEncoding
      else case task_structured t of
        None \<Rightarrow> Inr ()
      | Some structured \<Rightarrow>
          bindR (validate_json_value structured 1) (\<lambda>_.
          bindR (canonical_payload_bytes E structured) (\<lambda>_. Inr ())))"

definition task_new :: "env \<Rightarrow> string \<Rightarrow> string \<Rightarrow> json option \<Rightarrow> contract_error + task_record" where
  "task_new E verbatim content_hash structured =
     (let task = \<lparr>task_verbatim = verbatim, task_hash = content_hash, task_structured = structured\<rparr>
      in bindR (validate_task E task) (\<lambda>_. Inr task))"

definition task_from_verbatim :: "env \<Rightarrow> string \<Rightarrow> json option \<Rightarrow> contract_error + task_record" where
  "task_from_verbatim E verbatim structured =
     task_new E verbatim (task_content_hash E (string_bytes verbatim)) structured"

record selector_record =
  sel_identity :: string
  sel_version :: string
  sel_config_hash :: string

definition validate_selector :: "selector_record \<Rightarrow> contract_error + unit" where
  "validate_selector s =
     (if sel_identity s = [] \<or> length (sel_identity s) > MAX_SELECTOR_IDENTITY_BYTES then Inl LimitExceeded
      else if sel_version s = [] \<or> length (sel_version s) > MAX_SELECTOR_VERSION_BYTES then Inl LimitExceeded
      else if sel_config_hash s = [] \<or> length (sel_config_hash s) > MAX_SELECTOR_CONFIG_HASH_BYTES
      then Inl LimitExceeded else Inr ())"

definition selector_new :: "string \<Rightarrow> string \<Rightarrow> string \<Rightarrow> contract_error + selector_record" where
  "selector_new identity version config_hash =
     (let selector = \<lparr>sel_identity = identity, sel_version = version, sel_config_hash = config_hash\<rparr>
      in bindR (validate_selector selector) (\<lambda>_. Inr selector))"

section \<open>Timestamps\<close>

definition digits_value :: "string \<Rightarrow> nat option" where
  "digits_value text =
     (if list_all is_ascii_digit text
      then Some (foldl (\<lambda>value ch. value * 10 + (of_char ch - 48)) 0 text) else None)"

definition valid_utc_timestamp :: "string \<Rightarrow> bool" where
  "valid_utc_timestamp text =
     (if length text \<noteq> 20 then False
      else if text ! 4 \<noteq> CHR ''-'' \<or> text ! 7 \<noteq> CHR ''-'' \<or> text ! 10 \<noteq> CHR ''T'' \<or> text ! 13 \<noteq> CHR '':'' \<or>
              text ! 16 \<noteq> CHR '':'' \<or> text ! 19 \<noteq> CHR ''Z''
      then False
      else case (digits_value (take 4 text), digits_value (take 2 (drop 5 text)),
                 digits_value (take 2 (drop 8 text)), digits_value (take 2 (drop 11 text)),
                 digits_value (take 2 (drop 14 text)), digits_value (take 2 (drop 17 text))) of
          (Some year, Some month, Some day, Some hour, Some minute, Some second) \<Rightarrow>
            if year < 1970 \<or> month < 1 \<or> month > 12 \<or> day < 1 \<or> day > 31 then False
            else hour \<le> 23 \<and> minute \<le> 59 \<and> second \<le> 59
        | _ \<Rightarrow> False)"

text \<open>Civil date of a day number; \<open>div_euclid\<close> and Rust's division agree with \<open>div\<close> here.\<close>

definition civil_from_days :: "int \<Rightarrow> int \<times> int \<times> int" where
  "civil_from_days days =
     (let z = days + 719468;
          era = z div 146097;
          doe = z mod 146097;
          yoe = (doe - doe div 1460 + doe div 36524 - doe div 146096) div 365;
          y = yoe + era * 400;
          doy = doe - (365 * yoe + yoe div 4 - yoe div 100);
          mp = (5 * doy + 2) div 153;
          day = doy - (153 * mp + 2) div 5 + 1;
          month = (if mp < 10 then mp + 3 else mp - 9);
          year = (if month \<le> 2 then y + 1 else y)
      in (year, month, day))"

fun decimal :: "nat \<Rightarrow> string" where
  "decimal n = (if n < 10 then [char_of (48 + n)] else decimal (n div 10) @ [char_of (48 + n mod 10)])"

definition padded :: "nat \<Rightarrow> nat \<Rightarrow> string" where
  "padded width n = replicate (width - length (decimal n)) CHR ''0'' @ decimal n"

text \<open>\<open>now\<close> is the whole seconds since the epoch.\<close>

definition utc_timestamp :: "nat \<Rightarrow> string" where
  "utc_timestamp now =
     (let days = now div 86400; day_seconds = now mod 86400;
          (year, month, day) = civil_from_days (int days);
          hour = day_seconds div 3600; minute = (day_seconds mod 3600) div 60; second = day_seconds mod 60
      in padded 4 (nat year) @ ''-'' @ padded 2 (nat month) @ ''-'' @ padded 2 (nat day) @ ''T'' @
         padded 2 hour @ '':'' @ padded 2 minute @ '':'' @ padded 2 second @ ''Z'')"

section \<open>The body\<close>

record receipt_body =
  rb_version :: nat
  rb_context :: context_id
  rb_events :: "event_id list"
  rb_task :: task_record
  rb_recipient :: event_id
  rb_selector :: selector_record
  rb_omissions :: "string list"
  rb_uncertainty :: "string list"
  rb_created_at :: string
  rb_author :: author_id

definition task_fields :: "task_record \<Rightarrow> (string \<times> json) list" where
  "task_fields t =
     [(''verbatim'', JString (task_verbatim t)), (''content_hash'', JString (task_hash t)),
      (''structured'', (case task_structured t of None \<Rightarrow> JNull | Some v \<Rightarrow> v))]"

definition selector_fields :: "selector_record \<Rightarrow> (string \<times> json) list" where
  "selector_fields s =
     [(''identity'', JString (sel_identity s)), (''version'', JString (sel_version s)),
      (''config_hash'', JString (sel_config_hash s))]"

definition receipt_body_fields :: "env \<Rightarrow> receipt_body \<Rightarrow> (string \<times> json) list" where
  "receipt_body_fields E b =
     [(''version'', JNumber (PosInt (rb_version b))),
      (''context'', JString (context_id_text E (rb_context b))),
      (''events'', JArray (map (\<lambda>p. JString (event_id_text E p)) (rb_events b))),
      (''task'', JObject (obj_of (task_fields (rb_task b)))),
      (''recipient'', JObject (obj_of [(''head'', JString (event_id_text E (rb_recipient b)))])),
      (''selector'', JObject (obj_of (selector_fields (rb_selector b)))),
      (''omissions'', JArray (map JString (rb_omissions b))),
      (''uncertainty'', JArray (map JString (rb_uncertainty b))),
      (''created_at'', JString (rb_created_at b)),
      (''author'', JString (author_id_text E (rb_author b)))]"

definition receipt_body_json :: "env \<Rightarrow> receipt_body \<Rightarrow> json" where
  "receipt_body_json E b = JObject (obj_of (receipt_body_fields E b))"

definition note_ok :: "string \<Rightarrow> bool" where
  "note_ok note \<longleftrightarrow> note \<noteq> [] \<and> length note \<le> MAX_RECEIPT_NOTE_BYTES"

definition validate_receipt_body :: "env \<Rightarrow> receipt_body \<Rightarrow> contract_error + unit" where
  "validate_receipt_body E b =
     (if rb_version b \<noteq> RECEIPT_VERSION then Inl UnsupportedVersion
      else if length (rb_events b) > MAX_RECEIPT_EVENTS then Inl LimitExceeded
      else if windows2_any (\<lambda>p q. event_id_text E q \<le> event_id_text E p) (rb_events b) then Inl ParentOrder
      else bindR (validate_task E (rb_task b)) (\<lambda>_.
      bindR (validate_selector (rb_selector b)) (\<lambda>_.
        if length (rb_omissions b) + length (rb_uncertainty b) > MAX_RECEIPT_NOTES then Inl LimitExceeded
        else if \<not> list_all note_ok (rb_omissions b @ rb_uncertainty b) then Inl LimitExceeded
        else if \<not> valid_utc_timestamp (rb_created_at b) then Inl InvalidEncoding
        else bindR (canonicalize E (receipt_body_json E b)) (\<lambda>canonical.
          if length canonical > MAX_RECEIPT_WIRE_BYTES then Inl LimitExceeded else Inr ()))))"

definition receipt_body_new ::
  "env \<Rightarrow> context_id \<Rightarrow> event_id list \<Rightarrow> task_record \<Rightarrow> event_id \<Rightarrow> selector_record \<Rightarrow> string list \<Rightarrow>
    string list \<Rightarrow> string \<Rightarrow> author_id \<Rightarrow> contract_error + receipt_body" where
  "receipt_body_new E context events task recipient selector omissions uncertainty created_at author =
     (let body = \<lparr>rb_version = RECEIPT_VERSION, rb_context = context, rb_events = events, rb_task = task,
          rb_recipient = recipient, rb_selector = selector, rb_omissions = omissions,
          rb_uncertainty = uncertainty, rb_created_at = created_at, rb_author = author\<rparr>
      in bindR (validate_receipt_body E body) (\<lambda>_. Inr body))"

definition receipt_canonical_bytes :: "env \<Rightarrow> receipt_body \<Rightarrow> contract_error + bytes" where
  "receipt_canonical_bytes E b =
     bindR (validate_receipt_body E b) (\<lambda>_. canonicalize E (receipt_body_json E b))"

definition derive_receipt_id :: "env \<Rightarrow> receipt_body \<Rightarrow> contract_error + receipt_id" where
  "derive_receipt_id E body =
     bindR (receipt_canonical_bytes E body) (\<lambda>canonical.
       Inr (ReceiptId (blake3_derive E RECEIPT_ID_DOMAIN canonical)))"

section \<open>The signed envelope\<close>

record signed_receipt =
  rc_id :: receipt_id
  rc_body :: receipt_body
  rc_signature :: receipt_signature

definition receipt_from_verified_parts ::
  "receipt_id \<Rightarrow> receipt_body \<Rightarrow> receipt_signature \<Rightarrow> signed_receipt" where
  "receipt_from_verified_parts rid body signature =
     \<lparr>rc_id = rid, rc_body = body, rc_signature = signature\<rparr>"

definition verify_receipt_parts ::
  "env \<Rightarrow> receipt_body \<Rightarrow> receipt_id \<Rightarrow> receipt_signature \<Rightarrow> contract_error + unit" where
  "verify_receipt_parts E body supplied_id signature =
     bindR (validate_receipt_body E body) (\<lambda>_.
     bindR (derive_receipt_id E body) (\<lambda>expected_id.
       if supplied_id \<noteq> expected_id then Inl IdMismatch
       else verify_domain_message E (rb_author body) RECEIPT_SIGNATURE_DOMAIN
              (receipt_id_bytes supplied_id) (receipt_signature_bytes signature)))"

definition verify_receipt :: "env \<Rightarrow> signed_receipt \<Rightarrow> contract_error + unit" where
  "verify_receipt E r = verify_receipt_parts E (rc_body r) (rc_id r) (rc_signature r)"

definition issue_receipt ::
  "env \<Rightarrow> signing_identity \<Rightarrow> receipt_body \<Rightarrow> contract_error + signed_receipt" where
  "issue_receipt E idn body =
     bindR (validate_receipt_body E body) (\<lambda>_.
       if rb_author body \<noteq> identity_author E idn then Inl AuthorMismatch
       else bindR (derive_receipt_id E body) (\<lambda>rid.
         let signature = sign_domain_message E idn RECEIPT_SIGNATURE_DOMAIN (receipt_id_bytes rid)
         in if length signature \<noteq> 64 then Inl SignatureInvalid
            else let receipt = receipt_from_verified_parts rid body (ReceiptSignature signature)
              in bindR (verify_receipt E receipt) (\<lambda>_. Inr receipt)))"

definition receipt_fields :: "env \<Rightarrow> signed_receipt \<Rightarrow> (string \<times> json) list" where
  "receipt_fields E r =
     [(''receipt_id'', JString (receipt_id_text E (rc_id r))),
      (''body'', receipt_body_json E (rc_body r)),
      (''signature'', JString (receipt_signature_text E (rc_signature r)))]"

definition receipt_envelope_json :: "env \<Rightarrow> signed_receipt \<Rightarrow> json" where
  "receipt_envelope_json E r = JObject (obj_of (receipt_fields E r))"

definition receipt_to_wire :: "env \<Rightarrow> signed_receipt \<Rightarrow> contract_error + bytes" where
  "receipt_to_wire E r = bindR (verify_receipt E r) (\<lambda>_. canonicalize E (receipt_envelope_json E r))"

section \<open>Parsing\<close>

definition parse_task :: "env \<Rightarrow> json \<Rightarrow> contract_error + task_record" where
  "parse_task E value =
     bindR (into_object value) (\<lambda>ob.
     bindR (reject_unknown ob [''verbatim'', ''content_hash'', ''structured'']) (\<lambda>_.
     bindR (take_required ob ''verbatim'') (\<lambda>(verbatim_value, ob).
     bindR (into_string verbatim_value) (\<lambda>verbatim.
     bindR (take_required ob ''content_hash'') (\<lambda>(hash_value, ob).
     bindR (into_string hash_value) (\<lambda>content_hash.
       task_new E verbatim content_hash
         (case obj_get ob ''structured'' of
            None \<Rightarrow> None
          | Some v \<Rightarrow> if v = JNull then None else Some v)))))))"

definition parse_recipient :: "env \<Rightarrow> json \<Rightarrow> contract_error + event_id" where
  "parse_recipient E value =
     bindR (into_object value) (\<lambda>ob.
     bindR (reject_unknown ob [''head'']) (\<lambda>_.
     bindR (take_required ob ''head'') (\<lambda>(head_value, ob). parse_text (event_id_of_text E) head_value)))"

definition parse_selector :: "json \<Rightarrow> contract_error + selector_record" where
  "parse_selector value =
     bindR (into_object value) (\<lambda>ob.
     bindR (reject_unknown ob [''identity'', ''version'', ''config_hash'']) (\<lambda>_.
     bindR (take_required ob ''identity'') (\<lambda>(identity_value, ob).
     bindR (into_string identity_value) (\<lambda>identity.
     bindR (take_required ob ''version'') (\<lambda>(version_value, ob).
     bindR (into_string version_value) (\<lambda>version.
     bindR (take_required ob ''config_hash'') (\<lambda>(hash_value, ob).
     bindR (into_string hash_value) (\<lambda>config_hash.
       selector_new identity version config_hash))))))))"

fun parse_notes :: "json \<Rightarrow> contract_error + string list" where
  "parse_notes (JArray values) = collectR into_string values"
| "parse_notes _ = Inl JsonSyntax"

definition parse_receipt_body :: "env \<Rightarrow> json \<Rightarrow> contract_error + receipt_body" where
  "parse_receipt_body E value =
     bindR (into_object value) (\<lambda>ob.
     bindR (reject_unknown ob
       [''version'', ''context'', ''events'', ''task'', ''recipient'', ''selector'', ''omissions'',
        ''uncertainty'', ''created_at'', ''author'']) (\<lambda>_.
     bindR (take_required ob ''version'') (\<lambda>(version_value, ob).
     bindR (take_required ob ''context'') (\<lambda>(context_value, ob).
     bindR (take_required ob ''events'') (\<lambda>(events_value, ob).
     bindR (take_required ob ''task'') (\<lambda>(task_value, ob).
     bindR (take_required ob ''recipient'') (\<lambda>(recipient_value, ob).
     bindR (take_required ob ''selector'') (\<lambda>(selector_value, ob).
     bindR (take_required ob ''omissions'') (\<lambda>(omissions_value, ob).
     bindR (take_required ob ''uncertainty'') (\<lambda>(uncertainty_value, ob).
     bindR (take_required ob ''created_at'') (\<lambda>(created_value, ob).
     bindR (take_required ob ''author'') (\<lambda>(author_value, ob).
     bindR (parse_version RECEIPT_VERSION version_value) (\<lambda>version.
     bindR (parse_text (context_id_of_text E) context_value) (\<lambda>context.
     bindR (parse_id_array E events_value) (\<lambda>events.
     bindR (parse_task E task_value) (\<lambda>task.
     bindR (parse_recipient E recipient_value) (\<lambda>recipient.
     bindR (parse_selector selector_value) (\<lambda>selector.
     bindR (parse_notes omissions_value) (\<lambda>omissions.
     bindR (parse_notes uncertainty_value) (\<lambda>uncertainty.
     bindR (into_string created_value) (\<lambda>created_at.
     bindR (parse_text (author_id_of_text E) author_value) (\<lambda>author.
     (let body = \<lparr>rb_version = version, rb_context = context, rb_events = events, rb_task = task,
          rb_recipient = recipient, rb_selector = selector, rb_omissions = omissions,
          rb_uncertainty = uncertainty, rb_created_at = created_at, rb_author = author\<rparr>
      in bindR (validate_receipt_body E body) (\<lambda>_. Inr body))))))))))))))))))))))))"

definition receipt_of_json :: "env \<Rightarrow> json \<Rightarrow> contract_error + signed_receipt" where
  "receipt_of_json E value =
     bindR (into_object value) (\<lambda>ob.
     bindR (reject_unknown ob [''receipt_id'', ''body'', ''signature'']) (\<lambda>_.
     bindR (take_required ob ''receipt_id'') (\<lambda>(id_value, ob).
     bindR (take_required ob ''body'') (\<lambda>(body_value, ob).
     bindR (take_required ob ''signature'') (\<lambda>(signature_value, ob).
     bindR (parse_receipt_body E body_value) (\<lambda>body.
     bindR (parse_text (receipt_id_of_text E) id_value) (\<lambda>rid.
     bindR (parse_text (receipt_signature_of_text E) signature_value) (\<lambda>signature.
     bindR (verify_receipt_parts E body rid signature) (\<lambda>_.
       Inr (receipt_from_verified_parts rid body signature))))))))))"

definition receipt_from_wire :: "env \<Rightarrow> bytes \<Rightarrow> contract_error + signed_receipt" where
  "receipt_from_wire E input =
     (if length input > MAX_RECEIPT_WIRE_BYTES then Inl WireTooLarge
      else bindR (strict_json (json_reader E) input) (receipt_of_json E))"

section \<open>A receipt against a store\<close>

datatype event_check = PresentCheck | WrongContextCheck | MissingCheck

definition check_event :: "env \<Rightarrow> db \<Rightarrow> context_id \<Rightarrow> event_id \<Rightarrow> store_error + event_check" where
  "check_event E d c i =
     bindR (store_event E d i) (\<lambda>found.
       case found of
         Some event \<Rightarrow> Inr (if body_context (ev_body event) = c then PresentCheck else WrongContextCheck)
       | None \<Rightarrow> Inr MissingCheck)"

record receipt_dag_report =
  rd_valid :: bool
  rd_checked :: nat
  rd_findings :: "(string \<times> event_id) list"

definition check_reference ::
  "env \<Rightarrow> db \<Rightarrow> context_id \<Rightarrow> string \<Rightarrow> event_id \<Rightarrow> nat \<times> (string \<times> event_id) list \<Rightarrow>
    store_error + (nat \<times> (string \<times> event_id) list)" where
  "check_reference E d c label i = (\<lambda>(checked, found).
     bindR (check_event E d c i) (\<lambda>verdict.
       case verdict of
         PresentCheck \<Rightarrow> Inr (checked + 1, found)
       | WrongContextCheck \<Rightarrow> Inr (checked, found @ [(label @ ''wrong-context'', i)])
       | MissingCheck \<Rightarrow> Inr (checked, found @ [(label @ ''missing'', i)])))"

definition verify_against_dag :: "env \<Rightarrow> db \<Rightarrow> signed_receipt \<Rightarrow> store_error + receipt_dag_report" where
  "verify_against_dag E d r =
     (let c = rb_context (rc_body r) in
      bindR (foldR (check_reference E d c []) (rb_events (rc_body r)) (0, [])) (\<lambda>s.
      bindR (check_reference E d c ''recipient-'' (rb_recipient (rc_body r)) s) (\<lambda>(checked, found).
        Inr \<lparr>rd_valid = (found = []), rd_checked = checked, rd_findings = found\<rparr>)))"

end
