(* ===== verification/Store_Open.thy ===== *)
theory Store_Open
  imports Store_System Receipt
begin

text \<open>
  Opening a store, \<open>Store::open\<close> and \<open>migrate\<close> of \<open>src/src/store.rs\<close>: a file without tables gets the
  schema, any other file must carry this version of it. A database file is its catalogue of
  objects, the rows of its \<open>metadata\<close> table and those of the six tables. A file that opens can be used
  and opened again.
\<close>

definition STORE_SCHEMA_VERSION :: int where "STORE_SCHEMA_VERSION = 1"

definition STORE_SCHEMA_FINGERPRINT :: string where
  "STORE_SCHEMA_FINGERPRINT = ''contextmesh.store.v1.2026-08-16''"

definition REQUIRED_OBJECTS :: "(string \<times> string) list" where
  "REQUIRED_OBJECTS =
     [(''table'', ''metadata''), (''table'', ''contexts''), (''table'', ''authorized_authors''),
      (''table'', ''events''), (''table'', ''parent_edges''), (''table'', ''local_refs''),
      (''table'', ''remote_refs''), (''trigger'', ''events_no_update''), (''trigger'', ''events_no_delete''),
      (''trigger'', ''edges_no_update''), (''trigger'', ''edges_no_delete''),
      (''trigger'', ''authors_no_update''), (''trigger'', ''authors_no_delete''),
      (''trigger'', ''contexts_transition_only''), (''trigger'', ''contexts_no_delete'')]"

section \<open>The file\<close>

text \<open>
  \<open>df_objects\<close>: kind and name of every object of the catalogue; \<open>df_metadata\<close>: key and value of the
  metadata rows, the value \<open>None\<close> when it is no text, and \<open>None\<close> altogether when the table cannot be
  queried for them.
\<close>

record database_file =
  df_objects :: "(string \<times> string) list"
  df_metadata :: "(string \<times> string option) list option"
  df_rows :: db

definition object_count :: "database_file \<Rightarrow> string \<Rightarrow> string \<Rightarrow> nat" where
  "object_count f kind name = length (filter (\<lambda>p. p = (kind, name)) (df_objects f))"

text \<open>\<open>LIKE 'sqlite_%'\<close> ignores case, and its underscore stands for any character.\<close>

definition sqlite_name :: "string \<Rightarrow> bool" where
  "sqlite_name name \<longleftrightarrow>
     6 < length name \<and>
     map (\<lambda>c. if is_ascii_uppercase c then char_of (of_char c + 32 :: nat) else c) (take 6 name) = ''sqlite''"

definition table_count :: "database_file \<Rightarrow> nat" where
  "table_count f = length (filter (\<lambda>(kind, name). kind = ''table'' \<and> \<not> sqlite_name name) (df_objects f))"

definition metadata_values :: "(string \<times> string option) list \<Rightarrow> string \<Rightarrow> string option list" where
  "metadata_values rows key = map snd (filter (\<lambda>row. fst row = key) rows)"

text \<open>\<open>PRAGMA foreign_key_check\<close> finds nothing.\<close>

definition foreign_keys_hold :: "db \<Rightarrow> bool" where
  "foreign_keys_hold d \<longleftrightarrow>
     list_all (\<lambda>(c, a). has_context d c) (db_authors d) \<and>
     list_all (\<lambda>r. has_context d (er_context r)) (db_events d) \<and>
     list_all (\<lambda>e. has_event d (edge_child e) \<and> has_event d (edge_parent e)) (db_edges d) \<and>
     list_all (\<lambda>r. has_context d (ref_context r) \<and> has_event d (ref_head r)) (db_local d) \<and>
     list_all (\<lambda>r. has_context d (rem_context r) \<and> has_event d (rem_head r)) (db_remote d)"

section \<open>Checks\<close>

text \<open>\<open>str::parse::<i64>\<close>.\<close>

definition parse_i64 :: "string \<Rightarrow> int option" where
  "parse_i64 text =
     (let digits = (if text \<noteq> [] \<and> hd text \<in> {CHR ''+'', CHR ''-''} then tl text else text) in
      if digits = [] then None
      else case digits_value digits of
        None \<Rightarrow> None
      | Some n \<Rightarrow>
          let v = (if hd text = CHR ''-'' then - int n else int n) in
          if - (2 ^ 63) \<le> v \<and> v < 2 ^ 63 then Some v else None)"

definition schema_version :: "database_file \<Rightarrow> store_error + int" where
  "schema_version f =
     (if object_count f ''table'' ''metadata'' \<noteq> 1 then Inl MigrationFailed
      else bindR (ok_or (df_metadata f) DatabaseUnavailable) (\<lambda>rows.
        case metadata_values rows ''schema_version'' of
          [] \<Rightarrow> Inl MigrationFailed
        | v # rest \<Rightarrow> bindR (ok_or v MigrationFailed) (\<lambda>text.
            if rest \<noteq> [] then Inl MigrationFailed else ok_or (parse_i64 text) MigrationFailed)))"

definition verify_objects :: "database_file \<Rightarrow> store_error + unit" where
  "verify_objects f =
     bindR (ok_or (df_metadata f) MigrationFailed) (\<lambda>rows.
       case metadata_values rows ''schema_fingerprint'' of
         [] \<Rightarrow> Inl MigrationFailed
       | v # rest \<Rightarrow> bindR (ok_or v MigrationFailed) (\<lambda>text.
           if text \<noteq> STORE_SCHEMA_FINGERPRINT \<or> rest \<noteq> [] then Inl MigrationFailed
           else if list_ex (\<lambda>(kind, name). object_count f kind name \<noteq> 1) REQUIRED_OBJECTS
           then Inl MigrationFailed
           else if \<not> foreign_keys_hold (df_rows f) then Inl CorruptStorage
           else Inr ()))"

section \<open>Migration\<close>

text \<open>The statements of \<open>SCHEMA_SQL\<close>; the database refuses a name that is taken.\<close>

definition fresh_file :: "database_file \<Rightarrow> database_file" where
  "fresh_file f = \<lparr>df_objects = df_objects f @ REQUIRED_OBJECTS,
     df_metadata = Some [(''schema_version'', Some ''1''), (''schema_fingerprint'', Some STORE_SCHEMA_FINGERPRINT)],
     df_rows = empty_db\<rparr>"

definition apply_schema :: "database_file \<Rightarrow> store_error + database_file" where
  "apply_schema f =
     (if list_ex (\<lambda>(kind, name). name \<in> set (map snd REQUIRED_OBJECTS)) (df_objects f)
      then Inl MigrationFailed else Inr (fresh_file f))"

definition migrate_tx :: "database_file \<Rightarrow> store_error + (unit \<times> database_file)" where
  "migrate_tx f =
     (if table_count f = 0 then
        bindR (apply_schema f) (\<lambda>f'. bindR (verify_objects f') (\<lambda>_. Inr ((), f')))
      else bindR (schema_version f) (\<lambda>version.
        if version > STORE_SCHEMA_VERSION then Inl NewerSchema
        else if version \<noteq> STORE_SCHEMA_VERSION then Inl MigrationFailed
        else bindR (verify_objects f) (\<lambda>_. Inr ((), f))))"

text \<open>Errors of the database library.\<close>

datatype db_fault = FaultCorrupt | FaultNotADatabase | FaultOther

fun map_db :: "db_fault \<Rightarrow> store_error" where
  "map_db FaultCorrupt = CorruptStorage"
| "map_db FaultNotADatabase = CorruptStorage"
| "map_db FaultOther = DatabaseUnavailable"

datatype open_step = BuildDatabase | ConnectDatabase | EnableKeys | BeginImmediate

definition reach :: "(open_step \<Rightarrow> db_fault option) \<Rightarrow> open_step \<Rightarrow> store_error + unit" where
  "reach fault step = (case fault step of None \<Rightarrow> Inr () | Some e \<Rightarrow> Inl (map_db e))"

text \<open>
  \<open>utf8\<close>: whether the path is text; \<open>fault\<close>: the calls that fail; \<open>keys_on\<close>: whether the database
  reports enforced foreign keys.
\<close>

definition open_steps :: "bool \<Rightarrow> (open_step \<Rightarrow> db_fault option) \<Rightarrow> bool \<Rightarrow> store_error + unit" where
  "open_steps utf8 fault keys_on =
     (if \<not> utf8 then Inl DatabaseUnavailable
      else bindR (reach fault BuildDatabase) (\<lambda>_. bindR (reach fault ConnectDatabase) (\<lambda>_.
        bindR (reach fault EnableKeys) (\<lambda>_.
          if \<not> keys_on then Inl MigrationFailed else reach fault BeginImmediate))))"

definition store_open ::
  "bool \<Rightarrow> (open_step \<Rightarrow> db_fault option) \<Rightarrow> bool \<Rightarrow> commit_outcome \<Rightarrow> database_file \<Rightarrow>
    (store_error + unit) \<times> database_file" where
  "store_open utf8 fault keys_on oc f =
     (case open_steps utf8 fault keys_on of
        Inl e \<Rightarrow> (Inl e, f)
      | Inr _ \<Rightarrow> finish_transaction oc f (migrate_tx f))"

section \<open>What opening guarantees\<close>

definition current_schema :: "database_file \<Rightarrow> bool" where
  "current_schema f \<longleftrightarrow> schema_version f = Inr STORE_SCHEMA_VERSION \<and> verify_objects f = Inr ()"

definition blank_file :: "database_file \<Rightarrow> bool" where
  "blank_file f \<longleftrightarrow> table_count f = 0 \<and>
     \<not> list_ex (\<lambda>(kind, name). name \<in> set (map snd REQUIRED_OBJECTS)) (df_objects f)"

text \<open>The invariant of the store implies the foreign keys.\<close>

lemma store_inv_context:
  assumes "store_inv E d" "r \<in> set (db_events d)" shows "has_context d (er_context r)"
proof -
  obtain c where "c \<in> set (db_contexts d)" "ctx_id c = er_context r"
    using store_invD(7) [OF assms(1)] assms(2) unfolding inv_roots_def row_in_context_def by blast
  then have "er_context r \<in> ctx_id ` set (db_contexts d)" by (metis image_eqI)
  then show ?thesis by (simp add: has_context_def)
qed

lemma stored_in_context: "store_inv E d \<Longrightarrow> stored_in d i c \<Longrightarrow> has_context d c"
  using store_inv_context by (auto simp: stored_in_def)

lemma store_inv_edge:
  assumes "store_inv E d" "e \<in> set (db_edges d)"
  shows "has_event d (edge_child e)" "has_event d (edge_parent e)"
proof -
  note inv = store_invD [OF assms(1)]
  show child: "has_event d (edge_child e)" using inv(5) assms(2) by (simp add: inv_edges_def)
  then obtain r where r: "r \<in> set (db_events d)" "er_id r = edge_child e"
    by (auto simp: has_event_def)
  have "e \<in> set (edges_of d (er_id r))" using assms(2) r(2) by (simp add: edges_of_def)
  also have "edges_of d (er_id r) = mk_edges (er_id r) (row_parents E r)"
    using inv(4) r(1) by (simp add: inv_events_def)
  finally obtain p where "p \<in> set (List.enumerate 0 (row_parents E r))" "edge_parent e = snd p"
    unfolding mk_edges_def by force
  then have "edge_parent e \<in> set (map snd (List.enumerate 0 (row_parents E r)))"
    unfolding set_map by (metis image_eqI)
  then have "edge_parent e \<in> set (row_parents E r)" by (simp only: map_snd_enumerate)
  then show "has_event d (edge_parent e)"
    using parent_stored_in [OF assms(1) r(1)] stored_in_has_event by blast
qed

lemma store_inv_foreign_keys:
  assumes "store_inv E d" shows "foreign_keys_hold d"
proof -
  note inv = store_invD [OF assms]
  have "has_context d (fst p)" if "p \<in> set (db_authors d)" for p
    using inv(3) that unfolding inv_authors_def has_context_def by (cases p) auto
  moreover have "has_context d (ref_context r) \<and> has_event d (ref_head r)" if "r \<in> set (db_local d)" for r
    using inv(9) that stored_in_context [OF assms] stored_in_has_event unfolding inv_local_def by blast
  moreover have "has_context d (rem_context r) \<and> has_event d (rem_head r)" if "r \<in> set (db_remote d)" for r
    using inv(10) that stored_in_context [OF assms] stored_in_has_event unfolding inv_remote_def by blast
  ultimately show ?thesis
    using store_inv_context [OF assms] store_inv_edge [OF assms]
    by (simp add: foreign_keys_hold_def list_all_iff split_beta)
qed

section \<open>The lemmas of opening\<close>

lemma object_count_fresh:
  assumes "blank_file f" "p \<in> set REQUIRED_OBJECTS"
  shows "object_count (fresh_file f) (fst p) (snd p) = 1"
proof -
  have "filter (\<lambda>q. q = (fst p, snd p)) (df_objects f) = []"
    using assms by (auto simp: blank_file_def filter_empty_conv list_ex_iff split_beta)
  moreover have "list_all (\<lambda>p. length (filter (\<lambda>q. q = (fst p, snd p)) REQUIRED_OBJECTS) = 1) REQUIRED_OBJECTS"
    by code_simp
  ultimately show ?thesis
    using assms(2) by (simp add: object_count_def fresh_file_def list_all_iff)
qed

lemma fresh_current: "blank_file f \<Longrightarrow> current_schema (fresh_file f)"
proof -
  assume blank: "blank_file f"
  have objects: "object_count (fresh_file f) kind name = 1" if "(kind, name) \<in> set REQUIRED_OBJECTS" for kind name
    using object_count_fresh [OF blank that] by simp
  have parsed: "parse_i64 ''1'' = Some 1" by code_simp
  have "object_count (fresh_file f) ''table'' ''metadata'' = 1"
    by (rule objects) (simp add: REQUIRED_OBJECTS_def)
  then have "schema_version (fresh_file f) = Inr STORE_SCHEMA_VERSION"
    by (simp add: schema_version_def fresh_file_def metadata_values_def parsed STORE_SCHEMA_VERSION_def)
  moreover have "\<not> list_ex (\<lambda>(kind, name). object_count (fresh_file f) kind name \<noteq> 1) REQUIRED_OBJECTS"
    using objects by (auto simp: list_ex_iff)
  moreover have "foreign_keys_hold (df_rows (fresh_file f))"
    by (simp add: foreign_keys_hold_def fresh_file_def empty_db_def)
  ultimately show ?thesis
    by (simp add: current_schema_def verify_objects_def) (simp add: fresh_file_def metadata_values_def)
qed

lemma migrate_cases:
  assumes "migrate_tx f = Inr (u, f')"
  shows "current_schema f' \<and> (f' = f \<or> blank_file f \<and> f' = fresh_file f)"
proof (cases "table_count f = 0")
  case True
  then have "blank_file f" "f' = fresh_file f"
    using assms unfolding migrate_tx_def apply_schema_def blank_file_def bindR_Inr_iff
    by (simp_all add: bindR_Inr_iff split: if_splits)
  then show ?thesis using fresh_current by blast
next
  case False
  then show ?thesis
    using assms by (auto simp: migrate_tx_def bindR_Inr_iff current_schema_def split: if_splits)
qed

lemma store_open_cases:
  assumes "store_open utf8 fault keys_on oc f = (r, f')"
  shows "(r = Inr () \<longrightarrow> current_schema f') \<and> (f' = f \<or> blank_file f \<and> f' = fresh_file f) \<and>
    (r \<noteq> Inr () \<and> r \<noteq> Inl IndeterminateCommit \<longrightarrow> f' = f)"
proof (cases "f' = f \<and> (\<exists>e. r = Inl e)")
  case False
  have "open_steps utf8 fault keys_on \<noteq> Inl e" for e
  proof
    assume "open_steps utf8 fault keys_on = Inl e"
    then have "r = Inl e" "f' = f" using assms by (simp_all add: store_open_def)
    with False show False by blast
  qed
  then obtain u where "open_steps utf8 fault keys_on = Inr u" by (cases "open_steps utf8 fault keys_on") blast+
  then have run: "finish_transaction oc f (migrate_tx f) = (r, f')"
    using assms by (simp add: store_open_def)
  then obtain u f1 where m: "migrate_tx f = Inr (u, f1)"
    using False by (cases "migrate_tx f") (auto simp: finish_transaction_def)
  show ?thesis
    using run False migrate_cases [OF m] by (cases oc) (auto simp: finish_transaction_def m)
qed auto

text \<open>A file of this version opens, whatever a run of the store made of its rows.\<close>

lemma current_tables:
  assumes "current_schema f" shows "table_count f \<noteq> 0"
proof -
  have "object_count f ''table'' ''metadata'' = 1"
    using assms by (auto simp: current_schema_def schema_version_def split: if_splits)
  then have "filter (\<lambda>p. p = (''table'', ''metadata'')) (df_objects f) \<noteq> []"
    by (auto simp: object_count_def)
  moreover have "\<not> sqlite_name ''metadata''" by code_simp
  ultimately show ?thesis by (auto simp: table_count_def filter_empty_conv)
qed

lemma current_rows:
  "current_schema f \<Longrightarrow> foreign_keys_hold d \<Longrightarrow> current_schema (f\<lparr>df_rows := d\<rparr>)"
proof -
  assume f: "current_schema f" "foreign_keys_hold d"
  have count: "object_count (f\<lparr>df_rows := d\<rparr>) = object_count f" by (simp add: object_count_def fun_eq_iff)
  have "schema_version (f\<lparr>df_rows := d\<rparr>) = schema_version f" by (simp add: schema_version_def count)
  moreover have "verify_objects (f\<lparr>df_rows := d\<rparr>) = Inr ()"
    using f unfolding current_schema_def verify_objects_def count
    by (auto simp: bindR_Inr_iff split: list.splits if_splits)
  ultimately show ?thesis using f by (simp add: current_schema_def)
qed

lemma current_opens:
  "current_schema f \<Longrightarrow> store_open True (\<lambda>_. None) True Committed f = (Inr (), f)"
  using current_tables [of f]
  by (simp add: store_open_def open_steps_def reach_def migrate_tx_def current_schema_def finish_transaction_def)

lemma newer_refused:
  "schema_version f = Inr v \<Longrightarrow> STORE_SCHEMA_VERSION < v \<Longrightarrow> table_count f \<noteq> 0 \<Longrightarrow>
    open_steps utf8 fault keys_on = Inr () \<Longrightarrow> store_open utf8 fault keys_on oc f = (Inl NewerSchema, f)"
  by (simp add: store_open_def migrate_tx_def finish_transaction_def)

lemma current_foreign_keys:
  assumes "current_schema f" shows "foreign_keys_hold (df_rows f)"
proof (cases "df_metadata f")
  case None
  then show ?thesis using assms by (simp add: current_schema_def verify_objects_def)
next
  case (Some rows)
  then show ?thesis
    using assms unfolding current_schema_def verify_objects_def
    by (cases "metadata_values rows ''schema_fingerprint''") (auto simp: bindR_Inr_iff split: if_splits)
qed

text \<open>An empty file.\<close>

definition sample_blank :: database_file where
  "sample_blank = \<lparr>df_objects = [], df_metadata = None, df_rows = empty_db\<rparr>"

lemma sample_opens: "store_open True (\<lambda>_. None) True Committed sample_blank = (Inr (), fresh_file sample_blank)"
proof -
  have "blank_file sample_blank" by (simp add: blank_file_def table_count_def sample_blank_def)
  then have "migrate_tx sample_blank = Inr ((), fresh_file sample_blank)"
    using fresh_current [of sample_blank]
    by (simp add: migrate_tx_def blank_file_def apply_schema_def current_schema_def)
  then show ?thesis by (simp add: store_open_def open_steps_def reach_def finish_transaction_def)
qed

end
