(* ===== verification/Sample_Env.thy ===== *)
theory Sample_Env
  imports Crypto
begin

text \<open>
  A concrete environment that satisfies every law of \<open>Primitives\<close>: a base-64 codec, a prefix
  code for JSON values with its reader, a digest and a signature scheme. It shows that the
  hypotheses of the development hold together; the witnesses evaluate in it. It is not a model
  of the libraries the program links.
\<close>

section \<open>Base 64\<close>

definition alphabet64 :: string where
  "alphabet64 =
     ''ABCDEFGHIJKLMNOPQRSTUVWXYZabcdefghijklmnopqrstuvwxyz0123456789-_''"

definition to_char64 :: "nat \<Rightarrow> char" where
  "to_char64 n = alphabet64 ! n"

definition of_char64 :: "char \<Rightarrow> nat" where
  "of_char64 c = length (takeWhile (\<lambda>d. d \<noteq> c) alphabet64)"

text \<open>The \<open>n\<close> low bits of a number, most significant first.\<close>

fun bits_of :: "nat \<Rightarrow> nat \<Rightarrow> bool list" where
  "bits_of 0 k = []"
| "bits_of (Suc n) k = bits_of n (k div 2) @ [odd k]"

fun of_bits :: "bool list \<Rightarrow> nat" where
  "of_bits [] = 0"
| "of_bits (b # bs) = (if b then 2 ^ length bs else 0) + of_bits bs"

fun chunks :: "nat \<Rightarrow> nat \<Rightarrow> 'a list \<Rightarrow> 'a list list" where
  "chunks 0 n xs = []"
| "chunks (Suc k) n xs = take n xs # chunks k n (drop n xs)"

definition byte_bits :: "bytes \<Rightarrow> bool list" where
  "byte_bits b = concat (map (\<lambda>x. bits_of 8 (unat x)) b)"

definition encode64 :: "bytes \<Rightarrow> string" where
  "encode64 b = (let n = (length b * 8 + 5) div 6 in
     map (\<lambda>c. to_char64 (of_bits c)) (chunks n 6 (byte_bits b @ replicate 5 False)))"

definition decode64 :: "string \<Rightarrow> bytes option" where
  "decode64 s = Some (map (\<lambda>c. of_nat (of_bits c))
     (chunks (length s * 6 div 8) 8 (concat (map (\<lambda>c. bits_of 6 (of_char64 c)) s))))"

lemma length_bits_of [simp]: "length (bits_of n k) = n"
  by (induction n arbitrary: k) auto

lemma of_bits_append: "of_bits (xs @ ys) = of_bits xs * 2 ^ length ys + of_bits ys"
  by (induction xs) (auto simp: power_add algebra_simps)

lemma of_bits_bits_of: "k < 2 ^ n \<Longrightarrow> of_bits (bits_of n k) = k"
proof (induction n arbitrary: k)
  case (Suc n)
  then have "of_bits (bits_of n (k div 2)) = k div 2" by auto
  then show ?case by (auto simp: of_bits_append elim: oddE)
qed simp

lemma of_bits_less: "of_bits bs < 2 ^ length bs"
  by (induction bs) auto

lemma bits_of_of_bits: "bits_of (length bs) (of_bits bs) = bs"
proof (induction bs rule: rev_induct)
  case (snoc b bs)
  then show ?case by (auto simp: of_bits_append)
qed simp

lemma length_chunks [simp]: "length (chunks k n xs) = k"
  by (induction k n xs rule: chunks.induct) auto

lemma concat_chunks: "length xs = k * n \<Longrightarrow> concat (chunks k n xs) = xs"
  by (induction k n xs rule: chunks.induct) auto

lemma chunk_length: "c \<in> set (chunks k n xs) \<Longrightarrow> k * n \<le> length xs \<Longrightarrow> length c = n"
  by (induction k n xs rule: chunks.induct) auto

lemma chunks_prefix: "k * n \<le> length xs \<Longrightarrow> chunks k n (xs @ ys) = chunks k n xs"
  by (induction k n xs rule: chunks.induct) auto

lemma concat_chunks_take: "k * n \<le> length xs \<Longrightarrow> concat (chunks k n xs) = take (k * n) xs"
  using concat_chunks [of "take (k * n) xs" k n] chunks_prefix [of k n "take (k * n) xs" "drop (k * n) xs"]
  by simp

lemma chunks_concat_map:
  "\<forall>x \<in> set xs. length (f x) = n \<Longrightarrow> chunks (length xs) n (concat (map f xs)) = map f xs"
  by (induction xs) auto

lemma char64_inverse: "n < 64 \<Longrightarrow> of_char64 (to_char64 n) = n"
proof -
  have "\<forall>n \<in> set [0..<64]. of_char64 (to_char64 n) = n" by code_simp
  then show "n < 64 \<Longrightarrow> of_char64 (to_char64 n) = n" by simp
qed

lemma length_byte_bits [simp]: "length (byte_bits b) = 8 * length b"
  by (induction b) (auto simp: byte_bits_def)

lemma length_encode64: "length (encode64 b) = (length b * 8 + 5) div 6"
  by (simp add: encode64_def Let_def)

lemma decode_encode64: "decode64 (encode64 b) = Some b"
proof -
  let ?n = "(length b * 8 + 5) div 6" and ?bits = "byte_bits b @ replicate 5 False"
  have le: "?n * 6 \<le> length ?bits" by simp
  have "concat (map (\<lambda>c. bits_of 6 (of_char64 c)) (encode64 b)) = concat (chunks ?n 6 ?bits)"
  proof -
    have "bits_of 6 (of_char64 (to_char64 (of_bits c))) = c" if "c \<in> set (chunks ?n 6 ?bits)" for c
    proof -
      have len: "length c = 6" by (rule chunk_length [OF that le])
      then have "of_bits c < 64" using of_bits_less [of c] by simp
      then show ?thesis using bits_of_of_bits [of c] len by (simp add: char64_inverse)
    qed
    then show ?thesis by (simp add: encode64_def Let_def comp_def cong: map_cong)
  qed
  also have "\<dots> = take (?n * 6) ?bits" by (rule concat_chunks_take [OF le])
  finally have bits: "concat (map (\<lambda>c. bits_of 6 (of_char64 c)) (encode64 b)) = take (?n * 6) ?bits" .
  have k: "?n * 6 div 8 = length b"
  proof -
    have "length b * 8 \<le> ?n * 6" "?n * 6 \<le> length b * 8 + 5" by simp_all
    then show ?thesis by linarith
  qed
  have "length b * 8 \<le> ?n * 6" by simp
  then obtain rest where rest: "take (?n * 6) ?bits = byte_bits b @ rest"
    by (simp add: take_append)
  have "chunks (length b) 8 (byte_bits b) = map (\<lambda>x. bits_of 8 (unat x)) b"
    unfolding byte_bits_def by (rule chunks_concat_map) simp
  then have "chunks (length b) 8 (byte_bits b @ rest) = map (\<lambda>x. bits_of 8 (unat x)) b"
    by (subst chunks_prefix) auto
  moreover have "of_nat (of_bits (bits_of 8 (unat x))) = x" for x :: byte
    using unsigned_less [of x] by (subst of_bits_bits_of) simp_all
  ultimately show ?thesis
    by (simp only: decode64_def bits length_encode64 k rest option.inject map_map comp_def map_idI)
qed

section \<open>A prefix code for JSON\<close>

fun enc_nat :: "nat \<Rightarrow> bytes" where
  "enc_nat n = (if n = 0 then [0] else (if odd n then 2 else 1) # enc_nat (n div 2))"

declare enc_nat.simps [simp del]

fun dec_nat :: "bytes \<Rightarrow> (nat \<times> bytes) option" where
  "dec_nat [] = None"
| "dec_nat (b # bs) =
     (if b = 0 then Some (0, bs)
      else map_option (\<lambda>(n, r). (2 * n + (if b = 2 then 1 else 0), r)) (dec_nat bs))"

lemma dec_enc_nat: "dec_nat (enc_nat n @ r) = Some (n, r)"
proof (induction n rule: enc_nat.induct)
  case (1 n)
  show ?case
  proof (cases "n = 0")
    case True
    then show ?thesis by (simp add: enc_nat.simps)
  next
    case False
    have "2 * (n div 2) + (if odd n then 1 else 0) = n" by (auto elim: oddE)
    then show ?thesis using 1 [OF False] False by (subst enc_nat.simps) auto
  qed
qed

definition enc_int :: "int \<Rightarrow> bytes" where
  "enc_int i = (if i < 0 then 1 else 0) # enc_nat (nat \<bar>i\<bar>)"

definition dec_int :: "bytes \<Rightarrow> (int \<times> bytes) option" where
  "dec_int b = (case b of [] \<Rightarrow> None | s # b \<Rightarrow>
     map_option (\<lambda>(n, r). (if s = 1 then - int n else int n, r)) (dec_nat b))"

lemma dec_enc_int: "dec_int (enc_int i @ r) = Some (i, r)"
  by (simp add: dec_int_def enc_int_def dec_enc_nat)

definition byte_char :: "byte \<Rightarrow> char" where
  "byte_char b = char_of (unat b)"

lemma byte_char_inverse: "byte_char (char_byte c) = c"
  using nat_of_char_less_256 [of c]
  by (simp add: byte_char_def char_byte_def unat_of_nat)

fun enc_text :: "string \<Rightarrow> bytes" where
  "enc_text [] = [0]"
| "enc_text (c # s) = 1 # char_byte c # enc_text s"

fun dec_text :: "bytes \<Rightarrow> (string \<times> bytes) option" where
  "dec_text (m # bs) =
     (if m = 0 then Some ([], bs)
      else case bs of [] \<Rightarrow> None | c # bs' \<Rightarrow> map_option (\<lambda>(s, r). (byte_char c # s, r)) (dec_text bs'))"
| "dec_text [] = None"

lemma dec_enc_text: "dec_text (enc_text s @ r) = Some (s, r)"
  by (induction s) (auto simp: byte_char_inverse)

lemma length_enc_text [simp]: "length (enc_text s) = 2 * length s + 1"
  by (induction s) auto

fun enc_number :: "jnumber \<Rightarrow> bytes" where
  "enc_number (PosInt n) = 0 # enc_nat n"
| "enc_number (NegInt i) = 1 # enc_int i"
| "enc_number (Float x) = (case quotient_of x of (p, q) \<Rightarrow> 2 # enc_int p @ enc_int q)"

definition dec_number :: "bytes \<Rightarrow> (jnumber \<times> bytes) option" where
  "dec_number b = (case b of [] \<Rightarrow> None | t # b \<Rightarrow>
     if t = 0 then map_option (\<lambda>(n, r). (PosInt n, r)) (dec_nat b)
     else if t = 1 then map_option (\<lambda>(i, r). (NegInt i, r)) (dec_int b)
     else Option.bind (dec_int b) (\<lambda>(p, b).
       map_option (\<lambda>(q, r). (Float (of_int p / of_int q), r)) (dec_int b)))"

lemma dec_enc_number: "dec_number (enc_number n @ r) = Some (n, r)"
proof (cases n)
  case (Float x)
  obtain p q where pq: "quotient_of x = (p, q)" by fastforce
  then have "x = of_int p / of_int q" by (rule quotient_of_div)
  with Float pq show ?thesis by (simp add: dec_number_def dec_enc_int)
qed (simp_all add: dec_number_def dec_enc_nat dec_enc_int)

fun enc_json :: "json \<Rightarrow> bytes" where
  "enc_json JNull = [0]"
| "enc_json (JBool b) = [if b then 2 else 1]"
| "enc_json (JNumber n) = 3 # enc_number n"
| "enc_json (JString s) = 4 # enc_text s"
| "enc_json (JArray vs) = 5 # concat (map (\<lambda>v. 1 # enc_json v) vs) @ [0]"
| "enc_json (JObject m) = 6 # concat (map (\<lambda>e. 1 # enc_text (fst e) @ enc_json (snd e)) m) @ [0]"

fun dec_json :: "nat \<Rightarrow> bytes \<Rightarrow> (json \<times> bytes) option"
  and dec_items :: "nat \<Rightarrow> bytes \<Rightarrow> (json list \<times> bytes) option"
  and dec_members :: "nat \<Rightarrow> bytes \<Rightarrow> ((string \<times> json) list \<times> bytes) option"
where
  "dec_json 0 b = None"
| "dec_json (Suc f) b = (case b of [] \<Rightarrow> None | t # b \<Rightarrow>
     if t = 0 then Some (JNull, b)
     else if t = 1 then Some (JBool False, b)
     else if t = 2 then Some (JBool True, b)
     else if t = 3 then map_option (\<lambda>(n, r). (JNumber n, r)) (dec_number b)
     else if t = 4 then map_option (\<lambda>(s, r). (JString s, r)) (dec_text b)
     else if t = 5 then map_option (\<lambda>(vs, r). (JArray vs, r)) (dec_items f b)
     else map_option (\<lambda>(m, r). (JObject m, r)) (dec_members f b))"
| "dec_items 0 b = None"
| "dec_items (Suc f) b = (case b of [] \<Rightarrow> None | t # b \<Rightarrow>
     if t = 0 then Some ([], b)
     else Option.bind (dec_json f b) (\<lambda>(v, b).
       map_option (\<lambda>(vs, r). (v # vs, r)) (dec_items f b)))"
| "dec_members 0 b = None"
| "dec_members (Suc f) b = (case b of [] \<Rightarrow> None | t # b \<Rightarrow>
     if t = 0 then Some ([], b)
     else Option.bind (dec_text b) (\<lambda>(k, b).
       Option.bind (dec_json f b) (\<lambda>(v, b).
         map_option (\<lambda>(m, r). ((k, v) # m, r)) (dec_members f b))))"

lemma dec_items_enc:
  assumes "\<And>v f r. v \<in> set vs \<Longrightarrow> length (enc_json v) \<le> f \<Longrightarrow> dec_json f (enc_json v @ r) = Some (v, r)"
    and "length (concat (map (\<lambda>v. 1 # enc_json v) vs)) < f"
  shows "dec_items f (concat (map (\<lambda>v. 1 # enc_json v) vs) @ 0 # r) = Some (vs, r)"
  using assms
proof (induction vs arbitrary: f)
  case Nil
  then show ?case by (cases f) auto
next
  case (Cons v vs)
  then obtain g where f: "f = Suc g" by (cases f) auto
  have "dec_items g (concat (map (\<lambda>v. 1 # enc_json v) vs) @ 0 # r) = Some (vs, r)"
    using Cons.prems by (intro Cons.IH) (auto simp: f)
  moreover have "dec_json g (enc_json v @ concat (map (\<lambda>v. 1 # enc_json v) vs) @ 0 # r) =
      Some (v, concat (map (\<lambda>v. 1 # enc_json v) vs) @ 0 # r)"
    using Cons.prems by (intro Cons.prems(1)) (auto simp: f)
  ultimately show ?case by (simp add: f)
qed

lemma dec_members_enc:
  assumes "\<And>e f r. e \<in> set m \<Longrightarrow> length (enc_json (snd e)) \<le> f \<Longrightarrow>
      dec_json f (enc_json (snd e) @ r) = Some (snd e, r)"
    and "length (concat (map (\<lambda>e. 1 # enc_text (fst e) @ enc_json (snd e)) m)) < f"
  shows "dec_members f (concat (map (\<lambda>e. 1 # enc_text (fst e) @ enc_json (snd e)) m) @ 0 # r) = Some (m, r)"
  using assms
proof (induction m arbitrary: f)
  case Nil
  then show ?case by (cases f) auto
next
  case (Cons e m)
  then obtain g where f: "f = Suc g" by (cases f) auto
  let ?rest = "concat (map (\<lambda>e. 1 # enc_text (fst e) @ enc_json (snd e)) m) @ 0 # r"
  have "dec_members g ?rest = Some (m, r)"
    using Cons.prems by (intro Cons.IH) (auto simp: f)
  moreover have "dec_json g (enc_json (snd e) @ ?rest) = Some (snd e, ?rest)"
    using Cons.prems by (intro Cons.prems(1)) (auto simp: f)
  ultimately show ?case by (simp add: f dec_enc_text)
qed

lemma dec_enc_json: "length (enc_json v) \<le> f \<Longrightarrow> dec_json f (enc_json v @ r) = Some (v, r)"
proof (induction v arbitrary: f r rule: enc_json.induct)
  case (5 vs)
  then obtain g where f: "f = Suc g" by (cases f) auto
  have "dec_items g (concat (map (\<lambda>v. 1 # enc_json v) vs) @ 0 # r) = Some (vs, r)"
    using 5 by (intro dec_items_enc) (auto simp: f)
  then show ?case by (simp add: f)
next
  case (6 m)
  then obtain g where f: "f = Suc g" by (cases f) auto
  have "dec_members g (concat (map (\<lambda>e. 1 # enc_text (fst e) @ enc_json (snd e)) m) @ 0 # r) = Some (m, r)"
    using 6 by (intro dec_members_enc) (auto simp: f)
  then show ?case by (simp add: f)
qed (case_tac f, simp, simp add: dec_enc_number dec_enc_text)+

section \<open>The environment\<close>

text \<open>The digest keeps the length of its input, the signature scheme accepts one signature.\<close>

definition sample_digest :: "bytes \<Rightarrow> bytes" where
  "sample_digest d = of_nat (length d) # of_nat (length d div 256) # replicate 30 0"

definition sample_env :: env where
  "sample_env = \<lparr>b64_encode = encode64, b64_decode = decode64,
     jcs_to_vec = (\<lambda>v. Some (enc_json (json_norm v))),
     json_reader = (\<lambda>b. case dec_json (length b) b of
         Some (v, []) \<Rightarrow> (tree_of v, None) | _ \<Rightarrow> (TError ''syntax'', None)),
     blake3_derive = (\<lambda>c d. sample_digest d), blake3_hash = sample_digest,
     ed_public = (\<lambda>s. take 32 (s @ replicate 32 0)), ed_sign = (\<lambda>s m. replicate 64 0),
     ed_key_ok = (\<lambda>k. True), ed_verify_strict = (\<lambda>k m s. s = replicate 64 0)\<rparr>"

lemma sample_env_sel [simp]:
  "b64_encode sample_env = encode64" "b64_decode sample_env = decode64"
  "jcs_to_vec sample_env v = Some (enc_json (json_norm v))"
  "blake3_derive sample_env c d = sample_digest d" "blake3_hash sample_env d = sample_digest d"
  "ed_public sample_env s = take 32 (s @ replicate 32 0)"
  "ed_sign sample_env s m = replicate 64 0" "ed_key_ok sample_env k"
  "ed_verify_strict sample_env k m sig \<longleftrightarrow> sig = replicate 64 0"
  by (simp_all add: sample_env_def)

lemma sample_reader: "json_reader sample_env (enc_json v) = (tree_of v, None)"
  using dec_enc_json [of v "length (enc_json v)" "[]"] by (simp add: sample_env_def)

lemma enc_json_head: "take 3 (enc_json v) \<noteq> [0xef, 0xbb, 0xbf]"
  by (cases v) auto

lemma rendered_len_sample: "rendered_len sample_env v = length (enc_json (json_norm v))"
  by (simp add: rendered_len_def)

lemma length_concat_map_eq: "length (concat (map f xs)) = (\<Sum>x\<leftarrow>xs. length (f x))"
  by (simp add: length_concat comp_def)

lemma sample_env_lawful: "env_lawful sample_env"
proof -
  have "base64_lawful sample_env"
    by (simp add: base64_lawful_def decode_encode64 length_encode64)
  moreover have "digest_lawful sample_env" by (simp add: digest_lawful_def sample_digest_def)
  moreover have "ed25519_lawful sample_env" by (auto simp: ed25519_lawful_def)
  moreover have "jcs_lawful sample_env"
    by (simp add: jcs_lawful_def sample_reader enc_json_head)
  moreover have "jcs_compact sample_env"
    unfolding jcs_compact_def
  proof (intro conjI allI)
    fix s show "rendered_len sample_env (JString s) \<le> 2 + 6 * length s"
      by (simp add: rendered_len_sample)
    fix m
    have "(\<Sum>e\<leftarrow>m. Suc (Suc (2 * length (fst e) + length (enc_json (json_norm (snd e)))))) \<le>
      (\<Sum>(k, v)\<leftarrow>m. rendered_len sample_env (JString k) + rendered_len sample_env v + 2)"
      by (rule sum_list_mono) (auto simp: rendered_len_sample)
    then show "rendered_len sample_env (JObject m) \<le>
      2 + (\<Sum>(k, v)\<leftarrow>m. rendered_len sample_env (JString k) + rendered_len sample_env v + 2)"
      by (simp add: rendered_len_sample length_concat_map_eq json_norm.simps comp_def)
  qed
  ultimately show ?thesis by (simp add: env_lawful_def)
qed

end
