(* ===== verification/Sample_Store.thy ===== *)
theory Sample_Store
  imports Sample_Env Store_Sync
begin

text \<open>
  A small store in the concrete environment: one context with its genesis event, two events
  on a branch, a merge, and the refs. The witnesses apply the properties to it.
\<close>

section \<open>Events\<close>

definition sample_identity :: signing_identity where
  "sample_identity = SigningIdentity (replicate 32 1)"

definition sample_author :: author_id where
  "sample_author = AuthorId (replicate 32 1)"

definition sample_context :: context_id where
  "sample_context = ContextId (replicate 32 7)"

lemma sample_identity_author: "identity_author sample_env sample_identity = sample_author"
  by (simp add: identity_author_def sample_identity_def sample_author_def)

definition sample_body :: "event_id list \<Rightarrow> string \<Rightarrow> event_body" where
  "sample_body ps kind = \<lparr>body_version = EVENT_VERSION, body_context = sample_context, body_parents = ps,
     body_kind = kind, body_author = sample_author, body_payload = JObject []\<rparr>"

lemma sample_text_len:
  "event_id_wf i \<Longrightarrow> length (event_id_text sample_env i) = 48"
  "length (context_id_text sample_env sample_context) = 48"
  "length (author_id_text sample_env sample_author) = 51"
  by (simp_all add: event_id_text_def context_id_text_def author_id_text_def fixed_to_text_def
      length_encode64 event_id_wf_def sample_context_def sample_author_def)

lemma enc_nat_1: "enc_nat (Suc 0) = [2, 0]"
  by (simp add: enc_nat.simps [of "Suc 0"] enc_nat.simps [of 0])

lemma sample_body_json:
  "body_json sample_env (sample_body ps kind) = JObject
     [(''author'', JString (author_id_text sample_env sample_author)),
      (''context'', JString (context_id_text sample_env sample_context)),
      (''kind'', JString kind),
      (''parents'', JArray (map (\<lambda>p. JString (event_id_text sample_env p)) ps)),
      (''payload'', JObject []), (''version'', JNumber (PosInt 1))]"
  by (simp add: body_json_def body_fields_def sample_body_def obj_of_def EVENT_VERSION_def)

lemma sample_body_len:
  assumes "\<forall>p \<in> set ps. event_id_wf p"
  shows "rendered_len sample_env (body_json sample_env (sample_body ps kind)) =
    302 + 2 * length kind + 99 * length ps"
proof -
  have "(\<Sum>p\<leftarrow>ps. Suc (Suc (Suc (2 * length (event_id_text sample_env p))))) = 99 * length ps"
    using assms by (induction ps) (auto simp: sample_text_len)
  then show ?thesis
    by (simp add: rendered_len_sample sample_body_json json_norm.simps length_concat_map_eq comp_def
        sample_text_len enc_nat_1)
qed

text \<open>The digest of a body is its length, in two bytes.\<close>

definition sample_id :: "nat \<Rightarrow> event_id" where
  "sample_id n = EventId (of_nat n # of_nat (n div 256) # replicate 30 0)"

lemma sample_id_wf [simp]: "event_id_wf (sample_id n)"
  by (simp add: sample_id_def event_id_wf_def)

lemma sample_id_eq_iff: "m < 65536 \<Longrightarrow> n < 65536 \<Longrightarrow> sample_id m = sample_id n \<longleftrightarrow> m = n"
proof
  assume "m < 65536" "n < 65536" "sample_id m = sample_id n"
  then have "unat (of_nat m :: byte) = unat (of_nat n :: byte)"
    "unat (of_nat (m div 256) :: byte) = unat (of_nat (n div 256) :: byte)"
    by (auto simp: sample_id_def)
  then have "m mod 256 = n mod 256" "m div 256 mod 256 = n div 256 mod 256"
    by (simp_all add: unat_of_nat)
  moreover have "m div 256 < 256" "n div 256 < 256"
    using \<open>m < 65536\<close> \<open>n < 65536\<close> by (auto simp: less_mult_imp_div_less)
  ultimately have "m mod 256 = n mod 256" "m div 256 = n div 256" by auto
  then show "m = n" by (metis div_mult_mod_eq)
qed simp

definition sample_len :: "nat \<Rightarrow> string \<Rightarrow> nat" where
  "sample_len n kind = 302 + 2 * length kind + 99 * n"

definition sample_event :: "event_id list \<Rightarrow> string \<Rightarrow> signed_event" where
  "sample_event ps kind = \<lparr>ev_id = sample_id (sample_len (length ps) kind),
     ev_body = sample_body ps kind, ev_signature = EventSignature (replicate 64 0)\<rparr>"

lemma sample_event_sel [simp]:
  "ev_id (sample_event ps kind) = sample_id (sample_len (length ps) kind)"
  "ev_body (sample_event ps kind) = sample_body ps kind"
  "ev_signature (sample_event ps kind) = EventSignature (replicate 64 0)"
  "event_context (sample_event ps kind) = sample_context"
  "event_parents (sample_event ps kind) = ps"
  by (simp_all add: sample_event_def event_context_def event_parents_def sample_body_def)

lemma sample_body_sel [simp]:
  "body_version (sample_body ps kind) = EVENT_VERSION"
  "body_context (sample_body ps kind) = sample_context"
  "body_parents (sample_body ps kind) = ps" "body_kind (sample_body ps kind) = kind"
  "body_author (sample_body ps kind) = sample_author" "body_payload (sample_body ps kind) = JObject []"
  by (simp_all add: sample_body_def)

text \<open>The parents and kinds a sample event may have.\<close>

definition sample_ok :: "event_id list \<Rightarrow> string \<Rightarrow> bool" where
  "sample_ok ps kind \<longleftrightarrow> length ps \<le> 64 \<and> (\<forall>p \<in> set ps. event_id_wf p) \<and>
     strictly_sorted (event_id_text sample_env) ps \<and> name_ok MAX_KIND_BYTES kind"

lemma canonicalize_sample: "canonicalize sample_env v = Inr (enc_json (json_norm v))"
  by (simp add: canonicalize_def)

lemma sample_canonical_len:
  "\<forall>p \<in> set ps. event_id_wf p \<Longrightarrow>
    length (enc_json (json_norm (body_json sample_env (sample_body ps kind)))) =
      sample_len (length ps) kind"
  using sample_body_len [of ps kind] by (simp add: rendered_len_sample sample_len_def)

lemma sample_valid:
  assumes "sample_ok ps kind"
  shows "validate_body sample_env (sample_body ps kind) = Inr ()"
proof -
  have "length kind \<le> 64" using assms by (auto simp: sample_ok_def name_ok_def MAX_KIND_BYTES_def)
  then have "sample_len (length ps) kind \<le> MAX_CANONICAL_BODY_BYTES"
    using assms by (auto simp: sample_ok_def sample_len_def MAX_CANONICAL_BODY_BYTES_def)
  moreover have "canonicalize sample_env (JObject []) = Inr [6, 0]"
    by (simp add: canonicalize_sample json_norm.simps)
  ultimately show ?thesis
    using assms sample_canonical_len [of ps kind]
    by (auto simp: validate_body_iff sample_ok_def MAX_PARENTS_def MAX_PAYLOAD_DEPTH_def
        canonicalize_sample MAX_CANONICAL_PAYLOAD_BYTES_def json_norm.simps)
qed

lemma sample_derive:
  "sample_ok ps kind \<Longrightarrow>
    derive_event_id sample_env (sample_body ps kind) = Inr (sample_id (sample_len (length ps) kind))"
  using sample_canonical_len [of ps kind]
  by (auto simp: derive_event_id_Inr_iff canonical_bytes_Inr_iff sample_valid canonicalize_sample
      sample_digest_def sample_id_def sample_ok_def)

lemma sample_create:
  assumes "sample_ok ps kind"
  shows "create_event sample_env sample_identity sample_context ps kind (JObject []) = Inr (sample_event ps kind)"
proof -
  have "body_new sample_env sample_context ps kind sample_author (JObject []) = Inr (sample_body ps kind)"
    using sample_valid [OF assms] by (simp add: body_new_def Let_def sample_body_def)
  then show ?thesis
    using sample_derive [OF assms] sample_valid [OF assms]
    by (simp add: create_event_def sign_body_def sample_identity_author from_verified_parts_def
        sign_event_id_def sample_event_def)
qed

lemma sample_verify: "sample_ok ps kind \<Longrightarrow> verify_event sample_env (sample_event ps kind) = Inr ()"
  using create_event_verifies [OF env_lawfulD(3) [OF sample_env_lawful] sample_create] .

lemma sample_context_wf [simp]: "context_id_wf sample_context"
  by (simp add: context_id_wf_def sample_context_def)

lemma sample_author_wf [simp]: "author_id_wf sample_author"
  by (simp add: author_id_wf_def sample_author_def)

lemma sample_event_wf: "sample_ok ps kind \<Longrightarrow> event_wf (sample_event ps kind)"
  using create_event_wf [OF sample_env_lawful sample_create] by (simp add: sample_ok_def)

lemma sample_norm [simp]: "norm_event (sample_event ps kind) = sample_event ps kind"
  by (simp add: norm_event_def norm_body_def sample_event_def sample_body_def json_norm.simps)

definition sample_wire :: "event_id list \<Rightarrow> string \<Rightarrow> bytes" where
  "sample_wire ps kind = enc_json (json_norm (event_json sample_env (sample_event ps kind)))"

lemma sample_to_wire: "sample_ok ps kind \<Longrightarrow> to_wire sample_env (sample_event ps kind) = Inr (sample_wire ps kind)"
  by (simp add: to_wire_Inr_iff sample_verify canonicalize_sample sample_wire_def)

lemma sample_from_wire: "sample_ok ps kind \<Longrightarrow> from_wire sample_env (sample_wire ps kind) = Inr (sample_event ps kind)"
  using from_wire_to_wire [OF sample_env_lawful sample_event_wf sample_to_wire] by simp

section \<open>The history\<close>

definition genesis_id :: event_id where "genesis_id = sample_id 332"
definition first_id :: event_id where "first_id = sample_id 417"
definition second_id :: event_id where "second_id = sample_id 423"
definition merge_id :: event_id where "merge_id = sample_id 526"

lemmas sample_ids = genesis_id_def first_id_def second_id_def merge_id_def

lemma sample_ids_distinct [simp]:
  "genesis_id \<noteq> first_id" "first_id \<noteq> genesis_id" "genesis_id \<noteq> second_id" "second_id \<noteq> genesis_id"
  "genesis_id \<noteq> merge_id" "merge_id \<noteq> genesis_id" "first_id \<noteq> second_id" "second_id \<noteq> first_id"
  "first_id \<noteq> merge_id" "merge_id \<noteq> first_id" "second_id \<noteq> merge_id" "merge_id \<noteq> second_id"
  by (simp_all add: sample_ids sample_id_eq_iff)

lemma sample_ids_wf [simp]:
  "event_id_wf genesis_id" "event_id_wf first_id" "event_id_wf second_id" "event_id_wf merge_id"
  by (simp_all add: sample_ids)

definition genesis_event :: signed_event where
  "genesis_event = sample_event [] ''context.genesis''"
definition first_event :: signed_event where
  "first_event = sample_event [genesis_id] ''note.one''"
definition second_event :: signed_event where
  "second_event = sample_event [genesis_id] ''note.second''"

lemma sample_kinds:
  "name_ok MAX_KIND_BYTES ''context.genesis''" "name_ok MAX_KIND_BYTES ''context.merge''"
  "name_ok MAX_KIND_BYTES ''note.one''" "name_ok MAX_KIND_BYTES ''note.second''"
  by code_simp+

lemma sample_oks [simp]:
  "sample_ok [] ''context.genesis''" "sample_ok [genesis_id] ''note.one''"
  "sample_ok [genesis_id] ''note.second''"
  by (simp_all add: sample_ok_def sample_kinds)

lemma sample_lens:
  "sample_id (sample_len 0 ''context.genesis'') = genesis_id"
  "sample_id (sample_len (Suc 0) ''note.one'') = first_id"
  "sample_id (sample_len (Suc 0) ''note.second'') = second_id"
  by (simp_all add: sample_len_def sample_ids)

definition sample_row :: "event_id \<Rightarrow> event_id list \<Rightarrow> string \<Rightarrow> event_row" where
  "sample_row i ps kind = \<lparr>er_id = i, er_context = sample_context, er_author = sample_author,
     er_kind = kind, er_wire = sample_wire ps kind\<rparr>"

lemma sample_row_sel [simp]:
  "er_id (sample_row i ps kind) = i" "er_context (sample_row i ps kind) = sample_context"
  "er_author (sample_row i ps kind) = sample_author" "er_kind (sample_row i ps kind) = kind"
  "er_wire (sample_row i ps kind) = sample_wire ps kind"
  by (simp_all add: sample_row_def)

definition genesis_db :: db where
  "genesis_db = \<lparr>
     db_contexts = [\<lparr>ctx_id = sample_context, ctx_expected = genesis_id,
                     ctx_genesis = Some genesis_id, ctx_state = 1\<rparr>],
     db_authors = [(sample_context, sample_author)],
     db_events = [sample_row genesis_id [] ''context.genesis''], db_edges = [],
     db_local = [\<lparr>ref_context = sample_context, ref_name = ''main'', ref_head = genesis_id\<rparr>],
     db_remote = []\<rparr>"

lemma sample_create_context:
  "create_context sample_env sample_identity ''main'' (Some (replicate 32 7)) Committed empty_db =
    (Inr \<lparr>created_context_id = sample_context, created_genesis = genesis_event,
          created_branch = \<lparr>ref_context = sample_context, ref_name = ''main'', ref_head = genesis_id\<rparr>\<rparr>,
     genesis_db)"
  using sample_create [of "[]" "''context.genesis''"] sample_to_wire [of "[]" "''context.genesis''"]
  by (simp add: create_context_def sample_context_def [symmetric] sample_identity_author sample_lens
      create_context_tx_def context_row_of_def insert_context_def has_context_def insert_author_def
      insert_event_def has_event_def activate_context_def activation_applies_def insert_local_def
      write_tx_def finish_transaction_def empty_db_def genesis_db_def sample_row_def genesis_event_def)

end
