(* ===== verification/Sample_Runs.thy ===== *)
theory Sample_Runs
  imports Store_System Sample_Store
begin

text \<open>
  A run of the store in the concrete environment: a context, an event on its branch, a second
  branch with an event of its own, and the merge of both. Every database on the way is
  reachable, so the properties of reachable stores apply to it.
\<close>

section \<open>The run\<close>

definition first_db :: db where
  "first_db = genesis_db\<lparr>
     db_events := db_events genesis_db @ [sample_row first_id [genesis_id] ''note.one''],
     db_edges := [\<lparr>edge_child = first_id, edge_ordinal = 0, edge_parent = genesis_id\<rparr>],
     db_local := [\<lparr>ref_context = sample_context, ref_name = ''main'', ref_head = first_id\<rparr>]\<rparr>"


lemmas run_defs = append_def admit_on_branch_def admit_def write_tx_def finish_transaction_def
  admit_tx_def context_row_of_def is_genesis_event_def is_authorized_def check_parents_def
  authoritative_event_context_def event_wire_def record_event_def insert_event_def has_event_def
  insert_edges_def insert_edge_def activate_pending_def query_local_def update_local_def
  admission_status_of_def at_most_one_def has_context_def Let_def


lemma sample_admit_first:
  "admit_tx sample_env first_event (sample_wire [genesis_id] ''note.one'') first_event
     (CompareAndSwap sample_context ''main'' (Head genesis_id) first_id) genesis_db = Inr (Inserted, first_db)"
  using sample_from_wire [of "[]" "''context.genesis''"]
  by (simp add: run_defs genesis_db_def first_event_def sample_lens first_db_def sample_row_def)

lemma sample_append_first:
  "append sample_env sample_identity sample_context ''main'' genesis_id ''note.one'' (JObject []) Committed genesis_db =
    (Inr first_event, first_db)"
  using sample_create [of "[genesis_id]" "''note.one''"] sample_verify [of "[genesis_id]" "''note.one''"]
    sample_to_wire [of "[genesis_id]" "''note.one''"] sample_from_wire [of "[genesis_id]" "''note.one''"]
    sample_admit_first
  by (simp add: append_def admit_on_branch_def admit_def write_tx_def finish_transaction_def
      first_event_def [symmetric] sample_lens) (simp add: first_event_def sample_lens)

definition side_db :: db where
  "side_db = first_db\<lparr>db_local := db_local first_db @
     [\<lparr>ref_context = sample_context, ref_name = ''side'', ref_head = genesis_id\<rparr>]\<rparr>"

lemma sample_create_side:
  "create_branch sample_env sample_context ''side'' genesis_id Committed first_db =
    (Inr \<lparr>ref_context = sample_context, ref_name = ''side'', ref_head = genesis_id\<rparr>, side_db)"
  using sample_from_wire [of "[]" "''context.genesis''"]
  by (simp add: create_branch_def create_branch_tx_def run_defs insert_local_def genesis_db_def sample_lens
     first_db_def side_db_def sample_row_def)

definition second_db :: db where
  "second_db = side_db\<lparr>
     db_events := db_events side_db @ [sample_row second_id [genesis_id] ''note.second''],
     db_edges := db_edges side_db @ [\<lparr>edge_child = second_id, edge_ordinal = 0, edge_parent = genesis_id\<rparr>],
     db_local := [\<lparr>ref_context = sample_context, ref_name = ''main'', ref_head = first_id\<rparr>,
                  \<lparr>ref_context = sample_context, ref_name = ''side'', ref_head = second_id\<rparr>]\<rparr>"

lemma sample_admit_second:
  "admit_tx sample_env second_event (sample_wire [genesis_id] ''note.second'') second_event
     (CompareAndSwap sample_context ''side'' (Head genesis_id) second_id) side_db = Inr (Inserted, second_db)"
  using sample_from_wire [of "[]" "''context.genesis''"]
  by (simp add: run_defs genesis_db_def second_event_def sample_lens first_db_def sample_row_def
      side_db_def second_db_def)

lemma sample_append_second:
  "append sample_env sample_identity sample_context ''side'' genesis_id ''note.second'' (JObject []) Committed side_db =
    (Inr second_event, second_db)"
  using sample_create [of "[genesis_id]" "''note.second''"] sample_verify [of "[genesis_id]" "''note.second''"]
    sample_to_wire [of "[genesis_id]" "''note.second''"] sample_from_wire [of "[genesis_id]" "''note.second''"]
    sample_admit_second
  by (simp add: append_def admit_on_branch_def admit_def write_tx_def finish_transaction_def
      second_event_def [symmetric] sample_lens) (simp add: second_event_def sample_lens)


lemma encode64_Cons: "\<exists>rest. encode64 (b # bs) = to_char64 (of_bits (take 6 (bits_of 8 (unat b)))) # rest"
proof -
  have "\<exists>k. (length (b # bs) * 8 + 5) div 6 = Suc k" by (rule exI [of _ "(length bs * 8 + 7) div 6"]) simp
  then show ?thesis by (auto simp: encode64_def byte_bits_def)
qed

lemma sample_text_order: "event_id_text sample_env first_id < event_id_text sample_env second_id"
proof -
  have bits: "unat (of_nat 417 :: byte) = 161" "unat (of_nat 423 :: byte) = 167" by simp_all
  have "to_char64 (of_bits (take 6 (bits_of 8 161))) = CHR ''o''"
    "to_char64 (of_bits (take 6 (bits_of 8 167))) = CHR ''p''"
    by code_simp+
  then obtain r1 r2 where
    "encode64 (of_nat 417 # of_nat (417 div 256) # replicate 30 0) = CHR ''o'' # r1"
    "encode64 (of_nat 423 # of_nat (423 div 256) # replicate 30 0) = CHR ''p'' # r2"
    using encode64_Cons [of "of_nat 417"] encode64_Cons [of "of_nat 423"] unfolding bits by metis
  then show ?thesis
    by (simp add: event_id_text_def fixed_to_text_def first_id_def second_id_def sample_id_def
        sample_env_def less_char_def)
qed

lemma sample_names: "ref_name_wf ''main''" "ref_name_wf ''side''" "ref_name_wf ''peer''"
  by code_simp+

definition merge_event :: signed_event where
  "merge_event = sample_event [first_id, second_id] ''context.merge''"

lemma sample_merge_ok [simp]: "sample_ok [first_id, second_id] ''context.merge''"
  by (simp add: sample_ok_def sample_kinds sample_text_order)

lemma sample_merge_id: "sample_id (sample_len (Suc (Suc 0)) ''context.merge'') = merge_id"
  by (simp add: sample_len_def sample_ids)

definition merged_db :: db where
  "merged_db = second_db\<lparr>
     db_events := db_events second_db @ [sample_row merge_id [first_id, second_id] ''context.merge''],
     db_edges := db_edges second_db @ [\<lparr>edge_child = merge_id, edge_ordinal = 0, edge_parent = first_id\<rparr>,
        \<lparr>edge_child = merge_id, edge_ordinal = 1, edge_parent = second_id\<rparr>],
     db_local := [\<lparr>ref_context = sample_context, ref_name = ''main'', ref_head = merge_id\<rparr>,
                  \<lparr>ref_context = sample_context, ref_name = ''side'', ref_head = second_id\<rparr>]\<rparr>"

lemma sample_admit_merge:
  "admit_tx sample_env merge_event (sample_wire [first_id, second_id] ''context.merge'') merge_event
     (CompareAndSwap sample_context ''main'' (Head first_id) merge_id) second_db = Inr (Inserted, merged_db)"
  using sample_from_wire [of "[]" "''context.genesis''"] sample_from_wire [of "[genesis_id]" "''note.one''"]
    sample_from_wire [of "[genesis_id]" "''note.second''"]
  by (simp add: run_defs genesis_db_def merge_event_def sample_lens sample_merge_id first_db_def sample_row_def
      side_db_def second_db_def merged_db_def)

lemma sample_merge:
  "merge sample_env sample_identity sample_context ''main'' first_id [second_id, first_id] (JObject [])
     Committed second_db = (Inr merge_event, merged_db)"
proof -
  have "sort_key (event_id_text sample_env) [second_id, first_id] = [first_id, second_id]"
    using sample_text_order by simp
  moreover have "bsearch (event_id_text sample_env) (event_id_text sample_env first_id) [first_id, second_id]"
    using sample_text_order by (simp add: bsearch_strictly_sorted)
  ultimately show ?thesis
  using sample_create [OF sample_merge_ok] sample_verify [OF sample_merge_ok]
    sample_to_wire [OF sample_merge_ok] sample_from_wire [OF sample_merge_ok]
    sample_admit_merge
  by (simp add: merge_def MAX_PARENTS_def admit_on_branch_def admit_def write_tx_def finish_transaction_def
      merge_event_def [symmetric] sample_merge_id windows2_any.simps) (simp add: merge_event_def sample_merge_id)
qed

section \<open>Reachability\<close>

lemma sample_steps:
  "store_reachable sample_env genesis_db" "store_reachable sample_env first_db"
  "store_reachable sample_env side_db" "store_reachable sample_env second_db"
  "store_reachable sample_env merged_db"
proof -
  have "store_reachable sample_env empty_db" by (simp add: store_reachable_def store_steps.refl)
  from reachable_step [OF this, of "CreateContext sample_identity ''main'' (Some (replicate 32 7))" Committed]
  show g: "store_reachable sample_env genesis_db" by (simp add: sample_create_context sample_names)
  from reachable_step [OF g, of "Append sample_identity sample_context ''main'' genesis_id ''note.one''
      (JObject [])" Committed]
  show f: "store_reachable sample_env first_db" by (simp add: sample_append_first sample_names)
  from reachable_step [OF f, of "CreateBranch sample_context ''side'' genesis_id" Committed]
  show b: "store_reachable sample_env side_db" by (simp add: sample_create_side sample_names)
  from reachable_step [OF b, of "Append sample_identity sample_context ''side'' genesis_id ''note.second''
      (JObject [])" Committed]
  show t: "store_reachable sample_env second_db" by (simp add: sample_append_second sample_names)
  from reachable_step [OF t, of "Merge sample_identity sample_context ''main'' first_id
      [second_id, first_id] (JObject [])" Committed]
  show "store_reachable sample_env merged_db" by (simp add: sample_merge sample_names)
qed

lemmas sample_invs = sample_steps [THEN reachable_inv [OF sample_env_lawful]]

section \<open>What the databases hold\<close>

lemma sample_lookups:
  "lookup_event sample_env genesis_db genesis_id = Some genesis_event"
  "lookup_event sample_env first_db genesis_id = Some genesis_event"
  "lookup_event sample_env first_db first_id = Some first_event"
  "lookup_event sample_env side_db genesis_id = Some genesis_event"
  "lookup_event sample_env side_db first_id = Some first_event"
  "lookup_event sample_env merged_db genesis_id = Some genesis_event"
  "lookup_event sample_env merged_db first_id = Some first_event"
  "lookup_event sample_env merged_db second_id = Some second_event"
  "lookup_event sample_env merged_db merge_id = Some merge_event"
  by (simp_all add: lookup_event_def genesis_db_def first_db_def side_db_def second_db_def merged_db_def
      sample_from_wire genesis_event_def first_event_def second_event_def merge_event_def)

lemma sample_locals:
  "db_local genesis_db = [\<lparr>ref_context = sample_context, ref_name = ''main'', ref_head = genesis_id\<rparr>]"
  "db_local first_db = [\<lparr>ref_context = sample_context, ref_name = ''main'', ref_head = first_id\<rparr>]"
  "db_local merged_db = [\<lparr>ref_context = sample_context, ref_name = ''main'', ref_head = merge_id\<rparr>,
     \<lparr>ref_context = sample_context, ref_name = ''side'', ref_head = second_id\<rparr>]"
  by (simp_all add: genesis_db_def first_db_def side_db_def second_db_def merged_db_def)

lemma first_event_facts [simp]:
  "event_wf first_event" "is_ok (to_wire sample_env first_event)" "ev_id first_event = first_id"
  "event_context first_event = sample_context" "event_parents first_event = [genesis_id]"
  "verify_event sample_env first_event = Inr ()" "norm_event first_event = first_event"
  using sample_event_wf [of "[genesis_id]" "''note.one''"] sample_to_wire [of "[genesis_id]" "''note.one''"]
    sample_verify [of "[genesis_id]" "''note.one''"]
  by (simp_all add: first_event_def sample_lens)

lemma sample_admit:
  "admit sample_env first_event (CompareAndSwap sample_context ''main'' (Head genesis_id) first_id)
     Committed genesis_db = (Inr Inserted, first_db)"
  using sample_from_wire [of "[genesis_id]" "''note.one''"] sample_to_wire [of "[genesis_id]" "''note.one''"]
    sample_verify [of "[genesis_id]" "''note.one''"] sample_admit_first
  by (simp add: admit_def write_tx_def finish_transaction_def first_event_def [symmetric])
    (simp add: first_event_def sample_lens)

lemma sample_has:
  "has_event first_db first_id" "has_event first_db genesis_id" "has_event merged_db merge_id"
  "has_event merged_db second_id"
  by (simp_all add: has_event_def first_db_def genesis_db_def side_db_def second_db_def merged_db_def)

lemma sample_side_step: "store_step sample_env first_db None side_db"
  using store_step.run [of "CreateBranch sample_context ''side'' genesis_id" sample_env Committed first_db None side_db]
  by (simp add: sample_create_side sample_names)

end
