(* ===== verification/Sample_Bundle.thy ===== *)
theory Sample_Bundle
  imports Sample_Runs Store_Queries
begin

text \<open>
  An exchange in the concrete environment: the second store has the genesis event, the first
  exports what it lacks, and the second imports it.
\<close>

section \<open>Projections of the run\<close>

lemma sample_wire_len: "sample_ok ps kind \<Longrightarrow> length (sample_wire ps kind) \<le> MAX_RAW_WIRE_BYTES"
  using to_wire_len [OF sample_env_lawful sample_event_wf sample_to_wire] .

lemma sample_project_genesis:
  "\<exists>n. project_on sample_env first_db sample_context [genesis_id] default_projection_limits =
    Inr ([genesis_event], n)"
proof -
  note inv = sample_invs(2)
  have len: "length (sample_wire [] ''context.genesis'') \<le> MAX_RAW_WIRE_BYTES" by (simp add: sample_wire_len)
  show ?thesis
    using len sample_to_wire [of "[]" "''context.genesis''"]
    by (simp add: project_on_def validate_projection_limits_def projection_limits_new_def MAX_BUNDLE_EVENTS_def project_loop.simps enter_event_def
        load_verified_lookup [OF inv] sample_lookups genesis_event_def checked_add_def usize_limit_def
        default_projection_limits_def MAX_PROJECTION_EVENTS_def MAX_PROJECTION_WIRE_BYTES_def
        MAX_RAW_WIRE_BYTES_def)
qed

lemma sample_project_first:
  "\<exists>n. project_on sample_env first_db sample_context [first_id] default_projection_limits =
    Inr ([genesis_event, first_event], n)"
proof -
  note inv = sample_invs(2)
  have len: "length (sample_wire [] ''context.genesis'') \<le> MAX_RAW_WIRE_BYTES"
    "length (sample_wire [genesis_id] ''note.one'') \<le> MAX_RAW_WIRE_BYTES" by (simp_all add: sample_wire_len)
  show ?thesis
    using len sample_to_wire [of "[]" "''context.genesis''"] sample_to_wire [of "[genesis_id]" "''note.one''"]
    by (simp add: project_on_def validate_projection_limits_def projection_limits_new_def MAX_BUNDLE_EVENTS_def project_loop.simps enter_event_def
        load_verified_lookup [OF inv] sample_lookups genesis_event_def first_event_def checked_add_def usize_limit_def
        default_projection_limits_def MAX_PROJECTION_EVENTS_def MAX_PROJECTION_WIRE_BYTES_def
        MAX_RAW_WIRE_BYTES_def)
qed

section \<open>The bundle\<close>

definition sample_bundle :: bundle_v1 where
  "sample_bundle = \<lparr>bundle_context = sample_context, bundle_events = [first_event],
     bundle_refs = [\<lparr>ar_namespace = LocalNamespace, ar_name = ''main'', ar_head = first_id\<rparr>]\<rparr>"

lemma sample_bundle_ok: "bundle_ok sample_env sample_bundle" "bundle_wf sample_bundle"
  by (auto simp: bundle_ok_def bundle_wf_def sample_bundle_def parents_in_order_def MAX_BUNDLE_EVENTS_def
      MAX_BUNDLE_REFS_def sample_names Cons_eq_append_conv)

lemma sample_event_rendered:
  "sample_ok ps kind \<Longrightarrow> length (enc_json (json_norm (event_json sample_env (sample_event ps kind)))) \<le> MAX_RAW_WIRE_BYTES"
  using sample_wire_len [of ps kind] by (simp add: sample_wire_def)

lemma sample_bundle_wire:
  obtains w where "bundle_to_wire sample_env sample_bundle = Inr w"
    "length w \<le> bl_max_canonical_bytes default_bundle_limits"
proof -
  have val: "bundle_event_value sample_env first_event = Inr (event_json sample_env (norm_event first_event))"
    using bundle_event_value_lawful [OF sample_env_lawful, of first_event] by simp
  have len: "length (enc_json (json_norm (event_json sample_env first_event))) \<le> 2097152"
    using sample_event_rendered [of "[genesis_id]" "''note.one''"]
    by (simp add: first_event_def MAX_RAW_WIRE_BYTES_def)
  have "length (enc_json (json_norm (bundle_json sample_env sample_context
      [event_json sample_env first_event] [ref_json sample_env
        \<lparr>ar_namespace = LocalNamespace, ar_name = ''main'', ar_head = first_id\<rparr>]))) \<le> 16777216"
    using len by (simp add: bundle_json_def ref_json_def obj_of_def json_norm.simps BUNDLE_VERSION_def enc_nat_1
        sample_text_len)
  then show thesis
    using val by (intro that)
      (simp_all add: bundle_to_wire_def sample_bundle_def canonicalize_sample MAX_BUNDLE_CANONICAL_BYTES_def
        default_bundle_limits_def)
qed

lemma valid_bundle_limits: "validate_bundle_limits default_bundle_limits = Inr ()"
  by (simp add: validate_bundle_limits_def bundle_limits_new_def default_bundle_limits_def
      MAX_BUNDLE_EVENTS_def MAX_BUNDLE_CANONICAL_BYTES_def MAX_BUNDLE_REFS_def)

lemma sample_export:
  "export_bundle sample_env first_db sample_context [first_id] [genesis_id]
     [\<lparr>ref_context = sample_context, ref_name = ''main'', ref_head = first_id\<rparr>] default_bundle_limits = Inr sample_bundle"
proof -
  obtain w where w: "bundle_to_wire sample_env sample_bundle = Inr w"
    "length w \<le> bl_max_canonical_bytes default_bundle_limits" by (rule sample_bundle_wire)
  obtain m n where proj: "project_on sample_env first_db sample_context [genesis_id] default_projection_limits =
      Inr ([genesis_event], m)"
    "project_on sample_env first_db sample_context [first_id] default_projection_limits =
      Inr ([genesis_event, first_event], n)"
    using sample_project_genesis sample_project_first by blast
  have parts: "bundle_from_parts sample_env sample_context [first_event]
      [\<lparr>ar_namespace = LocalNamespace, ar_name = ''main'', ar_head = first_id\<rparr>] = Inr sample_bundle"
    unfolding bundle_from_parts_iff using sample_bundle_ok(1) by (simp add: sample_bundle_def)
  have lims: "bl_max_events default_bundle_limits = 1024" "bl_max_refs default_bundle_limits = 256"
    by (simp_all add: default_bundle_limits_def MAX_BUNDLE_EVENTS_def MAX_BUNDLE_REFS_def)
  show ?thesis
    using w proj parts
    by (simp add: export_bundle_def valid_bundle_limits normalize_bundle_heads_def MAX_BUNDLE_EVENTS_def
        sort_dedup_def known_closure_def advertise_ref_def authoritative_lookup [OF sample_invs(2)]
        sample_lookups lims genesis_event_def sample_lens)
qed

definition imported_db :: db where
  "imported_db = genesis_db\<lparr>
     db_events := db_events genesis_db @ [sample_row first_id [genesis_id] ''note.one''],
     db_edges := [\<lparr>edge_child = first_id, edge_ordinal = 0, edge_parent = genesis_id\<rparr>],
     db_remote := [\<lparr>rem_peer = ''peer'', rem_context = sample_context, rem_name = ''main'', rem_head = first_id\<rparr>]\<rparr>"

lemma sample_import:
  "import_bundle_tx sample_env ''peer'' sample_bundle genesis_db =
    Inr (\<lparr>import_inserted = 1, import_already_present = 0, import_remote_refs_updated = 1\<rparr>, imported_db)"
  using sample_from_wire [of "[]" "''context.genesis''"] sample_to_wire [of "[genesis_id]" "''note.one''"]
    sample_from_wire [of "[genesis_id]" "''note.one''"]
  by (simp add: import_bundle_tx_def import_event_def import_record_def import_activate_def import_ref_def
      run_defs genesis_db_def first_event_def sample_lens sample_bundle_def imported_db_def sample_row_def
      query_remote_def upsert_remote_def count_up_def checked_add_def usize_limit_def)

section \<open>A page of a synchronisation\<close>

definition page_sample :: bundle_v1 where
  "page_sample = \<lparr>bundle_context = sample_context, bundle_events = [first_event], bundle_refs = []\<rparr>"

lemma page_sample_wire:
  obtains w where "bundle_to_wire sample_env page_sample = Inr w" "length w \<le> MAX_BUNDLE_CANONICAL_BYTES"
proof -
  have val: "bundle_event_value sample_env first_event = Inr (event_json sample_env (norm_event first_event))"
    using bundle_event_value_lawful [OF sample_env_lawful, of first_event] by simp
  have len: "length (enc_json (json_norm (event_json sample_env first_event))) \<le> 2097152"
    using sample_event_rendered [of "[genesis_id]" "''note.one''"]
    by (simp add: first_event_def MAX_RAW_WIRE_BYTES_def)
  have "length (enc_json (json_norm (bundle_json sample_env sample_context
      [event_json sample_env first_event] []))) \<le> 16777216"
    using len by (simp add: bundle_json_def obj_of_def json_norm.simps BUNDLE_VERSION_def enc_nat_1 sample_text_len)
  then show thesis
    using val by (intro that)
      (simp_all add: bundle_to_wire_def page_sample_def canonicalize_sample MAX_BUNDLE_CANONICAL_BYTES_def)
qed

lemma sample_sync_page:
  "export_sync_page sample_env first_db sample_context [first_id] [genesis_id] 0 1 MAX_BUNDLE_CANONICAL_BYTES =
    Inr \<lparr>page_bundle = page_sample, page_known = [genesis_id], page_next = None\<rparr>"
  "sync_plan sample_env first_db sample_context [first_id] [genesis_id] = Inr [first_event]"
proof -
  obtain w where w: "bundle_to_wire sample_env page_sample = Inr w" "length w \<le> MAX_BUNDLE_CANONICAL_BYTES"
    by (rule page_sample_wire)
  obtain m n where proj: "project_on sample_env first_db sample_context [genesis_id] default_projection_limits =
      Inr ([genesis_event], m)"
    "project_on sample_env first_db sample_context [first_id] default_projection_limits =
      Inr ([genesis_event, first_event], n)"
    using sample_project_genesis sample_project_first by blast
  have parts: "bundle_from_parts sample_env sample_context [first_event] [] = Inr page_sample"
    unfolding bundle_from_parts_iff using sample_bundle_ok(1)
    by (simp add: sample_bundle_def page_sample_def bundle_ok_def)
  have known: "effective_known sample_env first_db sample_context [genesis_id] = Inr [genesis_id]"
    by (simp add: effective_known_lookup [OF sample_invs(2)] stored_in_iff [OF sample_invs(2)] sample_lookups
        genesis_event_def)
  have active: "active_context first_db sample_context = Inr ()"
    by (simp add: active_context_Inr context_row_of_def first_db_def genesis_db_def)
  show "sync_plan sample_env first_db sample_context [first_id] [genesis_id] = Inr [first_event]"
    using proj known
    by (simp add: sync_plan_def normalize_heads_def MAX_PROJECTION_HEADS_def sort_dedup_def known_closure_def
        genesis_event_def sample_lens)
  show "export_sync_page sample_env first_db sample_context [first_id] [genesis_id] 0 1 MAX_BUNDLE_CANONICAL_BYTES =
    Inr \<lparr>page_bundle = page_sample, page_known = [genesis_id], page_next = None\<rparr>"
    using w parts proj known active
    by (simp add: export_sync_page_def normalize_heads_def MAX_PROJECTION_HEADS_def sort_dedup_def known_closure_def
        genesis_event_def sample_lens MAX_BUNDLE_EVENTS_def MAX_BUNDLE_CANONICAL_BYTES_def MAX_BUNDLE_REFS_def
        page_search.simps page_probe_def checked_add_def usize_limit_def)
qed

lemma sample_drain:
  "drain_pages sample_env first_db sample_context [first_id] [genesis_id] 1 MAX_BUNDLE_CANONICAL_BYTES 2 0 =
    Inr (Some [first_event])"
  unfolding numeral_2_eq_2
  by (simp add: sample_sync_page(1) [unfolded One_nat_def] page_sample_def)

lemma sample_replace:
  "replace_remote_ref_snapshot sample_env ''peer'' sample_context
     [\<lparr>ar_namespace = LocalNamespace, ar_name = ''main'', ar_head = first_id\<rparr>] Committed first_db =
    (Inr 1, first_db\<lparr>db_remote :=
      [\<lparr>rem_peer = ''peer'', rem_context = sample_context, rem_name = ''main'', rem_head = first_id\<rparr>]\<rparr>)"
proof -
  have active: "active_context first_db sample_context = Inr ()"
    by (simp add: active_context_Inr context_row_of_def first_db_def genesis_db_def)
  have head: "check_head sample_env first_db sample_context
      \<lparr>ar_namespace = LocalNamespace, ar_name = ''main'', ar_head = first_id\<rparr> = Inr ()"
    by (simp add: check_head_def authoritative_lookup [OF sample_invs(2)] sample_lookups)
  have empty: "db_remote first_db = []" by (simp add: first_db_def genesis_db_def)
  have ins: "insert_remote ''peer'' sample_context ''main'' first_id (delete_remote ''peer'' sample_context first_db) =
      Inr (first_db\<lparr>db_remote :=
        [\<lparr>rem_peer = ''peer'', rem_context = sample_context, rem_name = ''main'', rem_head = first_id\<rparr>]\<rparr>)"
    by (simp add: insert_remote_def delete_remote_def has_context_def has_event_def first_db_def genesis_db_def)
  show ?thesis
    using active head ins empty
    by (simp add: replace_remote_ref_snapshot_def MAX_BUNDLE_REFS_def write_tx_def finish_transaction_def
        replace_refs_tx_def remote_namespace_def namespace_change_count_def checked_add_def usize_limit_def)
qed

end
