(* ===== verification/Json_Strict.thy ===== *)
theory Json_Strict
  imports Event_Model
begin

text \<open>
  What the strict reader of \<open>src/src/model.rs\<close> accepts: exactly the parser events without a
  duplicate member, an error or a number out of range, and on those it agrees with the plain
  reader of \<open>serde_json\<close>.
\<close>

fun tree_clean :: "json_tree \<Rightarrow> bool" where
  "tree_clean (TF64 r) \<longleftrightarrow> r \<noteq> None"
| "tree_clean (TSeq ts e) \<longleftrightarrow> e = None \<and> (\<forall>t \<in> set ts. tree_clean t)"
| "tree_clean (TMap es e) \<longleftrightarrow> e = None \<and> distinct (map fst es) \<and> (\<forall>p \<in> set es. tree_clean (snd p))"
| "tree_clean (TError m) \<longleftrightarrow> False"
| "tree_clean _ \<longleftrightarrow> True"

lemma strict_reader_aux:
  "is_ok (strict_value t) = tree_clean t \<and> (tree_clean t \<longrightarrow> plain_value t = strict_value t)"
  "is_ok (strict_seq ts) = (\<forall>t \<in> set ts. tree_clean t) \<and>
    ((\<forall>t \<in> set ts. tree_clean t) \<longrightarrow> plain_seq ts = strict_seq ts)"
  "is_ok (strict_map es keys acc) =
      (distinct (map fst es) \<and> fst ` set es \<inter> keys = {} \<and> (\<forall>p \<in> set es. tree_clean (snd p))) \<and>
    (is_ok (strict_map es keys acc) \<longrightarrow> plain_map es acc = strict_map es keys acc)"
proof (induction t and ts and es keys acc rule: strict_value_strict_seq_strict_map.induct)
  case (7 ts e)
  then show ?case by (cases "strict_seq ts") (auto split: option.splits)
next
  case (8 es e)
  then show ?case by (cases "strict_map es {} []") (auto split: option.splits)
next
  case (11 t ts)
  then show ?case by (cases "strict_value t"; cases "strict_seq ts") auto
next
  case (13 k t es keys acc)
  show ?case
  proof (cases "k \<in> keys")
    case False
    show ?thesis
    proof (cases "strict_value t")
      case (Inl e)
      then show ?thesis using False "13.IH"(1) [OF False] by auto
    next
      case (Inr v)
      then show ?thesis using False "13.IH"(1) [OF False] "13.IH"(2) [OF False Inr] by auto
    qed
  qed auto
qed (auto split: option.splits)

lemma strict_value_clean: "is_ok (strict_value t) \<longleftrightarrow> tree_clean t"
  using strict_reader_aux(1) by blast

lemma strict_value_plain: "strict_value t = Inr v \<Longrightarrow> plain_value t = Inr v"
  using strict_reader_aux(1) [of t] by (auto simp: is_ok_iff)

end
