(* ===== verification/Store_Verify.thy ===== *)
theory Store_Verify
  imports Store_Dag "HOL-Library.AList" "HOL-Library.Multiset"
begin

text \<open>
  The full-store verification of \<open>src/src/store/verify.rs\<close>: one pass over every table that
  collects bounded findings, a cycle check over the parsed events and a projection from every
  ref. Hash maps are association lists without duplicate keys; the order in which the program
  iterates over one is unspecified, so it is an argument, a permutation. A row always decodes
  here, so the findings for undecodable cells do not arise, and whether the schema objects are
  the expected ones is an argument.
\<close>

section \<open>Findings\<close>

definition MAX_VERIFICATION_FINDINGS :: nat where "MAX_VERIFICATION_FINDINGS = 256"
definition MAX_VERIFICATION_FINDINGS_HARD :: nat where "MAX_VERIFICATION_FINDINGS_HARD = 1024"

datatype verification_category =
    SchemaFinding | ContextFinding | AuthorizationFinding | EventWireFinding
  | EventIdentityFinding | EventColumnsFinding | EdgeSetFinding | ParentMissingFinding
  | ParentContextFinding | GenesisFinding | CycleFinding | LocalRefFinding | RemoteRefFinding
  | RefNameFinding | ProjectionLimitFinding

record verification_finding =
  vf_category :: verification_category
  vf_context :: "context_id option"
  vf_event :: "event_id option"
  vf_related :: "event_id option"

record verification_report =
  vr_valid :: bool
  vr_contexts :: nat
  vr_events :: nat
  vr_refs :: nat
  vr_findings :: "verification_finding list"
  vr_truncated :: bool

record verification_limits =
  vl_max_findings :: nat
  vl_projection :: projection_limits

definition verification_limits_new ::
  "nat \<Rightarrow> projection_limits \<Rightarrow> store_error + verification_limits" where
  "verification_limits_new max_findings limits =
     (if max_findings = 0 \<or> max_findings > MAX_VERIFICATION_FINDINGS_HARD
      then Inl VerificationLimitInvalid
      else bindR (validate_projection_limits limits) (\<lambda>_.
        Inr \<lparr>vl_max_findings = max_findings, vl_projection = limits\<rparr>))"

definition default_verification_limits :: verification_limits where
  "default_verification_limits =
     \<lparr>vl_max_findings = MAX_VERIFICATION_FINDINGS, vl_projection = default_projection_limits\<rparr>"

record findings =
  fi_max :: nat
  fi_values :: "verification_finding list"
  fi_truncated :: bool

definition push_finding ::
  "verification_category \<Rightarrow> context_id option \<Rightarrow> event_id option \<Rightarrow> event_id option \<Rightarrow>
    findings \<Rightarrow> findings" where
  "push_finding category c i related f =
     (if length (fi_values f) < fi_max f
      then f\<lparr>fi_values := fi_values f @ [\<lparr>vf_category = category, vf_context = c, vf_event = i,
             vf_related = related\<rparr>]\<rparr>
      else f\<lparr>fi_truncated := True\<rparr>)"

definition push_if ::
  "bool \<Rightarrow> verification_category \<Rightarrow> context_id option \<Rightarrow> event_id option \<Rightarrow> event_id option \<Rightarrow>
    findings \<Rightarrow> findings" where
  "push_if bad category c i related f = (if bad then push_finding category c i related f else f)"

text \<open>The iteration orders of the hash maps.\<close>

record hash_orders =
  order_contexts :: "context_id list \<Rightarrow> context_id list"
  order_events :: "event_id list \<Rightarrow> event_id list"

definition orders_lawful :: "hash_orders \<Rightarrow> bool" where
  "orders_lawful h \<longleftrightarrow> (\<forall>xs. mset (order_contexts h xs) = mset xs) \<and>
     (\<forall>xs. mset (order_events h xs) = mset xs)"

section \<open>Contexts and authors\<close>

record context_check =
  chk_expected :: event_id
  chk_genesis :: "event_id option"
  chk_state :: int

type_synonym context_map = "(context_id \<times> context_check) list"
type_synonym event_map = "(event_id \<times> signed_event) list"

definition verify_context_row ::
  "context_row \<Rightarrow> context_map \<times> findings \<Rightarrow> context_map \<times> findings" where
  "verify_context_row r = (\<lambda>(contexts, f).
     (AList.update (ctx_id r)
        \<lparr>chk_expected = ctx_expected r, chk_genesis = ctx_genesis r, chk_state = ctx_state r\<rparr> contexts,
      push_if (ctx_state r \<notin> {0, 1} \<or> (ctx_state r = 0 \<and> ctx_genesis r \<noteq> None) \<or>
               (ctx_state r = 1 \<and> ctx_genesis r \<noteq> Some (ctx_expected r)))
        ContextFinding (Some (ctx_id r)) None (ctx_genesis r) f))"

definition verify_context_authors ::
  "hash_orders \<Rightarrow> context_map \<Rightarrow> (context_id \<times> author_id) list \<Rightarrow> findings \<Rightarrow> findings" where
  "verify_context_authors h contexts authors f =
     fold (\<lambda>c. push_if (c \<notin> fst ` set authors) AuthorizationFinding (Some c) None None)
       (order_contexts h (map fst contexts)) f"

section \<open>Events\<close>

definition verify_event_row ::
  "env \<Rightarrow> (context_id \<times> author_id) list \<Rightarrow> event_row \<Rightarrow> event_map \<times> findings \<Rightarrow>
    store_error + (event_map \<times> findings)" where
  "verify_event_row E authors r = (\<lambda>(events, f).
     (let i = er_id r; c = er_context r in
      case from_wire E (er_wire r) of
        Inl _ \<Rightarrow> Inr (events, push_finding EventWireFinding (Some c) (Some i) None f)
      | Inr event \<Rightarrow>
          (let body = ev_body event in
           bindR (map_err Contract (to_wire E event)) (\<lambda>wire.
           let f1 = push_if (wire \<noteq> er_wire r) EventWireFinding (Some c) (Some i) None f;
               f2 = push_if (ev_id event \<noteq> i) EventIdentityFinding (Some c) (Some i) (Some (ev_id event)) f1;
               f3 = push_if (body_context body \<noteq> c \<or> body_author body \<noteq> er_author r \<or> body_kind body \<noteq> er_kind r)
                      EventColumnsFinding (Some c) (Some i) None f2;
               f4 = push_if ((body_context body, body_author body) \<notin> set authors)
                      AuthorizationFinding (Some (body_context body)) (Some i) None f3
           in Inr (AList.update i event events, f4)))))"

section \<open>Edges and parents\<close>

type_synonym edge_map = "(event_id \<times> (int \<times> event_id) list) list"

definition edge_entry :: "edge_row \<Rightarrow> edge_map \<Rightarrow> edge_map" where
  "edge_entry e edges = AList.update (edge_child e)
     ((case map_of edges (edge_child e) of None \<Rightarrow> [] | Some stored \<Rightarrow> stored) @
      [(edge_ordinal e, edge_parent e)]) edges"

definition stored_edges :: "edge_map \<Rightarrow> event_id \<Rightarrow> (int \<times> event_id) list" where
  "stored_edges edges i = (case map_of edges i of None \<Rightarrow> [] | Some stored \<Rightarrow> stored)"

definition exact_edges :: "(int \<times> event_id) list \<Rightarrow> event_id list \<Rightarrow> bool" where
  "exact_edges stored parents \<longleftrightarrow> length stored = length parents \<and>
     list_all (\<lambda>(index, ordinal, parent). ordinal = int index \<and> index < length parents \<and> parents ! index = parent)
       (List.enumerate 0 stored)"

definition verify_parent ::
  "event_map \<Rightarrow> event_id \<Rightarrow> signed_event \<Rightarrow> event_id \<Rightarrow> findings \<Rightarrow> findings" where
  "verify_parent events i event parent f =
     (let c = body_context (ev_body event) in
      case map_of events parent of
        None \<Rightarrow> push_finding ParentMissingFinding (Some c) (Some i) (Some parent) f
      | Some parent_event \<Rightarrow>
          push_if (body_context (ev_body parent_event) \<noteq> c) ParentContextFinding (Some c) (Some i) (Some parent) f)"

definition verify_event_edges ::
  "event_map \<Rightarrow> edge_map \<Rightarrow> event_id \<Rightarrow> findings \<Rightarrow> findings" where
  "verify_event_edges events edges i f =
     (case map_of events i of
        None \<Rightarrow> f
      | Some event \<Rightarrow>
          fold (verify_parent events i event) (body_parents (ev_body event))
            (push_if (\<not> exact_edges (stored_edges edges i) (body_parents (ev_body event)))
               EdgeSetFinding (Some (body_context (ev_body event))) (Some i) None f))"

section \<open>Genesis\<close>

definition is_context_genesis :: "context_id \<Rightarrow> context_check \<Rightarrow> signed_event option \<Rightarrow> bool" where
  "is_context_genesis c check found \<longleftrightarrow>
     (case found of
        None \<Rightarrow> False
      | Some event \<Rightarrow> chk_genesis check = Some (chk_expected check) \<and> body_context (ev_body event) = c \<and>
          body_kind (ev_body event) = ''context.genesis'' \<and> body_parents (ev_body event) = [])"

definition verify_context_genesis ::
  "context_map \<Rightarrow> event_map \<Rightarrow> context_id \<Rightarrow> findings \<Rightarrow> findings" where
  "verify_context_genesis contexts events c f =
     (case map_of contexts c of
        None \<Rightarrow> f
      | Some check \<Rightarrow>
          push_if (chk_state check = 1 \<and> \<not> is_context_genesis c check (map_of events (chk_expected check)))
            GenesisFinding (Some c) (Some (chk_expected check)) None f)"

definition verify_event_genesis ::
  "context_map \<Rightarrow> event_map \<Rightarrow> event_id \<Rightarrow> findings \<Rightarrow> findings" where
  "verify_event_genesis contexts events i f =
     (case map_of events i of
        None \<Rightarrow> f
      | Some event \<Rightarrow>
          (let body = ev_body event; check = map_of contexts (body_context body);
               expected = map_option chk_expected check;
               context_pending = (case check of None \<Rightarrow> False | Some ch \<Rightarrow> chk_state ch = 0)
           in push_if (context_pending \<or> (body_parents body = [] \<and> expected \<noteq> Some i) \<or>
                (body_kind body = ''context.genesis'' \<and> expected \<noteq> Some i))
                GenesisFinding (Some (body_context body)) (Some i) None f))"

section \<open>Cycles\<close>

definition known_parents :: "event_map \<Rightarrow> event_id \<Rightarrow> event_id list" where
  "known_parents events i =
     (case map_of events i of
        None \<Rightarrow> []
      | Some event \<Rightarrow> filter (\<lambda>p. p \<in> fst ` set events) (body_parents (ev_body event)))"

fun frame_weight :: "'a frame \<Rightarrow> nat" where
  "frame_weight (Enter i) = 2"
| "frame_weight (Exit i) = 1"

function cycle_loop ::
  "event_map \<Rightarrow> (event_id \<rightharpoonup> nat) \<Rightarrow> event_id frame list \<Rightarrow> bool \<times> (event_id \<rightharpoonup> nat)" where
  "cycle_loop events marks [] = (False, marks)"
| "cycle_loop events marks (Enter i # stack) =
     (if marks i = Some 2 then cycle_loop events marks stack
      else if marks i = Some 1 then (True, marks)
      else cycle_loop events (marks(i \<mapsto> 1)) (map Enter (known_parents events i) @ Exit i # stack))"
| "cycle_loop events marks (Exit i # stack) = cycle_loop events (marks(i \<mapsto> 2)) stack"
  by pat_completeness auto

definition unmarked :: "event_map \<Rightarrow> (event_id \<rightharpoonup> nat) \<Rightarrow> event_id list" where
  "unmarked events marks = filter (\<lambda>k. marks k \<notin> {Some 1, Some 2}) (map fst events)"

lemma unmarked_le: "v \<in> {1, 2} \<Longrightarrow> length (unmarked events (marks(i \<mapsto> v))) \<le> length (unmarked events marks)"
  unfolding unmarked_def by (induction events) auto

lemma unmarked_less:
  assumes "marks i \<notin> {Some 1, Some 2}" "i \<in> fst ` set events"
  shows "length (unmarked events (marks(i \<mapsto> 1))) < length (unmarked events marks)"
  using assms(2)
proof (induction events)
  case (Cons e events)
  have "length (unmarked events (marks(i \<mapsto> 1))) \<le> length (unmarked events marks)" by (rule unmarked_le) simp
  with Cons assms(1) show ?case by (cases "fst e = i") (auto simp: unmarked_def)
qed simp

termination cycle_loop
proof (relation "measures [\<lambda>(events, marks, stack). length (unmarked events marks),
    \<lambda>(events, marks, stack). sum_list (map frame_weight stack)]", goal_cases)
  case (3 events marks i stack)
  show ?case
  proof (cases "i \<in> fst ` set events")
    case True
    then show ?thesis using unmarked_less [of marks i events] 3 by auto
  next
    case False
    then have "known_parents events i = []" by (auto simp: known_parents_def map_of_eq_None_iff [symmetric])
    then show ?thesis using unmarked_le [of 1 events marks i] by (auto simp: le_less)
  qed
next
  case (4 events marks i stack)
  then show ?case using unmarked_le [of 2 events marks i] by (auto simp: le_less)
qed auto

declare cycle_loop.simps [simp del]

fun cycle_roots :: "event_map \<Rightarrow> event_id list \<Rightarrow> (event_id \<rightharpoonup> nat) \<Rightarrow> bool" where
  "cycle_roots events [] marks = False"
| "cycle_roots events (i # ids) marks =
     (if marks i = Some 2 then cycle_roots events ids marks
      else case cycle_loop events marks [Enter i] of
          (True, _) \<Rightarrow> True
        | (False, marks') \<Rightarrow> cycle_roots events ids marks')"

definition graph_has_cycle :: "env \<Rightarrow> event_map \<Rightarrow> bool" where
  "graph_has_cycle E events =
     cycle_roots events (sort_key (event_id_text E) (map fst events)) Map.empty"

section \<open>Refs\<close>

definition verify_local_ref ::
  "event_map \<Rightarrow> ref_row \<Rightarrow> (context_id \<times> event_id) list \<times> findings \<Rightarrow>
    (context_id \<times> event_id) list \<times> findings" where
  "verify_local_ref events r = (\<lambda>(heads, f).
     (let c = ref_context r; head = ref_head r;
          f1 = push_if (\<not> is_ok (name_from_str (ref_name r))) RefNameFinding (Some c) None (Some head) f in
      if map_option (\<lambda>event. body_context (ev_body event)) (map_of events head) \<noteq> Some c
      then (heads, push_finding LocalRefFinding (Some c) None (Some head) f1)
      else (heads @ [(c, head)], f1)))"

definition verify_remote_ref ::
  "event_map \<Rightarrow> remote_row \<Rightarrow> (context_id \<times> event_id) list \<times> findings \<Rightarrow>
    (context_id \<times> event_id) list \<times> findings" where
  "verify_remote_ref events r = (\<lambda>(heads, f).
     (let c = rem_context r; head = rem_head r;
          f1 = push_if (\<not> is_ok (name_from_str (rem_peer r)) \<or> \<not> is_ok (name_from_str (rem_name r)))
                 RefNameFinding (Some c) None (Some head) f in
      if map_option (\<lambda>event. body_context (ev_body event)) (map_of events head) \<noteq> Some c
      then (heads, push_finding RemoteRefFinding (Some c) None (Some head) f1)
      else (heads @ [(c, head)], f1)))"

definition verify_ref_head ::
  "env \<Rightarrow> db \<Rightarrow> projection_limits \<Rightarrow> context_id \<times> event_id \<Rightarrow> findings \<Rightarrow> findings" where
  "verify_ref_head E d limits = (\<lambda>(c, head) f.
     (case project_on E d c [head] limits of
        Inr _ \<Rightarrow> f
      | Inl error \<Rightarrow>
          (let category = (case error of
               ProjectionLimitExceeded \<Rightarrow> ProjectionLimitFinding
             | ProjectionCycle \<Rightarrow> CycleFinding
             | _ \<Rightarrow> EventWireFinding)
           in push_finding category (Some c) (Some head) None f)))"

section \<open>The scan\<close>

text \<open>The \<open>ORDER BY\<close> clauses; identifiers are compared as bytes.\<close>

definition ordered_contexts :: "db \<Rightarrow> context_row list" where
  "ordered_contexts d = sort_key (\<lambda>r. context_id_bytes (ctx_id r)) (db_contexts d)"

definition ordered_events :: "db \<Rightarrow> event_row list" where
  "ordered_events d = sort_key (\<lambda>r. event_id_bytes (er_id r)) (db_events d)"

definition ordered_edges :: "db \<Rightarrow> edge_row list" where
  "ordered_edges d = sort_key (\<lambda>e. event_id_bytes (edge_child e)) (sort_key edge_ordinal (db_edges d))"

definition ordered_local :: "db \<Rightarrow> ref_row list" where
  "ordered_local d = sort_key (\<lambda>r. context_id_bytes (ref_context r)) (sort_key ref_name (db_local d))"

definition ordered_remote :: "db \<Rightarrow> remote_row list" where
  "ordered_remote d = sort_key rem_peer
     (sort_key (\<lambda>r. context_id_bytes (rem_context r)) (sort_key rem_name (db_remote d)))"

definition verify_graph ::
  "env \<Rightarrow> hash_orders \<Rightarrow> context_map \<Rightarrow> event_map \<Rightarrow> edge_map \<Rightarrow> findings \<Rightarrow> findings" where
  "verify_graph E h contexts events edges f =
     (let f1 = fold (verify_event_edges events edges) (order_events h (map fst events)) f;
          f2 = fold (\<lambda>child. push_if (child \<notin> fst ` set events) EdgeSetFinding None (Some child) None)
                 (order_events h (map fst edges)) f1;
          f3 = fold (verify_context_genesis contexts events) (order_contexts h (map fst contexts)) f2;
          f4 = fold (verify_event_genesis contexts events) (order_events h (map fst events)) f3
      in push_if (graph_has_cycle E events) CycleFinding None None None f4)"

definition verify_on ::
  "env \<Rightarrow> hash_orders \<Rightarrow> bool \<Rightarrow> db \<Rightarrow> verification_limits \<Rightarrow> store_error + verification_report" where
  "verify_on E h schema_ok d limits =
     (let f0 = push_if (\<not> schema_ok) SchemaFinding None None None
            \<lparr>fi_max = vl_max_findings limits, fi_values = [], fi_truncated = False\<rparr>;
          (contexts, f1) = fold verify_context_row (ordered_contexts d) ([], f0);
          f2 = verify_context_authors h contexts (db_authors d) f1
      in bindR (foldR (verify_event_row E (db_authors d)) (ordered_events d) ([], f2)) (\<lambda>(events, f3).
        let edges = fold edge_entry (ordered_edges d) [];
            f4 = verify_graph E h contexts events edges f3;
            (heads1, f5) = fold (verify_local_ref events) (ordered_local d) ([], f4);
            (heads2, f6) = fold (verify_remote_ref events) (ordered_remote d) (heads1, f5);
            f7 = fold (verify_ref_head E d (vl_projection limits)) heads2 f6
        in Inr \<lparr>vr_valid = (fi_values f7 = [] \<and> \<not> fi_truncated f7), vr_contexts = length contexts,
                vr_events = length (db_events d), vr_refs = length (db_local d) + length (db_remote d),
                vr_findings = fi_values f7, vr_truncated = fi_truncated f7\<rparr>))"

definition verify_full ::
  "env \<Rightarrow> hash_orders \<Rightarrow> bool \<Rightarrow> db \<Rightarrow> verification_limits \<Rightarrow> store_error + verification_report" where
  "verify_full E h schema_ok d limits =
     bindR (verification_limits_new (vl_max_findings limits) (vl_projection limits)) (\<lambda>_.
       verify_on E h schema_ok d limits)"

end
