(* ===== verification/Verify_Facts.thy ===== *)
theory Verify_Facts
  imports Store_Verify
begin

text \<open>
  What \<open>src/src/store/verify.rs\<close> finds: the cycle check finds a cycle exactly when there is one,
  and a report is valid exactly when every table satisfies the audit, an order-free reading of
  the store's integrity, and every ref projects. A valid store is a permutation of the rows of
  one that satisfies the invariant of \<open>Store_Invariant\<close>.
\<close>

section \<open>The cycle check\<close>

abbreviation cycle_inv ::
  "event_map \<Rightarrow> event_id set \<Rightarrow> (event_id \<rightharpoonup> nat) \<Rightarrow> event_id frame list \<Rightarrow> bool" where
  "cycle_inv events \<equiv> walk_state (known_parents events)"

lemma cycle_loop_spec:
  assumes "cycle_inv events H marks st"
  shows "case cycle_loop events marks st of
      (True, _) \<Rightarrow> cyclic (known_parents events)
    | (False, marks') \<Rightarrow> cycle_inv events H marks' []"
  using assms
proof (induction events marks st rule: cycle_loop.induct)
  case (2 events marks i st)
  show ?case
  proof (cases "marks i = Some 2")
    case True
    with "2.IH"(1) walk_state_skip [OF "2.prems" True] show ?thesis by (simp add: cycle_loop.simps)
  next
    case False
    with "2.IH"(2) walk_state_closes [OF "2.prems"] walk_state_enter [OF "2.prems" False] show ?thesis
      by (cases "marks i = Some 1") (simp_all add: cycle_loop.simps del: fun_upd_apply)
  qed
qed (auto simp: cycle_loop.simps dest: walk_state_exit)

lemma cycle_roots_spec:
  assumes "cycle_inv events H marks []"
  shows "if cycle_roots events ids marks then cyclic (known_parents events)
    else \<exists>order. walk_inv (known_parents events) (H \<union> set ids) [] order"
  using assms
proof (induction ids arbitrary: H marks)
  case Nil
  then show ?case by (auto simp: walk_state_def)
next
  case (Cons i ids)
  note roots = walk_state_root [OF Cons.prems, of i]
  have H: "H \<union> set (i # ids) = insert i H \<union> set ids" by auto
  note [simp del] = Un_insert_left Un_insert_right
  show ?case
  proof (cases "marks i = Some 2")
    case True
    with Cons.IH [OF roots(1) [OF True]] show ?thesis unfolding H by simp
  next
    case False
    obtain b marks' where loop: "cycle_loop events marks [Enter i] = (b, marks')" by fastforce
    with cycle_loop_spec [OF roots(2)] False Cons.IH [of "insert i H" marks'] show ?thesis
      unfolding H by (cases b) simp_all
  qed
qed

lemma graph_walk:
  "if graph_has_cycle E events then cyclic (known_parents events)
   else \<exists>order. walk_inv (known_parents events) (fst ` set events) [] order"
proof -
  have "cycle_inv events {} Map.empty []"
    by (auto simp: walk_state_def visit_marks_def fun_eq_iff walk_inv_def intro!: exI [of _ "[]"])
  from cycle_roots_spec [OF this, of "sort_key (event_id_text E) (map fst events)"] show ?thesis
    by (simp add: graph_has_cycle_def split: if_splits)
qed

lemma graph_has_cycle_iff_cyclic: "graph_has_cycle E events \<longleftrightarrow> cyclic (known_parents events)"
proof
  show "graph_has_cycle E events \<Longrightarrow> cyclic (known_parents events)"
    using graph_walk [of E events] by simp
  show "graph_has_cycle E events" if cyc: "cyclic (known_parents events)"
  proof (rule ccontr)
    assume "\<not> graph_has_cycle E events"
    then obtain order where order: "walk_inv (known_parents events) (fst ` set events) [] order"
      using graph_walk [of E events] by auto
    obtain i where i: "(i, i) \<in> (parent_rel (known_parents events))\<^sup>+"
      using cyc by (auto simp: cyclic_def)
    then have "known_parents events i \<noteq> []"
      by (cases rule: converse_tranclE) (auto simp: parent_rel_def)
    then have "i \<in> fst ` set events"
      by (auto simp: known_parents_def split: option.splits dest!: map_of_SomeD) force
    then have "i \<in> ancestors (known_parents events) (fst ` set events)" by (rule ancestors.head)
    from walk_acyclic [OF order this] i show False by simp
  qed
qed

section \<open>Clean passes\<close>

definition clean :: "findings \<Rightarrow> bool" where
  "clean f \<longleftrightarrow> fi_values f = [] \<and> \<not> fi_truncated f"

lemma clean_push [simp]:
  "\<not> clean (push_finding category c i related f)"
  "clean (push_if bad category c i related f) \<longleftrightarrow> clean f \<and> \<not> bad"
  by (auto simp: clean_def push_finding_def push_if_def)

lemma clean_fold:
  assumes "\<And>x f. clean (step x f) \<longleftrightarrow> clean f \<and> good x"
  shows "clean (fold step xs f) \<longleftrightarrow> clean f \<and> (\<forall>x \<in> set xs. good x)"
  by (induction xs arbitrary: f) (auto simp: assms)

lemma clean_fold_start:
  assumes "\<And>x f. clean (step x f) \<Longrightarrow> clean f"
  shows "clean (fold step xs f) \<Longrightarrow> clean f"
proof (induction xs arbitrary: f)
  case (Cons x xs)
  from Cons.IH [of "step x f"] Cons.prems have "clean (step x f)" by simp
  then show ?case by (rule assms)
qed simp

lemma clean_fold_push_if:
  "clean (fold (\<lambda>x. push_if (bad x) (category x) (c x) (i x) (related x)) xs f) \<longleftrightarrow>
    clean f \<and> (\<forall>x \<in> set xs. \<not> bad x)"
  by (rule clean_fold) simp

lemma update_fresh: "k \<notin> fst ` set m \<Longrightarrow> AList.update k v m = m @ [(k, v)]"
  by (induction m) auto

lemma map_of_rows:
  "distinct (map key rows) \<Longrightarrow>
    map_of (map (\<lambda>r. (key r, val r)) rows) k = Some v \<longleftrightarrow> (\<exists>r \<in> set rows. key r = k \<and> val r = v)"
  by (subst map_of_eq_Some_iff) (auto simp: comp_def)

lemma set_orders:
  "orders_lawful h \<Longrightarrow> set (order_contexts h cs) = set cs"
  "orders_lawful h \<Longrightarrow> set (order_events h es) = set es"
  by (metis orders_lawful_def set_mset_mset)+

lemma ordered_rows [simp]:
  "set (ordered_contexts d) = set (db_contexts d)" "set (ordered_events d) = set (db_events d)"
  "set (ordered_edges d) = set (db_edges d)" "set (ordered_local d) = set (db_local d)"
  "set (ordered_remote d) = set (db_remote d)"
  by (simp_all add: ordered_contexts_def ordered_events_def ordered_edges_def ordered_local_def
      ordered_remote_def)

lemma distinct_sorted_rows:
  "distinct (map key rows) \<Longrightarrow> distinct (map key (sort_key g rows))"
  by (metis distinct_map inj_on_cong mset_sort mset_eq_imp_distinct_iff set_sort)

section \<open>Contexts and authors\<close>

definition context_entry :: "context_row \<Rightarrow> context_id \<times> context_check" where
  "context_entry r = (ctx_id r,
     \<lparr>chk_expected = ctx_expected r, chk_genesis = ctx_genesis r, chk_state = ctx_state r\<rparr>)"

definition context_state_ok :: "context_row \<Rightarrow> bool" where
  "context_state_ok r \<longleftrightarrow> (ctx_state r = 0 \<and> ctx_genesis r = None) \<or>
     (ctx_state r = 1 \<and> ctx_genesis r = Some (ctx_expected r))"

lemma scan_contexts:
  assumes "distinct (map ctx_id rows)" "fst ` set m \<inter> ctx_id ` set rows = {}"
  shows "\<exists>f'. fold verify_context_row rows (m, f) = (m @ map context_entry rows, f') \<and>
    (clean f' \<longleftrightarrow> clean f \<and> (\<forall>r \<in> set rows. context_state_ok r))"
  using assms
proof (induction rows arbitrary: m f)
  case (Cons r rows)
  have "verify_context_row r (m, f) = (m @ [context_entry r],
      push_if (\<not> context_state_ok r) ContextFinding (Some (ctx_id r)) None (ctx_genesis r) f)"
    using Cons.prems
    by (auto simp: verify_context_row_def update_fresh context_entry_def context_state_ok_def push_if_def)
  moreover have "fst ` set (m @ [context_entry r]) \<inter> ctx_id ` set rows = {}"
    using Cons.prems by (auto simp: context_entry_def)
  moreover have "distinct (map ctx_id rows)" using Cons.prems by simp
  ultimately show ?case
    using Cons.IH [of "m @ [context_entry r]" "push_if (\<not> context_state_ok r) ContextFinding (Some (ctx_id r)) None (ctx_genesis r) f"]
    by auto
qed simp

lemma context_entries_lookup:
  "distinct (map ctx_id rows) \<Longrightarrow> map_of (map context_entry rows) c = Some check \<longleftrightarrow>
    (\<exists>r \<in> set rows. context_entry r = (c, check))"
  unfolding context_entry_def by (subst map_of_rows) auto

section \<open>Event rows\<close>

definition row_audit :: "env \<Rightarrow> (context_id \<times> author_id) list \<Rightarrow> event_row \<Rightarrow> bool" where
  "row_audit E authors r \<longleftrightarrow> event_row_ok E r \<and> (er_context r, er_author r) \<in> set authors"

definition row_entry :: "env \<Rightarrow> event_row \<Rightarrow> event_map" where
  "row_entry E r = (case from_wire E (er_wire r) of Inl _ \<Rightarrow> [] | Inr ev \<Rightarrow> [(er_id r, ev)])"

lemma scan_event:
  assumes "verify_event_row E authors r (m, f) = Inr (m', f')" "er_id r \<notin> fst ` set m"
  shows "m' = m @ row_entry E r \<and> (clean f' \<longleftrightarrow> clean f \<and> row_audit E authors r)"
proof (cases "from_wire E (er_wire r)")
  case (Inl e)
  with assms show ?thesis
    by (auto simp: verify_event_row_def row_entry_def row_audit_def event_row_ok_def)
next
  case (Inr ev)
  with assms show ?thesis
    by (auto simp: verify_event_row_def row_entry_def row_audit_def event_row_ok_def update_fresh
        bindR_Inr_iff Let_def)
qed

lemma disjoint_step: "B \<subseteq> {x} \<Longrightarrow> x \<notin> C \<Longrightarrow> A \<inter> C = {} \<Longrightarrow> (A \<union> B) \<inter> C = {}"
  by auto

lemma scan_events:
  assumes "foldR (verify_event_row E authors) rows (m, f) = Inr (m', f')"
    and "distinct (map er_id rows)" "fst ` set m \<inter> er_id ` set rows = {}"
  shows "m' = m @ concat (map (row_entry E) rows) \<and>
    (clean f' \<longleftrightarrow> clean f \<and> (\<forall>r \<in> set rows. row_audit E authors r))"
  using assms
proof (induction rows arbitrary: m f)
  case (Cons r rows)
  from Cons.prems(1) obtain m1 f1 where
    step: "verify_event_row E authors r (m, f) = Inr (m1, f1)"
    and rest: "foldR (verify_event_row E authors) rows (m1, f1) = Inr (m', f')"
    by (auto simp: bindR_Inr_iff)
  have r: "m1 = m @ row_entry E r \<and> (clean f1 \<longleftrightarrow> clean f \<and> row_audit E authors r)"
    using scan_event [OF step] Cons.prems(3) by auto
  have "fst ` set (row_entry E r) \<subseteq> {er_id r}" by (auto simp: row_entry_def split: sum.splits)
  moreover have "fst ` set m1 = fst ` set m \<union> fst ` set (row_entry E r)" using r by auto
  moreover have "er_id r \<notin> er_id ` set rows" using Cons.prems(2) by simp
  ultimately have "fst ` set m1 \<inter> er_id ` set rows = {}"
    using disjoint_step [of "fst ` set (row_entry E r)" "er_id r" "er_id ` set rows" "fst ` set m"]
      Cons.prems(3) by simp
  with Cons.IH [OF rest] Cons.prems(2) r show ?case by auto
qed auto

section \<open>Edges\<close>

lemma stored_edges_entry:
  "stored_edges (edge_entry e edges) i =
    stored_edges edges i @ (if edge_child e = i then [(edge_ordinal e, edge_parent e)] else [])"
  by (simp add: stored_edges_def edge_entry_def update_conv' split: option.splits)

lemma scan_edges:
  "stored_edges (fold edge_entry es edges) i = stored_edges edges i @
    map (\<lambda>e. (edge_ordinal e, edge_parent e)) (filter (\<lambda>e. edge_child e = i) es)"
  by (induction es arbitrary: edges) (simp_all add: stored_edges_entry)

lemma scan_edges_keys: "fst ` set (fold edge_entry es edges) = fst ` set edges \<union> edge_child ` set es"
  by (induction es arbitrary: edges) (auto simp: edge_entry_def dom_update)

definition edges_audit :: "db \<Rightarrow> event_id \<Rightarrow> event_id list \<Rightarrow> bool" where
  "edges_audit d i parents \<longleftrightarrow> sort_key edge_ordinal (edges_of d i) = mk_edges i parents"

lemma ordered_edges_child: "filter (\<lambda>e. edge_child e = i) (ordered_edges d) = sort_key edge_ordinal (edges_of d i)"
proof -
  have "map (\<lambda>e. event_id_bytes (edge_child e)) (sort_key edge_ordinal (edges_of d i)) =
      replicate (length (edges_of d i)) (event_id_bytes i)"
    by (rule replicate_eqI) (auto simp: edges_of_def)
  then have "sort_key (\<lambda>e. event_id_bytes (edge_child e)) (sort_key edge_ordinal (edges_of d i)) =
      sort_key edge_ordinal (edges_of d i)"
    by (intro sort_key_id_if_sorted) simp
  then show ?thesis by (simp add: ordered_edges_def filter_sort edges_of_def)
qed

lemma edge_row_eq:
  fixes e :: edge_row
  shows "e = \<lparr>edge_child = c, edge_ordinal = n, edge_parent = p\<rparr> \<longleftrightarrow>
    edge_child e = c \<and> edge_ordinal e = n \<and> edge_parent e = p"
  by (cases e) simp

lemma exact_edges_iff:
  assumes "\<forall>e \<in> set es. edge_child e = i"
  shows "exact_edges (map (\<lambda>e. (edge_ordinal e, edge_parent e)) es) ps \<longleftrightarrow> es = mk_edges i ps"
proof -
  have len: "length (mk_edges i ps) = length ps" by (simp add: mk_edges_def)
  have same: "es ! n = mk_edges i ps ! n \<longleftrightarrow> edge_ordinal (es ! n) = int n \<and> ps ! n = edge_parent (es ! n)"
    if "n < length ps" "n < length es" for n
  proof -
    have "edge_child (es ! n) = i" using assms that by simp
    moreover have "mk_edges i ps ! n = \<lparr>edge_child = i, edge_ordinal = int n, edge_parent = ps ! n\<rparr>"
      using that by (simp add: mk_edges_def nth_enumerate_eq)
    ultimately show ?thesis by (auto simp: edge_row_eq)
  qed
  have "exact_edges (map (\<lambda>e. (edge_ordinal e, edge_parent e)) es) ps \<longleftrightarrow> length es = length ps \<and>
      (\<forall>n < length es. edge_ordinal (es ! n) = int n \<and> ps ! n = edge_parent (es ! n))"
    by (auto simp: exact_edges_def list_all_length nth_enumerate_eq)
  also have "\<dots> \<longleftrightarrow> length es = length ps \<and> (\<forall>n < length es. es ! n = mk_edges i ps ! n)"
    using same by metis
  also have "\<dots> \<longleftrightarrow> es = mk_edges i ps" by (simp only: list_eq_iff_nth_eq len)
  finally show ?thesis .
qed

lemma exact_edges_audit:
  assumes "\<And>i. stored_edges edges i = map (\<lambda>e. (edge_ordinal e, edge_parent e)) (sort_key edge_ordinal (edges_of d i))"
  shows "exact_edges (stored_edges edges i) ps \<longleftrightarrow> edges_audit d i ps"
  unfolding assms edges_audit_def by (rule exact_edges_iff) (simp add: edges_of_def)

section \<open>The audit\<close>

text \<open>What an event must satisfy beyond its own row.\<close>

definition event_audit :: "env \<Rightarrow> db \<Rightarrow> event_id \<Rightarrow> signed_event \<Rightarrow> bool" where
  "event_audit E d i ev \<longleftrightarrow> edges_audit d i (event_parents ev) \<and>
     (\<forall>p \<in> set (event_parents ev). map_option event_context (lookup_event E d p) = Some (event_context ev)) \<and>
     (\<forall>c \<in> set (db_contexts d). ctx_id c = event_context ev \<longrightarrow> ctx_state c \<noteq> 0) \<and>
     (event_parents ev = [] \<or> body_kind (ev_body ev) = ''context.genesis'' \<longrightarrow>
       (\<exists>c \<in> set (db_contexts d). ctx_id c = event_context ev \<and> ctx_expected c = i))"

definition context_audit :: "env \<Rightarrow> db \<Rightarrow> context_row \<Rightarrow> bool" where
  "context_audit E d c \<longleftrightarrow> context_state_ok c \<and> (\<exists>a. (ctx_id c, a) \<in> set (db_authors d)) \<and>
     (ctx_state c = 1 \<longrightarrow> (\<exists>ev. lookup_event E d (ctx_expected c) = Some ev \<and> event_context ev = ctx_id c \<and>
       body_kind (ev_body ev) = ''context.genesis'' \<and> event_parents ev = []))"

definition head_audit :: "env \<Rightarrow> db \<Rightarrow> context_id \<Rightarrow> event_id \<Rightarrow> bool" where
  "head_audit E d c i \<longleftrightarrow> map_option event_context (lookup_event E d i) = Some c"

definition refs_audit :: "env \<Rightarrow> db \<Rightarrow> bool" where
  "refs_audit E d \<longleftrightarrow>
     (\<forall>r \<in> set (db_local d). ref_name_wf (ref_name r) \<and> head_audit E d (ref_context r) (ref_head r)) \<and>
     (\<forall>r \<in> set (db_remote d). ref_name_wf (rem_peer r) \<and> ref_name_wf (rem_name r) \<and>
       head_audit E d (rem_context r) (rem_head r))"

definition db_audit :: "env \<Rightarrow> db \<Rightarrow> bool" where
  "db_audit E d \<longleftrightarrow> (\<forall>c \<in> set (db_contexts d). context_audit E d c) \<and>
     (\<forall>r \<in> set (db_events d). row_audit E (db_authors d) r) \<and> inv_edges d \<and>
     (\<forall>i ev. lookup_event E d i = Some ev \<longrightarrow> event_audit E d i ev) \<and>
     \<not> cyclic (store_parents E d) \<and> refs_audit E d"

lemma row_entries_lookup:
  assumes "distinct (map er_id rows)" "set rows = set (db_events d)" "distinct (map er_id (db_events d))"
  shows "map_of (concat (map (row_entry E) rows)) i = lookup_event E d i"
proof -
  have one: "map_of (concat (map (row_entry E) rows)) i =
      (case find (\<lambda>r. er_id r = i) rows of None \<Rightarrow> None
       | Some r \<Rightarrow> (case from_wire E (er_wire r) of Inl _ \<Rightarrow> None | Inr ev \<Rightarrow> Some ev))"
    using assms(1)
  proof (induction rows)
    case (Cons r rows)
    have absent: "map_of (concat (map (row_entry E) rows)) (er_id r) = None"
      using Cons.prems by (auto simp: map_of_eq_None_iff row_entry_def split: sum.splits)
    show ?case
    proof (cases "er_id r = i")
      case True
      then show ?thesis using absent by (cases "from_wire E (er_wire r)") (simp_all add: row_entry_def [of E r])
    next
      case False
      have "map_of (row_entry E r) i = None" using False by (auto simp: row_entry_def split: sum.splits)
      then show ?thesis using Cons False by (simp add: map_add_def split: option.splits)
    qed
  qed simp
  have "find (\<lambda>r. er_id r = i) rows = find (\<lambda>r. er_id r = i) (db_events d)"
  proof (cases "i \<in> er_id ` set rows")
    case True
    then obtain r where r: "r \<in> set rows" "er_id r = i" by auto
    then show ?thesis using find_key_eq [of er_id rows r] find_key_eq [of er_id "db_events d" r] assms by simp
  next
    case False
    then show ?thesis using find_key_absent [of i er_id] assms(2) by metis
  qed
  with one show ?thesis by (simp add: lookup_event_def)
qed

section \<open>The passes over the parsed events\<close>

lemma clean_event_edges:
  assumes "map_of m = lookup_event E d"
    and "\<And>i. stored_edges edges i = map (\<lambda>e. (edge_ordinal e, edge_parent e)) (sort_key edge_ordinal (edges_of d i))"
  shows "clean (verify_event_edges m edges i f) \<longleftrightarrow> clean f \<and>
    (\<forall>ev. lookup_event E d i = Some ev \<longrightarrow> edges_audit d i (event_parents ev) \<and>
      (\<forall>p \<in> set (event_parents ev). map_option event_context (lookup_event E d p) = Some (event_context ev)))"
proof (cases "lookup_event E d i")
  case (Some ev)
  have parent: "clean (verify_parent m i ev p f) \<longleftrightarrow> clean f \<and>
      map_option event_context (lookup_event E d p) = Some (event_context ev)" for p f
    by (cases "lookup_event E d p")
      (auto simp: verify_parent_def assms(1) Let_def event_context_def [symmetric])
  show ?thesis
    unfolding verify_event_edges_def assms(1) Some option.case event_parents_def [symmetric]
      clean_fold [of "verify_parent m i ev", OF parent]
    by (simp add: exact_edges_audit [OF assms(2)])
qed (simp add: verify_event_edges_def assms(1))

lemma clean_context_genesis:
  assumes "map_of m = lookup_event E d" "distinct (map ctx_id rows)" "r \<in> set rows" "context_state_ok r"
  shows "clean (verify_context_genesis (map context_entry rows) m (ctx_id r) f) \<longleftrightarrow> clean f \<and>
    (ctx_state r = 1 \<longrightarrow> (\<exists>ev. lookup_event E d (ctx_expected r) = Some ev \<and> event_context ev = ctx_id r \<and>
       body_kind (ev_body ev) = ''context.genesis'' \<and> event_parents ev = []))"
proof -
  have "map_of (map context_entry rows) (ctx_id r) = Some (snd (context_entry r))"
    using assms(3) context_entries_lookup [OF assms(2)] by (auto simp: context_entry_def)
  then show ?thesis
    using assms(4)
    by (auto simp: verify_context_genesis_def is_context_genesis_def assms(1) context_entry_def
        context_state_ok_def event_context_def event_parents_def split: option.splits)
qed

lemma clean_context_genesis_all:
  assumes "map_of m = lookup_event E d" "distinct (map ctx_id rows)"
    and "\<forall>r \<in> set rows. context_state_ok r \<and> (\<exists>a. (ctx_id r, a) \<in> set (db_authors d))"
  shows "clean (verify_context_genesis (map context_entry rows) m c f) \<longleftrightarrow> clean f \<and>
    (\<forall>r \<in> set rows. ctx_id r = c \<longrightarrow> context_audit E d r)"
proof (cases "c \<in> ctx_id ` set rows")
  case True
  then obtain r where r: "r \<in> set rows" "c = ctx_id r" by auto
  have "r' = r" if "r' \<in> set rows" "ctx_id r' = ctx_id r" for r'
    using that r(1) assms(2) by (metis distinct_map inj_onD)
  then have "(\<forall>r' \<in> set rows. ctx_id r' = c \<longrightarrow> context_audit E d r') \<longleftrightarrow> context_audit E d r"
    using r by blast
  then show ?thesis
    using clean_context_genesis [OF assms(1,2) r(1)] bspec [OF assms(3) r(1)] r(2)
    by (simp add: context_audit_def)
next
  case False
  then have "map_of (map context_entry rows) c = None"
    by (auto simp: map_of_eq_None_iff context_entry_def image_image)
  then show ?thesis using False by (auto simp: verify_context_genesis_def)
qed

lemma clean_event_genesis:
  assumes "map_of m = lookup_event E d" "distinct (map ctx_id rows)" "set rows = set (db_contexts d)"
  shows "clean (verify_event_genesis (map context_entry rows) m i f) \<longleftrightarrow> clean f \<and>
    (\<forall>ev. lookup_event E d i = Some ev \<longrightarrow>
      (\<forall>c \<in> set (db_contexts d). ctx_id c = event_context ev \<longrightarrow> ctx_state c \<noteq> 0) \<and>
      (event_parents ev = [] \<or> body_kind (ev_body ev) = ''context.genesis'' \<longrightarrow>
        (\<exists>c \<in> set (db_contexts d). ctx_id c = event_context ev \<and> ctx_expected c = i)))"
proof (cases "lookup_event E d i")
  case (Some ev)
  show ?thesis
  proof (cases "map_of (map context_entry rows) (event_context ev)")
    case None
    then have "event_context ev \<notin> ctx_id ` set (db_contexts d)"
      by (auto simp: map_of_eq_None_iff context_entry_def image_image assms(3))
    then have "\<forall>c \<in> set (db_contexts d). ctx_id c \<noteq> event_context ev" by (metis imageI)
    then show ?thesis
      using None Some by (auto simp: Let_def verify_event_genesis_def assms(1) Let_def event_context_def event_parents_def)
  next
    case (Some check)
    then obtain r where r: "r \<in> set (db_contexts d)" "ctx_id r = event_context ev"
      "chk_expected check = ctx_expected r" "chk_state check = ctx_state r"
      using context_entries_lookup [OF assms(2)] assms(3) by (auto simp: context_entry_def)
    have uniq: "c = r" if "c \<in> set (db_contexts d)" "ctx_id c = event_context ev" for c
      using that r(1,2) assms(2,3) by (metis distinct_map inj_onD)
    have "(\<forall>c \<in> set (db_contexts d). ctx_id c = event_context ev \<longrightarrow> ctx_state c \<noteq> 0) \<longleftrightarrow> ctx_state r \<noteq> 0"
      "(\<exists>c \<in> set (db_contexts d). ctx_id c = event_context ev \<and> ctx_expected c = i) \<longleftrightarrow> ctx_expected r = i"
      using r(1,2) uniq by blast+
    then show ?thesis
      using Some r(3,4) \<open>lookup_event E d i = Some ev\<close>
      by (auto simp: verify_event_genesis_def assms(1) Let_def event_context_def [symmetric]
          event_parents_def [symmetric])
  qed
qed (simp add: verify_event_genesis_def assms(1))

lemma clean_graph_start: "clean (verify_graph E h contexts m edges f) \<Longrightarrow> clean f"
proof -
  have edges: "clean (verify_event_edges m edges i f) \<Longrightarrow> clean f" for i f
    by (auto simp: verify_event_edges_def verify_parent_def Let_def split: option.splits
        dest!: clean_fold_start [rotated])
  have genesis: "clean (verify_context_genesis contexts m c f) \<Longrightarrow> clean f" for c f
    by (auto simp: verify_context_genesis_def split: option.splits)
  have event: "clean (verify_event_genesis contexts m i f) \<Longrightarrow> clean f" for i f
    by (auto simp: verify_event_genesis_def Let_def split: option.splits)
  define f1 where "f1 = fold (verify_event_edges m edges) (order_events h (map fst m)) f"
  define f2 where "f2 = fold (\<lambda>child. push_if (child \<notin> fst ` set m) EdgeSetFinding None (Some child) None)
      (order_events h (map fst edges)) f1"
  define f3 where "f3 = fold (verify_context_genesis contexts m) (order_contexts h (map fst contexts)) f2"
  have "clean f1 \<Longrightarrow> clean f" unfolding f1_def by (rule clean_fold_start [OF edges])
  moreover have "clean f2 \<Longrightarrow> clean f1" unfolding f2_def clean_fold_push_if by simp
  moreover have "clean f3 \<Longrightarrow> clean f2" unfolding f3_def by (rule clean_fold_start [OF genesis])
  moreover have "clean (fold (verify_event_genesis contexts m) (order_events h (map fst m)) f3) \<Longrightarrow> clean f3"
    by (rule clean_fold_start [OF event])
  ultimately show "clean (verify_graph E h contexts m edges f) \<Longrightarrow> clean f"
    by (simp add: verify_graph_def Let_def f1_def f2_def f3_def)
qed

lemma event_keys: "map_of m = lookup_event E d \<Longrightarrow> i \<in> fst ` set m \<longleftrightarrow> lookup_event E d i \<noteq> None"
  using map_of_eq_None_iff [of m i] by simp

lemma over_keys:
  "map_of m = lookup_event E d \<Longrightarrow>
    (\<forall>i \<in> set (map fst m). \<forall>ev. lookup_event E d i = Some ev \<longrightarrow> P i ev) \<longleftrightarrow>
    (\<forall>i ev. lookup_event E d i = Some ev \<longrightarrow> P i ev)"
  by (metis event_keys list.set_map option.distinct(1))

lemma clean_graph:
  assumes "orders_lawful h" "map_of m = lookup_event E d" "distinct (map ctx_id rows)"
    and "set rows = set (db_contexts d)" "\<forall>r \<in> set rows. context_state_ok r \<and> (\<exists>a. (ctx_id r, a) \<in> set (db_authors d))"
  shows "clean (verify_graph E h (map context_entry rows) m (fold edge_entry (ordered_edges d) []) f) \<longleftrightarrow>
    clean f \<and> (\<forall>c \<in> set (db_contexts d). context_audit E d c) \<and>
    (\<forall>e \<in> set (db_edges d). lookup_event E d (edge_child e) \<noteq> None) \<and>
    (\<forall>i ev. lookup_event E d i = Some ev \<longrightarrow> event_audit E d i ev) \<and> \<not> cyclic (known_parents m)"
proof -
  let ?edges = "fold edge_entry (ordered_edges d) []"
  have stored: "stored_edges ?edges i =
      map (\<lambda>e. (edge_ordinal e, edge_parent e)) (sort_key edge_ordinal (edges_of d i))" for i
    unfolding scan_edges ordered_edges_child by (simp add: stored_edges_def)
  have keys: "fst ` set ?edges = edge_child ` set (db_edges d)" by (simp add: scan_edges_keys)
  have contexts: "map fst (map context_entry rows) = map ctx_id rows" by (simp add: context_entry_def)
  note genesis = clean_fold [OF clean_context_genesis_all [OF assms(2,3,5)]]
  show ?thesis
    unfolding verify_graph_def Let_def contexts clean_push(2) graph_has_cycle_iff_cyclic
      clean_fold [OF clean_event_genesis [OF assms(2-4)]] clean_fold_push_if
      clean_fold [OF clean_event_edges [OF assms(2) stored]] genesis set_orders [OF assms(1)]
      over_keys [OF assms(2)] event_keys [OF assms(2)]
    unfolding set_map keys assms(4) event_audit_def by blast
qed

section \<open>Refs\<close>

definition ref_heads :: "db \<Rightarrow> (context_id \<times> event_id) list" where
  "ref_heads d = map (\<lambda>r. (ref_context r, ref_head r)) (ordered_local d) @
     map (\<lambda>r. (rem_context r, rem_head r)) (ordered_remote d)"

definition refs_project :: "env \<Rightarrow> db \<Rightarrow> projection_limits \<Rightarrow> bool" where
  "refs_project E d limits \<longleftrightarrow>
     (\<forall>(c, head) \<in> set (ref_heads d). is_ok (project_on E d c [head] limits))"

lemma ref_name_ok: "is_ok (name_from_str n) \<longleftrightarrow> ref_name_wf n"
  by (simp add: is_ok_iff)

lemma scan_local:
  assumes "map_of m = lookup_event E d" "fold (verify_local_ref m) rows (hs, f) = (hs', f')"
  shows "clean f' \<longleftrightarrow> clean f \<and>
      (\<forall>r \<in> set rows. ref_name_wf (ref_name r) \<and> head_audit E d (ref_context r) (ref_head r))"
  using assms(2)
  by (induction rows arbitrary: hs f)
    (auto simp: verify_local_ref_def Let_def assms(1) ref_name_ok head_audit_def
      event_context_def [symmetric] split: if_splits)

lemma scan_local_heads:
  assumes "map_of m = lookup_event E d" "\<forall>r \<in> set rows. head_audit E d (ref_context r) (ref_head r)"
  shows "fst (fold (verify_local_ref m) rows (hs, f)) = hs @ map (\<lambda>r. (ref_context r, ref_head r)) rows"
  using assms(2)
  by (induction rows arbitrary: hs f)
    (simp_all add: verify_local_ref_def Let_def assms(1) head_audit_def event_context_def [symmetric])

lemma scan_remote:
  assumes "map_of m = lookup_event E d" "fold (verify_remote_ref m) rows (hs, f) = (hs', f')"
  shows "clean f' \<longleftrightarrow> clean f \<and>
      (\<forall>r \<in> set rows. ref_name_wf (rem_peer r) \<and> ref_name_wf (rem_name r) \<and>
        head_audit E d (rem_context r) (rem_head r))"
  using assms(2)
  by (induction rows arbitrary: hs f)
    (auto simp: verify_remote_ref_def Let_def assms(1) ref_name_ok head_audit_def
      event_context_def [symmetric] split: if_splits)

lemma scan_remote_heads:
  assumes "map_of m = lookup_event E d" "\<forall>r \<in> set rows. head_audit E d (rem_context r) (rem_head r)"
  shows "fst (fold (verify_remote_ref m) rows (hs, f)) = hs @ map (\<lambda>r. (rem_context r, rem_head r)) rows"
  using assms(2)
  by (induction rows arbitrary: hs f)
    (simp_all add: verify_remote_ref_def Let_def assms(1) head_audit_def event_context_def [symmetric])

lemma clean_ref_head: "clean (verify_ref_head E d limits x f) \<longleftrightarrow>
    clean f \<and> (case x of (c, head) \<Rightarrow> is_ok (project_on E d c [head] limits))"
  by (auto simp: verify_ref_head_def Let_def is_ok_iff split: prod.split sum.split)

section \<open>Valid reports\<close>

lemma known_parents_stored:
  assumes "map_of m = lookup_event E d" "\<forall>i ev. lookup_event E d i = Some ev \<longrightarrow> event_audit E d i ev"
  shows "known_parents m = store_parents E d"
proof
  fix i
  show "known_parents m i = store_parents E d i"
  proof (cases "lookup_event E d i")
    case (Some ev)
    then have "\<forall>p \<in> set (event_parents ev). lookup_event E d p \<noteq> None"
      using assms(2) by (force simp: event_audit_def)
    with Some show ?thesis
      by (simp add: known_parents_def assms(1) store_parents_def event_parents_def event_keys [OF assms(1)])
  qed (simp add: known_parents_def assms(1) store_parents_def)
qed

lemma audited_lookup:
  assumes "distinct (map er_id (db_events d))" "\<forall>r \<in> set (db_events d). event_row_ok E r"
  shows "lookup_event E d i \<noteq> None \<longleftrightarrow> has_event d i"
proof (cases "has_event d i")
  case True
  then obtain r where r: "r \<in> set (db_events d)" "er_id r = i" by (auto simp: has_event_def)
  then have "find (\<lambda>r. er_id r = i) (db_events d) = Some r"
    using find_key_eq [of er_id "db_events d" r] assms(1) by simp
  with r True assms(2) show ?thesis by (auto simp: lookup_event_def event_row_ok_def split: sum.splits)
next
  case False
  then have "find (\<lambda>r. er_id r = i) (db_events d) = None"
    by (intro find_key_absent) (simp add: has_event_def)
  with False show ?thesis by (simp add: lookup_event_def)
qed

text \<open>No pass changes the bound on the findings.\<close>

lemma max_push [simp]:
  "fi_max (push_finding category c i related f) = fi_max f"
  "fi_max (push_if bad category c i related f) = fi_max f"
  by (simp_all add: push_finding_def push_if_def)

lemma fold_keeps: "(\<And>x s. g (step x s) = g s) \<Longrightarrow> g (fold step xs s) = g s"
  by (induction xs arbitrary: s) simp_all

lemma max_contexts: "fi_max (snd (fold verify_context_row rows (m, f))) = fi_max f"
  using fold_keeps [of "fi_max \<circ> snd" verify_context_row rows "(m, f)"]
  by (simp add: verify_context_row_def split_beta)

lemma max_authors: "fi_max (verify_context_authors h m authors f) = fi_max f"
  unfolding verify_context_authors_def by (rule fold_keeps) simp

lemma max_events:
  assumes "foldR (verify_event_row E authors) rows (m, f) = Inr (m', f')"
  shows "fi_max f' = fi_max f"
proof -
  have "verify_event_row E authors r s = Inr t \<Longrightarrow> fi_max (snd t) = fi_max (snd s)" for r s t
    by (cases s) (auto simp: verify_event_row_def Let_def bindR_Inr_iff split: sum.splits)
  then show ?thesis using foldR_invariant [OF assms, of "\<lambda>s. fi_max (snd s) = fi_max f"] by auto
qed

lemma max_event_edges: "fi_max (verify_event_edges m edges i f) = fi_max f"
proof -
  have "fi_max (verify_parent m i ev p g) = fi_max g" for ev p g
    by (simp add: verify_parent_def Let_def split: option.split)
  then have "fi_max (fold (verify_parent m i ev) ps g) = fi_max g" for ev ps g
    by (rule fold_keeps)
  then show ?thesis by (simp add: verify_event_edges_def split: option.split)
qed

lemma max_graph: "fi_max (verify_graph E h contexts m edges f) = fi_max f"
proof -
  have "fi_max (verify_context_genesis contexts m c g) = fi_max g"
    "fi_max (verify_event_genesis contexts m i g) = fi_max g" for c i g
    by (simp_all add: verify_context_genesis_def verify_event_genesis_def Let_def split: option.split)
  then show ?thesis
    by (simp add: verify_graph_def Let_def fold_keeps max_event_edges)
qed

lemma max_local: "fi_max (snd (fold (verify_local_ref m) rows (hs, f))) = fi_max f"
  using fold_keeps [of "fi_max \<circ> snd" "verify_local_ref m" rows "(hs, f)"]
  by (simp add: verify_local_ref_def split_beta Let_def)

lemma max_remote: "fi_max (snd (fold (verify_remote_ref m) rows (hs, f))) = fi_max f"
  using fold_keeps [of "fi_max \<circ> snd" "verify_remote_ref m" rows "(hs, f)"]
  by (simp add: verify_remote_ref_def split_beta Let_def)

definition report_of :: "db \<Rightarrow> findings \<Rightarrow> verification_report" where
  "report_of d f = \<lparr>vr_valid = (fi_values f = [] \<and> \<not> fi_truncated f), vr_contexts = length (db_contexts d),
     vr_events = length (db_events d), vr_refs = length (db_local d) + length (db_remote d),
     vr_findings = fi_values f, vr_truncated = fi_truncated f\<rparr>"

lemma verify_on_shape:
  assumes keys: "inv_keys d" and orders: "orders_lawful h"
    and run: "verify_on E h schema_ok d limits = Inr report"
  shows "\<exists>f hs. report = report_of d (fold (verify_ref_head E d (vl_projection limits)) hs f) \<and>
    fi_max f = vl_max_findings limits \<and> (clean f \<longleftrightarrow> schema_ok \<and> db_audit E d) \<and>
    (db_audit E d \<longrightarrow> hs = ref_heads d)"
proof -
  let ?rows = "ordered_contexts d"
  have distinct: "distinct (map ctx_id ?rows)" "distinct (map er_id (ordered_events d))"
    "distinct (map er_id (db_events d))"
    using keys by (auto simp: inv_keys_def ordered_contexts_def ordered_events_def intro: distinct_sorted_rows)
  define f0 where "f0 = push_if (\<not> schema_ok) SchemaFinding None None None
      \<lparr>fi_max = vl_max_findings limits, fi_values = [], fi_truncated = False\<rparr>"
  have f0: "clean f0 \<longleftrightarrow> schema_ok" by (simp add: f0_def) (simp add: clean_def)
  obtain f1 where f1: "fold verify_context_row ?rows ([], f0) = (map context_entry ?rows, f1)"
    "clean f1 \<longleftrightarrow> clean f0 \<and> (\<forall>r \<in> set ?rows. context_state_ok r)"
    using scan_contexts [OF distinct(1), of "[]" f0] by auto
  define f2 where "f2 = verify_context_authors h (map context_entry ?rows) (db_authors d) f1"
  have f2: "clean f2 \<longleftrightarrow> clean f1 \<and> (\<forall>r \<in> set ?rows. \<exists>a. (ctx_id r, a) \<in> set (db_authors d))"
    by (force simp: f2_def verify_context_authors_def clean_fold_push_if set_orders [OF orders]
        context_entry_def)
  obtain m f3 where f3: "foldR (verify_event_row E (db_authors d)) (ordered_events d) ([], f2) = Inr (m, f3)"
    using run by (auto simp: verify_on_def f0_def [symmetric] f1(1) f2_def [symmetric] bindR_Inr_iff Let_def)
  have m: "map_of m = lookup_event E d"
    using scan_events [OF f3 distinct(2)] row_entries_lookup [OF distinct(2) _ distinct(3)] by auto
  define f4 where "f4 = verify_graph E h (map context_entry ?rows) m (fold edge_entry (ordered_edges d) []) f3"
  obtain hs1 f5 where f5: "fold (verify_local_ref m) (ordered_local d) ([], f4) = (hs1, f5)" by fastforce
  obtain hs2 f6 where f6: "fold (verify_remote_ref m) (ordered_remote d) (hs1, f5) = (hs2, f6)" by fastforce
  have "length ?rows = length (db_contexts d)" by (simp add: ordered_contexts_def)
  then have report: "report = report_of d (fold (verify_ref_head E d (vl_projection limits)) hs2 f6)"
    using run by (auto simp: verify_on_def f0_def [symmetric] f1(1) f2_def [symmetric] f3 f4_def [symmetric]
        f5 f6 report_of_def Let_def)
  have max: "fi_max f6 = vl_max_findings limits"
    using max_local [of m "ordered_local d" "[]" f4] max_remote [of m "ordered_remote d" hs1 f5] f5 f6
      max_events [OF f3] max_contexts [of ?rows "[]" f0] f1(1)
    by (simp add: f4_def max_graph f2_def max_authors f0_def)
  note clean6 = scan_remote [OF m f6]
  note clean5 = scan_local [OF m f5]
  have clean3: "clean f3 \<longleftrightarrow> clean f2 \<and> (\<forall>r \<in> set (db_events d). row_audit E (db_authors d) r)"
    using scan_events [OF f3 distinct(2)] by simp
  have clean: "clean f6 \<longleftrightarrow> schema_ok \<and> db_audit E d"
  proof (cases "clean f3")
    case False
    then have "\<not> clean f4" using clean_graph_start unfolding f4_def by metis
    moreover have "\<not> (schema_ok \<and> db_audit E d)"
      using False clean3 f2 f1(2) f0 unfolding db_audit_def context_audit_def ordered_rows by blast
    moreover have "clean f6 \<Longrightarrow> clean f4" using clean6 clean5 by simp
    ultimately show ?thesis by blast
  next
    case True
    then have rows: "\<forall>r \<in> set (db_events d). row_audit E (db_authors d) r" and schema_ok
      and contexts: "\<forall>r \<in> set ?rows. context_state_ok r \<and> (\<exists>a. (ctx_id r, a) \<in> set (db_authors d))"
      using clean3 f2 f1(2) f0 by auto
    have "\<forall>r \<in> set (db_events d). event_row_ok E r" using rows by (simp add: row_audit_def)
    then have edges: "(\<forall>e \<in> set (db_edges d). lookup_event E d (edge_child e) \<noteq> None) \<longleftrightarrow> inv_edges d"
      using audited_lookup [OF distinct(3)] by (simp add: inv_edges_def)
    have graph: "clean f4 \<longleftrightarrow> (\<forall>c \<in> set (db_contexts d). context_audit E d c) \<and> inv_edges d \<and>
        (\<forall>i ev. lookup_event E d i = Some ev \<longrightarrow> event_audit E d i ev) \<and> \<not> cyclic (store_parents E d)"
      using clean_graph [OF orders m distinct(1) ordered_rows(1) contexts, of f3] known_parents_stored [OF m]
        edges True unfolding f4_def by metis
    have "clean f6 \<longleftrightarrow> clean f4 \<and> refs_audit E d"
      using clean6 clean5 by (auto simp: refs_audit_def)
    then show ?thesis using graph rows \<open>schema_ok\<close> unfolding db_audit_def by blast
  qed
  have "hs2 = ref_heads d" if "db_audit E d"
    using scan_local_heads [OF m, of "ordered_local d" "[]" f4]
      scan_remote_heads [OF m, of "ordered_remote d" hs1 f5] that f5 f6
    by (simp add: db_audit_def refs_audit_def ref_heads_def)
  with report max clean show ?thesis by blast
qed

lemma verify_on_valid:
  assumes "inv_keys d" "orders_lawful h" "verify_on E h schema_ok d limits = Inr report"
  shows "vr_valid report \<longleftrightarrow> schema_ok \<and> db_audit E d \<and> refs_project E d (vl_projection limits)"
proof -
  obtain f hs where report: "report = report_of d (fold (verify_ref_head E d (vl_projection limits)) hs f)"
    and clean: "clean f \<longleftrightarrow> schema_ok \<and> db_audit E d" and hs: "db_audit E d \<longrightarrow> hs = ref_heads d"
    using verify_on_shape [OF assms] by blast
  have "vr_valid report \<longleftrightarrow> clean f \<and>
      (\<forall>(c, head) \<in> set hs. is_ok (project_on E d c [head] (vl_projection limits)))"
    unfolding report by (simp add: report_of_def clean_def [symmetric]) (rule clean_fold, rule clean_ref_head)
  then show ?thesis using clean hs unfolding refs_project_def by blast
qed

lemma verify_event_row_ok:
  "event_row_ok E r \<Longrightarrow> \<exists>s'. verify_event_row E authors r s = Inr s'"
  by (cases s) (auto simp: verify_event_row_def event_row_ok_def Let_def split: sum.splits)

lemma verify_on_total:
  assumes "\<forall>r \<in> set (db_events d). event_row_ok E r"
  shows "\<exists>report. verify_on E h schema_ok d limits = Inr report"
proof -
  have "\<exists>s'. foldR (verify_event_row E (db_authors d)) rows s = Inr s'"
    if "set rows \<subseteq> set (db_events d)" for rows s
    using that
  proof (induction rows arbitrary: s)
    case (Cons r rows)
    obtain s' where "verify_event_row E (db_authors d) r s = Inr s'"
      using verify_event_row_ok [of E r "db_authors d" s] assms Cons.prems by auto
    then show ?case using Cons by simp
  qed simp
  then have total: "\<exists>s'. foldR (verify_event_row E (db_authors d)) (ordered_events d) s = Inr s'" for s
    by simp
  define f0 where "f0 = push_if (\<not> schema_ok) SchemaFinding None None None
      \<lparr>fi_max = vl_max_findings limits, fi_values = [], fi_truncated = False\<rparr>"
  obtain contexts f1 where f1: "fold verify_context_row (ordered_contexts d) ([], f0) = (contexts, f1)"
    by fastforce
  obtain m f3 where "foldR (verify_event_row E (db_authors d)) (ordered_events d)
      ([], verify_context_authors h contexts (db_authors d) f1) = Inr (m, f3)"
    using total by fastforce
  then show ?thesis
    by (simp add: verify_on_def f0_def [symmetric] f1 Let_def split_beta)
qed

end
