(* ===== verification/Verify_Store.thy ===== *)
theory Verify_Store
  imports Verify_Facts
begin

text \<open>
  Full-store verification against the invariant of \<open>Store_Invariant\<close>: a store that satisfies the
  invariant passes the audit, and its report lists exactly the refs whose ancestry is too large
  for the limits; a store that passes the audit is, up to the order of its rows, one that
  satisfies the invariant.
\<close>

section \<open>The invariant passes the audit\<close>

lemma inv_context_audit:
  assumes "store_inv E d" "c \<in> set (db_contexts d)"
  shows "context_audit E d c"
proof -
  have ok: "context_ok E (db_events d) c" and authors: "\<exists>a. (ctx_id c, a) \<in> set (db_authors d)"
    using assms by (auto simp: store_inv_def inv_contexts_def inv_authors_def)
  show ?thesis
  proof (cases "ctx_state c = 0")
    case False
    then obtain r where r: "r \<in> set (db_events d)" "genesis_row E c r"
      using ok by (auto simp: context_ok_def)
    obtain ev where "lookup_event E d (er_id r) = Some ev" "event_context ev = er_context r"
      "body_kind (ev_body ev) = er_kind r" "event_parents ev = row_parents E r"
      by (rule lookup_event_row [OF assms(1) r(1)])
    then show ?thesis
      using ok authors r(2) False
      by (auto simp: context_audit_def context_state_ok_def context_ok_def genesis_row_def)
  qed (use ok authors in \<open>auto simp: context_audit_def context_state_ok_def context_ok_def\<close>)
qed

lemma inv_event_audit:
  assumes "store_inv E d" "lookup_event E d i = Some ev"
  shows "event_audit E d i ev"
proof -
  obtain r where r: "r \<in> set (db_events d)" "er_id r = i" "event_context ev = er_context r"
    "body_kind (ev_body ev) = er_kind r" "event_parents ev = row_parents E r"
    by (rule lookup_eventE [OF assms])
  obtain c where c: "c \<in> set (db_contexts d)" "row_in_context E r c"
    using assms(1) r(1) by (auto simp: store_inv_def inv_roots_def)
  have "c' = c" if "c' \<in> set (db_contexts d)" "ctx_id c' = ctx_id c" for c'
    using that c(1) inv_distinct_contexts [OF assms(1)] by (metis distinct_map inj_onD)
  then have state: "\<forall>c' \<in> set (db_contexts d). ctx_id c' = event_context ev \<longrightarrow> ctx_state c' \<noteq> 0"
    using c(2) r(3) by (auto simp: row_in_context_def)
  have "edges_of d i = mk_edges i (event_parents ev)"
    using assms(1) r by (auto simp: store_inv_def inv_events_def)
  then have "edges_audit d i (event_parents ev)" by (simp add: edges_audit_def)
  moreover have "\<forall>p \<in> set (event_parents ev).
      map_option event_context (lookup_event E d p) = Some (event_context ev)"
    using lookup_parent [OF assms] by (metis option.map(2))
  moreover have "event_parents ev = [] \<or> body_kind (ev_body ev) = ''context.genesis'' \<longrightarrow>
      (\<exists>c \<in> set (db_contexts d). ctx_id c = event_context ev \<and> ctx_expected c = i)"
    using c r(2-5) by (auto simp: row_in_context_def root_row_def)
  ultimately show ?thesis using state unfolding event_audit_def by blast
qed

lemma inv_head_audit: "store_inv E d \<Longrightarrow> head_audit E d c i \<longleftrightarrow> stored_in d i c"
  using stored_in_iff by (auto simp: head_audit_def)

lemma store_inv_audit:
  assumes "store_inv E d"
  shows "db_audit E d"
proof -
  have "row_audit E (db_authors d) r" if "r \<in> set (db_events d)" for r
    using assms that by (simp add: store_inv_def inv_events_def row_audit_def)
  moreover have "inv_edges d" "inv_local d" "inv_remote d" using assms by (simp_all add: store_inv_def)
  moreover have "\<not> cyclic (store_parents E d)" using store_parents_acyclic [OF assms] by (auto simp: cyclic_def)
  ultimately show ?thesis
    using inv_context_audit [OF assms] inv_event_audit [OF assms] inv_head_audit [OF assms]
    by (auto simp: db_audit_def refs_audit_def inv_local_def inv_remote_def)
qed

section \<open>An audited store in parent-first order\<close>

lemma parents_before_induct:
  assumes "parents_before par {} xs" "\<And>i. i \<in> set xs \<Longrightarrow> \<forall>p \<in> set (par i). P p \<Longrightarrow> P i" "i \<in> set xs"
  shows "P i"
proof -
  have "\<forall>i \<in> set xs. P i"
    using assms(1,2) by (induction xs rule: rev_induct) auto
  then show ?thesis using assms(3) by blast
qed

lemma parents_first_before:
  assumes "parents_before par {} (map er_id rows)" "\<forall>r \<in> set rows. par (er_id r) = row_parents E r"
    and "\<forall>r \<in> set rows. \<forall>q \<in> set rows. er_id q \<in> set (row_parents E r) \<longrightarrow> er_context q = er_context r"
  shows "parents_first E {} rows"
  using assms
proof (induction rows rule: rev_induct)
  case (snoc r rows)
  have "(p, er_context r) \<in> (\<lambda>r. (er_id r, er_context r)) ` set rows" if p: "p \<in> set (row_parents E r)" for p
  proof -
    have "p \<in> er_id ` set rows" using snoc.prems(1,2) p by auto
    then obtain q where q: "q \<in> set rows" "er_id q = p" by auto
    then have "er_context q = er_context r" using snoc.prems(3) p by simp
    with q show ?thesis by force
  qed
  moreover have "parents_first E {} rows"
  proof (rule snoc.IH)
    show "parents_before par {} (map er_id rows)" using snoc.prems(1) by simp
    show "\<forall>r \<in> set rows. par (er_id r) = row_parents E r" using snoc.prems(2) by simp
    show "\<forall>r \<in> set rows. \<forall>q \<in> set rows. er_id q \<in> set (row_parents E r) \<longrightarrow> er_context q = er_context r"
      using snoc.prems(3) by (metis butlast_snoc in_set_butlastD)
  qed
  ultimately show ?case by simp
qed simp

lemma audited_order:
  assumes "inv_keys d" "db_audit E d"
  obtains order where "distinct order" "parents_before (store_parents E d) {} order"
    "set order = {i. has_event d i}"
proof -
  have rows: "\<forall>r \<in> set (db_events d). event_row_ok E r" and keys: "distinct (map er_id (db_events d))"
    using assms by (simp_all add: db_audit_def row_audit_def inv_keys_def)
  define m where "m = concat (map (row_entry E) (db_events d))"
  have m: "map_of m = lookup_event E d"
    unfolding m_def by (rule ext) (rule row_entries_lookup [OF keys refl keys])
  have known: "known_parents m = store_parents E d"
    using assms(2) by (intro known_parents_stored [OF m]) (simp add: db_audit_def)
  have heads: "fst ` set m = {i. has_event d i}"
    using event_keys [OF m] audited_lookup [OF keys rows] by blast
  have "\<not> graph_has_cycle E m"
    using assms(2) by (simp add: graph_has_cycle_iff_cyclic known db_audit_def)
  then obtain order where order: "walk_inv (store_parents E d) {i. has_event d i} [] order"
    using graph_walk [of E m] by (auto simp: known heads)
  have "ancestors (store_parents E d) {i. has_event d i} \<subseteq> {i. has_event d i}"
  proof (rule ancestors_closed)
    fix i
    show "set (store_parents E d i) \<subseteq> {i. has_event d i}"
    proof (cases "lookup_event E d i")
      case (Some ev)
      then have "event_audit E d i ev" using assms(2) by (simp add: db_audit_def)
      then show ?thesis
        using Some audited_lookup [OF keys rows] by (force simp: event_audit_def store_parents_def)
    qed (simp add: store_parents_def)
  qed simp
  then show thesis
    using walk_done [OF order] by (intro that [of order]) (auto intro: ancestors.head)
qed

lemma audited_row_lookup:
  assumes "distinct (map er_id (db_events d))" "r \<in> set (db_events d)" "event_row_ok E r"
  obtains ev where "lookup_event E d (er_id r) = Some ev" "event_context ev = er_context r"
    "body_kind (ev_body ev) = er_kind r" "event_parents ev = row_parents E r"
proof -
  obtain ev where ev: "from_wire E (er_wire r) = Inr ev" "body_context (ev_body ev) = er_context r"
    "body_kind (ev_body ev) = er_kind r" "body_parents (ev_body ev) = row_parents E r"
    by (rule event_row_okE [OF assms(3)])
  moreover have "find (\<lambda>r'. er_id r' = er_id r) (db_events d) = Some r"
    using assms(1,2) by (intro find_key_eq) auto
  ultimately show thesis
    by (intro that [of ev]) (simp_all add: lookup_event_def event_context_def event_parents_def)
qed

definition same_rows :: "db \<Rightarrow> db \<Rightarrow> bool" where
  "same_rows d d' \<longleftrightarrow> mset (db_events d') = mset (db_events d) \<and> mset (db_edges d') = mset (db_edges d) \<and>
     db_contexts d' = db_contexts d \<and> db_authors d' = db_authors d \<and> db_local d' = db_local d \<and>
     db_remote d' = db_remote d"

lemma same_rows_facts:
  assumes "same_rows d d'"
  shows "set (db_events d') = set (db_events d)" "set (db_edges d') = set (db_edges d)"
    "db_contexts d' = db_contexts d" "db_authors d' = db_authors d" "db_local d' = db_local d"
    "db_remote d' = db_remote d" "has_event d' = has_event d" "stored_in d' = stored_in d"
proof -
  show events: "set (db_events d') = set (db_events d)" "set (db_edges d') = set (db_edges d)"
    using assms by (auto simp: same_rows_def dest: mset_eq_setD)
  show "db_contexts d' = db_contexts d" "db_authors d' = db_authors d" "db_local d' = db_local d"
    "db_remote d' = db_remote d"
    using assms by (simp_all add: same_rows_def)
  show "has_event d' = has_event d" "stored_in d' = stored_in d"
    using events(1) by (auto simp: has_event_def stored_in_def fun_eq_iff)
qed

lemma same_rows_keys: "same_rows d d' \<Longrightarrow> inv_keys d \<Longrightarrow> inv_keys d'"
  by (simp add: same_rows_def inv_keys_def) (metis mset_map mset_eq_imp_distinct_iff)

lemma audited_contexts:
  assumes "inv_keys d" "db_audit E d" "r \<in> set (db_events d)"
  shows "\<exists>c \<in> set (db_contexts d). ctx_id c = er_context r"
proof -
  note keys = assms(1) [unfolded inv_keys_def, THEN conjunct2, THEN conjunct2, THEN conjunct1]
  have rows: "\<forall>r \<in> set (db_events d). event_row_ok E r"
    using assms(2) by (simp add: db_audit_def row_audit_def)
  obtain order where order: "parents_before (store_parents E d) {} order" "set order = {i. has_event d i}"
    by (rule audited_order [OF assms(1,2)])
  have "\<forall>ev. lookup_event E d i = Some ev \<longrightarrow> (\<exists>c \<in> set (db_contexts d). ctx_id c = event_context ev)"
    if "i \<in> set order" for i
    using order(1) _ that
  proof (rule parents_before_induct, intro allI impI)
    fix i ev
    assume hyp: "\<forall>p \<in> set (store_parents E d i). \<forall>ev. lookup_event E d p = Some ev \<longrightarrow>
        (\<exists>c \<in> set (db_contexts d). ctx_id c = event_context ev)"
      and ev: "lookup_event E d i = Some ev"
    have audit: "event_audit E d i ev" using assms(2) ev by (simp add: db_audit_def)
    show "\<exists>c \<in> set (db_contexts d). ctx_id c = event_context ev"
    proof (cases "event_parents ev")
      case Nil
      with audit show ?thesis by (auto simp: event_audit_def)
    next
      case (Cons p ps)
      then obtain pev where "lookup_event E d p = Some pev" "event_context pev = event_context ev"
        using audit by (auto simp: event_audit_def)
      moreover have "p \<in> set (store_parents E d i)" using Cons ev by (simp add: store_parents_def)
      ultimately show ?thesis using hyp by metis
    qed
  qed
  moreover have "er_id r \<in> set order" using order(2) has_event_row [OF assms(3)] by simp
  moreover obtain ev where "lookup_event E d (er_id r) = Some ev" "event_context ev = er_context r"
    using audited_row_lookup [OF keys assms(3)] rows assms(3) by metis
  ultimately show ?thesis by metis
qed

text \<open>What the schema guarantees by itself: key columns are unique, identifiers have their
  size, and an author belongs to a context.\<close>

definition schema_ok_db :: "db \<Rightarrow> bool" where
  "schema_ok_db d \<longleftrightarrow> inv_keys d \<and> inv_types d \<and>
     (\<forall>(c, a) \<in> set (db_authors d). c \<in> set (map ctx_id (db_contexts d)))"

lemma reorder_rows:
  assumes "distinct (map er_id events)" "distinct order" "set order = er_id ` set events"
  obtains rows where "map er_id rows = order" "mset rows = mset events"
proof -
  define row_of where "row_of i = the (find (\<lambda>r. er_id r = i) events)" for i
  have row: "row_of (er_id r) = r" if "r \<in> set events" for r
    using find_key_eq [OF assms(1) that] by (simp add: row_of_def)
  have ids: "map er_id (map row_of order) = order"
    using row assms(3) by (auto intro!: map_idI)
  have "set (map row_of order) = set events"
    using row assms(3) by (force simp: image_iff)
  moreover have "distinct (map row_of order)" using ids assms(2) by (metis distinct_map)
  moreover have "distinct events" using assms(1) by (simp add: distinct_map)
  ultimately have "mset (map row_of order) = mset events" by (metis set_eq_iff_mset_eq_distinct)
  with ids show thesis by (rule that)
qed

lemma audited_stored:
  assumes "distinct (map er_id (db_events d))" "\<forall>r \<in> set (db_events d). event_row_ok E r"
    and "lookup_event E d i = Some ev"
  shows "\<exists>r \<in> set (db_events d). er_id r = i \<and> er_context r = event_context ev \<and>
    er_kind r = body_kind (ev_body ev) \<and> row_parents E r = event_parents ev"
proof -
  obtain r where r: "r \<in> set (db_events d)" "er_id r = i"
    using audited_lookup [OF assms(1,2), of i] assms(3) by (auto simp: has_event_def)
  then show ?thesis using audited_row_lookup [OF assms(1) r(1)] assms(2,3) by (metis option.inject)
qed

lemma audited_edges:
  assumes "inv_keys d" "db_audit E d" "r \<in> set (db_events d)"
  shows "sort_key edge_ordinal (edges_of d (er_id r)) = mk_edges (er_id r) (row_parents E r)"
    and "p \<in> set (row_parents E r) \<Longrightarrow> stored_in d p (er_context r)"
    and "\<exists>c \<in> set (db_contexts d). row_in_context E r c"
proof -
  have keys: "distinct (map er_id (db_events d))" using assms(1) by (simp add: inv_keys_def)
  have rows: "\<forall>r \<in> set (db_events d). event_row_ok E r"
    using assms(2) by (simp add: db_audit_def row_audit_def)
  obtain ev where ev: "lookup_event E d (er_id r) = Some ev" "event_context ev = er_context r"
    "body_kind (ev_body ev) = er_kind r" "event_parents ev = row_parents E r"
    using audited_row_lookup [OF keys assms(3)] rows assms(3) by metis
  have audit: "event_audit E d (er_id r) ev" using assms(2) ev(1) by (simp add: db_audit_def)
  show "sort_key edge_ordinal (edges_of d (er_id r)) = mk_edges (er_id r) (row_parents E r)"
    using audit ev(4) by (simp add: event_audit_def edges_audit_def)
  show "stored_in d p (er_context r)" if p: "p \<in> set (row_parents E r)"
  proof -
    obtain pev where pev: "lookup_event E d p = Some pev" "event_context pev = er_context r"
      using audit p ev(2,4) by (auto simp: event_audit_def)
    with audited_stored [OF keys rows pev(1)] show ?thesis by (auto simp: stored_in_def)
  qed
  obtain c where c: "c \<in> set (db_contexts d)" "ctx_id c = er_context r"
    using audited_contexts [OF assms] by auto
  have "context_audit E d c" using assms(2) c(1) by (simp add: db_audit_def)
  moreover have "ctx_state c \<noteq> 0" using audit c ev(2) by (simp add: event_audit_def)
  ultimately have state: "ctx_state c = 1" by (auto simp: context_audit_def context_state_ok_def)
  have "distinct (map ctx_id (db_contexts d))" using assms(1) by (simp add: inv_keys_def)
  then have uniq: "c' = c" if "c' \<in> set (db_contexts d)" "ctx_id c' = er_context r" for c'
    using that c by (metis distinct_map inj_onD)
  have "er_id r = ctx_expected c" if root: "root_row E r"
  proof -
    obtain c' where "c' \<in> set (db_contexts d)" "ctx_id c' = er_context r" "ctx_expected c' = er_id r"
      using audit root ev(2-4) by (auto simp: event_audit_def root_row_def)
    with uniq show ?thesis by metis
  qed
  with c state show "\<exists>c \<in> set (db_contexts d). row_in_context E r c"
    by (auto simp: row_in_context_def)
qed

lemma audited_genesis:
  assumes "inv_keys d" "db_audit E d" "c \<in> set (db_contexts d)"
  shows "context_ok E (db_events d) c"
proof -
  have keys: "distinct (map er_id (db_events d))" using assms(1) by (simp add: inv_keys_def)
  have rows: "\<forall>r \<in> set (db_events d). event_row_ok E r"
    using assms(2) by (simp add: db_audit_def row_audit_def)
  have audit: "context_audit E d c" using assms(2,3) by (simp add: db_audit_def)
  show ?thesis
  proof (cases "ctx_state c = 1")
    case True
    then obtain ev where ev: "lookup_event E d (ctx_expected c) = Some ev" "event_context ev = ctx_id c"
      "body_kind (ev_body ev) = ''context.genesis''" "event_parents ev = []"
      using audit by (auto simp: context_audit_def)
    then obtain q where q: "q \<in> set (db_events d)" "genesis_row E c q"
      using audited_stored [OF keys rows ev(1)] by (auto simp: genesis_row_def)
    then show ?thesis using True audit by (auto simp: context_ok_def context_audit_def context_state_ok_def)
  qed (use audit in \<open>auto simp: context_ok_def context_audit_def context_state_ok_def\<close>)
qed

lemma audited_same_rows:
  assumes "schema_ok_db d" "db_audit E d"
  shows "\<exists>d'. same_rows d d' \<and> store_inv E d'"
proof -
  have inv: "inv_keys d" "inv_types d" using assms(1) by (simp_all add: schema_ok_db_def)
  have keys: "distinct (map er_id (db_events d))" using inv(1) by (simp add: inv_keys_def)
  have rows_ok: "\<forall>r \<in> set (db_events d). row_audit E (db_authors d) r"
    using assms(2) by (simp add: db_audit_def)
  then have wires: "\<forall>r \<in> set (db_events d). event_row_ok E r" by (simp add: row_audit_def)
  note row = audited_edges [OF inv(1) assms(2)]
  obtain order where order: "distinct order" "parents_before (store_parents E d) {} order"
    "set order = {i. has_event d i}"
    by (rule audited_order [OF inv(1) assms(2)])
  have "set order = er_id ` set (db_events d)" using order(3) by (auto simp: has_event_def)
  then obtain rows where rows: "map er_id rows = order" "mset rows = mset (db_events d)"
    using reorder_rows [OF keys order(1)] by metis
  define d' where "d' = d\<lparr>db_events := rows, db_edges := sort_key edge_ordinal (db_edges d)\<rparr>"
  have same: "same_rows d d'" using rows(2) by (simp add: same_rows_def d'_def)
  note facts = same_rows_facts [OF same]
  have parents: "store_parents E d (er_id r) = row_parents E r" if "r \<in> set (db_events d)" for r
    using audited_row_lookup [OF keys that] wires that by (metis option.simps(5) store_parents_def)
  have first: "parents_first E {} (db_events d')"
  proof (rule parents_first_before [of "store_parents E d"])
    show "parents_before (store_parents E d) {} (map er_id (db_events d'))"
      using order(2) rows(1) by (simp add: d'_def)
    show "\<forall>r \<in> set (db_events d'). store_parents E d (er_id r) = row_parents E r"
      using parents facts(1) by simp
    have "er_context q = er_context r" if "r \<in> set (db_events d)" "q \<in> set (db_events d)"
        "er_id q \<in> set (row_parents E r)" for r q
      using row(2) [OF that(1,3)] that(2) keys unfolding stored_in_def by (metis distinct_map inj_onD)
    then show "\<forall>r \<in> set (db_events d'). \<forall>q \<in> set (db_events d').
        er_id q \<in> set (row_parents E r) \<longrightarrow> er_context q = er_context r"
      using facts(1) by simp
  qed
  have same_edges: "edges_of d' i = sort_key edge_ordinal (edges_of d i)" for i
    by (simp add: edges_of_def d'_def filter_sort)
  have events: "inv_events E d'"
    using rows_ok row(1) facts(1,4)
    by (simp add: inv_events_def row_audit_def same_edges)
  have head: "head_audit E d c i \<Longrightarrow> stored_in d i c" for c i
    using audited_stored [OF keys wires, of i] by (auto simp: head_audit_def stored_in_def)
  have refs: "inv_local d'" "inv_remote d'"
    using assms(2) head facts(5,6,8) by (auto simp: db_audit_def refs_audit_def inv_local_def inv_remote_def)
  have authors: "inv_authors d'"
    using assms facts(3,4)
    by (auto simp: schema_ok_db_def inv_authors_def db_audit_def context_audit_def)
  have "inv_roots E d'" using row(3) facts(1,3) by (simp add: inv_roots_def)
  moreover have "inv_contexts E d'"
    using audited_genesis [OF inv(1) assms(2)] facts(1,3) by (simp add: inv_contexts_def context_ok_def)
  moreover have "inv_edges d'" using assms(2) facts(2,7) by (simp add: db_audit_def inv_edges_def)
  moreover have "inv_types d'" using inv(2) facts(3,4) by (simp add: inv_types_def)
  ultimately have "store_inv E d'"
    using same_rows_keys [OF same inv(1)] first events refs authors by (simp add: store_inv_def)
  with same show ?thesis by blast
qed

section \<open>The report on an invariant store\<close>

definition too_large :: "env \<Rightarrow> db \<Rightarrow> projection_limits \<Rightarrow> context_id \<times> event_id \<Rightarrow> bool" where
  "too_large E d limits = (\<lambda>(c, head). pl_max_events limits < card (ancestry E d [head]) \<or>
     pl_max_wire_bytes limits < sum (store_wire_len E d) (ancestry E d [head]))"

definition limit_finding :: "context_id \<times> event_id \<Rightarrow> verification_finding" where
  "limit_finding = (\<lambda>(c, head). \<lparr>vf_category = ProjectionLimitFinding, vf_context = Some c,
     vf_event = Some head, vf_related = None\<rparr>)"

lemma ref_heads_stored:
  "store_inv E d \<Longrightarrow> (c, head) \<in> set (ref_heads d) \<Longrightarrow> stored_in d head c"
  by (auto simp: ref_heads_def store_inv_def inv_local_def inv_remote_def)

lemma project_head:
  assumes "store_inv E d" "validate_projection_limits limits = Inr ()" "stored_in d head c"
  shows "project_on E d c [head] limits = Inl ProjectionLimitExceeded \<and> too_large E d limits (c, head) \<or>
    is_ok (project_on E d c [head] limits) \<and> \<not> too_large E d limits (c, head)"
proof -
  have "projection_spec E d c limits [head] (project_on E d c [head] limits)"
    using assms by (intro project_on_spec) (simp_all add: MAX_BUNDLE_EVENTS_def)
  moreover have "stored_in d i c" if "i \<in> ancestry E d [head]" for i
    using ancestry_stored [OF assms(1) _ that] assms(3) by simp
  ultimately show ?thesis
    by (auto simp: projection_spec_def projection_refused_def exact_projection_def too_large_def
        dest: stored_in_has_event split: sum.splits)
qed

lemma verify_ref_head_exact:
  assumes "store_inv E d" "validate_projection_limits limits = Inr ()" "stored_in d (snd x) (fst x)"
  shows "verify_ref_head E d limits x f =
    push_if (too_large E d limits x) ProjectionLimitFinding (Some (fst x)) (Some (snd x)) None f"
proof (cases x)
  case (Pair c head)
  then show ?thesis
    using project_head [OF assms(1,2), of head c] assms(3)
    by (auto simp: verify_ref_head_def push_if_def is_ok_iff)
qed

lemma bounded_findings:
  assumes "\<forall>x \<in> set hs. \<forall>f. step x f =
      push_if (bad x) ProjectionLimitFinding (Some (fst x)) (Some (snd x)) None f"
    and "fi_values f = take (fi_max f) (map limit_finding ys)" "fi_truncated f = (fi_max f < length ys)"
  shows "fi_values (fold step hs f) = take (fi_max f) (map limit_finding (ys @ filter bad hs)) \<and>
    fi_truncated (fold step hs f) = (fi_max f < length (ys @ filter bad hs))"
  using assms
proof (induction hs arbitrary: f ys)
  case (Cons x hs)
  let ?f = "push_if (bad x) ProjectionLimitFinding (Some (fst x)) (Some (snd x)) None f"
  let ?ys = "if bad x then ys @ [x] else ys"
  have finding: "limit_finding x = \<lparr>vf_category = ProjectionLimitFinding, vf_context = Some (fst x),
      vf_event = Some (snd x), vf_related = None\<rparr>"
    by (simp add: limit_finding_def split_beta)
  have "fi_values ?f = take (fi_max ?f) (map limit_finding ?ys) \<and> fi_truncated ?f = (fi_max ?f < length ?ys)"
    using Cons.prems(2,3) finding by (auto simp: push_if_def push_finding_def)
  then have "fi_values (fold step hs ?f) = take (fi_max ?f) (map limit_finding (?ys @ filter bad hs)) \<and>
      fi_truncated (fold step hs ?f) = (fi_max ?f < length (?ys @ filter bad hs))"
    using Cons.prems(1) by (intro Cons.IH) auto
  moreover have "step x f = ?f" using Cons.prems(1) by simp
  ultimately show ?case by (cases "bad x") simp_all
qed simp

definition clean_report :: "env \<Rightarrow> db \<Rightarrow> verification_limits \<Rightarrow> verification_report" where
  "clean_report E d limits =
     (let large = filter (too_large E d (vl_projection limits)) (ref_heads d)
      in \<lparr>vr_valid = (large = []), vr_contexts = length (db_contexts d),
          vr_events = length (db_events d), vr_refs = length (db_local d) + length (db_remote d),
          vr_findings = take (vl_max_findings limits) (map limit_finding large),
          vr_truncated = (vl_max_findings limits < length large)\<rparr>)"

lemma verify_on_invariant:
  assumes "store_inv E d" "orders_lawful h" "vl_max_findings limits > 0"
    and "validate_projection_limits (vl_projection limits) = Inr ()"
  shows "verify_on E h True d limits = Inr (clean_report E d limits)"
proof -
  have keys: "inv_keys d" and rows: "\<forall>r \<in> set (db_events d). event_row_ok E r"
    using assms(1) by (auto simp: store_inv_def inv_events_def)
  obtain report where report: "verify_on E h True d limits = Inr report"
    using verify_on_total [OF rows] by blast
  obtain f where f: "report = report_of d (fold (verify_ref_head E d (vl_projection limits)) (ref_heads d) f)"
    "fi_max f = vl_max_findings limits" "clean f"
    using verify_on_shape [OF keys assms(2) report] store_inv_audit [OF assms(1)] by auto
  have step: "\<forall>x \<in> set (ref_heads d). \<forall>f. verify_ref_head E d (vl_projection limits) x f =
      push_if (too_large E d (vl_projection limits) x) ProjectionLimitFinding (Some (fst x)) (Some (snd x)) None f"
    using verify_ref_head_exact [OF assms(1,4)] ref_heads_stored [OF assms(1)] by fastforce
  have "fi_values f = take (fi_max f) (map limit_finding [])" "fi_truncated f = (fi_max f < length [])"
    using f(3) by (simp_all add: clean_def)
  from bounded_findings [OF step this] show ?thesis
    using assms(3) unfolding report f(1) report_of_def clean_report_def f(2) Let_def by auto
qed

end
