(* ===== verification/Store_Invocation.thy ===== *)
theory Store_Invocation
  imports Store_Queries "HOL-Library.Multiset"
begin

text \<open>
  The recovery queries of \<open>src/src/store/invocation.rs\<close>: the requests of a branch that no
  recorded result answers, and the recorded results a branch does not reach. The scan has a
  \<open>LIMIT\<close> but no \<open>ORDER BY\<close>, so the order in which the rows arrive is an argument, a
  permutation. On an invariant store the answer is exact, or a limit is reported.
\<close>

definition MAX_INVOCATION_QUERY_RESULTS :: nat where "MAX_INVOCATION_QUERY_RESULTS = 1024"

datatype invocation_kind = RequestInvocation | ResultInvocation

definition invocation_from_kind :: "string \<Rightarrow> invocation_kind option" where
  "invocation_from_kind kind =
     (if kind = ''agent.request'' then Some RequestInvocation
      else if kind = ''agent.response'' \<or> kind = ''agent.error'' then Some ResultInvocation
      else None)"

record invocation_row =
  iv_kind :: invocation_kind
  iv_event :: signed_event
  iv_on_branch :: bool
  iv_linked :: bool

text \<open>The rows the scan returns, in the order the database has them.\<close>

definition invocation_scan ::
  "(event_row list \<Rightarrow> event_row list) \<Rightarrow> db \<Rightarrow> context_id \<Rightarrow> event_row list" where
  "invocation_scan order d c =
     take (2 * MAX_INVOCATION_QUERY_RESULTS + 1)
       (order (filter (\<lambda>r. er_context r = c \<and>
          er_kind r \<in> {''agent.request'', ''agent.response'', ''agent.error''}) (db_events d)))"

definition parse_invocation ::
  "env \<Rightarrow> context_id \<Rightarrow> event_row \<Rightarrow> store_error + (invocation_kind \<times> signed_event)" where
  "parse_invocation E c r =
     bindR (map_err (\<lambda>_. CorruptStorage) (from_wire E (er_wire r))) (\<lambda>event.
     bindR (ok_or (invocation_from_kind (body_kind (ev_body event))) CorruptStorage) (\<lambda>kind.
       if body_context (ev_body event) \<noteq> c then Inl CorruptStorage else Inr (kind, event)))"

definition answered_by :: "(invocation_kind \<times> signed_event) list \<Rightarrow> event_id list" where
  "answered_by parsed =
     map (\<lambda>(_, event). hd (body_parents (ev_body event)))
       (filter (\<lambda>(kind, event). kind = ResultInvocation \<and> length (body_parents (ev_body event)) = 1) parsed)"

definition invocation_rows ::
  "env \<Rightarrow> (event_row list \<Rightarrow> event_row list) \<Rightarrow> db \<Rightarrow> context_id \<Rightarrow> string \<Rightarrow> invocation_kind \<Rightarrow>
    store_error + invocation_row list" where
  "invocation_rows E order d c branch scan =
     bindR (local_ref E d c branch) (\<lambda>found.
     bindR (ok_or found RefMissing) (\<lambda>head.
     bindR (project E d c [head] default_projection_limits) (\<lambda>projection.
     bindR (collectR (parse_invocation E c) (invocation_scan order d c)) (\<lambda>parsed.
       if length (filter (\<lambda>(kind, _). kind = scan) parsed) > MAX_INVOCATION_QUERY_RESULTS \<or>
          length parsed > 2 * MAX_INVOCATION_QUERY_RESULTS
       then Inl ProjectionLimitExceeded
       else Inr (map (\<lambda>(kind, event).
              \<lparr>iv_kind = kind, iv_event = event,
               iv_on_branch = (ev_id event \<in> set (map ev_id (proj_events projection))),
               iv_linked = (ev_id event \<in> set (answered_by parsed))\<rparr>) parsed)))))"

definition pending_invocations ::
  "env \<Rightarrow> (event_row list \<Rightarrow> event_row list) \<Rightarrow> db \<Rightarrow> context_id \<Rightarrow> string \<Rightarrow>
    store_error + signed_event list" where
  "pending_invocations E order d c branch =
     bindR (invocation_rows E order d c branch RequestInvocation) (\<lambda>rows.
       Inr (map iv_event (filter (\<lambda>r. iv_kind r = RequestInvocation \<and> \<not> iv_linked r) rows)))"

definition detached_results ::
  "env \<Rightarrow> (event_row list \<Rightarrow> event_row list) \<Rightarrow> db \<Rightarrow> context_id \<Rightarrow> string \<Rightarrow>
    store_error + signed_event list" where
  "detached_results E order d c branch =
     bindR (invocation_rows E order d c branch ResultInvocation) (\<lambda>rows.
       Inr (map iv_event (filter (\<lambda>r. iv_kind r = ResultInvocation \<and> \<not> iv_on_branch r) rows)))"

section \<open>The bound of the answers\<close>

lemma invocation_rows_bound:
  "invocation_rows E order d c branch scan = Inr rows \<Longrightarrow>
    length (filter (\<lambda>r. iv_kind r = scan \<and> P r) rows) \<le> MAX_INVOCATION_QUERY_RESULTS"
proof -
  assume "invocation_rows E order d c branch scan = Inr rows"
  then have "length (filter (\<lambda>r. iv_kind r = scan) rows) \<le> MAX_INVOCATION_QUERY_RESULTS"
    by (auto simp: invocation_rows_def bindR_Inr_iff filter_map comp_def case_prod_unfold split: if_splits)
  moreover have "filter (\<lambda>r. iv_kind r = scan \<and> P r) rows = filter P (filter (\<lambda>r. iv_kind r = scan) rows)"
    by simp
  ultimately show ?thesis using length_filter_le [of P] order_trans by metis
qed

lemma invocations_bound:
  "pending_invocations E order d c branch = Inr events \<Longrightarrow> length events \<le> MAX_INVOCATION_QUERY_RESULTS"
  "detached_results E order d c branch = Inr events \<Longrightarrow> length events \<le> MAX_INVOCATION_QUERY_RESULTS"
  by (auto simp: pending_invocations_def detached_results_def bindR_Inr_iff intro: invocation_rows_bound)

section \<open>What the queries return\<close>

definition permuting :: "('a list \<Rightarrow> 'a list) \<Rightarrow> bool" where
  "permuting order \<longleftrightarrow> (\<forall>xs. mset (order xs) = mset xs)"

definition recorded :: "env \<Rightarrow> db \<Rightarrow> context_id \<Rightarrow> string set \<Rightarrow> signed_event set" where
  "recorded E d c kinds = {ev. lookup_event E d (ev_id ev) = Some ev \<and> event_context ev = c \<and>
     body_kind (ev_body ev) \<in> kinds}"

definition answers :: "signed_event \<Rightarrow> event_id \<Rightarrow> bool" where
  "answers ev i \<longleftrightarrow> event_parents ev = [i]"

lemma permutingD:
  assumes "permuting order"
  shows "set (order xs) = set xs" "length (order xs) = length xs"
    "distinct (map f (order xs)) = distinct (map f xs)"
proof -
  have m: "mset (order xs) = mset xs" using assms by (simp add: permuting_def)
  then show "set (order xs) = set xs" "length (order xs) = length xs"
    by (metis mset_eq_setD, metis mset_eq_length)
  show "distinct (map f (order xs)) = distinct (map f xs)"
    using m by (intro mset_eq_imp_distinct_iff) simp
qed

lemma recorded_row:
  assumes "store_inv E d" "r \<in> set (db_events d)" "lookup_event E d (er_id r) = Some ev"
  shows "ev \<in> recorded E d c kinds \<longleftrightarrow> er_context r = c \<and> er_kind r \<in> kinds"
proof -
  obtain ev' where "lookup_event E d (er_id r) = Some ev'" "ev_id ev' = er_id r"
    "event_context ev' = er_context r" "body_kind (ev_body ev') = er_kind r"
    by (rule lookup_event_row [OF assms(1,2)])
  then show ?thesis using assms(3) by (auto simp: recorded_def)
qed

definition invocation_kinds :: "string set" where
  "invocation_kinds = {''agent.request'', ''agent.response'', ''agent.error''}"

lemma parse_invocation_row:
  assumes "store_inv E d" "r \<in> set (db_events d)" "er_context r = c" "er_kind r \<in> invocation_kinds"
  obtains k ev where "parse_invocation E c r = Inr (k, ev)" "lookup_event E d (er_id r) = Some ev"
    "ev_id ev = er_id r" "invocation_from_kind (er_kind r) = Some k"
    "body_kind (ev_body ev) = er_kind r"
proof -
  obtain ev where ev: "lookup_event E d (er_id r) = Some ev" "from_wire E (er_wire r) = Inr ev"
    "ev_id ev = er_id r" "event_context ev = er_context r" "body_kind (ev_body ev) = er_kind r"
    by (rule lookup_event_row [OF assms(1,2)])
  obtain k where k: "invocation_from_kind (er_kind r) = Some k"
    using assms(4) by (auto simp: invocation_kinds_def invocation_from_kind_def)
  show thesis
    using that [OF _ ev(1,3) k ev(5)] ev k assms(3)
    by (simp add: parse_invocation_def event_context_def)
qed

lemma parse_invocations:
  assumes "store_inv E d" "set rows \<subseteq> set (db_events d)"
    and "\<forall>r \<in> set rows. er_context r = c \<and> er_kind r \<in> invocation_kinds"
  shows "\<exists>parsed. collectR (parse_invocation E c) rows = Inr parsed \<and> length parsed = length rows \<and>
    map (ev_id \<circ> snd) parsed = map er_id rows \<and>
    (\<forall>(k, ev) \<in> set parsed. lookup_event E d (ev_id ev) = Some ev \<and>
      invocation_from_kind (body_kind (ev_body ev)) = Some k)"
  using assms(2,3)
proof (induction rows)
  case (Cons r rows)
  then have r: "r \<in> set (db_events d)" "er_context r = c" "er_kind r \<in> invocation_kinds" by auto
  from parse_invocation_row [OF assms(1) r] obtain k ev where
    "parse_invocation E c r = Inr (k, ev)" "lookup_event E d (er_id r) = Some ev" "ev_id ev = er_id r"
    "invocation_from_kind (body_kind (ev_body ev)) = Some k" by metis
  with Cons show ?case by auto
qed simp

text \<open>A scan that stays below the limit has seen every recorded invocation of the context.\<close>

lemma full_scan:
  assumes "store_inv E d" "permuting order"
    and "invocation_rows E order d c branch scan = Inr rows"
  obtains parsed projection head where
    "rows = map (\<lambda>(kind, event). \<lparr>iv_kind = kind, iv_event = event,
       iv_on_branch = (ev_id event \<in> set (map ev_id (proj_events projection))),
       iv_linked = (ev_id event \<in> set (answered_by parsed))\<rparr>) parsed"
    "local_ref E d c branch = Inr (Some head)"
    "project E d c [head] default_projection_limits = Inr projection"
    "distinct (map (ev_id \<circ> snd) parsed)"
    "set parsed = {(k, ev). ev \<in> recorded E d c invocation_kinds \<and>
       invocation_from_kind (body_kind (ev_body ev)) = Some k}"
proof -
  obtain head projection parsed where run: "local_ref E d c branch = Inr (Some head)"
    "project E d c [head] default_projection_limits = Inr projection"
    "collectR (parse_invocation E c) (invocation_scan order d c) = Inr parsed"
    "length parsed \<le> 2 * MAX_INVOCATION_QUERY_RESULTS"
    "rows = map (\<lambda>(kind, event). \<lparr>iv_kind = kind, iv_event = event,
       iv_on_branch = (ev_id event \<in> set (map ev_id (proj_events projection))),
       iv_linked = (ev_id event \<in> set (answered_by parsed))\<rparr>) parsed"
    using assms(3) by (auto simp: invocation_rows_def bindR_Inr_iff split: if_splits)
  define wanted where "wanted = filter (\<lambda>r. er_context r = c \<and> er_kind r \<in> invocation_kinds) (db_events d)"
  have "length (invocation_scan order d c) \<le> 2 * MAX_INVOCATION_QUERY_RESULTS"
    using run(3,4) collectR_length by metis
  then have scan: "invocation_scan order d c = order wanted"
    by (auto simp: invocation_scan_def wanted_def invocation_kinds_def min_def split: if_splits)
  have rows: "set (order wanted) = set wanted" by (rule permutingD(1) [OF assms(2)])
  have "set (order wanted) \<subseteq> set (db_events d)"
    "\<forall>r \<in> set (order wanted). er_context r = c \<and> er_kind r \<in> invocation_kinds"
    unfolding rows by (auto simp: wanted_def)
  from parse_invocations [OF assms(1) this]
  obtain parsed' where "collectR (parse_invocation E c) (order wanted) = Inr parsed'"
    and ids: "map (ev_id \<circ> snd) parsed' = map er_id (order wanted)"
    and looked: "\<forall>(k, ev) \<in> set parsed'. lookup_event E d (ev_id ev) = Some ev \<and>
      invocation_from_kind (body_kind (ev_body ev)) = Some k"
    by blast
  then have parsed: "parsed' = parsed" using run(3) scan by simp
  have "distinct (map er_id wanted)"
    using inv_distinct_events [OF assms(1)] by (simp add: wanted_def distinct_map_filter)
  then have "distinct (map (ev_id \<circ> snd) parsed)"
    using ids parsed permutingD(3) [OF assms(2), of er_id wanted] by simp
  moreover have "set parsed = {(k, ev). ev \<in> recorded E d c invocation_kinds \<and>
       invocation_from_kind (body_kind (ev_body ev)) = Some k}"
  proof -
    have keys: "(ev_id \<circ> snd) ` set parsed = er_id ` set wanted"
      using ids parsed rows by (metis list.set_map)
    have row: "r \<in> set wanted \<longleftrightarrow> ev \<in> recorded E d c invocation_kinds"
      if "r \<in> set (db_events d)" "lookup_event E d (er_id r) = Some ev" for r ev
      using recorded_row [OF assms(1) that] that by (simp add: wanted_def)
    have one: "x \<in> set parsed \<Longrightarrow> snd x \<in> recorded E d c invocation_kinds \<and>
        invocation_from_kind (body_kind (ev_body (snd x))) = Some (fst x)" for x
    proof -
      assume x: "x \<in> set parsed"
      then obtain r where r: "r \<in> set wanted" "ev_id (snd x) = er_id r" using keys by force
      have look: "lookup_event E d (ev_id (snd x)) = Some (snd x)"
        "invocation_from_kind (body_kind (ev_body (snd x))) = Some (fst x)"
        using bspec [OF looked, of x] parsed x by (simp_all add: case_prod_beta)
      have "r \<in> set (db_events d)" using r(1) by (simp add: wanted_def)
      then show ?thesis using row [of r "snd x"] r look by simp
    qed
    have "(k, ev) \<in> set parsed" if ev: "ev \<in> recorded E d c invocation_kinds"
      and k: "invocation_from_kind (body_kind (ev_body ev)) = Some k" for k ev
    proof -
      have look: "lookup_event E d (ev_id ev) = Some ev" using ev by (simp add: recorded_def)
      obtain r where r: "r \<in> set (db_events d)" "er_id r = ev_id ev"
        by (rule lookup_eventE [OF assms(1) look])
      then have "r \<in> set wanted" using row [of r ev] look ev by simp
      then have "ev_id ev \<in> (ev_id \<circ> snd) ` set parsed" unfolding keys r(2) [symmetric] by (rule imageI)
      then obtain x where x: "x \<in> set parsed" "ev_id (snd x) = ev_id ev" by auto
      have "lookup_event E d (ev_id (snd x)) = Some (snd x)" using one [OF x(1)] by (simp add: recorded_def)
      then have "snd x = ev" using look x(2) by (metis option.inject)
      then show ?thesis using one [OF x(1)] k x(1) by (cases x) simp
    qed
    note stored = this
    show ?thesis
    proof (intro set_eqI iffI)
      fix x assume "x \<in> set parsed"
      then show "x \<in> {(k, ev). ev \<in> recorded E d c invocation_kinds \<and>
          invocation_from_kind (body_kind (ev_body ev)) = Some k}"
        using one [of x] by (simp add: case_prod_beta)
    next
      fix x assume "x \<in> {(k, ev). ev \<in> recorded E d c invocation_kinds \<and>
          invocation_from_kind (body_kind (ev_body ev)) = Some k}"
      then show "x \<in> set parsed" using stored by (cases x) simp
    qed
  qed
  ultimately show thesis using that [OF run(5,1,2)] by blast
qed

lemma invocation_kind_iff:
  "invocation_from_kind k = Some RequestInvocation \<longleftrightarrow> k = ''agent.request''"
  "invocation_from_kind k = Some ResultInvocation \<longleftrightarrow> k \<in> {''agent.response'', ''agent.error''}"
  by (auto simp: invocation_from_kind_def)

lemma recorded_kinds:
  "{ev \<in> recorded E d c invocation_kinds. invocation_from_kind (body_kind (ev_body ev)) = Some RequestInvocation} =
    recorded E d c {''agent.request''}"
  "{ev \<in> recorded E d c invocation_kinds. invocation_from_kind (body_kind (ev_body ev)) = Some ResultInvocation} =
    recorded E d c {''agent.response'', ''agent.error''}"
  unfolding invocation_kind_iff by (auto simp: recorded_def invocation_kinds_def)

lemma answered_iff:
  assumes "set parsed = {(k, ev). ev \<in> recorded E d c invocation_kinds \<and>
       invocation_from_kind (body_kind (ev_body ev)) = Some k}"
  shows "i \<in> set (answered_by parsed) \<longleftrightarrow>
    (\<exists>res \<in> recorded E d c {''agent.response'', ''agent.error''}. answers res i)"
proof -
  have "i \<in> set (answered_by parsed) \<longleftrightarrow>
      (\<exists>res \<in> {ev. (ResultInvocation, ev) \<in> set parsed}. answers res i)"
    by (force simp: answered_by_def answers_def event_parents_def length_Suc_conv)
  also have "{ev. (ResultInvocation, ev) \<in> set parsed} = recorded E d c {''agent.response'', ''agent.error''}"
    unfolding recorded_kinds(2) [symmetric] assms by auto
  finally show ?thesis .
qed

lemma chosen_rows:
  assumes "distinct (map (ev_id \<circ> snd) parsed)"
  shows "distinct (map ev_id (map snd (filter p parsed)))"
  using assms by (simp add: distinct_map_filter)

lemma pending_exact:
  assumes "store_inv E d" "permuting order" "pending_invocations E order d c branch = Inr events"
  shows "distinct (map ev_id events)"
    and "set events = {ev \<in> recorded E d c {''agent.request''}.
      \<not> (\<exists>res \<in> recorded E d c {''agent.response'', ''agent.error''}. answers res (ev_id ev))}"
proof -
  obtain rows where rows: "invocation_rows E order d c branch RequestInvocation = Inr rows"
    "events = map iv_event (filter (\<lambda>r. iv_kind r = RequestInvocation \<and> \<not> iv_linked r) rows)"
    using assms(3) by (auto simp: pending_invocations_def bindR_Inr_iff)
  obtain parsed projection head where parsed:
    "rows = map (\<lambda>(kind, event). \<lparr>iv_kind = kind, iv_event = event,
       iv_on_branch = (ev_id event \<in> set (map ev_id (proj_events projection))),
       iv_linked = (ev_id event \<in> set (answered_by parsed))\<rparr>) parsed"
    "local_ref E d c branch = Inr (Some head)"
    "project E d c [head] default_projection_limits = Inr projection"
    "distinct (map (ev_id \<circ> snd) parsed)"
    "set parsed = {(k, ev). ev \<in> recorded E d c invocation_kinds \<and>
       invocation_from_kind (body_kind (ev_body ev)) = Some k}"
    by (rule full_scan [OF assms(1,2) rows(1)])
  have events: "events = map snd (filter (\<lambda>x. fst x = RequestInvocation \<and>
      ev_id (snd x) \<notin> set (answered_by parsed)) parsed)"
    unfolding rows(2) parsed(1) by (simp add: filter_map comp_def split_beta)
  show "distinct (map ev_id events)" unfolding events by (rule chosen_rows [OF parsed(4)])
  have "set events = {ev. (RequestInvocation, ev) \<in> set parsed \<and> ev_id ev \<notin> set (answered_by parsed)}"
    unfolding events by force
  then show "set events = {ev \<in> recorded E d c {''agent.request''}.
      \<not> (\<exists>res \<in> recorded E d c {''agent.response'', ''agent.error''}. answers res (ev_id ev))}"
    unfolding recorded_kinds(1) [symmetric] answered_iff [OF parsed(5)] parsed(5) by auto
qed

lemma detached_exact:
  assumes "store_inv E d" "permuting order" "detached_results E order d c branch = Inr events"
    and "local_ref E d c branch = Inr (Some head)"
  shows "distinct (map ev_id events)"
    and "set events = {ev \<in> recorded E d c {''agent.response'', ''agent.error''}.
      ev_id ev \<notin> ancestry E d [head]}"
proof -
  obtain rows where rows: "invocation_rows E order d c branch ResultInvocation = Inr rows"
    "events = map iv_event (filter (\<lambda>r. iv_kind r = ResultInvocation \<and> \<not> iv_on_branch r) rows)"
    using assms(3) by (auto simp: detached_results_def bindR_Inr_iff)
  obtain parsed projection head' where parsed:
    "rows = map (\<lambda>(kind, event). \<lparr>iv_kind = kind, iv_event = event,
       iv_on_branch = (ev_id event \<in> set (map ev_id (proj_events projection))),
       iv_linked = (ev_id event \<in> set (answered_by parsed))\<rparr>) parsed"
    "local_ref E d c branch = Inr (Some head')"
    "project E d c [head'] default_projection_limits = Inr projection"
    "distinct (map (ev_id \<circ> snd) parsed)"
    "set parsed = {(k, ev). ev \<in> recorded E d c invocation_kinds \<and>
       invocation_from_kind (body_kind (ev_body ev)) = Some k}"
    by (rule full_scan [OF assms(1,2) rows(1)])
  have head: "head' = head" using parsed(2) assms(4) by simp
  have branch: "set (map ev_id (proj_events projection)) = ancestry E d [head]"
    using project_spec [OF assms(1) valid_default_limits, of "[head]" c] parsed(3)
    by (simp add: head exact_projection_def MAX_PROJECTION_HEADS_def)
  have events: "events = map snd (filter (\<lambda>x. fst x = ResultInvocation \<and>
      ev_id (snd x) \<notin> set (map ev_id (proj_events projection))) parsed)"
    unfolding rows(2) parsed(1) by (simp add: filter_map comp_def split_beta)
  show "distinct (map ev_id events)" unfolding events by (rule chosen_rows [OF parsed(4)])
  have "set events = {ev. (ResultInvocation, ev) \<in> set parsed \<and> ev_id ev \<notin> ancestry E d [head]}"
    unfolding events branch by force
  then show "set events = {ev \<in> recorded E d c {''agent.response'', ''agent.error''}.
      ev_id ev \<notin> ancestry E d [head]}"
    unfolding recorded_kinds(2) [symmetric] parsed(5) by auto
qed

text \<open>The only reasons to refuse: no such branch, its projection, or too many invocations.\<close>

definition invocation_count :: "db \<Rightarrow> context_id \<Rightarrow> nat" where
  "invocation_count d c =
     length (filter (\<lambda>r. er_context r = c \<and> er_kind r \<in> invocation_kinds) (db_events d))"

definition invocations_refused :: "env \<Rightarrow> db \<Rightarrow> context_id \<Rightarrow> string \<Rightarrow> store_error \<Rightarrow> bool" where
  "invocations_refused E d c branch e \<longleftrightarrow>
     (local_view d (c, branch) = None \<and> e = RefMissing) \<or>
     (\<exists>head. local_view d (c, branch) = Some head \<and>
        project E d c [head] default_projection_limits = Inl e) \<or>
     (MAX_INVOCATION_QUERY_RESULTS < invocation_count d c \<and> e = ProjectionLimitExceeded)"

definition branch_reach :: "env \<Rightarrow> db \<Rightarrow> context_id \<Rightarrow> string \<Rightarrow> event_id set" where
  "branch_reach E d c branch =
     (case local_view d (c, branch) of None \<Rightarrow> {} | Some head \<Rightarrow> ancestry E d [head])"

lemma invocation_scan_rows:
  assumes "permuting order"
  shows "set (invocation_scan order d c) \<subseteq> {r \<in> set (db_events d). er_context r = c \<and> er_kind r \<in> invocation_kinds}"
    and "length (invocation_scan order d c) \<le> invocation_count d c"
  using permutingD(1,2) [OF assms, of "filter (\<lambda>r. er_context r = c \<and>
      er_kind r \<in> {''agent.request'', ''agent.response'', ''agent.error''}) (db_events d)"]
  unfolding invocation_scan_def invocation_count_def invocation_kinds_def
  by (auto dest: in_set_takeD)

lemma invocation_rows_Inl:
  assumes "store_inv E d" "permuting order" "invocation_rows E order d c branch scan = Inl e"
  shows "invocations_refused E d c branch e"
proof -
  have "set (invocation_scan order d c) \<subseteq> set (db_events d)"
    "\<forall>r \<in> set (invocation_scan order d c). er_context r = c \<and> er_kind r \<in> invocation_kinds"
    using invocation_scan_rows(1) [OF assms(2), of d c] by auto
  from parse_invocations [OF assms(1) this] obtain parsed where
    parsed: "collectR (parse_invocation E c) (invocation_scan order d c) = Inr parsed"
    "length parsed = length (invocation_scan order d c)" by blast
  show ?thesis
  proof (cases "local_view d (c, branch)")
    case None
    then show ?thesis using assms(3)
      by (simp add: invocation_rows_def local_ref_view [OF assms(1)] invocations_refused_def)
  next
    case (Some head)
    show ?thesis
    proof (cases "project E d c [head] default_projection_limits")
      case (Inl e')
      then show ?thesis using assms(3) Some
        by (simp add: invocation_rows_def local_ref_view [OF assms(1)] invocations_refused_def)
    next
      case (Inr projection)
      have "e = ProjectionLimitExceeded"
        "MAX_INVOCATION_QUERY_RESULTS < length (filter (\<lambda>(kind, _). kind = scan) parsed) \<or>
          2 * MAX_INVOCATION_QUERY_RESULTS < length parsed"
        using assms(3) Some Inr parsed(1)
        by (auto simp: invocation_rows_def local_ref_view [OF assms(1)] split: if_splits)
      moreover have "length (filter (\<lambda>(kind, _). kind = scan) parsed) \<le> length parsed" by simp
      ultimately show ?thesis
        using invocation_scan_rows(2) [OF assms(2), of d c] parsed(2)
        by (auto simp: invocations_refused_def)
    qed
  qed
qed

lemma pending_result:
  assumes "store_inv E d" "permuting order"
  shows "case pending_invocations E order d c branch of
      Inl e \<Rightarrow> invocations_refused E d c branch e
    | Inr events \<Rightarrow> distinct (map ev_id events) \<and>
        set events = {ev \<in> recorded E d c {''agent.request''}.
          \<not> (\<exists>res \<in> recorded E d c {''agent.response'', ''agent.error''}. answers res (ev_id ev))}"
proof (cases "pending_invocations E order d c branch")
  case (Inl e)
  then have "invocation_rows E order d c branch RequestInvocation = Inl e"
    by (auto simp: pending_invocations_def bindR_Inl_iff)
  then show ?thesis using Inl invocation_rows_Inl [OF assms] by simp
qed (use pending_exact [OF assms] in simp)

lemma detached_result:
  assumes "store_inv E d" "permuting order"
  shows "case detached_results E order d c branch of
      Inl e \<Rightarrow> invocations_refused E d c branch e
    | Inr events \<Rightarrow> distinct (map ev_id events) \<and>
        set events = {ev \<in> recorded E d c {''agent.response'', ''agent.error''}.
          ev_id ev \<notin> branch_reach E d c branch}"
proof (cases "detached_results E order d c branch")
  case (Inl e)
  then have "invocation_rows E order d c branch ResultInvocation = Inl e"
    by (auto simp: detached_results_def bindR_Inl_iff)
  then show ?thesis using Inl invocation_rows_Inl [OF assms] by simp
next
  case (Inr events)
  obtain head where head: "local_view d (c, branch) = Some head"
    using Inr local_ref_view [OF assms(1)]
    by (cases "local_view d (c, branch)") (auto simp: detached_results_def invocation_rows_def)
  then show ?thesis
    using detached_exact [OF assms Inr, of head] local_ref_view [OF assms(1), of c branch]
    by (simp add: Inr branch_reach_def)
qed

end
