(* ===== verification/Selection.thy ===== *)
theory Selection
  imports Receipt
begin

text \<open>
  Task-conditioned source selection, \<open>src/src/selection.rs\<close>, and the context compiler,
  \<open>src/src/compiler.rs\<close>: the read-only view of an event, the baseline lexical selector, the
  budget and \<open>select_sources\<close> with its edge cases. Text is UTF-8 bytes; the tokenizer only
  looks at ASCII characters, so it reads bytes as the program reads characters. Any other
  selector is an argument.
\<close>

section \<open>Limits and errors\<close>

definition MAX_SELECTION_CANDIDATES :: nat where "MAX_SELECTION_CANDIDATES = 65536"
definition MAX_SELECTED_EVENTS :: nat where "MAX_SELECTED_EVENTS = 4096"
definition MAX_SELECTED_BYTES :: nat where "MAX_SELECTED_BYTES = 2097152"
definition NO_SOURCES_NOTE :: string where "NO_SOURCES_NOTE = ''no sources in context history''"
definition NO_MATCH_NOTE :: string where "NO_MATCH_NOTE = ''no source matches the task''"
definition BASELINE_IDENTITY :: string where "BASELINE_IDENTITY = ''ob-baseline-lexical-tf''"
definition BASELINE_VERSION :: string where "BASELINE_VERSION = ''0.1.0''"
definition BASELINE_CONFIG :: bytes where "BASELINE_CONFIG = string_bytes ''{}''"

datatype selection_error =
    EmptyTask | InvalidTask | BudgetExceeded | UnverifiableSelection | TooManyCandidates
  | SelectorFailed

record selection_budget =
  max_selected_events :: nat
  max_budget_bytes :: nat

definition default_selection_budget :: selection_budget where
  "default_selection_budget =
     \<lparr>max_selected_events = MAX_SELECTED_EVENTS, max_budget_bytes = MAX_SELECTED_BYTES\<rparr>"

datatype selection_marker = NoSources | NoMatch

section \<open>Sources\<close>

record source_event =
  src_event :: event_id
  src_context :: context_id
  src_kind :: string
  src_author :: author_id
  src_payload :: json
  src_text :: string
  src_bytes :: nat

definition bytes_string :: "bytes \<Rightarrow> string" where
  "bytes_string b = map (\<lambda>w. char_of (unat w)) b"

definition source_from_signed :: "env \<Rightarrow> signed_event \<Rightarrow> selection_error + source_event" where
  "source_from_signed E event =
     bindR (map_err (\<lambda>_. UnverifiableSelection) (canonical_payload_bytes E (body_payload (ev_body event)))) (\<lambda>payload.
       Inr \<lparr>src_event = ev_id event, src_context = body_context (ev_body event),
            src_kind = body_kind (ev_body event), src_author = body_author (ev_body event),
            src_payload = body_payload (ev_body event), src_text = bytes_string payload,
            src_bytes = length payload\<rparr>)"

record source_reference =
  sr_event :: event_id
  sr_context :: context_id
  sr_kind :: string
  sr_author :: author_id
  sr_bytes :: nat

definition reference_from_source :: "source_event \<Rightarrow> source_reference" where
  "reference_from_source s =
     \<lparr>sr_event = src_event s, sr_context = src_context s, sr_kind = src_kind s,
      sr_author = src_author s, sr_bytes = src_bytes s\<rparr>"

section \<open>The baseline selector\<close>

definition is_ascii_alphanumeric :: "char \<Rightarrow> bool" where
  "is_ascii_alphanumeric c \<longleftrightarrow> is_ascii_lowercase c \<or> is_ascii_uppercase c \<or> is_ascii_digit c"

definition to_ascii_lowercase :: "char \<Rightarrow> char" where
  "to_ascii_lowercase c = (if is_ascii_uppercase c then char_of (of_char c + (32 :: nat)) else c)"

text \<open>\<open>current\<close> is the term being read; \<open>tokens\<close> those finished.\<close>

fun tokenize_loop :: "string \<Rightarrow> string \<Rightarrow> string list \<Rightarrow> string list" where
  "tokenize_loop [] current tokens = (if current \<noteq> [] then tokens @ [current] else tokens)"
| "tokenize_loop (ch # text) current tokens =
     (if is_ascii_alphanumeric ch then tokenize_loop text (current @ [to_ascii_lowercase ch]) tokens
      else if current \<noteq> [] then tokenize_loop text [] (tokens @ [current])
      else tokenize_loop text current tokens)"

definition tokenize :: "string \<Rightarrow> string list" where
  "tokenize text = tokenize_loop text [] []"

definition score_source :: "string list \<Rightarrow> source_event \<Rightarrow> nat" where
  "score_source task_terms source =
     (let tokens = tokenize (src_kind source @ '' '' @ src_text source)
      in sum_list (map (\<lambda>t. length (filter (\<lambda>token. token = t) tokens)) task_terms))"

record selector =
  sl_identity :: string
  sl_version :: string
  sl_config_hash :: string
  sl_select :: "task_record \<Rightarrow> source_event list \<Rightarrow> selection_error + source_reference list"

text \<open>Best score first, ties by the text of the identifier: two stable sorts.\<close>

definition baseline_rank :: "env \<Rightarrow> string list \<Rightarrow> source_event list \<Rightarrow> (nat \<times> source_event) list" where
  "baseline_rank E task_terms sources =
     sort_key (\<lambda>(score, _). - int score)
       (sort_key (\<lambda>(_, source). event_id_text E (src_event source))
         (map (\<lambda>source. (score_source task_terms source, source)) sources))"

definition baseline_select ::
  "env \<Rightarrow> task_record \<Rightarrow> source_event list \<Rightarrow> selection_error + source_reference list" where
  "baseline_select E task sources =
     (let task_terms = tokenize (task_verbatim task)
      in if task_terms = [] then Inl EmptyTask
         else Inr (map (\<lambda>(_, source). reference_from_source source)
                (filter (\<lambda>(score, _). score > 0) (baseline_rank E task_terms sources))))"

definition baseline_selector :: "env \<Rightarrow> string \<Rightarrow> selector" where
  "baseline_selector E version =
     \<lparr>sl_identity = BASELINE_IDENTITY, sl_version = version,
      sl_config_hash = task_content_hash E BASELINE_CONFIG, sl_select = baseline_select E\<rparr>"

section \<open>The context compiler\<close>

record compiled_context =
  cc_references :: "source_reference list"
  cc_budget :: selection_budget
  cc_total_bytes :: nat

definition compile_context ::
  "source_reference list \<Rightarrow> selection_budget \<Rightarrow> selection_error + compiled_context" where
  "compile_context references budget =
     (if length references > MAX_SELECTED_EVENTS \<or> length references > max_selected_events budget
      then Inl BudgetExceeded
      else let total_bytes = sum_list (map sr_bytes references)
        in if total_bytes > MAX_SELECTED_BYTES \<or> total_bytes > max_budget_bytes budget
           then Inl BudgetExceeded
           else Inr \<lparr>cc_references = references, cc_budget = budget, cc_total_bytes = total_bytes\<rparr>)"

section \<open>Selection\<close>

record selection_result =
  sn_context :: compiled_context
  sn_marker :: "selection_marker option"
  sn_uncertainty :: "string list"
  sn_selector :: selector_record

text \<open>The Unicode white space of \<open>str::trim\<close>, as UTF-8.\<close>

definition white_space :: "nat list list" where
  "white_space =
     [[9], [10], [11], [12], [13], [32], [0xC2, 0x85], [0xC2, 0xA0], [0xE1, 0x9A, 0x80],
      [0xE2, 0x80, 0xA8], [0xE2, 0x80, 0xA9], [0xE2, 0x80, 0xAF], [0xE2, 0x81, 0x9F], [0xE3, 0x80, 0x80]] @
     map (\<lambda>n. [0xE2, 0x80, n]) [0x80 ..< 0x8B]"

definition white_prefix :: "nat list \<Rightarrow> nat list option" where
  "white_prefix text = find (\<lambda>w. take (length w) text = w) white_space"

fun all_white_fuel :: "nat \<Rightarrow> nat list \<Rightarrow> bool" where
  "all_white_fuel fuel [] = True"
| "all_white_fuel 0 (_ # _) = False"
| "all_white_fuel (Suc fuel) text =
     (case white_prefix text of None \<Rightarrow> False | Some w \<Rightarrow> all_white_fuel fuel (drop (length w) text))"

text \<open>\<open>trim().is_empty()\<close>: every step drops at least one byte, so the length is fuel enough.\<close>

definition trims_to_empty :: "string \<Rightarrow> bool" where
  "trims_to_empty text = all_white_fuel (length text) (map of_char text)"

definition load_source :: "env \<Rightarrow> db \<Rightarrow> event_id \<Rightarrow> selection_error + source_event" where
  "load_source E d i =
     (case store_event E d i of
        Inr (Some event) \<Rightarrow> source_from_signed E event
      | Inr None \<Rightarrow> Inl UnverifiableSelection
      | Inl _ \<Rightarrow> Inl SelectorFailed)"

definition select_sources ::
  "env \<Rightarrow> db \<Rightarrow> string \<Rightarrow> json option \<Rightarrow> selection_budget \<Rightarrow> selector \<Rightarrow> event_id list \<Rightarrow>
    selection_error + selection_result" where
  "select_sources E d task_text structured budget selector candidates =
     (if trims_to_empty task_text then Inl EmptyTask
      else bindR (map_err (\<lambda>_. InvalidTask) (task_from_verbatim E task_text structured)) (\<lambda>task.
        let candidates = sort_dedup (event_id_text E) candidates
        in if length candidates > MAX_SELECTION_CANDIDATES then Inl TooManyCandidates
           else bindR (map_err (\<lambda>_. SelectorFailed)
                  (selector_new (sl_identity selector) (sl_version selector) (sl_config_hash selector))) (\<lambda>provenance.
             if candidates = [] then
               bindR (compile_context [] budget) (\<lambda>context.
                 Inr \<lparr>sn_context = context, sn_marker = Some NoSources, sn_uncertainty = [NO_SOURCES_NOTE],
                      sn_selector = provenance\<rparr>)
             else
               bindR (collectR (load_source E d) candidates) (\<lambda>sources.
               bindR (sl_select selector task sources) (\<lambda>ranked.
               bindR (compile_context ranked budget) (\<lambda>context.
                 Inr \<lparr>sn_context = context,
                      sn_marker = (if ranked = [] then Some NoMatch else None),
                      sn_uncertainty = (if ranked = [] then [NO_MATCH_NOTE] else []),
                      sn_selector = provenance\<rparr>))))))"

end
