(* ===== verification/Closure.thy ===== *)
theory Closure
  imports Selection Dag_Walk "HOL-Library.Product_Lexorder"
begin

text \<open>
  Dependency closure and critical coverage, \<open>src/src/closure.rs\<close>: the pure closure of a list of
  nodes, the strict walk that loads the ancestors of the selected events, and \<open>close_selection\<close>.
  The same walk derives a recipient's known history in \<open>src/src/delta.rs\<close>, which reports its own
  errors, so the errors are a parameter of the walk.
\<close>

section \<open>Limits and errors\<close>

definition MAX_CLOSURE_EVENTS :: nat where "MAX_CLOSURE_EVENTS = 100000"
definition MAX_CLOSURE_BYTES :: nat where "MAX_CLOSURE_BYTES = 67108864"
definition MAX_CLOSURE_CANDIDATES :: nat where "MAX_CLOSURE_CANDIDATES = 65536"
definition MAX_CRITICAL_KINDS :: nat where "MAX_CRITICAL_KINDS = 64"

datatype closure_error =
    UnverifiableClosure event_id | DanglingClosure event_id event_id | WrongClosureContext event_id
  | ClosureCycle | ClosureLimit | InvalidPolicy | ClosureStore store_error | ClosureInternal

record closure_limits =
  cl_max_events :: nat
  cl_max_bytes :: nat

definition closure_limits_new :: "nat \<Rightarrow> nat \<Rightarrow> closure_error + closure_limits" where
  "closure_limits_new max_events max_bytes =
     (if max_events = 0 \<or> max_events > MAX_CLOSURE_EVENTS \<or> max_bytes = 0 \<or> max_bytes > MAX_CLOSURE_BYTES
      then Inl ClosureLimit
      else Inr \<lparr>cl_max_events = max_events, cl_max_bytes = max_bytes\<rparr>)"

definition default_closure_limits :: closure_limits where
  "default_closure_limits = \<lparr>cl_max_events = MAX_CLOSURE_EVENTS, cl_max_bytes = MAX_CLOSURE_BYTES\<rparr>"

section \<open>The critical policy\<close>

datatype critical_policy = CriticalPolicy "string list"

primrec policy_kinds :: "critical_policy \<Rightarrow> string list" where
  "policy_kinds (CriticalPolicy kinds) = kinds"

definition critical_policy_new :: "string list \<Rightarrow> closure_error + critical_policy" where
  "critical_policy_new kinds =
     (if kinds = [] \<or> length kinds > MAX_CRITICAL_KINDS then Inl InvalidPolicy
      else if list_ex (\<lambda>kind. kind = [] \<or> length kind > MAX_KIND_BYTES) kinds then Inl InvalidPolicy
      else Inr (CriticalPolicy (sort_dedup (\<lambda>k. k) kinds)))"

definition is_critical :: "critical_policy \<Rightarrow> string \<Rightarrow> bool" where
  "is_critical policy kind \<longleftrightarrow> list_ex (\<lambda>flagged. flagged = kind) (policy_kinds policy)"

section \<open>The pure closure\<close>

record event_node =
  node_event :: event_id
  node_parents :: "event_id list"

record closure_report =
  cr_closed :: "event_id list"
  cr_dangling :: "(event_id \<times> event_id) list"
  cr_cycle :: bool
  cr_exceeded :: bool

text \<open>
  \<open>by_id\<close>: a later node replaces an earlier one of the same identifier; the parents are sorted
  and deduplicated. A frame's child is not read, so the frames carry the identifier only.
\<close>

type_synonym node_map = "(event_id \<rightharpoonup> event_id list)"

definition node_index :: "env \<Rightarrow> event_node list \<Rightarrow> node_map" where
  "node_index E nodes =
     foldl (\<lambda>m node. m(node_event node \<mapsto> sort_dedup (event_id_text E) (node_parents node))) Map.empty nodes"

record close_state =
  cs_marks :: "event_id \<rightharpoonup> nat"
  cs_closed :: "event_id list"
  cs_dangling :: "(event_id \<times> event_id) list"
  cs_count :: nat
  cs_cycle :: bool
  cs_exceeded :: bool

definition known_of :: "node_map \<Rightarrow> event_id \<Rightarrow> event_id list" where
  "known_of by_id i = filter (\<lambda>p. by_id p \<noteq> None) (case by_id i of None \<Rightarrow> [] | Some ps \<Rightarrow> ps)"

definition missing_of :: "node_map \<Rightarrow> event_id \<Rightarrow> event_id list" where
  "missing_of by_id i = filter (\<lambda>p. by_id p = None) (case by_id i of None \<Rightarrow> [] | Some ps \<Rightarrow> ps)"

function close_loop :: "node_map \<Rightarrow> nat \<Rightarrow> close_state \<Rightarrow> event_id frame list \<Rightarrow> close_state" where
  "close_loop by_id max_events s [] = s"
| "close_loop by_id max_events s (Exit i # stack) =
     close_loop by_id max_events (s\<lparr>cs_marks := (cs_marks s)(i \<mapsto> 2)\<rparr>) stack"
| "close_loop by_id max_events s (Enter i # stack) =
     (if cs_marks s i = Some 2 then close_loop by_id max_events s stack
      else if cs_marks s i = Some 1 then close_loop by_id max_events (s\<lparr>cs_cycle := True\<rparr>) stack
      else if cs_count s \<ge> max_events then s\<lparr>cs_exceeded := True\<rparr>
      else close_loop by_id max_events
        (s\<lparr>cs_count := cs_count s + 1, cs_marks := (cs_marks s)(i \<mapsto> 1), cs_closed := cs_closed s @ [i],
           cs_dangling := cs_dangling s @ map (\<lambda>p. (i, p)) (rev (missing_of by_id i))\<rparr>)
        (map Enter (known_of by_id i) @ Exit i # stack))"
  by pat_completeness auto
termination
  by (relation "measures [\<lambda>(by_id, max_events, s, stack). max_events - cs_count s,
      \<lambda>(by_id, max_events, s, stack). length stack]") auto

declare close_loop.simps [simp del]

definition close_over :: "env \<Rightarrow> event_node list \<Rightarrow> closure_limits \<Rightarrow> closure_report" where
  "close_over E nodes limits =
     (let by_id = node_index E nodes;
          starts = sort_dedup (event_id_text E) (map node_event nodes);
          s = close_loop by_id (cl_max_events limits)
                \<lparr>cs_marks = Map.empty, cs_closed = [], cs_dangling = [], cs_count = 0, cs_cycle = False,
                 cs_exceeded = False\<rparr> (map Enter starts)
      in \<lparr>cr_closed = sort_dedup (event_id_text E) (cs_closed s),
          cr_dangling = sort_dedup (\<lambda>(child, parent). (event_id_text E child, event_id_text E parent)) (cs_dangling s),
          cr_cycle = cs_cycle s, cr_exceeded = cs_exceeded s\<rparr>)"

definition report_check :: "closure_report \<Rightarrow> closure_error + unit" where
  "report_check report =
     (if cr_cycle report then Inl ClosureCycle
      else if cr_exceeded report then Inl ClosureLimit
      else case cr_dangling report of
        (child, parent) # _ \<Rightarrow> Inl (DanglingClosure child parent)
      | [] \<Rightarrow> Inr ())"

definition close_check :: "env \<Rightarrow> event_node list \<Rightarrow> closure_limits \<Rightarrow> closure_error + closure_report" where
  "close_check E nodes limits =
     (let report = close_over E nodes limits in bindR (report_check report) (\<lambda>_. Inr report))"

section \<open>The strict walk\<close>

record 'e walk_errors =
  we_cycle :: 'e
  we_limit :: 'e
  we_dangling :: "event_id \<Rightarrow> event_id \<Rightarrow> 'e"
  we_unverifiable :: "event_id \<Rightarrow> 'e"
  we_wrong_context :: "event_id \<Rightarrow> 'e"
  we_store :: "store_error \<Rightarrow> 'e"

datatype walk_frame = EnterFrom event_id "event_id option" | ExitOf event_id

text \<open>What entering an unvisited event checks: the event and the new byte sum_bytes.\<close>

definition enter_source ::
  "env \<Rightarrow> db \<Rightarrow> context_id \<Rightarrow> closure_limits \<Rightarrow> 'e walk_errors \<Rightarrow> event_id \<Rightarrow> event_id option \<Rightarrow> nat \<Rightarrow>
    'e + (signed_event \<times> nat)" where
  "enter_source E d c limits errs i child total_bytes =
     bindR (map_err (we_store errs) (store_event E d i)) (\<lambda>found.
       case found of
         None \<Rightarrow> Inl (case child of Some referenced_by \<Rightarrow> we_dangling errs referenced_by i
                     | None \<Rightarrow> we_unverifiable errs i)
       | Some event \<Rightarrow>
           if body_context (ev_body event) \<noteq> c then Inl (we_wrong_context errs i)
           else bindR (map_err (\<lambda>_. we_unverifiable errs i)
                  (canonical_payload_bytes E (body_payload (ev_body event)))) (\<lambda>payload.
             bindR (ok_or (checked_add total_bytes (length payload)) (we_limit errs)) (\<lambda>sum_bytes.
               if sum_bytes > cl_max_bytes limits then Inl (we_limit errs) else Inr (event, sum_bytes))))"

function strict_walk ::
  "env \<Rightarrow> db \<Rightarrow> context_id \<Rightarrow> closure_limits \<Rightarrow> 'e walk_errors \<Rightarrow> (event_id \<rightharpoonup> nat) \<Rightarrow>
    event_node list \<Rightarrow> walk_frame list \<Rightarrow> nat \<Rightarrow> nat \<Rightarrow> 'e + (event_node list \<times> nat)" where
  "strict_walk E d c limits errs marks nodes [] count total_bytes = Inr (nodes, total_bytes)"
| "strict_walk E d c limits errs marks nodes (ExitOf i # stack) count total_bytes =
     strict_walk E d c limits errs (marks(i \<mapsto> 2)) nodes stack count total_bytes"
| "strict_walk E d c limits errs marks nodes (EnterFrom i child # stack) count total_bytes =
     (if marks i = Some 2 then strict_walk E d c limits errs marks nodes stack count total_bytes
      else if marks i = Some 1 then Inl (we_cycle errs)
      else if count \<ge> cl_max_events limits then Inl (we_limit errs)
      else case enter_source E d c limits errs i child total_bytes of
          Inl e \<Rightarrow> Inl e
        | Inr (event, sum_bytes) \<Rightarrow>
            strict_walk E d c limits errs (marks(i \<mapsto> 1))
              (nodes @ [\<lparr>node_event = i, node_parents = body_parents (ev_body event)\<rparr>])
              (map (\<lambda>p. EnterFrom p (Some i)) (body_parents (ev_body event)) @ ExitOf i # stack)
              (count + 1) sum_bytes)"
  by pat_completeness auto
termination
  by (relation "measures [\<lambda>(E, d, c, limits, errs, marks, nodes, stack, count, sum_bytes). cl_max_events limits - count,
      \<lambda>(E, d, c, limits, errs, marks, nodes, stack, count, sum_bytes). length stack]") auto

declare strict_walk.simps [simp del]

definition closure_errors :: "closure_error walk_errors" where
  "closure_errors = \<lparr>we_cycle = ClosureCycle, we_limit = ClosureLimit, we_dangling = DanglingClosure,
     we_unverifiable = UnverifiableClosure, we_wrong_context = WrongClosureContext, we_store = ClosureStore\<rparr>"

definition load_closure_nodes ::
  "env \<Rightarrow> db \<Rightarrow> context_id \<Rightarrow> event_id list \<Rightarrow> closure_limits \<Rightarrow> closure_error + event_node list" where
  "load_closure_nodes E d c selected limits =
     bindR (strict_walk E d c limits closure_errors Map.empty [] (map (\<lambda>i. EnterFrom i None) selected) 0 0)
       (\<lambda>(nodes, _). Inr nodes)"

section \<open>Closing a selection\<close>

record closed_selection =
  cd_context :: context_id
  cd_references :: "source_reference list"
  cd_selected :: "event_id list"
  cd_added_critical :: "event_id list"
  cd_total_bytes :: nat
  cd_limits :: closure_limits

text \<open>One candidate: covered already, or verified and added when its kind is critical.\<close>

definition cover_candidate ::
  "env \<Rightarrow> db \<Rightarrow> context_id \<Rightarrow> critical_policy \<Rightarrow> event_id \<Rightarrow> event_id list \<times> event_id list \<Rightarrow>
    closure_error + (event_id list \<times> event_id list)" where
  "cover_candidate E d c policy i = (\<lambda>(closed, added).
     if bsearch (event_id_text E) (event_id_text E i) closed then Inr (closed, added)
     else bindR (map_err ClosureStore (store_event E d i)) (\<lambda>found.
       case found of
         None \<Rightarrow> Inl (UnverifiableClosure i)
       | Some event \<Rightarrow>
           if body_context (ev_body event) \<noteq> c then Inl (WrongClosureContext i)
           else if is_critical policy (body_kind (ev_body event)) then Inr (closed @ [i], added @ [i])
           else Inr (closed, added)))"

definition load_reference ::
  "env \<Rightarrow> db \<Rightarrow> event_id \<Rightarrow> source_reference list \<times> nat \<Rightarrow>
    closure_error + (source_reference list \<times> nat)" where
  "load_reference E d i = (\<lambda>(references, total_bytes).
     bindR (map_err ClosureStore (store_event E d i)) (\<lambda>found.
     bindR (ok_or found (UnverifiableClosure i)) (\<lambda>event.
     bindR (map_err (\<lambda>_. UnverifiableClosure i) (source_from_signed E event)) (\<lambda>source.
     bindR (ok_or (checked_add total_bytes (src_bytes source)) ClosureLimit) (\<lambda>sum_bytes.
       Inr (references @ [reference_from_source source], sum_bytes))))))"

definition close_selection ::
  "env \<Rightarrow> db \<Rightarrow> context_id \<Rightarrow> event_id list \<Rightarrow> event_id list \<Rightarrow> critical_policy \<Rightarrow> closure_limits \<Rightarrow>
    closure_error + closed_selection" where
  "close_selection E d c selected candidates policy limits =
     bindR (closure_limits_new (cl_max_events limits) (cl_max_bytes limits)) (\<lambda>limits.
       let selected_ids = sort_dedup (event_id_text E) selected;
           candidate_ids = sort_dedup (event_id_text E) candidates
       in if length candidate_ids > MAX_CLOSURE_CANDIDATES then Inl ClosureLimit
          else bindR (load_closure_nodes E d c selected_ids limits) (\<lambda>nodes.
            let report = close_over E nodes limits
            in bindR (report_check report) (\<lambda>_.
               bindR (foldR (cover_candidate E d c policy) candidate_ids (cr_closed report, []))
                 (\<lambda>(closed, added).
               bindR (foldR (load_reference E d) (sort_dedup (event_id_text E) closed) ([], 0))
                 (\<lambda>(references, total_bytes).
                 Inr \<lparr>cd_context = c, cd_references = references, cd_selected = selected_ids,
                      cd_added_critical = sort_dedup (event_id_text E) added,
                      cd_total_bytes = total_bytes, cd_limits = limits\<rparr>)))))"

end
