(* ===== verification/Closure_Facts.thy ===== *)
theory Closure_Facts
  imports Closure
begin

text \<open>
  What the walks of \<open>src/src/closure.rs\<close> compute. The strict walk, shared with
  \<open>src/src/delta.rs\<close>, loads exactly the ancestors of its heads or says why not; the pure closure
  reports the cycles, the dangling edges and the excess of a node set exactly; and a closed
  selection holds the ancestors of the selected events and the critical candidates.
\<close>

section \<open>Stored events\<close>

lemma stored_event_facts:
  assumes "store_inv E d" "lookup_event E d i = Some ev"
  shows "event_wf ev" "validate_body E (ev_body ev) = Inr ()" "ev_id ev = i" "event_id_wf i"
proof -
  have "\<exists>w. from_wire E w = Inr ev \<and> ev_id ev = i"
    by (rule lookup_eventE [OF assms]) blast
  then obtain w where "from_wire E w = Inr ev" and id: "ev_id ev = i" by blast
  then show wf: "event_wf ev" "validate_body E (ev_body ev) = Inr ()" by (auto dest: from_wire_Inr)
  show "ev_id ev = i" by (rule id)
  with wf(1) show "event_id_wf i" by (auto simp: event_wf_def)
qed

lemma has_event_wf: "store_inv E d \<Longrightarrow> has_event d i \<Longrightarrow> event_id_wf i"
  using lookup_event_None [of E d i] stored_event_facts(4) [of E d i] by auto

text \<open>The size of an event's canonical payload.\<close>

definition payload_len :: "env \<Rightarrow> db \<Rightarrow> event_id \<Rightarrow> nat" where
  "payload_len E d i =
     (case lookup_event E d i of
        None \<Rightarrow> 0
      | Some ev \<Rightarrow> (case canonical_payload_bytes E (body_payload (ev_body ev)) of Inl _ \<Rightarrow> 0 | Inr p \<Rightarrow> length p))"

lemma stored_payload:
  assumes "store_inv E d" "lookup_event E d i = Some ev"
  obtains p where "canonical_payload_bytes E (body_payload (ev_body ev)) = Inr p"
    "payload_len E d i = length p" "length p \<le> MAX_CANONICAL_PAYLOAD_BYTES"
proof -
  obtain p where "canonicalize E (body_payload (ev_body ev)) = Inr p" "length p \<le> MAX_CANONICAL_PAYLOAD_BYTES"
    and "json_depth (body_payload (ev_body ev)) \<le> MAX_PAYLOAD_DEPTH" "numbers_safe (body_payload (ev_body ev))"
    using stored_event_facts(2) [OF assms] by (auto simp: validate_body_iff)
  then have "canonical_payload_bytes E (body_payload (ev_body ev)) = Inr p"
    using validate_json_value_iff [of "body_payload (ev_body ev)"] by (simp add: canonical_payload_bytes_def)
  then show thesis
    using assms(2) \<open>length p \<le> MAX_CANONICAL_PAYLOAD_BYTES\<close> that [of p] by (simp add: payload_len_def)
qed

section \<open>The strict walk\<close>

lemma enter_source_lookup:
  assumes "store_inv E d" "cl_max_bytes limits < usize_limit"
  shows "enter_source E d c limits errs i child t =
    (case lookup_event E d i of
       None \<Rightarrow> Inl (case child of Some r \<Rightarrow> we_dangling errs r i | None \<Rightarrow> we_unverifiable errs i)
     | Some ev \<Rightarrow>
         if event_context ev \<noteq> c then Inl (we_wrong_context errs i)
         else if t + payload_len E d i > cl_max_bytes limits then Inl (we_limit errs)
         else Inr (ev, t + payload_len E d i))"
proof (cases "lookup_event E d i")
  case (Some ev)
  obtain p where "canonical_payload_bytes E (body_payload (ev_body ev)) = Inr p" "payload_len E d i = length p"
    by (rule stored_payload [OF assms(1) Some])
  then show ?thesis
    using assms(2) Some
    by (auto simp: enter_source_def store_event_lookup [OF assms(1)] event_context_def checked_add_def)
qed (simp add: enter_source_def store_event_lookup [OF assms(1)] split: option.split)

fun plain_frame :: "walk_frame \<Rightarrow> event_id frame" where
  "plain_frame (EnterFrom i child) = Enter i"
| "plain_frame (ExitOf i) = Exit i"

definition strict_inv ::
  "env \<Rightarrow> db \<Rightarrow> context_id \<Rightarrow> closure_limits \<Rightarrow> event_id list \<Rightarrow> (event_id \<rightharpoonup> nat) \<Rightarrow>
    event_node list \<Rightarrow> walk_frame list \<Rightarrow> nat \<Rightarrow> nat \<Rightarrow> bool" where
  "strict_inv E d c limits heads marks nodes st count total_bytes \<longleftrightarrow>
     walk_state (store_parents E d) (set heads) marks (map plain_frame st) \<and>
     distinct (map node_event nodes) \<and> dom marks = node_event ` set nodes \<and>
     (\<forall>n \<in> set nodes. node_parents n = store_parents E d (node_event n)) \<and>
     (\<forall>i \<in> dom marks. stored_in d i c) \<and>
     (\<forall>i j. EnterFrom i (Some j) \<in> set st \<longrightarrow> has_event d i) \<and>
     (\<forall>i. EnterFrom i None \<in> set st \<longrightarrow> i \<in> set heads) \<and>
     count = card (dom marks) \<and> count \<le> cl_max_events limits \<and>
     total_bytes = sum (payload_len E d) (dom marks) \<and> total_bytes \<le> cl_max_bytes limits"

text \<open>What the walk returns, and why it refuses.\<close>

definition exact_walk ::
  "env \<Rightarrow> db \<Rightarrow> context_id \<Rightarrow> closure_limits \<Rightarrow> event_id list \<Rightarrow> event_node list \<Rightarrow> nat \<Rightarrow> bool" where
  "exact_walk E d c limits heads nodes total_bytes \<longleftrightarrow>
     distinct (map node_event nodes) \<and> node_event ` set nodes = ancestry E d heads \<and>
     (\<forall>n \<in> set nodes. node_parents n = store_parents E d (node_event n)) \<and>
     (\<forall>i \<in> ancestry E d heads. stored_in d i c) \<and>
     card (ancestry E d heads) \<le> cl_max_events limits \<and>
     total_bytes = sum (payload_len E d) (ancestry E d heads) \<and> total_bytes \<le> cl_max_bytes limits"

definition walk_refused ::
  "env \<Rightarrow> db \<Rightarrow> context_id \<Rightarrow> closure_limits \<Rightarrow> 'e walk_errors \<Rightarrow> event_id list \<Rightarrow> 'e \<Rightarrow> bool" where
  "walk_refused E d c limits errs heads e \<longleftrightarrow>
     (\<exists>i \<in> set heads. \<not> has_event d i \<and> e = we_unverifiable errs i) \<or>
     (\<exists>i \<in> ancestry E d heads. has_event d i \<and> \<not> stored_in d i c \<and> e = we_wrong_context errs i) \<or>
     (e = we_limit errs \<and>
       (cl_max_events limits < card (ancestry E d heads) \<or>
        cl_max_bytes limits < sum (payload_len E d) (ancestry E d heads)))"

definition walk_spec ::
  "env \<Rightarrow> db \<Rightarrow> context_id \<Rightarrow> closure_limits \<Rightarrow> 'e walk_errors \<Rightarrow> event_id list \<Rightarrow>
    'e + (event_node list \<times> nat) \<Rightarrow> bool" where
  "walk_spec E d c limits errs heads res =
     (case res of Inl e \<Rightarrow> walk_refused E d c limits errs heads e
      | Inr (nodes, total_bytes) \<Rightarrow> exact_walk E d c limits heads nodes total_bytes)"

lemma plain_frame_enters [simp]:
  "map plain_frame (map (\<lambda>p. EnterFrom p q) ps @ ExitOf i # st) = map Enter ps @ Exit i # map plain_frame st"
  by (simp add: comp_def)

lemma strict_inv_start:
  "strict_inv E d c limits heads Map.empty [] (map (\<lambda>i. EnterFrom i None) heads) 0 0"
  using walk_state_start [of "store_parents E d" heads] by (auto simp: strict_inv_def comp_def)

lemma strict_inv_skip:
  assumes "strict_inv E d c limits heads marks nodes (EnterFrom i child # st) count total_bytes"
    and "marks i = Some 2"
  shows "strict_inv E d c limits heads marks nodes st count total_bytes"
  using assms walk_state_skip [of "store_parents E d" "set heads" marks i "map plain_frame st"]
  unfolding strict_inv_def by auto

lemma strict_inv_exit:
  assumes "strict_inv E d c limits heads marks nodes (ExitOf i # st) count total_bytes"
  shows "strict_inv E d c limits heads (marks(i \<mapsto> 2)) nodes st count total_bytes"
proof -
  have walk: "walk_state (store_parents E d) (set heads) marks (Exit i # map plain_frame st)"
    using assms by (simp add: strict_inv_def)
  then have "marks i = Some 1"
    by (auto simp: walk_state_def visit_marks_def dest: walk_exit(3))
  then have "dom (marks(i \<mapsto> 2)) = dom marks" by auto
  then show ?thesis using assms walk_state_exit [OF walk] unfolding strict_inv_def by auto
qed

lemma strict_inv_no_cycle:
  assumes "store_inv E d" "strict_inv E d c limits heads marks nodes (EnterFrom i child # st) count total_bytes"
  shows "marks i \<noteq> Some 1"
  using walk_state_closes [of "store_parents E d" "set heads" marks i "map plain_frame st"]
    store_parents_acyclic [OF assms(1)] assms(2)
  by (auto simp: strict_inv_def cyclic_def)

text \<open>What is loaded with one event more is still among the ancestors.\<close>

lemma strict_inv_fresh:
  assumes "store_inv E d" "strict_inv E d c limits heads marks nodes (EnterFrom i child # st) count total_bytes"
    and "marks i \<noteq> Some 2"
  shows "i \<notin> dom marks" "i \<in> ancestry E d heads" "count + 1 \<le> card (ancestry E d heads)"
    "total_bytes + payload_len E d i \<le> sum (payload_len E d) (ancestry E d heads)"
proof -
  have walk: "walk_state (store_parents E d) (set heads) marks (Enter i # map plain_frame st)"
    using assms(2) by (simp add: strict_inv_def)
  show fresh: "i \<notin> dom marks"
    using strict_inv_no_cycle [OF assms(1,2)] assms(3) walk
    by (auto simp: walk_state_def visit_marks_def split: if_splits)
  show i: "i \<in> ancestry E d heads" using walk_state_top [OF walk] by (simp add: ancestry_def)
  have sub: "insert i (dom marks) \<subseteq> ancestry E d heads"
    using i walk_state_seen [OF walk] by (simp add: ancestry_def)
  have fin: "finite (ancestry E d heads)" "finite (dom marks)"
    using finite_ancestry [OF assms(1)] sub by (auto intro: finite_subset)
  show "count + 1 \<le> card (ancestry E d heads)"
    using card_mono [OF fin(1) sub] fresh fin(2) assms(2) by (simp add: strict_inv_def)
  show "total_bytes + payload_len E d i \<le> sum (payload_len E d) (ancestry E d heads)"
    using sum_mono2 [OF fin(1) sub, of "payload_len E d"] fresh fin(2) assms(2)
    by (simp add: strict_inv_def)
qed

lemma strict_inv_enter:
  assumes "store_inv E d"
    and "strict_inv E d c limits heads marks nodes (EnterFrom i child # st) count total_bytes"
    and "marks i \<noteq> Some 2" "count < cl_max_events limits"
    and "lookup_event E d i = Some ev" "event_context ev = c"
    and "total_bytes + payload_len E d i \<le> cl_max_bytes limits"
  shows "strict_inv E d c limits heads (marks(i \<mapsto> 1))
    (nodes @ [\<lparr>node_event = i, node_parents = body_parents (ev_body ev)\<rparr>])
    (map (\<lambda>p. EnterFrom p (Some i)) (body_parents (ev_body ev)) @ ExitOf i # st)
    (count + 1) (total_bytes + payload_len E d i)"
proof -
  note fresh = strict_inv_fresh(1) [OF assms(1-3)]
  have walk: "walk_state (store_parents E d) (set heads) marks (Enter i # map plain_frame st)"
    using assms(2) by (simp add: strict_inv_def)
  have par: "store_parents E d i = body_parents (ev_body ev)"
    by (simp add: store_parents_def assms(5) event_parents_def)
  have stored: "has_event d p" if "p \<in> set (body_parents (ev_body ev))" for p
  proof -
    have "p \<in> set (event_parents ev)" using that by (simp add: event_parents_def)
    then obtain pev where "lookup_event E d p = Some pev" by (rule lookup_parent [OF assms(1,5)])
    then show ?thesis using lookup_event_None [OF assms(1), of p] by auto
  qed
  have "walk_state (store_parents E d) (set heads) (marks(i \<mapsto> 1))
      (map Enter (body_parents (ev_body ev)) @ Exit i # map plain_frame st)"
    using walk_state_enter [OF walk assms(3) strict_inv_no_cycle [OF assms(1,2)]] by (simp only: par)
  moreover have "finite (dom marks)" using assms(2) by (simp add: strict_inv_def)
  moreover have "stored_in d i c" using assms(5,6) stored_in_iff [OF assms(1)] by blast
  ultimately show ?thesis
    using assms(2,4,7) fresh par stored unfolding strict_inv_def plain_frame_enters
    by (auto simp: card_insert_disjoint)
qed

lemma strict_inv_done:
  assumes "strict_inv E d c limits heads marks nodes [] count total_bytes"
  shows "exact_walk E d c limits heads nodes total_bytes"
proof -
  have "dom marks = ancestry E d heads"
    using assms walk_state_done(1) [of "store_parents E d" "set heads" marks]
    by (simp add: strict_inv_def ancestry_def)
  then show ?thesis using assms unfolding strict_inv_def exact_walk_def by (metis)
qed

lemma strict_enter_refused:
  assumes "store_inv E d" "cl_max_bytes limits < usize_limit"
    and "strict_inv E d c limits heads marks nodes (EnterFrom i child # st) count total_bytes"
    and "marks i \<noteq> Some 2"
    and "enter_source E d c limits errs i child total_bytes = Inl e"
  shows "walk_refused E d c limits errs heads e"
proof (cases "lookup_event E d i")
  case None
  then have "\<not> has_event d i" using lookup_event_None [OF assms(1)] by simp
  then have "child = None" "i \<in> set heads"
    using assms(3) by (cases child; force simp: strict_inv_def)+
  then show ?thesis
    using assms(5) None \<open>\<not> has_event d i\<close>
    by (auto simp: enter_source_lookup [OF assms(1,2)] walk_refused_def)
next
  case (Some ev)
  then have "has_event d i" "stored_in d i c \<longleftrightarrow> event_context ev = c"
    using lookup_event_None [OF assms(1), of i] stored_in_iff [OF assms(1), of i c] by auto
  then show ?thesis
    using assms(5) Some strict_inv_fresh(2,4) [OF assms(1,3,4)]
    by (auto simp: enter_source_lookup [OF assms(1,2)] walk_refused_def split: if_splits)
qed

lemma strict_walk_spec:
  assumes "store_inv E d" "cl_max_bytes limits < usize_limit"
    and "strict_inv E d c limits heads marks nodes st count total_bytes"
  shows "walk_spec E d c limits errs heads (strict_walk E d c limits errs marks nodes st count total_bytes)"
  using assms
proof (induction E d c limits errs marks nodes st count total_bytes rule: strict_walk.induct)
  case (1 E d c limits errs marks nodes count total_bytes)
  then show ?case by (simp add: strict_walk.simps walk_spec_def strict_inv_done)
next
  case (2 E d c limits errs marks nodes i st count total_bytes)
  then show ?case using strict_inv_exit by (simp add: strict_walk.simps del: fun_upd_apply)
next
  case (3 E d c limits errs marks nodes i child st count total_bytes)
  note fresh = strict_inv_fresh [OF "3.prems"(1,3)]
  note no_cycle = strict_inv_no_cycle [OF "3.prems"(1,3)]
  show ?case
  proof (cases "marks i = Some 2")
    case True
    with "3.IH"(1) "3.prems" strict_inv_skip [OF "3.prems"(3) True] show ?thesis
      by (simp add: strict_walk.simps)
  next
    case False
    show ?thesis
    proof (cases "count \<ge> cl_max_events limits")
      case True
      then have "cl_max_events limits < card (ancestry E d heads)" using fresh(3) [OF False] by simp
      then show ?thesis
        using True False no_cycle by (simp add: strict_walk.simps walk_spec_def walk_refused_def)
    next
      case room: False
      show ?thesis
      proof (cases "enter_source E d c limits errs i child total_bytes")
        case (Inl e)
        then show ?thesis
          using strict_enter_refused [OF "3.prems" False Inl] False no_cycle room
          by (simp add: strict_walk.simps walk_spec_def)
      next
        case (Inr r)
        obtain ev n where r: "r = (ev, n)" by fastforce
        have "lookup_event E d i = Some ev" "event_context ev = c" "n = total_bytes + payload_len E d i"
          "total_bytes + payload_len E d i \<le> cl_max_bytes limits"
          using Inr r by (auto simp: enter_source_lookup [OF "3.prems"(1,2)] split: option.splits if_splits)
        with "3.IH"(2) [OF False no_cycle room Inr r [symmetric]] "3.prems"(1,2)
          strict_inv_enter [OF "3.prems"(1,3) False]
        show ?thesis using False no_cycle room Inr r
          by (simp add: strict_walk.simps not_le del: fun_upd_apply)
      qed
    qed
  qed
qed

lemma strict_walk_exact:
  assumes "store_inv E d" "cl_max_bytes limits < usize_limit"
  shows "walk_spec E d c limits errs heads
    (strict_walk E d c limits errs Map.empty [] (map (\<lambda>i. EnterFrom i None) heads) 0 0)"
  by (rule strict_walk_spec [OF assms strict_inv_start])

lemma closure_limits_new_Inr_iff:
  "closure_limits_new n b = Inr l \<longleftrightarrow>
     0 < n \<and> n \<le> MAX_CLOSURE_EVENTS \<and> 0 < b \<and> b \<le> MAX_CLOSURE_BYTES \<and>
     l = \<lparr>cl_max_events = n, cl_max_bytes = b\<rparr>"
  by (auto simp: closure_limits_new_def)

lemma closure_limits_small: "b \<le> MAX_CLOSURE_BYTES \<Longrightarrow> b < usize_limit"
  by (simp add: MAX_CLOSURE_BYTES_def usize_limit_def)

end
