(* ===== verification/Closure_Graph.thy ===== *)
theory Closure_Graph
  imports Closure
begin

text \<open>
  What the pure closure of \<open>src/src/closure.rs\<close>, \<open>close_over\<close>, reports on any list of nodes,
  cyclic ones included: every node is closed, the dangling edges are those to parents outside the
  list, the cycle flag says whether there is a cycle, and the walk is cut short exactly when there
  are more nodes than the limit.
\<close>

section \<open>The index\<close>

lemma node_index_map_of:
  "node_index E nodes = map_of (rev (map (\<lambda>n. (node_event n, sort_dedup (event_id_text E) (node_parents n))) nodes))"
proof -
  have "foldl (\<lambda>m n. m(node_event n \<mapsto> sort_dedup (event_id_text E) (node_parents n))) m nodes =
      m ++ map_of (rev (map (\<lambda>n. (node_event n, sort_dedup (event_id_text E) (node_parents n))) nodes))" for m
    by (induction nodes arbitrary: m) (auto simp: map_add_def fun_eq_iff split: option.splits)
  then show ?thesis by (simp add: node_index_def)
qed

lemma dom_node_index: "dom (node_index E nodes) = node_event ` set nodes"
  by (simp add: node_index_map_of dom_map_of_conv_image_fst image_image)

lemma known_of_dom: "set (known_of by_id i) \<subseteq> dom by_id"
  by (auto simp: known_of_def)

lemma known_of_outside: "i \<notin> dom by_id \<Longrightarrow> known_of by_id i = []"
  by (auto simp: known_of_def domIff)

section \<open>The walk covers the nodes\<close>

definition cover_inv ::
  "node_map \<Rightarrow> event_id set \<Rightarrow> nat \<Rightarrow> close_state \<Rightarrow> event_id frame list \<Rightarrow> bool" where
  "cover_inv by_id starts max_events s st \<longleftrightarrow>
     distinct (cs_closed s) \<and> dom (cs_marks s) = set (cs_closed s) \<and> ran (cs_marks s) \<subseteq> {1, 2} \<and>
     cs_count s = length (cs_closed s) \<and> cs_count s \<le> max_events \<and> \<not> cs_exceeded s \<and>
     set (cs_closed s) \<subseteq> dom by_id \<and> frame_node ` set st \<subseteq> dom by_id \<and>
     (\<forall>i. Exit i \<in> set st \<longrightarrow> i \<in> set (cs_closed s)) \<and>
     (\<forall>i \<in> starts. i \<in> set (cs_closed s) \<or> Enter i \<in> set st) \<and>
     set (cs_dangling s) = {(i, p). i \<in> set (cs_closed s) \<and> p \<in> set (missing_of by_id i)}"

definition cover_result :: "node_map \<Rightarrow> event_id set \<Rightarrow> nat \<Rightarrow> close_state \<Rightarrow> bool" where
  "cover_result by_id starts max_events s \<longleftrightarrow>
     (if cs_exceeded s then max_events < card (dom by_id)
      else distinct (cs_closed s) \<and> length (cs_closed s) \<le> max_events \<and>
        starts \<subseteq> set (cs_closed s) \<and> set (cs_closed s) \<subseteq> dom by_id \<and>
        set (cs_dangling s) = {(i, p). i \<in> set (cs_closed s) \<and> p \<in> set (missing_of by_id i)})"

lemma cover_inv_skip:
  assumes "cover_inv by_id starts n s (Enter i # st)" "cs_marks s i \<noteq> None"
  shows "cover_inv by_id starts n s st" "cover_inv by_id starts n (s\<lparr>cs_cycle := True\<rparr>) st"
proof -
  have "i \<in> set (cs_closed s)" using assms by (auto simp: cover_inv_def)
  then show "cover_inv by_id starts n s st" "cover_inv by_id starts n (s\<lparr>cs_cycle := True\<rparr>) st"
    using assms(1) by (auto simp: cover_inv_def)
qed

lemma cover_inv_mark: "cover_inv by_id starts n s (Enter i # st) \<Longrightarrow> cs_marks s i \<in> {None, Some 1, Some 2}"
  by (cases "cs_marks s i") (auto simp: cover_inv_def ran_def)

lemma cover_inv_exit:
  assumes "cover_inv by_id starts n s (Exit i # st)"
  shows "cover_inv by_id starts n (s\<lparr>cs_marks := (cs_marks s)(i \<mapsto> 2)\<rparr>) st"
proof -
  have "i \<in> dom (cs_marks s)" using assms by (auto simp: cover_inv_def)
  then have "dom ((cs_marks s)(i \<mapsto> 2)) = dom (cs_marks s)" by auto
  moreover have "ran ((cs_marks s)(i \<mapsto> 2)) \<subseteq> {1, 2}"
    using assms by (auto simp: cover_inv_def ran_def split: if_splits)
  ultimately show ?thesis using assms by (auto simp: cover_inv_def)
qed

lemma cover_inv_enter:
  assumes "cover_inv by_id starts n s (Enter i # st)" "cs_marks s i = None" "cs_count s < n"
  shows "cover_inv by_id starts n
    (s\<lparr>cs_count := cs_count s + 1, cs_marks := (cs_marks s)(i \<mapsto> 1), cs_closed := cs_closed s @ [i],
       cs_dangling := cs_dangling s @ map (\<lambda>p. (i, p)) (rev (missing_of by_id i))\<rparr>)
    (map Enter (known_of by_id i) @ Exit i # st)"
proof -
  have "i \<notin> set (cs_closed s)" using assms(1,2) by (auto simp: cover_inv_def)
  moreover have "ran ((cs_marks s)(i \<mapsto> 1)) \<subseteq> {1, 2}"
    using assms(1) by (auto simp: cover_inv_def ran_def split: if_splits)
  ultimately show ?thesis
    using assms known_of_dom [of by_id i] unfolding cover_inv_def by auto
qed

lemma cover_inv_exceeded:
  assumes "cover_inv by_id starts n s (Enter i # st)" "cs_marks s i = None" "n \<le> cs_count s" "finite (dom by_id)"
  shows "n < card (dom by_id)"
proof -
  have "i \<notin> set (cs_closed s)" "insert i (set (cs_closed s)) \<subseteq> dom by_id" "length (cs_closed s) = n"
    "distinct (cs_closed s)" using assms by (auto simp: cover_inv_def)
  then show ?thesis
    using card_mono [OF assms(4), of "insert i (set (cs_closed s))"] by (simp add: distinct_card)
qed

lemma close_loop_covers:
  assumes "cover_inv by_id starts n s st" "finite (dom by_id)"
  shows "cover_result by_id starts n (close_loop by_id n s st)"
  using assms
proof (induction by_id n s st rule: close_loop.induct)
  case (1 by_id n s)
  then show ?case by (auto simp: close_loop.simps cover_result_def cover_inv_def)
next
  case (2 by_id n s i st)
  then show ?case using cover_inv_exit by (simp add: close_loop.simps del: fun_upd_apply)
next
  case (3 by_id n s i st)
  consider "cs_marks s i = Some 2" | "cs_marks s i = Some 1" | "cs_marks s i = None" "n \<le> cs_count s"
    | "cs_marks s i = None" "cs_count s < n"
    using cover_inv_mark [OF "3.prems"(1)] by fastforce
  then show ?case
  proof cases
    case 1
    with "3.IH"(1) "3.prems" cover_inv_skip(1) show ?thesis by (simp add: close_loop.simps)
  next
    case 2
    with "3.IH"(2) "3.prems" cover_inv_skip(2) show ?thesis by (simp add: close_loop.simps)
  next
    case 3
    with cover_inv_exceeded "3.prems" show ?thesis by (simp add: close_loop.simps cover_result_def)
  next
    case 4
    with "3.IH"(3) "3.prems" cover_inv_enter show ?thesis by (simp add: close_loop.simps del: fun_upd_apply)
  qed
qed

section \<open>The cycle flag\<close>

definition flag_inv :: "node_map \<Rightarrow> event_id set \<Rightarrow> close_state \<Rightarrow> event_id frame list \<Rightarrow> bool" where
  "flag_inv by_id starts s st \<longleftrightarrow>
     (if cs_cycle s then cyclic (known_of by_id) else walk_state (known_of by_id) starts (cs_marks s) st)"

lemma close_loop_cycle:
  assumes "flag_inv by_id starts s st" "\<not> cs_exceeded s"
  shows "let t = close_loop by_id n s st in
    if cs_cycle t then cyclic (known_of by_id)
    else cs_exceeded t \<or> walk_state (known_of by_id) starts (cs_marks t) []"
  using assms
proof (induction by_id n s st rule: close_loop.induct)
  case (1 by_id n s)
  then show ?case by (simp add: close_loop.simps flag_inv_def)
next
  case (2 by_id n s i st)
  moreover have "flag_inv by_id starts (s\<lparr>cs_marks := (cs_marks s)(i \<mapsto> 2)\<rparr>) st"
    using "2.prems"(1) walk_state_exit by (auto simp: flag_inv_def simp del: fun_upd_apply)
  ultimately show ?case by (simp add: close_loop.simps del: fun_upd_apply)
next
  case (3 by_id n s i st)
  consider "cs_marks s i = Some 2" | "cs_marks s i = Some 1"
    | "cs_marks s i \<noteq> Some 2" "cs_marks s i \<noteq> Some 1" "n \<le> cs_count s"
    | "cs_marks s i \<noteq> Some 2" "cs_marks s i \<noteq> Some 1" "cs_count s < n" by fastforce
  then show ?case
  proof cases
    case 1
    then have "flag_inv by_id starts s st"
      using "3.prems"(1) walk_state_skip [of "known_of by_id" starts "cs_marks s" i st] by (auto simp: flag_inv_def)
    with 1 "3.IH"(1) "3.prems"(2) show ?thesis by (simp add: close_loop.simps)
  next
    case 2
    then have "flag_inv by_id starts (s\<lparr>cs_cycle := True\<rparr>) st"
      using "3.prems"(1) walk_state_closes [of "known_of by_id" starts "cs_marks s" i st]
      by (auto simp: flag_inv_def split: if_splits)
    with 2 "3.IH"(2) "3.prems"(2) show ?thesis by (simp add: close_loop.simps)
  next
    case 3
    with "3.prems" show ?thesis by (simp add: close_loop.simps flag_inv_def)
  next
    case 4
    define s' where "s' = s\<lparr>cs_count := cs_count s + 1, cs_marks := (cs_marks s)(i \<mapsto> 1), cs_closed := cs_closed s @ [i],
       cs_dangling := cs_dangling s @ map (\<lambda>p. (i, p)) (rev (missing_of by_id i))\<rparr>"
    have "flag_inv by_id starts s' (map Enter (known_of by_id i) @ Exit i # st)"
      using "3.prems"(1) walk_state_enter [of "known_of by_id" starts "cs_marks s" i st] 4(1,2)
      by (auto simp: flag_inv_def s'_def simp del: fun_upd_apply)
    with 4 "3.IH"(3) "3.prems"(2) show ?thesis
      unfolding s'_def by (simp add: close_loop.simps del: fun_upd_apply)
  qed
qed


section \<open>The report\<close>

lemma cyclic_dom: "cyclic (known_of by_id) \<Longrightarrow> \<exists>i \<in> dom by_id. (i, i) \<in> (parent_rel (known_of by_id))\<^sup>+"
proof -
  assume "cyclic (known_of by_id)"
  then obtain i where i: "(i, i) \<in> (parent_rel (known_of by_id))\<^sup>+" by (auto simp: cyclic_def)
  then obtain p where "(i, p) \<in> parent_rel (known_of by_id)" by (auto dest: tranclD)
  then have "i \<in> dom by_id" using known_of_outside [of i by_id] by (force simp: parent_rel_def)
  with i show ?thesis by blast
qed

definition close_start :: close_state where
  "close_start = \<lparr>cs_marks = Map.empty, cs_closed = [], cs_dangling = [], cs_count = 0, cs_cycle = False,
     cs_exceeded = False\<rparr>"

lemma close_loop_result:
  assumes "set starts = dom by_id"
  shows "let t = close_loop by_id n close_start (map Enter starts) in
    (cs_exceeded t \<longleftrightarrow> n < card (dom by_id)) \<and> (cs_cycle t \<longrightarrow> cyclic (known_of by_id)) \<and>
    (\<not> cs_exceeded t \<longrightarrow> (cs_cycle t \<longleftrightarrow> cyclic (known_of by_id)) \<and> set (cs_closed t) = dom by_id \<and>
      set (cs_dangling t) = {(i, p). i \<in> dom by_id \<and> p \<in> set (missing_of by_id i)})"
proof -
  define t where "t = close_loop by_id n close_start (map Enter starts)"
  have fin: "finite (dom by_id)" using assms by (metis finite_set)
  have "cover_inv by_id (dom by_id) n close_start (map Enter starts)"
    using assms by (auto simp: cover_inv_def close_start_def image_image)
  from close_loop_covers [OF this fin] have cover: "cover_result by_id (dom by_id) n t" by (simp add: t_def)
  have "flag_inv by_id (dom by_id) close_start (map Enter starts)"
    using walk_state_start [of "known_of by_id" starts] assms by (simp add: flag_inv_def close_start_def)
  moreover have "\<not> cs_exceeded close_start" by (simp add: close_start_def)
  ultimately have flag: "if cs_cycle t then cyclic (known_of by_id)
      else cs_exceeded t \<or> walk_state (known_of by_id) (dom by_id) (cs_marks t) []"
    using close_loop_cycle [of by_id "dom by_id" close_start "map Enter starts" n] by (simp add: Let_def t_def)
  have closed: "set (cs_closed t) = dom by_id" "card (dom by_id) \<le> n" if "\<not> cs_exceeded t"
  proof -
    have "distinct (cs_closed t)" "length (cs_closed t) \<le> n" and eq: "set (cs_closed t) = dom by_id"
      using cover that by (auto simp: cover_result_def)
    then show "set (cs_closed t) = dom by_id" "card (dom by_id) \<le> n"
      by (simp_all add: distinct_card eq [symmetric])
  qed
  have "cs_cycle t" if fits: "\<not> cs_exceeded t" and cyc: "cyclic (known_of by_id)"
  proof (rule ccontr)
    assume "\<not> cs_cycle t"
    with flag fits have walk: "walk_state (known_of by_id) (dom by_id) (cs_marks t) []" by simp
    obtain i where "i \<in> dom by_id" "(i, i) \<in> (parent_rel (known_of by_id))\<^sup>+"
      using cyclic_dom [OF cyc] by blast
    with walk_state_done(2) [OF walk] show False by (meson ancestors.head)
  qed
  then show ?thesis
    using flag closed cover unfolding t_def [symmetric] Let_def
    by (auto simp: cover_result_def split: if_splits)
qed

definition edge_key :: "env \<Rightarrow> event_id \<times> event_id \<Rightarrow> string \<times> string" where
  "edge_key E = (\<lambda>(child, parent). (event_id_text E child, event_id_text E parent))"

lemma edge_key_inj:
  "base64_lawful E \<Longrightarrow> \<forall>(i, p) \<in> X. event_id_wf i \<and> event_id_wf p \<Longrightarrow> inj_on (edge_key E) X"
  by (auto simp: edge_key_def inj_on_def dest: event_id.key_inj)

lemma close_over_facts:
  fixes limits :: closure_limits
  assumes "base64_lawful E"
    and "\<forall>n \<in> set nodes. event_id_wf (node_event n) \<and> (\<forall>p \<in> set (node_parents n). event_id_wf p)"
  defines "by_id \<equiv> node_index E nodes" and "r \<equiv> close_over E nodes limits"
  shows "cr_exceeded r \<longleftrightarrow> cl_max_events limits < card (node_event ` set nodes)"
    and "cr_cycle r \<Longrightarrow> cyclic (known_of by_id)"
    and "\<not> cr_exceeded r \<Longrightarrow> cr_cycle r \<longleftrightarrow> cyclic (known_of by_id)"
    and "\<not> cr_exceeded r \<Longrightarrow> set (cr_closed r) = node_event ` set nodes"
    and "\<not> cr_exceeded r \<Longrightarrow> strictly_sorted (event_id_text E) (cr_closed r)"
    and "\<not> cr_exceeded r \<Longrightarrow>
      set (cr_dangling r) = {(i, p). i \<in> node_event ` set nodes \<and> p \<in> set (missing_of by_id i)}"
    and "\<not> cr_exceeded r \<Longrightarrow> strictly_sorted (edge_key E) (cr_dangling r)"
proof -
  define t where "t = close_loop by_id (cl_max_events limits) close_start
    (map Enter (sort_dedup (event_id_text E) (map node_event nodes)))"
  have dom: "dom by_id = node_event ` set nodes" by (simp add: by_id_def dom_node_index)
  have t: "cs_exceeded t \<longleftrightarrow> cl_max_events limits < card (dom by_id)" "cs_cycle t \<longrightarrow> cyclic (known_of by_id)"
    "\<not> cs_exceeded t \<longrightarrow> (cs_cycle t \<longleftrightarrow> cyclic (known_of by_id)) \<and> set (cs_closed t) = dom by_id \<and>
      set (cs_dangling t) = {(i, p). i \<in> dom by_id \<and> p \<in> set (missing_of by_id i)}"
    using close_loop_result [of "sort_dedup (event_id_text E) (map node_event nodes)" by_id "cl_max_events limits"] dom
    by (simp_all add: t_def Let_def)
  have r: "cr_closed r = sort_dedup (event_id_text E) (cs_closed t)" "cr_cycle r = cs_cycle t"
    "cr_exceeded r = cs_exceeded t" "cr_dangling r = sort_dedup (edge_key E) (cs_dangling t)"
    by (simp_all add: r_def close_over_def Let_def t_def by_id_def close_start_def edge_key_def)
  have parents: "event_id_wf p" if "by_id i = Some ps" "p \<in> set ps" for i p ps
    using map_of_SomeD [OF that(1) [unfolded by_id_def node_index_map_of]] that(2) assms(2) by auto
  have keys: "event_id_wf i" if "i \<in> dom by_id" for i
    using that assms(2) unfolding dom by blast
  have wf: "event_id_wf i \<and> event_id_wf p" if ip: "i \<in> dom by_id" "p \<in> set (missing_of by_id i)" for i p
  proof -
    obtain ps where "by_id i = Some ps" using ip(1) by blast
    moreover from this have "p \<in> set ps" using ip(2) by (simp add: missing_of_def)
    ultimately show ?thesis using parents keys ip(1) by blast
  qed
  show "cr_exceeded r \<longleftrightarrow> cl_max_events limits < card (node_event ` set nodes)"
    "cr_cycle r \<Longrightarrow> cyclic (known_of by_id)"
    using t(1,2) unfolding r dom [symmetric] by blast+
  assume "\<not> cr_exceeded r"
  then have "\<not> cs_exceeded t" unfolding r .
  with t(3) have full: "cs_cycle t \<longleftrightarrow> cyclic (known_of by_id)" "set (cs_closed t) = dom by_id"
    "set (cs_dangling t) = {(i, p). i \<in> dom by_id \<and> p \<in> set (missing_of by_id i)}" by blast+
  show "cr_cycle r \<longleftrightarrow> cyclic (known_of by_id)" "set (cr_closed r) = node_event ` set nodes"
    "set (cr_dangling r) = {(i, p). i \<in> node_event ` set nodes \<and> p \<in> set (missing_of by_id i)}"
    unfolding r dom [symmetric] set_sort_dedup by (rule full)+
  have "\<forall>i \<in> set (cs_closed t). event_id_wf i" using keys unfolding full(2) by blast
  then show "strictly_sorted (event_id_text E) (cr_closed r)"
    unfolding r by (rule event_id.canonical_sort_dedup [OF assms(1)])
  have "\<forall>(i, p) \<in> set (cs_dangling t). event_id_wf i \<and> event_id_wf p" using wf unfolding full(3) by blast
  then show "strictly_sorted (edge_key E) (cr_dangling r)"
    unfolding r by (intro strictly_sorted_sort_dedup edge_key_inj [OF assms(1)])
qed

end
