(* ===== verification/Closure_Store.thy ===== *)
theory Closure_Store
  imports Closure_Facts Closure_Graph
begin

text \<open>
  \<open>close_selection\<close> of \<open>src/src/closure.rs\<close> on a store that satisfies its invariant: the pure
  closure of what the strict walk loads is sound, so the closed set is the ancestry of the selected
  events with the critical candidates, and every refusal has one of the documented reasons.
\<close>

section \<open>The pure closure of a walk\<close>

lemma walk_index:
  assumes "exact_walk E d c limits heads nodes total_bytes" "node_index E nodes i = Some ps"
  shows "i \<in> ancestry E d heads" "set ps = set (store_parents E d i)"
proof -
  obtain n where "n \<in> set nodes" "node_event n = i" "ps = sort_dedup (event_id_text E) (node_parents n)"
    using map_of_SomeD [OF assms(2) [unfolded node_index_map_of]] by auto
  then show "i \<in> ancestry E d heads" "set ps = set (store_parents E d i)"
    using assms(1) by (auto simp: exact_walk_def)
qed

lemma walk_keys:
  "exact_walk E d c limits heads nodes total_bytes \<Longrightarrow> dom (node_index E nodes) = ancestry E d heads"
  by (simp add: dom_node_index exact_walk_def)

lemma walk_known:
  "exact_walk E d c limits heads nodes total_bytes \<Longrightarrow>
    set (known_of (node_index E nodes) i) \<subseteq> set (store_parents E d i)"
  using walk_index(2) [of E d c limits heads nodes total_bytes i] by (cases "node_index E nodes i") (auto simp: known_of_def)

lemma walk_not_cyclic:
  assumes "store_inv E d" "exact_walk E d c limits heads nodes total_bytes"
  shows "\<not> cyclic (known_of (node_index E nodes))"
proof
  assume "cyclic (known_of (node_index E nodes))"
  then obtain i where "(i, i) \<in> (parent_rel (known_of (node_index E nodes)))\<^sup>+" by (auto simp: cyclic_def)
  moreover have "parent_rel (known_of (node_index E nodes)) \<subseteq> parent_rel (store_parents E d)"
    using walk_known [OF assms(2)] by (auto simp: parent_rel_def)
  ultimately have "(i, i) \<in> (parent_rel (store_parents E d))\<^sup>+" by (rule trancl_mono)
  with store_parents_acyclic [OF assms(1)] show False by blast
qed

lemma walk_not_missing:
  assumes "exact_walk E d c limits heads nodes total_bytes"
  shows "missing_of (node_index E nodes) i = []"
proof (cases "node_index E nodes i")
  case (Some ps)
  have "node_index E nodes p \<noteq> None" if "p \<in> set ps" for p
  proof -
    have "p \<in> ancestry E d heads"
      using that walk_index [OF assms Some] parent_ancestry [of i E d heads p] by simp
    then show ?thesis using walk_keys [OF assms] by blast
  qed
  then show ?thesis using Some by (simp add: missing_of_def filter_empty_conv)
qed (simp add: missing_of_def)

lemma walk_closes:
  assumes "env_lawful E" "store_inv E d" "exact_walk E d c limits heads nodes total_bytes"
  shows "report_check (close_over E nodes limits) = Inr ()"
    and "set (cr_closed (close_over E nodes limits)) = ancestry E d heads"
    and "strictly_sorted (event_id_text E) (cr_closed (close_over E nodes limits))"
proof -
  let ?r = "close_over E nodes limits"
  have base: "base64_lawful E" using assms(1) by (simp add: env_lawful_def)
  have stored: "event_id_wf i" if "i \<in> ancestry E d heads" for i
    using that assms(3) stored_in_has_event has_event_wf [OF assms(2)] by (auto simp: exact_walk_def)
  have events: "node_event ` set nodes = ancestry E d heads" using assms(3) by (simp add: exact_walk_def)
  have wf: "\<forall>n \<in> set nodes. event_id_wf (node_event n) \<and> (\<forall>p \<in> set (node_parents n). event_id_wf p)"
  proof
    fix n assume n: "n \<in> set nodes"
    then have "node_event n \<in> ancestry E d heads" "node_parents n = store_parents E d (node_event n)"
      using assms(3) events by (auto simp: exact_walk_def)
    then show "event_id_wf (node_event n) \<and> (\<forall>p \<in> set (node_parents n). event_id_wf p)"
      using stored parent_ancestry by auto
  qed
  note facts = close_over_facts [OF base wf, of limits]
  have "\<not> cr_exceeded ?r" using facts(1) assms(3) events by (simp add: exact_walk_def)
  note full = facts(3-6) [OF this]
  have "cr_dangling ?r = []" using full(4) by (simp add: walk_not_missing [OF assms(3)])
  then show "report_check ?r = Inr ()"
    using full(1) walk_not_cyclic [OF assms(2,3)] \<open>\<not> cr_exceeded ?r\<close> by (simp add: report_check_def)
  show "set (cr_closed ?r) = ancestry E d heads" "strictly_sorted (event_id_text E) (cr_closed ?r)"
    using full(2,3) events by simp_all
qed

section \<open>Critical coverage\<close>

definition critical_in :: "env \<Rightarrow> db \<Rightarrow> critical_policy \<Rightarrow> event_id \<Rightarrow> bool" where
  "critical_in E d policy i \<longleftrightarrow>
     (case lookup_event E d i of None \<Rightarrow> False | Some ev \<Rightarrow> is_critical policy (body_kind (ev_body ev)))"

definition uncovered :: "db \<Rightarrow> context_id \<Rightarrow> event_id set \<Rightarrow> event_id list \<Rightarrow> closure_error \<Rightarrow> bool" where
  "uncovered d c covered candidates e \<longleftrightarrow>
     (\<exists>i \<in> set candidates. i \<notin> covered \<and> \<not> stored_in d i c \<and>
       e = (if has_event d i then WrongClosureContext i else UnverifiableClosure i))"

lemma cover_candidate_lookup:
  assumes "store_inv E d"
  shows "cover_candidate E d c policy i (xs, added) =
    (if bsearch (event_id_text E) (event_id_text E i) xs then Inr (xs, added)
     else if \<not> has_event d i then Inl (UnverifiableClosure i)
     else if \<not> stored_in d i c then Inl (WrongClosureContext i)
     else if critical_in E d policy i then Inr (xs @ [i], added @ [i]) else Inr (xs, added))"
  using lookup_event_None [OF assms, of i] stored_in_iff [OF assms, of i c]
  by (auto simp: cover_candidate_def store_event_lookup [OF assms] critical_in_def event_context_def
      split: option.splits)

lemma cover_fold:
  assumes "env_lawful E" "store_inv E d" "\<forall>i \<in> set base. stored_in d i c"
    and "\<forall>i \<in> set candidates. event_id_wf i" "\<forall>i \<in> set added. stored_in d i c"
  shows "case foldR (cover_candidate E d c policy) candidates (base @ added, added) of
      Inl e \<Rightarrow> uncovered d c (set base \<union> set added) candidates e
    | Inr (xs, ys) \<Rightarrow> xs = base @ ys \<and> set added \<subseteq> set ys \<and>
        set ys \<subseteq> set added \<union> {i \<in> set candidates. critical_in E d policy i} \<and>
        (\<forall>i \<in> set candidates. i \<notin> set base \<union> set added \<longrightarrow> stored_in d i c \<and>
          (critical_in E d policy i \<longrightarrow> i \<in> set ys))"
  using assms(4,5)
proof (induction candidates arbitrary: added)
  case (Cons i candidates)
  have wf: "event_id_wf i" "\<forall>j \<in> set base \<union> set added. event_id_wf j"
    using Cons.prems assms(3) stored_in_has_event has_event_wf [OF assms(2)] by auto
  have found: "i \<in> set base \<union> set added" if "bsearch (event_id_text E) (event_id_text E i) (base @ added)"
    using bsearch_found [OF that] event_id.key_inj [of E i] wf assms(1)
    by (auto simp: env_lawful_def)
  consider "bsearch (event_id_text E) (event_id_text E i) (base @ added)"
    | "\<not> bsearch (event_id_text E) (event_id_text E i) (base @ added)" "\<not> stored_in d i c"
    | "\<not> bsearch (event_id_text E) (event_id_text E i) (base @ added)" "stored_in d i c" "critical_in E d policy i"
    | "\<not> bsearch (event_id_text E) (event_id_text E i) (base @ added)" "stored_in d i c" "\<not> critical_in E d policy i"
    by blast
  then show ?case
  proof cases
    case 1
    with Cons.IH [of added] Cons.prems found show ?thesis
      by (auto simp: cover_candidate_lookup [OF assms(2)] uncovered_def split: sum.splits)
  next
    case 2
    with assms(3) Cons.prems(2) show ?thesis
      by (auto simp: cover_candidate_lookup [OF assms(2)] uncovered_def)
  next
    case 3
    with Cons.IH [of "added @ [i]"] Cons.prems wf show ?thesis
      by (auto simp: cover_candidate_lookup [OF assms(2)] uncovered_def stored_in_has_event split: sum.splits)
  next
    case 4
    with Cons.IH [of added] Cons.prems show ?thesis
      by (auto simp: cover_candidate_lookup [OF assms(2)] uncovered_def stored_in_has_event split: sum.splits)
  qed
qed auto

section \<open>References\<close>

definition stored_reference :: "env \<Rightarrow> db \<Rightarrow> context_id \<Rightarrow> event_id \<Rightarrow> source_reference" where
  "stored_reference E d c i =
     \<lparr>sr_event = i, sr_context = c, sr_kind = (case lookup_event E d i of None \<Rightarrow> [] | Some ev \<Rightarrow> body_kind (ev_body ev)),
      sr_author = (case lookup_event E d i of None \<Rightarrow> AuthorId [] | Some ev \<Rightarrow> body_author (ev_body ev)),
      sr_bytes = payload_len E d i\<rparr>"

lemma stored_reference_simps [simp]:
  "sr_event (stored_reference E d c i) = i" "sr_bytes (stored_reference E d c i) = payload_len E d i"
  by (simp_all add: stored_reference_def)

lemma sr_event_stored [simp]: "map (\<lambda>i. sr_event (stored_reference E d c i)) ids = ids"
  by (simp add: map_idI)

lemma sr_event_image [simp]: "sr_event ` stored_reference E d c ` X = X"
  by (simp add: image_image)

lemma payload_len_bound: "store_inv E d \<Longrightarrow> payload_len E d i \<le> MAX_CANONICAL_PAYLOAD_BYTES"
  by (cases "lookup_event E d i") (auto simp: payload_len_def elim: stored_payload)

lemma load_reference_stored:
  assumes "store_inv E d" "stored_in d i c"
  shows "load_reference E d i (refs, t) =
    (if t + payload_len E d i < usize_limit
     then Inr (refs @ [stored_reference E d c i], t + payload_len E d i) else Inl ClosureLimit)"
proof -
  obtain ev where ev: "lookup_event E d i = Some ev" "event_context ev = c"
    using stored_in_iff [OF assms(1)] assms(2) by blast
  obtain p where "canonical_payload_bytes E (body_payload (ev_body ev)) = Inr p" "payload_len E d i = length p"
    by (rule stored_payload [OF assms(1) ev(1)])
  then show ?thesis
    using ev stored_event_facts(3) [OF assms(1) ev(1)]
    by (auto simp: load_reference_def store_event_lookup [OF assms(1)] source_from_signed_def
        reference_from_source_def stored_reference_def event_context_def checked_add_def)
qed

lemma load_references:
  assumes "store_inv E d" "\<forall>i \<in> set ids. stored_in d i c" "t + sum_list (map (payload_len E d) ids) < usize_limit"
  shows "foldR (load_reference E d) ids (refs, t) =
    Inr (refs @ map (stored_reference E d c) ids, t + sum_list (map (payload_len E d) ids))"
  using assms(2,3)
  by (induction ids arbitrary: refs t) (auto simp: load_reference_stored [OF assms(1)] add.assoc)

lemma payload_sum_bound:
  assumes "store_inv E d" "length ids \<le> MAX_CLOSURE_EVENTS + MAX_CLOSURE_CANDIDATES"
  shows "sum_list (map (payload_len E d) ids) < usize_limit"
proof -
  have "sum_list (map (payload_len E d) ids) \<le> length ids * MAX_CANONICAL_PAYLOAD_BYTES"
    by (induction ids) (auto intro: add_mono payload_len_bound [OF assms(1)])
  also have "\<dots> \<le> (MAX_CLOSURE_EVENTS + MAX_CLOSURE_CANDIDATES) * MAX_CANONICAL_PAYLOAD_BYTES"
    using assms(2) by (rule mult_right_mono) simp
  also have "\<dots> < usize_limit"
    by (simp add: MAX_CLOSURE_EVENTS_def MAX_CLOSURE_CANDIDATES_def MAX_CANONICAL_PAYLOAD_BYTES_def usize_limit_def)
  finally show ?thesis .
qed

section \<open>The closed selection\<close>

definition closure_refused ::
  "env \<Rightarrow> db \<Rightarrow> context_id \<Rightarrow> event_id list \<Rightarrow> event_id list \<Rightarrow> closure_limits \<Rightarrow> closure_error \<Rightarrow> bool" where
  "closure_refused E d c selected candidates limits e \<longleftrightarrow>
     (e = ClosureLimit \<and> (cl_max_events limits = 0 \<or> cl_max_events limits > MAX_CLOSURE_EVENTS \<or>
        cl_max_bytes limits = 0 \<or> cl_max_bytes limits > MAX_CLOSURE_BYTES \<or>
        card (set candidates) > MAX_CLOSURE_CANDIDATES)) \<or>
     walk_refused E d c limits closure_errors selected e \<or>
     uncovered d c (ancestry E d selected) candidates e"

definition exact_closure ::
  "env \<Rightarrow> db \<Rightarrow> context_id \<Rightarrow> event_id list \<Rightarrow> event_id list \<Rightarrow> critical_policy \<Rightarrow> closure_limits \<Rightarrow>
    closed_selection \<Rightarrow> bool" where
  "exact_closure E d c selected candidates policy limits r \<longleftrightarrow>
     (let ids = map sr_event (cd_references r);
          critical = {i \<in> set candidates. critical_in E d policy i};
          covered = ancestry E d selected
      in cd_context r = c \<and> cd_limits r = limits \<and>
         cd_selected r = sort_dedup (event_id_text E) selected \<and>
         set ids = covered \<union> critical \<and> strictly_sorted (event_id_text E) ids \<and>
         (\<forall>i \<in> set ids. stored_in d i c) \<and>
         cd_references r = map (stored_reference E d c) ids \<and>
         set (cd_added_critical r) \<subseteq> critical \<and> critical - covered \<subseteq> set (cd_added_critical r) \<and>
         cd_total_bytes r = sum_list (map (payload_len E d) ids))"

lemma length_strictly_sorted: "strictly_sorted key xs \<Longrightarrow> length xs = card (set xs)"
  by (simp add: distinct_card strictly_sorted_distinct)

text \<open>The second half of \<open>close_selection\<close>: critical coverage, then the references.\<close>

definition cover_and_load ::
  "env \<Rightarrow> db \<Rightarrow> context_id \<Rightarrow> critical_policy \<Rightarrow> event_id list \<Rightarrow> event_id list \<Rightarrow>
    closure_error + (source_reference list \<times> event_id list \<times> nat)" where
  "cover_and_load E d c policy cand base =
     bindR (foldR (cover_candidate E d c policy) cand (base, [])) (\<lambda>(xs, added).
       bindR (foldR (load_reference E d) (sort_dedup (event_id_text E) xs) ([], 0)) (\<lambda>(references, total_bytes).
         Inr (references, sort_dedup (event_id_text E) added, total_bytes)))"

lemma cover_and_load_spec:
  assumes "env_lawful E" "store_inv E d" "\<forall>i \<in> set base. stored_in d i c" "\<forall>i \<in> set cand. event_id_wf i"
    and "card (set base) \<le> MAX_CLOSURE_EVENTS" "length cand \<le> MAX_CLOSURE_CANDIDATES"
  shows "case cover_and_load E d c policy cand base of
      Inl e \<Rightarrow> uncovered d c (set base) cand e
    | Inr (references, added, total_bytes) \<Rightarrow> (\<exists>ids.
        set ids = set base \<union> {i \<in> set cand. critical_in E d policy i} \<and>
        strictly_sorted (event_id_text E) ids \<and> (\<forall>i \<in> set ids. stored_in d i c) \<and>
        references = map (stored_reference E d c) ids \<and> total_bytes = sum_list (map (payload_len E d) ids) \<and>
        set added \<subseteq> {i \<in> set cand. critical_in E d policy i} \<and>
        {i \<in> set cand. critical_in E d policy i} - set base \<subseteq> set added)"
proof -
  have cover: "case foldR (cover_candidate E d c policy) cand (base, []) of
      Inl e \<Rightarrow> uncovered d c (set base) cand e
    | Inr (xs, ys) \<Rightarrow> xs = base @ ys \<and> set ys \<subseteq> {i \<in> set cand. critical_in E d policy i} \<and>
        (\<forall>i \<in> set cand. i \<notin> set base \<longrightarrow> stored_in d i c \<and> (critical_in E d policy i \<longrightarrow> i \<in> set ys))"
    using cover_fold [OF assms(1-4), of "[]" policy] by (auto split: sum.splits)
  show ?thesis
  proof (cases "foldR (cover_candidate E d c policy) cand (base, [])")
    case (Inl e)
    then show ?thesis using cover by (simp add: cover_and_load_def)
  next
    case (Inr r)
    obtain xs added where r: "r = (xs, added)" by fastforce
    define ids where "ids = sort_dedup (event_id_text E) xs"
    have xs: "xs = base @ added" "set added \<subseteq> {i \<in> set cand. critical_in E d policy i}"
      "\<forall>i \<in> set cand. i \<notin> set base \<longrightarrow> stored_in d i c \<and> (critical_in E d policy i \<longrightarrow> i \<in> set added)"
      using cover Inr r by auto
    have set_ids: "set ids = set base \<union> {i \<in> set cand. critical_in E d policy i}"
      using xs by (auto simp: ids_def)
    have ids_c: "\<forall>i \<in> set ids. stored_in d i c" using xs(3) assms(3) unfolding set_ids by blast
    then have "\<forall>i \<in> set xs. event_id_wf i"
      using stored_in_has_event has_event_wf [OF assms(2)] by (auto simp: ids_def)
    then have ids_sorted: "strictly_sorted (event_id_text E) ids"
      unfolding ids_def using assms(1) by (intro event_id.canonical_sort_dedup) (simp_all add: env_lawful_def)
    have "card (set ids) \<le> card (set base) + card (set cand)"
      unfolding set_ids by (rule order_trans [OF card_Un_le add_left_mono [OF card_mono]]) auto
    then have "length ids \<le> MAX_CLOSURE_EVENTS + MAX_CLOSURE_CANDIDATES"
      using length_strictly_sorted [OF ids_sorted] assms(5,6) card_length [of cand] by linarith
    then have "0 + sum_list (map (payload_len E d) ids) < usize_limit"
      using payload_sum_bound [OF assms(2)] by simp
    from load_references [OF assms(2) ids_c this, of "[]"] Inr r
    have "cover_and_load E d c policy cand base =
        Inr (map (stored_reference E d c) ids, sort_dedup (event_id_text E) added, sum_list (map (payload_len E d) ids))"
      by (simp add: cover_and_load_def ids_def [symmetric])
    then show ?thesis using set_ids ids_sorted ids_c xs(2,3) by auto
  qed
qed

lemma close_selection_walk:
  assumes "closure_limits_new (cl_max_events limits) (cl_max_bytes limits) = Inr l"
    and "length (sort_dedup (event_id_text E) candidates) \<le> MAX_CLOSURE_CANDIDATES"
    and "load_closure_nodes E d c (sort_dedup (event_id_text E) selected) limits = Inr nodes"
    and "report_check (close_over E nodes limits) = Inr ()"
  shows "close_selection E d c selected candidates policy limits =
    bindR (cover_and_load E d c policy (sort_dedup (event_id_text E) candidates)
        (cr_closed (close_over E nodes limits))) (\<lambda>(references, added, total_bytes).
      Inr \<lparr>cd_context = c, cd_references = references, cd_selected = sort_dedup (event_id_text E) selected,
           cd_added_critical = added, cd_total_bytes = total_bytes, cd_limits = limits\<rparr>)"
proof -
  have [simp]: "l = limits" using assms(1) by (auto simp: closure_limits_new_Inr_iff)
  let ?cover = "foldR (cover_candidate E d c policy) (sort_dedup (event_id_text E) candidates)
    (cr_closed (close_over E nodes limits), [])"
  show ?thesis
  proof (cases ?cover)
    case (Inl e)
    then show ?thesis using assms by (simp add: close_selection_def cover_and_load_def Let_def not_le)
  next
    case (Inr r)
    then show ?thesis using assms
      by (cases "foldR (load_reference E d) (sort_dedup (event_id_text E) (fst r)) ([], 0)")
        (simp_all add: close_selection_def cover_and_load_def Let_def case_prod_beta)
  qed
qed

lemma close_selection_spec:
  assumes "env_lawful E" "store_inv E d" "\<forall>i \<in> set selected \<union> set candidates. event_id_wf i"
  shows "case close_selection E d c selected candidates policy limits of
      Inl e \<Rightarrow> closure_refused E d c selected candidates limits e
    | Inr r \<Rightarrow> exact_closure E d c selected candidates policy limits r"
proof -
  define sel where "sel = sort_dedup (event_id_text E) selected"
  define cand where "cand = sort_dedup (event_id_text E) candidates"
  have "strictly_sorted (event_id_text E) cand"
    using assms(1,3) by (auto simp: cand_def env_lawful_def intro!: event_id.canonical_sort_dedup)
  then have len: "length cand = card (set candidates)" by (simp add: length_strictly_sorted cand_def)
  have sets: "set sel = set selected" "set cand = set candidates" by (simp_all add: sel_def cand_def)
  have anc: "ancestry E d sel = ancestry E d selected" by (simp add: ancestry_def sets)
  consider (bad) e where "closure_limits_new (cl_max_events limits) (cl_max_bytes limits) = Inl e"
    | (many) l where "closure_limits_new (cl_max_events limits) (cl_max_bytes limits) = Inr l"
        "MAX_CLOSURE_CANDIDATES < length cand"
    | (walk) l where "closure_limits_new (cl_max_events limits) (cl_max_bytes limits) = Inr l"
        "length cand \<le> MAX_CLOSURE_CANDIDATES"
    by (cases "closure_limits_new (cl_max_events limits) (cl_max_bytes limits)") (auto simp: not_le [symmetric])
  then show ?thesis
  proof cases
    case bad
    then show ?thesis by (auto simp: close_selection_def closure_refused_def closure_limits_new_def split: if_splits)
  next
    case many
    then show ?thesis using len
      by (simp add: close_selection_def closure_refused_def cand_def [symmetric])
  next
    case walk
    then have "cl_max_bytes limits \<le> MAX_CLOSURE_BYTES" "l = limits" and max: "cl_max_events limits \<le> MAX_CLOSURE_EVENTS"
      by (auto simp: closure_limits_new_Inr_iff)
    then have spec: "walk_spec E d c limits closure_errors sel
        (strict_walk E d c limits closure_errors Map.empty [] (map (\<lambda>i. EnterFrom i None) sel) 0 0)"
      by (intro strict_walk_exact [OF assms(2) closure_limits_small])
    show ?thesis
    proof (cases "load_closure_nodes E d c sel limits")
      case (Inl e)
      then have "walk_refused E d c limits closure_errors selected e"
        using spec by (auto simp: load_closure_nodes_def walk_spec_def walk_refused_def anc sets bindR_Inl_iff)
      then show ?thesis using walk Inl \<open>l = limits\<close>
        by (simp add: close_selection_def closure_refused_def Let_def sel_def [symmetric] cand_def [symmetric])
    next
      case (Inr nodes)
      then obtain n where exact: "exact_walk E d c limits sel nodes n"
        using spec by (auto simp: load_closure_nodes_def walk_spec_def bindR_Inr_iff)
      note closes = walk_closes [OF assms(1,2) exact, unfolded anc]
      have stored: "\<forall>i \<in> ancestry E d selected. stored_in d i c" "card (ancestry E d selected) \<le> MAX_CLOSURE_EVENTS"
        using exact max by (simp_all add: exact_walk_def anc)
      show ?thesis
        using cover_and_load_spec [OF assms(1,2), of "cr_closed (close_over E nodes limits)" c cand policy]
          stored assms(3) walk(2) closes(2) sets(2)
          close_selection_walk [OF walk(1) walk(2) [unfolded cand_def] Inr [unfolded sel_def] closes(1), of policy]
        by (auto simp: closure_refused_def exact_closure_def uncovered_def cand_def [symmetric] comp_def Let_def
            split: sum.splits)
    qed
  qed
qed

end
