(* ===== verification/Closure_Spec.thy ===== *)
theory Closure_Spec
  imports Closure_Store
begin

text \<open>
  What \<open>src/src/closure.rs\<close> promises, stated apart from its code: the parents a node list gives to
  an event, the edges between the listed events, and a closed set that fits its limits. The lemmas
  connect them to \<open>close_over\<close> and \<open>close_selection\<close>.
\<close>

section \<open>The graph of a node list\<close>

text \<open>The parents of an event: those of its last node in the list, none when it is not listed.\<close>

definition listed_parents :: "event_node list \<Rightarrow> event_id \<Rightarrow> event_id set" where
  "listed_parents nodes i =
     (case find (\<lambda>n. node_event n = i) (rev nodes) of None \<Rightarrow> {} | Some n \<Rightarrow> set (node_parents n))"

definition listed_edges :: "event_node list \<Rightarrow> (event_id \<times> event_id) set" where
  "listed_edges nodes = {(i, p). p \<in> listed_parents nodes i \<and> p \<in> node_event ` set nodes}"

definition dangling_edges :: "event_node list \<Rightarrow> (event_id \<times> event_id) set" where
  "dangling_edges nodes = {(i, p). p \<in> listed_parents nodes i \<and> p \<notin> node_event ` set nodes}"

lemma map_of_find: "map_of (map (\<lambda>n. (f n, g n)) xs) i = map_option g (find (\<lambda>n. f n = i) xs)"
  by (induction xs) auto

lemma listed_index:
  "listed_parents nodes i = (case node_index E nodes i of None \<Rightarrow> {} | Some ps \<Rightarrow> set ps)"
  by (simp add: node_index_map_of rev_map map_of_find listed_parents_def split: option.split)

lemma index_listed: "node_index E nodes p = None \<longleftrightarrow> p \<notin> node_event ` set nodes"
  by (simp only: dom_node_index [of E, symmetric] domIff not_not)

lemma set_known_of: "set (known_of m i) = {p \<in> (case m i of None \<Rightarrow> {} | Some ps \<Rightarrow> set ps). m p \<noteq> None}"
  by (cases "m i") (simp_all add: known_of_def)

lemma set_missing_of: "set (missing_of m i) = {p \<in> (case m i of None \<Rightarrow> {} | Some ps \<Rightarrow> set ps). m p = None}"
  by (cases "m i") (simp_all add: missing_of_def)

lemma known_edges: "parent_rel (known_of (node_index E nodes)) = listed_edges nodes"
  by (simp add: parent_rel_def listed_edges_def set_known_of listed_index [of nodes _ E, symmetric] index_listed)

lemma cyclic_edges: "cyclic (known_of (node_index E nodes)) \<longleftrightarrow> (\<exists>i. (i, i) \<in> (listed_edges nodes)\<^sup>+)"
  by (simp add: cyclic_def known_edges)

lemma missing_edges:
  "{(i, p). i \<in> node_event ` set nodes \<and> p \<in> set (missing_of (node_index E nodes) i)} = dangling_edges nodes"
proof -
  have "i \<in> node_event ` set nodes" if "p \<in> listed_parents nodes i" for i p
    using that index_listed [of E nodes i] unfolding listed_index [of nodes i E]
    by (cases "node_index E nodes i") simp_all
  then show ?thesis
    by (auto simp: dangling_edges_def set_missing_of listed_index [of nodes _ E, symmetric] index_listed)
qed

section \<open>A closed set within its limits\<close>

definition critical_closed ::
  "env \<Rightarrow> db \<Rightarrow> event_id list \<Rightarrow> event_id list \<Rightarrow> critical_policy \<Rightarrow> event_id set" where
  "critical_closed E d selected candidates policy =
     ancestry E d selected \<union> {i \<in> set candidates. critical_in E d policy i}"

definition fits_limits :: "env \<Rightarrow> db \<Rightarrow> closure_limits \<Rightarrow> event_id set \<Rightarrow> bool" where
  "fits_limits E d limits ids \<longleftrightarrow>
     card ids \<le> cl_max_events limits \<and> sum (payload_len E d) ids \<le> cl_max_bytes limits"

lemma close_selection_fails_closed:
  assumes "env_lawful E" "store_inv E d" "\<not> fits_limits E d limits (ancestry E d selected)"
  shows "\<not> is_ok (close_selection E d c selected candidates policy limits)"
proof
  let ?sel = "sort_dedup (event_id_text E) selected"
  assume "is_ok (close_selection E d c selected candidates policy limits)"
  then obtain l nodes where limits: "closure_limits_new (cl_max_events limits) (cl_max_bytes limits) = Inr l"
    and nodes: "load_closure_nodes E d c ?sel l = Inr nodes"
    by (auto simp: close_selection_def is_ok_iff bindR_Inr_iff Let_def split: if_splits)
  then have "cl_max_bytes limits \<le> MAX_CLOSURE_BYTES" "l = limits" by (auto simp: closure_limits_new_Inr_iff)
  then have "walk_spec E d c limits closure_errors ?sel
      (strict_walk E d c limits closure_errors Map.empty [] (map (\<lambda>i. EnterFrom i None) ?sel) 0 0)"
    by (intro strict_walk_exact [OF assms(2) closure_limits_small])
  then obtain n where "exact_walk E d c limits ?sel nodes n"
    using nodes \<open>l = limits\<close> by (auto simp: load_closure_nodes_def walk_spec_def bindR_Inr_iff)
  moreover have "ancestry E d ?sel = ancestry E d selected" by (simp add: ancestry_def)
  ultimately show False using assms(3) by (auto simp: exact_walk_def fits_limits_def)
qed

lemma exact_closure_fits:
  assumes "exact_closure E d c selected candidates policy limits r"
  shows "fits_limits E d limits (critical_closed E d selected candidates policy) \<longleftrightarrow>
    length (cd_references r) \<le> cl_max_events limits \<and> cd_total_bytes r \<le> cl_max_bytes limits"
proof -
  define ids where "ids = map sr_event (cd_references r)"
  have ids: "set ids = critical_closed E d selected candidates policy" "strictly_sorted (event_id_text E) ids"
    "cd_total_bytes r = sum_list (map (payload_len E d) ids)"
    using assms by (simp_all add: exact_closure_def Let_def critical_closed_def ids_def)
  have "cd_total_bytes r = sum (payload_len E d) (set ids)"
    using strictly_sorted_distinct [OF ids(2)] by (simp add: ids(3) sum_list_distinct_conv_sum_set)
  moreover have "length (cd_references r) = card (set ids)"
    using length_strictly_sorted [OF ids(2)] by (simp add: ids_def)
  ultimately show ?thesis unfolding ids(1) [symmetric] by (simp add: fits_limits_def)
qed

end
