(* ===== verification/Delta.thy ===== *)
theory Delta
  imports Closure
begin

text \<open>
  The recipient-known-history delta, \<open>src/src/delta.rs\<close>: a recipient's known history, the pure
  partition of a selection against it and the checked delta.
\<close>

definition MAX_DELTA_EVENTS :: nat where "MAX_DELTA_EVENTS = 100000"
definition MAX_DELTA_BYTES :: nat where "MAX_DELTA_BYTES = 67108864"

datatype delta_error =
    DeltaUnknownHead event_id | DeltaContextMismatch | DeltaWrongContext event_id | DeltaCycle
  | DeltaDangling event_id event_id | DeltaLimit | DeltaUnverifiable event_id | DeltaInvalidState
  | DeltaStore store_error | DeltaInternal

record recipient_state =
  rs_context :: context_id
  rs_head :: "event_id option"
  rs_closure :: "event_id list"
  rs_total_bytes :: nat

definition cold_start :: "context_id \<Rightarrow> recipient_state" where
  "cold_start c = \<lparr>rs_context = c, rs_head = None, rs_closure = [], rs_total_bytes = 0\<rparr>"

definition delta_errors :: "delta_error walk_errors" where
  "delta_errors = \<lparr>we_cycle = DeltaCycle, we_limit = DeltaLimit, we_dangling = DeltaDangling,
     we_unverifiable = DeltaUnverifiable, we_wrong_context = DeltaWrongContext, we_store = DeltaStore\<rparr>"

text \<open>A stated head must be an event of the context.\<close>

definition known_head ::
  "env \<Rightarrow> db \<Rightarrow> context_id \<Rightarrow> event_id \<Rightarrow> (store_error \<Rightarrow> 'e) \<Rightarrow> (event_id \<Rightarrow> 'e) \<Rightarrow> (event_id \<Rightarrow> 'e) \<Rightarrow>
    'e + unit" where
  "known_head E d c head store unknown wrong =
     (case store_event E d head of
        Inr (Some event) \<Rightarrow> if body_context (ev_body event) \<noteq> c then Inl (wrong head) else Inr ()
      | Inr None \<Rightarrow> Inl (unknown head)
      | Inl error \<Rightarrow> Inl (store error))"

definition at_head ::
  "env \<Rightarrow> db \<Rightarrow> context_id \<Rightarrow> event_id \<Rightarrow> closure_limits \<Rightarrow> delta_error + recipient_state" where
  "at_head E d c head limits =
     bindR (map_err (\<lambda>_. DeltaLimit) (closure_limits_new (cl_max_events limits) (cl_max_bytes limits))) (\<lambda>limits.
     bindR (known_head E d c head DeltaStore DeltaUnknownHead DeltaWrongContext) (\<lambda>_.
     bindR (strict_walk E d c limits delta_errors Map.empty [] [EnterFrom head None] 0 0) (\<lambda>(nodes, sum_bytes).
       Inr \<lparr>rs_context = c, rs_head = Some head,
            rs_closure = sort_dedup (event_id_text E) (map node_event nodes), rs_total_bytes = sum_bytes\<rparr>)))"

definition from_closure ::
  "env \<Rightarrow> context_id \<Rightarrow> event_id option \<Rightarrow> event_id list \<Rightarrow> nat \<Rightarrow> delta_error + recipient_state" where
  "from_closure E c head closure total_bytes =
     (let closure = sort_dedup (event_id_text E) closure
      in if length closure > MAX_DELTA_EVENTS then Inl DeltaLimit
         else if (case head of Some h \<Rightarrow> \<not> bsearch (event_id_text E) (event_id_text E h) closure | None \<Rightarrow> False)
         then Inl DeltaInvalidState
         else Inr \<lparr>rs_context = c, rs_head = head, rs_closure = closure, rs_total_bytes = total_bytes\<rparr>)"

section \<open>The partition\<close>

record delta_report =
  dr_delta :: "event_id list"
  dr_known :: "event_id list"

definition delta_over :: "env \<Rightarrow> event_id list \<Rightarrow> event_id list \<Rightarrow> delta_report" where
  "delta_over E selected closure =
     (let selected_ids = sort_dedup (event_id_text E) selected;
          closure_ids = sort_dedup (event_id_text E) closure;
          (known, delta) = fold (\<lambda>i (known, delta).
            if bsearch (event_id_text E) (event_id_text E i) closure_ids then (known @ [i], delta)
            else (known, delta @ [i])) selected_ids ([], [])
      in \<lparr>dr_delta = delta, dr_known = known\<rparr>)"

section \<open>The delta of a selection\<close>

record delta_record =
  de_context :: context_id
  de_recipient_head :: "event_id option"
  de_recipient_closure :: "event_id list"
  de_selected_known :: "event_id list"
  de_references :: "source_reference list"
  de_total_bytes :: nat
  de_limits :: closure_limits

definition delta_events :: "delta_record \<Rightarrow> event_id list" where
  "delta_events d = map sr_event (de_references d)"

definition is_cold_start :: "delta_record \<Rightarrow> bool" where
  "is_cold_start d \<longleftrightarrow> de_recipient_head d = None"

definition keep_reference ::
  "env \<Rightarrow> event_id list \<Rightarrow> source_reference \<Rightarrow> source_reference list \<times> nat \<Rightarrow>
    delta_error + (source_reference list \<times> nat)" where
  "keep_reference E delta reference = (\<lambda>(references, total_bytes).
     if bsearch (event_id_text E) (event_id_text E (sr_event reference)) delta
     then bindR (ok_or (checked_add total_bytes (sr_bytes reference)) DeltaLimit) (\<lambda>sum_bytes.
            Inr (references @ [reference], sum_bytes))
     else Inr (references, total_bytes))"

definition compute_delta ::
  "env \<Rightarrow> db \<Rightarrow> closed_selection \<Rightarrow> recipient_state \<Rightarrow> delta_error + delta_record" where
  "compute_delta E d selected recipient =
     (if rs_context recipient \<noteq> cd_context selected then Inl DeltaContextMismatch
      else bindR (case rs_head recipient of None \<Rightarrow> Inr ()
             | Some head \<Rightarrow> known_head E d (cd_context selected) head DeltaStore DeltaUnknownHead DeltaWrongContext) (\<lambda>_.
        let report = delta_over E (map sr_event (cd_references selected)) (rs_closure recipient)
        in if length (dr_delta report) > MAX_DELTA_EVENTS then Inl DeltaLimit
           else bindR (foldR (keep_reference E (dr_delta report)) (cd_references selected) ([], 0))
             (\<lambda>(references, total_bytes).
               if total_bytes > MAX_DELTA_BYTES then Inl DeltaLimit
               else Inr \<lparr>de_context = cd_context selected, de_recipient_head = rs_head recipient,
                         de_recipient_closure = rs_closure recipient, de_selected_known = dr_known report,
                         de_references = references, de_total_bytes = total_bytes,
                         de_limits = cd_limits selected\<rparr>)))"

end
