(* ===== verification/Handoff.thy ===== *)
theory Handoff
  imports Delta
begin

text \<open>
  State-bound handoffs and their negotiation, \<open>src/src/handoff.rs\<close>: a delta with explicit
  omissions, uncertainty markers and recorded re-inclusions, deliverable only while the
  recipient is still at the head the delta was computed against.
\<close>

definition MAX_OMISSIONS :: nat where "MAX_OMISSIONS = 4096"
definition MAX_UNCERTAINTY_NOTES :: nat where "MAX_UNCERTAINTY_NOTES = 64"
definition MAX_NOTE_BYTES :: nat where "MAX_NOTE_BYTES = 1024"

datatype handoff_error =
    Stale "event_id option" "event_id option" | HandoffUnknownHead event_id
  | HandoffWrongContext event_id | HandoffInvalidState | HandoffStore store_error
  | UnknownOmission event_id | HandoffDelta delta_error | HandoffInternal

datatype omission_reason = NotSelected | Deliberate | CapabilityMismatchReason

record omission =
  om_event :: event_id
  om_reason :: omission_reason

record omission_challenge =
  och_event :: event_id
  och_note :: string

record re_included =
  ri_event :: event_id
  ri_challenge :: omission_challenge

record handoff =
  ho_delta :: delta_record
  ho_omissions :: "omission list"
  ho_uncertainty :: "string list"
  ho_re_included :: "re_included list"

definition handoff_from_delta :: "env \<Rightarrow> delta_record \<Rightarrow> handoff_error + handoff" where
  "handoff_from_delta E delta =
     (if (case de_recipient_head delta of
            Some head \<Rightarrow> \<not> bsearch (event_id_text E) (event_id_text E head) (de_recipient_closure delta)
          | None \<Rightarrow> False)
      then Inl HandoffInvalidState
      else Inr \<lparr>ho_delta = delta, ho_omissions = [], ho_uncertainty = [], ho_re_included = []\<rparr>)"

definition handoff_events :: "handoff \<Rightarrow> event_id list" where
  "handoff_events h = delta_events (ho_delta h)"

section \<open>Validity\<close>

definition check_stated_head ::
  "env \<Rightarrow> db \<Rightarrow> context_id \<Rightarrow> event_id option \<Rightarrow> handoff_error + unit" where
  "check_stated_head E d c stated =
     (case stated of None \<Rightarrow> Inr ()
      | Some head \<Rightarrow> known_head E d c head HandoffStore HandoffUnknownHead HandoffWrongContext)"

definition verify_valid :: "env \<Rightarrow> db \<Rightarrow> handoff \<Rightarrow> event_id option \<Rightarrow> handoff_error + unit" where
  "verify_valid E d h current_head =
     (let c = de_context (ho_delta h) in
      bindR (check_stated_head E d c (de_recipient_head (ho_delta h))) (\<lambda>_.
      bindR (check_stated_head E d c current_head) (\<lambda>_.
        if de_recipient_head (ho_delta h) \<noteq> current_head
        then Inl (Stale (de_recipient_head (ho_delta h)) current_head) else Inr ())))"

definition verified_delta :: "env \<Rightarrow> db \<Rightarrow> handoff \<Rightarrow> event_id option \<Rightarrow> handoff_error + delta_record" where
  "verified_delta E d h current_head = bindR (verify_valid E d h current_head) (\<lambda>_. Inr (ho_delta h))"

section \<open>Omissions and markers\<close>

definition listed_omission :: "handoff \<Rightarrow> event_id \<Rightarrow> bool" where
  "listed_omission h i \<longleftrightarrow> list_ex (\<lambda>om. om_event om = i) (ho_omissions h)"

definition with_omission :: "env \<Rightarrow> handoff \<Rightarrow> event_id \<Rightarrow> omission_reason \<Rightarrow> handoff_error + handoff" where
  "with_omission E h i reason =
     (if bsearch (event_id_text E) (event_id_text E i) (handoff_events h) then Inl HandoffInvalidState
      else if listed_omission h i then Inr h
      else if length (ho_omissions h) \<ge> MAX_OMISSIONS then Inl HandoffInvalidState
      else Inr (h\<lparr>ho_omissions := sort_key (\<lambda>om. event_id_text E (om_event om))
             (ho_omissions h @ [\<lparr>om_event = i, om_reason = reason\<rparr>])\<rparr>))"

definition with_uncertainty :: "handoff \<Rightarrow> string \<Rightarrow> handoff_error + handoff" where
  "with_uncertainty h note =
     (if note = [] \<or> length note > MAX_NOTE_BYTES then Inl HandoffInvalidState
      else let notes = sort_dedup (\<lambda>n. n) (ho_uncertainty h @ [note])
        in if length notes > MAX_UNCERTAINTY_NOTES then Inl HandoffInvalidState
           else Inr (h\<lparr>ho_uncertainty := notes\<rparr>))"

section \<open>Negotiation\<close>

definition challenge_omission :: "handoff \<Rightarrow> event_id \<Rightarrow> string \<Rightarrow> handoff_error + omission_challenge" where
  "challenge_omission h i note =
     (if note = [] \<or> length note > MAX_NOTE_BYTES then Inl HandoffInvalidState
      else if \<not> listed_omission h i then Inl (UnknownOmission i)
      else Inr \<lparr>och_event = i, och_note = note\<rparr>)"

definition follow_up ::
  "env \<Rightarrow> db \<Rightarrow> handoff \<Rightarrow> closed_selection \<Rightarrow> recipient_state \<Rightarrow> omission_challenge \<Rightarrow>
    handoff_error + handoff" where
  "follow_up E d h chosen recipient challenge =
     (let text = event_id_text E; i = och_event challenge in
      bindR (verify_valid E d h (rs_head recipient)) (\<lambda>_.
        if \<not> listed_omission h i then Inl (UnknownOmission i)
        else if \<not> bsearch text (text i) (sort_key text (map sr_event (cd_references chosen)))
        then Inl HandoffInvalidState
        else bindR (map_err HandoffDelta (compute_delta E d chosen recipient)) (\<lambda>delta.
          if \<not> bsearch text (text i) (delta_events delta) then Inl HandoffInvalidState
          else bindR (handoff_from_delta E delta) (\<lambda>next_handoff.
            Inr (next_handoff
              \<lparr>ho_omissions := filter (\<lambda>om. \<not> bsearch text (text (om_event om)) (delta_events delta)) (ho_omissions h),
               ho_uncertainty := ho_uncertainty h,
               ho_re_included := ho_re_included h @ [\<lparr>ri_event = i, ri_challenge = challenge\<rparr>]\<rparr>)))))"

end
