(* ===== verification/Capability.thy ===== *)
theory Capability
  imports Handoff
begin

text \<open>
  Recipient capabilities, \<open>src/src/capability.rs\<close>: the recorded model of what a recipient can act
  on, the shaping of a handoff by it and the check that every mismatch is flagged honestly.
\<close>

definition MAX_CAPABILITIES :: nat where "MAX_CAPABILITIES = 64"
definition MAX_CAPABILITY_KINDS :: nat where "MAX_CAPABILITY_KINDS = 64"
definition MAX_CAPABILITY_TEXT_BYTES :: nat where "MAX_CAPABILITY_TEXT_BYTES = 128"
definition MAX_MISMATCH_NOTE_BYTES :: nat where "MAX_MISMATCH_NOTE_BYTES = 1024"

datatype capability_error =
    CapabilityStore store_error | CapabilityHandoff handoff_error | CapabilityInvalidState
  | NoteTooLong | CapabilityDrifted event_id | DishonestFlag event_id string
  | UnflaggedMismatch event_id string | CapabilityInternal

record capability =
  cap_name :: string
  cap_kinds :: "string list"

definition capability_new :: "string \<Rightarrow> string list \<Rightarrow> capability_error + capability" where
  "capability_new name kinds =
     (if name = [] \<or> length name > MAX_CAPABILITY_TEXT_BYTES then Inl CapabilityInvalidState
      else if kinds = [] \<or> length kinds > MAX_CAPABILITY_KINDS then Inl CapabilityInvalidState
      else if list_ex (\<lambda>kind. kind = [] \<or> length kind > MAX_CAPABILITY_TEXT_BYTES) kinds
      then Inl CapabilityInvalidState
      else Inr \<lparr>cap_name = name, cap_kinds = sort_dedup (\<lambda>k. k) kinds\<rparr>)"

definition capability_covers :: "capability \<Rightarrow> string \<Rightarrow> bool" where
  "capability_covers c kind \<longleftrightarrow> bsearch (\<lambda>k. k) kind (cap_kinds c)"

record recipient_capabilities =
  rcap_recipient :: author_id
  rcap_version :: "64 word"
  rcap_capabilities :: "capability list"

definition capabilities_new ::
  "author_id \<Rightarrow> 64 word \<Rightarrow> capability list \<Rightarrow> capability_error + recipient_capabilities" where
  "capabilities_new recipient version capabilities =
     (if length capabilities > MAX_CAPABILITIES then Inl CapabilityInvalidState
      else let capabilities = sort_key cap_name capabilities
        in if windows2_any (\<lambda>a b. cap_name a = cap_name b) capabilities then Inl CapabilityInvalidState
           else Inr \<lparr>rcap_recipient = recipient, rcap_version = version, rcap_capabilities = capabilities\<rparr>)"

definition covers :: "recipient_capabilities \<Rightarrow> string \<Rightarrow> bool" where
  "covers rc kind \<longleftrightarrow> list_ex (\<lambda>c. capability_covers c kind) (rcap_capabilities rc)"

record capability_report =
  cp_mismatches :: "(event_id \<times> string) list"
  cp_flagged :: bool

record shaped_handoff =
  sh_handoff :: handoff
  sh_report :: capability_report

definition mismatch_note :: "env \<Rightarrow> source_reference \<Rightarrow> string" where
  "mismatch_note E r =
     ''capability mismatch: event '' @ event_id_text E (sr_event r) @ '' kind '' @ sr_kind r"

definition shape_reference ::
  "env \<Rightarrow> recipient_capabilities \<Rightarrow> source_reference \<Rightarrow> handoff \<times> (event_id \<times> string) list \<Rightarrow>
    capability_error + (handoff \<times> (event_id \<times> string) list)" where
  "shape_reference E rc r = (\<lambda>(shaped, mismatches).
     if covers rc (sr_kind r) then Inr (shaped, mismatches)
     else if length (mismatch_note E r) > MAX_MISMATCH_NOTE_BYTES then Inl NoteTooLong
     else bindR (map_err CapabilityHandoff (with_uncertainty shaped (mismatch_note E r))) (\<lambda>shaped.
       Inr (shaped, mismatches @ [(sr_event r, sr_kind r)])))"

definition shape_handoff ::
  "env \<Rightarrow> handoff \<Rightarrow> recipient_capabilities \<Rightarrow> capability_error + shaped_handoff" where
  "shape_handoff E h rc =
     bindR (foldR (shape_reference E rc) (de_references (ho_delta h)) (h, [])) (\<lambda>(shaped, mismatches).
       Inr \<lparr>sh_handoff = shaped,
            sh_report = \<lparr>cp_mismatches = sort_key (\<lambda>m. event_id_text E (fst m)) mismatches,
                         cp_flagged = (mismatches \<noteq> [])\<rparr>\<rparr>)"

record capability_verification =
  cv_valid :: bool
  cv_checked :: nat
  cv_mismatches :: "(event_id \<times> string) list"

definition check_omission ::
  "env \<Rightarrow> db \<Rightarrow> recipient_capabilities \<Rightarrow> omission \<Rightarrow> nat \<Rightarrow> capability_error + nat" where
  "check_omission E d rc om checked =
     (if om_reason om \<noteq> CapabilityMismatchReason then Inr checked
      else bindR (map_err CapabilityStore (store_event E d (om_event om))) (\<lambda>found.
        bindR (ok_or found (CapabilityDrifted (om_event om))) (\<lambda>stored.
          let kind = body_kind (ev_body stored)
          in if covers rc kind then Inl (DishonestFlag (om_event om) kind) else Inr (checked + 1))))"

definition flagged_in :: "env \<Rightarrow> handoff \<Rightarrow> event_id \<Rightarrow> bool" where
  "flagged_in E h i \<longleftrightarrow> list_ex (\<lambda>note. take (length ''capability mismatch:'') note = ''capability mismatch:'' \<and>
     contains (event_id_text E i) note) (ho_uncertainty h)"

definition check_carried ::
  "env \<Rightarrow> handoff \<Rightarrow> recipient_capabilities \<Rightarrow> source_reference \<Rightarrow> nat \<times> (event_id \<times> string) list \<Rightarrow>
    capability_error + (nat \<times> (event_id \<times> string) list)" where
  "check_carried E h rc r = (\<lambda>(checked, mismatches).
     if covers rc (sr_kind r) then Inr (checked + 1, mismatches)
     else if \<not> flagged_in E h (sr_event r) then Inl (UnflaggedMismatch (sr_event r) (sr_kind r))
     else Inr (checked + 1, mismatches @ [(sr_event r, sr_kind r)]))"

definition verify_handoff ::
  "env \<Rightarrow> db \<Rightarrow> handoff \<Rightarrow> recipient_capabilities \<Rightarrow> capability_error + capability_verification" where
  "verify_handoff E d h rc =
     bindR (foldR (check_omission E d rc) (ho_omissions h) 0) (\<lambda>checked.
     bindR (foldR (check_carried E h rc) (de_references (ho_delta h)) (checked, [])) (\<lambda>(checked, mismatches).
       Inr \<lparr>cv_valid = True, cv_checked = checked,
            cv_mismatches = sort_key (\<lambda>m. event_id_text E (fst m)) mismatches\<rparr>))"

end
