(* ===== verification/Delta_Facts.thy ===== *)
theory Delta_Facts
  imports Delta Closure_Store
begin

text \<open>
  What \<open>src/src/delta.rs\<close> computes on a store that satisfies its invariant: a recipient's known
  history is exactly the ancestry of its head, the partition of a selection is exact, and a delta
  carries exactly the references the recipient does not know, in canonical order.
\<close>

section \<open>The known history\<close>

lemma known_head_lookup:
  assumes "store_inv E d"
  shows "known_head E d c head store unknown wrong =
    (if \<not> has_event d head then Inl (unknown head)
     else if \<not> stored_in d head c then Inl (wrong head) else Inr ())"
  using lookup_event_None [OF assms, of head] stored_in_iff [OF assms, of head c]
  by (auto simp: known_head_def store_event_lookup [OF assms] event_context_def split: option.splits)

definition exact_history :: "env \<Rightarrow> db \<Rightarrow> context_id \<Rightarrow> event_id \<Rightarrow> recipient_state \<Rightarrow> bool" where
  "exact_history E d c head r \<longleftrightarrow>
     rs_context r = c \<and> rs_head r = Some head \<and> strictly_sorted (event_id_text E) (rs_closure r) \<and>
     set (rs_closure r) = ancestry E d [head] \<and> (\<forall>i \<in> set (rs_closure r). stored_in d i c) \<and>
     rs_total_bytes r = sum (payload_len E d) (ancestry E d [head])"

definition history_refused ::
  "env \<Rightarrow> db \<Rightarrow> context_id \<Rightarrow> event_id \<Rightarrow> closure_limits \<Rightarrow> delta_error \<Rightarrow> bool" where
  "history_refused E d c head limits e \<longleftrightarrow>
     (\<not> has_event d head \<and> e = DeltaUnknownHead head) \<or>
     (has_event d head \<and> \<not> stored_in d head c \<and> e = DeltaWrongContext head) \<or>
     (e = DeltaLimit \<and> (cl_max_events limits = 0 \<or> cl_max_events limits > MAX_CLOSURE_EVENTS \<or>
        cl_max_bytes limits = 0 \<or> cl_max_bytes limits > MAX_CLOSURE_BYTES \<or>
        cl_max_events limits < card (ancestry E d [head]) \<or>
        cl_max_bytes limits < sum (payload_len E d) (ancestry E d [head])))"

lemma exact_walk_history:
  assumes "env_lawful E" "store_inv E d" "exact_walk E d c limits [head] nodes n"
  shows "exact_history E d c head \<lparr>rs_context = c, rs_head = Some head,
    rs_closure = sort_dedup (event_id_text E) (map node_event nodes), rs_total_bytes = n\<rparr>"
proof -
  have nodes: "set (map node_event nodes) = ancestry E d [head]" and stored: "\<forall>i \<in> ancestry E d [head]. stored_in d i c"
    and "n = sum (payload_len E d) (ancestry E d [head])"
    using assms(3) by (auto simp: exact_walk_def)
  moreover have "\<forall>i \<in> set (map node_event nodes). event_id_wf i"
    using nodes stored stored_in_has_event has_event_wf [OF assms(2)] by metis
  then have "strictly_sorted (event_id_text E) (sort_dedup (event_id_text E) (map node_event nodes))"
    using assms(1) by (intro event_id.canonical_sort_dedup) (simp_all add: env_lawful_def)
  ultimately show ?thesis by (simp add: exact_history_def)
qed

lemma at_head_spec:
  assumes "env_lawful E" "store_inv E d"
  shows "case at_head E d c head limits of
      Inl e \<Rightarrow> history_refused E d c head limits e | Inr r \<Rightarrow> exact_history E d c head r"
proof (cases "closure_limits_new (cl_max_events limits) (cl_max_bytes limits)")
  case (Inl e)
  then show ?thesis by (auto simp: at_head_def history_refused_def closure_limits_new_def split: if_splits)
next
  case (Inr l)
  then have l: "l = limits" "cl_max_bytes limits \<le> MAX_CLOSURE_BYTES" by (auto simp: closure_limits_new_Inr_iff)
  let ?walk = "strict_walk E d c limits delta_errors Map.empty [] [EnterFrom head None] 0 0"
  have spec: "walk_spec E d c limits delta_errors [head] ?walk"
    using strict_walk_exact [OF assms(2) closure_limits_small [OF l(2)], of c delta_errors "[head]"] by simp
  show ?thesis
  proof (cases "stored_in d head c")
    case False
    then show ?thesis using Inr
      by (simp add: at_head_def known_head_lookup [OF assms(2)] history_refused_def)
  next
    case True
    then have start: "at_head E d c head limits = bindR ?walk (\<lambda>(nodes, n).
        Inr \<lparr>rs_context = c, rs_head = Some head,
          rs_closure = sort_dedup (event_id_text E) (map node_event nodes), rs_total_bytes = n\<rparr>)"
      using Inr l(1) stored_in_has_event [OF True] by (simp add: at_head_def known_head_lookup [OF assms(2)])
    show ?thesis
    proof (cases ?walk)
      case (Inl e)
      have "\<forall>i \<in> ancestry E d [head]. stored_in d i c"
        using ancestry_stored [OF assms(2), of "[head]" c] True by auto
      then have "history_refused E d c head limits e"
        using spec Inl stored_in_has_event [OF True]
        by (auto simp: walk_spec_def walk_refused_def history_refused_def delta_errors_def)
      then show ?thesis by (simp add: start Inl)
    next
      case (Inr res)
      then show ?thesis using exact_walk_history [OF assms] spec
        by (cases res) (simp add: start walk_spec_def)
    qed
  qed
qed

text \<open>When a history is derived at all: exactly when it is stored and fits.\<close>

definition history_fits :: "env \<Rightarrow> db \<Rightarrow> context_id \<Rightarrow> event_id \<Rightarrow> closure_limits \<Rightarrow> bool" where
  "history_fits E d c head limits \<longleftrightarrow> stored_in d head c \<and>
     0 < cl_max_events limits \<and> cl_max_events limits \<le> MAX_CLOSURE_EVENTS \<and>
     0 < cl_max_bytes limits \<and> cl_max_bytes limits \<le> MAX_CLOSURE_BYTES \<and>
     card (ancestry E d [head]) \<le> cl_max_events limits \<and>
     sum (payload_len E d) (ancestry E d [head]) \<le> cl_max_bytes limits"

lemma at_head_fits:
  assumes "store_inv E d" "at_head E d c head limits = Inr r"
  shows "history_fits E d c head limits"
proof -
  obtain l nodes n where run: "closure_limits_new (cl_max_events limits) (cl_max_bytes limits) = Inr l"
    "known_head E d c head DeltaStore DeltaUnknownHead DeltaWrongContext = Inr ()"
    "strict_walk E d c l delta_errors Map.empty [] [EnterFrom head None] 0 0 = Inr (nodes, n)"
    using assms(2) by (auto simp: at_head_def bindR_Inr_iff)
  then have l: "l = limits" "0 < cl_max_events limits" "cl_max_events limits \<le> MAX_CLOSURE_EVENTS"
    "0 < cl_max_bytes limits" "cl_max_bytes limits \<le> MAX_CLOSURE_BYTES"
    by (auto simp: closure_limits_new_Inr_iff)
  have "walk_spec E d c limits delta_errors [head]
      (strict_walk E d c limits delta_errors Map.empty [] [EnterFrom head None] 0 0)"
    using strict_walk_exact [OF assms(1) closure_limits_small [OF l(5)], of c delta_errors "[head]"] by simp
  then have "exact_walk E d c limits [head] nodes n" using run(3) l(1) by (simp add: walk_spec_def)
  moreover have "stored_in d head c"
    using run(2) by (simp add: known_head_lookup [OF assms(1)] split: if_splits)
  ultimately show ?thesis using l by (auto simp: history_fits_def exact_walk_def)
qed

lemma at_head_iff:
  assumes "env_lawful E" "store_inv E d"
  shows "is_ok (at_head E d c head limits) \<longleftrightarrow> history_fits E d c head limits"
proof (cases "at_head E d c head limits")
  case (Inl e)
  then have "history_refused E d c head limits e" using at_head_spec [OF assms, of c head limits] by simp
  then have "\<not> history_fits E d c head limits"
    by (auto simp: history_refused_def history_fits_def dest: stored_in_has_event)
  with Inl show ?thesis by simp
qed (use at_head_fits [OF assms(2)] in simp)

section \<open>The partition\<close>

lemma fold_partition:
  "fold (\<lambda>i (known, delta). if p i then (known @ [i], delta) else (known, delta @ [i])) xs (ks, ds) =
    (ks @ filter p xs, ds @ filter (\<lambda>i. \<not> p i) xs)"
  by (induction xs arbitrary: ks ds) auto

lemma delta_over_filter:
  assumes "env_lawful E" "\<forall>i \<in> set selected \<union> set closure. event_id_wf i"
  shows "delta_over E selected closure =
    \<lparr>dr_delta = filter (\<lambda>i. i \<notin> set closure) (sort_dedup (event_id_text E) selected),
     dr_known = filter (\<lambda>i. i \<in> set closure) (sort_dedup (event_id_text E) selected)\<rparr>"
proof -
  have base: "base64_lawful E" using assms(1) by (simp add: env_lawful_def)
  have found: "bsearch (event_id_text E) (event_id_text E i) (sort_dedup (event_id_text E) closure) \<longleftrightarrow> i \<in> set closure"
    if "i \<in> set (sort_dedup (event_id_text E) selected)" for i
    using event_id.canonical_bsearch [OF base, of "sort_dedup (event_id_text E) closure" i]
      event_id.canonical_sort_dedup [OF base, of closure] that assms(2) by simp
  have "filter (\<lambda>i. bsearch (event_id_text E) (event_id_text E i) (sort_dedup (event_id_text E) closure))
        (sort_dedup (event_id_text E) selected) =
      filter (\<lambda>i. i \<in> set closure) (sort_dedup (event_id_text E) selected)"
    "filter (\<lambda>i. \<not> bsearch (event_id_text E) (event_id_text E i) (sort_dedup (event_id_text E) closure))
        (sort_dedup (event_id_text E) selected) =
      filter (\<lambda>i. i \<notin> set closure) (sort_dedup (event_id_text E) selected)"
    by (rule filter_cong [OF refl]; simp only: found)+
  then show ?thesis by (simp add: delta_over_def fold_partition Let_def)
qed

lemma delta_over_sorted:
  assumes "env_lawful E" "\<forall>i \<in> set selected \<union> set closure. event_id_wf i"
  shows "strictly_sorted (event_id_text E) (dr_delta (delta_over E selected closure))"
    "strictly_sorted (event_id_text E) (dr_known (delta_over E selected closure))"
  using assms event_id.canonical_sort_dedup [of E selected]
  by (simp_all add: delta_over_filter strictly_sorted_filter env_lawful_def)

section \<open>The delta\<close>

lemma keep_references:
  "t < usize_limit \<Longrightarrow> foldR (keep_reference E delta) refs (kept, t) =
    (let new = filter (\<lambda>r. bsearch (event_id_text E) (event_id_text E (sr_event r)) delta) refs;
         n = t + sum_list (map sr_bytes new)
     in if n < usize_limit then Inr (kept @ new, n) else Inl DeltaLimit)"
proof (induction refs arbitrary: kept t)
  case (Cons r refs)
  show ?case
  proof (cases "t + sr_bytes r < usize_limit")
    case True
    then show ?thesis using Cons by (simp add: keep_reference_def Let_def checked_add_def add.assoc)
  next
    case False
    then show ?thesis using Cons by (auto simp: keep_reference_def Let_def checked_add_def)
  qed
qed simp

definition exact_delta :: "env \<Rightarrow> closed_selection \<Rightarrow> recipient_state \<Rightarrow> delta_record \<Rightarrow> bool" where
  "exact_delta E r recipient delta \<longleftrightarrow>
     de_context delta = cd_context r \<and> de_recipient_head delta = rs_head recipient \<and>
     de_recipient_closure delta = rs_closure recipient \<and> de_limits delta = cd_limits r \<and>
     de_references delta = filter (\<lambda>x. sr_event x \<notin> set (rs_closure recipient)) (cd_references r) \<and>
     de_selected_known delta =
       filter (\<lambda>i. i \<in> set (rs_closure recipient)) (sort_dedup (event_id_text E) (map sr_event (cd_references r))) \<and>
     de_total_bytes delta = sum_list (map sr_bytes (de_references delta)) \<and>
     de_total_bytes delta \<le> MAX_DELTA_BYTES"

definition delta_refused :: "db \<Rightarrow> closed_selection \<Rightarrow> recipient_state \<Rightarrow> delta_error \<Rightarrow> bool" where
  "delta_refused d r recipient e \<longleftrightarrow>
     (let new = filter (\<lambda>x. sr_event x \<notin> set (rs_closure recipient)) (cd_references r) in
      (rs_context recipient \<noteq> cd_context r \<and> e = DeltaContextMismatch) \<or>
      (\<exists>head. rs_head recipient = Some head \<and> \<not> stored_in d head (cd_context r) \<and>
         e = (if has_event d head then DeltaWrongContext head else DeltaUnknownHead head)) \<or>
      (e = DeltaLimit \<and> (card (sr_event ` set new) > MAX_DELTA_EVENTS \<or> sum_list (map sr_bytes new) > MAX_DELTA_BYTES)))"

lemma compute_delta_spec:
  assumes "env_lawful E" "store_inv E d"
    and "\<forall>i \<in> sr_event ` set (cd_references r) \<union> set (rs_closure recipient). event_id_wf i"
  shows "case compute_delta E d r recipient of
      Inl e \<Rightarrow> delta_refused d r recipient e | Inr delta \<Rightarrow> exact_delta E r recipient delta"
proof -
  have base: "base64_lawful E" using assms(1) by (simp add: env_lawful_def)
  let ?ids = "map sr_event (cd_references r)" and ?rep = "delta_over E (map sr_event (cd_references r)) (rs_closure recipient)"
  let ?new = "filter (\<lambda>x. sr_event x \<notin> set (rs_closure recipient)) (cd_references r)"
  have wf: "\<forall>i \<in> set ?ids \<union> set (rs_closure recipient). event_id_wf i" using assms(3) by simp
  note over = delta_over_filter [OF assms(1) wf]
  have "bsearch (event_id_text E) (event_id_text E (sr_event x)) (dr_delta ?rep) \<longleftrightarrow> sr_event x \<notin> set (rs_closure recipient)"
    if "x \<in> set (cd_references r)" for x
    using event_id.canonical_bsearch [OF base, of "dr_delta ?rep" "sr_event x"] delta_over_sorted(1) [OF assms(1) wf]
      that assms(3) by (auto simp: over)
  then have kept: "foldR (keep_reference E (dr_delta ?rep)) (cd_references r) ([], 0) =
    (if sum_list (map sr_bytes ?new) < usize_limit then Inr (?new, sum_list (map sr_bytes ?new)) else Inl DeltaLimit)"
    by (simp add: keep_references usize_limit_def Let_def cong: filter_cong)
  have "length (dr_delta ?rep) = card (set (dr_delta ?rep))"
    by (rule length_strictly_sorted [OF delta_over_sorted(1) [OF assms(1) wf]])
  then have len: "length (dr_delta ?rep) = card (sr_event ` set ?new)"
    by (simp add: over) (rule arg_cong [of _ _ card], auto)
  have big: "MAX_DELTA_BYTES < usize_limit" by (simp add: MAX_DELTA_BYTES_def usize_limit_def)
  show ?thesis
  proof (cases "rs_context recipient = cd_context r \<and> (\<forall>head. rs_head recipient = Some head \<longrightarrow> stored_in d head (cd_context r))")
    case False
    then show ?thesis
      by (auto simp: compute_delta_def delta_refused_def known_head_lookup [OF assms(2)] Let_def split: option.splits)
  next
    case True
    then have "(case rs_head recipient of None \<Rightarrow> Inr () | Some head \<Rightarrow>
        known_head E d (cd_context r) head DeltaStore DeltaUnknownHead DeltaWrongContext) = Inr ()"
      by (auto simp: known_head_lookup [OF assms(2)] stored_in_has_event split: option.splits)
    then show ?thesis using True big
      by (auto simp: compute_delta_def kept [unfolded over delta_report.simps] len [unfolded over delta_report.simps]
          delta_refused_def exact_delta_def over Let_def not_less)
  qed
qed

section \<open>What a delta leaves the recipient with\<close>

lemma exact_delta_events:
  "exact_delta E r recipient delta \<Longrightarrow>
    delta_events delta = filter (\<lambda>i. i \<notin> set (rs_closure recipient)) (map sr_event (cd_references r))"
  by (simp add: exact_delta_def delta_events_def filter_map comp_def)

lemma exact_delta_sorted:
  "exact_delta E r recipient delta \<Longrightarrow> strictly_sorted (event_id_text E) (map sr_event (cd_references r)) \<Longrightarrow>
    strictly_sorted (event_id_text E) (delta_events delta)"
  by (simp add: exact_delta_events strictly_sorted_filter)

text \<open>Nothing is sent twice, and with the delta the recipient has the ancestry of the selection.\<close>

lemma delta_completes:
  assumes "exact_closure E d c selected candidates policy limits r" "exact_delta E r recipient delta"
  shows "set (delta_events delta) \<inter> set (rs_closure recipient) = {}"
    and "ancestry E d selected \<subseteq> set (rs_closure recipient) \<union> set (delta_events delta)"
    and "strictly_sorted (event_id_text E) (delta_events delta)"
  using assms(1) exact_delta_events [OF assms(2)] exact_delta_sorted [OF assms(2)]
  by (auto simp: exact_closure_def Let_def)

lemma exact_closure_wf:
  assumes "store_inv E d" "exact_closure E d c selected candidates policy limits r"
  shows "\<forall>i \<in> sr_event ` set (cd_references r). stored_in d i c \<and> event_id_wf i"
proof -
  have "\<forall>i \<in> set (map sr_event (cd_references r)). stored_in d i c"
    using assms(2) unfolding exact_closure_def Let_def by blast
  then show ?thesis using stored_in_has_event has_event_wf [OF assms(1)] by auto
qed

lemma exact_history_wf:
  "store_inv E d \<Longrightarrow> exact_history E d c head r \<Longrightarrow> \<forall>i \<in> set (rs_closure r). event_id_wf i"
  using stored_in_has_event has_event_wf [of E d] unfolding exact_history_def by blast

end
