(* ===== verification/Handoff_Facts.thy ===== *)
theory Handoff_Facts
  imports Handoff Delta_Facts "HOL-Library.Multiset"
begin

text \<open>
  The contract of \<open>src/src/handoff.rs\<close>: the invariant of a handoff (canonical lists within their
  limits, omissions disjoint from what is carried) and that building, marking and following up keep
  it; a delta is delivered exactly to a recipient that is still at its stated head; and a follow-up
  neither hides an omission nor forgets a marker.
\<close>

section \<open>Sorting by identifier\<close>

lemma strictly_sorted_sort_key:
  "distinct (map key xs) \<Longrightarrow> strictly_sorted key (sort_key key xs)"
proof -
  assume dist: "distinct (map key xs)"
  have "sorted (map key (sort_key key xs))" by simp
  moreover have "distinct (map key (sort_key key xs))"
  proof -
    have "mset (map key (sort_key key xs)) = mset (map key xs)" by simp
    then show ?thesis using dist by (metis mset_eq_imp_distinct_iff)
  qed
  ultimately have "sorted_wrt (<) (map key (sort_key key xs))" by (simp only: strict_sorted_iff)
  then show ?thesis by (simp add: strictly_sorted_def sorted_wrt_map)
qed

lemma strictly_sorted_keys: "strictly_sorted key xs \<Longrightarrow> distinct (map key xs)"
  by (induction xs) auto

section \<open>The invariant\<close>

definition omission_text :: "env \<Rightarrow> omission \<Rightarrow> string" where
  "omission_text E om = event_id_text E (om_event om)"

definition handoff_inv :: "env \<Rightarrow> handoff \<Rightarrow> bool" where
  "handoff_inv E h \<longleftrightarrow>
     (\<forall>i \<in> set (handoff_events h) \<union> set (map om_event (ho_omissions h)) \<union>
        set (de_recipient_closure (ho_delta h)). event_id_wf i) \<and>
     strictly_sorted (event_id_text E) (handoff_events h) \<and>
     strictly_sorted (omission_text E) (ho_omissions h) \<and> length (ho_omissions h) \<le> MAX_OMISSIONS \<and>
     set (map om_event (ho_omissions h)) \<inter> set (handoff_events h) = {} \<and>
     strictly_sorted (\<lambda>n. n) (ho_uncertainty h) \<and> length (ho_uncertainty h) \<le> MAX_UNCERTAINTY_NOTES \<and>
     (\<forall>n \<in> set (ho_uncertainty h). n \<noteq> [] \<and> length n \<le> MAX_NOTE_BYTES) \<and>
     strictly_sorted (event_id_text E) (de_recipient_closure (ho_delta h)) \<and>
     (\<forall>head. de_recipient_head (ho_delta h) = Some head \<longrightarrow>
        head \<in> set (de_recipient_closure (ho_delta h)))"

text \<open>What a computed delta has: canonical lists of proper identifiers.\<close>

definition delta_canonical :: "env \<Rightarrow> delta_record \<Rightarrow> bool" where
  "delta_canonical E \<delta> \<longleftrightarrow>
     (\<forall>i \<in> set (delta_events \<delta>) \<union> set (de_recipient_closure \<delta>) \<union> set_option (de_recipient_head \<delta>). event_id_wf i) \<and>
     strictly_sorted (event_id_text E) (delta_events \<delta>) \<and>
     strictly_sorted (event_id_text E) (de_recipient_closure \<delta>)"

lemma from_delta_iff:
  assumes "env_lawful E" "delta_canonical E \<delta>"
  shows "handoff_from_delta E \<delta> =
    (if \<forall>head. de_recipient_head \<delta> = Some head \<longrightarrow> head \<in> set (de_recipient_closure \<delta>)
     then Inr \<lparr>ho_delta = \<delta>, ho_omissions = [], ho_uncertainty = [], ho_re_included = []\<rparr>
     else Inl HandoffInvalidState)"
  using assms event_id.canonical_bsearch [of E "de_recipient_closure \<delta>"]
  by (auto simp: handoff_from_delta_def delta_canonical_def env_lawful_def split: option.splits)

lemma from_delta_inv:
  assumes "env_lawful E" "delta_canonical E \<delta>" "handoff_from_delta E \<delta> = Inr h"
  shows "handoff_inv E h" "ho_delta h = \<delta>" "ho_omissions h = []"
  using assms
  by (auto simp: from_delta_iff handoff_inv_def handoff_events_def delta_canonical_def split: if_splits)

lemma carries_iff:
  assumes "env_lawful E" "handoff_inv E h" "event_id_wf i"
  shows "bsearch (event_id_text E) (event_id_text E i) (handoff_events h) \<longleftrightarrow> i \<in> set (handoff_events h)"
  using assms event_id.canonical_bsearch [of E "handoff_events h" i]
  by (auto simp: handoff_inv_def env_lawful_def)

lemma listed_omission_iff: "listed_omission h i \<longleftrightarrow> i \<in> om_event ` set (ho_omissions h)"
  by (auto simp: listed_omission_def list_ex_iff)

lemma with_omission_cases:
  assumes "env_lawful E" "handoff_inv E h" "event_id_wf i"
  shows "with_omission E h i reason =
    (if i \<in> set (handoff_events h) then Inl HandoffInvalidState
     else if i \<in> om_event ` set (ho_omissions h) then Inr h
     else if length (ho_omissions h) \<ge> MAX_OMISSIONS then Inl HandoffInvalidState
     else Inr (h\<lparr>ho_omissions := sort_key (omission_text E) (ho_omissions h @ [\<lparr>om_event = i, om_reason = reason\<rparr>])\<rparr>))"
  using assms
  by (simp add: with_omission_def carries_iff listed_omission_iff omission_text_def [abs_def])

lemma with_omission_inv:
  assumes "env_lawful E" "handoff_inv E h" "event_id_wf i" "with_omission E h i reason = Inr h'"
  shows "handoff_inv E h'" "om_event ` set (ho_omissions h') = insert i (om_event ` set (ho_omissions h))"
    "ho_delta h' = ho_delta h" "i \<notin> set (handoff_events h')"
proof -
  consider "h' = h" "i \<in> om_event ` set (ho_omissions h)" "i \<notin> set (handoff_events h)"
    | "i \<notin> om_event ` set (ho_omissions h)" "i \<notin> set (handoff_events h)" "length (ho_omissions h) < MAX_OMISSIONS"
      "h' = h\<lparr>ho_omissions := sort_key (omission_text E) (ho_omissions h @ [\<lparr>om_event = i, om_reason = reason\<rparr>])\<rparr>"
    using assms(4) by (auto simp: with_omission_cases [OF assms(1-3)] split: if_splits)
  then have all: "handoff_inv E h' \<and> om_event ` set (ho_omissions h') = insert i (om_event ` set (ho_omissions h)) \<and>
      ho_delta h' = ho_delta h \<and> i \<notin> set (handoff_events h')"
  proof cases
    case 1
    then show ?thesis using assms(2) by auto
  next
    case 2
    have "omission_text E om \<noteq> event_id_text E i" if "om \<in> set (ho_omissions h)" for om
      using that 2(1) assms(1-3) event_id.key_inj [of E "om_event om" i]
      by (auto simp: omission_text_def handoff_inv_def env_lawful_def)
    then have "event_id_text E i \<notin> omission_text E ` set (ho_omissions h)" by (metis imageE)
    moreover have "distinct (map (omission_text E) (ho_omissions h))"
      using assms(2) by (auto simp: handoff_inv_def strictly_sorted_keys)
    ultimately have "distinct (map (omission_text E) (ho_omissions h @ [\<lparr>om_event = i, om_reason = reason\<rparr>]))"
      by (auto simp: omission_text_def)
    note strictly_sorted_sort_key [OF this]
    then have "handoff_inv E h'"
      using assms(2,3) 2 by (auto simp: handoff_inv_def handoff_events_def)
    then show ?thesis using 2 by (auto simp: handoff_events_def)
  qed
  then show "handoff_inv E h'" "om_event ` set (ho_omissions h') = insert i (om_event ` set (ho_omissions h))"
    "ho_delta h' = ho_delta h" "i \<notin> set (handoff_events h')" by blast+
qed

lemma with_uncertainty_inv:
  assumes "handoff_inv E h" "with_uncertainty h note = Inr h'"
  shows "handoff_inv E h'" "set (ho_uncertainty h') = insert note (set (ho_uncertainty h))"
    "ho_delta h' = ho_delta h" "ho_omissions h' = ho_omissions h"
proof -
  have h': "h' = h\<lparr>ho_uncertainty := sort_dedup (\<lambda>n. n) (ho_uncertainty h @ [note])\<rparr>"
    and bounds: "note \<noteq> []" "length note \<le> MAX_NOTE_BYTES"
      "length (sort_dedup (\<lambda>n. n) (ho_uncertainty h @ [note])) \<le> MAX_UNCERTAINTY_NOTES"
    using assms(2) by (auto simp: with_uncertainty_def Let_def split: if_splits)
  have "strictly_sorted (\<lambda>n. n) (sort_dedup (\<lambda>n. n) (ho_uncertainty h @ [note]))"
    by (rule strictly_sorted_sort_dedup) simp
  then show "handoff_inv E h'" using assms(1) bounds unfolding h' handoff_inv_def
    by (auto simp: handoff_events_def)
  show "set (ho_uncertainty h') = insert note (set (ho_uncertainty h))" "ho_delta h' = ho_delta h"
    "ho_omissions h' = ho_omissions h" by (auto simp: h')
qed

section \<open>Delivery\<close>

lemma check_stated_head_iff:
  "store_inv E d \<Longrightarrow> check_stated_head E d c stated = Inr () \<longleftrightarrow> (\<forall>head. stated = Some head \<longrightarrow> stored_in d head c)"
  by (auto simp: check_stated_head_def known_head_lookup stored_in_has_event split: option.splits)

lemma verify_valid_iff:
  assumes "store_inv E d"
  shows "verify_valid E d h current = Inr () \<longleftrightarrow> de_recipient_head (ho_delta h) = current \<and>
    (\<forall>head. current = Some head \<longrightarrow> stored_in d head (de_context (ho_delta h)))"
  by (auto simp: verify_valid_def bindR_Inr_iff check_stated_head_iff [OF assms] Let_def)

lemma verify_valid_stale:
  assumes "store_inv E d" "de_recipient_head (ho_delta h) \<noteq> current"
    and "\<forall>head \<in> set_option (de_recipient_head (ho_delta h)) \<union> set_option current. stored_in d head (de_context (ho_delta h))"
  shows "verify_valid E d h current = Inl (Stale (de_recipient_head (ho_delta h)) current)"
proof -
  have "check_stated_head E d (de_context (ho_delta h)) (de_recipient_head (ho_delta h)) = Inr ()"
    "check_stated_head E d (de_context (ho_delta h)) current = Inr ()"
    using assms(3) by (simp_all add: check_stated_head_iff [OF assms(1)])
  then show ?thesis using assms(2) by (simp add: verify_valid_def)
qed

section \<open>Following up\<close>

lemma exact_delta_canonical:
  assumes "exact_delta E chosen recipient \<delta>"
    and "strictly_sorted (event_id_text E) (map sr_event (cd_references chosen))"
    and "strictly_sorted (event_id_text E) (rs_closure recipient)"
    and "\<forall>i \<in> sr_event ` set (cd_references chosen) \<union> set (rs_closure recipient) \<union> set_option (rs_head recipient). event_id_wf i"
  shows "delta_canonical E \<delta>"
  using assms exact_delta_events [OF assms(1)] exact_delta_sorted [OF assms(1,2)]
  by (auto simp: delta_canonical_def exact_delta_def)

lemma follow_up_spec:
  assumes "env_lawful E" "store_inv E d" "handoff_inv E h" "event_id_wf (och_event ch)"
    and "strictly_sorted (event_id_text E) (map sr_event (cd_references chosen))"
    and "strictly_sorted (event_id_text E) (rs_closure recipient)"
    and "\<forall>i \<in> sr_event ` set (cd_references chosen) \<union> set (rs_closure recipient) \<union> set_option (rs_head recipient). event_id_wf i"
    and "follow_up E d h chosen recipient ch = Inr h'"
  shows "handoff_inv E h'" "exact_delta E chosen recipient (ho_delta h')"
    "och_event ch \<in> set (handoff_events h')" "och_event ch \<in> om_event ` set (ho_omissions h)"
    "ho_omissions h' = filter (\<lambda>om. om_event om \<notin> set (handoff_events h')) (ho_omissions h)"
    "ho_uncertainty h' = ho_uncertainty h"
    "ho_re_included h' = ho_re_included h @ [\<lparr>ri_event = och_event ch, ri_challenge = ch\<rparr>]"
    "de_recipient_head (ho_delta h') = de_recipient_head (ho_delta h)"
proof -
  have base: "base64_lawful E" using assms(1) by (simp add: env_lawful_def)
  obtain \<delta> next_h where valid: "verify_valid E d h (rs_head recipient) = Inr ()"
    and listed: "listed_omission h (och_event ch)"
    and delta: "compute_delta E d chosen recipient = Inr \<delta>"
    and carried: "bsearch (event_id_text E) (event_id_text E (och_event ch)) (delta_events \<delta>)"
    and built: "handoff_from_delta E \<delta> = Inr next_h"
    and h': "h' = next_h\<lparr>ho_omissions := filter (\<lambda>om. \<not> bsearch (event_id_text E) (event_id_text E (om_event om)) (delta_events \<delta>)) (ho_omissions h),
      ho_uncertainty := ho_uncertainty h,
      ho_re_included := ho_re_included h @ [\<lparr>ri_event = och_event ch, ri_challenge = ch\<rparr>]\<rparr>"
    using assms(8) by (auto simp: follow_up_def Let_def bindR_Inr_iff split: if_splits)
  have exact: "exact_delta E chosen recipient \<delta>"
    using compute_delta_spec [OF assms(1,2), of chosen recipient] assms(7) delta by (simp add: ball_Un)
  have canon: "delta_canonical E \<delta>" by (rule exact_delta_canonical [OF exact assms(5-7)])
  note next_inv = from_delta_inv [OF assms(1) canon built]
  have events: "handoff_events h' = delta_events \<delta>" "ho_delta h' = \<delta>"
    using next_inv(2) by (simp_all add: h' handoff_events_def)
  have found: "bsearch (event_id_text E) (event_id_text E i) (delta_events \<delta>) \<longleftrightarrow> i \<in> set (delta_events \<delta>)"
    if "event_id_wf i" for i
    using event_id.canonical_bsearch [OF base, of "delta_events \<delta>" i] canon that by (auto simp: delta_canonical_def)
  have omitted_wf: "event_id_wf (om_event om)" if "om \<in> set (ho_omissions h)" for om
    using that assms(3) by (auto simp: handoff_inv_def)
  show omissions: "ho_omissions h' = filter (\<lambda>om. om_event om \<notin> set (handoff_events h')) (ho_omissions h)"
    unfolding events by (simp add: h') (rule filter_cong [OF refl], simp add: found omitted_wf)
  show "exact_delta E chosen recipient (ho_delta h')" by (simp add: events exact)
  show "och_event ch \<in> set (handoff_events h')" using carried found assms(4) by (simp add: events)
  show "och_event ch \<in> om_event ` set (ho_omissions h)" using listed by (simp add: listed_omission_iff)
  show "ho_uncertainty h' = ho_uncertainty h"
    "ho_re_included h' = ho_re_included h @ [\<lparr>ri_event = och_event ch, ri_challenge = ch\<rparr>]" by (simp_all add: h')
  show "de_recipient_head (ho_delta h') = de_recipient_head (ho_delta h)"
    using valid exact by (simp add: verify_valid_iff [OF assms(2)] exact_delta_def events)
  have "length (ho_omissions h') \<le> MAX_OMISSIONS"
    using assms(3) length_filter_le [of _ "ho_omissions h"] unfolding omissions handoff_inv_def by (meson le_trans)
  then show "handoff_inv E h'"
    using assms(3) next_inv(1,2) omissions events
    by (auto simp: handoff_inv_def h' handoff_events_def strictly_sorted_filter)
qed

text \<open>No omission is lost: it is carried by the follow-up or still listed.\<close>

lemma follow_up_accounts:
  assumes "ho_omissions h' = filter (\<lambda>om. om_event om \<notin> set (handoff_events h')) (ho_omissions h)"
  shows "om_event ` set (ho_omissions h) \<subseteq> set (handoff_events h') \<union> om_event ` set (ho_omissions h')"
  by (auto simp: assms)

end
