(* ===== verification/Capability_Facts.thy ===== *)
theory Capability_Facts
  imports Capability Handoff_Facts
begin

text \<open>
  The discipline of \<open>src/src/capability.rs\<close>: what a declared capability covers, what shaping adds
  to a handoff, and what its verification accepts; a shaped handoff verifies.
\<close>

section \<open>Coverage\<close>

lemma capability_new_covers:
  assumes "capability_new name kinds = Inr c"
  shows "capability_covers c kind \<longleftrightarrow> kind \<in> set kinds" "cap_name c = name"
proof -
  have c: "c = \<lparr>cap_name = name, cap_kinds = sort_dedup (\<lambda>k. k) kinds\<rparr>"
    using assms by (auto simp: capability_new_def split: if_splits)
  have "strictly_sorted (\<lambda>k. k) (sort_dedup (\<lambda>k. k) kinds)" by (rule strictly_sorted_sort_dedup) simp
  then show "capability_covers c kind \<longleftrightarrow> kind \<in> set kinds"
    by (simp add: capability_covers_def c bsearch_strictly_sorted)
  show "cap_name c = name" by (simp add: c)
qed

lemma windows2_any_eq_iff:
  "sorted (map key xs) \<Longrightarrow> \<not> windows2_any (\<lambda>a b. key a = key b) xs \<longleftrightarrow> strictly_sorted key xs"
proof (induction xs rule: induct_list012)
  case (3 x y zs)
  then show ?case by (auto simp: le_less intro: less_trans [of "key x" "key y"])
qed auto

lemma capabilities_new_Inr:
  assumes "capabilities_new recipient version caps = Inr rc"
  shows "set (rcap_capabilities rc) = set caps" "strictly_sorted cap_name (rcap_capabilities rc)"
    "length caps \<le> MAX_CAPABILITIES"
  using assms windows2_any_eq_iff [of cap_name "sort_key cap_name caps"]
  by (auto simp: capabilities_new_def Let_def split: if_splits)

section \<open>Flags\<close>

lemma contains_middle: "contains p (a @ p @ b)"
proof (induction a)
  case Nil
  show ?case by (subst contains.simps) simp
next
  case (Cons x a)
  then show ?case by (subst contains.simps) simp
qed

lemma mismatch_note_flags:
  assumes "mismatch_note E r \<in> set (ho_uncertainty h)"
  shows "flagged_in E h (sr_event r)"
proof -
  have note_parts: "mismatch_note E r =
      ''capability mismatch: event '' @ event_id_text E (sr_event r) @ '' kind '' @ sr_kind r"
    by (simp add: mismatch_note_def)
  have "take (length ''capability mismatch:'') (mismatch_note E r) = ''capability mismatch:''"
    by (simp add: note_parts)
  moreover have "contains (event_id_text E (sr_event r)) (mismatch_note E r)"
    unfolding note_parts by (rule contains_middle)
  ultimately show ?thesis using assms by (auto simp: flagged_in_def list_ex_iff)
qed

section \<open>Shaping\<close>

definition uncovered_refs :: "recipient_capabilities \<Rightarrow> handoff \<Rightarrow> source_reference list" where
  "uncovered_refs rc h = filter (\<lambda>r. \<not> covers rc (sr_kind r)) (de_references (ho_delta h))"

definition mismatches :: "env \<Rightarrow> recipient_capabilities \<Rightarrow> handoff \<Rightarrow> (event_id \<times> string) list" where
  "mismatches E rc h =
     sort_key (\<lambda>m. event_id_text E (fst m)) (map (\<lambda>r. (sr_event r, sr_kind r)) (uncovered_refs rc h))"

lemma shape_reference_Inr:
  "shape_reference E rc r (h, ms) = Inr s \<longleftrightarrow>
    (if covers rc (sr_kind r) then s = (h, ms)
     else length (mismatch_note E r) \<le> MAX_MISMATCH_NOTE_BYTES \<and>
       (\<exists>h1. with_uncertainty h (mismatch_note E r) = Inr h1 \<and> s = (h1, ms @ [(sr_event r, sr_kind r)])))"
  by (auto simp: shape_reference_def bindR_Inr_iff)

lemma shape_fold:
  assumes "foldR (shape_reference E rc) refs (h, ms) = Inr (h', ms')"
  shows "ms' = ms @ map (\<lambda>r. (sr_event r, sr_kind r)) (filter (\<lambda>r. \<not> covers rc (sr_kind r)) refs) \<and>
      ho_delta h' = ho_delta h \<and> ho_omissions h' = ho_omissions h \<and> ho_re_included h' = ho_re_included h \<and>
      set (ho_uncertainty h') = set (ho_uncertainty h) \<union>
        mismatch_note E ` {r \<in> set refs. \<not> covers rc (sr_kind r)} \<and>
      (handoff_inv E h \<longrightarrow> handoff_inv E h')"
  using assms
proof (induction refs arbitrary: h ms)
  case (Cons r refs)
  show ?case
  proof (cases "covers rc (sr_kind r)")
    case True
    then have "foldR (shape_reference E rc) refs (h, ms) = Inr (h', ms')"
      using Cons.prems by (simp add: bindR_Inr_iff shape_reference_Inr)
    from Cons.IH [OF this] show ?thesis using True by (auto cong: conj_cong)
  next
    case False
    with Cons.prems obtain h1 where h1: "with_uncertainty h (mismatch_note E r) = Inr h1"
      and rest: "foldR (shape_reference E rc) refs (h1, ms @ [(sr_event r, sr_kind r)]) = Inr (h', ms')"
      by (auto simp: bindR_Inr_iff shape_reference_Inr)
    have "set (ho_uncertainty h1) = insert (mismatch_note E r) (set (ho_uncertainty h))"
      "ho_delta h1 = ho_delta h" "ho_omissions h1 = ho_omissions h" "ho_re_included h1 = ho_re_included h"
      using h1 by (auto simp: with_uncertainty_def Let_def split: if_splits)
    then show ?thesis using Cons.IH [OF rest] with_uncertainty_inv(1) [OF _ h1, of E] False by auto
  qed
qed auto

lemma shape_handoff_spec:
  assumes "shape_handoff E h rc = Inr s"
  shows "ho_delta (sh_handoff s) = ho_delta h" "ho_omissions (sh_handoff s) = ho_omissions h"
    "ho_re_included (sh_handoff s) = ho_re_included h"
    "set (ho_uncertainty (sh_handoff s)) = set (ho_uncertainty h) \<union> mismatch_note E ` set (uncovered_refs rc h)"
    "handoff_inv E h \<Longrightarrow> handoff_inv E (sh_handoff s)"
    "sh_report s = \<lparr>cp_mismatches = mismatches E rc h, cp_flagged = (uncovered_refs rc h \<noteq> [])\<rparr>"
proof -
  obtain h' ms where fold: "foldR (shape_reference E rc) (de_references (ho_delta h)) (h, []) = Inr (h', ms)"
    and s: "s = \<lparr>sh_handoff = h', sh_report = \<lparr>cp_mismatches = sort_key (\<lambda>m. event_id_text E (fst m)) ms,
      cp_flagged = (ms \<noteq> [])\<rparr>\<rparr>"
    using assms by (auto simp: shape_handoff_def bindR_Inr_iff)
  show "ho_delta (sh_handoff s) = ho_delta h" "ho_omissions (sh_handoff s) = ho_omissions h"
    "ho_re_included (sh_handoff s) = ho_re_included h"
    "set (ho_uncertainty (sh_handoff s)) = set (ho_uncertainty h) \<union> mismatch_note E ` set (uncovered_refs rc h)"
    "handoff_inv E h \<Longrightarrow> handoff_inv E (sh_handoff s)"
    "sh_report s = \<lparr>cp_mismatches = mismatches E rc h, cp_flagged = (uncovered_refs rc h \<noteq> [])\<rparr>"
    using shape_fold [OF fold] by (simp_all add: s uncovered_refs_def mismatches_def)
qed

section \<open>Verification\<close>

definition honest_omissions :: "env \<Rightarrow> db \<Rightarrow> handoff \<Rightarrow> recipient_capabilities \<Rightarrow> bool" where
  "honest_omissions E d h rc \<longleftrightarrow> (\<forall>om \<in> set (ho_omissions h). om_reason om = CapabilityMismatchReason \<longrightarrow>
     (\<exists>ev. lookup_event E d (om_event om) = Some ev \<and> \<not> covers rc (body_kind (ev_body ev))))"

definition flagged_mismatches :: "env \<Rightarrow> handoff \<Rightarrow> recipient_capabilities \<Rightarrow> bool" where
  "flagged_mismatches E h rc \<longleftrightarrow> (\<forall>r \<in> set (uncovered_refs rc h). flagged_in E h (sr_event r))"

definition capability_omissions :: "handoff \<Rightarrow> omission list" where
  "capability_omissions h = filter (\<lambda>om. om_reason om = CapabilityMismatchReason) (ho_omissions h)"

lemma omissions_fold:
  assumes "store_inv E d"
  shows "foldR (check_omission E d rc) oms n = Inr m \<longleftrightarrow>
    (\<forall>om \<in> set oms. om_reason om = CapabilityMismatchReason \<longrightarrow>
      (\<exists>ev. lookup_event E d (om_event om) = Some ev \<and> \<not> covers rc (body_kind (ev_body ev)))) \<and>
    m = n + length (filter (\<lambda>om. om_reason om = CapabilityMismatchReason) oms)"
  by (induction oms arbitrary: n)
    (auto simp: check_omission_def store_event_lookup [OF assms] bindR_Inr_iff Let_def)

lemma carried_fold:
  "foldR (check_carried E h rc) refs (n, ms) = Inr (m, ms') \<longleftrightarrow>
    (\<forall>r \<in> set refs. covers rc (sr_kind r) \<or> flagged_in E h (sr_event r)) \<and> m = n + length refs \<and>
    ms' = ms @ map (\<lambda>r. (sr_event r, sr_kind r)) (filter (\<lambda>r. \<not> covers rc (sr_kind r)) refs)"
  by (induction refs arbitrary: n ms) (auto simp: check_carried_def)

lemma verify_handoff_iff:
  assumes "store_inv E d"
  shows "verify_handoff E d h rc = Inr v \<longleftrightarrow>
    honest_omissions E d h rc \<and> flagged_mismatches E h rc \<and>
    v = \<lparr>cv_valid = True,
         cv_checked = length (capability_omissions h) + length (de_references (ho_delta h)),
         cv_mismatches = mismatches E rc h\<rparr>"
  by (auto simp: verify_handoff_def bindR_Inr_iff omissions_fold [OF assms] carried_fold honest_omissions_def
      flagged_mismatches_def uncovered_refs_def mismatches_def capability_omissions_def)

lemma shaped_flags:
  assumes "shape_handoff E h rc = Inr s"
  shows "flagged_mismatches E (sh_handoff s) rc"
  using shape_handoff_spec(1,4) [OF assms]
  by (auto simp: flagged_mismatches_def uncovered_refs_def intro!: mismatch_note_flags)

end
