(* ===== verification/Repair.thy ===== *)
theory Repair
  imports Handoff
begin

text \<open>
  Progressive context repair, \<open>src/src/repair.rs\<close>: the bounded loop that re-includes omitted
  sources until the task driver reports success, and its append-only history. The driver is an
  argument, a function of the iteration and of the handoff offered; the store it is run against
  may change between iterations, and an append may fail.
\<close>

record repair_bounds =
  bo_max_iterations :: nat
  bo_max_re_included :: nat
  bo_max_delta_bytes :: nat

datatype non_convergence =
    IterationBudgetExceeded nat | ReInclusionBudgetExceeded nat | ByteBudgetExceeded nat
  | OutcomeFailure string

datatype terminal_record = ConvergedRecord | NonConvergedRecord non_convergence

datatype repair_error = RepairIo | RepairSerialize | RepairHandoff handoff_error | RepairInvalidState

definition repair_bounds_new :: "nat \<Rightarrow> nat \<Rightarrow> nat \<Rightarrow> repair_error + repair_bounds" where
  "repair_bounds_new iterations re_included_events delta_bytes =
     (if iterations = 0 \<or> re_included_events = 0 \<or> delta_bytes = 0 then Inl RepairInvalidState
      else Inr \<lparr>bo_max_iterations = iterations, bo_max_re_included = re_included_events,
                bo_max_delta_bytes = delta_bytes\<rparr>)"

datatype task_outcome =
    TaskSuccess | NeedsSource event_id string closed_selection | TaskFailure string

record repair_attempt =
  ra_sequence :: nat
  ra_iteration :: nat
  ra_re_included :: "event_id option"
  ra_note :: "string option"
  ra_events :: "event_id list"
  ra_omissions :: "event_id list"
  ra_bytes :: nat
  ra_terminal :: "terminal_record option"

record repair_report =
  rr_converged :: bool
  rr_iterations :: nat
  rr_re_included :: "event_id list"
  rr_non_convergence :: "non_convergence option"
  rr_handoff :: handoff

section \<open>The history\<close>

text \<open>The records of the file and the next sequence number.\<close>

record repair_history =
  rh_records :: "repair_attempt list"
  rh_sequence :: nat

definition history_open :: "repair_attempt list \<Rightarrow> repair_history" where
  "history_open records = \<lparr>rh_records = records, rh_sequence = length records\<rparr>"

definition history_append ::
  "(nat \<Rightarrow> bool) \<Rightarrow> repair_attempt \<Rightarrow> repair_history \<Rightarrow> repair_error + repair_history" where
  "history_append writable attempt h =
     (if writable (rh_sequence h)
      then Inr \<lparr>rh_records = rh_records h @ [attempt\<lparr>ra_sequence := rh_sequence h\<rparr>],
                rh_sequence = rh_sequence h + 1\<rparr>
      else Inl RepairIo)"

section \<open>The loop\<close>

record repair_setting =
  se_env :: env
  se_store :: "nat \<Rightarrow> db"
  se_recipient :: recipient_state
  se_bounds :: repair_bounds
  se_driver :: "nat \<Rightarrow> handoff \<Rightarrow> task_outcome"
  se_writable :: "nat \<Rightarrow> bool"
  se_original :: handoff

definition offered_attempt :: "nat \<Rightarrow> handoff \<Rightarrow> repair_attempt" where
  "offered_attempt iteration current =
     \<lparr>ra_sequence = 0, ra_iteration = iteration, ra_re_included = None, ra_note = None,
      ra_events = handoff_events current, ra_omissions = map om_event (ho_omissions current),
      ra_bytes = de_total_bytes (ho_delta current), ra_terminal = None\<rparr>"

definition stop_unconverged ::
  "repair_setting \<Rightarrow> repair_attempt \<Rightarrow> string option \<Rightarrow> nat \<Rightarrow> event_id list \<Rightarrow> non_convergence \<Rightarrow>
    repair_history \<Rightarrow> repair_error + (repair_report \<times> repair_history)" where
  "stop_unconverged S attempt note iterations included reason history =
     bindR (history_append (se_writable S)
       (attempt\<lparr>ra_note := note, ra_terminal := Some (NonConvergedRecord reason)\<rparr>) history) (\<lambda>history.
       Inr (\<lparr>rr_converged = False, rr_iterations = iterations, rr_re_included = included,
             rr_non_convergence = Some reason, rr_handoff = se_original S\<rparr>, history))"

text \<open>The re-inclusion of a source: the follow-up handoff, or the delta size that is too large.\<close>

definition re_include ::
  "repair_setting \<Rightarrow> nat \<Rightarrow> handoff \<Rightarrow> event_id \<Rightarrow> string \<Rightarrow> closed_selection \<Rightarrow> repair_error + handoff" where
  "re_include S iteration current i note chosen =
     bindR (map_err RepairHandoff (challenge_omission current i note)) (\<lambda>challenge.
       map_err RepairHandoff
         (follow_up (se_env S) (se_store S iteration) current chosen (se_recipient S) challenge))"

primrec repair_loop ::
  "repair_setting \<Rightarrow> nat \<Rightarrow> handoff \<Rightarrow> event_id list \<Rightarrow> repair_history \<Rightarrow>
    repair_error + (repair_report \<times> repair_history)" where
  "repair_loop S 0 current included history =
     stop_unconverged S (offered_attempt (bo_max_iterations (se_bounds S)) current) None
       (bo_max_iterations (se_bounds S)) included
       (IterationBudgetExceeded (bo_max_iterations (se_bounds S))) history"
| "repair_loop S (Suc remaining) current included history =
     (let iteration = bo_max_iterations (se_bounds S) - Suc remaining;
          attempt = offered_attempt iteration current
      in case se_driver S iteration current of
        TaskSuccess \<Rightarrow>
          bindR (history_append (se_writable S) (attempt\<lparr>ra_terminal := Some ConvergedRecord\<rparr>) history) (\<lambda>history.
            Inr (\<lparr>rr_converged = True, rr_iterations = iteration + 1, rr_re_included = included,
                  rr_non_convergence = None, rr_handoff = current\<rparr>, history))
      | TaskFailure note \<Rightarrow>
          stop_unconverged S attempt (Some note) (iteration + 1) included (OutcomeFailure note) history
      | NeedsSource i note chosen \<Rightarrow>
          if length included \<ge> bo_max_re_included (se_bounds S)
          then stop_unconverged S attempt (Some note) (iteration + 1) included
                 (ReInclusionBudgetExceeded (length included)) history
          else bindR (re_include S iteration current i note chosen) (\<lambda>next_handoff.
            let bytes = de_total_bytes (ho_delta next_handoff)
            in if bytes > bo_max_delta_bytes (se_bounds S)
               then stop_unconverged S attempt (Some note) (iteration + 1) included
                      (ByteBudgetExceeded bytes) history
               else bindR (history_append (se_writable S)
                      (attempt\<lparr>ra_re_included := Some i, ra_note := Some note\<rparr>) history) (\<lambda>history.
                 repair_loop S remaining next_handoff (included @ [i]) history)))"

definition run_repair ::
  "repair_setting \<Rightarrow> repair_history \<Rightarrow> repair_error + (repair_report \<times> repair_history)" where
  "run_repair S history =
     (if bo_max_iterations (se_bounds S) = 0 \<or> bo_max_re_included (se_bounds S) = 0 \<or>
         bo_max_delta_bytes (se_bounds S) = 0
      then Inl RepairInvalidState
      else repair_loop S (bo_max_iterations (se_bounds S)) (se_original S) [] history)"

end
