(* ===== verification/Repair_Facts.thy ===== *)
theory Repair_Facts
  imports Repair Handoff_Facts
begin

text \<open>
  The repair loop of \<open>src/src/repair.rs\<close>: whatever the driver answers, the loop ends within its
  bounds, converges only on a success of the driver, keeps the original handoff otherwise, and
  appends one record per attempt, of which exactly the last is terminal.
\<close>

definition outcome_record :: "repair_report \<Rightarrow> terminal_record" where
  "outcome_record r =
     (case rr_non_convergence r of None \<Rightarrow> ConvergedRecord | Some reason \<Rightarrow> NonConvergedRecord reason)"

text \<open>The records one run appends, from the sequence number and the iteration it starts with.\<close>

definition attempt_records ::
  "nat \<Rightarrow> nat \<Rightarrow> event_id list \<Rightarrow> repair_report \<Rightarrow> repair_attempt list \<Rightarrow> bool" where
  "attempt_records sequence iteration included r records \<longleftrightarrow>
     records \<noteq> [] \<and>
     map ra_sequence records = [sequence ..< sequence + length records] \<and>
     map ra_iteration records = [iteration ..< iteration + length records] \<and>
     (\<forall>a \<in> set (butlast records). ra_terminal a = None) \<and>
     ra_terminal (last records) = Some (outcome_record r) \<and>
     map Some (rr_re_included r) = map Some included @ map ra_re_included (butlast records)"

definition report_ok :: "repair_setting \<Rightarrow> repair_report \<Rightarrow> bool" where
  "report_ok S r \<longleftrightarrow>
     rr_iterations r \<le> bo_max_iterations (se_bounds S) \<and>
     length (rr_re_included r) \<le> bo_max_re_included (se_bounds S) \<and>
     (rr_converged r \<longleftrightarrow> rr_non_convergence r = None) \<and>
     (if rr_converged r
      then 0 < rr_iterations r \<and> se_driver S (rr_iterations r - 1) (rr_handoff r) = TaskSuccess \<and>
        (rr_re_included r \<noteq> [] \<longrightarrow> de_total_bytes (ho_delta (rr_handoff r)) \<le> bo_max_delta_bytes (se_bounds S))
      else rr_handoff r = se_original S)"

lemma history_append_Inr:
  "history_append writable a h = Inr h' \<longleftrightarrow> writable (rh_sequence h) \<and>
     h' = \<lparr>rh_records = rh_records h @ [a\<lparr>ra_sequence := rh_sequence h\<rparr>], rh_sequence = rh_sequence h + 1\<rparr>"
  by (auto simp: history_append_def)

lemma stop_unconverged_Inr:
  assumes "stop_unconverged S a note n included reason h = Inr (r, h')" "ra_iteration a = i"
  shows "\<exists>records. rh_records h' = rh_records h @ records \<and> rh_sequence h' = rh_sequence h + length records \<and>
      attempt_records (rh_sequence h) i included r records \<and> length records = 1"
    and "r = \<lparr>rr_converged = False, rr_iterations = n, rr_re_included = included,
           rr_non_convergence = Some reason, rr_handoff = se_original S\<rparr>"
  using assms
  by (auto simp: stop_unconverged_def bindR_Inr_iff history_append_Inr attempt_records_def outcome_record_def)

lemma attempt_records_Cons:
  assumes "attempt_records (Suc q) (Suc i) (included @ [j]) r records"
    and "ra_sequence a = q" "ra_iteration a = i" "ra_terminal a = None" "ra_re_included a = Some j"
  shows "attempt_records q i included r (a # records)"
proof -
  have "[k ..< k + Suc n] = k # [Suc k ..< Suc k + n]" for k n :: nat
    by (simp add: upt_conv_Cons)
  then show ?thesis using assms by (simp add: attempt_records_def)
qed

lemma repair_loop_spec:
  assumes "repair_loop S n current included h = Inr (r, h')"
    and "n \<le> bo_max_iterations (se_bounds S)" "length included \<le> bo_max_re_included (se_bounds S)"
    and "included \<noteq> [] \<Longrightarrow> de_total_bytes (ho_delta current) \<le> bo_max_delta_bytes (se_bounds S)"
  shows "(\<exists>records. rh_records h' = rh_records h @ records \<and> rh_sequence h' = rh_sequence h + length records \<and>
      attempt_records (rh_sequence h) (bo_max_iterations (se_bounds S) - n) included r records \<and>
      length records \<le> Suc n) \<and> report_ok S r"
  using assms
proof (induction n arbitrary: current included h)
  case 0
  note stop = stop_unconverged_Inr [OF "0.prems"(1) [unfolded repair_loop.simps] refl]
  then show ?case using "0.prems"(3) by (auto simp: offered_attempt_def report_ok_def)
next
  case (Suc n)
  define i where "i = bo_max_iterations (se_bounds S) - Suc n"
  have i: "Suc i = bo_max_iterations (se_bounds S) - n" "i < bo_max_iterations (se_bounds S)"
    using Suc.prems(2) by (auto simp: i_def)
  have single: "[i ..< bo_max_iterations (se_bounds S) - n] = [i]" by (simp add: i(1) [symmetric])
  have [simp]: "ra_iteration (offered_attempt i current) = i" by (simp add: offered_attempt_def)
  have stopped: ?case
    if "stop_unconverged S (offered_attempt i current) note_text (i + 1) included reason h = Inr (r, h')"
    for note_text reason
    using stop_unconverged_Inr [OF that] Suc.prems(3) i by (auto simp: report_ok_def i_def [symmetric])
  show ?case
  proof (cases "se_driver S i current")
    case TaskSuccess
    then show ?thesis using Suc.prems i
      by (auto simp: i_def [symmetric] Let_def bindR_Inr_iff history_append_Inr attempt_records_def
          outcome_record_def report_ok_def offered_attempt_def single)
  next
    case (TaskFailure msg)
    with Suc.prems(1) show ?thesis by (intro stopped) (simp add: i_def [symmetric] Let_def)
  next
    case (NeedsSource j msg chosen)
    show ?thesis
    proof (cases "length included \<ge> bo_max_re_included (se_bounds S)")
      case True
      with NeedsSource Suc.prems(1) show ?thesis by (intro stopped) (simp add: i_def [symmetric] Let_def)
    next
      case False
      with NeedsSource Suc.prems(1) obtain follow where follow: "re_include S i current j msg chosen = Inr follow"
        by (auto simp: i_def [symmetric] Let_def bindR_Inr_iff)
      show ?thesis
      proof (cases "de_total_bytes (ho_delta follow) > bo_max_delta_bytes (se_bounds S)")
        case True
        with NeedsSource False follow Suc.prems(1) show ?thesis
          by (intro stopped) (simp add: i_def [symmetric] Let_def)
      next
        case fits: False
        with NeedsSource False follow Suc.prems(1) obtain h1 where
          h1: "history_append (se_writable S)
            ((offered_attempt i current)\<lparr>ra_re_included := Some j, ra_note := Some msg\<rparr>) h = Inr h1"
          and loop: "repair_loop S n follow (included @ [j]) h1 = Inr (r, h')"
          by (auto simp: i_def [symmetric] Let_def bindR_Inr_iff)
        obtain records where "rh_records h' = rh_records h1 @ records" "rh_sequence h' = rh_sequence h1 + length records"
          "attempt_records (rh_sequence h1) (Suc i) (included @ [j]) r records" "length records \<le> Suc n" "report_ok S r"
          using Suc.IH [OF loop] Suc.prems(2) False fits i by auto
        then show ?thesis
          using h1 attempt_records_Cons [of "rh_sequence h" i included j r records]
          by (auto simp: history_append_Inr offered_attempt_def i_def [symmetric])
      qed
    qed
  qed
qed

text \<open>Every error of a run is one of the bounds, of the history file or of a re-inclusion.\<close>

definition repair_refused :: "repair_setting \<Rightarrow> repair_error \<Rightarrow> bool" where
  "repair_refused S e \<longleftrightarrow>
     (e = RepairInvalidState \<and> (bo_max_iterations (se_bounds S) = 0 \<or>
        bo_max_re_included (se_bounds S) = 0 \<or> bo_max_delta_bytes (se_bounds S) = 0)) \<or>
     (e = RepairIo \<and> (\<exists>n. \<not> se_writable S n)) \<or>
     (\<exists>i current j msg chosen. i < bo_max_iterations (se_bounds S) \<and>
        se_driver S i current = NeedsSource j msg chosen \<and> re_include S i current j msg chosen = Inl e)"

lemma history_append_Inl: "history_append writable a h = Inl e \<Longrightarrow> e = RepairIo \<and> (\<exists>n. \<not> writable n)"
  by (auto simp: history_append_def split: if_splits)

lemma stop_unconverged_Inl:
  "stop_unconverged S a note_text n included reason h = Inl e \<Longrightarrow> repair_refused S e"
  by (auto simp: stop_unconverged_def bindR_Inl_iff repair_refused_def dest: history_append_Inl)

lemma repair_loop_Inl:
  assumes "repair_loop S n current included h = Inl e" "n \<le> bo_max_iterations (se_bounds S)"
  shows "repair_refused S e"
  using assms
proof (induction n arbitrary: current included h)
  case 0
  then show ?case by (simp add: stop_unconverged_Inl)
next
  case (Suc n)
  define i where "i = bo_max_iterations (se_bounds S) - Suc n"
  have i: "i < bo_max_iterations (se_bounds S)" using Suc.prems(2) by (simp add: i_def)
  show ?case
  proof (cases "se_driver S i current")
    case (NeedsSource j msg chosen)
    show ?thesis
    proof (cases "re_include S i current j msg chosen")
      case (Inl e')
      then show ?thesis using Suc.prems(1) NeedsSource i
        by (auto simp: i_def [symmetric] Let_def repair_refused_def split: if_splits
            dest: stop_unconverged_Inl [unfolded repair_refused_def])
    next
      case (Inr follow)
      then show ?thesis using Suc NeedsSource
        by (auto simp: i_def [symmetric] Let_def bindR_Inl_iff repair_refused_def split: if_splits
            dest: stop_unconverged_Inl [unfolded repair_refused_def] history_append_Inl)
    qed
  qed (use Suc.prems(1) in \<open>auto simp: i_def [symmetric] Let_def bindR_Inl_iff repair_refused_def
      dest: stop_unconverged_Inl [unfolded repair_refused_def] history_append_Inl\<close>)
qed

lemma run_repair_Inl: "run_repair S h = Inl e \<Longrightarrow> repair_refused S e"
  by (auto simp: run_repair_def dest: repair_loop_Inl split: if_splits) (simp_all add: repair_refused_def)

lemma run_repair_spec:
  assumes "run_repair S h = Inr (r, h')"
  shows "\<exists>records. rh_records h' = rh_records h @ records \<and> rh_sequence h' = rh_sequence h + length records \<and>
      attempt_records (rh_sequence h) 0 [] r records \<and> length records \<le> Suc (bo_max_iterations (se_bounds S))"
    and "report_ok S r"
proof -
  have "repair_loop S (bo_max_iterations (se_bounds S)) (se_original S) [] h = Inr (r, h')"
    using assms by (simp add: run_repair_def split: if_splits)
  from repair_loop_spec [OF this]
  show "\<exists>records. rh_records h' = rh_records h @ records \<and> rh_sequence h' = rh_sequence h + length records \<and>
      attempt_records (rh_sequence h) 0 [] r records \<and> length records \<le> Suc (bo_max_iterations (se_bounds S))"
    "report_ok S r" by auto
qed

end
