(* ===== verification/Summary.thy ===== *)
theory Summary
  imports Delta
begin

text \<open>
  Content-addressed summaries, \<open>src/src/summary.rs\<close>: the payloads of the three levels, their
  identifiers, how they are built from a store and how they are verified against it.
\<close>

definition SUMMARY_ID_DOMAIN :: string where
  "SUMMARY_ID_DOMAIN = ''org.aaif.contextmesh.summary-id.v1''"
definition MAX_SUMMARY_NOTE_BYTES :: nat where "MAX_SUMMARY_NOTE_BYTES = 1024"

datatype summary_id = SummaryId bytes

primrec summary_id_bytes :: "summary_id \<Rightarrow> bytes" where "summary_id_bytes (SummaryId b) = b"

definition summary_id_wf :: "summary_id \<Rightarrow> bool" where
  "summary_id_wf x \<longleftrightarrow> length (summary_id_bytes x) = 32"
definition summary_id_text :: "env \<Rightarrow> summary_id \<Rightarrow> string" where
  "summary_id_text E x = fixed_to_text E ''sum1_'' (summary_id_bytes x)"
definition summary_id_of_text :: "env \<Rightarrow> string \<Rightarrow> contract_error + summary_id" where
  "summary_id_of_text E t = bindR (fixed_from_text E ''sum1_'' 32 t) (\<lambda>b. Inr (SummaryId b))"

interpretation summary_id: text_codec base64_lawful summary_id_text summary_id_of_text summary_id_wf
proof
  fix E t and x :: summary_id
  show "base64_lawful E \<Longrightarrow> summary_id_wf x \<Longrightarrow> summary_id_of_text E (summary_id_text E x) = Inr x"
    by (cases x) (simp add: summary_id_of_text_def summary_id_text_def summary_id_wf_def fixed_from_to_text)
  show "summary_id_of_text E t = Inr x \<Longrightarrow> summary_id_text E x = t \<and> summary_id_wf x"
    by (auto simp: summary_id_of_text_def summary_id_text_def summary_id_wf_def bindR_Inr_iff
        dest: fixed_from_text_Inr)
qed

section \<open>Payloads\<close>

datatype summary_level = EventLevel | RefLevel | ProjectLevel

datatype summary_payload =
    EventSummary context_id event_id string string
  | RefSummary context_id string event_id "event_id list" string
  | ProjectSummary context_id "event_id list" string

fun payload_context :: "summary_payload \<Rightarrow> context_id" where
  "payload_context (EventSummary c _ _ _) = c"
| "payload_context (RefSummary c _ _ _ _) = c"
| "payload_context (ProjectSummary c _ _) = c"

fun payload_covered :: "summary_payload \<Rightarrow> event_id list" where
  "payload_covered (EventSummary _ i _ _) = [i]"
| "payload_covered (RefSummary _ _ _ events _) = events"
| "payload_covered (ProjectSummary _ events _) = events"

fun payload_level :: "summary_payload \<Rightarrow> summary_level" where
  "payload_level (EventSummary _ _ _ _) = EventLevel"
| "payload_level (RefSummary _ _ _ _ _) = RefLevel"
| "payload_level (ProjectSummary _ _ _) = ProjectLevel"

text \<open>The derived \<open>Serialize\<close>: internally tagged by \<open>level\<close>, in kebab case.\<close>

fun payload_fields :: "env \<Rightarrow> summary_payload \<Rightarrow> (string \<times> json) list" where
  "payload_fields E (EventSummary c i kind note) =
     [(''level'', JString ''event''), (''context'', JString (context_id_text E c)),
      (''event'', JString (event_id_text E i)), (''kind'', JString kind), (''note'', JString note)]"
| "payload_fields E (RefSummary c name head events note) =
     [(''level'', JString ''ref''), (''context'', JString (context_id_text E c)),
      (''ref_name'', JString name), (''head'', JString (event_id_text E head)),
      (''events'', JArray (map (\<lambda>i. JString (event_id_text E i)) events)), (''note'', JString note)]"
| "payload_fields E (ProjectSummary c events note) =
     [(''level'', JString ''project''), (''context'', JString (context_id_text E c)),
      (''events'', JArray (map (\<lambda>i. JString (event_id_text E i)) events)), (''note'', JString note)]"

definition payload_json :: "env \<Rightarrow> summary_payload \<Rightarrow> json" where
  "payload_json E payload = JObject (obj_of (payload_fields E payload))"

datatype summary_error =
    SummaryStore store_error | SummaryDelta delta_error | SummaryTampered summary_id summary_id
  | SummaryDrifted event_id | SummaryWrongContext event_id | SummaryUnknownRef context_id string
  | SummaryEmpty | SummaryInternal

record summary =
  sm_id :: summary_id
  sm_payload :: summary_payload

definition derive_summary_id :: "env \<Rightarrow> summary_payload \<Rightarrow> summary_error + summary_id" where
  "derive_summary_id E payload =
     bindR (map_err (\<lambda>_. SummaryInternal) (canonicalize E (payload_json E payload))) (\<lambda>canonical.
       Inr (SummaryId (blake3_derive E SUMMARY_ID_DOMAIN canonical)))"

definition summary_from_payload :: "env \<Rightarrow> summary_payload \<Rightarrow> summary_error + summary" where
  "summary_from_payload E payload =
     bindR (derive_summary_id E payload) (\<lambda>i. Inr \<lparr>sm_id = i, sm_payload = payload\<rparr>)"

section \<open>Notes\<close>

fun value_get :: "json \<Rightarrow> string \<Rightarrow> json option" where
  "value_get (JObject m) key = obj_get m key"
| "value_get _ key = None"

text \<open>\<open>is_char_boundary\<close>: the end of the string, or a byte that does not continue a character.\<close>

definition char_boundary :: "string \<Rightarrow> nat \<Rightarrow> bool" where
  "char_boundary text n \<longleftrightarrow> n = 0 \<or> n = length text \<or>
     (n < length text \<and> \<not> (128 \<le> (of_char (text ! n) :: nat) \<and> (of_char (text ! n) :: nat) < 192))"

fun boundary_below :: "string \<Rightarrow> nat \<Rightarrow> nat" where
  "boundary_below text 0 = 0"
| "boundary_below text (Suc n) = (if char_boundary text (Suc n) then Suc n else boundary_below text n)"

definition derived_note :: "signed_event \<Rightarrow> string" where
  "derived_note event =
     (let note = (case value_get (body_payload (ev_body event)) ''note'' of
            None \<Rightarrow> body_kind (ev_body event)
          | Some v \<Rightarrow> (case value_as_str v of None \<Rightarrow> body_kind (ev_body event) | Some s \<Rightarrow> s))
      in if length note > MAX_SUMMARY_NOTE_BYTES
         then take (boundary_below note MAX_SUMMARY_NOTE_BYTES) note else note)"

section \<open>Building\<close>

definition event_summary :: "env \<Rightarrow> db \<Rightarrow> context_id \<Rightarrow> event_id \<Rightarrow> summary_error + summary" where
  "event_summary E d c i =
     bindR (map_err SummaryStore (store_event E d i)) (\<lambda>found.
     bindR (ok_or found (SummaryDrifted i)) (\<lambda>stored.
       if body_context (ev_body stored) \<noteq> c then Inl (SummaryWrongContext i)
       else summary_from_payload E (EventSummary c i (body_kind (ev_body stored)) (derived_note stored))))"

definition ref_note :: "env \<Rightarrow> string \<Rightarrow> event_id \<Rightarrow> nat \<Rightarrow> string" where
  "ref_note E name head n =
     ''ref '' @ name @ '' at '' @ event_id_text E head @ '' covering '' @ decimal n @ '' events''"

definition ref_summary ::
  "env \<Rightarrow> db \<Rightarrow> context_id \<Rightarrow> string \<Rightarrow> closure_limits \<Rightarrow> summary_error + summary" where
  "ref_summary E d c name limits =
     bindR (map_err SummaryStore (local_ref E d c name)) (\<lambda>found.
     bindR (ok_or found (SummaryUnknownRef c name)) (\<lambda>head.
     bindR (map_err SummaryDelta (at_head E d c head limits)) (\<lambda>recipient.
       if rs_closure recipient = [] then Inl SummaryEmpty
       else summary_from_payload E
         (RefSummary c name head (rs_closure recipient)
           (ref_note E name head (length (rs_closure recipient)))))))"

definition project_note :: "env \<Rightarrow> context_id \<Rightarrow> nat \<Rightarrow> string" where
  "project_note E c n = ''project '' @ context_id_text E c @ '' covering '' @ decimal n @ '' events''"

definition project_summary ::
  "env \<Rightarrow> db \<Rightarrow> context_id \<Rightarrow> closure_limits \<Rightarrow> summary_error + summary" where
  "project_summary E d c limits =
     bindR (map_err SummaryStore (list_local_refs E d c)) (\<lambda>refs.
     bindR (collectR (\<lambda>r. map_err SummaryDelta (at_head E d c (ref_head r) limits)) refs) (\<lambda>recipients.
       let covered = sort_dedup (event_id_text E) (concat (map rs_closure recipients))
       in if covered = [] then Inl SummaryEmpty
          else summary_from_payload E (ProjectSummary c covered (project_note E c (length covered)))))"

section \<open>Verification\<close>

definition check_covered ::
  "env \<Rightarrow> db \<Rightarrow> context_id \<Rightarrow> event_id \<Rightarrow> nat \<Rightarrow> summary_error + nat" where
  "check_covered E d c i checked =
     bindR (map_err SummaryStore (store_event E d i)) (\<lambda>found.
       case found of
         Some stored \<Rightarrow>
           if body_context (ev_body stored) = c then Inr (checked + 1) else Inl (SummaryWrongContext i)
       | None \<Rightarrow> Inl (SummaryDrifted i))"

record summary_verification =
  sv_valid :: bool
  sv_checked :: nat

definition verify_summary :: "env \<Rightarrow> db \<Rightarrow> summary \<Rightarrow> summary_error + summary_verification" where
  "verify_summary E d s =
     bindR (derive_summary_id E (sm_payload s)) (\<lambda>expected.
       if expected \<noteq> sm_id s then Inl (SummaryTampered (sm_id s) expected)
       else bindR (foldR (check_covered E d (payload_context (sm_payload s))) (payload_covered (sm_payload s)) 0)
         (\<lambda>checked. Inr \<lparr>sv_valid = True, sv_checked = checked\<rparr>))"

end
