(* ===== verification/Summary_Facts.thy ===== *)
theory Summary_Facts
  imports Summary Delta_Facts
begin

text \<open>
  Summaries of \<open>src/src/summary.rs\<close>: verification accepts exactly the summaries whose identifier
  is the one derived from their payload and whose events are all stored in their context, and what
  each builder covers, so a built summary verifies, then and in every later store.
\<close>

section \<open>Verification\<close>

lemma check_covered_lookup:
  "store_inv E d \<Longrightarrow> check_covered E d c i n =
    (if stored_in d i c then Inr (n + 1)
     else if has_event d i then Inl (SummaryWrongContext i) else Inl (SummaryDrifted i))"
  using lookup_event_None [of E d i] stored_in_iff [of E d i c]
  by (auto simp: check_covered_def store_event_lookup event_context_def split: option.splits)

lemma covered_fold:
  "store_inv E d \<Longrightarrow> foldR (check_covered E d c) ids n = Inr m \<longleftrightarrow>
    (\<forall>i \<in> set ids. stored_in d i c) \<and> m = n + length ids"
  by (induction ids arbitrary: n) (auto simp: check_covered_lookup)

lemma verify_summary_iff:
  assumes "store_inv E d"
  shows "verify_summary E d s = Inr v \<longleftrightarrow>
    derive_summary_id E (sm_payload s) = Inr (sm_id s) \<and>
    (\<forall>i \<in> set (payload_covered (sm_payload s)). stored_in d i (payload_context (sm_payload s))) \<and>
    v = \<lparr>sv_valid = True, sv_checked = length (payload_covered (sm_payload s))\<rparr>"
  by (auto simp: verify_summary_def bindR_Inr_iff covered_fold [OF assms])

lemma verify_summary_tampered:
  "derive_summary_id E (sm_payload s) = Inr i \<Longrightarrow> i \<noteq> sm_id s \<Longrightarrow>
    verify_summary E d s = Inl (SummaryTampered (sm_id s) i)"
  by (simp add: verify_summary_def)

lemma summary_from_payload_Inr:
  "summary_from_payload E payload = Inr s \<longleftrightarrow> sm_payload s = payload \<and> derive_summary_id E payload = Inr (sm_id s)"
  by (cases s) (auto simp: summary_from_payload_def bindR_Inr_iff)

section \<open>The builders\<close>

text \<open>What a summary covers: canonical, stored in the context.\<close>

definition summary_covers :: "env \<Rightarrow> db \<Rightarrow> context_id \<Rightarrow> event_id set \<Rightarrow> summary \<Rightarrow> bool" where
  "summary_covers E d c X s \<longleftrightarrow>
     payload_context (sm_payload s) = c \<and> set (payload_covered (sm_payload s)) = X \<and>
     strictly_sorted (event_id_text E) (payload_covered (sm_payload s)) \<and>
     derive_summary_id E (sm_payload s) = Inr (sm_id s) \<and> (\<forall>i \<in> X. stored_in d i c)"

lemma summary_covers_verifies:
  assumes "summary_covers E d c X s" "store_inv E d'" "db_grows d d'"
  shows "verify_summary E d' s = Inr \<lparr>sv_valid = True, sv_checked = card X\<rparr>"
proof -
  have "length (payload_covered (sm_payload s)) = card X"
    using assms(1) length_strictly_sorted [of "event_id_text E"] by (auto simp: summary_covers_def)
  then show ?thesis
    using assms db_grows_stored_in [OF assms(3)] by (auto simp: verify_summary_iff [OF assms(2)] summary_covers_def)
qed

lemma event_summary_covers:
  assumes "store_inv E d" "event_summary E d c i = Inr s"
  shows "summary_covers E d c {i} s" "payload_level (sm_payload s) = EventLevel"
proof -
  obtain ev where "lookup_event E d i = Some ev" "event_context ev = c"
    "summary_from_payload E (EventSummary c i (body_kind (ev_body ev)) (derived_note ev)) = Inr s"
    using assms(2)
    by (auto simp: event_summary_def bindR_Inr_iff store_event_lookup [OF assms(1)] event_context_def split: if_splits)
  then show "summary_covers E d c {i} s" "payload_level (sm_payload s) = EventLevel"
    using stored_in_iff [OF assms(1)] by (auto simp: summary_from_payload_Inr summary_covers_def)
qed

lemma at_head_history:
  assumes "env_lawful E" "store_inv E d" "at_head E d c head limits = Inr r"
  shows "exact_history E d c head r"
  using at_head_spec [OF assms(1,2), of c head limits] assms(3) by simp

lemma ref_summary_covers:
  assumes "env_lawful E" "store_inv E d" "ref_summary E d c name limits = Inr s"
  obtains head where "local_ref E d c name = Inr (Some head)"
    "summary_covers E d c (ancestry E d [head]) s" "payload_level (sm_payload s) = RefLevel"
proof -
  obtain head r where head: "local_ref E d c name = Inr (Some head)" and r: "at_head E d c head limits = Inr r"
    and s: "summary_from_payload E (RefSummary c name head (rs_closure r) (ref_note E name head (length (rs_closure r)))) = Inr s"
    using assms(3) by (auto simp: ref_summary_def bindR_Inr_iff split: if_splits)
  have "summary_covers E d c (ancestry E d [head]) s" "payload_level (sm_payload s) = RefLevel"
    using at_head_history [OF assms(1,2) r] s
    by (auto simp: summary_from_payload_Inr exact_history_def summary_covers_def)
  with head show thesis by (rule that)
qed

lemma histories_of:
  assumes "env_lawful E" "store_inv E d"
    and "collectR (\<lambda>r. map_err f (at_head E d c (ref_head r) limits)) refs = Inr hs"
  shows "set (concat (map rs_closure hs)) = (\<Union>r \<in> set refs. ancestry E d [ref_head r])"
    and "\<forall>i \<in> set (concat (map rs_closure hs)). stored_in d i c"
proof -
  have all: "list_all2 (\<lambda>r h. exact_history E d c (ref_head r) h) refs hs"
    using assms(3) unfolding collectR_Inr_iff
    by (rule list_all2_mono) (simp add: at_head_history [OF assms(1,2)])
  then show "set (concat (map rs_closure hs)) = (\<Union>r \<in> set refs. ancestry E d [ref_head r])"
    by (induction rule: list_all2_induct) (auto simp: exact_history_def)
  from all show "\<forall>i \<in> set (concat (map rs_closure hs)). stored_in d i c"
    by (induction rule: list_all2_induct) (auto simp: exact_history_def)
qed

lemma project_summary_covers:
  assumes "env_lawful E" "store_inv E d" "project_summary E d c limits = Inr s"
  shows "summary_covers E d c (\<Union>r \<in> {r \<in> set (db_local d). ref_context r = c}. ancestry E d [ref_head r]) s"
    "payload_level (sm_payload s) = ProjectLevel"
proof -
  let ?refs = "sort_key ref_name (filter (\<lambda>r. ref_context r = c) (db_local d))"
  obtain hs where hs: "collectR (\<lambda>r. map_err SummaryDelta (at_head E d c (ref_head r) limits)) ?refs = Inr hs"
    and s: "summary_from_payload E (ProjectSummary c (sort_dedup (event_id_text E) (concat (map rs_closure hs)))
      (project_note E c (length (sort_dedup (event_id_text E) (concat (map rs_closure hs)))))) = Inr s"
    using assms(3)
    by (auto simp: project_summary_def bindR_Inr_iff list_local_refs_view [OF assms(2)] Let_def split: if_splits)
  note covered = histories_of [OF assms(1,2) hs]
  have "\<forall>i \<in> set (concat (map rs_closure hs)). event_id_wf i"
    using covered(2) stored_in_has_event has_event_wf [OF assms(2)] by blast
  then have "strictly_sorted (event_id_text E) (sort_dedup (event_id_text E) (concat (map rs_closure hs)))"
    using assms(1) by (intro event_id.canonical_sort_dedup) (simp_all add: env_lawful_def)
  then show "summary_covers E d c (\<Union>r \<in> {r \<in> set (db_local d). ref_context r = c}. ancestry E d [ref_head r]) s"
    "payload_level (sm_payload s) = ProjectLevel"
    using s covered by (simp_all add: summary_from_payload_Inr summary_covers_def del: set_concat)
qed

section \<open>Notes\<close>

lemma boundary_below_bound: "boundary_below s n \<le> n"
  by (induction n) auto

lemma derived_note_bound: "length (derived_note ev) \<le> MAX_SUMMARY_NOTE_BYTES"
  by (simp add: derived_note_def Let_def min.coboundedI2 boundary_below_bound)

end
