(* ===== verification/Selection_Facts.thy ===== *)
theory Selection_Facts
  imports Selection Closure_Facts "HOL-Library.Multiset"
begin

text \<open>
  What \<open>src/src/selection.rs\<close> selects: the tokenizer reads exactly the lower-cased runs of
  alphanumeric characters, the baseline selector keeps exactly the sources that share a term with
  the task, best score first and ties by identifier, and a compiled selection is within its budget.
\<close>

section \<open>Tokens\<close>

text \<open>The maximal runs of alphanumeric characters, in lower case.\<close>

function words :: "string \<Rightarrow> string list" where
  "words [] = []"
| "words (ch # text) =
     (if is_ascii_alphanumeric ch
      then map to_ascii_lowercase (ch # takeWhile is_ascii_alphanumeric text) #
           words (dropWhile is_ascii_alphanumeric text)
      else words text)"
  by pat_completeness auto
termination
  by (relation "measure length") (simp_all add: length_dropWhile_le le_imp_less_Suc)

lemma tokenize_loop_words:
  "tokenize_loop text current tokens =
    (if current = [] then tokens @ words text
     else tokens @ (current @ map to_ascii_lowercase (takeWhile is_ascii_alphanumeric text)) #
       words (dropWhile is_ascii_alphanumeric text))"
  by (induction "text" current tokens rule: tokenize_loop.induct) auto

lemma tokenize_words: "tokenize text = words text"
  by (simp add: tokenize_def tokenize_loop_words)

lemma sum_list_positive: "0 < sum_list (map f xs) \<longleftrightarrow> (\<exists>x \<in> set xs. 0 < (f x :: nat))"
  by (induction xs) auto

text \<open>
  What a match and its rank are: the words of a source are those of its kind and its text, a source
  matches when one of them is a word of the task, and it ranks by how often the words of the task
  occur among its own, a repeated word of the task counting again.
\<close>

definition source_words :: "source_event \<Rightarrow> string list" where
  "source_words s = words (src_kind s @ '' '' @ src_text s)"

definition shares_word :: "string \<Rightarrow> source_event \<Rightarrow> bool" where
  "shares_word text s \<longleftrightarrow> set (words text) \<inter> set (source_words s) \<noteq> {}"

definition term_hits :: "string list \<Rightarrow> source_event \<Rightarrow> nat" where
  "term_hits terms s = (\<Sum>t\<leftarrow>terms. count_list (source_words s) t)"

lemma length_filter_count: "length (filter (\<lambda>w. w = t) ws) = count_list ws t"
  by (induction ws) auto

lemma score_source_hits: "score_source terms s = term_hits terms s"
  by (simp add: score_source_def Let_def tokenize_words length_filter_count term_hits_def source_words_def)

lemma term_hits_positive: "0 < term_hits (words text) s \<longleftrightarrow> shares_word text s"
  unfolding term_hits_def sum_list_positive shares_word_def by (auto simp: count_list_0_iff neq0_conv [symmetric])

section \<open>The ranking\<close>

definition ranked_before :: "('a \<Rightarrow> 'k::linorder) \<Rightarrow> ('a \<Rightarrow> 'l::linorder) \<Rightarrow> 'a \<Rightarrow> 'a \<Rightarrow> bool" where
  "ranked_before f g a b \<longleftrightarrow> f a < f b \<or> (f a = f b \<and> g a \<le> g b)"

lemma sorted_within_keys:
  "sorted (map f ys) \<Longrightarrow> (\<And>k. sorted (map g (filter (\<lambda>x. f x = k) ys))) \<Longrightarrow> sorted_wrt (ranked_before f g) ys"
proof (induction ys)
  case (Cons y ys)
  have "sorted (map g (filter (\<lambda>x. f x = k) ys))" for k
    using Cons.prems(2) [of k] by (simp split: if_splits)
  moreover have "ranked_before f g y x" if "x \<in> set ys" for x
    using Cons.prems(1) Cons.prems(2) [of "f y"] that by (force simp: ranked_before_def le_less)
  ultimately show ?case using Cons by simp
qed simp

lemma stable_sort_ranked:
  "sorted_wrt (ranked_before f g) (sort_key f (sort_key g xs))"
proof (rule sorted_within_keys)
  fix k
  have "filter (\<lambda>x. f x = k) (sort_key f (sort_key g xs)) = filter (\<lambda>x. f x = k) (sort_key g xs)"
    by (rule sort_key_stable)
  then show "sorted (map g (filter (\<lambda>x. f x = k) (sort_key f (sort_key g xs))))"
    by (simp add: sorted_filter)
qed simp

definition better_source :: "env \<Rightarrow> string list \<Rightarrow> source_event \<Rightarrow> source_event \<Rightarrow> bool" where
  "better_source E terms a b \<longleftrightarrow> term_hits terms b < term_hits terms a \<or>
     (term_hits terms a = term_hits terms b \<and> event_id_text E (src_event a) \<le> event_id_text E (src_event b))"

lemma baseline_rank_facts:
  "mset (baseline_rank E terms sources) = mset (map (\<lambda>s. (term_hits terms s, s)) sources)"
  "sorted_wrt (ranked_before (\<lambda>(score, _). - int score) (\<lambda>(_, s). event_id_text E (src_event s)))
     (baseline_rank E terms sources)"
  by (simp_all add: baseline_rank_def stable_sort_ranked score_source_hits)

lemma baseline_select_spec:
  "baseline_select E task sources =
     (if words (task_verbatim task) = [] then Inl EmptyTask
      else Inr (map (\<lambda>(_, s). reference_from_source s)
        (filter (\<lambda>(score, _). 0 < score) (baseline_rank E (words (task_verbatim task)) sources))))"
  by (simp add: baseline_select_def tokenize_words)

lemma baseline_ranked:
  fixes terms :: "string list" and sources :: "source_event list" and E :: env
  defines "matching \<equiv> \<lambda>s. 0 < term_hits terms s"
  defines "ranked \<equiv> map snd (filter (\<lambda>(score, _). 0 < score) (baseline_rank E terms sources))"
  shows "mset ranked = mset (filter matching sources)" "sorted_wrt (better_source E terms) ranked"
    "map (\<lambda>(_, s). reference_from_source s) (filter (\<lambda>(score, _). 0 < score) (baseline_rank E terms sources)) =
      map reference_from_source ranked"
proof -
  note rank = baseline_rank_facts [of E terms sources]
  have "mset ranked = image_mset snd (filter_mset (\<lambda>(score, _). 0 < score) (mset (map (\<lambda>s. (term_hits terms s, s)) sources)))"
    unfolding rank(1) [symmetric] by (simp add: ranked_def)
  also have "\<dots> = mset (filter matching sources)"
    by (induction sources) (auto simp: matching_def)
  finally show "mset ranked = mset (filter matching sources)" .
  have scored: "score = term_hits terms s" if "(score, s) \<in> set (baseline_rank E terms sources)" for score s
  proof -
    have "(score, s) \<in># mset (baseline_rank E terms sources)" using that by simp
    then show ?thesis by (auto simp: rank(1))
  qed
  have "sorted_wrt (\<lambda>x y. better_source E terms (snd x) (snd y))
      (filter (\<lambda>(score, _). 0 < score) (baseline_rank E terms sources))"
    by (rule sorted_wrt_mono_rel [OF _ sorted_wrt_filter [OF rank(2)]])
      (auto simp: ranked_before_def better_source_def dest!: scored)
  then show "sorted_wrt (better_source E terms) ranked" by (simp add: ranked_def sorted_wrt_map)
  show "map (\<lambda>(_, s). reference_from_source s) (filter (\<lambda>(score, _). 0 < score) (baseline_rank E terms sources)) =
      map reference_from_source ranked"
    by (simp add: ranked_def case_prod_beta)
qed

section \<open>The budget\<close>

lemma compile_context_Inr_iff:
  "compile_context refs budget = Inr c \<longleftrightarrow>
     length refs \<le> MAX_SELECTED_EVENTS \<and> length refs \<le> max_selected_events budget \<and>
     sum_list (map sr_bytes refs) \<le> MAX_SELECTED_BYTES \<and> sum_list (map sr_bytes refs) \<le> max_budget_bytes budget \<and>
     c = \<lparr>cc_references = refs, cc_budget = budget, cc_total_bytes = sum_list (map sr_bytes refs)\<rparr>"
  by (auto simp: compile_context_def Let_def)

definition over_budget :: "selection_budget \<Rightarrow> nat list \<Rightarrow> bool" where
  "over_budget budget sizes \<longleftrightarrow>
     length sizes > MAX_SELECTED_EVENTS \<or> length sizes > max_selected_events budget \<or>
     sum_list sizes > MAX_SELECTED_BYTES \<or> sum_list sizes > max_budget_bytes budget"

lemma compile_context_Inl:
  "compile_context refs budget = Inl e \<Longrightarrow> e = BudgetExceeded \<and> over_budget budget (map sr_bytes refs)"
  by (auto simp: compile_context_def Let_def over_budget_def split: if_splits)

lemma compile_context_Nil: "compile_context [] budget \<noteq> Inl e"
  by (simp add: compile_context_def)

lemma over_budget_mset: "mset xs = mset ys \<Longrightarrow> over_budget budget xs = over_budget budget ys"
  unfolding over_budget_def by (metis mset_eq_length sum_mset_sum_list)

lemma load_source_lookup:
  "store_inv E d \<Longrightarrow> load_source E d i =
    (case lookup_event E d i of None \<Rightarrow> Inl UnverifiableSelection | Some ev \<Rightarrow> source_from_signed E ev)"
  by (auto simp: load_source_def store_event_lookup split: option.split)

lemma select_sources_cases:
  assumes "select_sources E d text structured budget sl candidates = Inr sel"
  obtains task provenance refs cc where
    "task_from_verbatim E text structured = Inr task" "\<not> trims_to_empty text"
    "selector_new (sl_identity sl) (sl_version sl) (sl_config_hash sl) = Inr provenance"
    "compile_context refs budget = Inr cc"
    "sel = \<lparr>sn_context = cc,
       sn_marker = (if candidates = [] then Some NoSources else if refs = [] then Some NoMatch else None),
       sn_uncertainty = (if candidates = [] then [NO_SOURCES_NOTE] else if refs = [] then [NO_MATCH_NOTE] else []),
       sn_selector = provenance\<rparr>"
    "if candidates = [] then refs = []
     else \<exists>sources. collectR (load_source E d) (sort_dedup (event_id_text E) candidates) = Inr sources \<and>
       sl_select sl task sources = Inr refs"
  using assms
  by (auto simp: select_sources_def Let_def bindR_Inr_iff split: if_splits)

section \<open>Selecting with the baseline\<close>

definition loaded_source :: "env \<Rightarrow> db \<Rightarrow> event_id \<Rightarrow> source_event \<Rightarrow> bool" where
  "loaded_source E d i s \<longleftrightarrow> (\<exists>ev. lookup_event E d i = Some ev \<and> source_from_signed E ev = Inr s)"

definition exact_selection ::
  "env \<Rightarrow> db \<Rightarrow> string \<Rightarrow> selection_budget \<Rightarrow> event_id list \<Rightarrow> selection_result \<Rightarrow> bool" where
  "exact_selection E d text budget candidates sel \<longleftrightarrow>
     (\<exists>sources ranked.
        list_all2 (loaded_source E d) (sort_dedup (event_id_text E) candidates) sources \<and>
        mset ranked = mset (filter (shares_word text) sources) \<and>
        sorted_wrt (better_source E (words text)) ranked \<and>
        cc_references (sn_context sel) = map reference_from_source ranked \<and>
        cc_total_bytes (sn_context sel) = sum_list (map src_bytes ranked) \<and>
        length ranked \<le> MAX_SELECTED_EVENTS \<and> length ranked \<le> max_selected_events budget \<and>
        sum_list (map src_bytes ranked) \<le> MAX_SELECTED_BYTES \<and>
        sum_list (map src_bytes ranked) \<le> max_budget_bytes budget \<and>
        sn_marker sel = (if candidates = [] then Some NoSources else if ranked = [] then Some NoMatch else None))"

definition selection_refused ::
  "env \<Rightarrow> db \<Rightarrow> string \<Rightarrow> json option \<Rightarrow> selection_budget \<Rightarrow> selector \<Rightarrow> event_id list \<Rightarrow>
    selection_error \<Rightarrow> bool" where
  "selection_refused E d text structured budget sl candidates e \<longleftrightarrow>
     (e = EmptyTask \<and> (trims_to_empty text \<or> words text = [])) \<or>
     (e = InvalidTask \<and> \<not> is_ok (task_from_verbatim E text structured)) \<or>
     (e = TooManyCandidates \<and> card (set candidates) > MAX_SELECTION_CANDIDATES) \<or>
     (e = SelectorFailed \<and> \<not> is_ok (selector_new (sl_identity sl) (sl_version sl) (sl_config_hash sl))) \<or>
     (e = UnverifiableSelection \<and> (\<exists>i \<in> set candidates. \<not> has_event d i)) \<or>
     (e = BudgetExceeded \<and> (\<exists>sources.
        list_all2 (loaded_source E d) (sort_dedup (event_id_text E) candidates) sources \<and>
        over_budget budget (map src_bytes (filter (shares_word text) sources))))"

lemma load_source_stored:
  assumes "store_inv E d" "has_event d i"
  obtains s where "load_source E d i = Inr s" "loaded_source E d i s"
proof -
  obtain ev where ev: "lookup_event E d i = Some ev"
    using assms lookup_event_None [OF assms(1), of i] by auto
  obtain p where "canonical_payload_bytes E (body_payload (ev_body ev)) = Inr p"
    by (rule stored_payload [OF assms(1) ev])
  with ev that show thesis
    by (simp add: load_source_lookup [OF assms(1)] loaded_source_def source_from_signed_def)
qed

lemma load_sources:
  assumes "store_inv E d"
  shows "case collectR (load_source E d) ids of
      Inl e \<Rightarrow> e = UnverifiableSelection \<and> (\<exists>i \<in> set ids. \<not> has_event d i)
    | Inr sources \<Rightarrow> list_all2 (loaded_source E d) ids sources"
proof (induction ids)
  case (Cons i ids)
  show ?case
  proof (cases "has_event d i")
    case True
    obtain s where "load_source E d i = Inr s" "loaded_source E d i s"
      by (rule load_source_stored [OF assms True])
    then show ?thesis using Cons by (cases "collectR (load_source E d) ids") auto
  next
    case False
    then have "load_source E d i = Inl UnverifiableSelection"
      using lookup_event_None [OF assms, of i] by (simp add: load_source_lookup [OF assms])
    with False show ?thesis by simp
  qed
qed simp

lemma baseline_exact:
  assumes "baseline_select E task sources = Inr refs"
  obtains ranked where "refs = map reference_from_source ranked"
    "mset ranked = mset (filter (shares_word (task_verbatim task)) sources)"
    "sorted_wrt (better_source E (words (task_verbatim task))) ranked"
proof -
  let ?terms = "words (task_verbatim task)"
  have refs: "refs = map (\<lambda>(_, s). reference_from_source s)
      (filter (\<lambda>(score, _). 0 < score) (baseline_rank E ?terms sources))"
    using assms by (simp add: baseline_select_spec split: if_splits)
  show thesis
    by (rule that [OF _ baseline_ranked(1,2) [of E ?terms sources, unfolded term_hits_positive]])
      (simp only: refs baseline_ranked(3))
qed

lemma reference_bytes [simp]: "sr_bytes (reference_from_source s) = src_bytes s"
  by (simp add: reference_from_source_def)

lemma select_baseline_spec:
  assumes "env_lawful E" "store_inv E d" "\<forall>i \<in> set candidates. event_id_wf i"
  shows "case select_sources E d text structured budget (baseline_selector E version) candidates of
      Inl e \<Rightarrow> selection_refused E d text structured budget (baseline_selector E version) candidates e
    | Inr sel \<Rightarrow> exact_selection E d text budget candidates sel"
proof (cases "select_sources E d text structured budget (baseline_selector E version) candidates")
  case (Inr sel)
  obtain task provenance refs cc where run: "task_from_verbatim E text structured = Inr task"
    "compile_context refs budget = Inr cc"
    "sel = \<lparr>sn_context = cc,
       sn_marker = (if candidates = [] then Some NoSources else if refs = [] then Some NoMatch else None),
       sn_uncertainty = (if candidates = [] then [NO_SOURCES_NOTE] else if refs = [] then [NO_MATCH_NOTE] else []),
       sn_selector = provenance\<rparr>"
    "if candidates = [] then refs = []
     else \<exists>sources. collectR (load_source E d) (sort_dedup (event_id_text E) candidates) = Inr sources \<and>
       sl_select (baseline_selector E version) task sources = Inr refs"
    by (rule select_sources_cases [OF Inr])
  have task: "task_verbatim task = text"
    using run(1) by (auto simp: task_from_verbatim_def task_new_def bindR_Inr_iff Let_def)
  obtain sources ranked where exact:
    "list_all2 (loaded_source E d) (sort_dedup (event_id_text E) candidates) sources"
    "mset ranked = mset (filter (shares_word text) sources)"
    "sorted_wrt (better_source E (words text)) ranked" "refs = map reference_from_source ranked"
  proof (cases "candidates = []")
    case True
    then show ?thesis using run(4) by (intro that [of "[]" "[]"]) (simp_all add: sort_dedup_def)
  next
    case False
    then obtain sources where sources: "collectR (load_source E d) (sort_dedup (event_id_text E) candidates) = Inr sources"
      "baseline_select E task sources = Inr refs" using run(4) by (auto simp: baseline_selector_def)
    have "list_all2 (loaded_source E d) (sort_dedup (event_id_text E) candidates) sources"
      using load_sources [OF assms(2), of "sort_dedup (event_id_text E) candidates"] sources(1) by simp
    then show ?thesis using baseline_exact [OF sources(2)] that unfolding task by metis
  qed
  have "exact_selection E d text budget candidates sel"
    unfolding exact_selection_def
    using exact run(2)
    by (intro exI [of _ sources] exI [of _ ranked]) (simp add: run(3) compile_context_Inr_iff comp_def)
  then show ?thesis by (simp add: Inr)
next
  case (Inl e)
  have len: "length (sort_dedup (event_id_text E) candidates) = card (set candidates)"
    using event_id.canonical_sort_dedup [of E candidates] assms(1,3)
    by (simp add: env_lawful_def strictly_sorted_distinct distinct_card [symmetric])
  have "selection_refused E d text structured budget (baseline_selector E version) candidates e"
  proof (cases "trims_to_empty text \<or> \<not> is_ok (task_from_verbatim E text structured) \<or>
      card (set candidates) > MAX_SELECTION_CANDIDATES \<or> \<not> is_ok (selector_new (sl_identity (baseline_selector E version))
        (sl_version (baseline_selector E version)) (sl_config_hash (baseline_selector E version)))")
    case True
    then show ?thesis using Inl len
      by (auto simp: select_sources_def selection_refused_def Let_def is_ok_def bindR_def map_err_def
          split: if_splits sum.splits)
  next
    case False
    then obtain task where task: "task_from_verbatim E text structured = Inr task"
      by (auto simp: is_ok_iff)
    then have verbatim: "task_verbatim task = text"
      by (auto simp: task_from_verbatim_def task_new_def bindR_Inr_iff Let_def)
    have run: "bindR (collectR (load_source E d) (sort_dedup (event_id_text E) candidates)) (\<lambda>sources.
        bindR (baseline_select E task sources) (\<lambda>ranked.
        bindR (compile_context ranked budget) (\<lambda>c. Inr c))) = Inl e"
      using Inl False task len
      by (auto simp: select_sources_def Let_def is_ok_iff baseline_selector_def bindR_Inl_iff
          compile_context_Nil split: if_splits)
    show ?thesis
    proof (cases "collectR (load_source E d) (sort_dedup (event_id_text E) candidates)")
      case (Inl e')
      then show ?thesis
        using run load_sources [OF assms(2), of "sort_dedup (event_id_text E) candidates"]
        by (auto simp: selection_refused_def)
    next
      case (Inr sources)
      have loaded: "list_all2 (loaded_source E d) (sort_dedup (event_id_text E) candidates) sources"
        using load_sources [OF assms(2), of "sort_dedup (event_id_text E) candidates"] Inr by simp
      show ?thesis
      proof (cases "baseline_select E task sources")
        case (Inl e')
        then show ?thesis using run Inr
          by (auto simp: selection_refused_def baseline_select_spec verbatim split: if_splits)
      next
        case (Inr refs)
        obtain ranked where ranked: "refs = map reference_from_source ranked"
          "mset ranked = mset (filter (shares_word (task_verbatim task)) sources)"
          by (rule baseline_exact [OF Inr])
        have "compile_context refs budget = Inl e"
          using run Inr \<open>collectR _ _ = Inr sources\<close> by (auto simp: bindR_Inl_iff)
        from compile_context_Inl [OF this]
        have over: "e = BudgetExceeded" "over_budget budget (map src_bytes ranked)"
          by (simp_all add: ranked(1) comp_def)
        have "mset (map src_bytes ranked) =
            mset (map src_bytes (filter (shares_word text) sources))"
          using ranked(2) unfolding verbatim mset_map by (rule arg_cong)
        from over_budget_mset [OF this] over loaded show ?thesis
          by (auto simp: selection_refused_def)
      qed
    qed
  qed
  then show ?thesis by (simp add: Inl)
qed

end
