(* ===== verification/Receipt_Facts.thy ===== *)
theory Receipt_Facts
  imports Receipt Store_Blocks
begin

text \<open>
  Receipts are what they claim: an issued receipt verifies, only a verified one is read from
  bytes, its envelope reads back as the receipt with its task in normal form, and the check
  against a store reports exactly the references the store does not hold.
\<close>

section \<open>Validation\<close>

definition task_wf :: "task_record \<Rightarrow> bool" where
  "task_wf t \<longleftrightarrow> (case task_structured t of None \<Rightarrow> True | Some v \<Rightarrow> json_wf v)"

definition receipt_body_wf :: "receipt_body \<Rightarrow> bool" where
  "receipt_body_wf b \<longleftrightarrow> context_id_wf (rb_context b) \<and> (\<forall>p \<in> set (rb_events b). event_id_wf p) \<and>
     task_wf (rb_task b) \<and> event_id_wf (rb_recipient b) \<and> author_id_wf (rb_author b)"

definition receipt_wf :: "signed_receipt \<Rightarrow> bool" where
  "receipt_wf r \<longleftrightarrow> receipt_id_wf (rc_id r) \<and> receipt_body_wf (rc_body r) \<and>
     receipt_signature_wf (rc_signature r)"

lemma validate_task_iff:
  "validate_task E t = Inr () \<longleftrightarrow>
     task_verbatim t \<noteq> [] \<and> length (task_verbatim t) \<le> MAX_TASK_BYTES \<and>
     task_hash t \<noteq> [] \<and> take 7 (task_hash t) = ''blake3_'' \<and>
     (case task_structured t of
        None \<Rightarrow> True
      | Some v \<Rightarrow> json_depth v \<le> MAX_PAYLOAD_DEPTH \<and> numbers_safe v \<and>
          (\<exists>p. canonicalize E v = Inr p \<and> length p \<le> MAX_CANONICAL_PAYLOAD_BYTES))"
  unfolding validate_task_def canonical_payload_bytes_def
  by (auto simp: bindR_Inr_iff validate_json_value_iff [unfolded One_nat_def] not_less
      split: option.splits)

lemma validate_selector_iff:
  "validate_selector s = Inr () \<longleftrightarrow>
     sel_identity s \<noteq> [] \<and> length (sel_identity s) \<le> MAX_SELECTOR_IDENTITY_BYTES \<and>
     sel_version s \<noteq> [] \<and> length (sel_version s) \<le> MAX_SELECTOR_VERSION_BYTES \<and>
     sel_config_hash s \<noteq> [] \<and> length (sel_config_hash s) \<le> MAX_SELECTOR_CONFIG_HASH_BYTES"
  by (auto simp: validate_selector_def not_less)

lemma validate_receipt_body_iff:
  "validate_receipt_body E b = Inr () \<longleftrightarrow>
     rb_version b = RECEIPT_VERSION \<and> length (rb_events b) \<le> MAX_RECEIPT_EVENTS \<and>
     strictly_sorted (event_id_text E) (rb_events b) \<and>
     validate_task E (rb_task b) = Inr () \<and> validate_selector (rb_selector b) = Inr () \<and>
     length (rb_omissions b) + length (rb_uncertainty b) \<le> MAX_RECEIPT_NOTES \<and>
     list_all note_ok (rb_omissions b @ rb_uncertainty b) \<and>
     valid_utc_timestamp (rb_created_at b) \<and>
     (\<exists>c. canonicalize E (receipt_body_json E b) = Inr c \<and> length c \<le> MAX_RECEIPT_WIRE_BYTES)"
  unfolding validate_receipt_body_def
  by (auto simp: bindR_Inr_iff windows2_any_ge_iff [symmetric] not_less)

lemma receipt_canonical_bytes_Inr_iff:
  "receipt_canonical_bytes E b = Inr c \<longleftrightarrow>
     validate_receipt_body E b = Inr () \<and> canonicalize E (receipt_body_json E b) = Inr c"
  by (auto simp: receipt_canonical_bytes_def bindR_Inr_iff)

lemma derive_receipt_id_Inr_iff:
  "derive_receipt_id E b = Inr rid \<longleftrightarrow>
     (\<exists>c. receipt_canonical_bytes E b = Inr c \<and> rid = ReceiptId (blake3_derive E RECEIPT_ID_DOMAIN c))"
  by (auto simp: derive_receipt_id_def bindR_Inr_iff)

lemma verify_receipt_parts_iff:
  "verify_receipt_parts E b rid sig = Inr () \<longleftrightarrow>
     derive_receipt_id E b = Inr rid \<and>
     verify_domain_message E (rb_author b) RECEIPT_SIGNATURE_DOMAIN
       (receipt_id_bytes rid) (receipt_signature_bytes sig) = Inr ()"
  by (auto simp: verify_receipt_parts_def bindR_Inr_iff derive_receipt_id_Inr_iff
      receipt_canonical_bytes_Inr_iff)

lemma verify_receipt_valid:
  "verify_receipt E r = Inr () \<Longrightarrow> validate_receipt_body E (rc_body r) = Inr ()"
  by (auto simp: verify_receipt_def verify_receipt_parts_iff derive_receipt_id_Inr_iff
      receipt_canonical_bytes_Inr_iff)

section \<open>Issuing\<close>

lemma issue_receipt_Inr:
  assumes "issue_receipt E idn body = Inr r"
  shows "rc_body r = body" "verify_receipt E r = Inr ()" "rb_author body = identity_author E idn"
  using assms
  by (auto simp: issue_receipt_def bindR_Inr_iff receipt_from_verified_parts_def Let_def
      split: if_splits)

lemma issue_receipt_complete:
  assumes "ed25519_lawful E" "validate_receipt_body E body = Inr ()"
    and "rb_author body = identity_author E idn"
  shows "\<exists>r. issue_receipt E idn body = Inr r"
proof -
  obtain c where c: "canonicalize E (receipt_body_json E body) = Inr c"
    using assms(2) by (auto simp: validate_receipt_body_iff)
  define rid where "rid = ReceiptId (blake3_derive E RECEIPT_ID_DOMAIN c)"
  define sig where "sig = sign_domain_message E idn RECEIPT_SIGNATURE_DOMAIN (receipt_id_bytes rid)"
  have rid: "derive_receipt_id E body = Inr rid"
    using assms(2) c by (simp add: derive_receipt_id_Inr_iff receipt_canonical_bytes_Inr_iff rid_def)
  have len: "length sig = 64"
    using assms(1) by (simp add: sig_def sign_domain_message_def ed25519_lawful_def)
  have "verify_receipt E (receipt_from_verified_parts rid body (ReceiptSignature sig)) = Inr ()"
    using rid sign_domain_verifies [OF assms(1), of idn] assms(3)
    by (simp add: verify_receipt_def verify_receipt_parts_iff receipt_from_verified_parts_def sig_def)
  then show ?thesis
    using assms(2,3) rid len by (simp add: issue_receipt_def sig_def [symmetric] Let_def)
qed

section \<open>The envelope\<close>

definition norm_task :: "task_record \<Rightarrow> task_record" where
  "norm_task t = t\<lparr>task_structured := (case task_structured t of
     None \<Rightarrow> None | Some v \<Rightarrow> if v = JNull then None else Some (json_norm v))\<rparr>"

definition norm_receipt_body :: "receipt_body \<Rightarrow> receipt_body" where
  "norm_receipt_body b = b\<lparr>rb_task := norm_task (rb_task b)\<rparr>"

definition norm_receipt :: "signed_receipt \<Rightarrow> signed_receipt" where
  "norm_receipt r = r\<lparr>rc_body := norm_receipt_body (rc_body r)\<rparr>"

lemma norm_receipt_simps [simp]:
  "rc_id (norm_receipt r) = rc_id r" "rc_signature (norm_receipt r) = rc_signature r"
  "rc_body (norm_receipt r) = norm_receipt_body (rc_body r)"
  "rb_version (norm_receipt_body b) = rb_version b" "rb_context (norm_receipt_body b) = rb_context b"
  "rb_events (norm_receipt_body b) = rb_events b"
  "rb_task (norm_receipt_body b) = norm_task (rb_task b)"
  "rb_recipient (norm_receipt_body b) = rb_recipient b"
  "rb_selector (norm_receipt_body b) = rb_selector b"
  "rb_omissions (norm_receipt_body b) = rb_omissions b"
  "rb_uncertainty (norm_receipt_body b) = rb_uncertainty b"
  "rb_created_at (norm_receipt_body b) = rb_created_at b"
  "rb_author (norm_receipt_body b) = rb_author b"
  "task_verbatim (norm_task t) = task_verbatim t" "task_hash (norm_task t) = task_hash t"
  by (simp_all add: norm_receipt_def norm_receipt_body_def norm_task_def)

lemma json_norm_JNull [simp]: "json_norm v = JNull \<longleftrightarrow> v = JNull"
  by (cases v) (simp_all add: json_norm.simps(3))

lemma task_fields_norm:
  "map (\<lambda>e. (fst e, json_norm (snd e))) (task_fields t) = task_fields (norm_task t)"
  by (auto simp: task_fields_def norm_task_def split: option.splits)

lemma receipt_body_json_norm: "json_norm (receipt_body_json E b) = receipt_body_json E (norm_receipt_body b)"
  by (simp add: receipt_body_json_def receipt_body_fields_def task_fields_norm comp_def)
    (simp add: selector_fields_def)

lemma receipt_envelope_norm:
  "json_norm (receipt_envelope_json E r) = receipt_envelope_json E (norm_receipt r)"
  by (simp add: receipt_envelope_json_def receipt_fields_def receipt_body_json_norm)

text \<open>A value the canonical renderer handles, nested at most \<open>d\<close> deep.\<close>

definition json_fits :: "nat \<Rightarrow> json \<Rightarrow> bool" where
  "json_fits d v \<longleftrightarrow> json_wf v \<and> numbers_safe v \<and> json_depth v \<le> d"

lemma json_fits_string: "0 < d \<Longrightarrow> json_fits d (JString s)"
  by (simp add: json_fits_def)

lemma json_fits_null: "0 < d \<Longrightarrow> json_fits d JNull"
  by (simp add: json_fits_def)

lemma json_fits_array:
  "\<forall>x \<in> set xs. json_fits d (f x) \<Longrightarrow> json_fits (Suc d) (JArray (map f xs))"
  using json_depth_array [of "map f xs" d] by (auto simp: json_fits_def)

lemma json_fits_strings: "Suc 0 < d \<Longrightarrow> json_fits d (JArray (map (\<lambda>x. JString (f x)) xs))"
  using json_fits_array [of xs "d - 1" "\<lambda>x. JString (f x)"] by (simp add: json_fits_string)

lemma json_fits_object:
  "\<forall>e \<in> set es. json_fits d (snd e) \<Longrightarrow> json_fits (Suc d) (JObject (obj_of es))"
  unfolding json_fits_def
  using json_wf_obj_of [of es] numbers_safe_obj_of [of es] json_depth_obj_of [of es d] by blast

lemma task_json_fits:
  assumes "validate_task E t = Inr ()" "task_wf t"
  shows "json_fits 65 (JObject (obj_of (task_fields t)))"
proof -
  have "\<forall>e \<in> set (task_fields t). json_fits 64 (snd e)"
    using assms
    by (auto simp: task_fields_def task_wf_def validate_task_iff MAX_PAYLOAD_DEPTH_def
        json_fits_def split: option.splits)
  from json_fits_object [OF this] show ?thesis by simp
qed

lemma receipt_body_json_fits:
  assumes "validate_receipt_body E b = Inr ()" "receipt_body_wf b"
  shows "json_fits 66 (receipt_body_json E b)"
proof -
  have "validate_task E (rb_task b) = Inr ()" "task_wf (rb_task b)" "rb_version b = 1"
    using assms by (auto simp: validate_receipt_body_iff receipt_body_wf_def RECEIPT_VERSION_def)
  moreover have "json_fits 65 (JObject (obj_of (selector_fields (rb_selector b))))"
    using json_fits_object [of "selector_fields (rb_selector b)" 64]
    by (simp add: selector_fields_def json_fits_string)
  moreover have "json_fits 65 (JObject (obj_of [(''head'', JString (event_id_text E (rb_recipient b)))]))"
    using json_fits_object [of "[(''head'', JString (event_id_text E (rb_recipient b)))]" 64]
    by (simp add: json_fits_string)
  moreover have "json_fits 65 (JNumber (PosInt 1))"
    by (simp add: json_fits_def MAX_SAFE_INTEGER_def)
  ultimately have "\<forall>e \<in> set (receipt_body_fields E b). json_fits 65 (snd e)"
    by (simp add: receipt_body_fields_def task_json_fits json_fits_string json_fits_strings)
  from json_fits_object [OF this] show ?thesis by (simp add: receipt_body_json_def)
qed

lemma receipt_envelope_fits:
  assumes "verify_receipt E r = Inr ()" "receipt_wf r"
  shows "json_fits 67 (receipt_envelope_json E r)"
proof -
  have "json_fits 66 (receipt_body_json E (rc_body r))"
    using assms by (auto simp: receipt_wf_def intro: receipt_body_json_fits verify_receipt_valid)
  then have "\<forall>e \<in> set (receipt_fields E r). json_fits 66 (snd e)"
    by (simp add: receipt_fields_def json_fits_string)
  from json_fits_object [OF this] show ?thesis by (simp add: receipt_envelope_json_def)
qed

text \<open>A rendering the canonical renderer produces, with the value it reads back as.\<close>

lemma json_fits_renders:
  assumes "jcs_lawful E" "json_fits d v" "d \<le> 127"
  obtains b where "canonicalize E v = Inr b" "canonicalize E (json_norm v) = Inr b"
    "strict_json (json_reader E) b = Inr (json_norm v)"
proof -
  have "json_wf v" "numbers_safe v" "json_depth v \<le> 127"
    using assms(2,3) by (simp_all add: json_fits_def)
  from strict_json_canonicalize [OF assms(1) this] that show thesis by metis
qed

lemma validate_norm_receipt:
  assumes "jcs_lawful E" "receipt_body_wf b" "validate_receipt_body E b = Inr ()"
  shows "validate_receipt_body E (norm_receipt_body b) = Inr ()"
    and "canonicalize E (receipt_body_json E (norm_receipt_body b)) = canonicalize E (receipt_body_json E b)"
    and "receipt_body_wf (norm_receipt_body b)"
proof -
  obtain c where c: "canonicalize E (receipt_body_json E b) = Inr c"
      "canonicalize E (json_norm (receipt_body_json E b)) = Inr c"
    by (rule json_fits_renders [OF assms(1) receipt_body_json_fits [OF assms(3,2)]]) simp_all
  show same: "canonicalize E (receipt_body_json E (norm_receipt_body b)) =
      canonicalize E (receipt_body_json E b)"
    using c by (simp add: receipt_body_json_norm)
  have task: "validate_task E (rb_task b) = Inr ()" "task_wf (rb_task b)"
    using assms(2,3) by (auto simp: validate_receipt_body_iff receipt_body_wf_def)
  have "canonicalize E (json_norm v) = canonicalize E v"
    if v: "task_structured (rb_task b) = Some v" for v
  proof -
    have "json_fits 64 v"
      using task v by (simp add: validate_task_iff task_wf_def json_fits_def MAX_PAYLOAD_DEPTH_def)
    then show ?thesis using json_fits_renders [OF assms(1), of 64 v] by force
  qed
  then have "validate_task E (norm_task (rb_task b)) = Inr ()"
    using task by (auto simp: validate_task_iff norm_task_def numbers_safe_norm split: option.splits)
  then show "validate_receipt_body E (norm_receipt_body b) = Inr ()"
    using assms(3) same by (auto simp: validate_receipt_body_iff)
  show "receipt_body_wf (norm_receipt_body b)"
    using assms(2)
    by (auto simp: receipt_body_wf_def task_wf_def norm_task_def json_wf_norm split: option.splits)
qed

lemma verify_norm_receipt:
  assumes "jcs_lawful E" "receipt_wf r" "verify_receipt E r = Inr ()"
  shows "verify_receipt E (norm_receipt r) = Inr ()" "receipt_wf (norm_receipt r)"
proof -
  have wf: "receipt_body_wf (rc_body r)" using assms(2) by (simp add: receipt_wf_def)
  note norm = validate_norm_receipt [OF assms(1) wf verify_receipt_valid [OF assms(3)]]
  show "verify_receipt E (norm_receipt r) = Inr ()"
    using assms(3) norm(1,2)
    by (auto simp: verify_receipt_def verify_receipt_parts_iff derive_receipt_id_Inr_iff
        receipt_canonical_bytes_Inr_iff)
  show "receipt_wf (norm_receipt r)" using assms(2) norm(3) by (simp add: receipt_wf_def)
qed

section \<open>Parsing what was rendered\<close>

text \<open>The normal form: no explicit null for an absent structured task.\<close>

definition task_plain :: "task_record \<Rightarrow> bool" where
  "task_plain t \<longleftrightarrow> task_structured t \<noteq> Some JNull"

lemma task_plain_norm: "task_plain (norm_task t)"
  by (auto simp: task_plain_def norm_task_def split: option.splits if_splits)

lemma parse_task_fields:
  assumes "validate_task E t = Inr ()" "task_plain t"
  shows "parse_task E (JObject (obj_of (task_fields t))) = Inr t"
proof -
  have dist: "distinct (map fst (task_fields t))" by (simp add: task_fields_def)
  define m where "m = obj_of (task_fields t)"
  have [simp]: "obj_get m ''verbatim'' = Some (JString (task_verbatim t))"
    "obj_get m ''content_hash'' = Some (JString (task_hash t))"
    "obj_get m ''structured'' = Some (case task_structured t of None \<Rightarrow> JNull | Some v \<Rightarrow> v)"
    unfolding m_def obj_get_obj_of [OF dist] by (simp_all add: task_fields_def)
  have known: "reject_unknown m [''verbatim'', ''content_hash'', ''structured''] = Inr ()"
    unfolding m_def by (rule reject_unknown_obj_of) (simp add: task_fields_def)
  have "(case task_structured t of None \<Rightarrow> None
      | Some v \<Rightarrow> if v = JNull then None else Some v) = task_structured t"
    using assms(2) by (auto simp: task_plain_def split: option.splits)
  moreover have "(if (case task_structured t of None \<Rightarrow> JNull | Some v \<Rightarrow> v) = JNull then None
      else Some (case task_structured t of None \<Rightarrow> JNull | Some v \<Rightarrow> v)) = task_structured t"
    using assms(2) by (auto simp: task_plain_def split: option.splits)
  moreover have "task_new E (task_verbatim t) (task_hash t) (task_structured t) = Inr t"
    using assms(1) by (cases t) (simp add: task_new_def)
  ultimately show ?thesis
    unfolding parse_task_def into_object.simps bindR_simps m_def [symmetric] known
    by (simp add: take_required_present)
qed

lemma parse_selector_fields:
  assumes "validate_selector s = Inr ()"
  shows "parse_selector (JObject (obj_of (selector_fields s))) = Inr s"
proof -
  have dist: "distinct (map fst (selector_fields s))" by (simp add: selector_fields_def)
  define m where "m = obj_of (selector_fields s)"
  have [simp]: "obj_get m ''identity'' = Some (JString (sel_identity s))"
    "obj_get m ''version'' = Some (JString (sel_version s))"
    "obj_get m ''config_hash'' = Some (JString (sel_config_hash s))"
    unfolding m_def obj_get_obj_of [OF dist] by (simp_all add: selector_fields_def)
  have known: "reject_unknown m [''identity'', ''version'', ''config_hash''] = Inr ()"
    unfolding m_def by (rule reject_unknown_obj_of) (simp add: selector_fields_def)
  have "selector_new (sel_identity s) (sel_version s) (sel_config_hash s) = Inr s"
    using assms by (cases s) (simp add: selector_new_def)
  then show ?thesis
    unfolding parse_selector_def into_object.simps bindR_simps m_def [symmetric] known
    by (simp add: take_required_present)
qed

lemma parse_recipient_fields:
  assumes "base64_lawful E" "event_id_wf h"
  shows "parse_recipient E (JObject (obj_of [(''head'', JString (event_id_text E h))])) = Inr h"
  using assms
  by (simp add: parse_recipient_def obj_of_def reject_unknown_def obj_keys_def take_required_def
      obj_get_def parse_text_def event_id.of_to_text)

lemma parse_notes_map: "parse_notes (JArray (map JString texts)) = Inr texts"
  using collectR_map_Inr [of texts into_string JString "\<lambda>x. x"] by simp

lemma parse_receipt_body_json:
  assumes "base64_lawful E" "receipt_body_wf b" "validate_receipt_body E b = Inr ()"
    and "task_plain (rb_task b)"
  shows "parse_receipt_body E (receipt_body_json E b) = Inr b"
proof -
  have dist: "distinct (map fst (receipt_body_fields E b))" by (simp add: receipt_body_fields_def)
  define m where "m = obj_of (receipt_body_fields E b)"
  have get [simp]: "obj_get m ''version'' = Some (JNumber (PosInt (rb_version b)))"
    "obj_get m ''context'' = Some (JString (context_id_text E (rb_context b)))"
    "obj_get m ''events'' = Some (JArray (map (\<lambda>p. JString (event_id_text E p)) (rb_events b)))"
    "obj_get m ''task'' = Some (JObject (obj_of (task_fields (rb_task b))))"
    "obj_get m ''recipient'' = Some (JObject (obj_of [(''head'', JString (event_id_text E (rb_recipient b)))]))"
    "obj_get m ''selector'' = Some (JObject (obj_of (selector_fields (rb_selector b))))"
    "obj_get m ''omissions'' = Some (JArray (map JString (rb_omissions b)))"
    "obj_get m ''uncertainty'' = Some (JArray (map JString (rb_uncertainty b)))"
    "obj_get m ''created_at'' = Some (JString (rb_created_at b))"
    "obj_get m ''author'' = Some (JString (author_id_text E (rb_author b)))"
    unfolding m_def obj_get_obj_of [OF dist] by (simp_all add: receipt_body_fields_def)
  have wf: "context_id_wf (rb_context b)" "author_id_wf (rb_author b)" "event_id_wf (rb_recipient b)"
      "\<forall>p \<in> set (rb_events b). event_id_wf p"
    using assms(2) by (auto simp: receipt_body_wf_def)
  have valid: "rb_version b = RECEIPT_VERSION" "validate_task E (rb_task b) = Inr ()"
      "validate_selector (rb_selector b) = Inr ()"
    using assms(3) by (auto simp: validate_receipt_body_iff)
  have known: "reject_unknown m
      [''version'', ''context'', ''events'', ''task'', ''recipient'', ''selector'', ''omissions'',
       ''uncertainty'', ''created_at'', ''author''] = Inr ()"
    unfolding m_def by (rule reject_unknown_obj_of) (simp add: receipt_body_fields_def)
  have same: "\<lparr>rb_version = RECEIPT_VERSION, rb_context = rb_context b, rb_events = rb_events b,
      rb_task = rb_task b, rb_recipient = rb_recipient b, rb_selector = rb_selector b,
      rb_omissions = rb_omissions b, rb_uncertainty = rb_uncertainty b,
      rb_created_at = rb_created_at b, rb_author = rb_author b\<rparr> = b"
    by (simp add: valid(1) [symmetric])
  show ?thesis
    unfolding parse_receipt_body_def receipt_body_json_def into_object.simps bindR_simps
      m_def [symmetric] known
    by (simp add: take_required_present parse_text_def wf assms(1,3,4) valid same
        context_id.of_to_text author_id.of_to_text parse_id_array_map parse_task_fields
        parse_selector_fields parse_recipient_fields parse_notes_map
        del: parse_id_array.simps parse_notes.simps)
qed

section \<open>The wire\<close>

lemma receipt_of_json_envelope:
  assumes "base64_lawful E" "receipt_wf r" "verify_receipt E r = Inr ()" "task_plain (rb_task (rc_body r))"
  shows "receipt_of_json E (receipt_envelope_json E r) = Inr r"
proof -
  have dist: "distinct (map fst (receipt_fields E r))" by (simp add: receipt_fields_def)
  define m where "m = obj_of (receipt_fields E r)"
  have [simp]: "obj_get m ''receipt_id'' = Some (JString (receipt_id_text E (rc_id r)))"
    "obj_get m ''body'' = Some (receipt_body_json E (rc_body r))"
    "obj_get m ''signature'' = Some (JString (receipt_signature_text E (rc_signature r)))"
    unfolding m_def obj_get_obj_of [OF dist] by (simp_all add: receipt_fields_def)
  have known: "reject_unknown m [''receipt_id'', ''body'', ''signature''] = Inr ()"
    unfolding m_def by (rule reject_unknown_obj_of) (simp add: receipt_fields_def)
  have "parse_receipt_body E (receipt_body_json E (rc_body r)) = Inr (rc_body r)"
    using assms by (intro parse_receipt_body_json) (auto simp: receipt_wf_def verify_receipt_valid)
  then show ?thesis
    using assms
    unfolding receipt_of_json_def receipt_envelope_json_def into_object.simps bindR_simps
      m_def [symmetric] known
    by (simp add: take_required_present parse_text_def receipt_wf_def receipt_id.of_to_text
        receipt_signature.of_to_text verify_receipt_def receipt_from_verified_parts_def)
qed

lemma receipt_wire_round_trip_aux:
  assumes "env_lawful E" "receipt_wf r" "receipt_to_wire E r = Inr w"
  shows "receipt_from_wire E w =
      (if length w > MAX_RECEIPT_WIRE_BYTES then Inl WireTooLarge else Inr (norm_receipt r))"
    and "receipt_to_wire E (norm_receipt r) = Inr w"
proof -
  note law = env_lawfulD [OF assms(1)]
  have ver: "verify_receipt E r = Inr ()" and w: "canonicalize E (receipt_envelope_json E r) = Inr w"
    using assms(3) by (auto simp: receipt_to_wire_def bindR_Inr_iff)
  note norm = verify_norm_receipt [OF law(4) assms(2) ver]
  obtain w' where w': "canonicalize E (receipt_envelope_json E r) = Inr w'"
      "canonicalize E (receipt_envelope_json E (norm_receipt r)) = Inr w'"
      "strict_json (json_reader E) w' = Inr (receipt_envelope_json E (norm_receipt r))"
    using json_fits_renders [OF law(4) receipt_envelope_fits [OF ver assms(2)]]
    by (auto simp: receipt_envelope_norm)
  have "receipt_of_json E (receipt_envelope_json E (norm_receipt r)) = Inr (norm_receipt r)"
    using law(1) norm by (intro receipt_of_json_envelope) (simp_all add: task_plain_norm)
  then show "receipt_from_wire E w =
      (if length w > MAX_RECEIPT_WIRE_BYTES then Inl WireTooLarge else Inr (norm_receipt r))"
    using w w' by (simp add: receipt_from_wire_def)
  show "receipt_to_wire E (norm_receipt r) = Inr w"
    using w w' norm(1) by (simp add: receipt_to_wire_def)
qed

lemma receipt_from_wire_Inr:
  assumes "receipt_from_wire E w = Inr r"
  shows "verify_receipt E r = Inr ()" "length w \<le> MAX_RECEIPT_WIRE_BYTES"
  using assms
  by (auto simp: receipt_from_wire_def receipt_of_json_def verify_receipt_def bindR_Inr_iff
      receipt_from_verified_parts_def split: if_splits)

section \<open>A receipt against the store\<close>

text \<open>What the check says of one reference.\<close>

definition reference_finding :: "db \<Rightarrow> context_id \<Rightarrow> string \<Rightarrow> event_id \<Rightarrow> (string \<times> event_id) list" where
  "reference_finding d c label i =
     (if stored_in d i c then []
      else [(label @ (if has_event d i then ''wrong-context'' else ''missing''), i)])"

definition reference_count :: "db \<Rightarrow> context_id \<Rightarrow> event_id list \<Rightarrow> nat" where
  "reference_count d c ids = length (filter (\<lambda>i. stored_in d i c) ids)"

lemma check_reference_step:
  assumes "store_inv E d"
  shows "check_reference E d c label i (n, found) =
    Inr (n + reference_count d c [i], found @ reference_finding d c label i)"
proof (cases "lookup_event E d i")
  case None
  then have "\<not> has_event d i" using lookup_event_None [OF assms] by simp
  then have "\<not> stored_in d i c" using stored_in_has_event by blast
  with None \<open>\<not> has_event d i\<close> show ?thesis
    by (simp add: check_reference_def check_event_def store_event_lookup [OF assms]
        reference_finding_def reference_count_def)
next
  case (Some ev)
  then have "has_event d i" "stored_in d i c \<longleftrightarrow> body_context (ev_body ev) = c"
    using lookup_event_None [OF assms, of i] stored_in_iff [OF assms]
    by (auto simp: event_context_def)
  with Some show ?thesis
    by (simp add: check_reference_def check_event_def store_event_lookup [OF assms]
        reference_finding_def reference_count_def)
qed

lemma check_reference_fold:
  assumes "store_inv E d"
  shows "foldR (check_reference E d c label) ids (n, found) =
    Inr (n + reference_count d c ids, found @ concat (map (reference_finding d c label) ids))"
proof (induction ids arbitrary: n found)
  case (Cons i ids)
  show ?case
    by (simp add: check_reference_step [OF assms] Cons.IH) (simp add: reference_count_def)
qed (simp add: reference_count_def)

lemma reference_finding_Nil [simp]: "reference_finding d c label i = [] \<longleftrightarrow> stored_in d i c"
  by (simp add: reference_finding_def)

definition receipt_references :: "signed_receipt \<Rightarrow> event_id list" where
  "receipt_references r = rb_events (rc_body r) @ [rb_recipient (rc_body r)]"

lemma verify_against_dag_result:
  assumes "store_inv E d"
  shows "verify_against_dag E d r = Inr
    \<lparr>rd_valid = (\<forall>i \<in> set (receipt_references r). stored_in d i (rb_context (rc_body r))),
     rd_checked = reference_count d (rb_context (rc_body r)) (receipt_references r),
     rd_findings =
       concat (map (reference_finding d (rb_context (rc_body r)) []) (rb_events (rc_body r))) @
       reference_finding d (rb_context (rc_body r)) ''recipient-'' (rb_recipient (rc_body r))\<rparr>"
  by (simp add: verify_against_dag_def check_reference_fold [OF assms] check_reference_step [OF assms]
      Let_def receipt_references_def)
    (auto simp: reference_count_def)

lemma verify_against_dag_accepts:
  assumes "store_inv E d"
  shows "(\<exists>rep. verify_against_dag E d r = Inr rep \<and> rd_valid rep) \<longleftrightarrow>
      (\<forall>i \<in> set (receipt_references r). stored_in d i (rb_context (rc_body r)))" (is "_ \<longleftrightarrow> ?stored")
    and "verify_against_dag E d r = Inr rep \<Longrightarrow> rd_valid rep \<Longrightarrow>
      rep = \<lparr>rd_valid = True, rd_checked = length (receipt_references r), rd_findings = []\<rparr>"
proof -
  show "(\<exists>rep. verify_against_dag E d r = Inr rep \<and> rd_valid rep) \<longleftrightarrow> ?stored"
    unfolding verify_against_dag_result [OF assms] by auto
  have "reference_count d (rb_context (rc_body r)) (receipt_references r) = length (receipt_references r)"
    if ?stored
    using that unfolding reference_count_def by (simp add: filter_True)
  then show "verify_against_dag E d r = Inr rep \<Longrightarrow> rd_valid rep \<Longrightarrow>
      rep = \<lparr>rd_valid = True, rd_checked = length (receipt_references r), rd_findings = []\<rparr>"
    unfolding verify_against_dag_result [OF assms] by (auto simp: receipt_references_def)
qed

text \<open>References hold for good: a grown store accepts what the store accepted.\<close>

lemma verify_against_dag_grows:
  assumes "store_inv E d" "store_inv E d'" "db_grows d d'"
    and "verify_against_dag E d r = Inr rep" "rd_valid rep"
  shows "verify_against_dag E d' r = Inr rep"
proof -
  have "\<forall>i \<in> set (receipt_references r). stored_in d' i (rb_context (rc_body r))"
    using verify_against_dag_accepts(1) [OF assms(1), of r] assms(4,5) db_grows_stored_in [OF assms(3)]
    by blast
  then obtain rep' where "verify_against_dag E d' r = Inr rep'" "rd_valid rep'"
    using verify_against_dag_accepts(1) [OF assms(2), of r] by blast
  then show ?thesis
    using verify_against_dag_accepts(2) [OF assms(1,4,5)] verify_against_dag_accepts(2) [OF assms(2)]
    by metis
qed

end
