(* ===== verification/Calendar.thy ===== *)
theory Calendar
  imports Receipt
begin

text \<open>
  The timestamps of receipts: \<open>civil_from_days\<close> of \<open>src/src/receipt.rs\<close> computes the date of a
  day number by closed formulas; here it is compared with the Gregorian calendar stated day by
  day, and the text it renders to with the validation of timestamps.
\<close>

section \<open>The calendar, day by day\<close>

type_synonym date = "int \<times> int \<times> int"

definition leap_year :: "int \<Rightarrow> bool" where
  "leap_year y \<longleftrightarrow> y mod 4 = 0 \<and> (y mod 100 \<noteq> 0 \<or> y mod 400 = 0)"

definition month_days :: "int \<Rightarrow> int \<Rightarrow> int" where
  "month_days y m =
     (if m = 2 then if leap_year y then 29 else 28 else if m \<in> {4, 6, 9, 11} then 30 else 31)"

definition next_date :: "date \<Rightarrow> date" where
  "next_date = (\<lambda>(y, m, d).
     if d < month_days y m then (y, m, d + 1) else if m < 12 then (y, m + 1, 1) else (y + 1, 1, 1))"

definition date_after :: "nat \<Rightarrow> date" where
  "date_after n = (next_date ^^ n) (1970, 1, 1)"

section \<open>The position of a day in the 400-year cycle\<close>

text \<open>
  Years counted from March: century \<open>c\<close>, four-year group \<open>q\<close>, year \<open>r\<close> in it and day \<open>n\<close> of the
  year; the leap day is the last of its year.
\<close>

definition cycle_pos :: "int \<Rightarrow> int \<Rightarrow> int \<Rightarrow> int \<Rightarrow> bool" where
  "cycle_pos c q r n \<longleftrightarrow> 0 \<le> c \<and> c \<le> 3 \<and> 0 \<le> q \<and> q \<le> 24 \<and> 0 \<le> r \<and> r \<le> 3 \<and> 0 \<le> n \<and>
     (n \<le> 364 \<or> n = 365 \<and> r = 3 \<and> (q < 24 \<or> c = 3))"

definition cycle_day :: "int \<Rightarrow> int \<Rightarrow> int \<Rightarrow> int \<Rightarrow> int" where
  "cycle_day c q r n = 36524 * c + 1461 * q + 365 * r + n"

definition march_date :: "int \<Rightarrow> int \<Rightarrow> date" where
  "march_date y n =
     (let mp = (5 * n + 2) div 153;
          month = (if mp < 10 then mp + 3 else mp - 9)
      in (if month \<le> 2 then y + 1 else y, month, n - (153 * mp + 2) div 5 + 1))"

lemma div_is: "b * q \<le> a \<Longrightarrow> a < b * q + b \<Longrightarrow> (a::int) div b = q"
  using int_div_pos_eq [of a b q "a - b * q"] by simp

lemma cycle_year:
  assumes "cycle_pos c q r n"
  defines "doe \<equiv> cycle_day c q r n"
  shows "0 \<le> doe" "doe < 146097"
    "(doe - doe div 1460 + doe div 36524 - doe div 146096) div 365 = 100 * c + 4 * q + r"
proof -
  have pos: "0 \<le> c" "c \<le> 3" "0 \<le> q" "q \<le> 24" "0 \<le> r" "r \<le> 3" "0 \<le> n" "n \<le> 365"
    and leap: "n = 365 \<Longrightarrow> r = 3 \<and> (q < 24 \<or> c = 3)"
    using assms(1) by (auto simp: cycle_pos_def)
  show bounds: "0 \<le> doe" "doe < 146097"
    using pos leap by (auto simp: doe_def cycle_day_def)
  show "(doe - doe div 1460 + doe div 36524 - doe div 146096) div 365 = 100 * c + 4 * q + r"
  proof (cases "doe = 146096")
    case True
    have "c = 3 \<and> q = 24 \<and> r = 3 \<and> n = 365"
      using True pos leap unfolding doe_def cycle_day_def by auto
    with True show ?thesis by simp
  next
    case False
    have "doe < 146096" using False bounds by simp
    then have last: "doe div 146096 = 0" using bounds by simp
    have "1461 * q + 365 * r + n < 36524"
    proof (cases "n = 365")
      case True
      then have "q \<noteq> 24" using leap \<open>doe < 146096\<close> unfolding doe_def cycle_day_def by auto
      with True pos show ?thesis by simp
    qed (use pos in simp)
    then have century: "doe div 36524 = c"
      using pos by (intro div_is) (simp_all add: doe_def cycle_day_def)
    define over where "over = (if 1460 \<le> 24 * c + q + 365 * r + n then 1 else 0 :: int)"
    have group: "doe div 1460 = 25 * c + q + over"
      using pos by (intro div_is) (auto simp: doe_def cycle_day_def over_def)
    have "over \<le> n" using pos by (auto simp: over_def)
    moreover have "n - over \<le> 364"
    proof (cases "n = 365")
      case True
      then have "over = 1" using leap pos by (auto simp: over_def)
      with True show ?thesis by simp
    qed (use pos in \<open>auto simp: over_def\<close>)
    ultimately show ?thesis
      unfolding last century group using pos
      by (intro div_is) (simp_all add: doe_def cycle_day_def)
  qed
qed

lemma civil_cycle:
  assumes "cycle_pos c q r n"
  shows "civil_from_days (146097 * e + cycle_day c q r n - 719468) =
    march_date (400 * e + 100 * c + 4 * q + r) n"
proof -
  note year = cycle_year [OF assms]
  define doe where "doe = cycle_day c q r n"
  have era: "(146097 * e + doe) div 146097 = e" "(146097 * e + doe) mod 146097 = doe"
    using year(1,2) unfolding doe_def [symmetric] by simp_all
  have pos: "0 \<le> c" "c \<le> 3" "0 \<le> q" "q \<le> 24" "0 \<le> r" "r \<le> 3"
    using assms by (auto simp: cycle_pos_def)
  have "(100 * c + 4 * q + r) div 4 = 25 * c + q" "(100 * c + 4 * q + r) div 100 = c"
    using pos by (auto intro!: div_is)
  then have "doe - (365 * (100 * c + 4 * q + r) + (100 * c + 4 * q + r) div 4 -
      (100 * c + 4 * q + r) div 100) = n"
    by (simp add: doe_def cycle_day_def)
  moreover have "(doe - doe div 1460 + doe div 36524 - doe div 146096) div 365 = 100 * c + 4 * q + r"
    using year(3) by (simp only: doe_def)
  moreover have "146097 * e + doe - 719468 + 719468 = 146097 * e + doe" by simp
  moreover have "100 * c + 4 * q + r + e * 400 = 400 * e + 100 * c + 4 * q + r" by simp
  ultimately show ?thesis
    unfolding doe_def [symmetric] civil_from_days_def march_date_def Let_def
    by (simp only: era)
qed

section \<open>Stepping to the next day\<close>

lemma month_of_day:
  fixes n :: int
  assumes "0 \<le> n" "n \<le> 365"
  obtains mp where "0 \<le> mp" "mp \<le> 11" "(5 * n + 2) div 153 = mp"
    "153 * mp \<le> 5 * n + 2" "5 * n + 2 < 153 * mp + 153"
proof -
  have "153 * ((5 * n + 2) div 153) \<le> 5 * n + 2" "5 * n + 2 < 153 * ((5 * n + 2) div 153) + 153"
    using mult_div_mod_eq [of 153 "5 * n + 2"] pos_mod_bound [of 153 "5 * n + 2"]
      pos_mod_sign [of 153 "5 * n + 2"] by linarith+
  moreover from this have "0 \<le> (5 * n + 2) div 153" "(5 * n + 2) div 153 \<le> 11"
    using assms by linarith+
  ultimately show thesis by (intro that) simp_all
qed

lemma march_month:
  assumes "0 \<le> n" "n \<le> 365"
  obtains mp where "mp \<in> {0, 1, 2, 3, 4, 5, 6, 7, 8, 9, 10, 11}"
    "153 * mp \<le> 5 * n + 2" "5 * n + 2 < 153 * mp + 153"
    "march_date y n = (if mp < 10 then y else y + 1, if mp < 10 then mp + 3 else mp - 9,
       n - (153 * mp + 2) div 5 + 1)"
proof -
  obtain mp where mp: "0 \<le> mp" "mp \<le> 11" "(5 * n + 2) div 153 = mp"
      "153 * mp \<le> 5 * n + 2" "5 * n + 2 < 153 * mp + 153"
    by (rule month_of_day [OF assms])
  have "mp = 0 \<or> mp = 1 \<or> mp = 2 \<or> mp = 3 \<or> mp = 4 \<or> mp = 5 \<or> mp = 6 \<or> mp = 7 \<or> mp = 8 \<or>
      mp = 9 \<or> mp = 10 \<or> mp = 11" using mp(1,2) by presburger
  then have "mp \<in> {0, 1, 2, 3, 4, 5, 6, 7, 8, 9, 10, 11}" by (simp only: insert_iff) simp
  with mp show thesis by (intro that) (auto simp: march_date_def Let_def)
qed

text \<open>Inside a March year, and from its last day to the next one.\<close>

lemma march_step:
  assumes "0 \<le> n" "n \<le> 364" "n = 364 \<Longrightarrow> leap_year (y + 1)"
  shows "march_date y (n + 1) = next_date (march_date y n)"
proof -
  obtain mp where mp: "mp \<in> {0, 1, 2, 3, 4, 5, 6, 7, 8, 9, 10, 11}"
    "153 * mp \<le> 5 * n + 2" "5 * n + 2 < 153 * mp + 153"
    "march_date y n = (if mp < 10 then y else y + 1, if mp < 10 then mp + 3 else mp - 9,
       n - (153 * mp + 2) div 5 + 1)"
    using march_month [of n y] assms(1,2) by auto
  obtain mq where mq: "mq \<in> {0, 1, 2, 3, 4, 5, 6, 7, 8, 9, 10, 11}"
    "153 * mq \<le> 5 * (n + 1) + 2" "5 * (n + 1) + 2 < 153 * mq + 153"
    "march_date y (n + 1) = (if mq < 10 then y else y + 1, if mq < 10 then mq + 3 else mq - 9,
       n + 1 - (153 * mq + 2) div 5 + 1)"
    using march_month [of "n + 1" y] assms(1,2) by auto
  have "mp \<le> mq" "mq \<le> mp + 1" using mp(2,3) mq(2,3) by simp_all
  then consider "mq = mp" | "mq = mp + 1" by linarith
  then show ?thesis
  proof cases
    case 1
    have "n - (153 * mp + 2) div 5 + 1 < month_days (if mp < 10 then y else y + 1)
        (if mp < 10 then mp + 3 else mp - 9)"
      using mp(1) mq(3) assms(2,3) unfolding 1
      by (elim insertE emptyE; cases "n = 364"; simp add: month_days_def)
    then show ?thesis unfolding mp(4) mq(4) 1 by (simp add: next_date_def)
  next
    case 2
    have "mp \<noteq> 11" using mq(1) 2 by auto
    then have "n - (153 * mp + 2) div 5 + 1 = month_days (if mp < 10 then y else y + 1)
        (if mp < 10 then mp + 3 else mp - 9)"
      using mp(1,3) mq(2) unfolding 2 by (elim insertE emptyE) (auto simp: month_days_def)
    moreover from this have "n = (153 * mp + 2) div 5 - 1 + month_days (if mp < 10 then y else y + 1)
        (if mp < 10 then mp + 3 else mp - 9)" by simp
    ultimately show ?thesis
      using mp(1) \<open>mp \<noteq> 11\<close> unfolding mp(4) mq(4) 2
      by (elim insertE emptyE) (simp_all add: next_date_def month_days_def)
  qed
qed

lemma march_last:
  assumes "n = (if leap_year (y + 1) then 365 else 364)"
  shows "march_date (y + 1) 0 = next_date (march_date y n)"
  using assms by (auto simp: march_date_def next_date_def month_days_def Let_def)

lemma mod_0_iff_top:
  fixes x m :: int
  assumes "0 < x" "x \<le> m"
  shows "x mod m = 0 \<longleftrightarrow> x = m"
  using assms by (cases "x = m") (auto simp: mod_pos_pos_trivial)

lemma leap_year_cycle:
  assumes "0 \<le> c" "c \<le> 3" "0 \<le> q" "q \<le> 24" "0 \<le> r" "r \<le> 3"
  shows "leap_year (400 * e + 100 * c + 4 * q + r + 1) \<longleftrightarrow> r = 3 \<and> (q < 24 \<or> c = 3)"
proof -
  define y where "y = 400 * e + 100 * c + 4 * q + r + 1"
  have "y = (r + 1) + 4 * (100 * e + 25 * c + q)" "y = (4 * q + r + 1) + 100 * (4 * e + c)"
    "y = (100 * c + 4 * q + r + 1) + 400 * e" by (simp_all add: y_def)
  from arg_cong [OF this(1), of "\<lambda>x. x mod 4"] arg_cong [OF this(2), of "\<lambda>x. x mod 100"]
    arg_cong [OF this(3), of "\<lambda>x. x mod 400"]
  have "y mod 4 = (r + 1) mod 4" "y mod 100 = (4 * q + r + 1) mod 100"
    "y mod 400 = (100 * c + 4 * q + r + 1) mod 400" by (simp_all only: mod_mult_self2)
  moreover have "(r + 1) mod 4 = 0 \<longleftrightarrow> r + 1 = 4"
    using assms(5,6) by (intro mod_0_iff_top) simp_all
  moreover have "(4 * q + r + 1) mod 100 = 0 \<longleftrightarrow> 4 * q + r + 1 = 100"
    using assms(3-6) by (intro mod_0_iff_top) simp_all
  moreover have "(100 * c + 4 * q + r + 1) mod 400 = 0 \<longleftrightarrow> 100 * c + 4 * q + r + 1 = 400"
    using assms by (intro mod_0_iff_top) simp_all
  ultimately have "leap_year y \<longleftrightarrow> r + 1 = 4 \<and>
      (4 * q + r + 1 \<noteq> 100 \<or> 100 * c + 4 * q + r + 1 = 400)"
    by (simp add: leap_year_def)
  also have "\<dots> \<longleftrightarrow> r = 3 \<and> (q < 24 \<or> c = 3)" using assms by auto
  finally show ?thesis by (simp only: y_def)
qed

lemma cycle_decompose:
  assumes "0 \<le> k" "k < 146097"
  obtains c q r n where "cycle_pos c q r n" "k = cycle_day c q r n"
proof -
  define c where "c = min 3 (k div 36524)"
  define j where "j = k - 36524 * c"
  define q where "q = j div 1461"
  define i where "i = j - 1461 * q"
  define r where "r = min 3 (i div 365)"
  define n where "n = i - 365 * r"
  have k: "k = cycle_day c q r n" by (simp add: cycle_day_def n_def i_def j_def)
  have c: "0 \<le> c" "c \<le> 3" "0 \<le> j" "j < 36524 \<or> j = 36524 \<and> c = 3"
    using assms by (auto simp: c_def j_def min_def minus_div_mult_eq_mod [symmetric] mult.commute)
  then have q: "0 \<le> q" "q \<le> 24" "0 \<le> i" "i < 1461" "q = 24 \<Longrightarrow> i < 1460 \<or> i = 1460 \<and> c = 3"
    by (auto simp: q_def i_def)
  then have r: "0 \<le> r" "r \<le> 3" "0 \<le> n" "n < 365 \<or> n = 365 \<and> r = 3"
    by (auto simp: r_def n_def min_def)
  have "n = 365 \<Longrightarrow> i = 1460" using r(4) by (auto simp: n_def)
  moreover have "q < 24 \<or> q = 24" using q(2) by linarith
  ultimately have "cycle_pos c q r n" using c q r by (auto simp: cycle_pos_def)
  then show thesis using k by (rule that)
qed

lemma cycle_next:
  fixes c q r n e :: int
  assumes "cycle_pos c q r n"
  defines "y \<equiv> 400 * e + 100 * c + 4 * q + r"
  shows "civil_from_days (146097 * e + cycle_day c q r n - 719468 + 1) = next_date (march_date y n)"
proof -
  have pos: "0 \<le> c" "c \<le> 3" "0 \<le> q" "q \<le> 24" "0 \<le> r" "r \<le> 3" "0 \<le> n"
    and leap: "n \<le> 364 \<or> n = 365 \<and> r = 3 \<and> (q < 24 \<or> c = 3)"
    using assms(1) by (auto simp: cycle_pos_def)
  have leap_iff: "leap_year (y + 1) \<longleftrightarrow> r = 3 \<and> (q < 24 \<or> c = 3)"
    unfolding y_def using pos by (intro leap_year_cycle)
  show ?thesis
  proof (cases "n = (if leap_year (y + 1) then 365 else 364)")
    case False
    then have "cycle_pos c q r (n + 1)" "n \<le> 364" "n = 364 \<Longrightarrow> leap_year (y + 1)"
      using pos leap leap_iff by (auto simp: cycle_pos_def split: if_splits)
    moreover have "146097 * e + cycle_day c q r n - 719468 + 1 =
        146097 * e + cycle_day c q r (n + 1) - 719468" by (simp add: cycle_day_def)
    ultimately show ?thesis
      using civil_cycle [of c q r "n + 1" e] march_step [of n y] pos(7) by (simp only: y_def)
  next
    case True
    have full: "1461 * q + 365 * r + n + 1 = (if r < 3 then 1461 * q + 365 * (r + 1)
        else if q < 24 then 1461 * (q + 1) else if c < 3 then 36524 else 36525)"
      using True leap leap_iff pos by (auto split: if_splits)
    consider "r < 3" | "r = 3" "q < 24" | "r = 3" "q = 24" "c < 3" | "r = 3" "q = 24" "c = 3"
      using pos by linarith
    then obtain e' c' q' r' where next_pos: "cycle_pos c' q' r' 0"
      and day: "146097 * e + cycle_day c q r n - 719468 + 1 = 146097 * e' + cycle_day c' q' r' 0 - 719468"
      and year: "y + 1 = 400 * e' + 100 * c' + 4 * q' + r'"
    proof cases
      case 1
      with pos full show ?thesis
        by (intro that [of c q "r + 1" e]) (simp_all add: cycle_pos_def cycle_day_def y_def)
    next
      case 2
      with pos full show ?thesis
        by (intro that [of c "q + 1" 0 e]) (simp_all add: cycle_pos_def cycle_day_def y_def)
    next
      case 3
      with pos full show ?thesis
        by (intro that [of "c + 1" 0 0 e]) (simp_all add: cycle_pos_def cycle_day_def y_def)
    next
      case 4
      with pos full show ?thesis
        by (intro that [of 0 0 0 "e + 1"]) (simp_all add: cycle_pos_def cycle_day_def y_def)
    qed
    then show ?thesis
      unfolding day using civil_cycle [OF next_pos, of e'] march_last [OF True] by simp
  qed
qed

lemma civil_position:
  obtains c q r n e where "cycle_pos c q r n" "d = 146097 * e + cycle_day c q r n - 719468"
proof -
  obtain c q r n where pos: "cycle_pos c q r n" "(d + 719468) mod 146097 = cycle_day c q r n"
    by (rule cycle_decompose [of "(d + 719468) mod 146097"]) simp_all
  moreover have "d + 719468 = 146097 * ((d + 719468) div 146097) + (d + 719468) mod 146097" by simp
  ultimately show thesis by (intro that [of c q r n "(d + 719468) div 146097"]) simp_all
qed

lemma civil_from_days_next: "civil_from_days (d + 1) = next_date (civil_from_days d)"
proof -
  obtain c q r n e where pos: "cycle_pos c q r n" "d = 146097 * e + cycle_day c q r n - 719468"
    by (rule civil_position)
  show ?thesis unfolding pos(2) cycle_next [OF pos(1)] civil_cycle [OF pos(1)] by (rule refl)
qed

lemma civil_from_days_exact: "civil_from_days (int n) = date_after n"
proof (induction n)
  case 0
  have "civil_from_days 0 = march_date 1969 306"
    using civil_cycle [of 3 17 1 306 4] by (simp add: cycle_pos_def cycle_day_def)
  then show ?case by (simp add: march_date_def date_after_def)
next
  case (Suc n)
  have "civil_from_days (int (Suc n)) = civil_from_days (int n + 1)" by (simp only: of_nat_Suc add.commute)
  also have "\<dots> = next_date (date_after n)" unfolding civil_from_days_next Suc.IH by (rule refl)
  finally show ?case by (simp add: date_after_def)
qed

section \<open>Bounds of the dates\<close>

definition date_ok :: "date \<Rightarrow> bool" where
  "date_ok = (\<lambda>(y, m, d). 1970 \<le> y \<and> 1 \<le> m \<and> m \<le> 12 \<and> 1 \<le> d \<and> d \<le> month_days y m)"

lemma month_days_bounds: "28 \<le> month_days y m" "month_days y m \<le> 31"
  by (simp_all add: month_days_def)

lemma date_after_ok: "date_ok (date_after n)"
proof (induction n)
  case (Suc n)
  obtain y m d where ymd: "date_after n = (y, m, d)" by (cases "date_after n")
  have "date_after (Suc n) = next_date (y, m, d)" using ymd by (simp add: date_after_def)
  then show ?case using Suc ymd month_days_bounds(1) [of y "m + 1"] by (auto simp: date_ok_def next_date_def month_days_def)
qed (simp add: date_after_def date_ok_def month_days_def)

lemma date_after_mono: "fst (date_after n) \<le> fst (date_after (n + k))"
proof (induction k)
  case (Suc k)
  have "fst d \<le> fst (next_date d)" for d by (cases d) (simp add: next_date_def)
  then have "fst (date_after (n + k)) \<le> fst (date_after (Suc (n + k)))" by (simp add: date_after_def)
  with Suc show ?case by simp
qed simp

text \<open>The last day of the year 9999.\<close>

lemma date_after_last: "date_after 2932896 = (9999, 12, 31)"
proof -
  have "civil_from_days 2932896 = march_date 9999 305"
    using civil_cycle [of 3 24 3 305 24] by (simp add: cycle_pos_def cycle_day_def)
  then show ?thesis
    using civil_from_days_exact [of 2932896] by (simp add: march_date_def)
qed

lemma date_after_bounds:
  assumes "n \<le> 2932896" "date_after n = (y, m, d)"
  shows "1970 \<le> y" "y \<le> 9999" "1 \<le> m" "m \<le> 12" "1 \<le> d" "d \<le> 31"
proof -
  have "n + (2932896 - n) = 2932896" using assms(1) by simp
  then show "y \<le> 9999"
    using date_after_mono [of n "2932896 - n"] assms(2) by (simp only: date_after_last fst_conv)
  show "1970 \<le> y" "1 \<le> m" "m \<le> 12" "1 \<le> d" "d \<le> 31"
    using date_after_ok [of n] assms(2) month_days_bounds(2) [of y m] by (simp_all add: date_ok_def)
qed

section \<open>The text of a timestamp\<close>

declare decimal.simps [simp del]

lemma digit_char:
  assumes "n < 10"
  shows "is_ascii_digit (char_of (48 + n :: nat))" "of_char (char_of (48 + n :: nat)) = 48 + n"
proof -
  show "of_char (char_of (48 + n :: nat)) = 48 + n" using assms by simp
  then show "is_ascii_digit (char_of (48 + n :: nat))"
    using assms by (simp add: is_ascii_digit_def less_eq_char_def)
qed

lemma decimal_digits: "list_all is_ascii_digit (decimal n)"
proof (induction n rule: decimal.induct)
  case (1 n)
  then show ?case by (subst decimal.simps) (simp add: digit_char(1))
qed

abbreviation digits_fold :: "nat \<Rightarrow> string \<Rightarrow> nat" where
  "digits_fold \<equiv> foldl (\<lambda>value ch. value * 10 + (of_char ch - 48))"

lemma decimal_value: "digits_fold 0 (decimal n) = n"
proof (induction n rule: decimal.induct)
  case (1 n)
  show ?case
  proof (cases "n < 10")
    case True
    then show ?thesis by (subst decimal.simps) (simp add: digit_char(2))
  next
    case False
    then show ?thesis
      using 1 digit_char(2) [of "n mod 10"] by (subst decimal.simps) simp
  qed
qed

lemma decimal_length: "0 < w \<Longrightarrow> n < 10 ^ w \<Longrightarrow> length (decimal n) \<le> w"
proof (induction n arbitrary: w rule: decimal.induct)
  case (1 n)
  show ?case
  proof (cases "n < 10")
    case True
    then show ?thesis using 1(2) by (subst decimal.simps) simp
  next
    case False
    then obtain v where w: "w = Suc v" "0 < v"
      using 1(2,3) by (cases w; cases "w = 1") auto
    then have "n div 10 < 10 ^ v" using 1(3) by (simp add: div_less_iff_less_mult mult.commute)
    with 1(1) [OF False w(2)] w False show ?thesis by (subst decimal.simps) simp
  qed
qed

lemma padded_facts:
  assumes "0 < w" "n < 10 ^ w"
  shows "length (padded w n) = w" "digits_value (padded w n) = Some n"
proof -
  show "length (padded w n) = w" using decimal_length [OF assms] by (simp add: padded_def)
  have "digits_fold 0 (replicate k CHR ''0'') = 0" for k by (induction k) simp_all
  moreover have "list_all is_ascii_digit (replicate k CHR ''0'')" for k
    by (simp add: list_all_iff is_ascii_digit_def less_eq_char_def)
  ultimately show "digits_value (padded w n) = Some n"
    using decimal_digits [of n] decimal_value [of n] by (simp add: digits_value_def padded_def)
qed

lemma two_digits:
  assumes "n < 100"
  obtains a b where "padded 2 n = [a, b]" "digits_value [a, b] = Some n"
proof -
  have "length (padded 2 n) = 2" "digits_value (padded 2 n) = Some n"
    using padded_facts [of 2 n] assms by simp_all
  then show thesis using that by (auto simp: length_Suc_conv numeral_2_eq_2)
qed

lemma four_digits:
  assumes "n < 10000"
  obtains a b c d where "padded 4 n = [a, b, c, d]" "digits_value [a, b, c, d] = Some n"
proof -
  have "length (padded 4 n) = 4" "digits_value (padded 4 n) = Some n"
    using padded_facts [of 4 n] assms by simp_all
  then show thesis using that by (auto simp: length_Suc_conv eval_nat_numeral)
qed

text \<open>The six fields of a timestamp, read by position.\<close>

definition timestamp_fields :: "string \<Rightarrow> nat option list" where
  "timestamp_fields t = map digits_value
     [take 4 t, take 2 (drop 5 t), take 2 (drop 8 t), take 2 (drop 11 t), take 2 (drop 14 t),
      take 2 (drop 17 t)]"

lemma utc_timestamp_fields:
  assumes "now < 253402300800" "date_after (now div 86400) = (y, m, d)"
  shows "timestamp_fields (utc_timestamp now) = map Some
      [nat y, nat m, nat d, now div 3600 mod 24, now div 60 mod 60, now mod 60]"
    and "valid_utc_timestamp (utc_timestamp now)"
proof -
  have "now div 86400 \<le> 2932896" using assms(1) by simp
  note bounds = date_after_bounds [OF this assms(2)]
  define hour where "hour = now mod 86400 div 3600"
  define minute where "minute = now mod 86400 mod 3600 div 60"
  define second where "second = now mod 86400 mod 60"
  have "now mod 86400 = 3600 * (now div 3600 mod 24) + now mod 3600"
    using mod_mult2_eq [of now 3600 24] by simp
  then have hour: "hour = now div 3600 mod 24" by (simp add: hour_def)
  have "now mod 3600 = 60 * (now div 60 mod 60) + now mod 60"
    using mod_mult2_eq [of now 60 60] by simp
  then have "now mod 3600 div 60 = now div 60 mod 60" by simp
  moreover have "now mod 86400 mod 3600 = now mod 3600" by (simp add: mod_mod_cancel)
  ultimately have minute: "minute = now div 60 mod 60" by (metis minute_def)
  have second: "second = now mod 60" by (simp add: second_def mod_mod_cancel)
  note time = hour minute second
  have small: "hour < 24" "minute < 60" "second < 60" by (simp_all add: time)
  have fits: "nat y < 10000" "nat m < 100" "nat d < 100" "hour < 100" "minute < 100" "second < 100"
    using bounds small by simp_all
  obtain y1 y2 y3 y4 where year: "padded 4 (nat y) = [y1, y2, y3, y4]"
      "digits_value [y1, y2, y3, y4] = Some (nat y)"
    by (rule four_digits [OF fits(1)])
  obtain m1 m2 where month: "padded 2 (nat m) = [m1, m2]" "digits_value [m1, m2] = Some (nat m)"
    by (rule two_digits [OF fits(2)])
  obtain d1 d2 where day: "padded 2 (nat d) = [d1, d2]" "digits_value [d1, d2] = Some (nat d)"
    by (rule two_digits [OF fits(3)])
  obtain h1 h2 where h: "padded 2 hour = [h1, h2]" "digits_value [h1, h2] = Some hour"
    by (rule two_digits [OF fits(4)])
  obtain i1 i2 where i: "padded 2 minute = [i1, i2]" "digits_value [i1, i2] = Some minute"
    by (rule two_digits [OF fits(5)])
  obtain s1 s2 where s: "padded 2 second = [s1, s2]" "digits_value [s1, s2] = Some second"
    by (rule two_digits [OF fits(6)])
  have civil: "civil_from_days (int now div 86400) = (y, m, d)"
    using civil_from_days_exact [of "now div 86400"] assms(2) by (simp add: zdiv_int)
  have stamp: "utc_timestamp now = [y1, y2, y3, y4, CHR ''-'', m1, m2, CHR ''-'', d1, d2, CHR ''T'',
      h1, h2, CHR '':'', i1, i2, CHR '':'', s1, s2, CHR ''Z'']"
    using year(1) month(1) day(1) h(1) i(1) s(1)
    by (simp add: utc_timestamp_def Let_def zdiv_int civil hour_def minute_def second_def)
  show "timestamp_fields (utc_timestamp now) = map Some
      [nat y, nat m, nat d, now div 3600 mod 24, now div 60 mod 60, now mod 60]"
    unfolding stamp by (simp add: timestamp_fields_def year(2) month(2) day(2) h(2) i(2) s(2) time)
  have "\<not> (nat y < 1970 \<or> nat m < 1 \<or> nat m > 12 \<or> nat d < 1 \<or> nat d > 31)"
    using bounds by auto
  then show "valid_utc_timestamp (utc_timestamp now)"
    unfolding stamp using small
    by (simp add: valid_utc_timestamp_def year(2) month(2) day(2) h(2) i(2) s(2))
qed

text \<open>The converse fails: the day is compared with 31 whatever the month.\<close>

lemma impossible_date_accepted: "valid_utc_timestamp ''2024-02-31T00:00:00Z''"
  by code_simp

end
