(* ===== verification/Sample_Context.thy ===== *)
theory Sample_Context
  imports Sample_Runs Verify_Store Capability_Facts Repair_Facts Summary_Facts Selection_Facts Receipt_Facts Calendar
begin

text \<open>
  A run of the context exchange on the sample store: a selection of the second event is closed,
  a recipient that knows the first one gets the delta as a handoff, which is marked, shaped,
  followed up and summarised. The properties of these components are witnessed on it.
\<close>

section \<open>Verifying the store\<close>

lemma sample_schema: "schema_ok_db genesis_db"
  using sample_invs(1) unfolding schema_ok_db_def
  by (simp add: store_inv_def) (simp add: genesis_db_def)

lemma sample_genesis_clean:
  "vr_valid (clean_report sample_env genesis_db
     \<lparr>vl_max_findings = 10, vl_projection = default_projection_limits\<rparr>)"
proof -
  have anc: "ancestry sample_env genesis_db [genesis_id] = {genesis_id}"
    using ancestry_has_event [OF sample_invs(1), of "[genesis_id]"]
    by (auto simp: genesis_db_def has_event_def ancestry_def intro: ancestors.intros)
  have "store_wire_len sample_env genesis_db genesis_id \<le> MAX_RAW_WIRE_BYTES"
    using to_wire_len [OF sample_env_lawful sample_event_wf sample_to_wire, of "[]" "''context.genesis''"]
      sample_to_wire [of "[]" "''context.genesis''"]
    by (simp add: store_wire_len_def sample_lookups genesis_event_def)
  then have "\<not> too_large sample_env genesis_db default_projection_limits (sample_context, genesis_id)"
    by (simp add: too_large_def anc default_projection_limits_def MAX_PROJECTION_EVENTS_def
        MAX_PROJECTION_WIRE_BYTES_def MAX_RAW_WIRE_BYTES_def)
  moreover have "ref_heads genesis_db = [(sample_context, genesis_id)]"
    by (simp add: ref_heads_def genesis_db_def ordered_local_def ordered_remote_def)
  ultimately show ?thesis by (simp add: clean_report_def)
qed

section \<open>Closing and sending\<close>

lemma sample_stored_events:
  "store_event sample_env merged_db genesis_id = Inr (Some genesis_event)"
  "store_event sample_env merged_db first_id = Inr (Some first_event)"
  "store_event sample_env merged_db second_id = Inr (Some second_event)"
  by (simp_all add: store_event_lookup [OF sample_invs(5)] sample_lookups)

lemma genesis_event_facts [simp]:
  "ev_id genesis_event = genesis_id" "ev_body genesis_event = sample_body [] ''context.genesis''"
  by (simp_all add: genesis_event_def sample_lens)

lemma note_event_facts [simp]:
  "ev_body first_event = sample_body [genesis_id] ''note.one''"
  "ev_body second_event = sample_body [genesis_id] ''note.second''" "ev_id second_event = second_id"
  by (simp_all add: first_event_def second_event_def sample_lens)

lemma sample_payload: "canonical_payload_bytes sample_env (JObject []) = Inr [6, 0]"
  by (simp add: canonical_payload_bytes_def validate_json_value_iff [unfolded One_nat_def] canonicalize_sample
      json_norm.simps MAX_CANONICAL_PAYLOAD_BYTES_def bindR_def MAX_PAYLOAD_DEPTH_def validate_json_value.simps)

lemma sample_genesis_first: "event_id_text sample_env genesis_id < event_id_text sample_env first_id"
proof -
  have bits: "unat (of_nat 332 :: byte) = 76" "unat (of_nat 417 :: byte) = 161" by simp_all
  have "to_char64 (of_bits (take 6 (bits_of 8 76))) = CHR ''T''"
    "to_char64 (of_bits (take 6 (bits_of 8 161))) = CHR ''o''"
    by code_simp+
  then obtain r1 r2 where
    "encode64 (of_nat 332 # of_nat (332 div 256) # replicate 30 0) = CHR ''T'' # r1"
    "encode64 (of_nat 417 # of_nat (417 div 256) # replicate 30 0) = CHR ''o'' # r2"
    using encode64_Cons [of "of_nat 332"] encode64_Cons [of "of_nat 417"] unfolding bits by metis
  then show ?thesis
    by (simp add: event_id_text_def fixed_to_text_def sample_ids sample_id_def less_char_def)
qed

definition sample_history :: recipient_state where
  "sample_history = \<lparr>rs_context = sample_context, rs_head = Some genesis_id, rs_closure = [genesis_id],
     rs_total_bytes = 2\<rparr>"

lemma sample_at_head:
  "at_head sample_env merged_db sample_context genesis_id default_closure_limits = Inr sample_history"
  by (simp add: at_head_def default_closure_limits_def known_head_def sample_stored_events strict_walk.simps
      enter_source_def MAX_CLOSURE_EVENTS_def MAX_CLOSURE_BYTES_def sample_payload sample_history_def
      closure_limits_new_def checked_add_def usize_limit_def sort_dedup_def)

definition sample_reference :: "event_id \<Rightarrow> string \<Rightarrow> source_reference" where
  "sample_reference i kind = \<lparr>sr_event = i, sr_context = sample_context, sr_kind = kind,
     sr_author = sample_author, sr_bytes = 2\<rparr>"

lemma sample_reference_sel [simp]:
  "sr_event (sample_reference i kind) = i" "sr_kind (sample_reference i kind) = kind"
  "sr_bytes (sample_reference i kind) = 2"
  by (simp_all add: sample_reference_def)

definition sample_closed :: closed_selection where
  "sample_closed = \<lparr>cd_context = sample_context,
     cd_references = [sample_reference genesis_id ''context.genesis'', sample_reference first_id ''note.one''],
     cd_selected = [first_id], cd_added_critical = [], cd_total_bytes = 4, cd_limits = default_closure_limits\<rparr>"

definition sample_wider :: closed_selection where
  "sample_wider = \<lparr>cd_context = sample_context,
     cd_references = [sample_reference genesis_id ''context.genesis'', sample_reference first_id ''note.one'',
       sample_reference second_id ''note.second''],
     cd_selected = [first_id], cd_added_critical = [second_id], cd_total_bytes = 6,
     cd_limits = default_closure_limits\<rparr>"

definition sample_policy :: critical_policy where
  "sample_policy = CriticalPolicy [''note.second'']"

lemmas sample_order = sample_genesis_first sample_text_order
  less_trans [OF sample_genesis_first sample_text_order]

lemma sample_sort_dedup:
  "sort_dedup (event_id_text sample_env) [first_id] = [first_id]"
  "sort_dedup (event_id_text sample_env) [first_id, genesis_id] = [genesis_id, first_id]"
  "sort_dedup (event_id_text sample_env) [genesis_id, first_id] = [genesis_id, first_id]"
  "sort_dedup (event_id_text sample_env) [genesis_id, first_id, second_id] = [genesis_id, first_id, second_id]"
  "sort_dedup (event_id_text sample_env) [second_id] = [second_id]"
  "sort_dedup (event_id_text sample_env) [genesis_id] = [genesis_id]"
  "sort_dedup (event_id_text sample_env) [] = []"
  using sample_order by (auto simp: sort_dedup_def insort_key.simps)

lemma sample_max_events: "cl_max_events default_closure_limits = 100000"
  by (simp add: default_closure_limits_def MAX_CLOSURE_EVENTS_def)

lemma sample_close_over:
  "close_over sample_env [\<lparr>node_event = first_id, node_parents = [genesis_id]\<rparr>,
      \<lparr>node_event = genesis_id, node_parents = []\<rparr>] default_closure_limits =
    \<lparr>cr_closed = [genesis_id, first_id], cr_dangling = [], cr_cycle = False, cr_exceeded = False\<rparr>"
  by (simp add: close_over_def node_index_def sample_sort_dedup close_loop.simps known_of_def missing_of_def
      default_closure_limits_def MAX_CLOSURE_EVENTS_def Let_def)

lemma sample_load_nodes:
  "load_closure_nodes sample_env merged_db sample_context [first_id] default_closure_limits =
    Inr [\<lparr>node_event = first_id, node_parents = [genesis_id]\<rparr>, \<lparr>node_event = genesis_id, node_parents = []\<rparr>]"
  by (simp add: load_closure_nodes_def strict_walk.simps enter_source_def sample_stored_events sample_payload
      default_closure_limits_def MAX_CLOSURE_EVENTS_def MAX_CLOSURE_BYTES_def checked_add_def usize_limit_def)

lemma sample_bsearch:
  "bsearch (event_id_text sample_env) (event_id_text sample_env i) [genesis_id] \<longleftrightarrow> i = genesis_id"
  "bsearch (event_id_text sample_env) (event_id_text sample_env i) [first_id] \<longleftrightarrow> i = first_id"
  "bsearch (event_id_text sample_env) (event_id_text sample_env i) [genesis_id, first_id] \<longleftrightarrow>
     i \<in> {genesis_id, first_id}"
  "bsearch (event_id_text sample_env) (event_id_text sample_env i) [first_id, second_id] \<longleftrightarrow>
     i \<in> {first_id, second_id}"
  if "event_id_wf i"
  using that sample_order event_id.canonical_bsearch [OF env_lawfulD(1) [OF sample_env_lawful], of _ i] by auto

lemma sample_source:
  "source_from_signed sample_env genesis_event = Inr \<lparr>src_event = genesis_id, src_context = sample_context,
     src_kind = ''context.genesis'', src_author = sample_author, src_payload = JObject [],
     src_text = bytes_string [6, 0], src_bytes = 2\<rparr>"
  "source_from_signed sample_env first_event = Inr \<lparr>src_event = first_id, src_context = sample_context,
     src_kind = ''note.one'', src_author = sample_author, src_payload = JObject [],
     src_text = bytes_string [6, 0], src_bytes = 2\<rparr>"
  "source_from_signed sample_env second_event = Inr \<lparr>src_event = second_id, src_context = sample_context,
     src_kind = ''note.second'', src_author = sample_author, src_payload = JObject [],
     src_text = bytes_string [6, 0], src_bytes = 2\<rparr>"
  by (simp_all add: source_from_signed_def sample_payload)

lemma sample_load_reference:
  "t < 1000 \<Longrightarrow> load_reference sample_env merged_db genesis_id (refs, t) =
     Inr (refs @ [sample_reference genesis_id ''context.genesis''], t + 2)"
  "t < 1000 \<Longrightarrow> load_reference sample_env merged_db first_id (refs, t) =
     Inr (refs @ [sample_reference first_id ''note.one''], t + 2)"
  "t < 1000 \<Longrightarrow> load_reference sample_env merged_db second_id (refs, t) =
     Inr (refs @ [sample_reference second_id ''note.second''], t + 2)"
  by (simp_all add: load_reference_def sample_stored_events sample_source reference_from_source_def
      sample_reference_def checked_add_def usize_limit_def)

lemma sample_close:
  "close_selection sample_env merged_db sample_context [first_id] [] sample_policy default_closure_limits =
    Inr sample_closed"
  "close_selection sample_env merged_db sample_context [first_id] [second_id] sample_policy default_closure_limits =
    Inr sample_wider"
proof -
  have limits: "closure_limits_new (cl_max_events default_closure_limits) (cl_max_bytes default_closure_limits) =
      Inr default_closure_limits"
    by (simp add: closure_limits_new_def default_closure_limits_def MAX_CLOSURE_EVENTS_def MAX_CLOSURE_BYTES_def)
  have check: "report_check \<lparr>cr_closed = [genesis_id, first_id], cr_dangling = [], cr_cycle = False,
      cr_exceeded = False\<rparr> = Inr ()" by (simp add: report_check_def)
  show "close_selection sample_env merged_db sample_context [first_id] [] sample_policy default_closure_limits =
      Inr sample_closed"
    by (simp add: close_selection_def limits sample_sort_dedup sample_load_nodes sample_close_over check
        sample_load_reference sample_closed_def)
  show "close_selection sample_env merged_db sample_context [first_id] [second_id] sample_policy
      default_closure_limits = Inr sample_wider"
    by (simp add: close_selection_def limits sample_sort_dedup sample_load_nodes sample_close_over check
        sample_load_reference sample_wider_def cover_candidate_def sample_bsearch sample_stored_events
        sample_policy_def is_critical_def MAX_CLOSURE_CANDIDATES_def)
qed

text \<open>
  The limits bound the ancestry of the selection only: with room for two events and four bytes, a
  critical candidate makes the closed selection three events and six bytes.
\<close>

lemma close_selection_over_limits:
  "\<exists>r. close_selection sample_env merged_db sample_context [first_id] [second_id] sample_policy
      \<lparr>cl_max_events = 2, cl_max_bytes = 4\<rparr> = Inr r \<and>
    length (cd_references r) = 3 \<and> cd_total_bytes r = 6"
proof -
  let ?limits = "\<lparr>cl_max_events = 2, cl_max_bytes = 4\<rparr> :: closure_limits"
  let ?nodes = "[\<lparr>node_event = first_id, node_parents = [genesis_id]\<rparr>, \<lparr>node_event = genesis_id, node_parents = []\<rparr>]"
  have limits: "closure_limits_new 2 4 = Inr ?limits"
    by (simp add: closure_limits_new_def MAX_CLOSURE_EVENTS_def MAX_CLOSURE_BYTES_def)
  have nodes: "load_closure_nodes sample_env merged_db sample_context [first_id] ?limits = Inr ?nodes"
    by (simp add: load_closure_nodes_def strict_walk.simps enter_source_def sample_stored_events sample_payload
        checked_add_def usize_limit_def)
  have closed: "close_over sample_env ?nodes ?limits =
      \<lparr>cr_closed = [genesis_id, first_id], cr_dangling = [], cr_cycle = False, cr_exceeded = False\<rparr>"
    by (simp add: close_over_def node_index_def sample_sort_dedup close_loop.simps known_of_def missing_of_def Let_def)
  have check: "report_check \<lparr>cr_closed = [genesis_id, first_id], cr_dangling = [], cr_cycle = False,
      cr_exceeded = False\<rparr> = Inr ()" by (simp add: report_check_def)
  show ?thesis
    by (simp add: close_selection_def limits sample_sort_dedup nodes closed check
        sample_load_reference cover_candidate_def sample_bsearch sample_stored_events
        sample_policy_def is_critical_def MAX_CLOSURE_CANDIDATES_def)
qed

section \<open>The delta and its handoff\<close>

definition sample_delta :: delta_record where
  "sample_delta = \<lparr>de_context = sample_context, de_recipient_head = Some genesis_id,
     de_recipient_closure = [genesis_id], de_selected_known = [genesis_id],
     de_references = [sample_reference first_id ''note.one''], de_total_bytes = 2,
     de_limits = default_closure_limits\<rparr>"

lemma sample_compute_delta:
  "compute_delta sample_env merged_db sample_closed sample_history = Inr sample_delta"
  by (simp add: compute_delta_def sample_closed_def sample_history_def known_head_def sample_stored_events
      delta_over_def sample_sort_dedup sample_bsearch keep_reference_def checked_add_def usize_limit_def
      MAX_DELTA_EVENTS_def MAX_DELTA_BYTES_def sample_delta_def)

definition sample_handoff :: handoff where
  "sample_handoff = \<lparr>ho_delta = sample_delta, ho_omissions = [], ho_uncertainty = [], ho_re_included = []\<rparr>"

lemma sample_from_delta: "handoff_from_delta sample_env sample_delta = Inr sample_handoff"
  by (simp add: handoff_from_delta_def sample_delta_def sample_handoff_def sample_bsearch)

definition sample_omitting :: handoff where
  "sample_omitting = sample_handoff\<lparr>ho_omissions := [\<lparr>om_event = second_id, om_reason = Deliberate\<rparr>]\<rparr>"

lemma sample_with_omission:
  "with_omission sample_env sample_handoff second_id Deliberate = Inr sample_omitting"
  by (simp add: with_omission_def handoff_events_def delta_events_def sample_handoff_def sample_delta_def
      sample_bsearch listed_omission_def MAX_OMISSIONS_def sample_omitting_def)

definition sample_followed :: handoff where
  "sample_followed = \<lparr>ho_delta = sample_delta\<lparr>de_references := [sample_reference first_id ''note.one'',
       sample_reference second_id ''note.second''], de_total_bytes := 4\<rparr>,
     ho_omissions = [], ho_uncertainty = [],
     ho_re_included = [\<lparr>ri_event = second_id, ri_challenge = \<lparr>och_event = second_id, och_note = ''why''\<rparr>\<rparr>]\<rparr>"

lemma sample_verify_valid: "verify_valid sample_env merged_db sample_omitting (Some genesis_id) = Inr ()"
  by (simp add: verify_valid_def check_stated_head_def known_head_def sample_omitting_def sample_handoff_def
      sample_delta_def sample_stored_events)

lemma sample_follow_up:
  "follow_up sample_env merged_db sample_omitting sample_wider sample_history
     \<lparr>och_event = second_id, och_note = ''why''\<rparr> = Inr sample_followed"
proof -
  have delta: "compute_delta sample_env merged_db sample_wider sample_history =
      Inr (sample_delta\<lparr>de_references := [sample_reference first_id ''note.one'',
        sample_reference second_id ''note.second''], de_total_bytes := 4\<rparr>)"
    by (simp add: compute_delta_def sample_wider_def sample_history_def known_head_def sample_stored_events
        delta_over_def sample_sort_dedup sample_bsearch keep_reference_def checked_add_def usize_limit_def
        MAX_DELTA_EVENTS_def MAX_DELTA_BYTES_def sample_delta_def)
  have "sort_key (event_id_text sample_env) (map sr_event (cd_references sample_wider)) =
      [genesis_id, first_id, second_id]"
    using sample_order by (auto simp: sample_wider_def insort_key.simps)
  moreover have "bsearch (event_id_text sample_env) (event_id_text sample_env second_id)
      [genesis_id, first_id, second_id]"
    using sample_order event_id.canonical_bsearch [OF env_lawfulD(1) [OF sample_env_lawful],
        of "[genesis_id, first_id, second_id]" second_id] by auto
  moreover have "rs_head sample_history = Some genesis_id" by (simp add: sample_history_def)
  ultimately show ?thesis
    using sample_verify_valid
    by (simp add: follow_up_def delta Let_def)
      (simp add: listed_omission_def sample_omitting_def sample_handoff_def delta_events_def
        handoff_from_delta_def sample_bsearch sample_delta_def sample_followed_def)
qed

lemma sample_exact:
  "exact_history sample_env merged_db sample_context genesis_id sample_history"
  "exact_closure sample_env merged_db sample_context [first_id] [second_id] sample_policy
     default_closure_limits sample_wider"
  using at_head_history [OF sample_env_lawful sample_invs(5) sample_at_head]
    close_selection_spec [OF sample_env_lawful sample_invs(5), where selected = "[first_id]"
      and candidates = "[second_id]" and c = sample_context and policy = sample_policy
      and limits = default_closure_limits]
  by (simp_all add: sample_close)

lemma sample_omitting_inv: "handoff_inv sample_env sample_omitting"
proof -
  have "delta_canonical sample_env sample_delta"
    by (simp add: delta_canonical_def delta_events_def sample_delta_def)
  from from_delta_inv(1) [OF sample_env_lawful this sample_from_delta]
  show ?thesis by (rule with_omission_inv(1) [OF sample_env_lawful _ _ sample_with_omission]) simp
qed

section \<open>Capabilities\<close>

text \<open>A recipient that declares nothing: every carried event is a mismatch.\<close>

definition sample_capabilities :: recipient_capabilities where
  "sample_capabilities = \<lparr>rcap_recipient = sample_author, rcap_version = 1, rcap_capabilities = []\<rparr>"

definition sample_shaped :: shaped_handoff where
  "sample_shaped = \<lparr>sh_handoff = sample_handoff\<lparr>ho_uncertainty :=
       [mismatch_note sample_env (sample_reference first_id ''note.one'')]\<rparr>,
     sh_report = \<lparr>cp_mismatches = [(first_id, ''note.one'')], cp_flagged = True\<rparr>\<rparr>"

lemma sample_shape: "shape_handoff sample_env sample_handoff sample_capabilities = Inr sample_shaped"
proof -
  have note_len: "length (mismatch_note sample_env (sample_reference first_id ''note.one'')) \<le> 1024"
    "mismatch_note sample_env (sample_reference first_id ''note.one'') \<noteq> []"
    by (simp_all add: mismatch_note_def sample_text_len)
  then have "with_uncertainty sample_handoff (mismatch_note sample_env (sample_reference first_id ''note.one'')) =
      Inr (sample_handoff\<lparr>ho_uncertainty := [mismatch_note sample_env (sample_reference first_id ''note.one'')]\<rparr>)"
    by (simp add: with_uncertainty_def MAX_NOTE_BYTES_def sample_handoff_def sort_dedup_def
        MAX_UNCERTAINTY_NOTES_def)
  then show ?thesis
    using note_len
    by (simp add: shape_handoff_def shape_reference_def sample_handoff_def sample_delta_def covers_def
        sample_capabilities_def MAX_MISMATCH_NOTE_BYTES_def sample_shaped_def)
qed

section \<open>Repair\<close>

text \<open>A driver that asks for the omitted event once and then succeeds.\<close>

definition sample_setting :: repair_setting where
  "sample_setting = \<lparr>se_env = sample_env, se_store = (\<lambda>_. merged_db), se_recipient = sample_history,
     se_bounds = \<lparr>bo_max_iterations = 3, bo_max_re_included = 2, bo_max_delta_bytes = 100\<rparr>,
     se_driver = (\<lambda>i h. if i = 0 then NeedsSource second_id ''why'' sample_wider else TaskSuccess),
     se_writable = (\<lambda>_. True), se_original = sample_omitting\<rparr>"

definition sample_records :: "repair_attempt list" where
  "sample_records =
     [\<lparr>ra_sequence = 0, ra_iteration = 0, ra_re_included = Some second_id, ra_note = Some ''why'',
       ra_events = [first_id], ra_omissions = [second_id], ra_bytes = 2, ra_terminal = None\<rparr>,
      \<lparr>ra_sequence = 1, ra_iteration = 1, ra_re_included = None, ra_note = None,
       ra_events = [first_id, second_id], ra_omissions = [], ra_bytes = 4, ra_terminal = Some ConvergedRecord\<rparr>]"

definition sample_report :: repair_report where
  "sample_report = \<lparr>rr_converged = True, rr_iterations = 2, rr_re_included = [second_id],
     rr_non_convergence = None, rr_handoff = sample_followed\<rparr>"

lemma sample_re_include: "re_include sample_setting 0 sample_omitting second_id ''why'' sample_wider = Inr sample_followed"
proof -
  have "challenge_omission sample_omitting second_id ''why'' = Inr \<lparr>och_event = second_id, och_note = ''why''\<rparr>"
    by (simp add: challenge_omission_def listed_omission_def sample_omitting_def MAX_NOTE_BYTES_def)
  then show ?thesis using sample_follow_up by (simp add: re_include_def sample_setting_def)
qed

lemma sample_run_repair:
  "run_repair sample_setting (history_open []) =
    Inr (sample_report, \<lparr>rh_records = sample_records, rh_sequence = 2\<rparr>)"
proof -
  have set: "se_bounds sample_setting = \<lparr>bo_max_iterations = 3, bo_max_re_included = 2, bo_max_delta_bytes = 100\<rparr>"
    "se_driver sample_setting i h = (if i = 0 then NeedsSource second_id ''why'' sample_wider else TaskSuccess)"
    "se_writable sample_setting n" "se_original sample_setting = sample_omitting" for i h n
    by (simp_all add: sample_setting_def)
  have offered: "offered_attempt 0 sample_omitting = \<lparr>ra_sequence = 0, ra_iteration = 0, ra_re_included = None,
      ra_note = None, ra_events = [first_id], ra_omissions = [second_id], ra_bytes = 2, ra_terminal = None\<rparr>"
    "offered_attempt 1 sample_followed = \<lparr>ra_sequence = 0, ra_iteration = 1, ra_re_included = None,
      ra_note = None, ra_events = [first_id, second_id], ra_omissions = [], ra_bytes = 4, ra_terminal = None\<rparr>"
    "de_total_bytes (ho_delta sample_followed) = 4"
    by (simp_all add: offered_attempt_def handoff_events_def delta_events_def sample_omitting_def
        sample_handoff_def sample_delta_def sample_followed_def)
  have three: "(3 :: nat) = Suc (Suc (Suc 0))" by simp
  show ?thesis
    unfolding run_repair_def set repair_bounds.simps three
    by (simp add: set repair_loop.simps Let_def sample_re_include offered [unfolded One_nat_def]
        history_append_def history_open_def sample_report_def sample_records_def numeral_2_eq_2)
qed

section \<open>Summaries\<close>

lemma sample_event_summary: "\<exists>s. event_summary sample_env merged_db sample_context first_id = Inr s"
  by (simp add: event_summary_def sample_stored_events summary_from_payload_def derive_summary_id_def
      canonicalize_sample)

section \<open>A receipt\<close>

definition sample_task :: task_record where
  "sample_task = \<lparr>task_verbatim = ''find the note'', task_hash = ''blake3_00'', task_structured = None\<rparr>"

definition sample_receipt_body :: receipt_body where
  "sample_receipt_body = \<lparr>rb_version = RECEIPT_VERSION, rb_context = sample_context, rb_events = [first_id],
     rb_task = sample_task, rb_recipient = genesis_id,
     rb_selector = \<lparr>sel_identity = ''words'', sel_version = ''1'', sel_config_hash = ''none''\<rparr>,
     rb_omissions = [], rb_uncertainty = [], rb_created_at = ''2024-01-01T00:00:00Z'', rb_author = sample_author\<rparr>"

lemma sample_timestamp: "valid_utc_timestamp ''2024-01-01T00:00:00Z''"
  by code_simp

lemma sample_receipt_len: "rendered_len sample_env (receipt_body_json sample_env sample_receipt_body) \<le> 5000"
  by (simp add: rendered_len_sample receipt_body_json_def receipt_body_fields_def sample_receipt_body_def
      sample_task_def task_fields_def selector_fields_def obj_of_def RECEIPT_VERSION_def json_norm.simps
      length_concat_map_eq sample_text_len enc_nat_1)

lemma sample_receipt_valid: "validate_receipt_body sample_env sample_receipt_body = Inr ()"
proof -
  have "length (enc_json (json_norm (receipt_body_json sample_env sample_receipt_body))) \<le> MAX_RECEIPT_WIRE_BYTES"
    using sample_receipt_len by (simp add: rendered_len_sample MAX_RECEIPT_WIRE_BYTES_def)
  then show ?thesis
    by (simp add: validate_receipt_body_iff canonicalize_sample sample_receipt_body_def sample_task_def
        validate_task_iff validate_selector_iff sample_timestamp MAX_RECEIPT_EVENTS_def MAX_TASK_BYTES_def
        MAX_SELECTOR_IDENTITY_BYTES_def MAX_SELECTOR_VERSION_BYTES_def MAX_SELECTOR_CONFIG_HASH_BYTES_def
        MAX_RECEIPT_NOTES_def)
qed

definition sample_receipt :: signed_receipt where
  "sample_receipt = \<lparr>rc_id = ReceiptId (sample_digest (enc_json (json_norm
       (receipt_body_json sample_env sample_receipt_body)))),
     rc_body = sample_receipt_body, rc_signature = ReceiptSignature (replicate 64 0)\<rparr>"

lemma sample_receipt_verifies: "verify_receipt sample_env sample_receipt = Inr ()"
  by (simp add: verify_receipt_def verify_receipt_parts_iff derive_receipt_id_Inr_iff
      receipt_canonical_bytes_Inr_iff sample_receipt_valid canonicalize_sample sample_receipt_def
      verify_domain_message_def)

lemma sample_receipt_wf: "receipt_wf sample_receipt"
  by (simp add: receipt_wf_def sample_receipt_def receipt_id_wf_def receipt_signature_wf_def
      receipt_body_wf_def sample_receipt_body_def task_wf_def sample_task_def sample_digest_def)

lemma sample_receipt_wire:
  obtains w where "receipt_to_wire sample_env sample_receipt = Inr w" "length w \<le> MAX_RECEIPT_WIRE_BYTES"
proof -
  have envelope: "receipt_envelope_json sample_env sample_receipt = JObject
      [(''body'', receipt_body_json sample_env sample_receipt_body),
       (''receipt_id'', JString (receipt_id_text sample_env (rc_id sample_receipt))),
       (''signature'', JString (receipt_signature_text sample_env (rc_signature sample_receipt)))]"
    by (simp add: receipt_envelope_json_def receipt_fields_def obj_of_def sample_receipt_def)
  have "length (receipt_id_text sample_env (rc_id sample_receipt)) = 49"
    "length (receipt_signature_text sample_env (rc_signature sample_receipt)) = 92"
    by (simp_all add: receipt_id_text_def receipt_signature_text_def fixed_to_text_def length_encode64
        sample_receipt_def sample_digest_def)
  then have "length (enc_json (json_norm (receipt_envelope_json sample_env sample_receipt))) \<le> MAX_RECEIPT_WIRE_BYTES"
    unfolding envelope using sample_receipt_len
    by (simp add: rendered_len_sample json_norm.simps length_concat_map_eq MAX_RECEIPT_WIRE_BYTES_def)
  then show thesis
    by (intro that [of "enc_json (json_norm (receipt_envelope_json sample_env sample_receipt))"])
      (simp_all add: receipt_to_wire_def sample_receipt_verifies canonicalize_sample)
qed

lemma sample_receipt_norm: "norm_receipt sample_receipt = sample_receipt"
  by (simp add: norm_receipt_def norm_receipt_body_def norm_task_def sample_receipt_def
      sample_receipt_body_def sample_task_def)

end
