(* ===== verification/Eval.thy ===== *)
theory Eval
  imports Handoff
begin

text \<open>
  The frozen evaluation suite, \<open>src/src/eval.rs\<close>, and the claim discipline of
  \<open>src/src/selection.rs\<close>: manifest validation, the deterministic task chains, the withheld and
  repaired cases, the simulated recipient, the suite, and the sufficiency and minimality checks
  that rest on it. Each write of the suite has its own commit outcome.
\<close>

datatype eval_mode = ChallengeProbe | TaskBenchmark
datatype case_expectation = CaseFails | CasePasses

record eval_task =
  et_id :: string
  et_mode :: eval_mode
  et_task :: string
  et_chain_kind :: string
  et_steps :: "string list"
  et_critical_index :: nat
  et_critical_kind :: string
  et_critical_note :: string
  et_withheld :: case_expectation
  et_repaired :: case_expectation

record eval_manifest =
  em_schema :: string
  em_version :: string
  em_tasks :: "eval_task list"

datatype eval_error =
    InvalidManifest | EvalContract contract_error | EvalStore store_error
  | EvalSelection selection_error | EvalClosure closure_error | EvalDelta delta_error
  | EvalHandoff handoff_error | EvalInternal

section \<open>The manifest\<close>

definition task_ok :: "eval_task \<Rightarrow> bool" where
  "task_ok t \<longleftrightarrow> \<not> trims_to_empty (et_task t) \<and> et_chain_kind t \<noteq> [] \<and> et_steps t \<noteq> [] \<and>
     et_critical_index t < length (et_steps t) \<and> et_critical_kind t \<noteq> [] \<and> et_critical_note t \<noteq> [] \<and>
     et_critical_note t = et_steps t ! et_critical_index t"

fun validate_tasks :: "eval_task list \<Rightarrow> string set \<Rightarrow> eval_error + unit" where
  "validate_tasks [] seen = Inr ()"
| "validate_tasks (t # ts) seen =
     (if et_id t = [] \<or> et_id t \<in> seen then Inl InvalidManifest
      else if \<not> task_ok t then Inl InvalidManifest
      else validate_tasks ts (insert (et_id t) seen))"

definition validate_manifest :: "eval_manifest \<Rightarrow> eval_error + unit" where
  "validate_manifest m =
     (if em_schema m \<noteq> ''ob08-eval-manifest'' then Inl InvalidManifest
      else if em_version m \<noteq> ''1'' then Inl InvalidManifest
      else if em_tasks m = [] then Inl InvalidManifest
      else validate_tasks (em_tasks m) {})"

section \<open>Task chains\<close>

record task_chain =
  tc_genesis :: event_id
  tc_children :: "event_id list"
  tc_critical :: event_id

definition candidates_without_critical :: "task_chain \<Rightarrow> event_id list" where
  "candidates_without_critical chain = filter (\<lambda>i. i \<noteq> tc_critical chain) (tc_children chain)"

definition EVAL_AUTHOR_SEED :: byte where "EVAL_AUTHOR_SEED = 9"

definition eval_author :: signing_identity where
  "eval_author = SigningIdentity (replicate 32 EVAL_AUTHOR_SEED)"

definition EVAL_BUDGET :: selection_budget where
  "EVAL_BUDGET = \<lparr>max_selected_events = 64, max_budget_bytes = 65536\<rparr>"

definition EVAL_LIMITS :: closure_limits where
  "EVAL_LIMITS = \<lparr>cl_max_events = 100000, cl_max_bytes = 67108864\<rparr>"

definition noop_policy :: critical_policy where
  "noop_policy = CriticalPolicy [''eval.no-critical-kind'']"

text \<open>\<open>index as u8\<close> keeps the low eight bits.\<close>

definition eval_context :: "nat \<Rightarrow> context_id" where
  "eval_context index = ContextId (replicate 32 ((of_nat index :: byte) + 1))"

definition main_cas :: "context_id \<Rightarrow> ref_expectation \<Rightarrow> event_id \<Rightarrow> ref_mutation" where
  "main_cas c expected head = CompareAndSwap c ''main'' expected head"

definition provision_genesis ::
  "env \<Rightarrow> signed_event \<Rightarrow> signing_identity \<Rightarrow> commit_outcome \<Rightarrow> db \<Rightarrow> (eval_error + unit) \<times> db" where
  "provision_genesis E genesis author oc d =
     (case provision_context E \<lparr>prov_context = body_context (ev_body genesis), prov_genesis = ev_id genesis,
             prov_authors = [identity_author E author]\<rparr> oc d of
        (result, d') \<Rightarrow> (map_err EvalStore result, d'))"

definition step_payload :: "nat \<Rightarrow> string \<Rightarrow> json" where
  "step_payload index note = JObject (obj_of
     [(''value'', JNumber (PosInt (index + 1))), (''note'', JString note)])"

primrec add_steps ::
  "env \<Rightarrow> signing_identity \<Rightarrow> context_id \<Rightarrow> eval_task \<Rightarrow> event_id \<Rightarrow> (nat \<Rightarrow> commit_outcome) \<Rightarrow>
    string list \<Rightarrow> nat \<Rightarrow> event_id \<Rightarrow> event_id list \<Rightarrow> event_id option \<Rightarrow> db \<Rightarrow>
    (eval_error + (event_id list \<times> event_id option)) \<times> db" where
  "add_steps E author c t genesis ocs [] index head children critical d = (Inr (children, critical), d)"
| "add_steps E author c t genesis ocs (note # steps) index head children critical d =
     (let marked = (index = et_critical_index t);
          kind = (if marked then et_critical_kind t else et_chain_kind t)
      in case create_event E author c [genesis] kind (step_payload index note) of
          Inl e \<Rightarrow> (Inl (EvalContract e), d)
        | Inr event \<Rightarrow>
            (let expected = (if index = 0 then Absent else Head head) in
             case admit E event (main_cas c expected (ev_id event)) (ocs index) d of
               (Inl e, d') \<Rightarrow> (Inl (EvalStore e), d')
             | (Inr _, d') \<Rightarrow>
                 add_steps E author c t genesis ocs steps (index + 1) (ev_id event)
                   (children @ [ev_id event]) (if marked then Some (ev_id event) else critical) d'))"

definition root_payload :: json where
  "root_payload = JObject (obj_of [(''note'', JString ''root'')])"

definition build_chain ::
  "env \<Rightarrow> signing_identity \<Rightarrow> context_id \<Rightarrow> eval_task \<Rightarrow> commit_outcome \<Rightarrow> commit_outcome \<Rightarrow>
    (nat \<Rightarrow> commit_outcome) \<Rightarrow> db \<Rightarrow> (eval_error + task_chain) \<times> db" where
  "build_chain E author c t oc1 oc2 ocs d =
     (case create_event E author c [] ''context.genesis'' root_payload of
        Inl e \<Rightarrow> (Inl (EvalContract e), d)
      | Inr genesis \<Rightarrow>
          (case provision_genesis E genesis author oc1 d of
             (Inl e, d1) \<Rightarrow> (Inl e, d1)
           | (Inr _, d1) \<Rightarrow>
               (case admit E genesis NoMutation oc2 d1 of
                  (Inl e, d2) \<Rightarrow> (Inl (EvalStore e), d2)
                | (Inr _, d2) \<Rightarrow>
                    (case add_steps E author c t (ev_id genesis) ocs (et_steps t) 0 (ev_id genesis) [] None d2 of
                       (Inl e, d3) \<Rightarrow> (Inl e, d3)
                     | (Inr (children, critical), d3) \<Rightarrow>
                         (bindR (ok_or critical InvalidManifest) (\<lambda>i.
                            Inr \<lparr>tc_genesis = ev_id genesis, tc_children = children, tc_critical = i\<rparr>), d3)))))"

section \<open>Cases\<close>

record case_handoff =
  ch_selection :: closed_selection
  ch_handoff :: handoff

definition build_case ::
  "env \<Rightarrow> db \<Rightarrow> context_id \<Rightarrow> eval_task \<Rightarrow> task_chain \<Rightarrow> bool \<Rightarrow> eval_error + case_handoff" where
  "build_case E d c t chain withheld =
     (let candidates = (if withheld then candidates_without_critical chain else tc_children chain) in
      bindR (map_err EvalSelection (select_sources E d (et_task t) None EVAL_BUDGET
          (baseline_selector E BASELINE_VERSION) candidates)) (\<lambda>selection.
      let selected = map sr_event (cc_references (sn_context selection)) in
      bindR (map_err EvalClosure (close_selection E d c selected candidates noop_policy EVAL_LIMITS)) (\<lambda>chosen.
      bindR (map_err EvalDelta (at_head E d c (tc_genesis chain) EVAL_LIMITS)) (\<lambda>recipient.
      bindR (map_err EvalDelta (compute_delta E d chosen recipient)) (\<lambda>delta.
      bindR (map_err EvalHandoff (handoff_from_delta E delta)) (\<lambda>h.
      bindR (if withheld then map_err EvalHandoff (with_omission E h (tc_critical chain) Deliberate) else Inr h) (\<lambda>h.
      bindR (map_err EvalHandoff (foldR (\<lambda>note h. with_uncertainty h note) (sn_uncertainty selection) h)) (\<lambda>h.
        Inr \<lparr>ch_selection = chosen, ch_handoff = h\<rparr>))))))))"

record case_result =
  cas_noticed :: "event_id list"
  cas_hidden :: "event_id list"
  cas_completed :: bool

definition carries :: "env \<Rightarrow> handoff \<Rightarrow> event_id \<Rightarrow> bool" where
  "carries E h i \<longleftrightarrow> bsearch (event_id_text E) (event_id_text E i) (handoff_events h)"

definition simulate :: "env \<Rightarrow> handoff \<Rightarrow> event_id list \<Rightarrow> case_result" where
  "simulate E h critical =
     (let absent = filter (\<lambda>i. \<not> carries E h i) critical
      in \<lparr>cas_noticed = filter (listed_omission h) absent,
          cas_hidden = filter (\<lambda>i. \<not> listed_omission h i) absent,
          cas_completed = list_all (carries E h) critical\<rparr>)"

definition case_passes :: "case_result \<Rightarrow> case_expectation \<Rightarrow> bool" where
  "case_passes r expectation =
     (case expectation of
        CaseFails \<Rightarrow> \<not> cas_completed r \<and> cas_noticed r \<noteq> [] \<and> cas_hidden r = []
      | CasePasses \<Rightarrow> cas_completed r \<and> cas_noticed r = [] \<and> cas_hidden r = [])"

section \<open>The suite\<close>

record eval_result =
  ev_task_id :: string
  ev_task_mode :: eval_mode
  ev_withheld :: case_result
  ev_repaired :: case_result
  ev_pass :: bool

record eval_report =
  ep_passed :: bool
  ep_results :: "eval_result list"

definition run_task ::
  "env \<Rightarrow> nat \<Rightarrow> eval_task \<Rightarrow> (nat \<Rightarrow> commit_outcome) \<Rightarrow> db \<Rightarrow> (eval_error + eval_result) \<times> db" where
  "run_task E index t ocs d =
     (let c = eval_context index in
      case build_chain E eval_author c t (ocs 0) (ocs 1) (\<lambda>n. ocs (n + 2)) d of
        (Inl e, d') \<Rightarrow> (Inl e, d')
      | (Inr chain, d') \<Rightarrow>
          (bindR (build_case E d' c t chain True) (\<lambda>withheld_case.
           bindR (build_case E d' c t chain False) (\<lambda>repaired_case.
             let withheld = simulate E (ch_handoff withheld_case) [tc_critical chain];
                 repaired = simulate E (ch_handoff repaired_case) [tc_critical chain]
             in Inr \<lparr>ev_task_id = et_id t, ev_task_mode = et_mode t, ev_withheld = withheld,
                     ev_repaired = repaired,
                     ev_pass = (case_passes withheld (et_withheld t) \<and> case_passes repaired (et_repaired t))\<rparr>)), d'))"

primrec run_tasks ::
  "env \<Rightarrow> nat \<Rightarrow> eval_task list \<Rightarrow> (nat \<Rightarrow> nat \<Rightarrow> commit_outcome) \<Rightarrow> db \<Rightarrow>
    (eval_error + eval_result list) \<times> db" where
  "run_tasks E index [] ocs d = (Inr [], d)"
| "run_tasks E index (t # ts) ocs d =
     (case run_task E index t (ocs index) d of
        (Inl e, d') \<Rightarrow> (Inl e, d')
      | (Inr r, d') \<Rightarrow>
          (case run_tasks E (index + 1) ts ocs d' of
             (Inl e, d'') \<Rightarrow> (Inl e, d'')
           | (Inr rs, d'') \<Rightarrow> (Inr (r # rs), d'')))"

definition run_eval_suite ::
  "env \<Rightarrow> eval_manifest \<Rightarrow> (nat \<Rightarrow> nat \<Rightarrow> commit_outcome) \<Rightarrow> db \<Rightarrow> (eval_error + eval_report) \<times> db" where
  "run_eval_suite E m ocs d =
     (case validate_manifest m of
        Inl e \<Rightarrow> (Inl e, d)
      | Inr _ \<Rightarrow>
          (case run_tasks E 0 (em_tasks m) ocs d of
             (Inl e, d') \<Rightarrow> (Inl e, d')
           | (Inr results, d') \<Rightarrow>
               (Inr \<lparr>ep_passed = list_all ev_pass results, ep_results = results\<rparr>, d')))"

section \<open>Claims\<close>

record selection_metric =
  me_selected_events :: nat
  me_exported_bytes :: nat
  me_max_selected_events :: nat
  me_max_exported_bytes :: nat

definition record_metric :: "closed_selection \<Rightarrow> selection_budget \<Rightarrow> selection_metric" where
  "record_metric chosen budget =
     \<lparr>me_selected_events = length (cd_selected chosen), me_exported_bytes = cd_total_bytes chosen,
      me_max_selected_events = max_selected_events budget, me_max_exported_bytes = max_budget_bytes budget\<rparr>"

definition within_budget :: "selection_metric \<Rightarrow> bool" where
  "within_budget m \<longleftrightarrow> me_selected_events m \<le> me_max_selected_events m \<and>
     me_exported_bytes m \<le> me_max_exported_bytes m"

datatype claim_error = ClaimDelta delta_error | ClaimHandoff handoff_error | ClaimClosure closure_error

definition check_sufficiency ::
  "env \<Rightarrow> db \<Rightarrow> context_id \<Rightarrow> event_id \<Rightarrow> event_id list \<Rightarrow> closed_selection \<Rightarrow> closure_limits \<Rightarrow>
    claim_error + bool" where
  "check_sufficiency E d c genesis critical chosen limits =
     bindR (map_err ClaimDelta (at_head E d c genesis limits)) (\<lambda>recipient.
     bindR (map_err ClaimDelta (compute_delta E d chosen recipient)) (\<lambda>delta.
     bindR (map_err ClaimHandoff (handoff_from_delta E delta)) (\<lambda>h.
       let result = simulate E h critical in Inr (cas_completed result \<and> cas_hidden result = []))))"

definition no_add_policy :: critical_policy where
  "no_add_policy = CriticalPolicy [''ob10.no-critical-kind'']"

text \<open>The loop over the selected sources; it stops at the first whose removal keeps sufficiency.\<close>

primrec minimal_over ::
  "env \<Rightarrow> db \<Rightarrow> context_id \<Rightarrow> event_id \<Rightarrow> event_id list \<Rightarrow> event_id list \<Rightarrow> closure_limits \<Rightarrow>
    event_id list \<Rightarrow> claim_error + bool" where
  "minimal_over E d c genesis critical selected limits [] = Inr True"
| "minimal_over E d c genesis critical selected limits (removed # rest) =
     (let reduced = filter (\<lambda>i. i \<noteq> removed) selected in
      bindR (map_err ClaimClosure (close_selection E d c reduced reduced no_add_policy limits)) (\<lambda>reduced_closed.
      bindR (check_sufficiency E d c genesis critical reduced_closed limits) (\<lambda>sufficient.
        if sufficient then Inr False
        else minimal_over E d c genesis critical selected limits rest)))"

record minimality_claim =
  mc_minimal :: bool
  mc_metric :: selection_metric

definition check_minimality ::
  "env \<Rightarrow> db \<Rightarrow> context_id \<Rightarrow> event_id \<Rightarrow> event_id list \<Rightarrow> closed_selection \<Rightarrow> selection_budget \<Rightarrow>
    closure_limits \<Rightarrow> claim_error + minimality_claim" where
  "check_minimality E d c genesis critical chosen budget limits =
     bindR (minimal_over E d c genesis critical (cd_selected chosen) limits (cd_selected chosen)) (\<lambda>minimal.
       Inr \<lparr>mc_minimal = minimal, mc_metric = record_metric chosen budget\<rparr>)"

end
