(* ===== verification/Eval_Facts.thy ===== *)
theory Eval_Facts
  imports Eval
begin

text \<open>
  The verdicts of the evaluation suite \<open>src/src/eval.rs\<close>: the withheld case of a task always
  notices exactly the withheld event, so a task passes exactly when its manifest expects that, and
  the repaired case carries the event.
\<close>

lemma filter_single [simp]: "filter p [x] = (if p x then [x] else [])"
  by simp

lemma simulate_single:
  "simulate E h [i] =
    (if carries E h i then \<lparr>cas_noticed = [], cas_hidden = [], cas_completed = True\<rparr>
     else if listed_omission h i then \<lparr>cas_noticed = [i], cas_hidden = [], cas_completed = False\<rparr>
     else \<lparr>cas_noticed = [], cas_hidden = [i], cas_completed = False\<rparr>)"
  by (simp add: simulate_def Let_def)

lemma simulate_completed: "cas_completed (simulate E h critical) \<longleftrightarrow> (\<forall>i \<in> set critical. carries E h i)"
  by (simp add: simulate_def Let_def list_all_iff)

lemma simulate_partition:
  "set (cas_noticed (simulate E h critical)) \<union> set (cas_hidden (simulate E h critical)) =
     {i \<in> set critical. \<not> carries E h i}"
  "set (cas_noticed (simulate E h critical)) \<inter> set (cas_hidden (simulate E h critical)) = {}"
  by (auto simp: simulate_def Let_def)

text \<open>Marking a handoff as uncertain changes neither what it carries nor what it lists.\<close>

lemma with_uncertainty_same:
  "with_uncertainty h note_text = Inr h' \<Longrightarrow> ho_delta h' = ho_delta h \<and> ho_omissions h' = ho_omissions h"
  by (auto simp: with_uncertainty_def Let_def split: if_splits)

lemma uncertainty_fold_same:
  "foldR (\<lambda>n h. with_uncertainty h n) ns h = Inr h' \<Longrightarrow> ho_delta h' = ho_delta h \<and> ho_omissions h' = ho_omissions h"
  by (induction ns arbitrary: h) (auto simp: bindR_Inr_iff dest: with_uncertainty_same)

lemma with_omission_lists:
  assumes "with_omission E h i reason = Inr h'"
  shows "\<not> carries E h' i" "listed_omission h' i" "ho_delta h' = ho_delta h"
  using assms
  by (auto simp: with_omission_def carries_def handoff_events_def listed_omission_def list_ex_iff split: if_splits)

lemma build_case_cases:
  assumes "build_case E d c t chain withheld = Inr x"
  obtains chosen recipient delta h0 h1 where
    "compute_delta E d chosen recipient = Inr delta" "handoff_from_delta E delta = Inr h0"
    "at_head E d c (tc_genesis chain) EVAL_LIMITS = Inr recipient" "ch_selection x = chosen"
    "if withheld then with_omission E h0 (tc_critical chain) Deliberate = Inr h1 else h1 = h0"
    "ho_delta (ch_handoff x) = ho_delta h1" "ho_omissions (ch_handoff x) = ho_omissions h1"
  using assms uncertainty_fold_same
  by (fastforce simp: build_case_def bindR_Inr_iff Let_def split: if_splits)

lemma carries_cong:
  "ho_delta h' = ho_delta h \<Longrightarrow> carries E h' i = carries E h i"
  by (simp add: carries_def handoff_events_def)

lemma listed_omission_cong: "ho_omissions h' = ho_omissions h \<Longrightarrow> listed_omission h' i = listed_omission h i"
  by (simp add: listed_omission_def)

lemma withheld_case:
  assumes "build_case E d c t chain True = Inr x"
  shows "simulate E (ch_handoff x) [tc_critical chain] =
    \<lparr>cas_noticed = [tc_critical chain], cas_hidden = [], cas_completed = False\<rparr>"
  using assms
proof (rule build_case_cases)
  fix chosen recipient delta h0 h1
  assume "if True then with_omission E h0 (tc_critical chain) Deliberate = Inr h1 else h1 = h0"
    and same: "ho_delta (ch_handoff x) = ho_delta h1" "ho_omissions (ch_handoff x) = ho_omissions h1"
  then have "\<not> carries E h1 (tc_critical chain)" "listed_omission h1 (tc_critical chain)"
    by (auto dest: with_omission_lists)
  then show ?thesis
    using carries_cong [OF same(1)] listed_omission_cong [OF same(2)] by (simp add: simulate_single)
qed

lemma repaired_case:
  assumes "build_case E d c t chain False = Inr x"
  shows "simulate E (ch_handoff x) [tc_critical chain] =
    (if carries E (ch_handoff x) (tc_critical chain) then \<lparr>cas_noticed = [], cas_hidden = [], cas_completed = True\<rparr>
     else \<lparr>cas_noticed = [], cas_hidden = [tc_critical chain], cas_completed = False\<rparr>)"
  using assms
proof (rule build_case_cases)
  fix chosen recipient delta h0 h1
  assume "handoff_from_delta E delta = Inr h0"
    "if False then with_omission E h0 (tc_critical chain) Deliberate = Inr h1 else h1 = h0"
    and same: "ho_delta (ch_handoff x) = ho_delta h1" "ho_omissions (ch_handoff x) = ho_omissions h1"
  then have "ho_omissions (ch_handoff x) = []"
    by (auto simp: handoff_from_delta_def split: if_splits)
  then show ?thesis by (simp add: simulate_single listed_omission_def)
qed

lemma run_task_verdict:
  assumes "run_task E index t ocs d = (Inr r, d')"
  shows "ev_task_id r = et_id t" "\<exists>i. cas_noticed (ev_withheld r) = [i]" "cas_hidden (ev_withheld r) = []"
    "\<not> cas_completed (ev_withheld r)" "cas_noticed (ev_repaired r) = []"
    "ev_pass r \<longleftrightarrow> et_withheld t = CaseFails \<and> et_repaired t = CasePasses \<and> cas_completed (ev_repaired r)"
proof -
  obtain chain x y where chain: "build_chain E eval_author (eval_context index) t (ocs 0) (ocs 1) (\<lambda>n. ocs (n + 2)) d = (Inr chain, d')"
    and x: "build_case E d' (eval_context index) t chain True = Inr x"
    and y: "build_case E d' (eval_context index) t chain False = Inr y"
    and r: "r = \<lparr>ev_task_id = et_id t, ev_task_mode = et_mode t,
      ev_withheld = simulate E (ch_handoff x) [tc_critical chain], ev_repaired = simulate E (ch_handoff y) [tc_critical chain],
      ev_pass = (case_passes (simulate E (ch_handoff x) [tc_critical chain]) (et_withheld t) \<and>
        case_passes (simulate E (ch_handoff y) [tc_critical chain]) (et_repaired t))\<rparr>"
    using assms by (auto simp: run_task_def Let_def bindR_Inr_iff split: prod.splits sum.splits)
  show "ev_task_id r = et_id t" "\<exists>i. cas_noticed (ev_withheld r) = [i]" "cas_hidden (ev_withheld r) = []"
    "\<not> cas_completed (ev_withheld r)" "cas_noticed (ev_repaired r) = []"
    "ev_pass r \<longleftrightarrow> et_withheld t = CaseFails \<and> et_repaired t = CasePasses \<and> cas_completed (ev_repaired r)"
    by (simp_all add: r withheld_case [OF x] repaired_case [OF y] case_passes_def split: case_expectation.split)
qed

lemma run_tasks_verdicts:
  "run_tasks E index ts ocs d = (Inr rs, d') \<Longrightarrow>
    list_all2 (\<lambda>t r. ev_task_id r = et_id t \<and> \<not> cas_completed (ev_withheld r) \<and> cas_hidden (ev_withheld r) = [] \<and>
      (ev_pass r \<longleftrightarrow> et_withheld t = CaseFails \<and> et_repaired t = CasePasses \<and> cas_completed (ev_repaired r))) ts rs"
proof (induction ts arbitrary: index d rs)
  case (Cons t ts)
  then show ?case by (auto split: prod.splits sum.splits dest: run_task_verdict)
qed auto

text \<open>The contexts of the tasks repeat after 256 of them.\<close>

lemma eval_context_repeats: "eval_context (n + 256) = eval_context n"
proof -
  have "(of_nat (n + 256) :: byte) = of_nat n" by (simp add: of_nat_add)
  then show ?thesis by (simp add: eval_context_def)
qed

section \<open>Claims\<close>

lemma check_sufficiency_iff:
  "check_sufficiency E d c genesis critical chosen limits = Inr b \<Longrightarrow>
    \<exists>recipient delta h. at_head E d c genesis limits = Inr recipient \<and> compute_delta E d chosen recipient = Inr delta \<and>
      handoff_from_delta E delta = Inr h \<and> (b \<longleftrightarrow> (\<forall>i \<in> set critical. carries E h i))"
  by (auto simp: check_sufficiency_def bindR_Inr_iff Let_def simulate_def list_all_iff filter_empty_conv)

end
