(* ===== verification/Sync_Protocol.thy ===== *)
theory Sync_Protocol
  imports Store_Sync
begin

text \<open>
  The values of the synchronisation protocol, \<open>src/src/sync.rs\<close>: limits, the pull request, the
  snapshot of refs and the page response with their strict canonical JSON forms, and the opaque
  continuation cursor.
\<close>

section \<open>Errors, constants and limits\<close>

datatype sync_error =
    SyncInvalidConfig | SyncTokenSource | SyncInvalidEndpoint | SyncAuthentication | SyncTransport
  | SyncTimeout | SyncProtocol | SyncUnsupportedVersion | SyncPaginationConflict
  | SyncLimitExceeded | SyncExposureNotAcknowledged | SyncStore store_error | SyncInternal

definition SYNC_PROTOCOL_VERSION :: nat where "SYNC_PROTOCOL_VERSION = 1"
definition MAX_PULL_PAGES :: nat where "MAX_PULL_PAGES = 100000"
definition REFS_HASH_CONTEXT :: string where "REFS_HASH_CONTEXT = ''org.aaif.contextmesh.sync.refs.v1''"
definition HEADS_HASH_CONTEXT :: string where "HEADS_HASH_CONTEXT = ''org.aaif.contextmesh.sync.heads.v1''"
definition PLAN_HASH_CONTEXT :: string where "PLAN_HASH_CONTEXT = ''org.aaif.contextmesh.sync.plan.v1''"

record pull_limits =
  pul_max_events :: nat
  pul_max_bundle_bytes :: nat
  pul_max_pages :: nat

definition pull_limits_new :: "nat \<Rightarrow> nat \<Rightarrow> nat \<Rightarrow> sync_error + pull_limits" where
  "pull_limits_new max_events max_bundle_bytes max_pages =
     (if max_events = 0 \<or> max_events > MAX_BUNDLE_EVENTS \<or>
         max_bundle_bytes = 0 \<or> max_bundle_bytes > MAX_BUNDLE_CANONICAL_BYTES \<or>
         max_pages = 0 \<or> max_pages > MAX_PULL_PAGES
      then Inl SyncInvalidConfig
      else Inr \<lparr>pul_max_events = max_events, pul_max_bundle_bytes = max_bundle_bytes,
                pul_max_pages = max_pages\<rparr>)"

definition default_pull_limits :: pull_limits where
  "default_pull_limits = \<lparr>pul_max_events = MAX_BUNDLE_EVENTS,
     pul_max_bundle_bytes = MAX_BUNDLE_CANONICAL_BYTES, pul_max_pages = MAX_PULL_PAGES\<rparr>"

section \<open>Strict field access\<close>

definition protocol_err :: "'e + 'a \<Rightarrow> sync_error + 'a" where
  "protocol_err m = map_err (\<lambda>_. SyncProtocol) m"

definition strict_protocol :: "env \<Rightarrow> bytes \<Rightarrow> sync_error + json" where
  "strict_protocol E input =
     bindR (protocol_err (strict_json (json_reader E) input)) (\<lambda>value.
     bindR (protocol_err (canonicalize E value)) (\<lambda>bytes.
       if bytes \<noteq> input then Inl SyncProtocol else Inr value))"

definition object_exact :: "json \<Rightarrow> string list \<Rightarrow> sync_error + json_map" where
  "object_exact value keys =
     bindR (protocol_err (into_object value)) (\<lambda>object.
       if length object \<noteq> length keys \<or> list_ex (\<lambda>key. key \<notin> set keys) (obj_keys object)
       then Inl SyncProtocol else Inr object)"

definition sync_take :: "json_map \<Rightarrow> string \<Rightarrow> sync_error + (json \<times> json_map)" where
  "sync_take object key = protocol_err (take_required object key)"

definition sync_string :: "json_map \<Rightarrow> string \<Rightarrow> sync_error + (string \<times> json_map)" where
  "sync_string object key =
     bindR (sync_take object key) (\<lambda>(value, object).
     bindR (protocol_err (into_string value)) (\<lambda>text. Inr (text, object)))"

definition sync_text ::
  "(string \<Rightarrow> 'e + 'a) \<Rightarrow> json_map \<Rightarrow> string \<Rightarrow> sync_error + ('a \<times> json_map)" where
  "sync_text parse object key =
     bindR (sync_string object key) (\<lambda>(text, object).
     bindR (protocol_err (parse text)) (\<lambda>x. Inr (x, object)))"

definition sync_version :: "json_map \<Rightarrow> sync_error + json_map" where
  "sync_version object =
     bindR (sync_take object ''protocol_version'') (\<lambda>(value, object).
       if value_as_u64 value \<noteq> Some SYNC_PROTOCOL_VERSION
       then Inl SyncUnsupportedVersion else Inr object)"

definition usize_value :: "json_map \<Rightarrow> string \<Rightarrow> sync_error + (nat \<times> json_map)" where
  "usize_value object key =
     bindR (sync_take object key) (\<lambda>(value, object).
     bindR (ok_or (value_as_u64 value) SyncProtocol) (\<lambda>n.
       if n < usize_limit then Inr (n, object) else Inl SyncLimitExceeded))"

fun sync_array :: "json \<Rightarrow> sync_error + json list" where
  "sync_array (JArray values) = Inr values"
| "sync_array _ = Inl SyncProtocol"

definition sync_ids :: "env \<Rightarrow> json \<Rightarrow> sync_error + event_id list" where
  "sync_ids E value =
     bindR (sync_array value) (collectR (\<lambda>v.
       bindR (protocol_err (into_string v)) (\<lambda>text. protocol_err (event_id_of_text E text))))"

fun optional_string :: "json \<Rightarrow> sync_error + string option" where
  "optional_string JNull = Inr None"
| "optional_string (JString value) = Inr (Some value)"
| "optional_string _ = Inl SyncProtocol"

fun json_of_option :: "string option \<Rightarrow> json" where
  "json_of_option None = JNull"
| "json_of_option (Some value) = JString value"

definition id_array :: "env \<Rightarrow> event_id list \<Rightarrow> json" where
  "id_array E ids = JArray (map (\<lambda>i. JString (event_id_text E i)) ids)"

definition validate_sorted_heads :: "env \<Rightarrow> event_id list \<Rightarrow> bool \<Rightarrow> sync_error + unit" where
  "validate_sorted_heads E heads allow_empty =
     (if (\<not> allow_empty \<and> heads = []) \<or> windows2_any (\<lambda>a b. event_id_text E b \<le> event_id_text E a) heads
      then Inl SyncProtocol else Inr ())"

definition validate_refs :: "advertised_ref list \<Rightarrow> sync_error + unit" where
  "validate_refs refs =
     (if length refs > MAX_BUNDLE_REFS \<or> windows2_any (\<lambda>a b. ar_name b \<le> ar_name a) refs \<or>
         list_ex (\<lambda>r. ar_namespace r \<noteq> LocalNamespace) refs
      then Inl SyncProtocol else Inr ())"

section \<open>Fingerprints\<close>

definition sync_derive :: "env \<Rightarrow> string \<Rightarrow> json \<Rightarrow> sync_error + bytes" where
  "sync_derive E domain value =
     bindR (protocol_err (canonicalize E value)) (\<lambda>bytes. Inr (blake3_derive E domain bytes))"

definition encode_hash :: "env \<Rightarrow> string \<Rightarrow> bytes \<Rightarrow> string" where
  "encode_hash E tag hash = tag @ b64_encode E hash"

definition requested_head_fingerprint :: "env \<Rightarrow> context_id \<Rightarrow> event_id list \<Rightarrow> sync_error + string" where
  "requested_head_fingerprint E c heads =
     bindR (validate_sorted_heads E heads False) (\<lambda>_.
     bindR (sync_derive E HEADS_HASH_CONTEXT (JObject (obj_of
       [(''context'', JString (context_id_text E c)),
        (''protocol_version'', JNumber (PosInt SYNC_PROTOCOL_VERSION)),
        (''requested_heads'', id_array E heads)]))) (\<lambda>hash.
       Inr (encode_hash E ''heads1_'' hash)))"

definition limits_json :: "pull_limits \<Rightarrow> json" where
  "limits_json l = JObject (obj_of
     [(''max_bundle_bytes'', JNumber (PosInt (pul_max_bundle_bytes l))),
      (''max_events'', JNumber (PosInt (pul_max_events l)))])"

definition plan_fingerprint ::
  "env \<Rightarrow> context_id \<Rightarrow> event_id list \<Rightarrow> event_id list \<Rightarrow> pull_limits \<Rightarrow> sync_error + bytes" where
  "plan_fingerprint E c requested known l =
     sync_derive E PLAN_HASH_CONTEXT (JObject (obj_of
       [(''context'', JString (context_id_text E c)),
        (''effective_known_heads'', id_array E known),
        (''limits'', limits_json l),
        (''protocol_version'', JNumber (PosInt SYNC_PROTOCOL_VERSION)),
        (''requested_heads'', id_array E requested)]))"

section \<open>The continuation cursor\<close>

text \<open>\<open>u64::to_be_bytes\<close> and \<open>u64::from_be_bytes\<close>.\<close>

fun be_bytes :: "nat \<Rightarrow> nat \<Rightarrow> bytes" where
  "be_bytes 0 n = []"
| "be_bytes (Suc k) n = be_bytes k (n div 256) @ [of_nat n]"

definition be_value :: "bytes \<Rightarrow> nat" where
  "be_value b = foldl (\<lambda>a x. a * 256 + unat x) 0 b"

definition encode_cursor :: "env \<Rightarrow> nat \<Rightarrow> bytes \<Rightarrow> sync_error + string" where
  "encode_cursor E offset fingerprint =
     (if offset \<ge> 2 ^ 64 then Inl SyncLimitExceeded
      else Inr (''cursor1_'' @ b64_encode E (be_bytes 8 offset @ fingerprint)))"

definition decode_cursor :: "env \<Rightarrow> string \<Rightarrow> sync_error + (nat \<times> bytes)" where
  "decode_cursor E text =
     (if take 8 text \<noteq> ''cursor1_'' then Inl SyncPaginationConflict
      else bindR (ok_or (b64_decode E (drop 8 text)) SyncPaginationConflict) (\<lambda>decoded.
        if length decoded \<noteq> 40 then Inl SyncPaginationConflict
        else
          let offset = be_value (take 8 decoded); fingerprint = drop 8 decoded in
          bindR (encode_cursor E offset fingerprint) (\<lambda>again.
            if again \<noteq> text then Inl SyncPaginationConflict else Inr (offset, fingerprint))))"

section \<open>The pull request\<close>

record export_request =
  xr_context :: context_id
  xr_requested_heads :: "event_id list"
  xr_known_heads :: "event_id list"
  xr_cursor :: "string option"
  xr_limits :: pull_limits

definition export_request_new ::
  "env \<Rightarrow> context_id \<Rightarrow> event_id list \<Rightarrow> event_id list \<Rightarrow> string option \<Rightarrow> pull_limits \<Rightarrow>
    sync_error + export_request" where
  "export_request_new E c requested known cursor l =
     bindR (validate_sorted_heads E requested False) (\<lambda>_.
     bindR (validate_sorted_heads E known True) (\<lambda>_.
       if length requested > MAX_BUNDLE_REFS \<or> length known > MAX_BUNDLE_REFS
       then Inl SyncLimitExceeded
       else Inr \<lparr>xr_context = c, xr_requested_heads = requested, xr_known_heads = known,
                 xr_cursor = cursor, xr_limits = l\<rparr>))"

definition export_request_json :: "env \<Rightarrow> export_request \<Rightarrow> json" where
  "export_request_json E r = JObject (obj_of
     [(''context'', JString (context_id_text E (xr_context r))),
      (''cursor'', json_of_option (xr_cursor r)),
      (''known_heads'', id_array E (xr_known_heads r)),
      (''limits'', limits_json (xr_limits r)),
      (''protocol_version'', JNumber (PosInt SYNC_PROTOCOL_VERSION)),
      (''requested_heads'', id_array E (xr_requested_heads r))])"

definition export_request_to_wire :: "env \<Rightarrow> export_request \<Rightarrow> sync_error + bytes" where
  "export_request_to_wire E r = protocol_err (canonicalize E (export_request_json E r))"

definition parse_request_limits :: "json \<Rightarrow> sync_error + pull_limits" where
  "parse_request_limits value =
     bindR (object_exact value [''max_events'', ''max_bundle_bytes'']) (\<lambda>limits.
     bindR (usize_value limits ''max_events'') (\<lambda>(max_events, limits).
     bindR (usize_value limits ''max_bundle_bytes'') (\<lambda>(max_bundle_bytes, _).
       pull_limits_new max_events max_bundle_bytes MAX_PULL_PAGES)))"

definition export_request_from_wire :: "env \<Rightarrow> bytes \<Rightarrow> sync_error + export_request" where
  "export_request_from_wire E input =
     bindR (strict_protocol E input) (\<lambda>value.
     bindR (object_exact value [''protocol_version'', ''context'', ''requested_heads'',
       ''known_heads'', ''cursor'', ''limits'']) (\<lambda>object.
     bindR (sync_version object) (\<lambda>object.
     bindR (sync_text (context_id_of_text E) object ''context'') (\<lambda>(context, object).
     bindR (sync_take object ''requested_heads'') (\<lambda>(requested_value, object).
     bindR (sync_ids E requested_value) (\<lambda>requested.
     bindR (sync_take object ''known_heads'') (\<lambda>(known_value, object).
     bindR (sync_ids E known_value) (\<lambda>known.
     bindR (sync_take object ''cursor'') (\<lambda>(cursor_value, object).
     bindR (optional_string cursor_value) (\<lambda>cursor.
     bindR (sync_take object ''limits'') (\<lambda>(limits_value, object).
     bindR (parse_request_limits limits_value) (\<lambda>limits.
     bindR (export_request_new E context requested known cursor limits) (\<lambda>request.
     bindR (export_request_to_wire E request) (\<lambda>wire.
       if wire \<noteq> input then Inl SyncProtocol else Inr request))))))))))))))"

section \<open>The snapshot of refs\<close>

record ref_snapshot =
  rs_context :: context_id
  rs_refs :: "advertised_ref list"
  rs_fingerprint :: string

definition snapshot_ref_json :: "env \<Rightarrow> advertised_ref \<Rightarrow> json" where
  "snapshot_ref_json E r = JObject (obj_of
     [(''head'', JString (event_id_text E (ar_head r))), (''name'', JString (ar_name r)),
      (''namespace'', JString ''local'')])"

definition refs_fingerprint_fields :: "env \<Rightarrow> context_id \<Rightarrow> advertised_ref list \<Rightarrow> (string \<times> json) list" where
  "refs_fingerprint_fields E c refs =
     [(''context'', JString (context_id_text E c)),
      (''protocol_version'', JNumber (PosInt SYNC_PROTOCOL_VERSION)),
      (''refs'', JArray (map (snapshot_ref_json E) refs))]"

definition refs_fingerprint_value :: "env \<Rightarrow> context_id \<Rightarrow> advertised_ref list \<Rightarrow> json" where
  "refs_fingerprint_value E c refs = JObject (obj_of (refs_fingerprint_fields E c refs))"

definition ref_snapshot_new :: "env \<Rightarrow> context_id \<Rightarrow> advertised_ref list \<Rightarrow> sync_error + ref_snapshot" where
  "ref_snapshot_new E c refs =
     bindR (validate_refs refs) (\<lambda>_.
     bindR (sync_derive E REFS_HASH_CONTEXT (refs_fingerprint_value E c refs)) (\<lambda>hash.
       Inr \<lparr>rs_context = c, rs_refs = refs, rs_fingerprint = encode_hash E ''refs1_'' hash\<rparr>))"

definition ref_snapshot_json :: "env \<Rightarrow> ref_snapshot \<Rightarrow> json" where
  "ref_snapshot_json E s = JObject (obj_insert ''snapshot_fingerprint'' (JString (rs_fingerprint s))
     (obj_of (refs_fingerprint_fields E (rs_context s) (rs_refs s))))"

definition ref_snapshot_to_wire :: "env \<Rightarrow> ref_snapshot \<Rightarrow> sync_error + bytes" where
  "ref_snapshot_to_wire E s = protocol_err (canonicalize E (ref_snapshot_json E s))"

definition parse_snapshot_ref :: "env \<Rightarrow> json \<Rightarrow> sync_error + advertised_ref" where
  "parse_snapshot_ref E value =
     bindR (object_exact value [''namespace'', ''name'', ''head'']) (\<lambda>object.
     bindR (sync_string object ''namespace'') (\<lambda>(namespace, object).
       if namespace \<noteq> ''local'' then Inl SyncProtocol
       else
         bindR (sync_text name_from_str object ''name'') (\<lambda>(name, object).
         bindR (sync_text (event_id_of_text E) object ''head'') (\<lambda>(head, object).
           Inr \<lparr>ar_namespace = LocalNamespace, ar_name = name, ar_head = head\<rparr>))))"

definition parse_refs :: "env \<Rightarrow> json \<Rightarrow> sync_error + advertised_ref list" where
  "parse_refs E value =
     bindR (sync_array value) (\<lambda>values.
     bindR (collectR (parse_snapshot_ref E) values) (\<lambda>refs.
     bindR (validate_refs refs) (\<lambda>_. Inr refs)))"

definition ref_snapshot_from_wire :: "env \<Rightarrow> bytes \<Rightarrow> sync_error + ref_snapshot" where
  "ref_snapshot_from_wire E input =
     bindR (strict_protocol E input) (\<lambda>value.
     bindR (object_exact value [''protocol_version'', ''context'', ''refs'', ''snapshot_fingerprint'']) (\<lambda>object.
     bindR (sync_version object) (\<lambda>object.
     bindR (sync_text (context_id_of_text E) object ''context'') (\<lambda>(context, object).
     bindR (sync_take object ''refs'') (\<lambda>(refs_value, object).
     bindR (parse_refs E refs_value) (\<lambda>refs.
     bindR (sync_string object ''snapshot_fingerprint'') (\<lambda>(fingerprint, object).
     bindR (ref_snapshot_new E context refs) (\<lambda>snapshot.
       if rs_fingerprint snapshot \<noteq> fingerprint then Inl SyncProtocol
       else bindR (ref_snapshot_to_wire E snapshot) (\<lambda>wire.
         if wire \<noteq> input then Inl SyncProtocol else Inr snapshot)))))))))"

section \<open>The page response\<close>

record export_response =
  xp_context :: context_id
  xp_head_fingerprint :: string
  xp_bundle :: bundle_v1
  xp_next_cursor :: "string option"
  xp_complete :: bool

definition export_response_new ::
  "env \<Rightarrow> context_id \<Rightarrow> event_id list \<Rightarrow> bundle_v1 \<Rightarrow> string option \<Rightarrow> sync_error + export_response" where
  "export_response_new E c requested bundle next_cursor =
     (if bundle_context bundle \<noteq> c \<or> bundle_refs bundle \<noteq> [] then Inl SyncProtocol
      else bindR (requested_head_fingerprint E c requested) (\<lambda>fingerprint.
        Inr \<lparr>xp_context = c, xp_head_fingerprint = fingerprint, xp_bundle = bundle,
             xp_next_cursor = next_cursor, xp_complete = (next_cursor = None)\<rparr>))"

definition export_response_json :: "env \<Rightarrow> export_response \<Rightarrow> json \<Rightarrow> json" where
  "export_response_json E r bundle = JObject (obj_of
     [(''bundle'', bundle), (''complete'', JBool (xp_complete r)),
      (''context'', JString (context_id_text E (xp_context r))),
      (''next_cursor'', json_of_option (xp_next_cursor r)),
      (''protocol_version'', JNumber (PosInt SYNC_PROTOCOL_VERSION)),
      (''requested_head_fingerprint'', JString (xp_head_fingerprint r))])"

definition export_response_to_wire :: "env \<Rightarrow> export_response \<Rightarrow> sync_error + bytes" where
  "export_response_to_wire E r =
     bindR (map_err SyncStore (bundle_to_wire E (xp_bundle r))) (\<lambda>bundle_wire.
     bindR (map_err (\<lambda>_. SyncInternal) (from_slice_value (json_reader E) bundle_wire)) (\<lambda>bundle.
       protocol_err (canonicalize E (export_response_json E r bundle))))"

definition export_response_from_wire :: "env \<Rightarrow> bytes \<Rightarrow> sync_error + export_response" where
  "export_response_from_wire E input =
     bindR (strict_protocol E input) (\<lambda>value.
     bindR (object_exact value [''protocol_version'', ''context'', ''requested_head_fingerprint'',
       ''bundle'', ''next_cursor'', ''complete'']) (\<lambda>object.
     bindR (sync_version object) (\<lambda>object.
     bindR (sync_text (context_id_of_text E) object ''context'') (\<lambda>(context, object).
     bindR (sync_string object ''requested_head_fingerprint'') (\<lambda>(fingerprint, object).
     bindR (sync_take object ''bundle'') (\<lambda>(bundle_value, object).
     bindR (protocol_err (canonicalize E bundle_value)) (\<lambda>bundle_wire.
     bindR (map_err SyncStore (bundle_from_wire E bundle_wire)) (\<lambda>bundle.
     bindR (sync_take object ''next_cursor'') (\<lambda>(cursor_value, object).
     bindR (optional_string cursor_value) (\<lambda>next_cursor.
     bindR (sync_take object ''complete'') (\<lambda>(complete_value, object).
     bindR (ok_or (value_as_bool complete_value) SyncProtocol) (\<lambda>complete.
       let response = \<lparr>xp_context = context, xp_head_fingerprint = fingerprint, xp_bundle = bundle,
             xp_next_cursor = next_cursor, xp_complete = complete\<rparr> in
       if bundle_context bundle \<noteq> context \<or> bundle_refs bundle \<noteq> [] \<or>
          complete \<noteq> (next_cursor = None)
       then Inl SyncProtocol
       else bindR (export_response_to_wire E response) (\<lambda>wire.
         if wire \<noteq> input then Inl SyncProtocol else Inr response)))))))))))))"

end
