(* ===== verification/Http_Server.thy ===== *)
theory Http_Server
  imports Sync_Protocol
begin

text \<open>
  The server side of \<open>src/src/http.rs\<close>: bearer tokens, transport limits, the guard every request
  passes, the two handlers and the mapping of errors to responses. Parameters of the model: the
  router of the HTTP library, the keyed hash, the environment and the file system as the code
  observes them.
\<close>

section \<open>Constants and limits\<close>

definition AUTH_TOKEN_BYTES :: nat where "AUTH_TOKEN_BYTES = 32"
definition MAX_HTTP_HEADERS :: nat where "MAX_HTTP_HEADERS = 96"
definition MAX_HTTP_HEADER_BYTES :: nat where "MAX_HTTP_HEADER_BYTES = 16384"
definition MAX_HTTP_HEADER_VALUE_BYTES :: nat where "MAX_HTTP_HEADER_VALUE_BYTES = 8192"
definition MAX_REQUEST_TARGET_BYTES :: nat where "MAX_REQUEST_TARGET_BYTES = 2048"
definition MAX_PULL_REQUEST_BODY_BYTES :: nat where "MAX_PULL_REQUEST_BODY_BYTES = 65536"
definition MAX_SYNC_RESPONSE_BODY_BYTES :: nat where "MAX_SYNC_RESPONSE_BODY_BYTES = 16842752"
definition MAX_CONCURRENT_HTTP_REQUESTS :: nat where "MAX_CONCURRENT_HTTP_REQUESTS = 16"
definition AUTH_HASH_CONTEXT :: string where "AUTH_HASH_CONTEXT = ''org.aaif.contextmesh.sync.auth.v1''"

record transport_limits =
  tl_max_request_body_bytes :: nat
  tl_max_response_body_bytes :: nat
  tl_max_concurrent_requests :: nat

definition transport_limits_new :: "nat \<Rightarrow> nat \<Rightarrow> nat \<Rightarrow> sync_error + transport_limits" where
  "transport_limits_new max_request_body_bytes max_response_body_bytes max_concurrent_requests =
     (if max_request_body_bytes = 0 \<or> max_request_body_bytes > MAX_PULL_REQUEST_BODY_BYTES \<or>
         max_response_body_bytes = 0 \<or> max_response_body_bytes > MAX_SYNC_RESPONSE_BODY_BYTES \<or>
         max_concurrent_requests = 0 \<or> max_concurrent_requests > MAX_CONCURRENT_HTTP_REQUESTS
      then Inl SyncInvalidConfig
      else Inr \<lparr>tl_max_request_body_bytes = max_request_body_bytes,
                tl_max_response_body_bytes = max_response_body_bytes,
                tl_max_concurrent_requests = max_concurrent_requests\<rparr>)"

definition default_transport_limits :: transport_limits where
  "default_transport_limits = \<lparr>tl_max_request_body_bytes = MAX_PULL_REQUEST_BODY_BYTES,
     tl_max_response_body_bytes = MAX_SYNC_RESPONSE_BODY_BYTES,
     tl_max_concurrent_requests = MAX_CONCURRENT_HTTP_REQUESTS\<rparr>"

section \<open>Bearer tokens\<close>

text \<open>What three looks at the token file show: before opening it, through the handle, and after
  reading it; \<open>None\<close> when the call fails.\<close>

record file_meta =
  fm_is_file :: bool
  fm_is_symlink :: bool
  fm_mode :: "32 word"
  fm_dev :: nat
  fm_ino :: nat
  fm_len :: nat

record token_file =
  tf_before :: "file_meta option"
  tf_opened :: "file_meta option"
  tf_content :: "bytes option"
  tf_after :: "file_meta option"

definition insecure_mode :: "file_meta \<Rightarrow> bool" where
  "insecure_mode m \<longleftrightarrow> and (fm_mode m) 0x3f \<noteq> 0"

definition load_token_file :: "token_file \<Rightarrow> sync_error + bytes" where
  "load_token_file file =
     bindR (ok_or (tf_before file) SyncTokenSource) (\<lambda>before.
       if \<not> fm_is_file before \<or> fm_is_symlink before \<or> insecure_mode before then Inl SyncTokenSource
       else bindR (ok_or (tf_opened file) SyncTokenSource) (\<lambda>opened.
         if \<not> fm_is_file opened \<or> fm_dev opened \<noteq> fm_dev before \<or> fm_ino opened \<noteq> fm_ino before \<or>
            insecure_mode opened
         then Inl SyncTokenSource
         else if fm_len opened \<noteq> 7 + 43 then Inl SyncTokenSource
         else bindR (ok_or (tf_content file) SyncTokenSource) (\<lambda>bytes.
           bindR (ok_or (tf_after file) SyncTokenSource) (\<lambda>after.
             if \<not> fm_is_file after \<or> fm_is_symlink after \<or> fm_dev after \<noteq> fm_dev opened \<or>
                fm_ino after \<noteq> fm_ino opened \<or> insecure_mode after
             then Inl SyncTokenSource else Inr bytes))))"

definition token_text :: "bytes \<Rightarrow> string" where
  "token_text b = map (\<lambda>w. char_of (unat w)) b"

text \<open>\<open>LoadedToken\<close> is the value of the authorization header.\<close>

definition loaded_token_parse :: "env \<Rightarrow> bytes \<Rightarrow> sync_error + bytes" where
  "loaded_token_parse E text =
     (if length text \<noteq> 7 + 43 \<or> take 7 text \<noteq> string_bytes ''token1_'' then Inl SyncTokenSource
      else bindR (ok_or (b64_decode E (token_text (drop 7 text))) SyncTokenSource) (\<lambda>decoded.
        if length decoded \<noteq> AUTH_TOKEN_BYTES \<or>
           string_bytes (b64_encode E decoded) \<noteq> drop 7 text
        then Inl SyncTokenSource
        else Inr (string_bytes ''Bearer '' @ text)))"

datatype token_source = EnvironmentToken string | FileToken token_file

definition token_load :: "env \<Rightarrow> (string \<Rightarrow> bytes option) \<Rightarrow> token_source \<Rightarrow> sync_error + bytes" where
  "token_load E getenv source =
     bindR (case source of
         EnvironmentToken name \<Rightarrow>
           if name = [] then Inl SyncTokenSource else ok_or (getenv name) SyncTokenSource
       | FileToken file \<Rightarrow> load_token_file file) (loaded_token_parse E)"

definition token_hash :: "env \<Rightarrow> bytes \<Rightarrow> bytes" where
  "token_hash E authorization = blake3_derive E AUTH_HASH_CONTEXT authorization"

section \<open>Requests and responses\<close>

text \<open>
  Header names are lower case, as the HTTP library stores them. The body is what reading it to
  the end yields: its bytes, an error of the connection, or nothing within the time limit.
\<close>

type_synonym headers = "(string \<times> bytes) list"

datatype request_body = Body bytes | BodyBroken | BodyStalled

record http_request =
  rq_method :: string
  rq_target :: "string option"
  rq_headers :: headers
  rq_body :: request_body

record http_response =
  rp_status :: nat
  rp_headers :: headers
  rp_body :: bytes

definition header_values :: "headers \<Rightarrow> string \<Rightarrow> bytes list" where
  "header_values hs name = map snd (filter (\<lambda>h. fst h = name) hs)"

definition first_value :: "headers \<Rightarrow> string \<Rightarrow> bytes option" where
  "first_value hs name = (case header_values hs name of [] \<Rightarrow> None | v # _ \<Rightarrow> Some v)"

text \<open>\<open>HeaderMap::insert\<close> replaces every value of the name.\<close>

definition set_header :: "string \<Rightarrow> bytes \<Rightarrow> http_response \<Rightarrow> http_response" where
  "set_header name v r = r\<lparr>rp_headers := filter (\<lambda>h. fst h \<noteq> name) (rp_headers r) @ [(name, v)]\<rparr>"

text \<open>\<open>HeaderValue::to_str\<close> followed by \<open>str::parse\<close> to an unsigned 64-bit integer.\<close>

definition visible_ascii :: "bytes \<Rightarrow> bool" where
  "visible_ascii b \<longleftrightarrow> (\<forall>x \<in> set b. (32 \<le> x \<and> x < 127) \<or> x = 9)"

definition digit_byte :: "byte \<Rightarrow> bool" where
  "digit_byte x \<longleftrightarrow> 48 \<le> x \<and> x \<le> 57"

definition parse_unsigned :: "bytes \<Rightarrow> nat option" where
  "parse_unsigned b =
     (let digits = (if 2 \<le> length b \<and> hd b = 43 then tl b else b);
          n = foldl (\<lambda>a x. a * 10 + unat (x - 48)) 0 digits
      in if digits \<noteq> [] \<and> list_all digit_byte digits \<and> n < 2 ^ 64 then Some n else None)"

definition header_number :: "bytes \<Rightarrow> nat option" where
  "header_number b = (if visible_ascii b then parse_unsigned b else None)"

definition json_response :: "nat \<Rightarrow> bytes \<Rightarrow> http_response" where
  "json_response status wire = \<lparr>rp_status = status,
     rp_headers = [(''content-type'', string_bytes ''application/json''),
                   (''connection'', string_bytes ''close'')],
     rp_body = wire\<rparr>"

definition default_request_id :: string where
  "default_request_id = ''req1_AAAAAAAAAAAAAAAAAAAAAA''"

definition error_json :: "string \<Rightarrow> string \<Rightarrow> json" where
  "error_json code rid = JObject (obj_of
     [(''error'', JObject (obj_of [(''code'', JString code), (''request_id'', JString rid)])),
      (''protocol_version'', JNumber (PosInt SYNC_PROTOCOL_VERSION))])"

definition error_fallback :: bytes where
  "error_fallback = string_bytes ''{\"error\":{\"code\":\"internal\",\"request_id\":\"req1_AAAAAAAAAAAAAAAAAAAAAA\"},\"protocol_version\":1}''"

definition error_response :: "env \<Rightarrow> nat \<Rightarrow> string \<Rightarrow> string option \<Rightarrow> http_response" where
  "error_response E status code rid =
     (let request_id = (case rid of Some x \<Rightarrow> x | None \<Rightarrow> default_request_id);
          wire = (case canonicalize E (error_json code request_id) of Inr w \<Rightarrow> w | Inl _ \<Rightarrow> error_fallback);
          response = json_response status wire
      in if status = 401 then set_header ''www-authenticate'' (string_bytes ''Bearer'') response
         else response)"

definition http_store_error :: "env \<Rightarrow> store_error \<Rightarrow> string \<Rightarrow> http_response" where
  "http_store_error E err rid =
     (case err of
        ContextUnknown \<Rightarrow> error_response E 404 ''not_found'' (Some rid)
      | ParentMissing _ \<Rightarrow> error_response E 404 ''not_found'' (Some rid)
      | BundleLimitExceeded \<Rightarrow> error_response E 413 ''limit_exceeded'' (Some rid)
      | ProjectionLimitExceeded \<Rightarrow> error_response E 413 ''limit_exceeded'' (Some rid)
      | StoreLimitExceeded \<Rightarrow> error_response E 413 ''limit_exceeded'' (Some rid)
      | BundleOrder \<Rightarrow> error_response E 409 ''pagination_conflict'' (Some rid)
      | DatabaseUnavailable \<Rightarrow> error_response E 503 ''unavailable'' (Some rid)
      | IndeterminateCommit \<Rightarrow> error_response E 503 ''unavailable'' (Some rid)
      | _ \<Rightarrow> error_response E 500 ''internal'' (Some rid))"

definition http_sync_error :: "env \<Rightarrow> sync_error \<Rightarrow> string \<Rightarrow> http_response" where
  "http_sync_error E err rid =
     (case err of
        SyncUnsupportedVersion \<Rightarrow> error_response E 400 ''unsupported_version'' (Some rid)
      | SyncLimitExceeded \<Rightarrow> error_response E 413 ''limit_exceeded'' (Some rid)
      | SyncInvalidConfig \<Rightarrow> error_response E 413 ''limit_exceeded'' (Some rid)
      | SyncPaginationConflict \<Rightarrow> error_response E 409 ''pagination_conflict'' (Some rid)
      | SyncTimeout \<Rightarrow> error_response E 408 ''timeout'' (Some rid)
      | SyncStore e \<Rightarrow> http_store_error E e rid
      | SyncProtocol \<Rightarrow> error_response E 400 ''malformed_request'' (Some rid)
      | _ \<Rightarrow> error_response E 500 ''internal'' (Some rid))"

section \<open>Header checks\<close>

text \<open>The loop of \<open>headers_exceed\<close>: \<open>None\<close> when it returns early.\<close>

fun header_total :: "headers \<Rightarrow> nat \<Rightarrow> nat option" where
  "header_total [] acc = Some acc"
| "header_total ((name, v) # hs) acc =
     (if length v > MAX_HTTP_HEADER_VALUE_BYTES then None
      else case checked_add acc (length name) of
        None \<Rightarrow> None
      | Some next_total \<Rightarrow>
          (case checked_add next_total (length v) of
             None \<Rightarrow> None
           | Some next_total \<Rightarrow> header_total hs next_total))"

definition headers_exceed :: "headers \<Rightarrow> bool" where
  "headers_exceed hs \<longleftrightarrow>
     (if length hs > MAX_HTTP_HEADERS then True
      else case header_total hs 0 of None \<Rightarrow> True | Some acc \<Rightarrow> acc > MAX_HTTP_HEADER_BYTES)"

definition authenticated :: "env \<Rightarrow> headers \<Rightarrow> bytes \<Rightarrow> bool" where
  "authenticated E hs expected \<longleftrightarrow>
     (case header_values hs ''authorization'' of
        [v] \<Rightarrow> blake3_derive E AUTH_HASH_CONTEXT v = expected
      | _ \<Rightarrow> False)"

definition has_body :: "headers \<Rightarrow> bool" where
  "has_body hs \<longleftrightarrow>
     (case first_value hs ''content-length'' of
        None \<Rightarrow> False
      | Some v \<Rightarrow> (case header_number v of None \<Rightarrow> False | Some n \<Rightarrow> n \<noteq> 0)) \<or>
     header_values hs ''transfer-encoding'' \<noteq> []"

definition json_content_type :: "headers \<Rightarrow> bool" where
  "json_content_type hs \<longleftrightarrow> length (header_values hs ''content-type'') = 1 \<and>
     first_value hs ''content-type'' = Some (string_bytes ''application/json'')"

definition content_length_over :: "headers \<Rightarrow> nat \<Rightarrow> bool" where
  "content_length_over hs limit \<longleftrightarrow>
     (case header_values hs ''content-length'' of
        [] \<Rightarrow> False
      | [v] \<Rightarrow> (case header_number v of None \<Rightarrow> True | Some n \<Rightarrow> n > limit)
      | _ \<Rightarrow> True)"

section \<open>Handlers\<close>

definition refs_target :: string where "refs_target = ''/v1/refs?context=''"

definition handle_get_refs :: "env \<Rightarrow> db \<Rightarrow> string \<Rightarrow> http_request \<Rightarrow> http_response" where
  "handle_get_refs E d rid request =
     (if rq_method request \<noteq> ''GET'' \<or> has_body (rq_headers request)
      then error_response E 400 ''malformed_request'' (Some rid)
      else case rq_target request of
        None \<Rightarrow> error_response E 400 ''malformed_request'' (Some rid)
      | Some raw \<Rightarrow>
          if take (length refs_target) raw \<noteq> refs_target
          then error_response E 400 ''malformed_request'' (Some rid)
          else
            let context_text = drop (length refs_target) raw in
            if context_text = [] \<or> CHR ''&'' \<in> set context_text \<or> CHR ''%'' \<in> set context_text
            then error_response E 400 ''malformed_request'' (Some rid)
            else case context_id_of_text E context_text of
              Inl _ \<Rightarrow> error_response E 400 ''malformed_request'' (Some rid)
            | Inr context \<Rightarrow>
                (case sync_local_ref_snapshot E d context of
                   Inl err \<Rightarrow> http_store_error E err rid
                 | Inr rows \<Rightarrow>
                     let refs = map (\<lambda>item. \<lparr>ar_namespace = LocalNamespace, ar_name = ref_name item,
                           ar_head = ref_head item\<rparr>) rows in
                     (case bindR (ref_snapshot_new E context refs) (ref_snapshot_to_wire E) of
                        Inr wire \<Rightarrow> json_response 200 wire
                      | Inl err \<Rightarrow> http_sync_error E err rid)))"

text \<open>\<open>to_bytes\<close> with a limit one above the largest accepted body, within the read timeout.\<close>

definition read_body :: "request_body \<Rightarrow> nat \<Rightarrow> (nat \<times> string) + bytes" where
  "read_body body limit =
     (case body of
        BodyStalled \<Rightarrow> Inl (408, ''timeout'')
      | BodyBroken \<Rightarrow> Inl (413, ''limit_exceeded'')
      | Body b \<Rightarrow>
          if length b > min (limit + 1) (usize_limit - 1) then Inl (413, ''limit_exceeded'')
          else Inr b)"

definition requested_offset :: "env \<Rightarrow> string option \<Rightarrow> sync_error + (nat \<times> bytes option)" where
  "requested_offset E cursor =
     (case cursor of
        Some value \<Rightarrow> bindR (decode_cursor E value) (\<lambda>(offset, fingerprint). Inr (offset, Some fingerprint))
      | None \<Rightarrow> Inr (0, None))"

definition next_page_cursor :: "env \<Rightarrow> nat option \<Rightarrow> bytes \<Rightarrow> sync_error + string option" where
  "next_page_cursor E next_offset fingerprint =
     (case next_offset of
        None \<Rightarrow> Inr None
      | Some n \<Rightarrow> bindR (encode_cursor E n fingerprint) (\<lambda>cursor. Inr (Some cursor)))"

text \<open>The part of \<open>post_export\<close> after the body has been read.\<close>

definition answer_export :: "env \<Rightarrow> transport_limits \<Rightarrow> db \<Rightarrow> string \<Rightarrow> bytes \<Rightarrow> http_response" where
  "answer_export E limits d rid body =
     (case export_request_from_wire E body of
        Inl err \<Rightarrow> http_sync_error E err rid
      | Inr export \<Rightarrow>
        (case requested_offset E (xr_cursor export) of
           Inl err \<Rightarrow> http_sync_error E err rid
         | Inr (offset, supplied) \<Rightarrow>
           (case export_sync_page E d (xr_context export) (xr_requested_heads export)
               (xr_known_heads export) offset (pul_max_events (xr_limits export))
               (pul_max_bundle_bytes (xr_limits export)) of
              Inl err \<Rightarrow> http_store_error E err rid
            | Inr page \<Rightarrow>
              (case plan_fingerprint E (xr_context export) (xr_requested_heads export)
                  (page_known page) (xr_limits export) of
                 Inl err \<Rightarrow> http_sync_error E err rid
               | Inr fingerprint \<Rightarrow>
                 if supplied \<noteq> None \<and> supplied \<noteq> Some fingerprint
                 then error_response E 409 ''pagination_conflict'' (Some rid)
                 else
                   (case next_page_cursor E (page_next page) fingerprint of
                      Inl err \<Rightarrow> http_sync_error E err rid
                    | Inr next_cursor \<Rightarrow>
                      (case bindR (export_response_new E (xr_context export)
                          (xr_requested_heads export) (page_bundle page) next_cursor)
                          (export_response_to_wire E) of
                         Inl err \<Rightarrow> http_sync_error E err rid
                       | Inr wire \<Rightarrow>
                           if length wire \<le> tl_max_response_body_bytes limits
                           then json_response 200 wire
                           else error_response E 413 ''limit_exceeded'' (Some rid)))))))"

definition handle_post_export ::
  "env \<Rightarrow> transport_limits \<Rightarrow> db \<Rightarrow> string \<Rightarrow> http_request \<Rightarrow> http_response" where
  "handle_post_export E limits d rid request =
     (if rq_method request \<noteq> ''POST'' \<or> \<not> json_content_type (rq_headers request)
      then error_response E 400 ''malformed_request'' (Some rid)
      else if content_length_over (rq_headers request) (tl_max_request_body_bytes limits)
      then error_response E 413 ''limit_exceeded'' (Some rid)
      else case read_body (rq_body request) (tl_max_request_body_bytes limits) of
        Inl (status, code) \<Rightarrow> error_response E status code (Some rid)
      | Inr body \<Rightarrow>
          if length body > tl_max_request_body_bytes limits
          then error_response E 413 ''limit_exceeded'' (Some rid)
          else answer_export E limits d rid body)"

section \<open>The guard\<close>

text \<open>
  \<open>router\<close> is the HTTP library's choice of handler for a request, \<open>keyed_hash\<close> the keyed hash of
  the hashing library.
\<close>

datatype endpoint = RefsEndpoint | ExportEndpoint | NotFoundEndpoint | MethodNotAllowedEndpoint

record app_state =
  as_auth_hash :: bytes
  as_seed :: bytes
  as_counter :: nat
  as_permits :: nat
  as_limits :: transport_limits

definition app_state_new :: "bytes \<Rightarrow> transport_limits \<Rightarrow> bytes option \<Rightarrow> sync_error + app_state" where
  "app_state_new auth_hash limits entropy =
     bindR (ok_or entropy SyncInternal) (\<lambda>seed.
       Inr \<lparr>as_auth_hash = auth_hash, as_seed = seed, as_counter = 0,
            as_permits = tl_max_concurrent_requests limits, as_limits = limits\<rparr>)"

definition next_request_id ::
  "env \<Rightarrow> (bytes \<Rightarrow> bytes \<Rightarrow> bytes) \<Rightarrow> app_state \<Rightarrow> (string \<times> app_state) option" where
  "next_request_id E keyed_hash s =
     (if as_counter s + 1 < 2 ^ 64
      then Some (''req1_'' @ b64_encode E (take 16 (keyed_hash (as_seed s) (be_bytes 8 (as_counter s)))),
                 s\<lparr>as_counter := as_counter s + 1\<rparr>)
      else None)"

text \<open>Up to the permit: a refusal (\<open>Inl\<close>) or the request's identifier, holding a permit.\<close>

definition guard_enter ::
  "env \<Rightarrow> (bytes \<Rightarrow> bytes \<Rightarrow> bytes) \<Rightarrow> http_request \<Rightarrow> app_state \<Rightarrow> (http_response + string) \<times> app_state" where
  "guard_enter E keyed_hash request s =
     (case next_request_id E keyed_hash s of
        None \<Rightarrow> (Inl (error_response E 500 ''internal'' None), s)
      | Some (rid, s) \<Rightarrow>
          if (case rq_target request of None \<Rightarrow> 0 | Some t \<Rightarrow> length t) > MAX_REQUEST_TARGET_BYTES
          then (Inl (error_response E 414 ''limit_exceeded'' (Some rid)), s)
          else if headers_exceed (rq_headers request)
          then (Inl (error_response E 431 ''limit_exceeded'' (Some rid)), s)
          else if \<not> authenticated E (rq_headers request) (as_auth_hash s)
          then (Inl (error_response E 401 ''authentication_failed'' (Some rid)), s)
          else if as_permits s = 0
          then (Inl (error_response E 503 ''unavailable'' (Some rid)), s)
          else (Inr rid, s\<lparr>as_permits := as_permits s - 1\<rparr>))"

definition run_endpoint ::
  "env \<Rightarrow> (http_request \<Rightarrow> endpoint) \<Rightarrow> transport_limits \<Rightarrow> db \<Rightarrow> string \<Rightarrow> http_request \<Rightarrow> http_response" where
  "run_endpoint E router limits d rid request =
     (case router request of
        RefsEndpoint \<Rightarrow> handle_get_refs E d rid request
      | ExportEndpoint \<Rightarrow> handle_post_export E limits d rid request
      | NotFoundEndpoint \<Rightarrow> error_response E 404 ''not_found'' (Some rid)
      | MethodNotAllowedEndpoint \<Rightarrow> error_response E 405 ''method_not_allowed'' (Some rid))"

text \<open>After the handler: its response, unless it ran out of time, and the permit returned.\<close>

definition guard_leave ::
  "env \<Rightarrow> (http_request \<Rightarrow> endpoint) \<Rightarrow> db \<Rightarrow> bool \<Rightarrow> string \<Rightarrow> http_request \<Rightarrow> app_state \<Rightarrow>
    http_response \<times> app_state" where
  "guard_leave E router d timed_out rid request s =
     (set_header ''connection'' (string_bytes ''close'')
        (if timed_out then error_response E 408 ''timeout'' (Some rid)
         else run_endpoint E router (as_limits s) d rid request),
      s\<lparr>as_permits := as_permits s + 1\<rparr>)"

text \<open>A request served with nothing else in progress.\<close>

definition serve_request ::
  "env \<Rightarrow> (bytes \<Rightarrow> bytes \<Rightarrow> bytes) \<Rightarrow> (http_request \<Rightarrow> endpoint) \<Rightarrow> db \<Rightarrow> bool \<Rightarrow> http_request \<Rightarrow> app_state \<Rightarrow>
    http_response \<times> app_state" where
  "serve_request E keyed_hash router d timed_out request s =
     (case guard_enter E keyed_hash request s of
        (Inl response, s) \<Rightarrow> (response, s)
      | (Inr rid, s) \<Rightarrow> guard_leave E router d timed_out rid request s)"

end
