(* ===== verification/Http_Client.thy ===== *)
theory Http_Client
  imports Http_Server
begin

text \<open>
  The client side of \<open>src/src/http.rs\<close>: endpoints, and the bounded transport of the pull client.
  What the network returns for a request is a parameter.
\<close>

section \<open>Endpoints\<close>

text \<open>A socket address as the code uses it: its text, and whether it is a loopback address.\<close>

record socket_addr =
  sa_text :: string
  sa_loopback :: bool

record peer_endpoint =
  pe_address :: socket_addr
  pe_acknowledged :: bool

definition NON_LOOPBACK_PLAINTEXT_WARNING :: string where
  "NON_LOOPBACK_PLAINTEXT_WARNING =
     ''warning: non-loopback plain HTTP has no confidentiality or server identity''"

definition endpoint_authority :: "string \<Rightarrow> sync_error + string" where
  "endpoint_authority text =
     (if take 7 text \<noteq> ''http://'' then Inl SyncInvalidEndpoint
      else
        let rest = drop 7 text;
            authority = (if rest \<noteq> [] \<and> last rest = CHR ''/'' then butlast rest else rest)
        in if authority = [] \<or> list_ex (\<lambda>c. c \<in> {CHR ''/'', CHR ''?'', CHR ''#'', CHR ''@''}) authority
           then Inl SyncInvalidEndpoint else Inr authority)"

definition endpoint_validate :: "peer_endpoint \<Rightarrow> sync_error + unit" where
  "endpoint_validate e =
     (if \<not> sa_loopback (pe_address e) \<and> \<not> pe_acknowledged e
      then Inl SyncExposureNotAcknowledged else Inr ())"

definition exposure_warning :: "peer_endpoint \<Rightarrow> string option" where
  "exposure_warning e =
     (if \<not> sa_loopback (pe_address e) then Some NON_LOOPBACK_PLAINTEXT_WARNING else None)"

section \<open>Replies\<close>

text \<open>
  A body arrives in chunks. The end of the list is the end of the body; a chunk may instead be
  a timeout or a failure the library reports, or nothing within the read timeout.
\<close>

datatype body_chunk = Chunk bytes | ChunkTimeout | ChunkFailed | ChunkStalled

record http_reply =
  hr_status :: nat
  hr_headers :: headers
  hr_chunks :: "body_chunk list"

datatype send_result = SendTimeout | SendFailed | Replied http_reply

definition status_error :: "nat \<Rightarrow> sync_error" where
  "status_error status =
     (if status = 401 then SyncAuthentication
      else if status = 408 then SyncTimeout
      else if status = 409 then SyncPaginationConflict
      else if status \<in> {413, 414, 431} then SyncLimitExceeded
      else if 300 \<le> status \<and> status < 400 then SyncProtocol
      else SyncTransport)"

fun read_chunks :: "nat \<Rightarrow> body_chunk list \<Rightarrow> bytes \<Rightarrow> sync_error + bytes" where
  "read_chunks limit [] body = Inr body"
| "read_chunks limit (Chunk chunk # chunks) body =
     (case checked_add (length body) (length chunk) of
        None \<Rightarrow> Inl SyncLimitExceeded
      | Some n \<Rightarrow>
          if n > limit then Inl SyncLimitExceeded else read_chunks limit chunks (body @ chunk))"
| "read_chunks limit (ChunkTimeout # chunks) body = Inl SyncTimeout"
| "read_chunks limit (ChunkFailed # chunks) body = Inl SyncTransport"
| "read_chunks limit (ChunkStalled # chunks) body = Inl SyncTimeout"

definition read_response :: "nat \<Rightarrow> http_reply \<Rightarrow> sync_error + bytes" where
  "read_response limit reply =
     (if \<not> (200 \<le> hr_status reply \<and> hr_status reply < 300) then Inl (status_error (hr_status reply))
      else if length (header_values (hr_headers reply) ''content-type'') \<noteq> 1 \<or>
              first_value (hr_headers reply) ''content-type'' \<noteq> Some (string_bytes ''application/json'')
      then Inl SyncProtocol
      else if content_length_over (hr_headers reply) limit then Inl SyncLimitExceeded
      else read_chunks limit (hr_chunks reply) [])"

section \<open>The transport\<close>

record http_client =
  hc_endpoint :: peer_endpoint
  hc_authorization :: bytes
  hc_response_limit :: nat

text \<open>\<open>built\<close>: whether the HTTP library could build its client.\<close>

definition http_client_new ::
  "env \<Rightarrow> (string \<Rightarrow> bytes option) \<Rightarrow> bool \<Rightarrow> peer_endpoint \<Rightarrow> token_source \<Rightarrow> nat \<Rightarrow> sync_error + http_client" where
  "http_client_new E getenv built endpoint source response_limit =
     bindR (endpoint_validate endpoint) (\<lambda>_.
       if response_limit = 0 \<or> response_limit > MAX_SYNC_RESPONSE_BODY_BYTES then Inl SyncInvalidConfig
       else bindR (token_load E getenv source) (\<lambda>authorization.
         if \<not> built then Inl SyncTransport
         else Inr \<lparr>hc_endpoint = endpoint, hc_authorization = authorization,
                   hc_response_limit = response_limit\<rparr>))"

text \<open>\<open>HeaderValue::from_bytes\<close> takes visible characters, opaque bytes and tabs.\<close>

definition header_value :: "http_client \<Rightarrow> sync_error + bytes" where
  "header_value client =
     (if \<forall>x \<in> set (hc_authorization client). (32 \<le> x \<and> x \<noteq> 127) \<or> x = 9
      then Inr (hc_authorization client) else Inl SyncTokenSource)"

definition exchange :: "http_client \<Rightarrow> (http_request \<Rightarrow> send_result) \<Rightarrow> http_request \<Rightarrow> sync_error + bytes" where
  "exchange client send request =
     (case send request of
        SendTimeout \<Rightarrow> Inl SyncTimeout
      | SendFailed \<Rightarrow> Inl SyncTransport
      | Replied reply \<Rightarrow> read_response (hc_response_limit client) reply)"

definition fetch_refs ::
  "env \<Rightarrow> http_client \<Rightarrow> (http_request \<Rightarrow> send_result) \<Rightarrow> context_id \<Rightarrow> sync_error + bytes" where
  "fetch_refs E client send c =
     bindR (header_value client) (\<lambda>authorization.
       exchange client send
         \<lparr>rq_method = ''GET'', rq_target = Some (refs_target @ context_id_text E c),
          rq_headers = [(''authorization'', authorization)], rq_body = Body []\<rparr>)"

definition send_export ::
  "http_client \<Rightarrow> (http_request \<Rightarrow> send_result) \<Rightarrow> bytes \<Rightarrow> sync_error + bytes" where
  "send_export client send wire =
     (if length wire > MAX_PULL_REQUEST_BODY_BYTES then Inl SyncLimitExceeded
      else bindR (header_value client) (\<lambda>authorization.
        exchange client send
          \<lparr>rq_method = ''POST'', rq_target = Some ''/v1/bundles/export'',
           rq_headers = [(''authorization'', authorization),
                         (''content-type'', string_bytes ''application/json'')],
           rq_body = Body wire\<rparr>))"

section \<open>What the reader of a body returns\<close>

lemma read_chunks_Inr:
  "read_chunks limit chunks body = Inr b \<Longrightarrow> length body \<le> limit \<Longrightarrow>
    length b \<le> limit \<and> (\<exists>parts. chunks = map Chunk parts \<and> b = body @ concat parts)"
proof (induction limit chunks body rule: read_chunks.induct)
  case (2 limit chunk chunks body)
  then obtain n where n: "checked_add (length body) (length chunk) = Some n" "n \<le> limit"
      "read_chunks limit chunks (body @ chunk) = Inr b"
    by (auto split: option.splits if_splits)
  have "length (body @ chunk) \<le> limit" using n by simp
  then obtain parts where "length b \<le> limit" "chunks = map Chunk parts" "b = (body @ chunk) @ concat parts"
    using "2.IH" [OF n(1) _ n(3)] n(2) by auto
  then show ?case by (intro conjI exI [of _ "chunk # parts"]) auto
qed auto

lemma read_chunks_complete:
  "length body + length (concat parts) \<le> limit \<Longrightarrow> limit < usize_limit \<Longrightarrow>
    read_chunks limit (map Chunk parts) body = Inr (body @ concat parts)"
  by (induction parts arbitrary: body) (auto simp: checked_add_def)

lemma read_response_Inr:
  assumes "read_response limit reply = Inr b"
  shows "length b \<le> limit" "200 \<le> hr_status reply" "hr_status reply < 300"
    "\<exists>parts. hr_chunks reply = map Chunk parts \<and> b = concat parts"
  using assms read_chunks_Inr [of limit "hr_chunks reply" "[]" b]
  by (auto simp: read_response_def split: if_splits)

end
