(* ===== verification/Pull_Client.thy ===== *)
theory Pull_Client
  imports Http_Client Store_Queries
begin

text \<open>
  The pull client of \<open>src/src/sync.rs\<close>: it fetches a peer's snapshot of refs, drains the pages of
  the missing history, importing each one, and replaces its memory of the peer's refs at the
  end. \<open>net k\<close> is what the network returns for the \<open>k\<close>-th request of a pull and \<open>oc k\<close> the
  outcome of its \<open>k\<close>-th commit, so a peer may answer anything.
\<close>

record pull_report =
  pr_pages :: nat
  pr_received :: nat
  pr_inserted :: nat
  pr_already_present :: nat
  pr_remote_refs_updated :: nat

record pull_config =
  pc_peer :: string
  pc_endpoint :: peer_endpoint
  pc_token :: token_source
  pc_context :: context_id
  pc_limits :: pull_limits
  pc_transport :: transport_limits

definition pull_client_new :: "pull_config \<Rightarrow> sync_error + pull_config" where
  "pull_client_new cfg =
     bindR (endpoint_validate (pc_endpoint cfg)) (\<lambda>_.
     bindR (pull_limits_new (pul_max_events (pc_limits cfg)) (pul_max_bundle_bytes (pc_limits cfg))
       (pul_max_pages (pc_limits cfg))) (\<lambda>_.
     bindR (transport_limits_new (tl_max_request_body_bytes (pc_transport cfg))
       (tl_max_response_body_bytes (pc_transport cfg))
       (tl_max_concurrent_requests (pc_transport cfg))) (\<lambda>_. Inr cfg)))"

definition sync_checked :: "nat \<Rightarrow> nat \<Rightarrow> sync_error + nat" where
  "sync_checked left right = ok_or (checked_add left right) SyncLimitExceeded"

text \<open>The variables of the page loop.\<close>

record pull_state =
  ps_report :: pull_report
  ps_cursor :: "string option"
  ps_offset :: nat
  ps_fingerprint :: "bytes option"

definition pull_start :: pull_state where
  "pull_start = \<lparr>ps_report = \<lparr>pr_pages = 0, pr_received = 0, pr_inserted = 0, pr_already_present = 0,
     pr_remote_refs_updated = 0\<rparr>, ps_cursor = None, ps_offset = 0, ps_fingerprint = None\<rparr>"

text \<open>The cursor of an incomplete page has to continue exactly where this page ended.\<close>

definition check_next_cursor ::
  "env \<Rightarrow> pull_state \<Rightarrow> export_response \<Rightarrow> sync_error + (nat \<times> bytes \<times> string) option" where
  "check_next_cursor E s response =
     (if xp_complete response then Inr None
      else bindR (ok_or (xp_next_cursor response) SyncProtocol) (\<lambda>next_cursor.
        bindR (decode_cursor E next_cursor) (\<lambda>(next_offset, fingerprint).
        bindR (ok_or (checked_add (ps_offset s) (length (bundle_events (xp_bundle response))))
          SyncLimitExceeded) (\<lambda>expected_next.
          if next_offset \<noteq> expected_next \<or> next_offset \<le> ps_offset s \<or>
             (ps_fingerprint s \<noteq> None \<and> ps_fingerprint s \<noteq> Some fingerprint)
          then Inl SyncProtocol
          else Inr (Some (next_offset, fingerprint, next_cursor))))))"

text \<open>One round up to the import: the request, the checked response, and where to go on.\<close>

definition pull_page ::
  "env \<Rightarrow> pull_config \<Rightarrow> http_client \<Rightarrow> (http_request \<Rightarrow> send_result) \<Rightarrow> event_id list \<Rightarrow> event_id list \<Rightarrow>
    string \<Rightarrow> pull_state \<Rightarrow> sync_error + (export_response \<times> (nat \<times> bytes \<times> string) option)" where
  "pull_page E cfg client send requested known expected_heads s =
     bindR (export_request_new E (pc_context cfg) requested known (ps_cursor s) (pc_limits cfg)) (\<lambda>request.
     bindR (export_request_to_wire E request) (\<lambda>request_wire.
     bindR (send_export client send request_wire) (\<lambda>response_wire.
     bindR (export_response_from_wire E response_wire) (\<lambda>response.
       if xp_context response \<noteq> pc_context cfg \<or> xp_head_fingerprint response \<noteq> expected_heads
       then Inl SyncProtocol
       else if bundle_events (xp_bundle response) = [] \<and> \<not> xp_complete response then Inl SyncProtocol
       else bindR (check_next_cursor E s response) (\<lambda>next_page. Inr (response, next_page))))))"

definition count_page :: "export_response \<Rightarrow> import_report \<Rightarrow> pull_report \<Rightarrow> sync_error + pull_report" where
  "count_page response imported report =
     bindR (sync_checked (pr_pages report) 1) (\<lambda>pages.
     bindR (sync_checked (pr_received report) (length (bundle_events (xp_bundle response)))) (\<lambda>received.
     bindR (sync_checked (pr_inserted report) (import_inserted imported)) (\<lambda>inserted.
     bindR (sync_checked (pr_already_present report) (import_already_present imported)) (\<lambda>already.
       Inr (report\<lparr>pr_pages := pages, pr_received := received, pr_inserted := inserted,
            pr_already_present := already\<rparr>)))))"

text \<open>The import of a page, with the counters after it.\<close>

definition pull_import ::
  "env \<Rightarrow> pull_config \<Rightarrow> export_response \<Rightarrow> commit_outcome \<Rightarrow> pull_report \<Rightarrow> db \<Rightarrow>
    (sync_error + pull_report) \<times> db" where
  "pull_import E cfg response oc report d =
     (case bindR (map_err SyncStore (bundle_to_wire E (xp_bundle response))) (\<lambda>wire.
           bindR (map_err SyncStore (bundle_limits_new (pul_max_events (pc_limits cfg))
             (pul_max_bundle_bytes (pc_limits cfg)) MAX_BUNDLE_REFS)) (\<lambda>limits. Inr (wire, limits))) of
        Inl e \<Rightarrow> (Inl e, d)
      | Inr (wire, limits) \<Rightarrow>
          (case import_bundle E (pc_peer cfg) wire limits oc d of
             (Inl e, d') \<Rightarrow> (Inl (SyncStore e), d')
           | (Inr imported, d') \<Rightarrow> (count_page response imported report, d')))"

text \<open>The loop counts a page in every round, so the page limit bounds the recursion.\<close>

lemma count_page_pages: "count_page response imported report = Inr report' \<Longrightarrow> pr_pages report' = Suc (pr_pages report)"
  by (auto simp: count_page_def sync_checked_def bindR_Inr_iff)

lemma pull_import_pages:
  "pull_import E cfg response oc report d = (Inr report', d') \<Longrightarrow> pr_pages report' = Suc (pr_pages report)"
  by (auto simp: pull_import_def split: sum.splits prod.splits dest: count_page_pages)

function pull_loop ::
  "env \<Rightarrow> pull_config \<Rightarrow> http_client \<Rightarrow> (nat \<Rightarrow> http_request \<Rightarrow> send_result) \<Rightarrow> (nat \<Rightarrow> commit_outcome) \<Rightarrow>
    event_id list \<Rightarrow> event_id list \<Rightarrow> string \<Rightarrow> pull_state \<Rightarrow> db \<Rightarrow> (sync_error + pull_report) \<times> db" where
  "pull_loop E cfg client net oc requested known expected_heads s d =
     (if pr_pages (ps_report s) \<ge> pul_max_pages (pc_limits cfg) then (Inl SyncLimitExceeded, d)
      else case pull_page E cfg client (net (Suc (pr_pages (ps_report s)))) requested known expected_heads s of
        Inl e \<Rightarrow> (Inl e, d)
      | Inr (response, next_page) \<Rightarrow>
          (case pull_import E cfg response (oc (pr_pages (ps_report s))) (ps_report s) d of
             (Inl e, d') \<Rightarrow> (Inl e, d')
           | (Inr report, d') \<Rightarrow>
               (case next_page of
                  None \<Rightarrow> (Inr report, d')
                | Some (next_offset, fingerprint, next_cursor) \<Rightarrow>
                    pull_loop E cfg client net oc requested known expected_heads
                      \<lparr>ps_report = report, ps_cursor = Some next_cursor, ps_offset = next_offset,
                       ps_fingerprint = Some fingerprint\<rparr> d')))"
  by pat_completeness auto
termination
  by (relation "measure (\<lambda>(E, cfg, client, net, oc, requested, known, expected_heads, s, d).
        pul_max_pages (pc_limits cfg) - pr_pages (ps_report s))")
    (auto dest!: pull_import_pages [OF sym])

declare pull_loop.simps [simp del]

definition pull_finish ::
  "env \<Rightarrow> pull_config \<Rightarrow> advertised_ref list \<Rightarrow> commit_outcome \<Rightarrow> pull_report \<Rightarrow> db \<Rightarrow>
    (sync_error + pull_report) \<times> db" where
  "pull_finish E cfg refs oc report d =
     (case replace_remote_ref_snapshot E (pc_peer cfg) (pc_context cfg) refs oc d of
        (Inl e, d') \<Rightarrow> (Inl (SyncStore e), d')
      | (Inr updated, d') \<Rightarrow> (Inr (report\<lparr>pr_remote_refs_updated := updated\<rparr>), d'))"

text \<open>The heads a pull asks for and the heads it already knows.\<close>

definition pull_known_heads :: "env \<Rightarrow> pull_config \<Rightarrow> db \<Rightarrow> sync_error + event_id list" where
  "pull_known_heads E cfg d =
     bindR (map_err SyncStore (list_local_refs E d (pc_context cfg))) (\<lambda>local.
     bindR (map_err SyncStore (list_remote_refs E d (Some (pc_peer cfg)) (pc_context cfg))) (\<lambda>remote.
       let known = sort_dedup (event_id_text E) (map ref_head local @ map rem_head remote) in
       if length known > MAX_BUNDLE_REFS then Inl SyncLimitExceeded else Inr known))"

definition pull_snapshot ::
  "env \<Rightarrow> pull_config \<Rightarrow> http_client \<Rightarrow> (http_request \<Rightarrow> send_result) \<Rightarrow> sync_error + ref_snapshot" where
  "pull_snapshot E cfg client send =
     bindR (fetch_refs E client send (pc_context cfg)) (\<lambda>refs_wire.
     bindR (ref_snapshot_from_wire E refs_wire) (\<lambda>snapshot.
       if rs_context snapshot \<noteq> pc_context cfg then Inl SyncProtocol else Inr snapshot))"

definition pull_requested_heads :: "env \<Rightarrow> ref_snapshot \<Rightarrow> event_id list" where
  "pull_requested_heads E snapshot = sort_dedup (event_id_text E) (map ar_head (rs_refs snapshot))"

definition pull ::
  "env \<Rightarrow> (string \<Rightarrow> bytes option) \<Rightarrow> bool \<Rightarrow> pull_config \<Rightarrow> (nat \<Rightarrow> http_request \<Rightarrow> send_result) \<Rightarrow>
    (nat \<Rightarrow> commit_outcome) \<Rightarrow> db \<Rightarrow> (sync_error + pull_report) \<times> db" where
  "pull E getenv built cfg net oc d =
     (case bindR (http_client_new E getenv built (pc_endpoint cfg) (pc_token cfg)
             (tl_max_response_body_bytes (pc_transport cfg))) (\<lambda>client.
           bindR (pull_snapshot E cfg client (net 0)) (\<lambda>snapshot.
           bindR (pull_known_heads E cfg d) (\<lambda>known. Inr (client, snapshot, known)))) of
        Inl e \<Rightarrow> (Inl e, d)
      | Inr (client, snapshot, known) \<Rightarrow>
          let requested = pull_requested_heads E snapshot in
          if requested = []
          then pull_finish E cfg (rs_refs snapshot) (oc 0) (ps_report pull_start) d
          else case requested_head_fingerprint E (pc_context cfg) requested of
              Inl e \<Rightarrow> (Inl e, d)
            | Inr expected_heads \<Rightarrow>
                (case pull_loop E cfg client net oc requested known expected_heads pull_start d of
                   (Inl e, d') \<Rightarrow> (Inl e, d')
                 | (Inr report, d') \<Rightarrow>
                     pull_finish E cfg (rs_refs snapshot) (oc (pr_pages report)) report d'))"

end
