(* ===== verification/Sync_Facts.thy ===== *)
theory Sync_Facts
  imports Sync_Protocol
begin

text \<open>
  The wire forms of \<open>src/src/sync.rs\<close>: every message has exactly one accepted wire form, rendering
  and parsing are inverse, and so are the two directions of the cursor.
\<close>

section \<open>The cursor\<close>

lemma unat_byte: "unat (x :: byte) < 256"
  using unsigned_less [of x, where ?'a = nat] by simp

lemma length_be_bytes [simp]: "length (be_bytes k n) = k"
  by (induction k arbitrary: n) auto

lemma be_value_snoc: "be_value (b @ [x]) = be_value b * 256 + unat x"
  by (simp add: be_value_def)

lemma be_value_bytes: "be_value (be_bytes k n) = n mod 256 ^ k"
proof (induction k arbitrary: n)
  case (Suc k)
  have "be_value (be_bytes (Suc k) n) = (n div 256) mod 256 ^ k * 256 + n mod 256"
    by (simp add: be_value_snoc Suc unat_of_nat)
  also have "\<dots> = n mod (256 * 256 ^ k)"
    by (simp add: mod_mult2_eq mult.commute)
  finally show ?case by simp
qed (simp add: be_value_def)

lemma be_value_less: "be_value b < 256 ^ length b"
proof (induction b rule: rev_induct)
  case (snoc x b)
  have x: "unat x < 256" by (rule unat_byte)
  from snoc have "be_value b + 1 \<le> 256 ^ length b" by simp
  then have "(be_value b + 1) * 256 \<le> 256 ^ length b * 256" by (rule mult_right_mono) simp
  then show ?case using x by (simp add: be_value_snoc)
qed (simp add: be_value_def)

lemma be_bytes_value: "be_bytes (length b) (be_value b) = b"
proof (induction b rule: rev_induct)
  case (snoc x b)
  have x: "unat x < 256" by (rule unat_byte)
  have "(be_value b * 256 + unat x) div 256 = be_value b" using x by simp
  moreover have "(256::byte) = 0" by code_simp
  then have "of_nat (be_value b * 256 + unat x) = x"
    by (simp only: of_nat_add of_nat_mult of_nat_numeral mult_zero_right add_0) simp
  ultimately show ?case using snoc by (simp add: be_value_snoc)
qed simp

lemma encode_cursor_Inr:
  "encode_cursor E offset f = Inr t \<longleftrightarrow>
    offset < 2 ^ 64 \<and> t = ''cursor1_'' @ b64_encode E (be_bytes 8 offset @ f)"
  by (auto simp: encode_cursor_def)

lemma decode_encode_cursor:
  assumes "base64_lawful E" "length f = 32" "encode_cursor E offset f = Inr t"
  shows "decode_cursor E t = Inr (offset, f)"
proof -
  have t: "offset < 2 ^ 64" "t = ''cursor1_'' @ b64_encode E (be_bytes 8 offset @ f)"
    using assms(3) by (auto simp: encode_cursor_Inr)
  have "be_value (be_bytes 8 offset) = offset" using t(1) by (simp add: be_value_bytes)
  then show ?thesis
    using assms t by (simp add: decode_cursor_def base64_lawful_def Let_def)
qed

lemma decode_cursor_Inr:
  assumes "decode_cursor E t = Inr (offset, f)"
  shows "encode_cursor E offset f = Inr t" "length f = 32" "offset < 2 ^ 64"
  using assms by (auto simp: decode_cursor_def bindR_Inr_iff Let_def encode_cursor_Inr split: if_splits)

section \<open>Exact objects\<close>

lemma protocol_err_Inr [simp]: "protocol_err m = Inr x \<longleftrightarrow> m = Inr x" "protocol_err (Inr x) = Inr x"
  by (simp_all add: protocol_err_def)

lemma length_obj_of: "distinct (map fst es) \<Longrightarrow> length (obj_of es) = length es"
proof -
  assume es: "distinct (map fst es)"
  have "distinct (map fst (obj_of es))"
    using obj_of_sorted [of es] strictly_sorted_distinct [of id "map fst (obj_of es)"]
    by (simp add: strictly_sorted_map)
  then have "length (obj_of es) = card (fst ` set (obj_of es))"
    using distinct_card [of "map fst (obj_of es)"] by simp
  also have "\<dots> = length es"
    using es distinct_card [of "map fst es"] by (simp add: obj_of_keys)
  finally show ?thesis .
qed

lemma object_exact_obj_of:
  assumes "distinct (map fst es)" "fst ` set es = set keys" "distinct keys"
  shows "object_exact (JObject (obj_of es)) keys = Inr (obj_of es)"
proof -
  have "length es = length keys"
    using assms distinct_card [of "map fst es"] distinct_card [of keys] by simp
  moreover have "\<not> list_ex (\<lambda>k. k \<notin> set keys) (obj_keys (obj_of es))"
    unfolding unknown_keys_obj_of using assms(2) by simp
  ultimately show ?thesis using assms(1) by (simp add: object_exact_def length_obj_of)
qed

lemma sync_take_present: "obj_get ob k = Some v \<Longrightarrow> sync_take ob k = Inr (v, obj_remove k ob)"
  by (simp add: sync_take_def)

lemma sync_string_present:
  "obj_get ob k = Some (JString t) \<Longrightarrow> sync_string ob k = Inr (t, obj_remove k ob)"
  by (simp add: sync_string_def sync_take_present)

lemma sync_text_present:
  "obj_get ob k = Some (JString t) \<Longrightarrow> parse t = Inr x \<Longrightarrow> sync_text parse ob k = Inr (x, obj_remove k ob)"
  by (simp add: sync_text_def sync_string_present)

lemma sync_version_present:
  "obj_get ob ''protocol_version'' = Some (JNumber (PosInt SYNC_PROTOCOL_VERSION)) \<Longrightarrow>
    sync_version ob = Inr (obj_remove ''protocol_version'' ob)"
  by (simp add: sync_version_def sync_take_present)

lemma usize_value_present:
  "obj_get ob k = Some (JNumber (PosInt n)) \<Longrightarrow> n < usize_limit \<Longrightarrow>
    usize_value ob k = Inr (n, obj_remove k ob)"
  by (simp add: usize_value_def sync_take_present)

lemmas field_present = sync_take_present sync_string_present sync_text_present sync_version_present
  usize_value_present

lemma sync_ids_array:
  assumes "base64_lawful E" "\<forall>i \<in> set ids. event_id_wf i"
  shows "sync_ids E (id_array E ids) = Inr ids"
  using assms event_id.of_to_text [OF assms(1)]
    collectR_map_Inr [of ids "\<lambda>v. bindR (protocol_err (into_string v))
      (\<lambda>text. protocol_err (event_id_of_text E text))" "\<lambda>i. JString (event_id_text E i)" "\<lambda>i. i"]
  by (simp add: sync_ids_def id_array_def)

lemma optional_string_json [simp]: "optional_string (json_of_option c) = Inr c"
  by (cases c) auto

text \<open>Values the protocol renders: well formed, without unsafe numbers, shallow and without doubles.\<close>

definition plain_json :: "nat \<Rightarrow> json \<Rightarrow> bool" where
  "plain_json k v \<longleftrightarrow> json_wf v \<and> numbers_safe v \<and> json_depth v \<le> k \<and> json_norm v = v"

lemma plain_jsonD:
  "plain_json k v \<Longrightarrow> json_wf v" "plain_json k v \<Longrightarrow> numbers_safe v"
  "plain_json k v \<Longrightarrow> json_depth v \<le> k" "plain_json k v \<Longrightarrow> json_norm v = v"
  by (simp_all add: plain_json_def)

lemma plain_json_basic [simp]:
  "1 \<le> k \<Longrightarrow> plain_json k (JString s)" "1 \<le> k \<Longrightarrow> plain_json k (JBool b)" "1 \<le> k \<Longrightarrow> plain_json k JNull"
  "1 \<le> k \<Longrightarrow> n \<le> MAX_SAFE_INTEGER \<Longrightarrow> plain_json k (JNumber (PosInt n))"
  "1 \<le> k \<Longrightarrow> plain_json k (json_of_option c)"
  by (cases c; auto simp: plain_json_def)+

lemma plain_json_array: "\<forall>v \<in> set vs. plain_json k v \<Longrightarrow> plain_json (Suc k) (JArray vs)"
  using json_depth_array [of vs k] by (auto simp: plain_json_def map_idI)

lemma plain_json_object: "\<forall>e \<in> set es. plain_json k (snd e) \<Longrightarrow> plain_json (Suc k) (JObject (obj_of es))"
proof -
  assume es: "\<forall>e \<in> set es. plain_json k (snd e)"
  then have "map (\<lambda>e. (fst e, json_norm (snd e))) es = es" by (intro map_idI) (auto simp: plain_json_def)
  then show ?thesis
    using es json_wf_obj_of [of es] numbers_safe_obj_of [of es] json_depth_obj_of [of es k]
    by (auto simp: plain_json_def)
qed

lemma plain_id_array: "1 \<le> k \<Longrightarrow> plain_json (Suc k) (id_array E ids)"
  unfolding id_array_def by (rule plain_json_array) auto

text \<open>A canonical rendering passes the strict reader of the protocol.\<close>

lemma strict_protocol_canonical:
  assumes "jcs_lawful E" "plain_json 127 v"
  obtains w where "canonicalize E v = Inr w" "strict_protocol E w = Inr v"
proof -
  obtain w where "canonicalize E v = Inr w" "strict_json (json_reader E) w = Inr (json_norm v)"
    by (rule strict_json_canonicalize [OF assms(1) plain_jsonD(1,2,3) [OF assms(2)]])
  then show thesis using plain_jsonD(4) [OF assms(2)] by (intro that [of w]) (simp_all add: strict_protocol_def)
qed

section \<open>Wire codecs\<close>

text \<open>
  The contract every message keeps: what is rendered reads back in normal form, and whatever
  reads is well formed and renders to the bytes it was read from.
\<close>

locale wire_codec =
  fixes lawful :: "'env \<Rightarrow> bool"
    and to_wire :: "'env \<Rightarrow> 'a \<Rightarrow> 'e + bytes"
    and from_wire :: "'env \<Rightarrow> bytes \<Rightarrow> 'e + 'a"
    and wf :: "'env \<Rightarrow> 'a \<Rightarrow> bool"
    and norm :: "'a \<Rightarrow> 'a"
  assumes from_to: "lawful E \<Longrightarrow> wf E x \<Longrightarrow> to_wire E x = Inr w \<Longrightarrow> from_wire E w = Inr (norm x)"
    and to_from: "from_wire E w = Inr x \<Longrightarrow> to_wire E x = Inr w \<and> wf E x"
begin

lemma read_back: "lawful E \<Longrightarrow> from_wire E w = Inr x \<Longrightarrow> wf E x \<and> norm x = x \<and> to_wire E x = Inr w"
  by (frule to_from) (auto dest: from_to [of E x w])

lemma from_wire_iff:
  "lawful E \<Longrightarrow> from_wire E w = Inr x \<longleftrightarrow> wf E x \<and> norm x = x \<and> to_wire E x = Inr w"
  by (rule iffI, erule (1) read_back) (metis from_to)

lemma one_wire_form: "from_wire E w = Inr x \<Longrightarrow> from_wire E w' = Inr x \<Longrightarrow> w = w'"
  by (drule to_from, drule to_from) simp

lemma to_wire_inj:
  "lawful E \<Longrightarrow> wf E x \<Longrightarrow> wf E y \<Longrightarrow> to_wire E x = Inr w \<Longrightarrow> to_wire E y = Inr w \<Longrightarrow> norm x = norm y"
  using from_to [of E x w] from_to [of E y w] by simp

end

section \<open>The request\<close>

definition limits_ok :: "pull_limits \<Rightarrow> bool" where
  "limits_ok l \<longleftrightarrow> 0 < pul_max_events l \<and> pul_max_events l \<le> MAX_BUNDLE_EVENTS \<and>
     0 < pul_max_bundle_bytes l \<and> pul_max_bundle_bytes l \<le> MAX_BUNDLE_CANONICAL_BYTES \<and>
     0 < pul_max_pages l \<and> pul_max_pages l \<le> MAX_PULL_PAGES"

lemma pull_limits_new_Inr:
  "pull_limits_new a b c = Inr l \<longleftrightarrow>
    l = \<lparr>pul_max_events = a, pul_max_bundle_bytes = b, pul_max_pages = c\<rparr> \<and> limits_ok l"
  by (auto simp: pull_limits_new_def limits_ok_def)

definition heads_ok :: "env \<Rightarrow> event_id list \<Rightarrow> bool" where
  "heads_ok E heads \<longleftrightarrow> strictly_sorted (event_id_text E) heads \<and> length heads \<le> MAX_BUNDLE_REFS"

lemma validate_sorted_heads_Inr:
  "validate_sorted_heads E heads allow_empty = Inr u \<longleftrightarrow>
    (allow_empty \<or> heads \<noteq> []) \<and> strictly_sorted (event_id_text E) heads"
  using windows2_any_ge_iff [of "event_id_text E" heads] by (auto simp: validate_sorted_heads_def)

lemma export_request_new_Inr:
  "export_request_new E c requested known cursor l = Inr r \<longleftrightarrow>
    r = \<lparr>xr_context = c, xr_requested_heads = requested, xr_known_heads = known,
         xr_cursor = cursor, xr_limits = l\<rparr> \<and>
    requested \<noteq> [] \<and> heads_ok E requested \<and> heads_ok E known"
  by (auto simp: export_request_new_def bindR_Inr_iff validate_sorted_heads_Inr heads_ok_def)

definition export_request_wf :: "env \<Rightarrow> export_request \<Rightarrow> bool" where
  "export_request_wf E r \<longleftrightarrow> context_id_wf (xr_context r) \<and>
     (\<forall>i \<in> set (xr_requested_heads r) \<union> set (xr_known_heads r). event_id_wf i) \<and>
     xr_requested_heads r \<noteq> [] \<and> heads_ok E (xr_requested_heads r) \<and> heads_ok E (xr_known_heads r) \<and>
     limits_ok (xr_limits r)"

text \<open>The page bound of the client is its own; the reader fills in the protocol maximum.\<close>

definition norm_request :: "export_request \<Rightarrow> export_request" where
  "norm_request r = r\<lparr>xr_limits := (xr_limits r)\<lparr>pul_max_pages := MAX_PULL_PAGES\<rparr>\<rparr>"

lemma export_request_json_norm: "export_request_json E (norm_request r) = export_request_json E r"
  by (simp add: export_request_json_def norm_request_def limits_json_def)

lemma limits_json_plain: "limits_ok l \<Longrightarrow> plain_json 2 (limits_json l)"
  unfolding limits_json_def numeral_2_eq_2
  by (rule plain_json_object)
    (auto simp: limits_ok_def MAX_BUNDLE_EVENTS_def MAX_BUNDLE_CANONICAL_BYTES_def MAX_SAFE_INTEGER_def)

lemma parse_request_limits_json:
  assumes "limits_ok l"
  shows "parse_request_limits (limits_json l) = Inr (l\<lparr>pul_max_pages := MAX_PULL_PAGES\<rparr>)"
proof -
  define es where "es = [(''max_bundle_bytes'', JNumber (PosInt (pul_max_bundle_bytes l))),
      (''max_events'', JNumber (PosInt (pul_max_events l)))]"
  have get: "obj_get (obj_of es) k = map_of es k" for k by (rule obj_get_obj_of) (simp add: es_def)
  have exact: "object_exact (JObject (obj_of es)) [''max_events'', ''max_bundle_bytes''] = Inr (obj_of es)"
    by (rule object_exact_obj_of) (auto simp: es_def)
  have "pul_max_events l < usize_limit" "pul_max_bundle_bytes l < usize_limit"
    using assms by (auto simp: limits_ok_def MAX_BUNDLE_EVENTS_def MAX_BUNDLE_CANONICAL_BYTES_def usize_limit_def)
  moreover have fields: "obj_get (obj_of es) ''max_events'' = Some (JNumber (PosInt (pul_max_events l)))"
      "obj_get (obj_of es) ''max_bundle_bytes'' = Some (JNumber (PosInt (pul_max_bundle_bytes l)))"
    by (simp_all add: get) (simp_all add: es_def)
  moreover have "limits_json l = JObject (obj_of es)" by (simp add: limits_json_def es_def)
  moreover have "pull_limits_new (pul_max_events l) (pul_max_bundle_bytes l) MAX_PULL_PAGES =
      Inr (l\<lparr>pul_max_pages := MAX_PULL_PAGES\<rparr>)"
    using assms by (simp add: pull_limits_new_Inr limits_ok_def MAX_PULL_PAGES_def)
  ultimately show ?thesis
    by (simp add: parse_request_limits_def exact field_present)
qed

lemma export_request_from_to:
  assumes "env_lawful E" "export_request_wf E r" "export_request_to_wire E r = Inr w"
  shows "export_request_from_wire E w = Inr (norm_request r)"
proof -
  note lawful = env_lawfulD [OF assms(1)]
  define es where "es = [(''context'', JString (context_id_text E (xr_context r))),
      (''cursor'', json_of_option (xr_cursor r)),
      (''known_heads'', id_array E (xr_known_heads r)),
      (''limits'', limits_json (xr_limits r)),
      (''protocol_version'', JNumber (PosInt SYNC_PROTOCOL_VERSION)),
      (''requested_heads'', id_array E (xr_requested_heads r))]"
  have v: "export_request_json E r = JObject (obj_of es)" by (simp add: export_request_json_def es_def)
  have wf: "context_id_wf (xr_context r)" "\<forall>i \<in> set (xr_requested_heads r). event_id_wf i"
    "\<forall>i \<in> set (xr_known_heads r). event_id_wf i" "limits_ok (xr_limits r)"
    using assms(2) by (auto simp: export_request_wf_def)
  have "plain_json (Suc 126) (JObject (obj_of es))"
  proof (rule plain_json_object)
    have "plain_json 126 (id_array E ids)" for ids using plain_id_array [of 125 E ids] by simp
    moreover have "plain_json 126 (limits_json (xr_limits r))"
      using limits_json_plain [OF wf(4)] by (simp add: plain_json_def)
    ultimately show "\<forall>e \<in> set es. plain_json 126 (snd e)"
      by (simp add: es_def SYNC_PROTOCOL_VERSION_def MAX_SAFE_INTEGER_def)
  qed
  then have "plain_json 127 (JObject (obj_of es))" by simp
  from strict_protocol_canonical [OF lawful(4) this]
  have read: "strict_protocol E w = Inr (JObject (obj_of es))"
    using assms(3) by (auto simp: export_request_to_wire_def v)
  have get: "obj_get (obj_of es) k = map_of es k" for k by (rule obj_get_obj_of) (simp add: es_def)
  have fields: "obj_get (obj_of es) ''protocol_version'' = Some (JNumber (PosInt SYNC_PROTOCOL_VERSION))"
    "obj_get (obj_of es) ''context'' = Some (JString (context_id_text E (xr_context r)))"
    "obj_get (obj_of es) ''requested_heads'' = Some (id_array E (xr_requested_heads r))"
    "obj_get (obj_of es) ''known_heads'' = Some (id_array E (xr_known_heads r))"
    "obj_get (obj_of es) ''cursor'' = Some (json_of_option (xr_cursor r))"
    "obj_get (obj_of es) ''limits'' = Some (limits_json (xr_limits r))"
    by (simp_all add: get) (simp_all add: es_def)
  have exact: "object_exact (JObject (obj_of es)) [''protocol_version'', ''context'', ''requested_heads'',
      ''known_heads'', ''cursor'', ''limits''] = Inr (obj_of es)"
    by (rule object_exact_obj_of) (auto simp: es_def)
  have new: "export_request_new E (xr_context r) (xr_requested_heads r) (xr_known_heads r) (xr_cursor r)
      ((xr_limits r)\<lparr>pul_max_pages := MAX_PULL_PAGES\<rparr>) = Inr (norm_request r)"
    using assms(2) by (simp add: export_request_new_Inr norm_request_def export_request_wf_def)
  have "export_request_to_wire E (norm_request r) = Inr w"
    using assms(3) by (simp add: export_request_to_wire_def export_request_json_norm)
  then show ?thesis
    using fields wf
    by (simp add: export_request_from_wire_def read exact field_present context_id.of_to_text [OF lawful(1)]
        sync_ids_array [OF lawful(1)] parse_request_limits_json new)
qed

lemma sync_ids_Inr: "sync_ids E v = Inr ids \<Longrightarrow> \<forall>i \<in> set ids. event_id_wf i"
proof -
  assume "sync_ids E v = Inr ids"
  then obtain vs where "list_all2 (\<lambda>x i. bindR (protocol_err (into_string x))
      (\<lambda>text. protocol_err (event_id_of_text E text)) = Inr i) vs ids"
    by (auto simp: sync_ids_def bindR_Inr_iff collectR_Inr_iff)
  then show ?thesis
    by (induction rule: list_all2_induct) (auto simp: bindR_Inr_iff dest: event_id.to_of_text)
qed

lemma sync_text_Inr: "sync_text parse ob k = Inr (x, ob') \<Longrightarrow> \<exists>t. parse t = Inr x"
  by (auto simp: sync_text_def bindR_Inr_iff)

lemma parse_request_limits_Inr: "parse_request_limits v = Inr l \<Longrightarrow> limits_ok l"
  by (auto simp: parse_request_limits_def bindR_Inr_iff pull_limits_new_Inr)

lemma export_request_to_from:
  assumes "export_request_from_wire E w = Inr r"
  shows "export_request_to_wire E r = Inr w \<and> export_request_wf E r"
proof -
  obtain ob c ob' v1 requested v2 known cursor v3 l where
    ctx: "sync_text (context_id_of_text E) ob ''context'' = Inr (c, ob')"
    and ids: "sync_ids E v1 = Inr requested" "sync_ids E v2 = Inr known"
    and l: "parse_request_limits v3 = Inr l"
    and new: "export_request_new E c requested known cursor l = Inr r"
    and wire: "export_request_to_wire E r = Inr w"
    using assms unfolding export_request_from_wire_def
    by (auto simp: bindR_Inr_iff split: if_splits)
  obtain t where "context_id_of_text E t = Inr c" using sync_text_Inr [OF ctx] by blast
  then have "context_id_wf c" by (auto dest: context_id.to_of_text)
  then show ?thesis
    using wire new parse_request_limits_Inr [OF l] sync_ids_Inr [OF ids(1)] sync_ids_Inr [OF ids(2)]
    by (auto simp: export_request_new_Inr export_request_wf_def)
qed

interpretation export_request: wire_codec env_lawful export_request_to_wire export_request_from_wire
  export_request_wf norm_request
  by unfold_locales (auto intro: export_request_from_to dest: export_request_to_from)

section \<open>The snapshot\<close>

lemma validate_refs_Inr:
  "validate_refs refs = Inr u \<longleftrightarrow> length refs \<le> MAX_BUNDLE_REFS \<and> strictly_sorted ar_name refs"
proof -
  have "\<not> list_ex (\<lambda>r. ar_namespace r \<noteq> LocalNamespace) refs"
    by (simp add: list_ex_iff) (metis ref_namespace.exhaust)
  then show ?thesis
    using windows2_any_ge_iff [of ar_name refs] by (auto simp: validate_refs_def)
qed

definition ref_snapshot_wf :: "env \<Rightarrow> ref_snapshot \<Rightarrow> bool" where
  "ref_snapshot_wf E s \<longleftrightarrow> context_id_wf (rs_context s) \<and>
     (\<forall>r \<in> set (rs_refs s). ref_name_wf (ar_name r) \<and> event_id_wf (ar_head r)) \<and>
     ref_snapshot_new E (rs_context s) (rs_refs s) = Inr s"

lemma ref_snapshot_new_Inr:
  "ref_snapshot_new E c refs = Inr s \<Longrightarrow> rs_context s = c \<and> rs_refs s = refs \<and>
    length refs \<le> MAX_BUNDLE_REFS \<and> strictly_sorted ar_name refs"
  by (auto simp: ref_snapshot_new_def bindR_Inr_iff validate_refs_Inr)

lemma parse_snapshot_ref_json:
  assumes "base64_lawful E" "ref_name_wf (ar_name r)" "event_id_wf (ar_head r)"
  shows "parse_snapshot_ref E (snapshot_ref_json E r) = Inr r"
proof -
  define es where "es = [(''head'', JString (event_id_text E (ar_head r))),
      (''name'', JString (ar_name r)), (''namespace'', JString ''local'')]"
  have get: "obj_get (obj_of es) k = map_of es k" for k by (rule obj_get_obj_of) (simp add: es_def)
  have exact: "object_exact (JObject (obj_of es)) [''namespace'', ''name'', ''head''] = Inr (obj_of es)"
    by (rule object_exact_obj_of) (auto simp: es_def)
  have fields: "obj_get (obj_of es) ''namespace'' = Some (JString ''local'')"
    "obj_get (obj_of es) ''name'' = Some (JString (ar_name r))"
    "obj_get (obj_of es) ''head'' = Some (JString (event_id_text E (ar_head r)))"
    by (simp_all add: get) (simp_all add: es_def)
  have "ar_namespace r = LocalNamespace" by (rule ref_namespace.exhaust)
  then have same: "\<lparr>ar_namespace = LocalNamespace, ar_name = ar_name r, ar_head = ar_head r\<rparr> = r" by simp
  have name: "name_from_str (ar_name r) = Inr (ar_name r)" using assms(2) by simp
  show ?thesis
    using fields assms
    by (simp add: parse_snapshot_ref_def snapshot_ref_json_def es_def [symmetric] exact field_present
        event_id.of_to_text same name)
qed

lemma snapshot_ref_plain: "2 \<le> k \<Longrightarrow> plain_json k (snapshot_ref_json E r)"
proof -
  have "plain_json (Suc 1) (snapshot_ref_json E r)"
    unfolding snapshot_ref_json_def by (rule plain_json_object) simp
  then show "2 \<le> k \<Longrightarrow> plain_json k (snapshot_ref_json E r)" by (auto simp: plain_json_def)
qed

lemma ref_snapshot_from_to:
  assumes "env_lawful E" "ref_snapshot_wf E s" "ref_snapshot_to_wire E s = Inr w"
  shows "ref_snapshot_from_wire E w = Inr s"
proof -
  note lawful = env_lawfulD [OF assms(1)]
  define es where "es = refs_fingerprint_fields E (rs_context s) (rs_refs s) @
      [(''snapshot_fingerprint'', JString (rs_fingerprint s))]"
  have v: "ref_snapshot_json E s = JObject (obj_of es)"
    by (simp add: ref_snapshot_json_def es_def obj_of_snoc)
  have wf: "context_id_wf (rs_context s)" "ref_snapshot_new E (rs_context s) (rs_refs s) = Inr s"
    and refs: "\<forall>r \<in> set (rs_refs s). ref_name_wf (ar_name r) \<and> event_id_wf (ar_head r)"
    using assms(2) by (auto simp: ref_snapshot_wf_def)
  have "plain_json (Suc 125) (JArray (map (snapshot_ref_json E) (rs_refs s)))"
    by (rule plain_json_array) (simp add: snapshot_ref_plain)
  then have "plain_json (Suc 126) (JObject (obj_of es))"
    by (intro plain_json_object)
      (simp add: es_def refs_fingerprint_fields_def SYNC_PROTOCOL_VERSION_def MAX_SAFE_INTEGER_def)
  then have "plain_json 127 (JObject (obj_of es))" by simp
  from strict_protocol_canonical [OF lawful(4) this]
  have read: "strict_protocol E w = Inr (JObject (obj_of es))"
    using assms(3) by (auto simp: ref_snapshot_to_wire_def v)
  have get: "obj_get (obj_of es) k = map_of es k" for k
    by (rule obj_get_obj_of) (simp add: es_def refs_fingerprint_fields_def)
  have fields: "obj_get (obj_of es) ''protocol_version'' = Some (JNumber (PosInt SYNC_PROTOCOL_VERSION))"
    "obj_get (obj_of es) ''context'' = Some (JString (context_id_text E (rs_context s)))"
    "obj_get (obj_of es) ''refs'' = Some (JArray (map (snapshot_ref_json E) (rs_refs s)))"
    "obj_get (obj_of es) ''snapshot_fingerprint'' = Some (JString (rs_fingerprint s))"
    by (simp_all add: get) (simp_all add: es_def refs_fingerprint_fields_def)
  have exact: "object_exact (JObject (obj_of es)) [''protocol_version'', ''context'', ''refs'',
      ''snapshot_fingerprint''] = Inr (obj_of es)"
    by (rule object_exact_obj_of) (auto simp: es_def refs_fingerprint_fields_def)
  have "collectR (parse_snapshot_ref E) (map (snapshot_ref_json E) (rs_refs s)) = Inr (rs_refs s)"
    using refs parse_snapshot_ref_json [OF lawful(1)]
      collectR_map_Inr [of "rs_refs s" "parse_snapshot_ref E" "snapshot_ref_json E" "\<lambda>r. r"] by simp
  moreover have "validate_refs (rs_refs s) = Inr ()"
    using ref_snapshot_new_Inr [OF wf(2)] by (simp add: validate_refs_Inr)
  ultimately have parsed: "parse_refs E (JArray (map (snapshot_ref_json E) (rs_refs s))) = Inr (rs_refs s)"
    by (simp add: parse_refs_def)
  show ?thesis
    using fields wf assms(3)
    by (simp add: ref_snapshot_from_wire_def read exact field_present context_id.of_to_text [OF lawful(1)] parsed)
qed

lemma parse_snapshot_ref_Inr:
  "parse_snapshot_ref E v = Inr r \<Longrightarrow> ref_name_wf (ar_name r) \<and> event_id_wf (ar_head r)"
  by (auto simp: parse_snapshot_ref_def bindR_Inr_iff dest!: sync_text_Inr dest: event_id.to_of_text
      split: if_splits)

lemma ref_snapshot_to_from:
  assumes "ref_snapshot_from_wire E w = Inr s"
  shows "ref_snapshot_to_wire E s = Inr w \<and> ref_snapshot_wf E s"
proof -
  obtain ob c ob' v refs where
    ctx: "sync_text (context_id_of_text E) ob ''context'' = Inr (c, ob')"
    and refs: "parse_refs E v = Inr refs" and new: "ref_snapshot_new E c refs = Inr s"
    and wire: "ref_snapshot_to_wire E s = Inr w"
    using assms unfolding ref_snapshot_from_wire_def
    by (auto simp: bindR_Inr_iff split: if_splits)
  obtain t where "context_id_of_text E t = Inr c" using sync_text_Inr [OF ctx] by blast
  then have "context_id_wf c" by (auto dest: context_id.to_of_text)
  moreover obtain vs where "list_all2 (\<lambda>x r. parse_snapshot_ref E x = Inr r) vs refs"
    using refs by (auto simp: parse_refs_def bindR_Inr_iff collectR_Inr_iff)
  then have "\<forall>r \<in> set refs. ref_name_wf (ar_name r) \<and> event_id_wf (ar_head r)"
    by (induction rule: list_all2_induct) (auto dest: parse_snapshot_ref_Inr)
  ultimately show ?thesis
    using wire new ref_snapshot_new_Inr [OF new] by (auto simp: ref_snapshot_wf_def)
qed

interpretation ref_snapshot: wire_codec env_lawful ref_snapshot_to_wire ref_snapshot_from_wire
  ref_snapshot_wf "\<lambda>s. s"
  by unfold_locales (auto intro: ref_snapshot_from_to dest: ref_snapshot_to_from)

section \<open>The page response\<close>

definition export_response_wf :: "env \<Rightarrow> export_response \<Rightarrow> bool" where
  "export_response_wf E r \<longleftrightarrow> context_id_wf (xp_context r) \<and> bundle_wf (xp_bundle r) \<and>
     bundle_ok E (xp_bundle r) \<and> bundle_context (xp_bundle r) = xp_context r \<and>
     bundle_refs (xp_bundle r) = [] \<and> (xp_complete r \<longleftrightarrow> xp_next_cursor r = None)"

definition norm_response :: "export_response \<Rightarrow> export_response" where
  "norm_response r = r\<lparr>xp_bundle := norm_bundle (xp_bundle r)\<rparr>"

text \<open>The value a rendered bundle reads back as, and its rendering.\<close>

lemma bundle_wire_value:
  assumes "env_lawful E" "bundle_wf b" "bundle_ok E b" "bundle_to_wire E b = Inr w"
  obtains v where "from_slice_value (json_reader E) w = Inr v" "canonicalize E v = Inr w" "plain_json 68 v"
proof -
  have evs: "\<forall>ev \<in> set (bundle_events b). event_wf ev \<and> verify_event E ev = Inr ()"
    using assms(2,3) by (auto simp: bundle_wf_def bundle_ok_def)
  let ?vals = "map (\<lambda>ev. event_json E (norm_event ev)) (bundle_events b)"
  let ?v = "bundle_json E (bundle_context b) ?vals (map (ref_json E) (bundle_refs b))"
  have "collectR (bundle_event_value E) (bundle_events b) = Inr ?vals"
    using evs bundle_event_value_lawful [OF assms(1)]
      collectR_map_Inr [of "bundle_events b" "bundle_event_value E" "\<lambda>ev. ev"] by simp
  then have w: "canonicalize E ?v = Inr w"
    using assms(4) by (auto simp: bundle_to_wire_def bindR_Inr_iff split: if_splits)
  note facts = bundle_json_facts [OF assms(1) evs, of "bundle_context b" "bundle_refs b"]
  obtain w' where "canonicalize E ?v = Inr w'" "from_slice_value (json_reader E) w' = Inr (json_norm ?v)"
    by (rule strict_json_canonicalize [OF env_lawfulD(4) [OF assms(1)] facts(1-3)])
  then show thesis using w facts by (intro that [of ?v]) (simp_all add: plain_json_def)
qed

lemma export_response_from_to:
  assumes "env_lawful E" "export_response_wf E r" "export_response_to_wire E r = Inr w"
  shows "export_response_from_wire E w = Inr (norm_response r)"
proof -
  note lawful = env_lawfulD [OF assms(1)]
  have wf: "context_id_wf (xp_context r)" "bundle_wf (xp_bundle r)" "bundle_ok E (xp_bundle r)"
    "bundle_context (xp_bundle r) = xp_context r" "bundle_refs (xp_bundle r) = []"
    "xp_complete r \<longleftrightarrow> xp_next_cursor r = None"
    using assms(2) by (auto simp: export_response_wf_def)
  obtain bw bv where bw: "bundle_to_wire E (xp_bundle r) = Inr bw"
      "from_slice_value (json_reader E) bw = Inr bv"
      and w: "canonicalize E (export_response_json E r bv) = Inr w"
    using assms(3) by (auto simp: export_response_to_wire_def bindR_Inr_iff)
  have bv: "canonicalize E bv = Inr bw" "plain_json 68 bv"
    using bundle_wire_value [OF assms(1) wf(2,3) bw(1)] bw(2) by auto
  note again = bundle_round_trip_aux [OF assms(1) wf(2,3) bw(1)]
  define es where "es = [(''bundle'', bv), (''complete'', JBool (xp_complete r)),
      (''context'', JString (context_id_text E (xp_context r))),
      (''next_cursor'', json_of_option (xp_next_cursor r)),
      (''protocol_version'', JNumber (PosInt SYNC_PROTOCOL_VERSION)),
      (''requested_head_fingerprint'', JString (xp_head_fingerprint r))]"
  have v: "export_response_json E r bv = JObject (obj_of es)" by (simp add: export_response_json_def es_def)
  have "plain_json 126 bv" using bv(2) by (simp add: plain_json_def)
  then have "plain_json (Suc 126) (JObject (obj_of es))"
    by (intro plain_json_object) (simp add: es_def SYNC_PROTOCOL_VERSION_def MAX_SAFE_INTEGER_def)
  then have "plain_json 127 (JObject (obj_of es))" by simp
  from strict_protocol_canonical [OF lawful(4) this]
  have read: "strict_protocol E w = Inr (JObject (obj_of es))"
    using w by (auto simp: v)
  have get: "obj_get (obj_of es) k = map_of es k" for k by (rule obj_get_obj_of) (simp add: es_def)
  have fields: "obj_get (obj_of es) ''protocol_version'' = Some (JNumber (PosInt SYNC_PROTOCOL_VERSION))"
    "obj_get (obj_of es) ''context'' = Some (JString (context_id_text E (xp_context r)))"
    "obj_get (obj_of es) ''requested_head_fingerprint'' = Some (JString (xp_head_fingerprint r))"
    "obj_get (obj_of es) ''bundle'' = Some bv"
    "obj_get (obj_of es) ''next_cursor'' = Some (json_of_option (xp_next_cursor r))"
    "obj_get (obj_of es) ''complete'' = Some (JBool (xp_complete r))"
    by (simp_all add: get) (simp_all add: es_def)
  have exact: "object_exact (JObject (obj_of es)) [''protocol_version'', ''context'',
      ''requested_head_fingerprint'', ''bundle'', ''next_cursor'', ''complete''] = Inr (obj_of es)"
    by (rule object_exact_obj_of) (auto simp: es_def)
  have same: "\<lparr>xp_context = xp_context r, xp_head_fingerprint = xp_head_fingerprint r,
      xp_bundle = norm_bundle (xp_bundle r), xp_next_cursor = xp_next_cursor r,
      xp_complete = (xp_next_cursor r = None)\<rparr> = norm_response r"
    using wf(6) by (simp add: norm_response_def)
  have wire: "export_response_to_wire E (norm_response r) = Inr w"
    using again(2) bw(2) w by (simp add: export_response_to_wire_def norm_response_def export_response_json_def)
  have parts: "bundle_context (norm_bundle (xp_bundle r)) = xp_context r" "bundle_refs (norm_bundle (xp_bundle r)) = []"
    using wf(4,5) by (simp_all add: norm_bundle_def)
  show ?thesis
    unfolding export_response_from_wire_def read exact bindR_simps Let_def
    using fields wf(1,6)
    by (simp add: field_present context_id.of_to_text [OF lawful(1)] bv(1) again(1) parts same wire)
qed

lemma export_response_to_from:
  assumes "export_response_from_wire E w = Inr r"
  shows "export_response_to_wire E r = Inr w \<and> export_response_wf E r"
proof -
  obtain ob c ob' bw b cursor where
    ctx: "sync_text (context_id_of_text E) ob ''context'' = Inr (c, ob')"
    and b: "bundle_from_wire E bw = Inr b"
    and r: "xp_context r = c" "xp_bundle r = b" "bundle_context b = c" "bundle_refs b = []"
      "xp_complete r \<longleftrightarrow> xp_next_cursor r = None"
    and wire: "export_response_to_wire E r = Inr w"
    using assms unfolding export_response_from_wire_def Let_def
    by (auto simp: bindR_Inr_iff split: if_splits)
  obtain t where "context_id_of_text E t = Inr c" using sync_text_Inr [OF ctx] by blast
  then have "context_id_wf c" by (auto dest: context_id.to_of_text)
  then show ?thesis
    using wire r bundle_from_wire_Inr [OF b] by (simp add: export_response_wf_def)
qed

interpretation export_response: wire_codec env_lawful export_response_to_wire export_response_from_wire
  export_response_wf norm_response
  by unfold_locales (auto intro: export_response_from_to dest: export_response_to_from)

lemma export_response_new_Inr:
  assumes "export_response_new E c requested b cursor = Inr r"
  shows "r = \<lparr>xp_context = c, xp_head_fingerprint = xp_head_fingerprint r, xp_bundle = b,
      xp_next_cursor = cursor, xp_complete = (cursor = None)\<rparr>"
    "requested_head_fingerprint E c requested = Inr (xp_head_fingerprint r)"
    "bundle_context b = c" "bundle_refs b = []"
  using assms by (auto simp: export_response_new_def bindR_Inr_iff split: if_splits)

end
