(* ===== verification/Pull_Facts.thy ===== *)
theory Pull_Facts
  imports Pull_Client Sync_Facts
begin

text \<open>
  What a pull does to the store whatever the peer answers: it keeps the invariant and only adds
  events, it touches neither local refs nor other peers' refs, it replaces the peer's refs only at the very end, and
  it stops after a bounded number of requests.
\<close>

section \<open>Importing one page\<close>

lemma import_bundle_cases:
  assumes "import_bundle E peer w limits oc d = (r, d')"
  obtains e where "r = Inl e" "d' = d"
  | b rep where "bundle_from_wire E w = Inr b" "import_bundle_tx E peer b d = Inr (rep, d')"
      "r = Inr rep \<or> r = Inl IndeterminateCommit"
proof -
  let ?checks = "bindR (validate_bundle_limits limits) (\<lambda>_.
           if length w > bl_max_canonical_bytes limits then Inl BundleLimitExceeded
           else bindR (bundle_from_wire E w) (\<lambda>bundle.
             if length (bundle_events bundle) > bl_max_events limits \<or>
                length (bundle_refs bundle) > bl_max_refs limits
             then Inl BundleLimitExceeded
             else bindR (bundle_to_wire E bundle) (\<lambda>canonical.
               if length canonical > bl_max_canonical_bytes limits then Inl BundleLimitExceeded
               else Inr bundle)))"
  show thesis
  proof (cases ?checks)
    case (Inl e)
    then have "r = Inl e" "d' = d" using assms by (simp_all add: import_bundle_def)
    then show thesis by (rule that(1))
  next
    case (Inr b)
    then have b: "bundle_from_wire E w = Inr b" by (auto simp: bindR_Inr_iff split: if_splits)
    have tx: "write_tx oc (import_bundle_tx E peer b) d = (r, d')"
      using assms Inr by (simp add: import_bundle_def)
    show thesis
    proof (rule write_tx_cases [of "import_bundle_tx E peer b" d oc])
      fix v d1
      assume "import_bundle_tx E peer b d = Inr (v, d1)"
        "snd (write_tx oc (import_bundle_tx E peer b) d) \<in> {d, d1}"
        "fst (write_tx oc (import_bundle_tx E peer b) d) \<in> {Inr v, Inl IndeterminateCommit}"
      then show thesis
        using tx that b write_tx_Inr [of oc "import_bundle_tx E peer b" d v] by auto
    next
      fix e
      assume "write_tx oc (import_bundle_tx E peer b) d = (Inl e, d)"
      then show thesis using tx that(1) by simp
    qed
  qed
qed

text \<open>A bundle without refs leaves every ref alone.\<close>

lemma import_bundle_tx_no_refs:
  assumes "env_lawful E" "store_inv E d" "bundle_wf b" "bundle_refs b = []"
    and "import_bundle_tx E peer b d = Inr (rep, d')"
  shows "db_remote d' = db_remote d"
proof -
  let ?c = "bundle_context b"
  obtain x state s where row: "context_row_of d ?c = Inr (Some (x, state))"
    and evs: "foldR (import_event E ?c x) (bundle_events b)
        \<lparr>imp_state = state, imp_inserted = 0, imp_already = 0, imp_db = d\<rparr> = Inr s"
    and d': "d' = imp_db s"
    using assms(4,5) by (auto simp: import_bundle_tx_def Let_def bindR_Inr_iff)
  have start: "import_inv E d ?c x \<lparr>imp_state = state, imp_inserted = 0, imp_already = 0, imp_db = d\<rparr>"
    using assms(2) row by (simp add: import_inv_def)
  have wf: "\<forall>ev \<in> set (bundle_events b). event_wf ev \<and> event_context ev = ?c"
    using assms(3) by (auto simp: bundle_wf_def)
  from import_events_keep [OF assms(1) wf start evs] show ?thesis
    by (simp add: d' import_inv_def)
qed

text \<open>What an operation of a pull keeps: the invariant, the events, the refs.\<close>

definition keeps_refs :: "env \<Rightarrow> db \<Rightarrow> db \<Rightarrow> bool" where
  "keeps_refs E d d' \<longleftrightarrow> keeps_store E d d' \<and> db_local d' = db_local d \<and> db_remote d' = db_remote d"

lemma keeps_refs_refl: "store_inv E d \<Longrightarrow> keeps_refs E d d"
  by (simp add: keeps_refs_def keeps_store_refl)

lemma keeps_refs_trans: "keeps_refs E a b \<Longrightarrow> keeps_refs E b c \<Longrightarrow> keeps_refs E a c"
  by (auto simp: keeps_refs_def keeps_store_def intro: db_grows_trans)

lemma keeps_refs_inv: "keeps_refs E d d' \<Longrightarrow> store_inv E d'"
  by (simp add: keeps_refs_def keeps_store_def)

definition page_stored :: "env \<Rightarrow> export_response \<Rightarrow> db \<Rightarrow> bool" where
  "page_stored E response d \<longleftrightarrow>
     (\<forall>ev \<in> set (bundle_events (xp_bundle response)). lookup_event E d (ev_id ev) = Some ev)"

lemma count_page_Inr:
  assumes "count_page response imported report = Inr report'"
    and "import_inserted imported + import_already_present imported = n"
  shows "pr_pages report' = Suc (pr_pages report) \<and>
    pr_received report' = pr_received report + length (bundle_events (xp_bundle response)) \<and>
    pr_inserted report' + pr_already_present report' =
      pr_inserted report + pr_already_present report + n \<and>
    pr_remote_refs_updated report' = pr_remote_refs_updated report"
  using assms by (auto simp: count_page_def sync_checked_def bindR_Inr_iff)

lemma pull_import_spec:
  assumes "env_lawful E" "store_inv E d" "ref_name_wf (pc_peer cfg)"
    and "export_response_from_wire E w = Inr response"
    and "pull_import E cfg response oc report d = (r, d')"
  shows "keeps_refs E d d'"
    "\<And>report'. r = Inr report' \<Longrightarrow> page_stored E response d' \<and>
      (let n = length (bundle_events (xp_bundle response)) in
       pr_pages report' = Suc (pr_pages report) \<and> pr_received report' = pr_received report + n \<and>
       pr_inserted report' + pr_already_present report' =
         pr_inserted report + pr_already_present report + n \<and>
       pr_remote_refs_updated report' = pr_remote_refs_updated report)"
proof -
  let ?b = "xp_bundle response"
  have wf: "bundle_wf ?b" "bundle_ok E ?b" "bundle_refs ?b = []" 
    and fixed: "norm_response response = response"
    using export_response.read_back [OF assms(1,4)] by (simp_all add: export_response_wf_def)
  have norm: "norm_bundle ?b = ?b"
    using arg_cong [OF fixed, of xp_bundle] by (simp add: norm_response_def)
  have same: "norm_event ev = ev" if "ev \<in> set (bundle_events ?b)" for ev
  proof -
    have "map norm_event (bundle_events ?b) = map (\<lambda>e. e) (bundle_events ?b)"
      using arg_cong [OF norm, of bundle_events] by (simp add: norm_bundle_def)
    then show ?thesis using that unfolding map_eq_conv by blast
  qed
  have "keeps_refs E d d' \<and> (\<forall>report'. r = Inr report' \<longrightarrow> page_stored E response d' \<and>
      (let n = length (bundle_events ?b) in
       pr_pages report' = Suc (pr_pages report) \<and> pr_received report' = pr_received report + n \<and>
       pr_inserted report' + pr_already_present report' =
         pr_inserted report + pr_already_present report + n \<and>
       pr_remote_refs_updated report' = pr_remote_refs_updated report))"
  proof (cases "\<exists>e. r = Inl e \<and> d' = d")
    case True
    then show ?thesis using assms(2) by (auto simp: keeps_refs_refl)
  next
    case False
    then obtain bw limits q where bw: "bundle_to_wire E ?b = Inr bw"
      and imp: "import_bundle E (pc_peer cfg) bw limits oc d = (q, d')"
      and r: "r = (case q of Inl e \<Rightarrow> Inl (SyncStore e) | Inr rep \<Rightarrow> count_page response rep report)"
      using assms(5) by (auto simp: pull_import_def bindR_Inr_iff split: sum.splits prod.splits)
    have from_wire: "bundle_from_wire E bw = Inr ?b"
      using bundle_round_trip_aux(1) [OF assms(1) wf(1,2) bw] norm by simp
    have tx: "\<exists>rep. import_bundle_tx E (pc_peer cfg) ?b d = Inr (rep, d') \<and> (q = Inr rep \<or> q = Inl IndeterminateCommit)"
      if "\<not> (\<exists>e. q = Inl e \<and> d' = d)"
      by (rule import_bundle_cases [OF imp]) (use that from_wire in auto)
    then obtain rep where tx: "import_bundle_tx E (pc_peer cfg) ?b d = Inr (rep, d')"
        "q = Inr rep \<or> q = Inl IndeterminateCommit"
      using False r by (cases q) auto
    obtain x where keep: "store_inv E d'" "db_grows d d'" "db_local d' = db_local d"
      and place: "\<forall>ev \<in> set (bundle_events ?b). in_place E d' x ev"
      and count: "import_inserted rep + import_already_present rep = length (bundle_events ?b)"
      by (rule import_bundle_tx_Inr [OF assms(1,2,3) wf(1) tx(1)]) blast
    have remote: "db_remote d' = db_remote d"
      by (rule import_bundle_tx_no_refs [OF assms(1,2) wf(1,3) tx(1)])
    have stored: "page_stored E response d'"
      unfolding page_stored_def
    proof
      fix ev assume ev: "ev \<in> set (bundle_events ?b)"
      then have "event_wf ev" using wf(1) by (simp add: bundle_wf_def)
      from in_place_lookup [OF assms(1) keep(1) bspec [OF place ev] this] same [OF ev]
      show "lookup_event E d' (ev_id ev) = Some ev" by simp
    qed
    have "keeps_refs E d d'" using keep remote by (simp add: keeps_refs_def keeps_store_def)
    moreover have "r = Inr report' \<Longrightarrow> count_page response rep report = Inr report'" for report'
      using r tx(2) by auto
    ultimately show ?thesis
      using stored count_page_Inr [of response rep report] count unfolding Let_def by blast
  qed
  then show "keeps_refs E d d'"
    "\<And>report'. r = Inr report' \<Longrightarrow> page_stored E response d' \<and>
      (let n = length (bundle_events ?b) in
       pr_pages report' = Suc (pr_pages report) \<and> pr_received report' = pr_received report + n \<and>
       pr_inserted report' + pr_already_present report' =
         pr_inserted report + pr_already_present report + n \<and>
       pr_remote_refs_updated report' = pr_remote_refs_updated report)" by blast+
qed

lemma pull_page_Inr:
  assumes "pull_page E cfg client send requested known expected s = Inr (response, next_page)"
  obtains w where "export_response_from_wire E w = Inr response" "xp_context response = pc_context cfg"
    "xp_head_fingerprint response = expected" "check_next_cursor E s response = Inr next_page"
  using assms by (auto simp: pull_page_def bindR_Inr_iff split: if_splits)

section \<open>The page loop\<close>

lemma pull_loop_spec:
  assumes "env_lawful E" "ref_name_wf (pc_peer cfg)" "store_inv E d"
    and "pull_loop E cfg client net oc requested known expected s d = (r, d')"
  shows "keeps_refs E d d' \<and> (\<forall>report. r = Inr report \<longrightarrow>
      pr_pages report \<le> pul_max_pages (pc_limits cfg) \<and>
      pr_received report + pr_inserted (ps_report s) + pr_already_present (ps_report s) =
        pr_inserted report + pr_already_present report + pr_received (ps_report s) \<and>
      pr_remote_refs_updated report = pr_remote_refs_updated (ps_report s))"
  using assms
proof (induction E cfg client net oc requested known expected s d arbitrary: r d' rule: pull_loop.induct)
  case (1 E cfg client net oc requested known expected s d)
  let ?limit = "pr_pages (ps_report s) \<ge> pul_max_pages (pc_limits cfg)"
  let ?page = "pull_page E cfg client (net (Suc (pr_pages (ps_report s)))) requested known expected s"
  show ?case
  proof (cases "?limit \<or> (\<exists>e. ?page = Inl e)")
    case True
    then have "d' = d" "\<exists>e. r = Inl e"
      using "1.prems"(4) by (auto simp: pull_loop.simps [of E cfg] split: if_splits)
    then show ?thesis using "1.prems"(3) by (auto simp: keeps_refs_refl)
  next
    case False
    then obtain response next_page where page: "?page = Inr (response, next_page)" and limit: "\<not> ?limit"
      by (cases ?page) auto
    obtain q d1 where imp: "pull_import E cfg response (oc (pr_pages (ps_report s))) (ps_report s) d = (q, d1)"
      by (cases "pull_import E cfg response (oc (pr_pages (ps_report s))) (ps_report s) d")
    obtain w where w: "export_response_from_wire E w = Inr response" by (rule pull_page_Inr [OF page])
    note step = pull_import_spec [OF "1.prems"(1,3,2) w imp]
    have keep: "keeps_refs E d d1" by (rule step(1))
    show ?thesis
    proof (cases q)
      case (Inl e)
      then show ?thesis using "1.prems"(4) page limit imp keep
        by (auto simp: pull_loop.simps [of E cfg])
    next
      case (Inr report)
      note counts = step(2) [OF Inr, unfolded Let_def]
      show ?thesis
      proof (cases next_page)
        case None
        then have "r = Inr report" "d' = d1"
          using "1.prems"(4) page limit imp Inr by (simp_all add: pull_loop.simps [of E cfg])
        then show ?thesis using keep counts limit by auto
      next
        case (Some n)
        obtain next_offset fingerprint next_cursor where n: "n = (next_offset, fingerprint, next_cursor)"
          by (cases n)
        have rec: "pull_loop E cfg client net oc requested known expected
            \<lparr>ps_report = report, ps_cursor = Some next_cursor, ps_offset = next_offset,
             ps_fingerprint = Some fingerprint\<rparr> d1 = (r, d')"
          using "1.prems"(4) page limit imp Inr Some n by (simp add: pull_loop.simps [of E cfg])
        note there = limit page [unfolded Some n] refl imp [symmetric, unfolded Inr] refl refl refl refl
        from "1.IH" [OF there "1.prems"(1,2) keeps_refs_inv [OF keep] rec]
        show ?thesis using keeps_refs_trans [OF keep] counts by auto
      qed
    qed
  qed
qed

text \<open>Only the first requests of a pull, one for each page it may still take, are ever made.\<close>

lemma pull_loop_requests:
  assumes "\<forall>k. pr_pages (ps_report s) < k \<and> k \<le> pul_max_pages (pc_limits cfg) \<longrightarrow> net k = net' k"
  shows "pull_loop E cfg client net oc requested known expected s d =
    pull_loop E cfg client net' oc requested known expected s d"
  using assms
proof (induction E cfg client net oc requested known expected s d rule: pull_loop.induct)
  case (1 E cfg client net oc requested known expected s d)
  show ?case
  proof (cases "pr_pages (ps_report s) \<ge> pul_max_pages (pc_limits cfg)")
    case True
    then show ?thesis by (simp add: pull_loop.simps [of E cfg])
  next
    case limit: False
    then have first: "net (Suc (pr_pages (ps_report s))) = net' (Suc (pr_pages (ps_report s)))"
      using "1.prems" by simp
    show ?thesis
    proof (cases "pull_page E cfg client (net (Suc (pr_pages (ps_report s)))) requested known expected s")
      case (Inl e)
      then show ?thesis using limit first by (simp add: pull_loop.simps [of E cfg])
    next
      case (Inr page)
      obtain response next_page where page: "page = (response, next_page)" by (cases page)
      obtain q d1 where imp: "pull_import E cfg response (oc (pr_pages (ps_report s))) (ps_report s) d = (q, d1)"
        by (cases "pull_import E cfg response (oc (pr_pages (ps_report s))) (ps_report s) d")
      show ?thesis
      proof (cases "\<exists>report n. q = Inr report \<and> next_page = Some n")
        case False
        then show ?thesis using limit first Inr page imp
          by (cases q; cases next_page) (auto simp: pull_loop.simps [of E cfg])
      next
        case True
        then obtain report next_offset fingerprint next_cursor where
          n: "q = Inr report" "next_page = Some (next_offset, fingerprint, next_cursor)" by auto
        have "pr_pages report = Suc (pr_pages (ps_report s))"
          using pull_import_pages imp n(1) by blast
        then show ?thesis
          using "1.IH" [OF limit Inr [unfolded page n] refl imp [symmetric, unfolded n] refl refl refl refl]
            "1.prems" limit first Inr page imp n
          by (simp add: pull_loop.simps [of E cfg])
      qed
    qed
  qed
qed

section \<open>A whole pull\<close>

text \<open>
  The outcome of a pull: nothing but new events before the last commit, which replaces the
  peer's refs by those of the snapshot and nothing else.
\<close>

definition refs_replaced :: "env \<Rightarrow> pull_config \<Rightarrow> advertised_ref list \<Rightarrow> db \<Rightarrow> db \<Rightarrow> bool" where
  "refs_replaced E cfg refs d d' \<longleftrightarrow> keeps_store E d d' \<and> db_local d' = db_local d \<and>
     remote_view d' (pc_peer cfg) (pc_context cfg) = map_of (map ref_pair refs) \<and>
     (\<forall>r \<in> set refs. stored_in d' (ar_head r) (pc_context cfg)) \<and>
     (\<forall>peer c. (peer, c) \<noteq> (pc_peer cfg, pc_context cfg) \<longrightarrow> remote_view d' peer c = remote_view d peer c)"

lemma pull_finish_spec:
  assumes "env_lawful E" "store_inv E d" "ref_name_wf (pc_peer cfg)"
    and "\<forall>r \<in> set refs. ref_name_wf (ar_name r)"
    and "pull_finish E cfg refs oc report d = (r, d')"
  shows "d' = d \<and> (\<exists>e. r = Inl e) \<or> refs_replaced E cfg refs d d' \<and>
    (r = Inl (SyncStore IndeterminateCommit) \<or>
     (\<exists>n. r = Inr (report\<lparr>pr_remote_refs_updated := n\<rparr>) \<and>
       n = card {name. remote_view d (pc_peer cfg) (pc_context cfg) name \<noteq> map_of (map ref_pair refs) name}))"
proof -
  let ?p = "pc_peer cfg" and ?c = "pc_context cfg"
  obtain q where q: "replace_remote_ref_snapshot E ?p ?c refs oc d = (q, d')"
    and r: "r = (case q of Inl e \<Rightarrow> Inl (SyncStore e) | Inr n \<Rightarrow> Inr (report\<lparr>pr_remote_refs_updated := n\<rparr>))"
    using assms(5) by (auto simp: pull_finish_def split: sum.splits prod.splits)
  show ?thesis
  proof (cases "\<exists>e. q = Inl e \<and> d' = d")
    case True
    then show ?thesis using r by auto
  next
    case False
    then have sorted: "strictly_sorted ar_name refs" and tx: "write_tx oc (replace_refs_tx E ?p ?c refs) d = (q, d')"
      using q windows2_any_ge_iff [of ar_name refs]
      by (auto simp: replace_remote_ref_snapshot_def split: if_splits)
    have ok: "replace_ok (?p, ?c, refs)" using assms(3,4) sorted by (simp add: replace_ok_def)
    obtain n where n: "replace_refs_tx E ?p ?c refs d = Inr (n, d')" "q = Inr n \<or> q = Inl IndeterminateCommit"
    proof (rule write_tx_cases [of "replace_refs_tx E ?p ?c refs" d oc])
      fix v d1
      assume "replace_refs_tx E ?p ?c refs d = Inr (v, d1)"
        "snd (write_tx oc (replace_refs_tx E ?p ?c refs) d) \<in> {d, d1}"
        "fst (write_tx oc (replace_refs_tx E ?p ?c refs) d) \<in> {Inr v, Inl IndeterminateCommit}"
      then show thesis
        using tx that False write_tx_Inr [of oc "replace_refs_tx E ?p ?c refs" d v] by auto
    next
      fix e
      assume "write_tx oc (replace_refs_tx E ?p ?c refs) d = (Inl e, d)"
      then show thesis using tx False by simp
    qed
    note spec = replace_refs_tx_Inr [OF assms(2) ok n(1)]
    have "\<exists>u. forR (check_head E d ?c) refs = Inr u"
      using n(1) by (auto simp: replace_refs_tx_def bindR_Inr_iff)
    then have "\<forall>r \<in> set refs. stored_in d (ar_head r) ?c" using forR_check_head [OF assms(2)] by blast
    then have "refs_replaced E cfg refs d d'"
      using spec db_grows_stored_in [OF spec(2)] by (auto simp: refs_replaced_def keeps_store_def)
    then show ?thesis using r n(2) spec(6) by auto
  qed
qed

lemma keeps_refs_replaced:
  assumes "keeps_refs E d d1" "refs_replaced E cfg refs d1 d'"
  shows "refs_replaced E cfg refs d d'"
  using assms by (auto simp: keeps_refs_def refs_replaced_def keeps_store_def remote_view_def intro: db_grows_trans)

lemma pull_snapshot_Inr:
  assumes "pull_snapshot E cfg client send = Inr snapshot"
  shows "rs_context snapshot = pc_context cfg"
    "\<forall>r \<in> set (rs_refs snapshot). ref_name_wf (ar_name r) \<and> event_id_wf (ar_head r)"
  using assms
  by (auto simp: pull_snapshot_def bindR_Inr_iff ref_snapshot_wf_def dest!: ref_snapshot_to_from split: if_splits)

lemma pull_spec:
  assumes "env_lawful E" "store_inv E d" "ref_name_wf (pc_peer cfg)"
    and "pull E getenv built cfg net oc d = (r, d')"
  shows "keeps_refs E d d' \<and> (\<exists>e. r = Inl e) \<or>
    (\<exists>client snapshot. http_client_new E getenv built (pc_endpoint cfg) (pc_token cfg)
        (tl_max_response_body_bytes (pc_transport cfg)) = Inr client \<and>
      pull_snapshot E cfg client (net 0) = Inr snapshot \<and>
      refs_replaced E cfg (rs_refs snapshot) d d' \<and>
      (r = Inl (SyncStore IndeterminateCommit) \<or>
       (\<exists>report. r = Inr report \<and> pr_pages report \<le> pul_max_pages (pc_limits cfg) \<and>
         pr_received report = pr_inserted report + pr_already_present report \<and>
         pr_remote_refs_updated report = card {name. remote_view d (pc_peer cfg) (pc_context cfg) name \<noteq>
           remote_view d' (pc_peer cfg) (pc_context cfg) name})))"
proof -
  let ?client = "http_client_new E getenv built (pc_endpoint cfg) (pc_token cfg)
      (tl_max_response_body_bytes (pc_transport cfg))"
  let ?refs = "\<lambda>d. remote_view d (pc_peer cfg) (pc_context cfg)"
  show ?thesis
  proof (cases "(\<exists>e. r = Inl e) \<and> d' = d")
    case True
    then show ?thesis using assms(2) by (auto simp: keeps_refs_refl)
  next
    case False
    then obtain client snapshot known where start: "?client = Inr client"
      "pull_snapshot E cfg client (net 0) = Inr snapshot" "pull_known_heads E cfg d = Inr known"
      using assms(4) by (auto simp: pull_def bindR_Inr_iff split: sum.splits prod.splits)
    let ?req = "pull_requested_heads E snapshot"
    have names: "\<forall>r \<in> set (rs_refs snapshot). ref_name_wf (ar_name r)"
      using pull_snapshot_Inr(2) [OF start(2)] by blast
    obtain d1 oc' report where before: "keeps_refs E d d1" "pr_pages report \<le> pul_max_pages (pc_limits cfg)"
        "pr_received report = pr_inserted report + pr_already_present report"
        and last: "(\<exists>e. r = Inl e) \<and> d' = d1 \<or> pull_finish E cfg (rs_refs snapshot) oc' report d1 = (r, d')"
    proof (cases "?req = []")
      case True
      show thesis
        by (rule that [of d "ps_report pull_start" "oc 0"])
          (use assms(2,4) start True in \<open>simp_all add: pull_def keeps_refs_refl pull_start_def\<close>)
    next
      case nonempty: False
      then obtain expected q d1 where
        loop: "pull_loop E cfg client net oc ?req known expected pull_start d = (q, d1)"
        and q: "case q of Inl e \<Rightarrow> r = Inl e \<and> d' = d1
          | Inr report \<Rightarrow> pull_finish E cfg (rs_refs snapshot) (oc (pr_pages report)) report d1 = (r, d')"
        using assms(4) start False
        by (auto simp: pull_def Let_def split: sum.splits prod.splits)
      note spec = pull_loop_spec [OF assms(1,3,2) loop]
      show thesis
      proof (cases q)
        case (Inl e)
        show thesis
          by (rule that [of d1 "ps_report pull_start"])
            (use spec q Inl in \<open>auto simp: pull_start_def\<close>)
      next
        case (Inr report)
        show thesis
          by (rule that [of d1 report "oc (pr_pages report)"])
            (use spec q Inr in \<open>auto simp: pull_start_def\<close>)
      qed
    qed
    have same: "?refs d1 = ?refs d" using before(1) by (simp add: keeps_refs_def remote_view_def)
    from last show ?thesis
    proof
      assume "(\<exists>e. r = Inl e) \<and> d' = d1"
      then show ?thesis using before(1) by blast
    next
      assume fin: "pull_finish E cfg (rs_refs snapshot) oc' report d1 = (r, d')"
      from pull_finish_spec [OF assms(1) keeps_refs_inv [OF before(1)] assms(3) names fin]
      show ?thesis
      proof
        assume "d' = d1 \<and> (\<exists>e. r = Inl e)"
        then show ?thesis using before(1) by blast
      next
        assume R: "refs_replaced E cfg (rs_refs snapshot) d1 d' \<and>
          (r = Inl (SyncStore IndeterminateCommit) \<or>
           (\<exists>n. r = Inr (report\<lparr>pr_remote_refs_updated := n\<rparr>) \<and>
             n = card {name. ?refs d1 name \<noteq> map_of (map ref_pair (rs_refs snapshot)) name}))"
        then have rep: "refs_replaced E cfg (rs_refs snapshot) d d'"
          using keeps_refs_replaced [OF before(1)] by blast
        then have "?refs d' = map_of (map ref_pair (rs_refs snapshot))" by (simp add: refs_replaced_def)
        with R rep start(1,2) before same show ?thesis by auto
      qed
    qed
  qed
qed

lemma pull_requests:
  assumes "\<forall>k \<le> pul_max_pages (pc_limits cfg). net k = net' k"
  shows "pull E getenv built cfg net oc d = pull E getenv built cfg net' oc d"
proof -
  have "pull_loop E cfg client net oc requested known expected pull_start d =
      pull_loop E cfg client net' oc requested known expected pull_start d" for client requested known expected
    using assms by (intro pull_loop_requests) (auto simp: pull_start_def)
  moreover have "net 0 = net' 0" using assms by blast
  ultimately show ?thesis unfolding pull_def by (simp only:)
qed

end
