(* ===== verification/Header_Guard.thy ===== *)
theory Header_Guard
  imports Http_Server
begin

text \<open>
  The stream wrapper of \<open>src/src/http.rs\<close> that bounds the header section of a connection while
  its bytes arrive in pieces: \<open>HeaderGuardStream\<close>. Whatever the pieces are, the outcome is the
  one of looking at the whole input.
\<close>

section \<open>The stream\<close>

datatype io_error = InvalidData | TimedOut | InnerIo

record guard_stream =
  hg_timer :: bool
  hg_header_bytes :: nat
  hg_tail :: bytes
  hg_complete :: bool

definition guard_stream_new :: guard_stream where
  "guard_stream_new = \<lparr>hg_timer = False, hg_header_bytes = 0, hg_tail = [], hg_complete = False\<rparr>"

definition header_terminator :: bytes where
  "header_terminator = [13, 10, 13, 10]"

text \<open>\<open>windows(4).position\<close>.\<close>

fun find_terminator :: "bytes \<Rightarrow> nat option" where
  "find_terminator (a # b # c # d # rest) =
     (if [a, b, c, d] = header_terminator then Some 0
      else map_option Suc (find_terminator (b # c # d # rest)))"
| "find_terminator _ = None"

definition observe :: "bytes \<Rightarrow> guard_stream \<Rightarrow> (io_error + unit) \<times> guard_stream" where
  "observe bytes s =
     (if hg_complete s then (Inr (), s)
      else case checked_add (hg_header_bytes s) (length bytes) of
        None \<Rightarrow> (Inl InvalidData, s)
      | Some header_bytes \<Rightarrow>
          let seen_before = hg_header_bytes s;
              s = s\<lparr>hg_header_bytes := header_bytes\<rparr>;
              combined = hg_tail s @ bytes
          in case find_terminator combined of
               Some position \<Rightarrow>
                 (case checked_add (seen_before - length (hg_tail s)) (position + 4) of
                    None \<Rightarrow> (Inl InvalidData, s)
                  | Some header_end \<Rightarrow>
                      if header_end > MAX_HTTP_HEADER_BYTES then (Inl InvalidData, s)
                      else (Inr (), s\<lparr>hg_complete := True, hg_timer := False\<rparr>))
             | None \<Rightarrow>
                 if header_bytes > MAX_HTTP_HEADER_BYTES then (Inl InvalidData, s)
                 else (Inr (), s\<lparr>hg_tail := drop (length combined - min (length combined) 3) combined\<rparr>))"

text \<open>One poll: whether the timer has fired, and what the connection below returns.\<close>

datatype inner_poll = InnerPending | InnerFailed | InnerRead bytes
datatype read_poll = ReadPending | ReadFailed io_error | ReadReady bytes

definition guard_poll_read :: "bool \<Rightarrow> inner_poll \<Rightarrow> guard_stream \<Rightarrow> read_poll \<times> guard_stream" where
  "guard_poll_read timer_fired inner s =
     (let s = (if hg_complete s then s else s\<lparr>hg_timer := True\<rparr>) in
      if \<not> hg_complete s \<and> timer_fired then (ReadFailed TimedOut, s)
      else case inner of
        InnerPending \<Rightarrow> (ReadPending, s)
      | InnerFailed \<Rightarrow> (ReadFailed InnerIo, s)
      | InnerRead bytes \<Rightarrow>
          (case observe bytes s of
             (Inl e, s) \<Rightarrow> (ReadFailed e, s)
           | (Inr u, s) \<Rightarrow> (ReadReady bytes, s)))"

text \<open>Feeding the pieces one after the other, until one is refused.\<close>

fun observe_all :: "bytes list \<Rightarrow> guard_stream \<Rightarrow> (io_error + unit) \<times> guard_stream" where
  "observe_all [] s = (Inr (), s)"
| "observe_all (b # bs) s =
     (case observe b s of (Inl e, s) \<Rightarrow> (Inl e, s) | (Inr u, s) \<Rightarrow> observe_all bs s)"

section \<open>The reference\<close>

text \<open>The end of the header section in the whole input, and whether it is within the bound.\<close>

definition header_end :: "bytes \<Rightarrow> nat option" where
  "header_end input = map_option (\<lambda>p. p + 4) (find_terminator input)"

definition header_accepted :: "bytes \<Rightarrow> bool" where
  "header_accepted input \<longleftrightarrow>
     (case header_end input of
        Some n \<Rightarrow> n \<le> MAX_HTTP_HEADER_BYTES
      | None \<Rightarrow> length input \<le> MAX_HTTP_HEADER_BYTES)"

definition terminator_at :: "bytes \<Rightarrow> nat \<Rightarrow> bool" where
  "terminator_at b p \<longleftrightarrow> take 4 (drop p b) = header_terminator"

lemma terminator_at_length: "terminator_at b p \<Longrightarrow> p + 4 \<le> length b"
proof -
  assume "terminator_at b p"
  then have "length (take 4 (drop p b)) = 4"
    by (simp only: terminator_at_def) (simp add: header_terminator_def)
  then show ?thesis by simp
qed

lemma terminator_at_append: "q + 4 \<le> length xs \<Longrightarrow> terminator_at (xs @ ys) q \<longleftrightarrow> terminator_at xs q"
  by (simp add: terminator_at_def)

lemma find_terminator_cases:
  "case find_terminator b of
     None \<Rightarrow> \<forall>p. \<not> terminator_at b p
   | Some p \<Rightarrow> terminator_at b p \<and> (\<forall>q < p. \<not> terminator_at b q)"
proof (induction b rule: find_terminator.induct)
  case (1 a b c d rest)
  let ?t = "b # c # d # rest"
  have zero: "terminator_at (a # ?t) 0 \<longleftrightarrow> [a, b, c, d] = header_terminator"
    by (simp add: terminator_at_def eval_nat_numeral)
  have suc: "terminator_at (a # ?t) (Suc p) \<longleftrightarrow> terminator_at ?t p" for p
    by (simp add: terminator_at_def)
  show ?case
  proof (cases "[a, b, c, d] = header_terminator")
    case False
    then have IH: "case find_terminator ?t of None \<Rightarrow> \<forall>p. \<not> terminator_at ?t p
        | Some p \<Rightarrow> terminator_at ?t p \<and> (\<forall>q < p. \<not> terminator_at ?t q)" by (rule 1)
    have split: "(\<forall>p. \<not> terminator_at (a # ?t) p) \<longleftrightarrow> (\<forall>p. \<not> terminator_at ?t p)"
      "(\<forall>q < Suc p. \<not> terminator_at (a # ?t) q) \<longleftrightarrow> (\<forall>q < p. \<not> terminator_at ?t q)" for p
      using False zero suc by (metis not0_implies_Suc, metis Suc_less_eq not0_implies_Suc zero_less_Suc)
    from IH False show ?thesis by (simp add: suc split split: option.splits)
  qed (use zero in simp)
qed (auto dest: terminator_at_length)

lemma find_terminator_None: "find_terminator b = None \<longleftrightarrow> (\<forall>p. \<not> terminator_at b p)"
  using find_terminator_cases [of b] by (auto split: option.splits)

lemma find_terminator_Some:
  "find_terminator b = Some p \<longleftrightarrow> terminator_at b p \<and> (\<forall>q < p. \<not> terminator_at b q)"
  using find_terminator_cases [of b]
  by (auto split: option.splits) (metis nat_neq_iff)

text \<open>Three bytes of what came before are enough to find a terminator across a border.\<close>

lemma find_terminator_tail:
  assumes "find_terminator xs = None"
  defines "k \<equiv> length xs - min (length xs) 3"
  shows "find_terminator (xs @ ys) = map_option ((+) k) (find_terminator (drop k xs @ ys))"
proof -
  have shift: "terminator_at (xs @ ys) (k + q) \<longleftrightarrow> terminator_at (drop k xs @ ys) q" for q
  proof -
    have "k \<le> length xs" by (simp add: k_def)
    then have "drop (k + q) (xs @ ys) = drop q (drop k xs @ ys)"
      by (metis add.commute append_eq_append_conv_if append_take_drop_id drop_append drop_drop
          append_eq_conv_conj diff_is_0_eq' drop0)
    then show ?thesis by (simp add: terminator_at_def)
  qed
  have early: "\<not> terminator_at (xs @ ys) q" if "q < k" for q
  proof -
    have "q + 4 \<le> length xs" using that by (auto simp: k_def)
    then show ?thesis using assms(1) by (simp add: terminator_at_append find_terminator_None)
  qed
  show ?thesis
  proof (cases "find_terminator (drop k xs @ ys)")
    case None
    then have "\<not> terminator_at (xs @ ys) q" for q
      using early [of q] shift [of "q - k"] by (cases "q < k") (auto simp: find_terminator_None)
    then have "find_terminator (xs @ ys) = None" by (simp add: find_terminator_None)
    then show ?thesis using None by simp
  next
    case (Some p)
    have "\<not> terminator_at (xs @ ys) q" if "q < k + p" for q
      using early [of q] shift [of "q - k"] Some that by (cases "q < k") (auto simp: find_terminator_Some)
    then have "find_terminator (xs @ ys) = Some (k + p)"
      using Some shift [of p] by (simp add: find_terminator_Some)
    then show ?thesis using Some by simp
  qed
qed

section \<open>The pieces do not matter\<close>

definition guard_seen :: "bytes \<Rightarrow> guard_stream \<Rightarrow> bool" where
  "guard_seen input s \<longleftrightarrow>
     (if hg_complete s then (\<exists>n. header_end input = Some n \<and> n \<le> MAX_HTTP_HEADER_BYTES)
      else find_terminator input = None \<and> hg_header_bytes s = length input \<and>
        length input \<le> MAX_HTTP_HEADER_BYTES \<and>
        hg_tail s = drop (length input - min (length input) 3) input)"

lemma find_terminator_append: "find_terminator xs = Some p \<Longrightarrow> find_terminator (xs @ ys) = Some p"
proof -
  assume p: "find_terminator xs = Some p"
  have "p + 4 \<le> length xs" using p by (auto simp: find_terminator_Some dest: terminator_at_length)
  then show ?thesis using p by (auto simp: find_terminator_Some terminator_at_append)
qed

lemma observe_simps:
  assumes "\<not> hg_complete s" "checked_add (hg_header_bytes s) (length b) = Some n"
  shows "find_terminator (hg_tail s @ b) = None \<Longrightarrow> observe b s =
      (if n > MAX_HTTP_HEADER_BYTES then (Inl InvalidData, s\<lparr>hg_header_bytes := n\<rparr>)
       else (Inr (), s\<lparr>hg_header_bytes := n, hg_tail := drop (length (hg_tail s @ b) -
         min (length (hg_tail s @ b)) 3) (hg_tail s @ b)\<rparr>))"
    "find_terminator (hg_tail s @ b) = Some p \<Longrightarrow>
      checked_add (hg_header_bytes s - length (hg_tail s)) (p + 4) = Some m \<Longrightarrow> observe b s =
      (if m > MAX_HTTP_HEADER_BYTES then (Inl InvalidData, s\<lparr>hg_header_bytes := n\<rparr>)
       else (Inr (), s\<lparr>hg_header_bytes := n, hg_complete := True, hg_timer := False\<rparr>))"
  using assms by (simp_all add: observe_def Let_def del: checked_add_Some length_append)

lemma observe_step:
  assumes "guard_seen input s" "length bytes < 2 ^ 63"
  shows "case observe bytes s of
      (Inr u, s') \<Rightarrow> guard_seen (input @ bytes) s' \<and> header_accepted (input @ bytes)
    | (Inl e, s') \<Rightarrow> \<not> header_accepted (input @ bytes @ later)"
proof (cases "hg_complete s")
  case True
  then obtain n where "header_end input = Some n" "n \<le> MAX_HTTP_HEADER_BYTES"
    using assms(1) by (auto simp: guard_seen_def)
  then have "header_end (input @ bytes) = Some n"
    by (auto simp: header_end_def find_terminator_append)
  then show ?thesis using True \<open>n \<le> MAX_HTTP_HEADER_BYTES\<close>
    by (simp add: observe_def guard_seen_def header_accepted_def)
next
  case False
  let ?k = "length input - min (length input) 3"
  have seen: "find_terminator input = None" "hg_header_bytes s = length input"
    "length input \<le> MAX_HTTP_HEADER_BYTES" "hg_tail s = drop ?k input"
    using assms(1) False by (auto simp: guard_seen_def)
  have fits: "length input + length bytes < usize_limit" "?k + (p + 4) < usize_limit"
    if "p \<le> length input + length bytes" for p
    using seen(3) assms(2) that by (auto simp: MAX_HTTP_HEADER_BYTES_def usize_limit_def)
  note find = find_terminator_tail [OF seen(1), of bytes]
  have k: "length input - length (hg_tail s) = ?k" by (simp add: seen(4))
  show ?thesis
  proof (cases "find_terminator (drop ?k input @ bytes)")
    case (Some p)
    then have whole: "find_terminator (input @ bytes) = Some (?k + p)" using find by simp
    then have "?k + p + 4 \<le> length (input @ bytes)"
      by (auto simp: find_terminator_Some dest: terminator_at_length)
    then have add: "checked_add ?k (p + 4) = Some (?k + (p + 4))"
      "checked_add (length input) (length bytes) = Some (length input + length bytes)"
      using fits [of p] by (auto simp: checked_add_def)
    have "find_terminator ((input @ bytes) @ later) = Some (?k + p)"
      by (rule find_terminator_append [OF whole])
    then have ends: "header_end (input @ bytes) = Some (?k + (p + 4))"
      "header_end (input @ bytes @ later) = Some (?k + (p + 4))"
      using whole by (simp_all add: header_end_def)
    have "observe bytes s =
      (if ?k + (p + 4) > MAX_HTTP_HEADER_BYTES
       then (Inl InvalidData, s\<lparr>hg_header_bytes := length input + length bytes\<rparr>)
       else (Inr (), s\<lparr>hg_header_bytes := length input + length bytes, hg_complete := True, hg_timer := False\<rparr>))"
      using observe_simps(2) [OF False, of bytes "length input + length bytes" p "?k + (p + 4)"] Some add
      by (simp only: seen(2,4) length_drop k [unfolded seen(4) length_drop])
    then show ?thesis
      unfolding guard_seen_def header_accepted_def ends by (simp only: split: if_split) simp
  next
    case None
    then have whole: "find_terminator (input @ bytes) = None" using find by simp
    have add: "checked_add (length input) (length bytes) = Some (length input + length bytes)"
      using fits [of 0] by (auto simp: checked_add_def)
    let ?c = "drop ?k input @ bytes" and ?n = "length input + length bytes"
    have obs: "observe bytes s =
      (if ?n > MAX_HTTP_HEADER_BYTES then (Inl InvalidData, s\<lparr>hg_header_bytes := ?n\<rparr>)
       else (Inr (), s\<lparr>hg_header_bytes := ?n, hg_tail := drop (length ?c - min (length ?c) 3) ?c\<rparr>))"
      using observe_simps(1) [OF False, of bytes ?n] None add by (simp only: seen(2,4))
    show ?thesis
    proof (cases "?n > MAX_HTTP_HEADER_BYTES")
      case True
      have "\<not> header_accepted (input @ bytes @ later)"
      proof (cases "find_terminator ((input @ bytes) @ later)")
        case None
        then show ?thesis using True by (simp add: header_accepted_def header_end_def)
      next
        case (Some q)
        then have "terminator_at ((input @ bytes) @ later) q" by (simp only: find_terminator_Some)
        then have "\<not> q + 4 \<le> length (input @ bytes)"
          using terminator_at_append whole by (metis find_terminator_None)
        then show ?thesis using Some True by (simp add: header_accepted_def header_end_def)
      qed
      then show ?thesis using obs True by simp
    next
      case small: False
      have "drop (length ?c - min (length ?c) 3) ?c = drop (?n - min ?n 3) (input @ bytes)"
      proof -
        have c: "?c = drop ?k (input @ bytes)" by simp
        have "length ?c - min (length ?c) 3 + ?k = ?n - min ?n 3" by auto
        then show ?thesis unfolding c drop_drop by simp
      qed
      then show ?thesis
        unfolding obs using False small whole
        by (simp add: guard_seen_def header_accepted_def header_end_def)
    qed
  qed
qed

lemma observe_all_exact:
  assumes "guard_seen input s" "\<forall>b \<in> set pieces. length b < 2 ^ 63" "header_accepted input"
  shows "fst (observe_all pieces s) = Inr () \<longleftrightarrow> header_accepted (input @ concat pieces)"
    "fst (observe_all pieces s) = Inr () \<longrightarrow> guard_seen (input @ concat pieces) (snd (observe_all pieces s))"
proof -
  have "(fst (observe_all pieces s) = Inr () \<longleftrightarrow> header_accepted (input @ concat pieces)) \<and>
    (fst (observe_all pieces s) = Inr () \<longrightarrow> guard_seen (input @ concat pieces) (snd (observe_all pieces s)))"
    using assms
  proof (induction pieces arbitrary: input s)
    case (Cons b bs)
    have step: "case observe b s of
        (Inr u, s') \<Rightarrow> guard_seen (input @ b) s' \<and> header_accepted (input @ b)
      | (Inl e, s') \<Rightarrow> \<not> header_accepted (input @ b @ concat bs)"
      using Cons.prems by (intro observe_step) auto
    obtain r s' where r: "observe b s = (r, s')" by (cases "observe b s")
    show ?case
    proof (cases r)
      case (Inl e)
      then show ?thesis using r step by simp
    next
      case (Inr u)
      then have "guard_seen (input @ b) s'" "header_accepted (input @ b)" using r step by simp_all
      from Cons.IH [OF this(1) _ this(2)] Cons.prems(2) show ?thesis using r Inr by simp
    qed
  qed simp
  then show "fst (observe_all pieces s) = Inr () \<longleftrightarrow> header_accepted (input @ concat pieces)"
    "fst (observe_all pieces s) = Inr () \<longrightarrow> guard_seen (input @ concat pieces) (snd (observe_all pieces s))"
    by blast+
qed

lemma guard_stream_new_seen: "guard_seen [] guard_stream_new" "header_accepted []"
  by (simp_all add: guard_seen_def guard_stream_new_def header_accepted_def header_end_def)

end
