(* ===== verification/Http_Facts.thy ===== *)
theory Http_Facts
  imports Header_Guard
begin

text \<open>
  The guard of the synchronisation server as a state machine: requests enter, run concurrently
  and leave in any order. Permits bound the number of running handlers, and only requests that
  carried the token and kept the header limits ever reach a handler.
\<close>

section \<open>Status codes\<close>

lemma set_header_sel [simp]:
  "rp_status (set_header name v r) = rp_status r" "rp_body (set_header name v r) = rp_body r"
  by (simp_all add: set_header_def)

lemma json_response_sel [simp]:
  "rp_status (json_response status wire) = status" "rp_body (json_response status wire) = wire"
  by (simp_all add: json_response_def)

lemma error_response_status [simp]: "rp_status (error_response E status code rid) = status"
  by (simp add: error_response_def Let_def)

definition refusal_statuses :: "nat set" where
  "refusal_statuses = {400, 401, 404, 405, 408, 409, 413, 414, 431, 500, 503}"

lemma error_statuses:
  "rp_status (http_store_error E err rid) \<in> refusal_statuses"
  "rp_status (http_sync_error E serr rid) \<in> refusal_statuses"
proof -
  show store: "rp_status (http_store_error E err rid) \<in> refusal_statuses" for err
    by (cases err) (simp_all add: http_store_error_def refusal_statuses_def)
  show "rp_status (http_sync_error E serr rid) \<in> refusal_statuses"
    using store by (cases serr) (simp_all add: http_sync_error_def, simp_all add: refusal_statuses_def)
qed

section \<open>Header limits\<close>

lemma header_total_Some:
  "header_total hs acc = Some n \<longleftrightarrow>
    n = acc + (\<Sum>(name, v)\<leftarrow>hs. length name + length v) \<and>
    (\<forall>(name, v) \<in> set hs. length v \<le> MAX_HTTP_HEADER_VALUE_BYTES) \<and> (hs = [] \<or> n < usize_limit)"
proof (induction hs acc rule: header_total.induct)
  case (2 name v hs acc)
  then show ?case by (auto simp: checked_add_def)
qed auto

lemma headers_exceed_iff:
  "headers_exceed hs \<longleftrightarrow> length hs > MAX_HTTP_HEADERS \<or>
    (\<exists>(name, v) \<in> set hs. length v > MAX_HTTP_HEADER_VALUE_BYTES) \<or>
    (\<Sum>(name, v)\<leftarrow>hs. length name + length v) > MAX_HTTP_HEADER_BYTES"
proof (cases "length hs > MAX_HTTP_HEADERS")
  case False
  let ?n = "\<Sum>(name, v)\<leftarrow>hs. length name + length v"
  show ?thesis
  proof (cases "header_total hs 0")
    case (Some n)
    then show ?thesis using False header_total_Some [of hs 0 n] by (auto simp: headers_exceed_def not_le)
  next
    case None
    have "\<not> ((\<forall>(name, v) \<in> set hs. length v \<le> MAX_HTTP_HEADER_VALUE_BYTES) \<and> (hs = [] \<or> ?n < usize_limit))"
      using None header_total_Some [of hs 0 ?n] by auto
    then show ?thesis
      using False None by (fastforce simp: headers_exceed_def MAX_HTTP_HEADER_BYTES_def usize_limit_def not_le)
  qed
qed (simp add: headers_exceed_def)

section \<open>The server as a state machine\<close>

record server =
  sv_app :: app_state
  sv_running :: "(string \<times> http_request) list"

datatype server_event =
    Refused http_request http_response
  | Admitted http_request string
  | Answered http_request http_response

text \<open>\<open>d\<close> is the store the handler reads; other tasks may write to it between two steps.\<close>

inductive server_step ::
  "env \<Rightarrow> (bytes \<Rightarrow> bytes \<Rightarrow> bytes) \<Rightarrow> (http_request \<Rightarrow> endpoint) \<Rightarrow> db \<Rightarrow> server \<Rightarrow> server_event \<Rightarrow> server \<Rightarrow> bool"
  for E keyed_hash router d where
  refuse: "guard_enter E keyed_hash request (sv_app s) = (Inl response, app) \<Longrightarrow>
    server_step E keyed_hash router d s (Refused request response) (s\<lparr>sv_app := app\<rparr>)"
| admit: "guard_enter E keyed_hash request (sv_app s) = (Inr rid, app) \<Longrightarrow>
    server_step E keyed_hash router d s (Admitted request rid)
      (s\<lparr>sv_app := app, sv_running := (rid, request) # sv_running s\<rparr>)"
| answer: "sv_running s = xs @ (rid, request) # ys \<Longrightarrow>
    guard_leave E router d timed_out rid request (sv_app s) = (response, app) \<Longrightarrow>
    server_step E keyed_hash router d s (Answered request response)
      (s\<lparr>sv_app := app, sv_running := xs @ ys\<rparr>)"

inductive_cases server_step_Refused: "server_step E keyed_hash router d s (Refused request response) s'"
inductive_cases server_step_Admitted: "server_step E keyed_hash router d s (Admitted request rid) s'"
inductive_cases server_step_Answered: "server_step E keyed_hash router d s (Answered request response) s'"

inductive server_reachable ::
  "env \<Rightarrow> (bytes \<Rightarrow> bytes \<Rightarrow> bytes) \<Rightarrow> (http_request \<Rightarrow> endpoint) \<Rightarrow> app_state \<Rightarrow> server \<Rightarrow> bool"
  for E keyed_hash router app where
  start: "server_reachable E keyed_hash router app \<lparr>sv_app = app, sv_running = []\<rparr>"
| step: "server_reachable E keyed_hash router app s \<Longrightarrow> server_step E keyed_hash router d s event s' \<Longrightarrow>
    server_reachable E keyed_hash router app s'"

text \<open>What a request has to satisfy to get past the guard.\<close>

definition request_allowed :: "env \<Rightarrow> bytes \<Rightarrow> http_request \<Rightarrow> bool" where
  "request_allowed E auth_hash request \<longleftrightarrow>
     (case rq_target request of None \<Rightarrow> True | Some t \<Rightarrow> length t \<le> MAX_REQUEST_TARGET_BYTES) \<and>
     \<not> headers_exceed (rq_headers request) \<and>
     (\<exists>v. header_values (rq_headers request) ''authorization'' = [v] \<and> token_hash E v = auth_hash)"

lemma authenticated_iff:
  "authenticated E hs expected \<longleftrightarrow> (\<exists>v. header_values hs ''authorization'' = [v] \<and> token_hash E v = expected)"
  by (auto simp: authenticated_def token_hash_def split: list.splits)

lemma guard_enter_cases:
  assumes "guard_enter E keyed_hash request s = (r, s')"
  obtains response where "r = Inl response" "rp_status response \<in> refusal_statuses"
      "as_permits s' = as_permits s" "as_auth_hash s' = as_auth_hash s" "as_limits s' = as_limits s"
      "as_counter s \<le> as_counter s'"
  | rid where "r = Inr rid" "request_allowed E (as_auth_hash s) request" "as_permits s = Suc (as_permits s')"
      "as_auth_hash s' = as_auth_hash s" "as_limits s' = as_limits s" "as_counter s' = Suc (as_counter s)"
proof (cases "next_request_id E keyed_hash s")
  case None
  then show thesis
    using assms by (intro that(1)) (auto simp: guard_enter_def refusal_statuses_def)
next
  case (Some p)
  obtain rid s1 where p: "p = (rid, s1)" by (cases p)
  have s1: "s1 = s\<lparr>as_counter := Suc (as_counter s)\<rparr>"
    using Some p by (auto simp: next_request_id_def split: if_splits)
  have enter: "guard_enter E keyed_hash request s =
      (if (case rq_target request of None \<Rightarrow> 0 | Some t \<Rightarrow> length t) > MAX_REQUEST_TARGET_BYTES
       then (Inl (error_response E 414 ''limit_exceeded'' (Some rid)), s1)
       else if headers_exceed (rq_headers request)
       then (Inl (error_response E 431 ''limit_exceeded'' (Some rid)), s1)
       else if \<not> authenticated E (rq_headers request) (as_auth_hash s1)
       then (Inl (error_response E 401 ''authentication_failed'' (Some rid)), s1)
       else if as_permits s1 = 0
       then (Inl (error_response E 503 ''unavailable'' (Some rid)), s1)
       else (Inr rid, s1\<lparr>as_permits := as_permits s1 - 1\<rparr>))"
    using Some p by (simp add: guard_enter_def)
  show thesis
  proof (cases r)
    case (Inl response)
    show thesis
      by (rule that(1) [OF Inl])
        (use assms enter s1 Inl in \<open>auto simp: refusal_statuses_def split: if_splits\<close>)
  next
    case (Inr rid')
    show thesis
      by (rule that(2) [OF Inr])
        (use assms enter s1 Inr in \<open>auto simp: request_allowed_def authenticated_iff split: if_splits option.splits\<close>)
  qed
qed

text \<open>The invariant: every permit is free or held by a running request, which was allowed in.\<close>

definition server_inv :: "env \<Rightarrow> app_state \<Rightarrow> server \<Rightarrow> bool" where
  "server_inv E app s \<longleftrightarrow>
     as_permits (sv_app s) + length (sv_running s) = as_permits app \<and>
     as_auth_hash (sv_app s) = as_auth_hash app \<and> as_limits (sv_app s) = as_limits app \<and>
     (\<forall>(rid, request) \<in> set (sv_running s). request_allowed E (as_auth_hash app) request)"

lemma server_step_inv:
  assumes "server_step E keyed_hash router d s event s'" "server_inv E app s"
  shows "server_inv E app s'"
  using assms
proof (induction rule: server_step.induct)
  case (refuse request s response app')
  show ?case by (rule guard_enter_cases [OF refuse(1)]) (use refuse(2) in \<open>auto simp: server_inv_def\<close>)
next
  case (admit request s rid app')
  show ?case by (rule guard_enter_cases [OF admit(1)]) (use admit(2) in \<open>auto simp: server_inv_def\<close>)
next
  case (answer s xs rid request ys timed_out response app')
  then show ?case by (auto simp: server_inv_def guard_leave_def)
qed

lemma server_reachable_inv: "server_reachable E keyed_hash router app s \<Longrightarrow> server_inv E app s"
proof (induction rule: server_reachable.induct)
  case start
  then show ?case by (simp add: server_inv_def)
next
  case (step s d event s')
  then show ?case by (blast intro: server_step_inv)
qed

lemma server_answers:
  assumes "server_reachable E keyed_hash router app s" "server_step E keyed_hash router d s event s'"
  shows "case event of
      Refused request response \<Rightarrow> rp_status response \<in> refusal_statuses \<and> sv_running s' = sv_running s
    | Admitted request rid \<Rightarrow> request_allowed E (as_auth_hash app) request
    | Answered request response \<Rightarrow> request_allowed E (as_auth_hash app) request \<and>
        (\<exists>rid. (rid, request) \<in> set (sv_running s) \<and>
          (rp_status response = 408 \<or>
           rp_status response = rp_status (run_endpoint E router (as_limits app) d rid request) \<and>
           rp_body response = rp_body (run_endpoint E router (as_limits app) d rid request)))"
proof -
  have inv: "server_inv E app s" by (rule server_reachable_inv [OF assms(1)])
  show ?thesis
  proof (cases event)
    case (Refused request response)
    from assms(2) [unfolded Refused] show ?thesis
      by (rule server_step_Refused) (auto simp: Refused elim: guard_enter_cases)
  next
    case (Admitted request rid)
    from assms(2) [unfolded Admitted] show ?thesis
      by (rule server_step_Admitted) (use inv in \<open>auto simp: Admitted server_inv_def elim: guard_enter_cases\<close>)
  next
    case (Answered request response)
    from assms(2) [unfolded Answered] show ?thesis
    proof (rule server_step_Answered)
      fix xs rid ys timed_out app'
      assume run: "sv_running s = xs @ (rid, request) # ys"
        and leave: "guard_leave E router d timed_out rid request (sv_app s) = (response, app')"
      have "request_allowed E (as_auth_hash app) request" "as_limits (sv_app s) = as_limits app"
        using inv run by (auto simp: server_inv_def)
      then show ?thesis using run leave Answered by (auto simp: guard_leave_def)
    qed
  qed
qed

section \<open>What the handlers reveal\<close>

text \<open>A handler answers with 200 or refuses; a refusal carries no data of the store.\<close>

lemma answer_export_status: "rp_status (answer_export E limits d rid body) \<in> insert 200 refusal_statuses"
  using error_statuses [of E _ rid]
  by (auto simp: answer_export_def refusal_statuses_def split: sum.splits prod.splits if_splits)

end
