(* ===== verification/Sample_Sync.thy ===== *)
theory Sample_Sync
  imports Http_Facts Sample_Bundle
begin

text \<open>
  Concrete messages and servers of the synchronisation protocol in the sample environment.
\<close>

section \<open>A server with one running request\<close>

definition sample_token :: bytes where
  "sample_token = string_bytes ''Bearer token1_''"

definition sample_request :: http_request where
  "sample_request = \<lparr>rq_method = ''GET'', rq_target = Some ''/v1/refs'',
     rq_headers = [(''authorization'', sample_token)], rq_body = Body []\<rparr>"

definition sample_hash :: "bytes \<Rightarrow> bytes \<Rightarrow> bytes" where
  "sample_hash key b = []"

definition sample_app_state :: app_state where
  "sample_app_state = \<lparr>as_auth_hash = token_hash sample_env sample_token, as_seed = [], as_counter = 0,
     as_permits = 16, as_limits = default_transport_limits\<rparr>"

lemma sample_app:
  "app_state_new (token_hash sample_env sample_token) default_transport_limits (Some []) = Inr sample_app_state"
  by (simp add: app_state_new_def sample_app_state_def default_transport_limits_def
      MAX_CONCURRENT_HTTP_REQUESTS_def)

definition sample_server :: server where
  "sample_server = \<lparr>sv_app = sample_app_state\<lparr>as_counter := 1, as_permits := 15\<rparr>,
     sv_running = [(''req1_'', sample_request)]\<rparr>"

lemma sample_server_running: "sv_running sample_server = [(''req1_'', sample_request)]"
  by (simp add: sample_server_def)

lemma sample_enter:
  "guard_enter sample_env sample_hash sample_request sample_app_state =
    (Inr ''req1_'', sample_app_state\<lparr>as_counter := 1, as_permits := 15\<rparr>)"
proof -
  have "b64_encode sample_env [] = []" by (simp add: encode64_def)
  then have rid: "next_request_id sample_env sample_hash sample_app_state =
      Some (''req1_'', sample_app_state\<lparr>as_counter := 1\<rparr>)"
    by (simp add: next_request_id_def sample_hash_def sample_app_state_def)
  have "\<not> headers_exceed (rq_headers sample_request)"
    by (simp add: headers_exceed_iff sample_request_def sample_token_def MAX_HTTP_HEADERS_def
        MAX_HTTP_HEADER_VALUE_BYTES_def MAX_HTTP_HEADER_BYTES_def)
  moreover have "authenticated sample_env (rq_headers sample_request) (as_auth_hash sample_app_state)"
    by (simp add: authenticated_iff header_values_def sample_request_def sample_app_state_def)
  ultimately show ?thesis
    using rid
    by (simp add: guard_enter_def sample_request_def MAX_REQUEST_TARGET_BYTES_def)
      (simp add: sample_app_state_def)
qed

lemma sample_server_reachable:
  "server_reachable sample_env sample_hash (\<lambda>_. RefsEndpoint) sample_app_state sample_server"
proof -
  have "server_step sample_env sample_hash (\<lambda>_. RefsEndpoint) d
      \<lparr>sv_app = sample_app_state, sv_running = []\<rparr> (Admitted sample_request ''req1_'') sample_server" for d
    using server_step.admit [of sample_env sample_hash sample_request
        "\<lparr>sv_app = sample_app_state, sv_running = []\<rparr>"] sample_enter
    by (simp add: sample_server_def)
  then show ?thesis by (rule server_reachable.step [OF server_reachable.start])
qed

end
