(* ===== verification/Provider.thy ===== *)
theory Provider
  imports Store_Dag
begin

text \<open>
  The recording of provider invocations of \<open>src/src/provider.rs\<close>: the request committed before
  the provider runs, the linked result, and the subprocess transport. The provider, the child
  process and what other writers do to the store in between are parameters.
\<close>

definition PROVIDER_INPUT_LIMIT :: nat where "PROVIDER_INPUT_LIMIT = 1048576"
definition PROVIDER_RESPONSE_LIMIT :: nat where "PROVIDER_RESPONSE_LIMIT = 1048576"
definition JSONL_LINE_LIMIT :: nat where "JSONL_LINE_LIMIT = 2097152"
definition MAX_INVOCATION_ANCESTRY :: nat where "MAX_INVOCATION_ANCESTRY = 1024"
definition ERROR_DETAIL_LIMIT :: nat where "ERROR_DETAIL_LIMIT = 1024"

datatype provider_error =
    ProviderInvalidConfig | ProviderValidation | ProviderDeclared | ProviderTransport
  | ProviderMalformed | ProviderTimeout | ProviderLimitExceeded
  | PostExecutionConflict event_id "event_id option"
  | ProviderStore store_error | ProviderInternal

text \<open>\<open>Failure\<close> has a code and a detail.\<close>

datatype provider_outcome = ProviderResponse json | ProviderFailure string string
datatype outcome_kind = ResponseOutcome | ErrorOutcome

record invocation_context =
  ic_context :: context_id
  ic_selected_head :: event_id
  ic_ancestry :: "signed_event list"
  ic_request_event :: event_id
  ic_invocation :: string
  ic_input :: json

record invocation_request =
  iq_context :: context_id
  iq_branch :: string
  iq_expected_head :: event_id
  iq_input :: json

record invocation_report =
  ir_request_event :: event_id
  ir_invocation :: string
  ir_outcome :: outcome_kind
  ir_result_event :: event_id

section \<open>Failure details\<close>

text \<open>Text is UTF-8: a character is an ASCII byte, or a byte with the continuation bytes after it.\<close>

definition continuation :: "char \<Rightarrow> bool" where
  "continuation c \<longleftrightarrow> 128 \<le> (of_char c :: nat) \<and> (of_char c :: nat) < 192"

lemma length_dropWhile_Suc [termination_simp]: "length (dropWhile P xs) < Suc (length xs)"
  by (simp add: length_dropWhile_le less_Suc_eq_le)

fun utf8_chars :: "string \<Rightarrow> string list" where
  "utf8_chars [] = []"
| "utf8_chars (c # cs) =
     (if (of_char c :: nat) < 128 then [c] # utf8_chars cs
      else (c # takeWhile continuation cs) # utf8_chars (dropWhile continuation cs))"

definition is_ascii_control :: "string \<Rightarrow> bool" where
  "is_ascii_control character \<longleftrightarrow>
     (case character of [c] \<Rightarrow> (of_char c :: nat) < 32 \<or> (of_char c :: nat) = 127 | _ \<Rightarrow> False)"

definition replacement_character :: string where
  "replacement_character = [char_of (0xef :: nat), char_of (0xbf :: nat), char_of (0xbd :: nat)]"

fun sanitize_chars :: "string list \<Rightarrow> string \<Rightarrow> string" where
  "sanitize_chars [] out = out"
| "sanitize_chars (character # characters) out =
     (let replacement = (if is_ascii_control character then replacement_character else character) in
      if length out + length replacement > ERROR_DETAIL_LIMIT then out
      else sanitize_chars characters (out @ replacement))"

definition sanitize_detail :: "string \<Rightarrow> string" where
  "sanitize_detail text = sanitize_chars (utf8_chars text) []"

section \<open>Recording an invocation\<close>

definition generate_invocation_id :: "env \<Rightarrow> bytes option \<Rightarrow> provider_error + string" where
  "generate_invocation_id E entropy =
     bindR (ok_or entropy ProviderInternal) (\<lambda>b. Inr (''inv1_'' @ b64_encode E b))"

definition request_payload :: "env \<Rightarrow> invocation_request \<Rightarrow> string \<Rightarrow> json" where
  "request_payload E request invocation_id = JObject (obj_of
     [(''input'', iq_input request), (''invocation_id'', JString invocation_id),
      (''selected_head'', JString (event_id_text E (iq_expected_head request)))])"

text \<open>Up to the signed request: the ancestry, the correlation identifier and the event.\<close>

definition prepare_request ::
  "env \<Rightarrow> signing_identity \<Rightarrow> invocation_request \<Rightarrow> bytes option \<Rightarrow> db \<Rightarrow>
    provider_error + (signed_event list \<times> string \<times> signed_event)" where
  "prepare_request E idn request entropy d =
     bindR (map_err (\<lambda>_. ProviderValidation) (canonicalize E (iq_input request))) (\<lambda>input_wire.
       if length input_wire > PROVIDER_INPUT_LIMIT then Inl ProviderLimitExceeded
       else bindR (map_err ProviderStore (project E d (iq_context request) [iq_expected_head request]
              default_projection_limits)) (\<lambda>projection.
         bindR (generate_invocation_id E entropy) (\<lambda>invocation_id.
         bindR (map_err (\<lambda>_. ProviderValidation) (create_event E idn (iq_context request)
             [iq_expected_head request] ''agent.request'' (request_payload E request invocation_id)))
           (\<lambda>event. Inr (proj_events projection, invocation_id, event)))))"

text \<open>What is recorded of an outcome.\<close>

definition recorded_payload ::
  "env \<Rightarrow> string \<Rightarrow> provider_outcome \<Rightarrow> provider_error + (outcome_kind \<times> json)" where
  "recorded_payload E invocation_id outcome =
     (case outcome of
        ProviderResponse response \<Rightarrow>
          bindR (map_err (\<lambda>_. ProviderMalformed) (canonicalize E response)) (\<lambda>wire.
            if length wire > PROVIDER_RESPONSE_LIMIT then Inl ProviderLimitExceeded
            else Inr (ResponseOutcome, JObject (obj_of
              [(''invocation_id'', JString invocation_id), (''response'', response)])))
      | ProviderFailure code detail \<Rightarrow>
          Inr (ErrorOutcome, JObject (obj_of
            [(''detail'', JString (sanitize_detail detail)), (''error_code'', JString code),
             (''invocation_id'', JString invocation_id)])))"

fun outcome_event_kind :: "outcome_kind \<Rightarrow> string" where
  "outcome_event_kind ResponseOutcome = ''agent.response''"
| "outcome_event_kind ErrorOutcome = ''agent.error''"

text \<open>
  After the provider has run. \<open>oc 1\<close> and \<open>oc 2\<close> are the outcomes of the commits, \<open>gap 2\<close> is what
  other writers do between a refused move of the branch and the admission without one.
\<close>

definition record_result ::
  "env \<Rightarrow> signing_identity \<Rightarrow> invocation_request \<Rightarrow> event_id \<Rightarrow> string \<Rightarrow> provider_outcome \<Rightarrow>
    (nat \<Rightarrow> db \<Rightarrow> db) \<Rightarrow> (nat \<Rightarrow> commit_outcome) \<Rightarrow> db \<Rightarrow> (provider_error + invocation_report) \<times> db" where
  "record_result E idn request request_event_id invocation_id outcome gap oc d =
     (case bindR (recorded_payload E invocation_id outcome) (\<lambda>(kind, payload).
           bindR (map_err (\<lambda>_. ProviderInternal) (create_event E idn (iq_context request)
             [request_event_id] (outcome_event_kind kind) payload)) (\<lambda>event. Inr (kind, event))) of
        Inl e \<Rightarrow> (Inl e, d)
      | Inr (kind, event) \<Rightarrow>
          (case admit E event (CompareAndSwap (iq_context request) (iq_branch request)
               (Head request_event_id) (ev_id event)) (oc 1) d of
             (Inr _, d') \<Rightarrow>
               (Inr \<lparr>ir_request_event = request_event_id, ir_invocation = invocation_id,
                     ir_outcome = kind, ir_result_event = ev_id event\<rparr>, d')
           | (Inl (StaleHead current), d') \<Rightarrow>
               (case admit E event NoMutation (oc 2) (gap 2 d') of
                  (Inl e, d'') \<Rightarrow> (Inl (ProviderStore e), d'')
                | (Inr _, d'') \<Rightarrow> (Inl (PostExecutionConflict (ev_id event) current), d''))
           | (Inl e, d') \<Rightarrow> (Inl (ProviderStore e), d')))"

text \<open>
  \<open>gap 0\<close> is what other writers do after the ancestry was read, \<open>gap 1\<close> what they do while the
  provider runs.
\<close>

definition record_invocation ::
  "env \<Rightarrow> signing_identity \<Rightarrow> invocation_request \<Rightarrow> (invocation_context \<Rightarrow> provider_outcome) \<Rightarrow>
    bytes option \<Rightarrow> (nat \<Rightarrow> db \<Rightarrow> db) \<Rightarrow> (nat \<Rightarrow> commit_outcome) \<Rightarrow> db \<Rightarrow>
    (provider_error + invocation_report) \<times> db" where
  "record_invocation E idn request provider entropy gap oc d =
     (case prepare_request E idn request entropy d of
        Inl e \<Rightarrow> (Inl e, d)
      | Inr (history, invocation_id, event) \<Rightarrow>
          (case admit E event (CompareAndSwap (iq_context request) (iq_branch request)
               (Head (iq_expected_head request)) (ev_id event)) (oc 0) (gap 0 d) of
             (Inl e, d') \<Rightarrow> (Inl (ProviderStore e), d')
           | (Inr _, d') \<Rightarrow>
               record_result E idn request (ev_id event) invocation_id
                 (provider \<lparr>ic_context = iq_context request,
                    ic_selected_head = iq_expected_head request, ic_ancestry = history,
                    ic_request_event = ev_id event, ic_invocation = invocation_id,
                    ic_input = iq_input request\<rparr>) gap oc (gap 1 d')))"

section \<open>The command provider\<close>

text \<open>A failure before there is an outcome: its code and its detail.\<close>

type_synonym provider_failure = "string \<times> string"

definition ancestry_value :: "env \<Rightarrow> signed_event \<Rightarrow> provider_failure + json" where
  "ancestry_value E event =
     bindR (map_err (\<lambda>_. (''internal'', ''stored ancestry could not be re-rendered'')) (to_wire E event)) (\<lambda>wire.
       map_err (\<lambda>_. (''internal'', ''ancestry re-parse failed'')) (from_slice_value (json_reader E) wire))"

definition invocation_document :: "env \<Rightarrow> invocation_context \<Rightarrow> json list \<Rightarrow> json" where
  "invocation_document E invocation events = JObject (obj_of
     [(''ancestry'', JArray events),
      (''context'', JString (context_id_text E (ic_context invocation))),
      (''input'', ic_input invocation),
      (''invocation_id'', JString (ic_invocation invocation)),
      (''protocol_version'', JNumber (PosInt 1)),
      (''request_event_id'', JString (event_id_text E (ic_request_event invocation))),
      (''selected_head'', JString (event_id_text E (ic_selected_head invocation)))])"

definition invocation_line :: "env \<Rightarrow> invocation_context \<Rightarrow> provider_failure + bytes" where
  "invocation_line E invocation =
     (if length (ic_ancestry invocation) > MAX_INVOCATION_ANCESTRY
      then Inl (''limit_exceeded'', ''invocation ancestry exceeds its bound'')
      else bindR (collectR (ancestry_value E) (ic_ancestry invocation)) (\<lambda>events.
        bindR (map_err (\<lambda>_. (''internal'', ''invocation document rendering failed''))
          (canonicalize E (invocation_document E invocation events))) (\<lambda>line.
          if length line + 1 > JSONL_LINE_LIMIT
          then Inl (''limit_exceeded'', ''invocation document exceeds the JSONL line limit'')
          else Inr (line @ [10]))))"

text \<open>
  What a child process does with its input line. Its output comes in pieces; a piece is \<open>None\<close>
  when reading fails, and an empty piece or the end of the list is the end of the output. \<open>exit\<close>
  is \<open>None\<close> when the exit could not be observed, otherwise whether it was a success.
\<close>

datatype process_run =
    SpawnFailed | StdinMissing | StdoutMissing | ProcessTimedOut | WriteFailed | CloseFailed
  | ProcessRan "bytes option list" "bool option"

fun collect_output :: "bytes option list \<Rightarrow> bytes \<Rightarrow> provider_failure + bytes" where
  "collect_output [] collected = Inr collected"
| "collect_output (None # pieces) collected =
     Inl (''provider_transport'', ''provider stdout read failed'')"
| "collect_output (Some piece # pieces) collected =
     (if piece = [] then Inr collected
      else
        let collected = collected @ piece in
        if length collected > JSONL_LINE_LIMIT + 1
        then Inl (''limit_exceeded'', ''provider output exceeds the JSONL line limit'')
        else if 10 \<in> set collected then Inr collected
        else collect_output pieces collected)"

definition process_output :: "process_run \<Rightarrow> provider_failure + bytes" where
  "process_output run =
     (case run of
        SpawnFailed \<Rightarrow> Inl (''provider_transport'', ''provider process could not start'')
      | StdinMissing \<Rightarrow> Inl (''provider_transport'', ''provider stdin unavailable'')
      | StdoutMissing \<Rightarrow> Inl (''provider_transport'', ''provider stdout unavailable'')
      | ProcessTimedOut \<Rightarrow> Inl (''provider_timeout'', ''provider execution timed out'')
      | WriteFailed \<Rightarrow> Inl (''provider_transport'', ''provider stdin write failed'')
      | CloseFailed \<Rightarrow> Inl (''provider_transport'', ''provider stdin close failed'')
      | ProcessRan pieces exit \<Rightarrow>
          bindR (collect_output pieces []) (\<lambda>collected.
            case exit of
              None \<Rightarrow> Inl (''provider_transport'', ''provider exit could not be observed'')
            | Some success \<Rightarrow>
                if \<not> success then Inl (''provider_transport'', ''provider exited without success'')
                else Inr collected))"

definition malformed_fields :: provider_failure where
  "malformed_fields = (''provider_malformed'', ''provider response fields are invalid'')"

definition text_field :: "json_map \<Rightarrow> string \<Rightarrow> string option" where
  "text_field object key =
     (case obj_get object key of None \<Rightarrow> None | Some v \<Rightarrow> value_as_str v)"

text \<open>The fields of a response object whose version and correlation identifier were checked.\<close>

definition response_outcome :: "env \<Rightarrow> json_map \<Rightarrow> provider_failure + provider_outcome" where
  "response_outcome E object =
     (case (case obj_get object ''ok'' of None \<Rightarrow> None | Some v \<Rightarrow> value_as_bool v) of
        Some True \<Rightarrow>
          if length object = 4 \<and> obj_get object ''response'' \<noteq> None then
            bindR (ok_or (obj_get object ''response'') malformed_fields) (\<lambda>response.
            bindR (map_err (\<lambda>_. (''provider_malformed'', ''provider response is not canonicalizable''))
              (canonicalize E response)) (\<lambda>wire.
              if length wire > PROVIDER_RESPONSE_LIMIT
              then Inl (''limit_exceeded'', ''provider response exceeds its bound'')
              else Inr (ProviderResponse response)))
          else Inl malformed_fields
      | Some False \<Rightarrow>
          if length object = 5 \<and> text_field object ''detail'' \<noteq> None \<and>
             text_field object ''error_code'' \<noteq> None then
            bindR (ok_or (text_field object ''error_code'') malformed_fields) (\<lambda>code.
            bindR (ok_or (text_field object ''detail'') malformed_fields) (\<lambda>detail.
              Inr (ProviderFailure ''provider_declared'' (sanitize_detail (code @ '': '' @ detail)))))
          else Inl malformed_fields
      | None \<Rightarrow> Inl malformed_fields)"

definition parse_provider_line ::
  "env \<Rightarrow> bytes \<Rightarrow> string \<Rightarrow> provider_failure + provider_outcome" where
  "parse_provider_line E collected expected_invocation =
     (let line = takeWhile (\<lambda>b. b \<noteq> 10) collected in
      if line = [] then Inl (''provider_malformed'', ''provider emitted no response line'')
      else bindR (map_err (\<lambda>_. (''provider_malformed'', ''provider response is not JSON''))
          (from_slice_value (json_reader E) line)) (\<lambda>value.
        bindR (map_err (\<lambda>_. (''provider_malformed'', ''provider response is not an object''))
          (into_object value)) (\<lambda>object.
          if (case obj_get object ''protocol_version'' of None \<Rightarrow> None | Some v \<Rightarrow> value_as_u64 v) \<noteq> Some 1
          then Inl malformed_fields
          else bindR (ok_or (text_field object ''invocation_id'') malformed_fields) (\<lambda>supplied.
            if supplied \<noteq> expected_invocation then Inl malformed_fields
            else response_outcome E object))))"

definition provider_exchange ::
  "env \<Rightarrow> (bytes \<Rightarrow> process_run) \<Rightarrow> invocation_context \<Rightarrow> provider_failure + provider_outcome" where
  "provider_exchange E process invocation =
     bindR (invocation_line E invocation) (\<lambda>line.
     bindR (process_output (process line)) (\<lambda>collected.
       parse_provider_line E collected (ic_invocation invocation)))"

definition run_command_provider ::
  "env \<Rightarrow> (bytes \<Rightarrow> process_run) \<Rightarrow> invocation_context \<Rightarrow> provider_outcome" where
  "run_command_provider E process invocation =
     (case provider_exchange E process invocation of
        Inr outcome \<Rightarrow> outcome
      | Inl (code, detail) \<Rightarrow> ProviderFailure code detail)"

end
