(* ===== verification/Provider_Facts.thy ===== *)
theory Provider_Facts
  imports Provider Store_Admission
begin

text \<open>
  What recording an invocation guarantees: the request is in the store before the provider runs,
  the result is linked to it, and nothing recorded is lost when the branch moves meanwhile.
\<close>

section \<open>Details\<close>

lemma utf8_chars_concat: "concat (utf8_chars s) = s"
  by (induction s rule: utf8_chars.induct) auto

definition control_char :: "char \<Rightarrow> bool" where
  "control_char c \<longleftrightarrow> (of_char c :: nat) < 32 \<or> (of_char c :: nat) = 127"

lemma replacement_plain: "c \<in> set replacement_character \<Longrightarrow> \<not> control_char c"
  by (auto simp: replacement_character_def control_char_def)

lemma utf8_chars_plain:
  "x \<in> set (utf8_chars s) \<Longrightarrow> \<not> is_ascii_control x \<Longrightarrow> c \<in> set x \<Longrightarrow> \<not> control_char c"
proof (induction s rule: utf8_chars.induct)
  case (2 d cs)
  have "\<not> control_char c" if "c \<in> set (takeWhile continuation cs)"
    using set_takeWhileD [OF that] by (auto simp: continuation_def control_char_def)
  with 2 show ?case
    by (auto simp: is_ascii_control_def control_char_def split: if_splits)
qed simp

lemma sanitize_chars_facts:
  assumes "length out \<le> ERROR_DETAIL_LIMIT" "\<forall>c \<in> set out. \<not> control_char c"
    and "\<forall>x \<in> set xs. \<not> is_ascii_control x \<longrightarrow> (\<forall>c \<in> set x. \<not> control_char c)"
  shows "length (sanitize_chars xs out) \<le> ERROR_DETAIL_LIMIT \<and>
    (\<forall>c \<in> set (sanitize_chars xs out). \<not> control_char c)"
  using assms
proof (induction xs out rule: sanitize_chars.induct)
  case (2 x xs out)
  let ?r = "if is_ascii_control x then replacement_character else x"
  have "\<forall>c \<in> set ?r. \<not> control_char c" using "2.prems"(3) replacement_plain by auto
  then show ?case using "2.IH" "2.prems" by (simp add: Let_def ball_Un)
qed simp

lemma sanitize_detail_facts:
  "length (sanitize_detail s) \<le> ERROR_DETAIL_LIMIT" "\<forall>c \<in> set (sanitize_detail s). \<not> control_char c"
  using sanitize_chars_facts [of "[]" "utf8_chars s"] utf8_chars_plain [of _ s]
  by (auto simp: sanitize_detail_def)

section \<open>A successful admission\<close>

lemma admit_stored:
  assumes "env_lawful E" "store_inv E d" "event_wf ev" "mutation_wf m"
    and "admit E ev m oc d = (Inr st, d')"
  shows "keeps_store E d d'" "lookup_event E d' (ev_id ev) = Some (norm_event ev)"
    "m = CompareAndSwap c n x h \<Longrightarrow> local_view d' (c, n) = Some (ev_id ev) \<and> event_context ev = c"
proof -
  show "keeps_store E d d'" using admit_keeps [OF assms(1,2,3,4), of oc] assms(5) by simp
  obtain w where w: "wire_of E ev w" "mutation_matches ev m"
      "admit_tx E ev w (norm_event ev) m d = Inr (st, d')"
  proof (rule admit_cases [OF assms(1,3), of m])
    fix w assume "wire_of E ev w" "mutation_matches ev m"
      "\<And>oc d. admit E ev m oc d = write_tx oc (admit_tx E ev w (norm_event ev) m) d"
    then show thesis
      using that assms(5) write_tx_InrD [of oc "admit_tx E ev w (norm_event ev) m" d st d'] by simp
  qed (use assms(5) in simp)
  have spec: "spec_admit (norm_event ev) m (store_view E d) = Inr (st, store_view E d')"
    using admit_tx_refines [OF assms(1,2) w(1,2) assms(4)] w(3) by simp
  from spec_admit_event [OF this] show "lookup_event E d' (ev_id ev) = Some (norm_event ev)"
    by (simp add: store_view_def)
  assume m: "m = CompareAndSwap c n x h"
  have "local_view d' (c, n) = Some (ev_id ev)"
    using admit_tx_ref [OF assms(1,2) w(1), of c n x h st d'] w(2,3) assms(4)
    by (simp add: m split: if_splits)
  moreover have "event_context ev = c" using w(2) by (simp add: m event_context_def)
  ultimately show "local_view d' (c, n) = Some (ev_id ev) \<and> event_context ev = c" by simp
qed

lemma spec_parents_not_stale: "spec_parents events c ps \<noteq> Inl (StaleHead current)"
  by (induction events c ps rule: spec_parents.induct) (auto split: option.splits)

lemma admit_stale:
  assumes "env_lawful E" "store_inv E d" "event_wf ev" "ref_name_wf n"
    and "admit E ev (CompareAndSwap c n (Head x) h) oc d = (Inl (StaleHead current), d')"
  shows "d' = d" "current = local_view d (c, n)" "current \<noteq> Some x"
proof -
  let ?m = "CompareAndSwap c n (Head x) h"
  let ?pre = "bindR (map_err Contract (verify_event E ev)) (\<lambda>_.
     bindR (map_err Contract (to_wire E ev)) (\<lambda>wire.
     bindR (map_err Contract (from_wire E wire)) (\<lambda>verified_event.
       if \<not> mutation_matches ev ?m then Inl RefMutationMismatch else Inr (wire, verified_event))))"
  have "?pre \<noteq> Inl (StaleHead current)" by (auto simp: bindR_Inl_iff map_err_Inl_iff)
  then obtain w v where "?pre = Inr (w, v)"
    using assms(5) by (cases ?pre) (auto simp: admit_def)
  then have w: "wire_of E ev w" "mutation_matches ev ?m" "to_wire E ev = Inr w"
    using assms(3) by (auto simp: bindR_Inr_iff wire_of_def split: if_splits)
  note admit_run [OF assms(1,3) w(3,2), of oc d]
  then have tx: "admit_tx E ev w (norm_event ev) ?m d = Inl (StaleHead current)" and same: "d' = d"
    using assms(5) by (auto simp: write_tx_def finish_transaction_def split: sum.splits commit_outcome.splits)
  have "spec_admit (norm_event ev) ?m (store_view E d) = Inl (StaleHead current)"
    using admit_tx_refines [OF assms(1,2) w(1,2)] tx assms(4) by simp
  then have "current = local_view d (c, n) \<and> current \<noteq> Some x"
    by (auto simp: spec_admit_def Let_def bindR_Inl_iff spec_parents_not_stale split: option.splits if_splits)
  then show "d' = d" "current = local_view d (c, n)" "current \<noteq> Some x" using same by auto
qed

section \<open>Recording\<close>

text \<open>What other writers may do, and what a provider may return: values of their types.\<close>

definition others_lawful :: "env \<Rightarrow> (nat \<Rightarrow> db \<Rightarrow> db) \<Rightarrow> bool" where
  "others_lawful E gap \<longleftrightarrow> (\<forall>k d. store_inv E d \<longrightarrow> keeps_store E d (gap k d))"

definition outcome_wf :: "provider_outcome \<Rightarrow> bool" where
  "outcome_wf outcome \<longleftrightarrow> (\<forall>v. outcome = ProviderResponse v \<longrightarrow> json_wf v)"

definition request_wf :: "invocation_request \<Rightarrow> bool" where
  "request_wf request \<longleftrightarrow> context_id_wf (iq_context request) \<and> ref_name_wf (iq_branch request) \<and>
     event_id_wf (iq_expected_head request) \<and> json_wf (iq_input request)"

text \<open>An event the sequence records: of the given kind, after the given parent, with the identifier.\<close>

definition event_recorded ::
  "env \<Rightarrow> signing_identity \<Rightarrow> context_id \<Rightarrow> db \<Rightarrow> event_id \<Rightarrow> event_id \<Rightarrow> string \<Rightarrow> string \<Rightarrow> bool" where
  "event_recorded E idn c d i parent kind invocation_id \<longleftrightarrow>
     (\<exists>ev m. lookup_event E d i = Some ev \<and> event_context ev = c \<and> event_parents ev = [parent] \<and>
       body_kind (ev_body ev) = kind \<and> body_author (ev_body ev) = identity_author E idn \<and>
       body_payload (ev_body ev) = JObject m \<and>
       obj_get m ''invocation_id'' = Some (JString invocation_id))"

lemma event_recorded_keeps:
  "event_recorded E idn c d i parent kind iid \<Longrightarrow> keeps_store E d d' \<Longrightarrow>
    event_recorded E idn c d' i parent kind iid"
  unfolding event_recorded_def keeps_store_def using lookup_event_mono by blast

lemma keeps_store_trans: "keeps_store E d d' \<Longrightarrow> keeps_store E d' d'' \<Longrightarrow> keeps_store E d d''"
  using db_grows_trans by (auto simp: keeps_store_def)

lemma created_recorded:
  assumes "create_event E idn c [parent] kind (JObject (obj_of es)) = Inr ev"
    and "lookup_event E d (ev_id ev) = Some (norm_event ev)"
    and "obj_get (obj_of (map (\<lambda>e. (fst e, json_norm (snd e))) es)) ''invocation_id'' = Some (JString iid)"
  shows "event_recorded E idn c d (ev_id ev) parent kind iid"
  using create_event_Inr(1) [OF assms(1)] assms(2,3)
  by (auto simp: event_recorded_def event_context_def event_parents_def)

lemma recorded_payload_Inr:
  assumes "recorded_payload E iid outcome = Inr (kind, payload)" "outcome_wf outcome"
  obtains es where "payload = JObject (obj_of es)" "json_wf payload"
    "obj_get (obj_of (map (\<lambda>e. (fst e, json_norm (snd e))) es)) ''invocation_id'' = Some (JString iid)"
  using assms
  by (cases outcome)
    (auto simp: recorded_payload_def bindR_Inr_iff outcome_wf_def obj_get_obj_of split: if_splits
      intro!: that json_wf_obj_of)

text \<open>The signed result before it is admitted.\<close>

definition result_event ::
  "env \<Rightarrow> signing_identity \<Rightarrow> context_id \<Rightarrow> event_id \<Rightarrow> string \<Rightarrow> provider_outcome \<Rightarrow>
    provider_error + (outcome_kind \<times> signed_event)" where
  "result_event E idn c rid iid outcome =
     bindR (recorded_payload E iid outcome) (\<lambda>(kind, payload).
       bindR (map_err (\<lambda>_. ProviderInternal) (create_event E idn c [rid] (outcome_event_kind kind) payload))
         (\<lambda>event. Inr (kind, event)))"

lemma result_event_Inl: "result_event E idn c rid iid outcome = Inl e \<Longrightarrow> e \<noteq> PostExecutionConflict i cur"
  by (auto simp: result_event_def bindR_Inl_iff map_err_Inl_iff recorded_payload_def
      split: provider_outcome.splits if_splits)

lemma result_event_Inr:
  assumes "env_lawful E" "context_id_wf c" "event_id_wf rid" "outcome_wf outcome"
    and "result_event E idn c rid iid outcome = Inr (kind, event)"
  shows "event_wf event"
    "lookup_event E d (ev_id event) = Some (norm_event event) \<Longrightarrow>
      event_recorded E idn c d (ev_id event) rid (outcome_event_kind kind) iid"
proof -
  obtain payload where payload: "recorded_payload E iid outcome = Inr (kind, payload)"
      and event: "create_event E idn c [rid] (outcome_event_kind kind) payload = Inr event"
    using assms(5) by (auto simp: result_event_def bindR_Inr_iff)
  obtain es where es: "payload = JObject (obj_of es)" "json_wf payload"
      "obj_get (obj_of (map (\<lambda>e. (fst e, json_norm (snd e))) es)) ''invocation_id'' = Some (JString iid)"
    by (rule recorded_payload_Inr [OF payload assms(4)])
  show "event_wf event"
    using create_event_wf [OF assms(1) event] assms(2,3) es(2) by simp
  show "lookup_event E d (ev_id event) = Some (norm_event event) \<Longrightarrow>
      event_recorded E idn c d (ev_id event) rid (outcome_event_kind kind) iid"
    by (rule created_recorded [OF event [unfolded es(1)] _ es(3)])
qed

text \<open>Admission without a move of the branch, after other writers.\<close>

lemma admit_detached:
  assumes "env_lawful E" "store_inv E d" "event_wf event" "others_lawful E gap"
    and "admit E event NoMutation oc (gap k d) = (r, d')"
  shows "keeps_store E d d'" "r = Inr st \<Longrightarrow> lookup_event E d' (ev_id event) = Some (norm_event event)"
proof -
  have gap: "keeps_store E d (gap k d)" using assms(2,4) by (simp add: others_lawful_def)
  then have later: "store_inv E (gap k d)" by (simp add: keeps_store_def)
  have "keeps_store E (gap k d) d'"
    using admit_keeps [OF assms(1) later assms(3), of NoMutation oc] assms(5) by simp
  then show "keeps_store E d d'" by (rule keeps_store_trans [OF gap])
  show "lookup_event E d' (ev_id event) = Some (norm_event event)" if "r = Inr st"
    using admit_stored(2) [OF assms(1) later assms(3) _ assms(5) [unfolded that]] by simp
qed

lemma record_result_spec:
  assumes "env_lawful E" "store_inv E d" "request_wf request" "others_lawful E gap" "outcome_wf outcome"
    and "event_id_wf rid"
    and "record_result E idn request rid iid outcome gap oc d = (res, d')"
  shows "keeps_store E d d' \<and>
    (case res of
       Inr report \<Rightarrow> ir_request_event report = rid \<and> ir_invocation report = iid \<and>
         event_recorded E idn (iq_context request) d' (ir_result_event report) rid
           (outcome_event_kind (ir_outcome report)) iid \<and>
         local_view d' (iq_context request, iq_branch request) = Some (ir_result_event report)
     | Inl (PostExecutionConflict i current) \<Rightarrow> current \<noteq> Some rid \<and>
         (\<exists>kind. event_recorded E idn (iq_context request) d' i rid (outcome_event_kind kind) iid)
     | Inl _ \<Rightarrow> True)"
proof (cases "result_event E idn (iq_context request) rid iid outcome")
  case (Inl e)
  then have "res = Inl e" "d' = d" using assms(7) by (simp_all add: record_result_def result_event_def)
  then show ?thesis using result_event_Inl [OF Inl] keeps_store_refl [OF assms(2)]
    by (auto split: provider_error.splits)
next
  case (Inr ke)
  obtain kind event where ke: "ke = (kind, event)" by (cases ke)
  let ?c = "iq_context request" and ?n = "iq_branch request"
  let ?m = "CompareAndSwap ?c ?n (Head rid) (ev_id event)"
  have name: "ref_name_wf ?n" and c: "context_id_wf ?c" using assms(3) by (simp_all add: request_wf_def)
  note event = result_event_Inr [OF assms(1) c assms(6,5) Inr [unfolded ke]]
  note run = assms(7) [unfolded record_result_def result_event_def [symmetric] Inr ke]
  obtain r d1 where r: "admit E event ?m (oc 1) d = (r, d1)" by (cases "admit E event ?m (oc 1) d")
  have kept: "keeps_store E d d1"
    using admit_keeps [OF assms(1,2) event(1), of ?m "oc 1"] r name by simp
  then have inv1: "store_inv E d1" by (simp add: keeps_store_def)
  consider st where "r = Inr st" | current where "r = Inl (StaleHead current)"
    | e where "r = Inl e" "\<forall>current. e \<noteq> StaleHead current" by (cases r) auto
  then show ?thesis
  proof cases
    case 1
    then have "res = Inr \<lparr>ir_request_event = rid, ir_invocation = iid, ir_outcome = kind,
        ir_result_event = ev_id event\<rparr>" "d' = d1" using run r by simp_all
    moreover have "lookup_event E d1 (ev_id event) = Some (norm_event event)"
        "local_view d1 (?c, ?n) = Some (ev_id event)"
      using admit_stored [OF assms(1,2) event(1) _ r [unfolded 1]] name by simp_all
    ultimately show ?thesis using kept event(2) by simp
  next
    case 2
    note stale = admit_stale [OF assms(1,2) event(1) name r [unfolded 2]]
    obtain r2 d2 where r2: "admit E event NoMutation (oc 2) (gap 2 d1) = (r2, d2)"
      by (cases "admit E event NoMutation (oc 2) (gap 2 d1)")
    note detached = admit_detached [OF assms(1) inv1 event(1) assms(4) r2]
    then have "keeps_store E d d2" using kept keeps_store_trans by blast
    moreover have "r2 = Inr st \<Longrightarrow> event_recorded E idn ?c d2 (ev_id event) rid (outcome_event_kind kind) iid" for st
      using detached(2) event(2) by blast
    ultimately show ?thesis using run r 2 r2 stale(3) by (cases r2) auto
  next
    case 3
    then have "res = Inl (ProviderStore e)" "d' = d1" using run r by (cases e; simp)+
    then show ?thesis using kept by simp
  qed
qed

lemma prepare_request_Inr:
  assumes "prepare_request E idn request entropy d = Inr (history, iid, event)"
  obtains "create_event E idn (iq_context request) [iq_expected_head request] ''agent.request''
      (request_payload E request iid) = Inr event"
    "\<exists>b. entropy = Some b \<and> iid = ''inv1_'' @ b64_encode E b"
    "\<exists>p. project E d (iq_context request) [iq_expected_head request] default_projection_limits = Inr p \<and>
      proj_events p = history"
  using assms
  by (auto simp: prepare_request_def generate_invocation_id_def bindR_Inr_iff split: if_splits)

text \<open>What the recording of an invocation asks of a provider: the value of a response is well formed.\<close>

locale invocation_provider =
  fixes provider :: "invocation_context \<Rightarrow> provider_outcome"
  assumes lawful: "outcome_wf (provider invocation)"
begin

lemma record_invocation_spec:
  assumes "env_lawful E" "store_inv E d" "request_wf request" "others_lawful E gap"
    and "record_invocation E idn request provider entropy gap oc d = (res, d')"
  shows "keeps_store E d d' \<and>
    (case res of
       Inr report \<Rightarrow>
         event_recorded E idn (iq_context request) d' (ir_request_event report)
           (iq_expected_head request) ''agent.request'' (ir_invocation report) \<and>
         event_recorded E idn (iq_context request) d' (ir_result_event report) (ir_request_event report)
           (outcome_event_kind (ir_outcome report)) (ir_invocation report) \<and>
         local_view d' (iq_context request, iq_branch request) = Some (ir_result_event report)
     | Inl (PostExecutionConflict i current) \<Rightarrow>
         (\<exists>rid iid kind. current \<noteq> Some rid \<and>
           event_recorded E idn (iq_context request) d' rid (iq_expected_head request) ''agent.request'' iid \<and>
           event_recorded E idn (iq_context request) d' i rid (outcome_event_kind kind) iid)
     | Inl _ \<Rightarrow> True) \<and>
    ((\<forall>provider'. record_invocation E idn request provider' entropy gap oc d = (res, d')) \<or>
     (\<exists>rid iid. event_recorded E idn (iq_context request) d' rid (iq_expected_head request) ''agent.request'' iid))"
proof (cases "prepare_request E idn request entropy d")
  case (Inl e)
  then have "\<forall>provider'. record_invocation E idn request provider' entropy gap oc d = (Inl e, d)"
    by (simp add: record_invocation_def)
  moreover have "e \<noteq> PostExecutionConflict i cur" for i cur
    using Inl by (auto simp: prepare_request_def generate_invocation_id_def bindR_Inl_iff map_err_Inl_iff
        split: if_splits)
  ultimately show ?thesis using assms(5) keeps_store_refl [OF assms(2)] by (auto split: provider_error.splits)
next
  case (Inr prepared)
  obtain history iid event where p: "prepared = (history, iid, event)" by (cases prepared)
  let ?c = "iq_context request" and ?n = "iq_branch request" and ?x = "iq_expected_head request"
  have event: "create_event E idn ?c [?x] ''agent.request'' (request_payload E request iid) = Inr event"
    by (rule prepare_request_Inr [OF Inr [unfolded p]])
  have "json_wf (request_payload E request iid)"
    unfolding request_payload_def using assms(3) by (intro json_wf_obj_of) (auto simp: request_wf_def)
  then have wf: "event_wf event"
    using create_event_wf [OF assms(1) event] assms(3) by (simp add: request_wf_def)
  have name: "ref_name_wf ?n" using assms(3) by (simp add: request_wf_def)
  have rid: "event_id_wf (ev_id event)" using wf by (simp add: event_wf_def)
  have gap0: "keeps_store E d (gap 0 d)" using assms(2,4) by (simp add: others_lawful_def)
  then have inv0: "store_inv E (gap 0 d)" by (simp add: keeps_store_def)
  let ?m = "CompareAndSwap ?c ?n (Head ?x) (ev_id event)"
  obtain r d1 where r: "admit E event ?m (oc 0) (gap 0 d) = (r, d1)"
    by (cases "admit E event ?m (oc 0) (gap 0 d)")
  have "keeps_store E (gap 0 d) d1"
    using admit_keeps [OF assms(1) inv0 wf, of ?m "oc 0"] r name by simp
  then have kept1: "keeps_store E d d1" by (rule keeps_store_trans [OF gap0])
  then have inv1: "store_inv E d1" by (simp add: keeps_store_def)
  show ?thesis
  proof (cases r)
    case (Inl e)
    then have "\<forall>provider'. record_invocation E idn request provider' entropy gap oc d = (Inl (ProviderStore e), d1)"
      using \<open>prepare_request E idn request entropy d = Inr prepared\<close> r
      by (simp add: record_invocation_def p)
    then show ?thesis using assms(5) kept1 by auto
  next
    case stored: (Inr st)
    have look: "lookup_event E d1 (ev_id event) = Some (norm_event event)"
      by (rule admit_stored(2) [OF assms(1) inv0 wf _ r [unfolded stored]]) (simp add: name)
    have request: "event_recorded E idn ?c d1 (ev_id event) ?x ''agent.request'' iid"
      by (rule created_recorded [OF event [unfolded request_payload_def] look]) (simp add: obj_get_obj_of)
    have gap1: "keeps_store E d1 (gap 1 d1)" using inv1 assms(4) by (simp add: others_lawful_def)
    then have inv2: "store_inv E (gap 1 d1)" by (simp add: keeps_store_def)
    let ?outcome = "provider \<lparr>ic_context = ?c, ic_selected_head = ?x, ic_ancestry = history,
      ic_request_event = ev_id event, ic_invocation = iid, ic_input = iq_input request\<rparr>"
    have run: "record_result E idn request (ev_id event) iid ?outcome gap oc (gap 1 d1) = (res, d')"
      using assms(5) Inr r stored by (simp add: record_invocation_def p)
    note result = record_result_spec [OF assms(1) inv2 assms(3,4) lawful rid run]
    then have later: "keeps_store E d1 d'" using keeps_store_trans [OF gap1] by blast
    from event_recorded_keeps [OF request this] keeps_store_trans [OF kept1 later] result show ?thesis
      by (auto split: sum.splits provider_error.splits)
  qed
qed

end

section \<open>The command provider\<close>

lemma plain_value_wf_aux:
  "plain_value t = Inr v \<Longrightarrow> json_wf v"
  "plain_seq ts = Inr vs \<Longrightarrow> \<forall>v \<in> set vs. json_wf v"
  "plain_map es acc = Inr m \<Longrightarrow> json_wf (JObject acc) \<Longrightarrow> json_wf (JObject m)"
proof (induction t and ts and es acc arbitrary: v and vs and m
    rule: plain_value_plain_seq_plain_map.induct)
  case (5 r)
  then show ?case by (cases r) auto
next
  case (13 k t es acc)
  then obtain v where v: "plain_value t = Inr v" "plain_map es (obj_insert k v acc) = Inr m"
    by (auto simp: bindR_Inr_iff)
  have "json_wf (JObject (obj_insert k v acc))"
    using "13.IH"(1) [OF v(1)] "13.prems"(2) set_obj_insert [of k v acc] obj_insert_sorted [of acc k v]
    by auto
  then show ?case using "13.IH"(2) [OF v] by blast
qed (auto simp: bindR_Inr_iff number_from_i64_def split: option.splits if_splits)

lemma from_slice_value_wf: "from_slice_value reader b = Inr v \<Longrightarrow> json_wf v"
  using plain_value_wf_aux(1) by (auto simp: from_slice_value_def bindR_Inr_iff split: prod.splits option.splits)

text \<open>The frozen failure codes.\<close>

definition provider_codes :: "string set" where
  "provider_codes = {''provider_declared'', ''provider_transport'', ''provider_malformed'',
     ''provider_timeout'', ''limit_exceeded'', ''internal''}"

definition plain_detail :: "string \<Rightarrow> bool" where
  "plain_detail s \<longleftrightarrow> length s \<le> ERROR_DETAIL_LIMIT \<and> (\<forall>c \<in> set s. \<not> control_char c)"

definition failure_ok :: "provider_failure \<Rightarrow> bool" where
  "failure_ok f \<longleftrightarrow> fst f \<in> provider_codes \<and> plain_detail (snd f)"

lemmas failure_defs = failure_ok_def provider_codes_def plain_detail_def control_char_def
  ERROR_DETAIL_LIMIT_def

lemma ancestry_value_Inl: "collectR (ancestry_value E) evs = Inl f \<Longrightarrow> failure_ok f"
  by (induction evs) (auto simp: ancestry_value_def bindR_Inl_iff map_err_Inl_iff failure_defs)

lemma invocation_line_Inl: "invocation_line E invocation = Inl f \<Longrightarrow> failure_ok f"
  by (auto simp: invocation_line_def bindR_Inl_iff map_err_Inl_iff split: if_splits dest: ancestry_value_Inl)
    (auto simp: failure_defs)

lemma collect_output_Inl: "collect_output pieces c = Inl f \<Longrightarrow> failure_ok f"
  by (induction pieces c rule: collect_output.induct) (auto simp: Let_def failure_defs split: if_splits)

lemma process_output_Inl:
  assumes "process_output run = Inl f"
  shows "failure_ok f"
proof (cases run)
  case (ProcessRan pieces exit)
  show ?thesis
  proof (cases "collect_output pieces []")
    case (Inl g)
    then show ?thesis using assms collect_output_Inl [OF Inl] by (simp add: process_output_def ProcessRan)
  next
    case (Inr b)
    then have "f = (''provider_transport'', ''provider exit could not be observed'') \<or>
        f = (''provider_transport'', ''provider exited without success'')"
      using assms by (auto simp: process_output_def ProcessRan split: option.splits if_splits)
    then show ?thesis by (auto simp: failure_defs)
  qed
qed (use assms in \<open>simp_all add: process_output_def failure_defs, auto\<close>)

definition outcome_ok :: "env \<Rightarrow> provider_outcome \<Rightarrow> bool" where
  "outcome_ok E outcome \<longleftrightarrow>
     (case outcome of
        ProviderResponse v \<Rightarrow> json_wf v \<and>
          (\<exists>w. canonicalize E v = Inr w \<and> length w \<le> PROVIDER_RESPONSE_LIMIT)
      | ProviderFailure code detail \<Rightarrow> failure_ok (code, detail))"

lemma obj_get_wf: "json_wf (JObject m) \<Longrightarrow> obj_get m k = Some v \<Longrightarrow> json_wf v"
  by (fastforce simp: obj_get_def dest: map_of_SomeD)

lemma response_outcome_ok:
  assumes "json_wf (JObject m)"
  shows "case response_outcome E m of Inl f \<Rightarrow> failure_ok f | Inr outcome \<Rightarrow> outcome_ok E outcome"
proof (cases "response_outcome E m")
  case (Inl f)
  then have "f \<in> {malformed_fields, (''provider_malformed'', ''provider response is not canonicalizable''),
      (''limit_exceeded'', ''provider response exceeds its bound'')}"
    by (auto simp: response_outcome_def bindR_Inl_iff map_err_Inl_iff split: option.splits bool.splits if_splits)
  then show ?thesis using Inl by (auto simp: malformed_fields_def failure_defs)
next
  case (Inr outcome)
  then consider v w where "obj_get m ''response'' = Some v" "canonicalize E v = Inr w"
      "length w \<le> PROVIDER_RESPONSE_LIMIT" "outcome = ProviderResponse v"
    | s where "outcome = ProviderFailure ''provider_declared'' (sanitize_detail s)"
    by (auto simp: response_outcome_def bindR_Inr_iff split: option.splits bool.splits if_splits)
  then show ?thesis
  proof cases
    case 1
    then show ?thesis using Inr obj_get_wf [OF assms] by (simp add: outcome_ok_def)
  next
    case 2
    then show ?thesis using Inr sanitize_detail_facts [of s]
      by (simp add: outcome_ok_def failure_ok_def plain_detail_def provider_codes_def)
  qed
qed

lemma parse_provider_line_ok:
  "case parse_provider_line E b iid of Inl f \<Rightarrow> failure_ok f | Inr outcome \<Rightarrow> outcome_ok E outcome"
proof -
  let ?line = "takeWhile (\<lambda>x. x \<noteq> 10) b"
  have early: "failure_ok malformed_fields" "failure_ok (''provider_malformed'', ''provider emitted no response line'')"
    "failure_ok (''provider_malformed'', ''provider response is not JSON'')"
    "failure_ok (''provider_malformed'', ''provider response is not an object'')"
    by (auto simp: malformed_fields_def failure_defs)
  show ?thesis
  proof (cases "from_slice_value (json_reader E) ?line")
    case (Inl e)
    then show ?thesis using early by (simp add: parse_provider_line_def Let_def)
  next
    case (Inr v)
    show ?thesis
    proof (cases "into_object v")
      case no: (Inl e)
      then show ?thesis using early Inr by (simp add: parse_provider_line_def Let_def)
    next
      case obj: (Inr m)
      then have "json_wf (JObject m)" using from_slice_value_wf [OF Inr] by (cases v) auto
      from response_outcome_ok [OF this, of E] show ?thesis
        using early Inr obj
        by (cases "text_field m ''invocation_id''") (simp_all add: parse_provider_line_def Let_def)
    qed
  qed
qed

lemma run_command_provider_ok: "outcome_ok E (run_command_provider E process invocation)"
proof -
  have "case provider_exchange E process invocation of
      Inl f \<Rightarrow> failure_ok f | Inr outcome \<Rightarrow> outcome_ok E outcome"
  proof (cases "invocation_line E invocation")
    case (Inl f)
    then show ?thesis using invocation_line_Inl by (simp add: provider_exchange_def)
  next
    case (Inr line)
    show ?thesis
    proof (cases "process_output (process line)")
      case (Inl f)
      then show ?thesis using Inr process_output_Inl by (simp add: provider_exchange_def)
    next
      case out: (Inr b)
      show ?thesis
        using Inr out parse_provider_line_ok [of E b "ic_invocation invocation"]
        by (simp add: provider_exchange_def)
    qed
  qed
  then show ?thesis
    by (auto simp: run_command_provider_def outcome_ok_def split: sum.splits)
qed

lemma outcome_ok_wf: "outcome_ok E outcome \<Longrightarrow> outcome_wf outcome"
  by (auto simp: outcome_ok_def outcome_wf_def)

interpretation command: invocation_provider "run_command_provider E process"
  by unfold_locales (rule outcome_ok_wf [OF run_command_provider_ok])

text \<open>
  A response comes from a child process that ended well, in the first line it wrote, which is an
  object of exactly four members that carries the correlation identifier of the request.
\<close>

definition answered :: "env \<Rightarrow> (bytes \<Rightarrow> process_run) \<Rightarrow> invocation_context \<Rightarrow> json_map \<Rightarrow> bool" where
  "answered E process invocation object \<longleftrightarrow>
     (\<exists>line pieces collected. invocation_line E invocation = Inr line \<and>
       process line = ProcessRan pieces (Some True) \<and> collect_output pieces [] = Inr collected \<and>
       from_slice_value (json_reader E) (takeWhile (\<lambda>b. b \<noteq> 10) collected) = Inr (JObject object) \<and>
       text_field object ''invocation_id'' = Some (ic_invocation invocation))"

lemma process_output_Inr:
  assumes "process_output run = Inr collected"
  obtains pieces where "run = ProcessRan pieces (Some True)" "collect_output pieces [] = Inr collected"
  using assms by (auto simp: process_output_def bindR_Inr_iff split: process_run.splits option.splits if_splits)

lemma parse_provider_line_Inr:
  assumes "parse_provider_line E collected expected = Inr outcome"
  obtains object where "from_slice_value (json_reader E) (takeWhile (\<lambda>b. b \<noteq> 10) collected) = Inr (JObject object)"
    "text_field object ''invocation_id'' = Some expected" "response_outcome E object = Inr outcome"
proof -
  obtain parsed object where "from_slice_value (json_reader E) (takeWhile (\<lambda>b. b \<noteq> 10) collected) = Inr parsed"
      "into_object parsed = Inr object" "text_field object ''invocation_id'' = Some expected"
      "response_outcome E object = Inr outcome"
    using assms by (auto simp: parse_provider_line_def Let_def bindR_Inr_iff split: if_splits)
  then show thesis using that by (cases parsed) auto
qed

lemma provider_exchange_answered:
  assumes "provider_exchange E process invocation = Inr outcome"
  obtains object where "answered E process invocation object" "response_outcome E object = Inr outcome"
proof -
  obtain line collected where line: "invocation_line E invocation = Inr line"
      and out: "process_output (process line) = Inr collected"
      and parsed: "parse_provider_line E collected (ic_invocation invocation) = Inr outcome"
    using assms by (auto simp: provider_exchange_def bindR_Inr_iff)
  obtain pieces where "process line = ProcessRan pieces (Some True)" "collect_output pieces [] = Inr collected"
    using process_output_Inr [OF out] .
  moreover obtain object where "from_slice_value (json_reader E) (takeWhile (\<lambda>b. b \<noteq> 10) collected) = Inr (JObject object)"
      "text_field object ''invocation_id'' = Some (ic_invocation invocation)" "response_outcome E object = Inr outcome"
    using parse_provider_line_Inr [OF parsed] .
  ultimately show thesis using that line unfolding answered_def by blast
qed

lemma provider_response_answered:
  assumes "run_command_provider E process invocation = ProviderResponse v"
  obtains object where "answered E process invocation object" "length object = 4"
    "obj_get object ''ok'' = Some (JBool True)" "obj_get object ''response'' = Some v"
proof -
  have "provider_exchange E process invocation = Inr (ProviderResponse v)"
    using assms by (auto simp: run_command_provider_def split: sum.splits)
  then obtain object where object: "answered E process invocation object"
      "response_outcome E object = Inr (ProviderResponse v)"
    using provider_exchange_answered by blast
  have "length object = 4 \<and> obj_get object ''response'' = Some v \<and> obj_get object ''ok'' = Some (JBool True)"
    using object(2)
    by (auto simp: response_outcome_def bindR_Inr_iff elim!: value_as_bool.elims split: option.splits bool.splits if_splits)
  then show thesis using that object(1) by blast
qed

end
