(* ===== verification/Sample_Invocation.thy ===== *)
theory Sample_Invocation
  imports Sample_Bundle Provider_Facts
begin

text \<open>
  An invocation in the sample store whose provider process cannot be started: the request and the
  failure are recorded one after the other on the branch.
\<close>

definition sample_invocation :: invocation_request where
  "sample_invocation = \<lparr>iq_context = sample_context, iq_branch = ''main'', iq_expected_head = first_id,
     iq_input = JNull\<rparr>"

lemma sample_invocation_sel [simp]:
  "iq_context sample_invocation = sample_context" "iq_branch sample_invocation = ''main''"
  "iq_expected_head sample_invocation = first_id" "iq_input sample_invocation = JNull"
  by (simp_all add: sample_invocation_def)

lemma sample_invocation_wf: "request_wf sample_invocation"
  by (simp add: request_wf_def sample_names)

text \<open>A body with one parent and any payload.\<close>

definition agent_body :: "event_id \<Rightarrow> string \<Rightarrow> json \<Rightarrow> event_body" where
  "agent_body p kind v = (sample_body [p] kind)\<lparr>body_payload := v\<rparr>"

definition agent_event :: "event_id \<Rightarrow> string \<Rightarrow> json \<Rightarrow> signed_event" where
  "agent_event p kind v = \<lparr>ev_id = sample_id (300 + 2 * length kind + 99 + length (enc_json (json_norm v))),
     ev_body = agent_body p kind v, ev_signature = EventSignature (replicate 64 0)\<rparr>"

lemma agent_body_sel [simp]:
  "body_version (agent_body p kind v) = EVENT_VERSION" "body_context (agent_body p kind v) = sample_context"
  "body_parents (agent_body p kind v) = [p]" "body_kind (agent_body p kind v) = kind"
  "body_author (agent_body p kind v) = sample_author" "body_payload (agent_body p kind v) = v"
  by (simp_all add: agent_body_def)

lemma agent_len:
  assumes "event_id_wf p"
  shows "length (enc_json (json_norm (body_json sample_env (agent_body p kind v)))) =
    300 + 2 * length kind + 99 + length (enc_json (json_norm v))"
  using assms
  by (simp add: body_json_def body_fields_def agent_body_def sample_body_def obj_of_def EVENT_VERSION_def
      json_norm.simps sample_text_len enc_nat_1)

lemma agent_create:
  assumes "event_id_wf p" "name_ok MAX_KIND_BYTES kind" "json_depth v \<le> MAX_PAYLOAD_DEPTH" "numbers_safe v"
    and "length (enc_json (json_norm v)) \<le> 1000" "json_wf v"
  shows "create_event sample_env sample_identity sample_context [p] kind v = Inr (agent_event p kind v)"
    "event_wf (agent_event p kind v)" "is_ok (to_wire sample_env (agent_event p kind v))"
proof -
  have "length kind \<le> 64" using assms(2) by (auto simp: name_ok_def MAX_KIND_BYTES_def)
  then have valid: "validate_body sample_env (agent_body p kind v) = Inr ()"
    using assms agent_len [OF assms(1), of kind v]
    by (auto simp: validate_body_iff MAX_PARENTS_def canonicalize_sample MAX_CANONICAL_PAYLOAD_BYTES_def
        MAX_CANONICAL_BODY_BYTES_def)
  have derive: "derive_event_id sample_env (agent_body p kind v) = Inr (ev_id (agent_event p kind v))"
    using agent_len [OF assms(1), of kind v]
    by (auto simp: derive_event_id_Inr_iff canonical_bytes_Inr_iff valid canonicalize_sample
        sample_digest_def sample_id_def agent_event_def)
  have "body_new sample_env sample_context [p] kind sample_author v = Inr (agent_body p kind v)"
    using valid by (simp add: body_new_def Let_def agent_body_def sample_body_def)
  then show create: "create_event sample_env sample_identity sample_context [p] kind v = Inr (agent_event p kind v)"
    using derive valid
    by (simp add: create_event_def sign_body_def sample_identity_author from_verified_parts_def
        sign_event_id_def agent_event_def)
  show "event_wf (agent_event p kind v)"
    using create_event_wf [OF sample_env_lawful create] assms(1,6) by simp
  have "verify_event sample_env (agent_event p kind v) = Inr ()"
    by (rule create_event_verifies [OF env_lawfulD(3) [OF sample_env_lawful] create])
  then show "is_ok (to_wire sample_env (agent_event p kind v))"
    by (simp add: is_ok_iff to_wire_Inr_iff canonicalize_sample)
qed

text \<open>Appending such an event to the branch succeeds.\<close>

lemma agent_admit:
  assumes "store_inv sample_env d" "event_wf ev" "is_ok (to_wire sample_env ev)" "ev = agent_event p kind v"
    and "kind \<noteq> ''context.genesis''" "context_view d sample_context = Some (x, True)"
    and "(sample_context, sample_author) \<in> set (db_authors d)"
    and "lookup_event sample_env d p = Some pe" "event_context pe = sample_context"
    and "lookup_event sample_env d (ev_id ev) = None" "local_view d (sample_context, ''main'') = Some p"
    and "p \<noteq> ev_id ev"
  obtains d' where
    "admit sample_env ev (CompareAndSwap sample_context ''main'' (Head p) (ev_id ev)) Committed d = (Inr Inserted, d')"
    "store_view sample_env d' = (store_view sample_env d)\<lparr>
       view_contexts := (context_view d)(sample_context \<mapsto> (x, True)),
       view_events := (lookup_event sample_env d)(ev_id ev \<mapsto> norm_event ev),
       view_refs := (local_view d)((sample_context, ''main'') \<mapsto> ev_id ev)\<rparr>"
proof -
  let ?m = "CompareAndSwap sample_context ''main'' (Head p) (ev_id ev)"
  obtain w where w: "to_wire sample_env ev = Inr w" using assms(3) by (auto simp: is_ok_iff)
  then have wire: "wire_of sample_env ev w" using assms(2) by (simp add: wire_of_def)
  have m: "mutation_matches ev ?m" "mutation_wf ?m"
    by (simp_all add: assms(4) agent_event_def sample_names)
  have sel: "event_context ev = sample_context" "event_parents ev = [p]" "body_kind (ev_body ev) = kind"
      "body_author (ev_body ev) = sample_author"
    by (simp_all add: assms(4) agent_event_def event_context_def event_parents_def)
  have "spec_admit (norm_event ev) ?m (store_view sample_env d) = Inr (Inserted, (store_view sample_env d)\<lparr>
       view_contexts := (context_view d)(sample_context \<mapsto> (x, True)),
       view_events := (lookup_event sample_env d)(ev_id ev \<mapsto> norm_event ev),
       view_refs := (local_view d)((sample_context, ''main'') \<mapsto> ev_id ev)\<rparr>)"
    using assms sel
    by (simp add: spec_admit_def Let_def store_view_def is_genesis_event_def admission_status_of_def)
  then show thesis
    using run_refines [where tx = "admit_tx sample_env ev w (norm_event ev) ?m" and view = "store_view sample_env",
        OF admit_tx_refines [OF sample_env_lawful assms(1) wire m]] that
    unfolding admit_run [OF sample_env_lawful assms(2) w m(1), symmetric]
    by (cases "admit sample_env ev ?m Committed d") auto
qed

section \<open>The run\<close>

definition sample_correlation :: string where
  "sample_correlation = ''inv1_'' @ encode64 (replicate 16 7)"

definition sample_agent_request :: signed_event where
  "sample_agent_request = agent_event first_id ''agent.request''
     (request_payload sample_env sample_invocation sample_correlation)"

definition sample_agent_error :: signed_event where
  "sample_agent_error = agent_event (ev_id sample_agent_request) ''agent.error'' (JObject (obj_of
     [(''detail'', JString []), (''error_code'', JString ''provider_timeout''),
      (''invocation_id'', JString sample_correlation)]))"

lemma agent_kinds: "name_ok MAX_KIND_BYTES ''agent.request''" "name_ok MAX_KIND_BYTES ''agent.error''"
  by code_simp+

lemma agent_request_payload:
  "request_payload sample_env sample_invocation sample_correlation = JObject
     [(''input'', JNull), (''invocation_id'', JString sample_correlation),
      (''selected_head'', JString (event_id_text sample_env first_id))]"
  by (simp add: request_payload_def obj_of_def)

lemma agent_error_payload:
  "JObject (obj_of [(''detail'', JString []), (''error_code'', JString ''provider_timeout''),
      (''invocation_id'', JString sample_correlation)]) = JObject
     [(''detail'', JString []), (''error_code'', JString ''provider_timeout''),
      (''invocation_id'', JString sample_correlation)]"
  by (simp add: obj_of_def)

lemma sample_correlation_len: "length sample_correlation = 27"
  by (simp add: sample_correlation_def length_encode64)

lemma agent_ids: "ev_id sample_agent_request = sample_id 650" "ev_id sample_agent_error = sample_id 579"
  by (simp_all add: sample_agent_request_def sample_agent_error_def agent_event_def agent_request_payload
      agent_error_payload json_norm.simps sample_correlation_len sample_text_len)

lemma agent_ids_fresh:
  "ev_id sample_agent_request \<noteq> genesis_id" "ev_id sample_agent_request \<noteq> first_id"
  "ev_id sample_agent_error \<noteq> genesis_id" "ev_id sample_agent_error \<noteq> first_id"
  "ev_id sample_agent_error \<noteq> ev_id sample_agent_request"
  by (simp_all add: agent_ids sample_ids sample_id_eq_iff)

lemma sample_agent_created:
  "create_event sample_env sample_identity sample_context [first_id] ''agent.request''
     (request_payload sample_env sample_invocation sample_correlation) = Inr sample_agent_request"
  "event_wf sample_agent_request" "is_ok (to_wire sample_env sample_agent_request)"
  unfolding sample_agent_request_def
  by (rule agent_create; simp add: agent_kinds agent_request_payload MAX_PAYLOAD_DEPTH_def json_norm.simps
      sample_correlation_len sample_text_len)+

lemma sample_error_created:
  "create_event sample_env sample_identity sample_context [ev_id sample_agent_request] ''agent.error''
     (JObject (obj_of [(''detail'', JString []), (''error_code'', JString ''provider_timeout''),
      (''invocation_id'', JString sample_correlation)])) = Inr sample_agent_error"
  "event_wf sample_agent_error" "is_ok (to_wire sample_env sample_agent_error)"
  unfolding sample_agent_error_def
  by (rule agent_create; simp add: agent_ids agent_kinds agent_error_payload MAX_PAYLOAD_DEPTH_def json_norm.simps
      sample_correlation_len)+

lemma sample_prepare:
  "prepare_request sample_env sample_identity sample_invocation (Some (replicate 16 7)) first_db =
    Inr ([genesis_event, first_event], sample_correlation, sample_agent_request)"
proof -
  obtain n where "project_on sample_env first_db sample_context [first_id] default_projection_limits =
      Inr ([genesis_event, first_event], n)"
    using sample_project_first by blast
  then have "project sample_env first_db sample_context [first_id] default_projection_limits = Inr
      \<lparr>proj_context = sample_context, proj_heads = [first_id], proj_events = [genesis_event, first_event],
       proj_wire_bytes = n\<rparr>"
    by (simp add: project_def normalize_heads_def validate_projection_limits_def projection_limits_new_def
        default_projection_limits_def MAX_PROJECTION_EVENTS_def MAX_PROJECTION_WIRE_BYTES_def MAX_PROJECTION_HEADS_def sort_dedup_def)
  then show ?thesis
    using sample_agent_created(1)
    by (simp add: prepare_request_def canonicalize_sample json_norm.simps PROVIDER_INPUT_LIMIT_def
        generate_invocation_id_def sample_correlation_def)
qed

lemma first_db_view:
  "context_view first_db sample_context = Some (genesis_id, True)"
  "(sample_context, sample_author) \<in> set (db_authors first_db)"
  "local_view first_db (sample_context, ''main'') = Some first_id"
  "i \<noteq> genesis_id \<Longrightarrow> i \<noteq> first_id \<Longrightarrow> lookup_event sample_env first_db i = None"
  by (simp_all add: context_view_def local_view_def lookup_event_def first_db_def genesis_db_def)

lemma sample_admit_request:
  obtains d1 where
    "admit sample_env sample_agent_request (CompareAndSwap sample_context ''main'' (Head first_id)
       (ev_id sample_agent_request)) Committed first_db = (Inr Inserted, d1)"
    "store_inv sample_env d1" "context_view d1 sample_context = Some (genesis_id, True)"
    "(sample_context, sample_author) \<in> set (db_authors d1)"
    "lookup_event sample_env d1 (ev_id sample_agent_request) = Some (norm_event sample_agent_request)"
    "lookup_event sample_env d1 (ev_id sample_agent_error) = None"
    "local_view d1 (sample_context, ''main'') = Some (ev_id sample_agent_request)"
proof -
  obtain d1 where d1: "admit sample_env sample_agent_request (CompareAndSwap sample_context ''main'' (Head first_id)
       (ev_id sample_agent_request)) Committed first_db = (Inr Inserted, d1)"
      and view: "store_view sample_env d1 = (store_view sample_env first_db)\<lparr>
       view_contexts := (context_view first_db)(sample_context \<mapsto> (genesis_id, True)),
       view_events := (lookup_event sample_env first_db)(ev_id sample_agent_request \<mapsto> norm_event sample_agent_request),
       view_refs := (local_view first_db)((sample_context, ''main'') \<mapsto> ev_id sample_agent_request)\<rparr>"
    by (rule agent_admit [OF sample_invs(2) sample_agent_created(2,3) sample_agent_request_def _ first_db_view(1,2)
          sample_lookups(3) _ first_db_view(4) first_db_view(3)])
      (simp_all add: agent_ids_fresh agent_ids_fresh(2) [symmetric] first_event_def)
  have "keeps_store sample_env first_db d1"
    using admit_keeps [OF sample_env_lawful sample_invs(2) sample_agent_created(2),
        of "CompareAndSwap sample_context ''main'' (Head first_id) (ev_id sample_agent_request)" Committed]
      d1 sample_names by simp
  moreover from view have "context_view d1 sample_context = Some (genesis_id, True)"
    "set (db_authors d1) = set (db_authors first_db)"
    "lookup_event sample_env d1 =
      (lookup_event sample_env first_db)(ev_id sample_agent_request \<mapsto> norm_event sample_agent_request)"
    "local_view d1 = (local_view first_db)((sample_context, ''main'') \<mapsto> ev_id sample_agent_request)"
    by (simp_all add: store_view_def)
  ultimately show thesis
    using that [OF d1] first_db_view(2,4) agent_ids_fresh by (simp add: keeps_store_def)
qed

lemma sample_record:
  "\<exists>report d'. record_invocation sample_env sample_identity sample_invocation
     (\<lambda>_. ProviderFailure ''provider_timeout'' []) (Some (replicate 16 7)) (\<lambda>_ d. d) (\<lambda>_. Committed) first_db =
     (Inr report, d') \<and> ir_outcome report = ErrorOutcome"
proof -
  obtain d1 where d1: "admit sample_env sample_agent_request (CompareAndSwap sample_context ''main'' (Head first_id)
       (ev_id sample_agent_request)) Committed first_db = (Inr Inserted, d1)"
    and inv: "store_inv sample_env d1" and c: "context_view d1 sample_context = Some (genesis_id, True)"
    and a: "(sample_context, sample_author) \<in> set (db_authors d1)"
    and p: "lookup_event sample_env d1 (ev_id sample_agent_request) = Some (norm_event sample_agent_request)"
    and n: "lookup_event sample_env d1 (ev_id sample_agent_error) = None"
    and h: "local_view d1 (sample_context, ''main'') = Some (ev_id sample_agent_request)"
    by (rule sample_admit_request)
  have pc: "event_context (norm_event sample_agent_request) = sample_context"
    by (simp add: event_context_def sample_agent_request_def agent_event_def)
  obtain d2 where d2: "admit sample_env sample_agent_error (CompareAndSwap sample_context ''main''
      (Head (ev_id sample_agent_request)) (ev_id sample_agent_error)) Committed d1 = (Inr Inserted, d2)"
    by (rule agent_admit [OF inv sample_error_created(2,3) sample_agent_error_def _ c a p pc n h])
      (use agent_ids_fresh(5) in simp_all)
  have detail: "sanitize_detail [] = []" by (simp add: sanitize_detail_def)
  show ?thesis
    using sample_prepare d1 d2 sample_error_created(1)
    by (simp add: record_invocation_def record_result_def recorded_payload_def detail)
qed

end
