(* ===== verification/Secret_File.thy ===== *)
theory Secret_File
  imports Receipt
begin

text \<open>
  Custody of key and token files, \<open>src/src/crypto.rs\<close>. The file system is explicit: names lead to
  inodes, system calls are functions on it, and an oracle makes any of them fail. Unix only, as
  the code; paths are taken without \<open>.\<close> components.
\<close>

datatype key_file_error =
    KeyUnavailable | KeyAlreadyExists | KeyInsecurePermissions | KeyMalformed | KeyUnsupported

section \<open>The file system\<close>

datatype file_kind = RegularFile | DirectoryFile | SymlinkFile

record inode =
  in_kind :: file_kind
  in_mode :: "32 word"
  in_data :: bytes

text \<open>\<open>fs_fresh\<close> is the number the next new inode gets.\<close>

record file_system =
  fs_names :: "string \<rightharpoonup> nat"
  fs_inodes :: "nat \<Rightarrow> inode"
  fs_fresh :: nat

definition fs_lookup :: "file_system \<Rightarrow> string \<Rightarrow> inode option" where
  "fs_lookup fs path = map_option (fs_inodes fs) (fs_names fs path)"

datatype io_kind = IoAlreadyExists | IoOther

datatype secret_step = CreateTemp | WriteTemp | SyncTemp | LinkPath | RemoveTemp | SyncParent | CleanTemp

text \<open>
  The outside of one write: the process number, the random suffix, the mask of new files, the
  failing calls, and how much a failing write has written.
\<close>

record secret_writer =
  sw_pid :: nat
  sw_suffix :: "bytes option"
  sw_umask :: "32 word"
  sw_fault :: "secret_step \<Rightarrow> io_kind option"
  sw_written :: nat

type_synonym io_step = "file_system \<Rightarrow> (io_kind + unit) \<times> file_system"

definition fs_create :: "32 word \<Rightarrow> string \<Rightarrow> io_step" where
  "fs_create mode path fs =
     (if fs_names fs path \<noteq> None then (Inl IoAlreadyExists, fs)
      else (Inr (), fs\<lparr>fs_names := (fs_names fs)(path \<mapsto> fs_fresh fs),
        fs_inodes := (fs_inodes fs)(fs_fresh fs := \<lparr>in_kind = RegularFile, in_mode = mode, in_data = []\<rparr>),
        fs_fresh := Suc (fs_fresh fs)\<rparr>))"

definition fs_set_data :: "string \<Rightarrow> bytes \<Rightarrow> file_system \<Rightarrow> file_system" where
  "fs_set_data path b fs =
     (case fs_names fs path of
        None \<Rightarrow> fs
      | Some n \<Rightarrow> fs\<lparr>fs_inodes := (fs_inodes fs)(n := (fs_inodes fs n)\<lparr>in_data := b\<rparr>)\<rparr>)"

definition fs_link :: "string \<Rightarrow> string \<Rightarrow> io_step" where
  "fs_link old path fs =
     (case fs_names fs old of
        None \<Rightarrow> (Inl IoOther, fs)
      | Some n \<Rightarrow>
          if fs_names fs path \<noteq> None then (Inl IoAlreadyExists, fs)
          else (Inr (), fs\<lparr>fs_names := (fs_names fs)(path \<mapsto> n)\<rparr>))"

definition fs_remove :: "string \<Rightarrow> io_step" where
  "fs_remove path fs =
     (if fs_names fs path = None then (Inl IoOther, fs)
      else (Inr (), fs\<lparr>fs_names := (fs_names fs)(path := None)\<rparr>))"

text \<open>A call that the oracle may make fail with no effect.\<close>

definition may_fail :: "secret_writer \<Rightarrow> secret_step \<Rightarrow> io_step \<Rightarrow> io_step" where
  "may_fail W step call fs =
     (case sw_fault W step of Some k \<Rightarrow> (Inl k, fs) | None \<Rightarrow> call fs)"

definition io_then :: "io_step \<Rightarrow> io_step \<Rightarrow> io_step" where
  "io_then first second fs =
     (case first fs of (Inl k, fs') \<Rightarrow> (Inl k, fs') | (Inr _, fs') \<Rightarrow> second fs')"

section \<open>Writing\<close>

text \<open>\<open>Path::parent\<close>, the working directory standing for an empty one.\<close>

definition parent_path :: "string \<Rightarrow> string" where
  "parent_path path =
     (let slash = (\<lambda>c. c = CHR ''/'');
          stem = dropWhile slash (rev path);
          above = dropWhile (\<lambda>c. \<not> slash c) stem;
          parent = rev (dropWhile slash above)
      in if parent \<noteq> [] then parent else if stem \<noteq> [] \<and> above \<noteq> [] then ''/'' else ''.'')"

definition temp_path :: "secret_writer \<Rightarrow> bytes \<Rightarrow> string \<Rightarrow> string" where
  "temp_path W salt path =
     (let parent = parent_path path in
      parent @ (if last parent = CHR ''/'' then [] else ''/'') @
      ''.contextmesh-secret-'' @ decimal (sw_pid W) @ ''-'' @ concat (map hex_byte salt) @ ''.tmp'')"

definition write_data :: "secret_writer \<Rightarrow> string \<Rightarrow> bytes \<Rightarrow> io_step" where
  "write_data W temp b fs =
     (case sw_fault W WriteTemp of
        Some k \<Rightarrow> (Inl k, fs_set_data temp (take (sw_written W) b) fs)
      | None \<Rightarrow> (Inr (), fs_set_data temp b fs))"

definition write_steps :: "secret_writer \<Rightarrow> string \<Rightarrow> string \<Rightarrow> bytes \<Rightarrow> io_step" where
  "write_steps W temp path b =
     io_then (may_fail W CreateTemp (fs_create (and 0x180 (not (sw_umask W))) temp))
     (io_then (write_data W temp b)
     (io_then (may_fail W SyncTemp (\<lambda>fs. (Inr (), fs)))
     (io_then (may_fail W LinkPath (fs_link temp path))
     (io_then (may_fail W RemoveTemp (fs_remove temp))
     (may_fail W SyncParent (\<lambda>fs. (Inr (), fs)))))))"

definition write_secret_file ::
  "secret_writer \<Rightarrow> string \<Rightarrow> bytes \<Rightarrow> file_system \<Rightarrow> (key_file_error + unit) \<times> file_system" where
  "write_secret_file W path b fs =
     (if map_option in_kind (fs_lookup fs (parent_path path)) \<noteq> Some DirectoryFile
      then (Inl KeyUnavailable, fs)
      else if fs_lookup fs path \<noteq> None then (Inl KeyAlreadyExists, fs)
      else case sw_suffix W of
        None \<Rightarrow> (Inl KeyUnavailable, fs)
      | Some salt \<Rightarrow>
          let temp = temp_path W salt path in
          (case write_steps W temp path b fs of
             (Inr _, fs') \<Rightarrow> (Inr (), fs')
           | (Inl IoAlreadyExists, fs') \<Rightarrow>
               (Inl KeyAlreadyExists, snd (may_fail W CleanTemp (fs_remove temp) fs'))
           | (Inl IoOther, fs') \<Rightarrow>
               (Inl KeyUnavailable, snd (may_fail W CleanTemp (fs_remove temp) fs'))))"

section \<open>Reading\<close>

text \<open>What the reader sees of a path, through the handle it opened, and of the path afterwards.\<close>

record file_view =
  fv_kind :: file_kind
  fv_mode :: "32 word"
  fv_id :: nat
  fv_data :: bytes

record secret_views =
  sv_before :: "file_view option"
  sv_opened :: "file_view option"
  sv_after :: "file_view option"

definition open_to_others :: "file_view \<Rightarrow> bool" where
  "open_to_others v \<longleftrightarrow> and (fv_mode v) 0x3f \<noteq> 0"

definition read_secret_file :: "secret_views \<Rightarrow> nat \<Rightarrow> key_file_error + bytes" where
  "read_secret_file views expected_len =
     bindR (ok_or (sv_before views) KeyUnavailable) (\<lambda>before.
       if fv_kind before \<noteq> RegularFile then Inl KeyMalformed
       else if length (fv_data before) \<noteq> expected_len then Inl KeyMalformed
       else if open_to_others before then Inl KeyInsecurePermissions
       else bindR (ok_or (sv_opened views) KeyUnavailable) (\<lambda>opened.
         if fv_kind opened = RegularFile \<and> fv_id opened = fv_id before \<and>
            length (fv_data opened) = expected_len \<and> \<not> open_to_others opened
         then
           if length (fv_data opened) < 32 then Inl KeyMalformed
           else bindR (ok_or (sv_after views) KeyUnavailable) (\<lambda>after.
             if fv_kind after = RegularFile \<and> fv_id after = fv_id opened \<and> \<not> open_to_others after \<and>
                length (fv_data after) = expected_len
             then Inr (take 32 (fv_data opened)) else Inl KeyUnavailable)
         else if open_to_others opened \<or> open_to_others before then Inl KeyInsecurePermissions
         else Inl KeyMalformed))"

section \<open>Keys and tokens\<close>

definition generate_key_file ::
  "env \<Rightarrow> bytes option \<Rightarrow> secret_writer \<Rightarrow> string \<Rightarrow> file_system \<Rightarrow>
    (key_file_error + author_id) \<times> file_system" where
  "generate_key_file E entropy W path fs =
     (case entropy of
        None \<Rightarrow> (Inl KeyUnavailable, fs)
      | Some seed \<Rightarrow>
          (case write_secret_file W path seed fs of
             (Inl e, fs') \<Rightarrow> (Inl e, fs')
           | (Inr _, fs') \<Rightarrow> (Inr (identity_author E (SigningIdentity seed)), fs')))"

definition generate_token_file ::
  "env \<Rightarrow> bytes option \<Rightarrow> secret_writer \<Rightarrow> string \<Rightarrow> file_system \<Rightarrow>
    (key_file_error + unit) \<times> file_system" where
  "generate_token_file E entropy W path fs =
     (case entropy of
        None \<Rightarrow> (Inl KeyUnavailable, fs)
      | Some b \<Rightarrow> write_secret_file W path (string_bytes (''token1_'' @ b64_encode E b)) fs)"

definition load_key_file :: "secret_views \<Rightarrow> key_file_error + signing_identity" where
  "load_key_file views = bindR (read_secret_file views 32) (\<lambda>seed. Inr (SigningIdentity seed))"

text \<open>\<open>chmod_fails\<close>: whether changing the mode fails; \<open>race\<close>: what others do to the file before the last look.\<close>

definition fs_set_mode :: "string \<Rightarrow> 32 word \<Rightarrow> file_system \<Rightarrow> file_system" where
  "fs_set_mode path mode fs =
     (case fs_names fs path of
        None \<Rightarrow> fs
      | Some n \<Rightarrow> fs\<lparr>fs_inodes := (fs_inodes fs)(n := (fs_inodes fs n)\<lparr>in_mode := mode\<rparr>)\<rparr>)"

definition repair_key_file_permissions ::
  "bool \<Rightarrow> (file_system \<Rightarrow> file_system) \<Rightarrow> string \<Rightarrow> file_system \<Rightarrow> (key_file_error + unit) \<times> file_system" where
  "repair_key_file_permissions chmod_fails race path fs =
     (case fs_names fs path of
        None \<Rightarrow> (Inl KeyUnavailable, fs)
      | Some n \<Rightarrow>
          if in_kind (fs_inodes fs n) \<noteq> RegularFile then (Inl KeyMalformed, fs)
          else if chmod_fails then (Inl KeyUnavailable, fs)
          else
            let fs' = race (fs_set_mode path 0x180 fs) in
            (case fs_names fs' path of
               None \<Rightarrow> (Inl KeyUnavailable, fs')
             | Some m \<Rightarrow>
                 if and (in_mode (fs_inodes fs' m)) 0x3f \<noteq> 0 \<or> m \<noteq> n then (Inl KeyUnavailable, fs')
                 else (Inr (), fs')))"

section \<open>What the writer guarantees\<close>

text \<open>A complete secret: a private regular file with the whole content.\<close>

definition holds_secret :: "file_system \<Rightarrow> string \<Rightarrow> bytes \<Rightarrow> bool" where
  "holds_secret fs path b \<longleftrightarrow>
     (case fs_lookup fs path of
        None \<Rightarrow> False
      | Some f \<Rightarrow> in_kind f = RegularFile \<and> and (in_mode f) 0x3f = 0 \<and> in_data f = b)"

definition fs_wf :: "file_system \<Rightarrow> bool" where
  "fs_wf fs \<longleftrightarrow> (\<forall>p n. fs_names fs p = Some n \<longrightarrow> n < fs_fresh fs)"

definition undisturbed :: "file_system \<Rightarrow> string set \<Rightarrow> file_system \<Rightarrow> bool" where
  "undisturbed fs names fs' \<longleftrightarrow> (\<forall>p. p \<notin> names \<longrightarrow> fs_lookup fs' p = fs_lookup fs p)"

lemma private_mode [simp]: "and (and 0x180 (not (m :: 32 word))) 0x3f = 0"
proof -
  have "and (and 0x180 (not m)) 0x3f = and (and 0x180 0x3f) (not m)"
    by (simp only: ac_simps)
  also have "\<dots> = 0" by simp
  finally show ?thesis .
qed

lemma owner_mode:
  fixes m :: "32 word"
  assumes "and m 0x100 = 0"
  shows "and (and 0x180 (not m)) 0x100 \<noteq> 0"
proof -
  have "0x100 = or (and 0x100 m) (and 0x100 (not m))"
    by (simp only: bit.conj_disj_distrib [symmetric] bit.disj_cancel_right bit.conj_one_right)
  also have "\<dots> = and 0x100 (not m)" using assms by (simp only: and.commute [of _ m] or.left_neutral)
  also have "\<dots> = and (and 0x180 (not m)) 0x100"
  proof -
    have "and (and 0x180 (not m)) 0x100 = and (and 0x180 0x100) (not m)" by (simp only: ac_simps)
    then show ?thesis by simp
  qed
  finally have "and (and 0x180 (not m)) 0x100 = 0x100" by (rule sym)
  moreover have "(0x100 :: 32 word) \<noteq> 0" by simp
  ultimately show ?thesis by (simp only: not_False_eq_True)
qed

lemmas step_defs = may_fail_def fs_create_def fs_set_data_def fs_link_def fs_remove_def write_data_def

text \<open>The states of a write: the temporary name alone, both names, the final name alone.\<close>

definition temp_state :: "secret_writer \<Rightarrow> string \<Rightarrow> bytes \<Rightarrow> file_system \<Rightarrow> file_system" where
  "temp_state W temp d fs = fs\<lparr>fs_names := (fs_names fs)(temp \<mapsto> fs_fresh fs),
     fs_inodes := (fs_inodes fs)(fs_fresh fs :=
       \<lparr>in_kind = RegularFile, in_mode = and 0x180 (not (sw_umask W)), in_data = d\<rparr>),
     fs_fresh := Suc (fs_fresh fs)\<rparr>"

definition linked_state :: "secret_writer \<Rightarrow> string \<Rightarrow> string \<Rightarrow> bytes \<Rightarrow> file_system \<Rightarrow> file_system" where
  "linked_state W temp path d fs =
     (temp_state W temp d fs)\<lparr>fs_names := (fs_names fs)(temp \<mapsto> fs_fresh fs, path \<mapsto> fs_fresh fs)\<rparr>"

definition final_state :: "secret_writer \<Rightarrow> string \<Rightarrow> string \<Rightarrow> bytes \<Rightarrow> file_system \<Rightarrow> file_system" where
  "final_state W temp path d fs =
     (temp_state W temp d fs)\<lparr>fs_names := (fs_names fs)(temp := None, path \<mapsto> fs_fresh fs)\<rparr>"

lemmas state_defs = temp_state_def linked_state_def final_state_def

lemma io_then_cases:
  assumes "io_then f g fs = (r, fs')"
  obtains k where "f fs = (Inl k, fs')" "r = Inl k" | fs1 where "f fs = (Inr (), fs1)" "g fs1 = (r, fs')"
  using assms by (auto simp: io_then_def split: prod.splits sum.splits)

lemma may_fail_cases:
  assumes "may_fail W step f fs = (r, fs')"
  obtains k where "r = Inl k" "fs' = fs" | "f fs = (r, fs')"
  using assms by (auto simp: may_fail_def split: option.splits)

lemma write_steps_states:
  assumes "temp \<noteq> path" "fs_names fs path = None" "write_steps W temp path b fs = (r, fs')"
  shows "r \<noteq> Inr () \<and> (fs' = fs \<or> (\<exists>d. fs' = temp_state W temp d fs) \<or> fs' = linked_state W temp path b fs) \<or>
    fs' = final_state W temp path b fs"
proof -
  note steps = assms(3) [unfolded write_steps_def]
  have create: "fs1 = temp_state W temp [] fs"
    if "fs_create (and 0x180 (not (sw_umask W))) temp fs = (Inr (), fs1)" for fs1
    using that by (auto simp: fs_create_def temp_state_def split: if_splits)
  have data: "fs_set_data temp d' (temp_state W temp d fs) = temp_state W temp d' fs" for d d'
    by (simp add: fs_set_data_def temp_state_def)
  have link: "fs1 = linked_state W temp path d fs"
    if "fs_link temp path (temp_state W temp d fs) = (Inr (), fs1)" for fs1 d
    using that by (auto simp: fs_link_def state_defs split: if_splits)
  have remove: "fs1 = final_state W temp path d fs"
    if "fs_remove temp (linked_state W temp path d fs) = (Inr (), fs1)" for fs1 d
    using that assms(1) by (auto simp: fs_remove_def state_defs fun_upd_twist)
  let ?last = "io_then (may_fail W RemoveTemp (fs_remove temp)) (may_fail W SyncParent (\<lambda>fs. (Inr (), fs)))"
  have last: "r \<noteq> Inr () \<and> fs' = linked_state W temp path b fs \<or> fs' = final_state W temp path b fs"
    if "?last (linked_state W temp path b fs) = (r, fs')"
    using that
  proof (cases rule: io_then_cases)
    case (1 k)
    then show ?thesis
      by (cases rule: may_fail_cases [OF 1(1)]) (auto simp: fs_remove_def split: if_splits)
  next
    case (2 fs1)
    then have "fs1 = final_state W temp path b fs"
      using remove by (cases rule: may_fail_cases [OF 2(1)]) auto
    then show ?thesis using 2(2) by (auto simp: may_fail_def split: option.splits)
  qed
  let ?tail = "io_then (may_fail W SyncTemp (\<lambda>fs. (Inr (), fs))) (io_then (may_fail W LinkPath (fs_link temp path)) ?last)"
  have tail: "r \<noteq> Inr () \<and> (fs' = temp_state W temp b fs \<or> fs' = linked_state W temp path b fs) \<or>
      fs' = final_state W temp path b fs" if "?tail (temp_state W temp b fs) = (r, fs')"
    using that
  proof (cases rule: io_then_cases)
    case (1 k)
    then show ?thesis by (auto simp: may_fail_def split: option.splits)
  next
    case (2 fs1)
    then have same: "fs1 = temp_state W temp b fs" by (auto simp: may_fail_def split: option.splits)
    from 2(2) show ?thesis
    proof (cases rule: io_then_cases)
      case (1 k)
      then show ?thesis
        by (cases rule: may_fail_cases [OF 1(1)]) (auto simp: same fs_link_def split: option.splits if_splits)
    next
      case (2 fs2)
      then have "fs2 = linked_state W temp path b fs"
        using link same by (cases rule: may_fail_cases [OF 2(1)]) auto
      then show ?thesis using last 2(2) by auto
    qed
  qed
  from steps show ?thesis
  proof (cases rule: io_then_cases)
    case (1 k)
    then show ?thesis
      by (cases rule: may_fail_cases [OF 1(1)]) (auto simp: fs_create_def split: if_splits)
  next
    case (2 fs1)
    then have made: "fs1 = temp_state W temp [] fs"
      using create by (cases rule: may_fail_cases [OF 2(1)]) auto
    from 2(2) show ?thesis
    proof (cases rule: io_then_cases)
      case (1 k)
      then have "\<exists>d. fs' = temp_state W temp d fs"
        by (auto simp: made write_data_def data split: option.splits)
      then show ?thesis using 1(2) by auto
    next
      case (2 fs2)
      then have "fs2 = temp_state W temp b fs"
        by (auto simp: made write_data_def data split: option.splits)
      then show ?thesis using tail 2(2) by auto
    qed
  qed
qed

lemma state_lookup:
  assumes "fs_wf fs" "temp \<noteq> path" "fs_names fs path = None"
  shows "undisturbed fs {temp, path} (temp_state W temp d fs)" "fs_lookup (temp_state W temp d fs) path = None"
    "undisturbed fs {temp, path} (linked_state W temp path d fs)" "holds_secret (linked_state W temp path d fs) path d"
    "undisturbed fs {temp, path} (final_state W temp path d fs)" "holds_secret (final_state W temp path d fs) path d"
    "fs_lookup (final_state W temp path d fs) temp = None"
    "map_option in_mode (fs_lookup (final_state W temp path d fs) path) = Some (and 0x180 (not (sw_umask W)))"
proof -
  have fresh: "fs_names fs p \<noteq> Some (fs_fresh fs)" for p using assms(1) by (auto simp: fs_wf_def)
  have old: "map_option ((fs_inodes fs)(fs_fresh fs := x)) (fs_names fs p) = map_option (fs_inodes fs) (fs_names fs p)" for x p
    using fresh [of p] by (cases "fs_names fs p") auto
  show "undisturbed fs {temp, path} (temp_state W temp d fs)" "fs_lookup (temp_state W temp d fs) path = None"
    "undisturbed fs {temp, path} (linked_state W temp path d fs)" "holds_secret (linked_state W temp path d fs) path d"
    "undisturbed fs {temp, path} (final_state W temp path d fs)" "holds_secret (final_state W temp path d fs) path d"
    "fs_lookup (final_state W temp path d fs) temp = None"
    "map_option in_mode (fs_lookup (final_state W temp path d fs) path) = Some (and 0x180 (not (sw_umask W)))"
    using assms(2,3)
    by (simp_all add: undisturbed_def fs_lookup_def holds_secret_def state_defs old)
qed

lemma clean_lookup:
  "p \<noteq> temp \<Longrightarrow> fs_lookup (snd (may_fail W step (fs_remove temp) fs)) p = fs_lookup fs p"
  by (auto simp: may_fail_def fs_remove_def fs_lookup_def split: option.splits)

definition secret_temp :: "secret_writer \<Rightarrow> string \<Rightarrow> string option" where
  "secret_temp W path = map_option (\<lambda>salt. temp_path W salt path) (sw_suffix W)"

lemma write_secret_file_spec:
  assumes "fs_wf fs" "secret_temp W path \<noteq> Some path" "write_secret_file W path b fs = (r, fs')"
  shows "(\<forall>p. p \<noteq> path \<and> secret_temp W path \<noteq> Some p \<longrightarrow> fs_lookup fs' p = fs_lookup fs p) \<and>
    (fs_lookup fs path \<noteq> None \<longrightarrow> fs' = fs \<and> r \<noteq> Inr ()) \<and>
    (fs_lookup fs' path = fs_lookup fs path \<or> holds_secret fs' path b) \<and>
    (r = Inr () \<longrightarrow> holds_secret fs' path b \<and>
      map_option in_mode (fs_lookup fs' path) = Some (and 0x180 (not (sw_umask W))) \<and>
      (\<forall>temp. secret_temp W path = Some temp \<longrightarrow> fs_lookup fs' temp = None))"
proof (cases "fs' = fs \<and> r \<noteq> Inr ()")
  case False
  then obtain salt where salt: "sw_suffix W = Some salt" and absent: "fs_lookup fs path = None"
    using assms(3) by (auto simp: write_secret_file_def split: if_splits option.splits)
  define temp where "temp = temp_path W salt path"
  have temp: "secret_temp W path = Some temp" "temp \<noteq> path"
    using assms(2) by (auto simp: secret_temp_def salt temp_def)
  have free: "fs_names fs path = None" using absent by (simp add: fs_lookup_def)
  obtain r1 fs1 where steps: "write_steps W temp path b fs = (r1, fs1)"
    by (cases "write_steps W temp path b fs")
  have run: "r1 = Inr () \<and> r = Inr () \<and> fs' = fs1 \<or>
      r1 \<noteq> Inr () \<and> r \<noteq> Inr () \<and> fs' = snd (may_fail W CleanTemp (fs_remove temp) fs1)"
    using assms(3) steps False absent salt
    by (auto simp: write_secret_file_def Let_def temp_def [symmetric] split: sum.splits io_kind.splits if_splits)
  note states = write_steps_states [OF temp(2) free steps]
  note lookups = state_lookup [OF assms(1) temp(2) free]
  have disturbed: "undisturbed fs {temp, path} fs1"
    using states lookups by (auto simp: undisturbed_def)
  have at_path: "fs_lookup fs1 path = None \<or> holds_secret fs1 path b"
    using states lookups absent by auto
  have cleaned: "fs_lookup fs' p = fs_lookup fs1 p" if "p \<noteq> temp" for p
    using run clean_lookup [OF that] by auto
  have "holds_secret fs' path b \<longleftrightarrow> holds_secret fs1 path b"
    using cleaned [of path] temp(2) by (simp add: holds_secret_def)
  moreover have "fs_lookup fs' p = fs_lookup fs p" if "p \<noteq> path" "p \<noteq> temp" for p
    using cleaned [OF that(2)] disturbed that by (simp add: undisturbed_def)
  moreover have "holds_secret fs1 path b \<and> fs_lookup fs1 temp = None \<and> fs' = fs1 \<and>
      map_option in_mode (fs_lookup fs1 path) = Some (and 0x180 (not (sw_umask W)))" if "r = Inr ()"
    using run that states lookups by auto
  ultimately show ?thesis
    using at_path cleaned [of path] temp absent by auto
qed (use assms(3) in auto)

section \<open>Reading back\<close>

definition view_of :: "file_system \<Rightarrow> string \<Rightarrow> file_view option" where
  "view_of fs path = map_option (\<lambda>n. \<lparr>fv_kind = in_kind (fs_inodes fs n), fv_mode = in_mode (fs_inodes fs n),
     fv_id = n, fv_data = in_data (fs_inodes fs n)\<rparr>) (fs_names fs path)"

text \<open>
  What the owner sees, without privileges and with nobody interfering: the path can always be
  looked at, but the file opens only when its mode lets the owner read.
\<close>

definition owner_reads :: "file_view \<Rightarrow> bool" where
  "owner_reads v \<longleftrightarrow> and (fv_mode v) 0x100 \<noteq> 0"

definition quiet_views :: "file_system \<Rightarrow> string \<Rightarrow> secret_views" where
  "quiet_views fs path =
     \<lparr>sv_before = view_of fs path,
      sv_opened = (case view_of fs path of None \<Rightarrow> None | Some v \<Rightarrow> if owner_reads v then Some v else None),
      sv_after = view_of fs path\<rparr>"

lemma read_secret_file_Inr:
  assumes "read_secret_file views 32 = Inr b"
  obtains v where "sv_opened views = Some v" "b = fv_data v" "length b = 32" "fv_kind v = RegularFile"
    "\<not> open_to_others v"
  using assms by (auto simp: read_secret_file_def bindR_Inr_iff split: if_splits)

lemma read_quiet_secret:
  assumes "holds_secret fs path b" "length b = 32"
    and "map_option in_mode (fs_lookup fs path) = Some m" "and m 0x100 \<noteq> 0"
  shows "read_secret_file (quiet_views fs path) 32 = Inr b"
  using assms
  by (auto simp: holds_secret_def fs_lookup_def read_secret_file_def quiet_views_def view_of_def
      open_to_others_def owner_reads_def split: option.splits)

lemma written_key_loads:
  assumes "fs_wf fs" "secret_temp W path \<noteq> Some path" "write_secret_file W path seed fs = (Inr (), fs')"
    and "length seed = 32" "and (sw_umask W) 0x100 = 0"
  shows "load_key_file (quiet_views fs' path) = Inr (SigningIdentity seed)"
proof -
  have "holds_secret fs' path seed"
    "map_option in_mode (fs_lookup fs' path) = Some (and 0x180 (not (sw_umask W)))"
    using write_secret_file_spec [OF assms(1-3)] by simp_all
  from read_quiet_secret [OF this(1) assms(4) this(2) owner_mode [OF assms(5)]]
  show ?thesis by (simp add: load_key_file_def)
qed

lemma generated_key_loads:
  assumes "fs_wf fs" "secret_temp W path \<noteq> Some path" "length seed = 32" "and (sw_umask W) 0x100 = 0"
    and "generate_key_file E (Some seed) W path fs = (Inr author, fs')"
  shows "load_key_file (quiet_views fs' path) = Inr (SigningIdentity seed)"
    "author = identity_author E (SigningIdentity seed)"
proof -
  have run: "write_secret_file W path seed fs = (Inr (), fs')"
    and author: "author = identity_author E (SigningIdentity seed)"
    using assms(5) by (auto simp: generate_key_file_def split: prod.splits sum.splits)
  show "author = identity_author E (SigningIdentity seed)" by (fact author)
  show "load_key_file (quiet_views fs' path) = Inr (SigningIdentity seed)"
    by (rule written_key_loads [OF assms(1,2) run assms(3,4)])
qed

text \<open>A repair that succeeds leaves the same file, private.\<close>

lemma repair_private:
  assumes "repair_key_file_permissions chmod_fails race path fs = (Inr u, fs')"
  shows "fs_names fs' path = fs_names fs path"
    "\<exists>f. fs_lookup fs' path = Some f \<and> and (in_mode f) 0x3f = 0"
  using assms
  by (auto simp: repair_key_file_permissions_def Let_def fs_lookup_def split: option.splits if_splits)

end
