(* ===== verification/Cli.thy ===== *)
theory Cli
  imports Secret_File Selection Pull_Client Provider Store_Verify Store_Invocation
begin

text \<open>
  The command line of \<open>src/src/cli.rs\<close>: error classes with their exit codes, the commands, their
  dispatch to the store and the other components, and the document a run prints. Parsing the
  arguments is the argument library's; files, standard input, the clock, child processes and the
  network are a record \<open>world\<close>. \<open>PeerEndpoint::new\<close> and \<open>SyncServer::bind\<close> of \<open>src/src/http.rs\<close>,
  which only the command line calls, are here too.
\<close>

definition CLI_SCHEMA_VERSION :: nat where "CLI_SCHEMA_VERSION = 1"
definition CLI_PAYLOAD_LIMIT :: nat where "CLI_PAYLOAD_LIMIT = PROVIDER_INPUT_LIMIT"

section \<open>Error classes\<close>

record cli_error =
  ce_code :: string
  ce_exit :: nat
  ce_details :: json

definition obj :: "(string \<times> json) list \<Rightarrow> json" where
  "obj es = JObject (obj_of es)"

definition cli_error :: "string \<Rightarrow> nat \<Rightarrow> (string \<times> json) list \<Rightarrow> cli_error" where
  "cli_error code exit details = \<lparr>ce_code = code, ce_exit = exit, ce_details = obj details\<rparr>"

definition usage_error :: "(string \<times> json) list \<Rightarrow> cli_error" where
  "usage_error = cli_error ''usage'' 2"
definition validation_error :: "(string \<times> json) list \<Rightarrow> cli_error" where
  "validation_error = cli_error ''validation'' 3"
definition conflict_error :: "(string \<times> json) list \<Rightarrow> cli_error" where
  "conflict_error = cli_error ''conflict'' 4"
definition auth_error :: "(string \<times> json) list \<Rightarrow> cli_error" where
  "auth_error = cli_error ''authentication'' 5"
definition not_found_error :: "(string \<times> json) list \<Rightarrow> cli_error" where
  "not_found_error = cli_error ''not_found'' 6"
definition provider_failure :: "(string \<times> json) list \<Rightarrow> cli_error" where
  "provider_failure = cli_error ''provider'' 7"
definition transport_error :: "(string \<times> json) list \<Rightarrow> cli_error" where
  "transport_error = cli_error ''transport'' 8"
definition internal_error :: "(string \<times> json) list \<Rightarrow> cli_error" where
  "internal_error = cli_error ''internal'' 9"

definition invalid_field :: "string \<Rightarrow> string \<Rightarrow> (string \<times> json) list" where
  "invalid_field field reason = [(''field'', JString field), (''reason'', JString reason)]"

text \<open>The derived \<open>Debug\<close> forms of the errors.\<close>

fun debug_contract :: "contract_error \<Rightarrow> string" where
  "debug_contract WireTooLarge = ''WireTooLarge''"
| "debug_contract JsonSyntax = ''JsonSyntax''"
| "debug_contract DuplicateKey = ''DuplicateKey''"
| "debug_contract UnknownField = ''UnknownField''"
| "debug_contract MissingField = ''MissingField''"
| "debug_contract UnsupportedVersion = ''UnsupportedVersion''"
| "debug_contract InvalidEncoding = ''InvalidEncoding''"
| "debug_contract InvalidKind = ''InvalidKind''"
| "debug_contract ParentOrder = ''ParentOrder''"
| "debug_contract LimitExceeded = ''LimitExceeded''"
| "debug_contract UnsafeNumber = ''UnsafeNumber''"
| "debug_contract Canonicalization = ''Canonicalization''"
| "debug_contract Entropy = ''Entropy''"
| "debug_contract AuthorMismatch = ''AuthorMismatch''"
| "debug_contract IdMismatch = ''IdMismatch''"
| "debug_contract SignatureInvalid = ''SignatureInvalid''"

definition debug_head :: "env \<Rightarrow> event_id option \<Rightarrow> string" where
  "debug_head E current =
     (case current of None \<Rightarrow> ''None'' | Some i \<Rightarrow> ''Some('' @ event_id_text E i @ '')'')"

fun debug_store :: "env \<Rightarrow> store_error \<Rightarrow> string" where
  "debug_store E DatabaseUnavailable = ''DatabaseUnavailable''"
| "debug_store E MigrationFailed = ''MigrationFailed''"
| "debug_store E NewerSchema = ''NewerSchema''"
| "debug_store E CorruptStorage = ''CorruptStorage''"
| "debug_store E ContextUnknown = ''ContextUnknown''"
| "debug_store E ContextProvisionMismatch = ''ContextProvisionMismatch''"
| "debug_store E GenesisMismatch = ''GenesisMismatch''"
| "debug_store E UnauthorizedAuthor = ''UnauthorizedAuthor''"
| "debug_store E (ParentMissing i) = ''ParentMissing('' @ event_id_text E i @ '')''"
| "debug_store E (ParentContextMismatch i) = ''ParentContextMismatch('' @ event_id_text E i @ '')''"
| "debug_store E EventCollision = ''EventCollision''"
| "debug_store E InvalidRefName = ''InvalidRefName''"
| "debug_store E RefMutationMismatch = ''RefMutationMismatch''"
| "debug_store E RefMissing = ''RefMissing''"
| "debug_store E RefAlreadyExists = ''RefAlreadyExists''"
| "debug_store E (StaleHead current) = ''StaleHead { current: '' @ debug_head E current @ '' }''"
| "debug_store E StoreLimitExceeded = ''LimitExceeded''"
| "debug_store E EntropyUnavailable = ''EntropyUnavailable''"
| "debug_store E ReservedEventKind = ''ReservedEventKind''"
| "debug_store E InvalidMerge = ''InvalidMerge''"
| "debug_store E ProjectionCycle = ''ProjectionCycle''"
| "debug_store E ProjectionLimitExceeded = ''ProjectionLimitExceeded''"
| "debug_store E BundleMalformed = ''BundleMalformed''"
| "debug_store E BundleUnsupportedVersion = ''BundleUnsupportedVersion''"
| "debug_store E BundleOrder = ''BundleOrder''"
| "debug_store E BundleLimitExceeded = ''BundleLimitExceeded''"
| "debug_store E BundleRefInvalid = ''BundleRefInvalid''"
| "debug_store E VerificationLimitInvalid = ''VerificationLimitInvalid''"
| "debug_store E IndeterminateCommit = ''IndeterminateCommit''"
| "debug_store E (Contract c) = ''Contract('' @ debug_contract c @ '')''"

fun debug_provider :: "env \<Rightarrow> provider_error \<Rightarrow> string" where
  "debug_provider E ProviderInvalidConfig = ''InvalidConfig''"
| "debug_provider E ProviderValidation = ''Validation''"
| "debug_provider E ProviderDeclared = ''ProviderDeclared''"
| "debug_provider E ProviderTransport = ''ProviderTransport''"
| "debug_provider E ProviderMalformed = ''ProviderMalformed''"
| "debug_provider E ProviderTimeout = ''ProviderTimeout''"
| "debug_provider E ProviderLimitExceeded = ''LimitExceeded''"
| "debug_provider E (PostExecutionConflict i current) =
     ''PostExecutionConflict { result: '' @ event_id_text E i @ '', current_head: '' @ debug_head E current @ '' }''"
| "debug_provider E (ProviderStore e) = ''Store('' @ debug_store E e @ '')''"
| "debug_provider E ProviderInternal = ''Internal''"

fun cli_store_error :: "env \<Rightarrow> store_error \<Rightarrow> cli_error" where
  "cli_store_error E ContextUnknown = not_found_error [(''subject'', JString ''context'')]"
| "cli_store_error E RefMissing = conflict_error [(''store_error'', JString ''conflict'')]"
| "cli_store_error E (StaleHead _) = conflict_error [(''store_error'', JString ''conflict'')]"
| "cli_store_error E (ParentMissing _) = validation_error [(''store_error'', JString ''parent'')]"
| "cli_store_error E (ParentContextMismatch _) = validation_error [(''store_error'', JString ''parent'')]"
| "cli_store_error E DatabaseUnavailable = internal_error [(''store_error'', JString ''database'')]"
| "cli_store_error E IndeterminateCommit = internal_error [(''store_error'', JString ''database'')]"
| "cli_store_error E other = internal_error [(''store_error'', JString (debug_store E other))]"

definition key_error :: "key_file_error \<Rightarrow> cli_error" where
  "key_error e = auth_error [(''key_file'', JString ''unavailable'')]"

fun cli_provider_error :: "env \<Rightarrow> provider_error \<Rightarrow> cli_error" where
  "cli_provider_error E (PostExecutionConflict i current) = provider_failure
     [(''current_head'', (case current of None \<Rightarrow> JNull | Some h \<Rightarrow> JString (event_id_text E h))),
      (''kind'', JString ''post_execution_conflict''), (''result'', JString (event_id_text E i))]"
| "cli_provider_error E (ProviderStore (StaleHead _)) = conflict_error [(''store_error'', JString ''conflict'')]"
| "cli_provider_error E (ProviderStore RefMissing) = conflict_error [(''store_error'', JString ''conflict'')]"
| "cli_provider_error E (ProviderStore ContextUnknown) = not_found_error [(''subject'', JString ''context'')]"
| "cli_provider_error E ProviderValidation = validation_error [(''provider_error'', JString ''validation'')]"
| "cli_provider_error E ProviderLimitExceeded = validation_error [(''provider_error'', JString ''validation'')]"
| "cli_provider_error E ProviderInvalidConfig = usage_error [(''provider_error'', JString ''config'')]"
| "cli_provider_error E other = provider_failure [(''provider_error'', JString (debug_provider E other))]"

definition cli_sync_error :: "sync_error \<Rightarrow> cli_error" where
  "cli_sync_error e = transport_error [(''sync'', JString ''failed'')]"

section \<open>The world of a run\<close>

text \<open>
  \<open>w_open\<close>: opening the database at a path; \<open>w_secret\<close>, \<open>w_token\<close>: what reading a secret sees;
  \<open>w_read\<close>: the content of a file; \<open>w_unwritable\<close>: paths that cannot be written; \<open>w_outcome\<close>,
  \<open>w_others\<close>: the outcomes of commits and the other writers; \<open>w_address\<close>: parsing a socket
  address; \<open>w_listen\<close>: binding it; \<open>w_send\<close>: the network; \<open>w_order\<close>: the order of rows.
\<close>

record world =
  w_open :: "string \<Rightarrow> store_error option"
  w_secret :: "string \<Rightarrow> secret_views"
  w_writer :: secret_writer
  w_chmod_fails :: bool
  w_race :: "file_system \<Rightarrow> file_system"
  w_token :: "string \<Rightarrow> token_file"
  w_stdin :: "bytes option"
  w_read :: "string \<Rightarrow> bytes option"
  w_unwritable :: "string set"
  w_entropy :: "bytes option"
  w_outcome :: "nat \<Rightarrow> commit_outcome"
  w_others :: "nat \<Rightarrow> db \<Rightarrow> db"
  w_process :: "string \<Rightarrow> string list \<Rightarrow> bytes \<Rightarrow> process_run"
  w_address :: "string \<Rightarrow> socket_addr option"
  w_listen :: "socket_addr \<Rightarrow> socket_addr option"
  w_served :: bool
  w_environment :: "string \<Rightarrow> bytes option"
  w_client_built :: bool
  w_send :: "nat \<Rightarrow> http_request \<Rightarrow> send_result"
  w_order :: "event_row list \<Rightarrow> event_row list"
  w_orders :: hash_orders
  w_schema_ok :: bool
  w_now :: nat

section \<open>Arguments and inputs\<close>

definition cli_context :: "env \<Rightarrow> string \<Rightarrow> cli_error + context_id" where
  "cli_context E s =
     map_err (\<lambda>_. validation_error (invalid_field ''context'' ''invalid canonical id'')) (context_id_of_text E s)"

definition cli_event :: "env \<Rightarrow> string \<Rightarrow> string \<Rightarrow> cli_error + event_id" where
  "cli_event E s field =
     map_err (\<lambda>_. validation_error (invalid_field field ''invalid canonical id'')) (event_id_of_text E s)"

definition cli_author :: "env \<Rightarrow> string \<Rightarrow> cli_error + author_id" where
  "cli_author E s =
     map_err (\<lambda>_. validation_error (invalid_field ''author'' ''invalid canonical id'')) (author_id_of_text E s)"

definition cli_branch :: "string \<Rightarrow> cli_error + string" where
  "cli_branch s =
     map_err (\<lambda>_. validation_error (invalid_field ''branch'' ''invalid canonical name'')) (name_from_str s)"

definition cli_peer :: "string \<Rightarrow> cli_error + string" where
  "cli_peer s =
     map_err (\<lambda>_. validation_error (invalid_field ''peer'' ''invalid name'')) (name_from_str s)"

definition within_limit :: "string \<Rightarrow> bytes \<Rightarrow> cli_error + bytes" where
  "within_limit field b =
     (if length b > CLI_PAYLOAD_LIMIT then Inl (validation_error (invalid_field field ''over limit'')) else Inr b)"

definition read_bounded :: "world \<Rightarrow> string \<Rightarrow> string option \<Rightarrow> bool \<Rightarrow> cli_error + bytes" where
  "read_bounded w source file stdin =
     (if stdin then
        bindR (ok_or (w_stdin w) (usage_error (invalid_field source ''stdin unreadable''))) (within_limit source)
      else bindR (ok_or file (usage_error (invalid_field source ''input required''))) (\<lambda>path.
        bindR (ok_or (w_read w path) (usage_error (invalid_field source ''file unreadable''))) (within_limit source)))"

definition cli_payload :: "env \<Rightarrow> bytes \<Rightarrow> cli_error + json" where
  "cli_payload E b =
     map_err (\<lambda>_. validation_error (invalid_field ''payload'' ''invalid JSON'')) (from_slice_value (json_reader E) b)"

definition open_store :: "env \<Rightarrow> world \<Rightarrow> string \<Rightarrow> cli_error + unit" where
  "open_store E w path =
     (case w_open w path of Some e \<Rightarrow> Inl (cli_store_error E e) | None \<Rightarrow> Inr ())"

definition load_identity :: "world \<Rightarrow> string \<Rightarrow> cli_error + signing_identity" where
  "load_identity w path = map_err key_error (load_key_file (w_secret w path))"

text \<open>Preparations that may fail before the store is used, then the operation.\<close>

definition prepared :: "cli_error + 'a \<Rightarrow> ('a \<Rightarrow> db \<Rightarrow> (cli_error + 'b) \<times> db) \<Rightarrow> db \<Rightarrow> (cli_error + 'b) \<times> db" where
  "prepared pre op d = (case pre of Inl e \<Rightarrow> (Inl e, d) | Inr x \<Rightarrow> op x d)"

definition replying :: "env \<Rightarrow> ('a \<Rightarrow> json) \<Rightarrow> (store_error + 'a) \<times> db \<Rightarrow> (cli_error + json) \<times> db" where
  "replying E render r =
     (case r of (Inl e, d) \<Rightarrow> (Inl (cli_store_error E e), d) | (Inr v, d) \<Rightarrow> (Inr (render v), d))"

definition count_json :: "nat \<Rightarrow> json" where
  "count_json n = JNumber (PosInt n)"

section \<open>Commands that write\<close>

definition cli_context_create ::
  "env \<Rightarrow> world \<Rightarrow> string \<Rightarrow> string \<Rightarrow> string \<Rightarrow> db \<Rightarrow> (cli_error + json) \<times> db" where
  "cli_context_create E w dbp key_file branch =
     prepared (bindR (open_store E w dbp) (\<lambda>_. bindR (load_identity w key_file) (\<lambda>idn.
         bindR (cli_branch branch) (\<lambda>name. Inr (idn, name)))))
       (\<lambda>(idn, name) d. replying E (\<lambda>created. obj
           [(''branch'', JString (ref_name (created_branch created))),
            (''context'', JString (context_id_text E (created_context_id created))),
            (''genesis'', JString (event_id_text E (ref_head (created_branch created))))])
         (create_context E idn name (w_entropy w) (w_outcome w 0) d))"

definition cli_context_join ::
  "env \<Rightarrow> world \<Rightarrow> string \<Rightarrow> string \<Rightarrow> string \<Rightarrow> string list \<Rightarrow> db \<Rightarrow> (cli_error + json) \<times> db" where
  "cli_context_join E w dbp context genesis authors =
     prepared (bindR (open_store E w dbp) (\<lambda>_.
         let sorted_authors = sort_dedup (\<lambda>s. s) authors in
         if length sorted_authors \<noteq> length authors
         then Inl (validation_error (invalid_field ''author'' ''duplicate''))
         else bindR (collectR (cli_author E) sorted_authors) (\<lambda>parsed.
           bindR (cli_context E context) (\<lambda>c.
           bindR (cli_event E genesis ''expected-genesis'') (\<lambda>g.
             Inr \<lparr>prov_context = c, prov_genesis = g, prov_authors = parsed\<rparr>)))))
       (\<lambda>p d. replying E (\<lambda>_. obj []) (join_context E p (w_outcome w 0) d))"

definition cli_context_authorize ::
  "env \<Rightarrow> world \<Rightarrow> string \<Rightarrow> string \<Rightarrow> string \<Rightarrow> db \<Rightarrow> (cli_error + json) \<times> db" where
  "cli_context_authorize E w dbp context author =
     prepared (bindR (open_store E w dbp) (\<lambda>_. bindR (cli_context E context) (\<lambda>c.
         bindR (cli_author E author) (\<lambda>a. Inr (c, a)))))
       (\<lambda>(c, a) d. replying E (\<lambda>_. obj []) (authorize_author c a (w_outcome w 0) d))"

definition event_reply :: "env \<Rightarrow> signed_event \<Rightarrow> json" where
  "event_reply E event = obj [(''event'', JString (event_id_text E (ev_id event)))]"

definition cli_append ::
  "env \<Rightarrow> world \<Rightarrow> string \<Rightarrow> string \<Rightarrow> string \<Rightarrow> string \<Rightarrow> string \<Rightarrow> string \<Rightarrow> string option \<Rightarrow> bool \<Rightarrow>
    db \<Rightarrow> (cli_error + json) \<times> db" where
  "cli_append E w dbp key_file context branch expected kind file stdin =
     prepared (bindR (open_store E w dbp) (\<lambda>_. bindR (load_identity w key_file) (\<lambda>idn.
         bindR (read_bounded w ''payload'' file stdin) (\<lambda>b. bindR (cli_payload E b) (\<lambda>payload.
         bindR (cli_context E context) (\<lambda>c. bindR (cli_branch branch) (\<lambda>n.
         bindR (cli_event E expected ''expected-head'') (\<lambda>x. Inr (idn, payload, c, n, x)))))))))
       (\<lambda>(idn, payload, c, n, x) d. replying E (event_reply E)
         (append E idn c n x kind payload (w_outcome w 0) d))"

definition cli_branch_create ::
  "env \<Rightarrow> world \<Rightarrow> string \<Rightarrow> string \<Rightarrow> string \<Rightarrow> string \<Rightarrow> db \<Rightarrow> (cli_error + json) \<times> db" where
  "cli_branch_create E w dbp context name from_head =
     prepared (bindR (open_store E w dbp) (\<lambda>_. bindR (cli_context E context) (\<lambda>c.
         bindR (cli_branch name) (\<lambda>n. bindR (cli_event E from_head ''from-head'') (\<lambda>h. Inr (c, n, h))))))
       (\<lambda>(c, n, h) d. replying E (\<lambda>branch. obj [(''branch'', JString (ref_name branch))])
         (create_branch E c n h (w_outcome w 0) d))"

definition cli_merge ::
  "env \<Rightarrow> world \<Rightarrow> string \<Rightarrow> string \<Rightarrow> string \<Rightarrow> string \<Rightarrow> string \<Rightarrow> string list \<Rightarrow> string option \<Rightarrow> bool \<Rightarrow>
    db \<Rightarrow> (cli_error + json) \<times> db" where
  "cli_merge E w dbp key_file context branch expected parents file stdin =
     prepared (bindR (open_store E w dbp) (\<lambda>_. bindR (load_identity w key_file) (\<lambda>idn.
         bindR (read_bounded w ''payload'' file stdin) (\<lambda>b. bindR (cli_payload E b) (\<lambda>payload.
         bindR (collectR (\<lambda>p. cli_event E p ''parent'') parents) (\<lambda>parsed.
         bindR (cli_context E context) (\<lambda>c. bindR (cli_branch branch) (\<lambda>n.
         bindR (cli_event E expected ''expected-head'') (\<lambda>x. Inr (idn, payload, parsed, c, n, x))))))))))
       (\<lambda>(idn, payload, parsed, c, n, x) d. replying E (event_reply E)
         (merge E idn c n x parsed payload (w_outcome w 0) d))"

definition cli_bundle_import ::
  "env \<Rightarrow> world \<Rightarrow> string \<Rightarrow> string \<Rightarrow> string \<Rightarrow> db \<Rightarrow> (cli_error + json) \<times> db" where
  "cli_bundle_import E w dbp peer file =
     prepared (bindR (open_store E w dbp) (\<lambda>_. bindR (cli_peer peer) (\<lambda>p.
         bindR (ok_or (w_read w file) (usage_error (invalid_field ''file'' ''unreadable''))) (\<lambda>wire. Inr (p, wire)))))
       (\<lambda>(p, wire) d. replying E (\<lambda>report. obj
           [(''already_present'', count_json (import_already_present report)),
            (''inserted'', count_json (import_inserted report))])
         (import_bundle E p wire default_bundle_limits (w_outcome w 0) d))"

definition invocation_reply :: "env \<Rightarrow> invocation_report \<Rightarrow> json" where
  "invocation_reply E report = obj
     [(''invocation_id'', JString (ir_invocation report)),
      (''outcome'', JString (case ir_outcome report of ResponseOutcome \<Rightarrow> ''response'' | ErrorOutcome \<Rightarrow> ''error'')),
      (''request'', JString (event_id_text E (ir_request_event report))),
      (''result'', JString (event_id_text E (ir_result_event report)))]"

definition cli_invoke ::
  "env \<Rightarrow> world \<Rightarrow> string \<Rightarrow> string \<Rightarrow> string \<Rightarrow> string \<Rightarrow> string \<Rightarrow> string option \<Rightarrow> bool \<Rightarrow> string \<Rightarrow>
    string list \<Rightarrow> db \<Rightarrow> (cli_error + json) \<times> db" where
  "cli_invoke E w dbp key_file context branch expected file stdin program args =
     prepared (bindR (open_store E w dbp) (\<lambda>_. bindR (load_identity w key_file) (\<lambda>idn.
         bindR (read_bounded w ''input'' file stdin) (\<lambda>b. bindR (cli_payload E b) (\<lambda>input.
         bindR (cli_context E context) (\<lambda>c. bindR (cli_branch branch) (\<lambda>n.
         bindR (cli_event E expected ''expected-head'') (\<lambda>x.
           Inr (idn, \<lparr>iq_context = c, iq_branch = n, iq_expected_head = x, iq_input = input\<rparr>)))))))))
       (\<lambda>(idn, request) d.
         case record_invocation E idn request (run_command_provider E (w_process w program args))
             (map_option (take 16) (w_entropy w)) (w_others w) (w_outcome w) d of
           (Inl e, d') \<Rightarrow> (Inl (cli_provider_error E e), d')
         | (Inr report, d') \<Rightarrow> (Inr (invocation_reply E report), d'))"

section \<open>Synchronisation\<close>

definition peer_endpoint_new :: "(string \<Rightarrow> socket_addr option) \<Rightarrow> string \<Rightarrow> bool \<Rightarrow> sync_error + peer_endpoint" where
  "peer_endpoint_new address s acknowledged =
     bindR (endpoint_authority s) (\<lambda>authority.
     bindR (ok_or (address authority) SyncInvalidEndpoint) (\<lambda>a.
       if \<not> sa_loopback a \<and> \<not> acknowledged then Inl SyncExposureNotAcknowledged
       else Inr \<lparr>pe_address = a, pe_acknowledged = acknowledged\<rparr>))"

definition cli_sync ::
  "env \<Rightarrow> world \<Rightarrow> string \<Rightarrow> string \<Rightarrow> string \<Rightarrow> string \<Rightarrow> string \<Rightarrow> bool \<Rightarrow> db \<Rightarrow> (cli_error + json) \<times> db" where
  "cli_sync E w dbp peer url token context acknowledged =
     prepared (bindR (open_store E w dbp) (\<lambda>_. bindR (cli_peer peer) (\<lambda>p.
         bindR (map_err cli_sync_error (peer_endpoint_new (w_address w) url acknowledged)) (\<lambda>endpoint.
         bindR (cli_context E context) (\<lambda>c.
         map_err cli_sync_error (pull_client_new
           \<lparr>pc_peer = p, pc_endpoint = endpoint, pc_token = FileToken (w_token w token), pc_context = c,
            pc_limits = default_pull_limits, pc_transport = default_transport_limits\<rparr>))))))
       (\<lambda>cfg d. case pull E (w_environment w) (w_client_built w) cfg (w_send w) (w_outcome w) d of
           (Inl e, d') \<Rightarrow> (Inl (cli_sync_error e), d')
         | (Inr report, d') \<Rightarrow> (Inr (obj
             [(''inserted'', count_json (pr_inserted report)), (''pages'', count_json (pr_pages report)),
              (''remote_refs_updated'', count_json (pr_remote_refs_updated report))]), d'))"

text \<open>A bound server: its address and the state of its handlers.\<close>

record sync_server =
  ss_address :: socket_addr
  ss_state :: app_state

definition sync_server_bind ::
  "env \<Rightarrow> (string \<Rightarrow> bytes option) \<Rightarrow> (socket_addr \<Rightarrow> socket_addr option) \<Rightarrow> bytes option \<Rightarrow> socket_addr \<Rightarrow>
    bool \<Rightarrow> token_source \<Rightarrow> transport_limits \<Rightarrow> sync_error + sync_server" where
  "sync_server_bind E getenv listen entropy bind acknowledged token limits =
     (if \<not> sa_loopback bind \<and> \<not> acknowledged then Inl SyncExposureNotAcknowledged
      else bindR (transport_limits_new (tl_max_request_body_bytes limits) (tl_max_response_body_bytes limits)
             (tl_max_concurrent_requests limits)) (\<lambda>_.
        bindR (token_load E getenv token) (\<lambda>authorization.
        bindR (app_state_new (token_hash E authorization) limits entropy) (\<lambda>state.
        bindR (ok_or (listen bind) SyncTransport) (\<lambda>address.
          Inr \<lparr>ss_address = address, ss_state = state\<rparr>)))))"

definition server_exposure_warning :: "sync_server \<Rightarrow> string option" where
  "server_exposure_warning server =
     (if \<not> sa_loopback (ss_address server) then Some NON_LOOPBACK_PLAINTEXT_WARNING else None)"

text \<open>Files written: the path with the content.\<close>

type_synonym written = "(string \<times> bytes) list"

definition write_file :: "world \<Rightarrow> string \<Rightarrow> string \<Rightarrow> bytes \<Rightarrow> cli_error + written" where
  "write_file w field path b =
     (if path \<in> w_unwritable w then Inl (usage_error (invalid_field field ''unwritable'')) else Inr [(path, b)])"

text \<open>\<open>Path::with_extension("tmp")\<close>, for a path that ends in a file name.\<close>

definition with_extension_tmp :: "string \<Rightarrow> string" where
  "with_extension_tmp path =
     (let reversed = takeWhile (\<lambda>c. c \<noteq> CHR ''/'') (rev path);
          folder = take (length path - length reversed) path;
          above = dropWhile (\<lambda>c. c \<noteq> CHR ''.'') reversed
      in folder @ (if length above \<le> 1 then rev reversed else rev (tl above)) @ ''.tmp'')"

text \<open>
  Serving until the shutdown: the handlers only read the store. The address is written under a
  temporary name, which is renamed; \<open>w_unwritable\<close> has the paths that cannot be written or renamed to.
\<close>

definition cli_serve ::
  "env \<Rightarrow> world \<Rightarrow> string \<Rightarrow> string \<Rightarrow> string \<Rightarrow> string \<Rightarrow> bool \<Rightarrow> (cli_error + json) \<times> written" where
  "cli_serve E w dbp token listen ready acknowledged =
     (case bindR (open_store E w dbp) (\<lambda>_.
           bindR (ok_or (w_address w listen) (validation_error (invalid_field ''listen'' ''invalid address''))) (\<lambda>bind.
           map_err cli_sync_error (sync_server_bind E (w_environment w) (w_listen w) (w_entropy w) bind
             acknowledged (FileToken (w_token w token)) default_transport_limits))) of
        Inl e \<Rightarrow> (Inl e, [])
      | Inr server \<Rightarrow>
          (let text_bytes = string_bytes (sa_text (ss_address server)); temp = with_extension_tmp ready in
           case write_file w ''ready-file'' temp text_bytes of
             Inl e \<Rightarrow> (Inl e, [])
           | Inr kept \<Rightarrow>
               (case write_file w ''ready-file'' ready text_bytes of
                  Inl e \<Rightarrow> (Inl e, kept)
                | Inr out \<Rightarrow>
                    (if w_served w then (Inr (obj [(''address'', JString (sa_text (ss_address server)))]), out)
                     else (Inl (cli_sync_error SyncTransport), out)))))"

section \<open>Commands that read\<close>

definition cli_show_event :: "env \<Rightarrow> world \<Rightarrow> string \<Rightarrow> string \<Rightarrow> db \<Rightarrow> cli_error + json" where
  "cli_show_event E w dbp event d =
     bindR (open_store E w dbp) (\<lambda>_. bindR (cli_event E event ''id'') (\<lambda>i.
     bindR (map_err (cli_store_error E) (store_event E d i)) (\<lambda>found.
     bindR (ok_or found (not_found_error [(''subject'', JString ''event'')])) (\<lambda>ev.
       Inr (obj [(''kind'', JString (body_kind (ev_body ev))), (''payload'', body_payload (ev_body ev))])))))"

definition cli_show_projection :: "env \<Rightarrow> world \<Rightarrow> string \<Rightarrow> string \<Rightarrow> string list \<Rightarrow> db \<Rightarrow> cli_error + json" where
  "cli_show_projection E w dbp context heads d =
     bindR (open_store E w dbp) (\<lambda>_. bindR (collectR (\<lambda>h. cli_event E h ''head'') heads) (\<lambda>parsed.
     bindR (cli_context E context) (\<lambda>c.
     bindR (map_err (cli_store_error E) (project E d c parsed default_projection_limits)) (\<lambda>p.
       Inr (obj [(''events'', count_json (length (proj_events p)))])))))"

definition cli_show_refs :: "env \<Rightarrow> world \<Rightarrow> string \<Rightarrow> string \<Rightarrow> string option \<Rightarrow> db \<Rightarrow> cli_error + json" where
  "cli_show_refs E w dbp context peer d =
     bindR (open_store E w dbp) (\<lambda>_. bindR (cli_context E context) (\<lambda>c.
       case peer of
         Some p \<Rightarrow>
           bindR (cli_peer p) (\<lambda>p. bindR (map_err (cli_store_error E) (list_remote_refs E d (Some p) c)) (\<lambda>refs.
             Inr (obj [(''refs'', count_json (length refs))])))
       | None \<Rightarrow>
           bindR (map_err (cli_store_error E) (list_local_refs E d c)) (\<lambda>refs.
             Inr (obj [(''refs'', count_json (length refs))]))))"

definition cli_bundle_export ::
  "env \<Rightarrow> world \<Rightarrow> string \<Rightarrow> string \<Rightarrow> string list \<Rightarrow> string list \<Rightarrow> string \<Rightarrow> db \<Rightarrow> cli_error + (json \<times> written)" where
  "cli_bundle_export E w dbp context heads known_heads out d =
     bindR (open_store E w dbp) (\<lambda>_. bindR (cli_context E context) (\<lambda>c.
     bindR (collectR (\<lambda>h. cli_event E h ''head'') heads) (\<lambda>requested.
     bindR (collectR (\<lambda>h. cli_event E h ''known-head'') known_heads) (\<lambda>known.
     bindR (map_err (cli_store_error E) (sync_local_ref_snapshot E d c)) (\<lambda>refs.
     bindR (map_err (cli_store_error E) (export_bundle E d c requested known refs default_bundle_limits)) (\<lambda>bundle.
     bindR (map_err (\<lambda>_. internal_error [(''reason'', JString ''render'')]) (bundle_to_wire E bundle)) (\<lambda>wire.
     bindR (write_file w ''out'' out wire) (\<lambda>files. Inr (obj [], files)))))))))"

definition cli_invocation ::
  "env \<Rightarrow> world \<Rightarrow> bool \<Rightarrow> string \<Rightarrow> string \<Rightarrow> string \<Rightarrow> db \<Rightarrow> cli_error + json" where
  "cli_invocation E w pending dbp context branch d =
     bindR (open_store E w dbp) (\<lambda>_. bindR (cli_context E context) (\<lambda>c. bindR (cli_branch branch) (\<lambda>n.
       if pending then
         bindR (map_err (cli_store_error E) (pending_invocations E (w_order w) d c n)) (\<lambda>events.
           Inr (obj [(''pending'', count_json (length events))]))
       else
         bindR (map_err (cli_store_error E) (detached_results E (w_order w) d c n)) (\<lambda>events.
           Inr (obj [(''detached'', count_json (length events))])))))"

definition cli_verify :: "env \<Rightarrow> world \<Rightarrow> string \<Rightarrow> db \<Rightarrow> cli_error + json" where
  "cli_verify E w dbp d =
     bindR (open_store E w dbp) (\<lambda>_.
     bindR (map_err (cli_store_error E) (verify_full E (w_orders w) (w_schema_ok w) d default_verification_limits)) (\<lambda>report.
       if vr_valid report then Inr (obj [(''valid'', JBool True)])
       else Inl (internal_error [(''valid'', JBool False)])))"

section \<open>Receipts\<close>

text \<open>Well-formed UTF-8, as \<open>String::from_utf8\<close> accepts it.\<close>

definition continues :: "byte \<Rightarrow> bool" where
  "continues b \<longleftrightarrow> 0x80 \<le> b \<and> b \<le> 0xbf"

fun utf8_valid :: "bytes \<Rightarrow> bool" where
  "utf8_valid [] \<longleftrightarrow> True"
| "utf8_valid (a # r) \<longleftrightarrow>
     (if a < 0x80 then utf8_valid r
      else if 0xc2 \<le> a \<and> a \<le> 0xdf then
        (case r of b # r' \<Rightarrow> continues b \<and> utf8_valid r' | _ \<Rightarrow> False)
      else if 0xe0 \<le> a \<and> a \<le> 0xef then
        (case r of b # c # r' \<Rightarrow>
            continues b \<and> continues c \<and> (a = 0xe0 \<longrightarrow> 0xa0 \<le> b) \<and> (a = 0xed \<longrightarrow> b \<le> 0x9f) \<and> utf8_valid r'
          | _ \<Rightarrow> False)
      else if 0xf0 \<le> a \<and> a \<le> 0xf4 then
        (case r of b # c # d # r' \<Rightarrow>
            continues b \<and> continues c \<and> continues d \<and> (a = 0xf0 \<longrightarrow> 0x90 \<le> b) \<and> (a = 0xf4 \<longrightarrow> b \<le> 0x8f) \<and>
            utf8_valid r'
          | _ \<Rightarrow> False)
      else False)"

definition receipt_json :: "env \<Rightarrow> signed_receipt \<Rightarrow> json" where
  "receipt_json E r = obj
     [(''receipt_id'', JString (receipt_id_text E (rc_id r))),
      (''context'', JString (context_id_text E (rb_context (rc_body r)))),
      (''author'', JString (author_id_text E (rb_author (rc_body r)))),
      (''events'', count_json (length (rb_events (rc_body r)))),
      (''task_hash'', JString (task_hash (rb_task (rc_body r)))),
      (''recipient_head'', JString (event_id_text E (rb_recipient (rc_body r)))),
      (''selector'', JString (sel_identity (rb_selector (rc_body r)))),
      (''selector_version'', JString (sel_version (rb_selector (rc_body r)))),
      (''created_at'', JString (rb_created_at (rc_body r)))]"

definition finding_json :: "env \<Rightarrow> string \<times> event_id \<Rightarrow> json" where
  "finding_json E f = obj [(''reason'', JString (fst f)), (''event'', JString (event_id_text E (snd f)))]"

text \<open>A task given verbatim, by the name of a file after \<open>@\<close>, or as \<open>-\<close> on standard input.\<close>

definition cli_task :: "world \<Rightarrow> string \<Rightarrow> cli_error + bytes" where
  "cli_task w task =
     (if take 1 task = ''@'' then
        bindR (ok_or (w_read w (drop 1 task)) (usage_error (invalid_field ''task'' ''file unreadable'')))
          (within_limit ''task'')
      else if task = ''-'' then
        bindR (ok_or (w_stdin w) (usage_error (invalid_field ''task'' ''stdin unreadable''))) (within_limit ''task'')
      else Inr (string_bytes task))"

definition refuse :: "string \<Rightarrow> string \<Rightarrow> contract_error \<Rightarrow> cli_error" where
  "refuse field reason = (\<lambda>_. validation_error (invalid_field field reason))"

definition cli_receipt_body ::
  "env \<Rightarrow> world \<Rightarrow> signing_identity \<Rightarrow> context_id \<Rightarrow> event_id list \<Rightarrow> string \<Rightarrow> string \<Rightarrow> string \<Rightarrow> string \<Rightarrow>
    string \<Rightarrow> cli_error + receipt_body" where
  "cli_receipt_body E w idn c events task recipient selector version config_hash =
     bindR (cli_task w task) (\<lambda>b.
       if \<not> utf8_valid b then Inl (validation_error (invalid_field ''task'' ''invalid UTF-8''))
       else bindR (map_err (refuse ''task'' ''invalid'') (task_from_verbatim E (bytes_string b) None)) (\<lambda>t.
         bindR (map_err (refuse ''selector'' ''invalid'') (selector_new selector version config_hash)) (\<lambda>s.
         bindR (cli_event E recipient ''recipient-head'') (\<lambda>head.
           map_err (refuse ''receipt'' ''invalid'')
             (receipt_body_new E c events t head s [] [] (utc_timestamp (w_now w)) (identity_author E idn))))))"

definition cli_receipt_issue ::
  "env \<Rightarrow> world \<Rightarrow> string \<Rightarrow> string \<Rightarrow> string \<Rightarrow> string list \<Rightarrow> string \<Rightarrow> string \<Rightarrow> string \<Rightarrow> string \<Rightarrow> string \<Rightarrow>
    string \<Rightarrow> db \<Rightarrow> cli_error + (json \<times> written)" where
  "cli_receipt_issue E w dbp key_file context events task recipient selector version config_hash out d =
     bindR (open_store E w dbp) (\<lambda>_. bindR (load_identity w key_file) (\<lambda>idn.
     bindR (cli_context E context) (\<lambda>c.
     bindR (collectR (\<lambda>i. cli_event E i ''event'') events) (\<lambda>parsed.
       let sorted_events = sort_dedup (event_id_text E) parsed in
       if length sorted_events \<noteq> length events
       then Inl (validation_error (invalid_field ''event'' ''duplicate''))
       else bindR (cli_receipt_body E w idn c sorted_events task recipient selector version config_hash) (\<lambda>body.
         bindR (map_err (refuse ''receipt'' ''cannot sign'') (issue_receipt E idn body)) (\<lambda>receipt.
         bindR (map_err (cli_store_error E) (verify_against_dag E d receipt)) (\<lambda>report.
           if \<not> rd_valid report
           then Inl (conflict_error [(''subject'', JString ''receipt''),
             (''findings'', JArray (map (finding_json E) (rd_findings report)))])
           else bindR (map_err (\<lambda>_. internal_error [(''reason'', JString ''render'')]) (receipt_to_wire E receipt)) (\<lambda>wire.
             bindR (write_file w ''out'' out wire) (\<lambda>files. Inr (receipt_json E receipt, files))))))))))"

definition cli_receipt_verify :: "env \<Rightarrow> world \<Rightarrow> string \<Rightarrow> string \<Rightarrow> db \<Rightarrow> cli_error + json" where
  "cli_receipt_verify E w dbp file d =
     bindR (open_store E w dbp) (\<lambda>_.
     bindR (ok_or (w_read w file) (usage_error (invalid_field ''file'' ''unreadable''))) (\<lambda>wire.
     bindR (map_err (refuse ''receipt'' ''invalid or tampered'') (receipt_from_wire E wire)) (\<lambda>receipt.
     bindR (map_err (cli_store_error E) (verify_against_dag E d receipt)) (\<lambda>report.
       if rd_valid report
       then Inr (obj [(''receipt_id'', JString (receipt_id_text E (rc_id receipt))), (''valid'', JBool True),
         (''checked_events'', count_json (rd_checked report))])
       else Inl (internal_error [(''valid'', JBool False),
         (''findings'', JArray (map (finding_json E) (rd_findings report)))])))))"

section \<open>Dispatch\<close>

datatype cli_command =
    KeyGenerate string
  | KeyRepairPermissions string
  | TokenGenerate string
  | ContextCreate string string string
  | ContextJoin string string string "string list"
  | ContextAuthorize string string string
  | AppendEvent string string string string string string "string option" bool
  | BranchCreate string string string string
  | MergeEvents string string string string string "string list" "string option" bool
  | ShowEvent string string
  | ShowProjection string string "string list"
  | ShowRefs string string "string option"
  | BundleExport string string "string list" "string list" string
  | BundleImport string string string
  | InvocationPending string string string
  | InvocationDetached string string string
  | VerifyStore string
  | Invoke string string string string string "string option" bool string "string list"
  | Serve string string string string bool
  | Sync string string string string string bool
  | ReceiptIssue string string string "string list" string string string string string string
  | ReceiptVerify string string

fun command_name :: "cli_command \<Rightarrow> string" where
  "command_name (KeyGenerate _) = ''key generate''"
| "command_name (KeyRepairPermissions _) = ''key repair-permissions''"
| "command_name (TokenGenerate _) = ''token generate''"
| "command_name (ContextCreate _ _ _) = ''context create''"
| "command_name (ContextJoin _ _ _ _) = ''context join''"
| "command_name (ContextAuthorize _ _ _) = ''context authorize''"
| "command_name (AppendEvent _ _ _ _ _ _ _ _) = ''append''"
| "command_name (BranchCreate _ _ _ _) = ''branch create''"
| "command_name (MergeEvents _ _ _ _ _ _ _ _) = ''merge''"
| "command_name (ShowEvent _ _) = ''show event''"
| "command_name (ShowProjection _ _ _) = ''show projection''"
| "command_name (ShowRefs _ _ _) = ''show refs''"
| "command_name (BundleExport _ _ _ _ _) = ''bundle export''"
| "command_name (BundleImport _ _ _) = ''bundle import''"
| "command_name (InvocationPending _ _ _) = ''invocation pending''"
| "command_name (InvocationDetached _ _ _) = ''invocation detached''"
| "command_name (VerifyStore _) = ''verify''"
| "command_name (Invoke _ _ _ _ _ _ _ _ _) = ''invoke''"
| "command_name (Serve _ _ _ _ _) = ''serve''"
| "command_name (Sync _ _ _ _ _ _) = ''sync''"
| "command_name (ReceiptIssue _ _ _ _ _ _ _ _ _ _) = ''ob-receipt issue''"
| "command_name (ReceiptVerify _ _) = ''ob-receipt verify''"

text \<open>The database a run works on, the secrets of the file system, and the other files it wrote.\<close>

record cli_state =
  cl_db :: db
  cl_secrets :: file_system
  cl_written :: written

definition on_db :: "(db \<Rightarrow> (cli_error + json) \<times> db) \<Rightarrow> cli_state \<Rightarrow> (cli_error + json) \<times> cli_state" where
  "on_db f s = (case f (cl_db s) of (r, d) \<Rightarrow> (r, s\<lparr>cl_db := d\<rparr>))"

definition on_secrets ::
  "('a \<Rightarrow> json) \<Rightarrow> (file_system \<Rightarrow> (key_file_error + 'a) \<times> file_system) \<Rightarrow> cli_state \<Rightarrow>
    (cli_error + json) \<times> cli_state" where
  "on_secrets render f s =
     (case f (cl_secrets s) of
        (Inl e, fs) \<Rightarrow> (Inl (key_error e), s\<lparr>cl_secrets := fs\<rparr>)
      | (Inr v, fs) \<Rightarrow> (Inr (render v), s\<lparr>cl_secrets := fs\<rparr>))"

definition querying :: "(db \<Rightarrow> cli_error + json) \<Rightarrow> cli_state \<Rightarrow> (cli_error + json) \<times> cli_state" where
  "querying f s = (f (cl_db s), s)"

definition exporting :: "(db \<Rightarrow> cli_error + (json \<times> written)) \<Rightarrow> cli_state \<Rightarrow> (cli_error + json) \<times> cli_state" where
  "exporting f s =
     (case f (cl_db s) of
        Inl e \<Rightarrow> (Inl e, s)
      | Inr (v, files) \<Rightarrow> (Inr v, s\<lparr>cl_written := cl_written s @ files\<rparr>))"

fun dispatch :: "env \<Rightarrow> world \<Rightarrow> cli_command \<Rightarrow> cli_state \<Rightarrow> (cli_error + json) \<times> cli_state" where
  "dispatch E w (KeyGenerate file) =
     on_secrets (\<lambda>author. obj [(''author'', JString (author_id_text E author))])
       (generate_key_file E (w_entropy w) (w_writer w) file)"
| "dispatch E w (TokenGenerate file) =
     on_secrets (\<lambda>_. obj []) (generate_token_file E (w_entropy w) (w_writer w) file)"
| "dispatch E w (KeyRepairPermissions file) =
     on_secrets (\<lambda>_. obj []) (repair_key_file_permissions (w_chmod_fails w) (w_race w) file)"
| "dispatch E w (ContextCreate dbp key branch) = on_db (cli_context_create E w dbp key branch)"
| "dispatch E w (ContextJoin dbp context genesis authors) =
     on_db (cli_context_join E w dbp context genesis authors)"
| "dispatch E w (ContextAuthorize dbp context author) = on_db (cli_context_authorize E w dbp context author)"
| "dispatch E w (AppendEvent dbp key context branch expected kind file stdin) =
     on_db (cli_append E w dbp key context branch expected kind file stdin)"
| "dispatch E w (BranchCreate dbp context name from_head) =
     on_db (cli_branch_create E w dbp context name from_head)"
| "dispatch E w (MergeEvents dbp key context branch expected parents file stdin) =
     on_db (cli_merge E w dbp key context branch expected parents file stdin)"
| "dispatch E w (ShowEvent dbp event) = querying (cli_show_event E w dbp event)"
| "dispatch E w (ShowProjection dbp context heads) = querying (cli_show_projection E w dbp context heads)"
| "dispatch E w (ShowRefs dbp context peer) = querying (cli_show_refs E w dbp context peer)"
| "dispatch E w (BundleExport dbp context heads known out) =
     exporting (cli_bundle_export E w dbp context heads known out)"
| "dispatch E w (BundleImport dbp peer file) = on_db (cli_bundle_import E w dbp peer file)"
| "dispatch E w (InvocationPending dbp context branch) = querying (cli_invocation E w True dbp context branch)"
| "dispatch E w (InvocationDetached dbp context branch) = querying (cli_invocation E w False dbp context branch)"
| "dispatch E w (VerifyStore dbp) = querying (cli_verify E w dbp)"
| "dispatch E w (Invoke dbp key context branch expected file stdin program args) =
     on_db (cli_invoke E w dbp key context branch expected file stdin program args)"
| "dispatch E w (Serve dbp token listen ready acknowledged) =
     (\<lambda>s. case cli_serve E w dbp token listen ready acknowledged of
        (r, files) \<Rightarrow> (r, s\<lparr>cl_written := cl_written s @ files\<rparr>))"
| "dispatch E w (Sync dbp peer url token context acknowledged) =
     on_db (cli_sync E w dbp peer url token context acknowledged)"
| "dispatch E w (ReceiptIssue dbp key context events task recipient selector version config_hash out) =
     exporting (cli_receipt_issue E w dbp key context events task recipient selector version config_hash out)"
| "dispatch E w (ReceiptVerify dbp file) = querying (cli_receipt_verify E w dbp file)"

section \<open>Running\<close>

definition render :: "env \<Rightarrow> json \<Rightarrow> bytes" where
  "render E v = (case canonicalize E v of Inr b \<Rightarrow> b | Inl _ \<Rightarrow> string_bytes ''{}'')"

definition success_document :: "string \<Rightarrow> json \<Rightarrow> json" where
  "success_document command reply = obj
     [(''command'', JString command), (''ok'', JBool True), (''result'', reply),
      (''schema_version'', count_json CLI_SCHEMA_VERSION)]"

definition failure_document :: "string \<Rightarrow> json \<Rightarrow> json" where
  "failure_document code details = obj
     [(''command'', JString ''?''), (''error'', obj [(''code'', JString code), (''details'', details)]),
      (''ok'', JBool False), (''schema_version'', count_json CLI_SCHEMA_VERSION)]"

text \<open>
  A run on parsed arguments, \<open>None\<close> when the argument library refuses them: the line on standard
  output, the exit code, and the state afterwards.
\<close>

definition run_cli :: "env \<Rightarrow> world \<Rightarrow> cli_command option \<Rightarrow> cli_state \<Rightarrow> bytes \<times> nat \<times> cli_state" where
  "run_cli E w parsed s =
     (case parsed of
        None \<Rightarrow> (render E (failure_document ''usage'' (obj [(''reason'', JString ''clap'')])) @ [10], 2, s)
      | Some command \<Rightarrow>
          (case dispatch E w command s of
             (Inr reply, s') \<Rightarrow> (render E (success_document (command_name command) reply) @ [10], 0, s')
           | (Inl e, s') \<Rightarrow> (render E (failure_document (ce_code e) (ce_details e)) @ [10], ce_exit e, s')))"

end
