(* ===== verification/Cli_Facts.thy ===== *)
theory Cli_Facts
  imports Cli Provider_Facts Pull_Facts Store_System
begin

text \<open>
  What a run of the command line guarantees: its exit code is one of the documented classes, its
  commands are single commands of the store or keep the store, and queries change nothing.
\<close>

section \<open>Error classes\<close>

definition exit_classes :: "(string \<times> nat) set" where
  "exit_classes = {(''usage'', 2), (''validation'', 3), (''conflict'', 4), (''authentication'', 5),
     (''not_found'', 6), (''provider'', 7), (''transport'', 8), (''internal'', 9)}"

definition error_ok :: "cli_error \<Rightarrow> bool" where
  "error_ok e \<longleftrightarrow> (ce_code e, ce_exit e) \<in> exit_classes"

lemma error_ok_classes [simp]:
  "error_ok (usage_error ds)" "error_ok (validation_error ds)" "error_ok (conflict_error ds)"
  "error_ok (auth_error ds)" "error_ok (not_found_error ds)" "error_ok (provider_failure ds)"
  "error_ok (transport_error ds)" "error_ok (internal_error ds)"
  by (simp_all add: error_ok_def exit_classes_def cli_error_def usage_error_def validation_error_def
      conflict_error_def auth_error_def not_found_error_def provider_failure_def transport_error_def
      internal_error_def)

lemma error_ok_mapped [simp]:
  "error_ok (cli_store_error E e)" "error_ok (key_error k)" "error_ok (cli_sync_error x)" "error_ok (refuse a b c)"
  by (cases e; simp) (simp_all add: key_error_def cli_sync_error_def refuse_def)

lemma error_ok_provider [simp]: "error_ok (cli_provider_error E e)"
proof (cases e)
  case (ProviderStore x)
  then show ?thesis by (cases x) simp_all
qed simp_all

definition errors_ok :: "cli_error + 'a \<Rightarrow> bool" where
  "errors_ok m \<longleftrightarrow> (\<forall>e. m = Inl e \<longrightarrow> error_ok e)"

named_theorems errors_intro "fallible steps whose errors are all of a documented class"

lemma errors_ok_basic [errors_intro]:
  "errors_ok (Inr x)" "error_ok e \<Longrightarrow> errors_ok (Inl e)" "error_ok e \<Longrightarrow> errors_ok (ok_or q e)"
  "errors_ok m \<Longrightarrow> (\<And>x. errors_ok (f x)) \<Longrightarrow> errors_ok (bindR m f)"
  "(\<And>e. error_ok (g e)) \<Longrightarrow> errors_ok (map_err g n)"
  "(c \<Longrightarrow> errors_ok m) \<Longrightarrow> (\<not> c \<Longrightarrow> errors_ok k) \<Longrightarrow> errors_ok (if c then m else k)"
  by (auto simp: errors_ok_def bindR_Inl_iff map_err_Inl_iff)

lemma errors_ok_collectR [errors_intro]: "(\<And>x. errors_ok (h x)) \<Longrightarrow> errors_ok (collectR h xs)"
  by (induction xs) (auto intro!: errors_intro)

lemma errors_ok_pair [errors_intro]: "(\<And>a b. errors_ok (f a b)) \<Longrightarrow> errors_ok (case p of (a, b) \<Rightarrow> f a b)"
  by (cases p) simp

lemma errors_ok_option [errors_intro]:
  "errors_ok m \<Longrightarrow> (\<And>x. errors_ok (f x)) \<Longrightarrow> errors_ok (case q of None \<Rightarrow> m | Some x \<Rightarrow> f x)"
  by (cases q) simp_all

lemma errors_ok_let [errors_intro]: "errors_ok (f x) \<Longrightarrow> errors_ok (let y = x in f y)"
  by simp

lemma errors_ok_inputs [errors_intro]:
  "errors_ok (cli_context E s)" "errors_ok (cli_event E s a)" "errors_ok (cli_author E s)" "errors_ok (cli_branch s)"
  "errors_ok (cli_peer s)" "errors_ok (within_limit a b)" "errors_ok (read_bounded w a file stdin)"
  "errors_ok (cli_payload E b)" "errors_ok (open_store E w path)" "errors_ok (load_identity w path)"
  "errors_ok (write_file w a path b)"
  by (auto simp: cli_context_def cli_event_def cli_author_def cli_branch_def cli_peer_def within_limit_def
      read_bounded_def cli_payload_def open_store_def load_identity_def write_file_def
      intro!: errors_intro)

lemma errors_ok_queries:
  "errors_ok (cli_show_event E w dbp i d)" "errors_ok (cli_show_projection E w dbp c heads d)"
  "errors_ok (cli_show_refs E w dbp c peer d)" "errors_ok (cli_bundle_export E w dbp c heads known out d)"
  "errors_ok (cli_invocation E w pending dbp c b d)" "errors_ok (cli_verify E w dbp d)"
  "errors_ok (cli_receipt_verify E w dbp file d)"
  unfolding cli_show_event_def cli_show_projection_def cli_show_refs_def cli_bundle_export_def cli_invocation_def
    cli_verify_def cli_receipt_verify_def
  by (intro errors_intro error_ok_classes error_ok_mapped)+

lemma errors_ok_receipt:
  "errors_ok (cli_receipt_issue E w dbp key c events task recipient selector version hash out d)"
  unfolding cli_receipt_issue_def cli_receipt_body_def cli_task_def
  by (intro errors_intro error_ok_classes error_ok_mapped)

lemma errors_ok_serve: "errors_ok (fst (cli_serve E w dbp token listen ready ack))"
proof -
  have written: "errors_ok (write_file w field path b)" for field path b by (rule errors_ok_inputs)
  have "errors_ok (bindR (open_store E w dbp) (\<lambda>_.
      bindR (ok_or (w_address w listen) (validation_error (invalid_field ''listen'' ''invalid address''))) (\<lambda>bind.
      map_err cli_sync_error (sync_server_bind E (w_environment w) (w_listen w) (w_entropy w) bind
        ack (FileToken (w_token w token)) default_transport_limits))))" (is "errors_ok ?pre")
    by (intro errors_intro error_ok_classes error_ok_mapped)
  then show ?thesis
    using written
    by (cases ?pre) (auto simp: cli_serve_def errors_ok_def Let_def split: sum.splits)
qed

section \<open>What the arguments ask for\<close>

definition input_bytes :: "world \<Rightarrow> string option \<Rightarrow> bool \<Rightarrow> bytes option" where
  "input_bytes w file stdin = (if stdin then w_stdin w else Option.bind file (w_read w))"

definition reads_value :: "env \<Rightarrow> world \<Rightarrow> string option \<Rightarrow> bool \<Rightarrow> json \<Rightarrow> bool" where
  "reads_value E w file stdin v \<longleftrightarrow> (\<exists>b. input_bytes w file stdin = Some b \<and> length b \<le> CLI_PAYLOAD_LIMIT \<and>
     from_slice_value (json_reader E) b = Inr v)"

text \<open>
  The store command that the arguments of a writing command stand for: identifiers are given by
  their canonical text, the key and the payload by files. There is none when the database does not
  open, the key does not load, or an argument does not stand for anything.
\<close>

inductive asks_for :: "env \<Rightarrow> world \<Rightarrow> cli_command \<Rightarrow> store_command \<Rightarrow> bool" for E w where
  create: "w_open w dbp = None \<Longrightarrow> load_key_file (w_secret w key) = Inr idn \<Longrightarrow> ref_name_wf n \<Longrightarrow>
    asks_for E w (ContextCreate dbp key n) (CreateContext idn n (w_entropy w))"
| join: "w_open w dbp = None \<Longrightarrow> context_id_wf c \<Longrightarrow> event_id_wf g \<Longrightarrow> \<forall>a \<in> set as. author_id_wf a \<Longrightarrow>
    distinct authors \<Longrightarrow> map (author_id_text E) as = sort_dedup (\<lambda>a. a) authors \<Longrightarrow>
    asks_for E w (ContextJoin dbp (context_id_text E c) (event_id_text E g) authors)
      (JoinContext \<lparr>prov_context = c, prov_genesis = g, prov_authors = as\<rparr>)"
| authorize: "w_open w dbp = None \<Longrightarrow> context_id_wf c \<Longrightarrow> author_id_wf a \<Longrightarrow>
    asks_for E w (ContextAuthorize dbp (context_id_text E c) (author_id_text E a)) (AuthorizeAuthor c a)"
| append: "w_open w dbp = None \<Longrightarrow> load_key_file (w_secret w key) = Inr idn \<Longrightarrow> reads_value E w file stdin v \<Longrightarrow>
    context_id_wf c \<Longrightarrow> ref_name_wf n \<Longrightarrow> event_id_wf x \<Longrightarrow>
    asks_for E w (AppendEvent dbp key (context_id_text E c) n (event_id_text E x) kind file stdin)
      (Append idn c n x kind v)"
| branch: "w_open w dbp = None \<Longrightarrow> context_id_wf c \<Longrightarrow> ref_name_wf n \<Longrightarrow> event_id_wf i \<Longrightarrow>
    asks_for E w (BranchCreate dbp (context_id_text E c) n (event_id_text E i)) (CreateBranch c n i)"
| merge: "w_open w dbp = None \<Longrightarrow> load_key_file (w_secret w key) = Inr idn \<Longrightarrow> reads_value E w file stdin v \<Longrightarrow>
    context_id_wf c \<Longrightarrow> ref_name_wf n \<Longrightarrow> event_id_wf x \<Longrightarrow> \<forall>p \<in> set ps. event_id_wf p \<Longrightarrow>
    asks_for E w (MergeEvents dbp key (context_id_text E c) n (event_id_text E x) (map (event_id_text E) ps) file stdin)
      (Merge idn c n x ps v)"
| import_file: "w_open w dbp = None \<Longrightarrow> ref_name_wf p \<Longrightarrow> w_read w file = Some b \<Longrightarrow>
    asks_for E w (BundleImport dbp p file) (ImportBundle p b default_bundle_limits)"

inductive_simps asks_for_iff:
  "asks_for E w (ContextCreate dbp key branch) cmd"
  "asks_for E w (ContextJoin dbp context genesis authors) cmd"
  "asks_for E w (ContextAuthorize dbp context author) cmd"
  "asks_for E w (AppendEvent dbp key context branch expected kind file stdin) cmd"
  "asks_for E w (BranchCreate dbp context name from_head) cmd"
  "asks_for E w (MergeEvents dbp key context branch expected parents file stdin) cmd"
  "asks_for E w (BundleImport dbp peer file) cmd"

text \<open>The provider call an \<open>invoke\<close> asks for.\<close>

inductive asks_provider ::
  "env \<Rightarrow> world \<Rightarrow> cli_command \<Rightarrow> signing_identity \<Rightarrow> invocation_request \<Rightarrow> (bytes \<Rightarrow> process_run) \<Rightarrow> bool"
  for E w where
  invoke: "w_open w dbp = None \<Longrightarrow> load_key_file (w_secret w key) = Inr idn \<Longrightarrow> reads_value E w file stdin v \<Longrightarrow>
    context_id_wf c \<Longrightarrow> ref_name_wf n \<Longrightarrow> event_id_wf x \<Longrightarrow>
    asks_provider E w (Invoke dbp key (context_id_text E c) n (event_id_text E x) file stdin program args) idn
      \<lparr>iq_context = c, iq_branch = n, iq_expected_head = x, iq_input = v\<rparr> (w_process w program args)"

inductive_simps asks_provider_iff:
  "asks_provider E w (Invoke dbp key context branch expected file stdin program args) idn request process"

lemma list_all2_image: "list_all2 (\<lambda>s y. P y \<and> s = f y) xs ys \<longleftrightarrow> xs = map f ys \<and> (\<forall>y \<in> set ys. P y)"
  by (induction ys arbitrary: xs) (auto simp: list_all2_Cons2)

lemma read_inputs:
  "open_store E w dbp = Inr u \<longleftrightarrow> w_open w dbp = None"
  "load_identity w key = Inr idn \<longleftrightarrow> load_key_file (w_secret w key) = Inr idn"
  "read_bounded w field file stdin = Inr b \<longleftrightarrow> input_bytes w file stdin = Some b \<and> length b \<le> CLI_PAYLOAD_LIMIT"
  "cli_payload E b = Inr v \<longleftrightarrow> from_slice_value (json_reader E) b = Inr v"
  "cli_branch s = Inr n \<longleftrightarrow> n = s \<and> ref_name_wf s" "cli_peer s = Inr n \<longleftrightarrow> n = s \<and> ref_name_wf s"
  by (auto simp: open_store_def load_identity_def read_bounded_def cli_payload_def cli_branch_def cli_peer_def
      within_limit_def input_bytes_def bindR_Inr_iff map_err_Inr_iff ok_or_def split: option.splits if_splits)

lemma read_ids:
  assumes "base64_lawful E"
  shows "cli_context E s = Inr c \<longleftrightarrow> context_id_wf c \<and> s = context_id_text E c"
    "cli_event E s field = Inr i \<longleftrightarrow> event_id_wf i \<and> s = event_id_text E i"
    "cli_author E s = Inr a \<longleftrightarrow> author_id_wf a \<and> s = author_id_text E a"
    "collectR (\<lambda>s. cli_event E s field) ss = Inr is \<longleftrightarrow> ss = map (event_id_text E) is \<and> (\<forall>i \<in> set is. event_id_wf i)"
    "collectR (cli_author E) ss = Inr as \<longleftrightarrow> ss = map (author_id_text E) as \<and> (\<forall>a \<in> set as. author_id_wf a)"
proof -
  show ids: "cli_context E s = Inr c \<longleftrightarrow> context_id_wf c \<and> s = context_id_text E c"
    "cli_event E s field = Inr i \<longleftrightarrow> event_id_wf i \<and> s = event_id_text E i"
    "cli_author E s = Inr a \<longleftrightarrow> author_id_wf a \<and> s = author_id_text E a" for s c i a
    using context_id.of_text_iff [OF assms] event_id.of_text_iff [OF assms] author_id.of_text_iff [OF assms]
    by (simp_all add: cli_context_def cli_event_def cli_author_def map_err_Inr_iff)
  show "collectR (\<lambda>s. cli_event E s field) ss = Inr is \<longleftrightarrow> ss = map (event_id_text E) is \<and> (\<forall>i \<in> set is. event_id_wf i)"
    "collectR (cli_author E) ss = Inr as \<longleftrightarrow> ss = map (author_id_text E) as \<and> (\<forall>a \<in> set as. author_id_wf a)"
    by (simp_all add: collectR_Inr_iff ids list_all2_image)
qed

section \<open>Commands of the store\<close>

text \<open>Refused before the store is used, or the command asked for with its reply.\<close>

definition runs_one ::
  "env \<Rightarrow> world \<Rightarrow> (store_command \<Rightarrow> bool) \<Rightarrow> db \<Rightarrow> (cli_error + json) \<times> db \<Rightarrow> bool" where
  "runs_one E w asked d r \<longleftrightarrow>
     ((\<nexists>cmd. asked cmd) \<and> (\<exists>e. error_ok e \<and> r = (Inl e, d))) \<or>
     (\<exists>cmd. asked cmd \<and> command_ok cmd \<and>
       (case run_command E cmd (w_outcome w 0) d of (reply, d') \<Rightarrow> snd r = d' \<and>
         (case reply of None \<Rightarrow> \<exists>v. fst r = Inr v | Some e \<Rightarrow> fst r = Inl (cli_store_error E e))))"

lemma runs_one_prepared:
  assumes "errors_ok pre" "\<And>cmd. asked cmd \<longleftrightarrow> (\<exists>x. pre = Inr x \<and> cmd = cmd_of x)"
    and "\<And>x. pre = Inr x \<Longrightarrow> command_ok (cmd_of x)"
    and "\<And>x. run_command E (cmd_of x) (w_outcome w 0) d = reply_of (action x)"
    and "\<And>x. op x d = replying E rend (action x)"
  shows "runs_one E w asked d (prepared pre op d)"
proof (cases pre)
  case (Inl e)
  then show ?thesis using assms(1) by (auto simp: prepared_def errors_ok_def runs_one_def assms(2))
next
  case (Inr x)
  have "case run_command E (cmd_of x) (w_outcome w 0) d of (reply, d') \<Rightarrow> snd (op x d) = d' \<and>
      (case reply of None \<Rightarrow> \<exists>v. fst (op x d) = Inr v | Some e \<Rightarrow> fst (op x d) = Inl (cli_store_error E e))"
    by (cases "action x"; cases "fst (action x)") (simp_all add: assms(4,5) replying_def)
  moreover have "asked (cmd_of x)" unfolding assms(2) using Inr by blast
  ultimately show ?thesis
    using assms(3) [OF Inr] unfolding runs_one_def prepared_def Inr sum.case by (intro disjI2 exI [of _ "cmd_of x"]) simp
qed

definition entropy_ok :: "world \<Rightarrow> bool" where
  "entropy_ok w \<longleftrightarrow> (\<forall>b. w_entropy w = Some b \<longrightarrow> length b = 32)"

lemma input_wf:
  "cli_context E s = Inr c \<Longrightarrow> context_id_wf c" "cli_event E s a = Inr i \<Longrightarrow> event_id_wf i"
  "cli_author E s = Inr x \<Longrightarrow> author_id_wf x" "cli_branch s = Inr n \<Longrightarrow> ref_name_wf n"
  "cli_peer s = Inr n \<Longrightarrow> ref_name_wf n" "cli_payload E b = Inr v \<Longrightarrow> json_wf v"
  using context_id.to_of_text event_id.to_of_text author_id.to_of_text from_slice_value_wf
  by (fastforce simp: cli_context_def cli_event_def cli_author_def cli_branch_def cli_peer_def cli_payload_def)+

text \<open>The preparations of the single-step commands and what they ask for.\<close>

lemma distinct_sorted_authors: "length (sort_dedup (\<lambda>s. s) authors) = length authors \<longleftrightarrow> distinct (authors :: string list)"
proof -
  have "length (sort_dedup (\<lambda>s. s) authors) = card (set authors)"
    using strictly_sorted_sort_dedup [of "\<lambda>s. s" authors]
    by (simp add: strictly_sorted_distinct distinct_card [symmetric])
  then show ?thesis by (metis card_distinct distinct_card)
qed

lemma runs_context_create:
  "base64_lawful E \<Longrightarrow> entropy_ok w \<Longrightarrow>
    runs_one E w (asks_for E w (ContextCreate dbp key branch)) d (cli_context_create E w dbp key branch d)"
  unfolding cli_context_create_def
  by (rule runs_one_prepared [where cmd_of = "\<lambda>(idn, n). CreateContext idn n (w_entropy w)"
      and action = "\<lambda>(idn, n). create_context E idn n (w_entropy w) (w_outcome w 0) d"])
    (auto intro!: errors_intro simp: asks_for_iff bindR_Inr_iff read_inputs entropy_ok_def split: option.splits)

lemma runs_context_join:
  "base64_lawful E \<Longrightarrow>
    runs_one E w (asks_for E w (ContextJoin dbp context genesis authors)) d
      (cli_context_join E w dbp context genesis authors d)"
  unfolding cli_context_join_def
  by (rule runs_one_prepared [where cmd_of = JoinContext and action = "\<lambda>p. join_context E p (w_outcome w 0) d"])
    (auto intro!: errors_intro simp: asks_for_iff bindR_Inr_iff read_inputs read_ids Let_def provision_wf_def
      distinct_sorted_authors split: if_splits)

lemma runs_context_authorize:
  "base64_lawful E \<Longrightarrow>
    runs_one E w (asks_for E w (ContextAuthorize dbp context author)) d (cli_context_authorize E w dbp context author d)"
  unfolding cli_context_authorize_def
  by (rule runs_one_prepared [where cmd_of = "\<lambda>(c, a). AuthorizeAuthor c a"
      and action = "\<lambda>(c, a). authorize_author c a (w_outcome w 0) d"])
    (auto intro!: errors_intro simp: asks_for_iff bindR_Inr_iff read_inputs read_ids)

lemma runs_append:
  "base64_lawful E \<Longrightarrow>
    runs_one E w (asks_for E w (AppendEvent dbp key context branch expected kind file stdin)) d
      (cli_append E w dbp key context branch expected kind file stdin d)"
  unfolding cli_append_def
  by (rule runs_one_prepared [where cmd_of = "\<lambda>(idn, v, c, n, x). Append idn c n x kind v"
      and action = "\<lambda>(idn, v, c, n, x). append E idn c n x kind v (w_outcome w 0) d"])
    (auto intro!: errors_intro simp: asks_for_iff bindR_Inr_iff read_inputs read_ids reads_value_def
      dest: from_slice_value_wf)

lemma runs_branch_create:
  "base64_lawful E \<Longrightarrow>
    runs_one E w (asks_for E w (BranchCreate dbp context name head)) d (cli_branch_create E w dbp context name head d)"
  unfolding cli_branch_create_def
  by (rule runs_one_prepared [where cmd_of = "\<lambda>(c, n, h). CreateBranch c n h"
      and action = "\<lambda>(c, n, h). create_branch E c n h (w_outcome w 0) d"])
    (auto intro!: errors_intro simp: asks_for_iff bindR_Inr_iff read_inputs read_ids)

lemma runs_merge:
  "base64_lawful E \<Longrightarrow>
    runs_one E w (asks_for E w (MergeEvents dbp key context branch expected parents file stdin)) d
      (cli_merge E w dbp key context branch expected parents file stdin d)"
  unfolding cli_merge_def
  by (rule runs_one_prepared [where cmd_of = "\<lambda>(idn, v, ps, c, n, x). Merge idn c n x ps v"
      and action = "\<lambda>(idn, v, ps, c, n, x). merge E idn c n x ps v (w_outcome w 0) d"])
    (auto intro!: errors_intro simp: asks_for_iff bindR_Inr_iff read_inputs read_ids reads_value_def
      dest: from_slice_value_wf)

lemma runs_bundle_import:
  "runs_one E w (asks_for E w (BundleImport dbp peer file)) d (cli_bundle_import E w dbp peer file d)"
  unfolding cli_bundle_import_def
  by (rule runs_one_prepared [where cmd_of = "\<lambda>(p, b). ImportBundle p b default_bundle_limits"
      and action = "\<lambda>(p, b). import_bundle E p b default_bundle_limits (w_outcome w 0) d"])
    (auto intro!: errors_intro simp: asks_for_iff bindR_Inr_iff read_inputs ok_or_def split: option.splits)

lemmas runs_one_commands = runs_context_create runs_context_join runs_context_authorize runs_append
  runs_branch_create runs_merge runs_bundle_import

lemma runs_oneE:
  assumes "runs_one E w asked d (r, d')"
  obtains (refused) e where "\<nexists>cmd. asked cmd" "error_ok e" "r = Inl e" "d' = d"
    | (done_) cmd v where "asked cmd" "command_ok cmd" "run_command E cmd (w_outcome w 0) d = (None, d')" "r = Inr v"
    | (failed) cmd x where "asked cmd" "command_ok cmd" "run_command E cmd (w_outcome w 0) d = (Some x, d')"
        "r = Inl (cli_store_error E x)"
  using assms unfolding runs_one_def
proof (elim disjE exE conjE)
  fix cmd
  assume *: "asked cmd" "command_ok cmd" "case run_command E cmd (w_outcome w 0) d of (reply, d'') \<Rightarrow> snd (r, d') = d'' \<and>
      (case reply of None \<Rightarrow> \<exists>v. fst (r, d') = Inr v | Some e \<Rightarrow> fst (r, d') = Inl (cli_store_error E e))"
  obtain reply d'' where run: "run_command E cmd (w_outcome w 0) d = (reply, d'')"
    by (cases "run_command E cmd (w_outcome w 0) d")
  show thesis
  proof (cases reply)
    case None
    then show ?thesis using * run done_ by auto
  next
    case (Some x)
    then show ?thesis using * run failed by auto
  qed
qed (use refused in simp)

lemma runs_one_facts:
  assumes "env_lawful E" "store_inv E d" "runs_one E w asked d (r, d')"
  shows "keeps_store E d d'" "errors_ok r"
    "\<And>e. r = Inl e \<Longrightarrow> d' = d \<or> e = cli_store_error E IndeterminateCommit"
proof -
  show "keeps_store E d d'"
    using assms(3)
  proof (cases rule: runs_oneE)
    case (done_ cmd v)
    then show ?thesis using run_command_keeps [OF assms(1,2), of cmd "w_outcome w 0"] by simp
  next
    case (failed cmd x)
    then show ?thesis using run_command_keeps [OF assms(1,2), of cmd "w_outcome w 0"] by simp
  qed (simp add: keeps_store_refl assms(2))
  show "errors_ok r"
    using assms(3) by (cases rule: runs_oneE) (simp_all add: errors_ok_def)
  show "d' = d \<or> e = cli_store_error E IndeterminateCommit" if "r = Inl e" for e
    using assms(3)
  proof (cases rule: runs_oneE)
    case (failed cmd x)
    then have "d' = d \<or> x = IndeterminateCommit"
      using atomic_command [of d E cmd "w_outcome w 0"] by (auto simp: atomic_reply_def)
    then show ?thesis using failed(4) that by auto
  qed (use that in simp_all)
qed

lemma prepared_keeps:
  assumes "errors_ok pre" "store_inv E d"
    and "\<And>x. pre = Inr x \<Longrightarrow> keeps_store E d (snd (op x d)) \<and> errors_ok (fst (op x d))"
  shows "keeps_store E d (snd (prepared pre op d)) \<and> errors_ok (fst (prepared pre op d))"
  using assms keeps_store_refl [OF assms(2)] by (cases pre) (auto simp: prepared_def errors_ok_def)

lemma cli_invoke_keeps:
  assumes "env_lawful E" "store_inv E d" "others_lawful E (w_others w)"
  shows "keeps_store E d (snd (cli_invoke E w dbp key context branch expected file stdin program args d)) \<and>
    errors_ok (fst (cli_invoke E w dbp key context branch expected file stdin program args d))"
  unfolding cli_invoke_def
proof (rule prepared_keeps [OF _ assms(2)])
  fix x
  assume "bindR (open_store E w dbp) (\<lambda>_. bindR (load_identity w key) (\<lambda>idn.
         bindR (read_bounded w ''input'' file stdin) (\<lambda>b. bindR (cli_payload E b) (\<lambda>input.
         bindR (cli_context E context) (\<lambda>c. bindR (cli_branch branch) (\<lambda>n.
         bindR (cli_event E expected ''expected-head'') (\<lambda>x.
           Inr (idn, \<lparr>iq_context = c, iq_branch = n, iq_expected_head = x, iq_input = input\<rparr>)))))))) = Inr x"
  then obtain idn c n h input b where parts: "cli_context E context = Inr c" "cli_branch branch = Inr n"
      "cli_event E expected ''expected-head'' = Inr h" "cli_payload E b = Inr input"
    and x: "x = (idn, \<lparr>iq_context = c, iq_branch = n, iq_expected_head = h, iq_input = input\<rparr>)"
    by (auto simp: bindR_Inr_iff)
  let ?request = "\<lparr>iq_context = c, iq_branch = n, iq_expected_head = h, iq_input = input\<rparr>"
  have wf: "request_wf ?request"
    using parts by (auto simp: request_wf_def dest: input_wf)
  let ?p = "run_command_provider E (w_process w program args)"
  obtain r d' where run: "record_invocation E idn ?request ?p (map_option (take 16) (w_entropy w)) (w_others w) (w_outcome w) d = (r, d')"
    by (cases "record_invocation E idn ?request ?p (map_option (take 16) (w_entropy w)) (w_others w) (w_outcome w) d")
  have "keeps_store E d d'"
    using command.record_invocation_spec [OF assms(1,2) wf assms(3) run] by blast
  then show "keeps_store E d (snd ((case x of (idn, request) \<Rightarrow> \<lambda>d.
         case record_invocation E idn request ?p (map_option (take 16) (w_entropy w)) (w_others w) (w_outcome w) d of
           (Inl e, d') \<Rightarrow> (Inl (cli_provider_error E e), d')
         | (Inr report, d') \<Rightarrow> (Inr (invocation_reply E report), d')) d)) \<and>
      errors_ok (fst ((case x of (idn, request) \<Rightarrow> \<lambda>d.
         case record_invocation E idn request ?p (map_option (take 16) (w_entropy w)) (w_others w) (w_outcome w) d of
           (Inl e, d') \<Rightarrow> (Inl (cli_provider_error E e), d')
         | (Inr report, d') \<Rightarrow> (Inr (invocation_reply E report), d')) d))"
    by (cases r) (simp_all add: x run errors_ok_def)
qed (intro errors_intro)

lemma pull_keeps:
  assumes "env_lawful E" "store_inv E d" "ref_name_wf (pc_peer cfg)"
  shows "keeps_store E d (snd (pull E getenv built cfg net oc d))"
proof -
  obtain r d' where run: "pull E getenv built cfg net oc d = (r, d')"
    by (cases "pull E getenv built cfg net oc d")
  show ?thesis using pull_spec [OF assms run] by (auto simp: run keeps_refs_def refs_replaced_def)
qed

lemma cli_sync_keeps:
  assumes "env_lawful E" "store_inv E d"
  shows "keeps_store E d (snd (cli_sync E w dbp peer url token context ack d)) \<and>
    errors_ok (fst (cli_sync E w dbp peer url token context ack d))"
  unfolding cli_sync_def
proof (rule prepared_keeps [OF _ assms(2)])
  fix cfg
  assume "bindR (open_store E w dbp) (\<lambda>_. bindR (cli_peer peer) (\<lambda>p.
         bindR (map_err cli_sync_error (peer_endpoint_new (w_address w) url ack)) (\<lambda>endpoint.
         bindR (cli_context E context) (\<lambda>c.
         map_err cli_sync_error (pull_client_new
           \<lparr>pc_peer = p, pc_endpoint = endpoint, pc_token = FileToken (w_token w token), pc_context = c,
            pc_limits = default_pull_limits, pc_transport = default_transport_limits\<rparr>))))) = Inr cfg"
  then have "ref_name_wf (pc_peer cfg)"
    by (auto simp: bindR_Inr_iff pull_client_new_def intro: input_wf split: if_splits)
  note keeps = pull_keeps [OF assms this, of "w_environment w" "w_client_built w" "w_send w" "w_outcome w"]
  obtain r d' where run: "pull E (w_environment w) (w_client_built w) cfg (w_send w) (w_outcome w) d = (r, d')"
    by (cases "pull E (w_environment w) (w_client_built w) cfg (w_send w) (w_outcome w) d")
  show "keeps_store E d (snd (case pull E (w_environment w) (w_client_built w) cfg
        (w_send w) (w_outcome w) d of
           (Inl e, d') \<Rightarrow> (Inl (cli_sync_error e), d')
         | (Inr report, d') \<Rightarrow> (Inr (obj
             [(''inserted'', count_json (pr_inserted report)), (''pages'', count_json (pr_pages report)),
              (''remote_refs_updated'', count_json (pr_remote_refs_updated report))]), d'))) \<and>
      errors_ok (fst (case pull E (w_environment w) (w_client_built w) cfg (w_send w) (w_outcome w) d of
           (Inl e, d') \<Rightarrow> (Inl (cli_sync_error e), d')
         | (Inr report, d') \<Rightarrow> (Inr (obj
             [(''inserted'', count_json (pr_inserted report)), (''pages'', count_json (pr_pages report)),
              (''remote_refs_updated'', count_json (pr_remote_refs_updated report))]), d')))"
    using keeps by (cases r) (simp_all add: run errors_ok_def)
qed (intro errors_intro error_ok_mapped)

section \<open>Runs\<close>

text \<open>Commands that may change the database, and among them those that take several steps of the store.\<close>

fun writes_store :: "cli_command \<Rightarrow> bool" where
  "writes_store (ContextCreate _ _ _) \<longleftrightarrow> True"
| "writes_store (ContextJoin _ _ _ _) \<longleftrightarrow> True"
| "writes_store (ContextAuthorize _ _ _) \<longleftrightarrow> True"
| "writes_store (AppendEvent _ _ _ _ _ _ _ _) \<longleftrightarrow> True"
| "writes_store (BranchCreate _ _ _ _) \<longleftrightarrow> True"
| "writes_store (MergeEvents _ _ _ _ _ _ _ _) \<longleftrightarrow> True"
| "writes_store (BundleImport _ _ _) \<longleftrightarrow> True"
| "writes_store (Invoke _ _ _ _ _ _ _ _ _) \<longleftrightarrow> True"
| "writes_store (Sync _ _ _ _ _ _) \<longleftrightarrow> True"
| "writes_store _ \<longleftrightarrow> False"

fun several_steps :: "cli_command \<Rightarrow> bool" where
  "several_steps (Invoke _ _ _ _ _ _ _ _ _) \<longleftrightarrow> True"
| "several_steps (Sync _ _ _ _ _ _) \<longleftrightarrow> True"
| "several_steps _ \<longleftrightarrow> False"

fun writes_secrets :: "cli_command \<Rightarrow> bool" where
  "writes_secrets (KeyGenerate _) \<longleftrightarrow> True"
| "writes_secrets (TokenGenerate _) \<longleftrightarrow> True"
| "writes_secrets (KeyRepairPermissions _) \<longleftrightarrow> True"
| "writes_secrets _ \<longleftrightarrow> False"

fun calls_provider :: "cli_command \<Rightarrow> bool" where
  "calls_provider (Invoke _ _ _ _ _ _ _ _ _) \<longleftrightarrow> True"
| "calls_provider _ \<longleftrightarrow> False"

fun db_argument :: "cli_command \<Rightarrow> string option" where
  "db_argument (KeyGenerate _) = None"
| "db_argument (KeyRepairPermissions _) = None"
| "db_argument (TokenGenerate _) = None"
| "db_argument (ContextCreate dbp _ _) = Some dbp"
| "db_argument (ContextJoin dbp _ _ _) = Some dbp"
| "db_argument (ContextAuthorize dbp _ _) = Some dbp"
| "db_argument (AppendEvent dbp _ _ _ _ _ _ _) = Some dbp"
| "db_argument (BranchCreate dbp _ _ _) = Some dbp"
| "db_argument (MergeEvents dbp _ _ _ _ _ _ _) = Some dbp"
| "db_argument (ShowEvent dbp _) = Some dbp"
| "db_argument (ShowProjection dbp _ _) = Some dbp"
| "db_argument (ShowRefs dbp _ _) = Some dbp"
| "db_argument (BundleExport dbp _ _ _ _) = Some dbp"
| "db_argument (BundleImport dbp _ _) = Some dbp"
| "db_argument (InvocationPending dbp _ _) = Some dbp"
| "db_argument (InvocationDetached dbp _ _) = Some dbp"
| "db_argument (VerifyStore dbp) = Some dbp"
| "db_argument (Invoke dbp _ _ _ _ _ _ _ _) = Some dbp"
| "db_argument (Serve dbp _ _ _ _) = Some dbp"
| "db_argument (Sync dbp _ _ _ _ _) = Some dbp"
| "db_argument (ReceiptIssue dbp _ _ _ _ _ _ _ _ _) = Some dbp"
| "db_argument (ReceiptVerify dbp _) = Some dbp"

fun key_argument :: "cli_command \<Rightarrow> string option" where
  "key_argument (ContextCreate _ key _) = Some key"
| "key_argument (AppendEvent _ key _ _ _ _ _ _) = Some key"
| "key_argument (MergeEvents _ key _ _ _ _ _ _) = Some key"
| "key_argument (Invoke _ key _ _ _ _ _ _ _) = Some key"
| "key_argument (ReceiptIssue _ key _ _ _ _ _ _ _ _) = Some key"
| "key_argument _ = None"

section \<open>Documented exit codes\<close>

text \<open>
  The exit codes that the output contract fixes for errors: stale heads and missing refs are
  conflicts, an unknown context is not found, a database that fails is internal, and a provider
  that fails has a class of its own. It leaves the other errors open.
\<close>

definition documented_exit :: "store_error \<Rightarrow> nat option" where
  "documented_exit e =
     (case e of StaleHead _ \<Rightarrow> Some 4 | RefMissing \<Rightarrow> Some 4 | ContextUnknown \<Rightarrow> Some 6
      | DatabaseUnavailable \<Rightarrow> Some 9 | MigrationFailed \<Rightarrow> Some 9 | CorruptStorage \<Rightarrow> Some 9
      | IndeterminateCommit \<Rightarrow> Some 9 | _ \<Rightarrow> None)"

definition documented_provider_exit :: "provider_error \<Rightarrow> nat option" where
  "documented_provider_exit e =
     (case e of PostExecutionConflict _ _ \<Rightarrow> Some 7 | ProviderDeclared \<Rightarrow> Some 7 | ProviderTransport \<Rightarrow> Some 7
      | ProviderMalformed \<Rightarrow> Some 7 | ProviderTimeout \<Rightarrow> Some 7 | ProviderInvalidConfig \<Rightarrow> Some 2
      | ProviderValidation \<Rightarrow> Some 3 | ProviderLimitExceeded \<Rightarrow> Some 3
      | ProviderStore x \<Rightarrow>
          (case x of StaleHead _ \<Rightarrow> Some 4 | RefMissing \<Rightarrow> Some 4 | ContextUnknown \<Rightarrow> Some 6 | _ \<Rightarrow> None)
      | ProviderInternal \<Rightarrow> None)"

lemmas error_defs = cli_error_def usage_error_def validation_error_def conflict_error_def auth_error_def
  not_found_error_def provider_failure_def transport_error_def internal_error_def

lemma documented_exit_kept: "documented_exit e = Some k \<Longrightarrow> ce_exit (cli_store_error E e) = k"
  by (cases e) (simp_all add: documented_exit_def error_defs)

lemma documented_provider_exit_kept: "documented_provider_exit e = Some k \<Longrightarrow> ce_exit (cli_provider_error E e) = k"
proof (cases e)
  case (ProviderStore x)
  then show "documented_provider_exit e = Some k \<Longrightarrow> ?thesis"
    by (cases x) (simp_all add: documented_provider_exit_def error_defs)
qed (simp_all add: documented_provider_exit_def error_defs)

lemma error_ok_exit: "error_ok e \<Longrightarrow> ce_exit e \<noteq> 0"
  by (auto simp: error_ok_def exit_classes_def)

definition exit_of :: "cli_error + 'a \<Rightarrow> nat" where
  "exit_of r = (case r of Inl e \<Rightarrow> ce_exit e | Inr _ \<Rightarrow> 0)"

lemma exit_of_simps [simp]: "exit_of (Inl e) = ce_exit e" "exit_of (Inr v) = 0"
  by (simp_all add: exit_of_def)

text \<open>
  A single-step command runs exactly the store command it asks for, and its exit code says how that
  ended; it fails and changes nothing when it asks for none. The same of \<open>invoke\<close> and its call; how
  an invocation that recorded an error exits is left open.
\<close>

definition store_run :: "env \<Rightarrow> world \<Rightarrow> cli_command \<Rightarrow> db \<Rightarrow> db \<Rightarrow> nat \<Rightarrow> bool" where
  "store_run E w command d d' code \<longleftrightarrow>
     (if \<exists>cmd. asks_for E w command cmd
      then \<exists>cmd reply. asks_for E w command cmd \<and> run_command E cmd (w_outcome w 0) d = (reply, d') \<and>
        (case reply of None \<Rightarrow> code = 0
         | Some e \<Rightarrow> code \<noteq> 0 \<and> (\<forall>k. documented_exit e = Some k \<longrightarrow> code = k))
      else code \<noteq> 0 \<and> d' = d)"

definition provider_run :: "env \<Rightarrow> world \<Rightarrow> cli_command \<Rightarrow> db \<Rightarrow> db \<Rightarrow> nat \<Rightarrow> bool" where
  "provider_run E w command d d' code \<longleftrightarrow>
     (if \<exists>idn request process. asks_provider E w command idn request process
      then \<exists>idn request process result. asks_provider E w command idn request process \<and>
        record_invocation E idn request (run_command_provider E process) (map_option (take 16) (w_entropy w))
          (w_others w) (w_outcome w) d = (result, d') \<and>
        (case result of Inr report \<Rightarrow> ir_outcome report = ResponseOutcome \<longrightarrow> code = 0
         | Inl e \<Rightarrow> code \<noteq> 0 \<and> (\<forall>k. documented_provider_exit e = Some k \<longrightarrow> code = k))
      else code \<noteq> 0 \<and> d' = d)"

lemma runs_one_store_run:
  assumes "runs_one E w (asks_for E w command) d (r, d')"
  shows "store_run E w command d d' (exit_of r)"
  using assms
proof (cases rule: runs_oneE)
  case (failed cmd x)
  then show ?thesis
    using error_ok_exit [OF error_ok_mapped(1), of E x] documented_exit_kept [of x _ E]
    unfolding store_run_def by auto
qed (auto simp: store_run_def dest: error_ok_exit)

lemma cli_invoke_run:
  assumes "base64_lawful E" "command = Invoke dbp key context branch expected file stdin program args"
    and "cli_invoke E w dbp key context branch expected file stdin program args d = (r, d')"
  shows "provider_run E w command d d' (exit_of r)"
proof -
  define pre where "pre = bindR (open_store E w dbp) (\<lambda>_. bindR (load_identity w key) (\<lambda>idn.
         bindR (read_bounded w ''input'' file stdin) (\<lambda>b. bindR (cli_payload E b) (\<lambda>input.
         bindR (cli_context E context) (\<lambda>c. bindR (cli_branch branch) (\<lambda>n.
         bindR (cli_event E expected ''expected-head'') (\<lambda>x.
           Inr (idn, \<lparr>iq_context = c, iq_branch = n, iq_expected_head = x, iq_input = input\<rparr>))))))))"
  have asks: "asks_provider E w command idn request process \<longleftrightarrow>
      pre = Inr (idn, request) \<and> process = w_process w program args" for idn request process
    unfolding pre_def assms(2) asks_provider_iff
    by (auto simp: bindR_Inr_iff read_inputs read_ids [OF assms(1)] reads_value_def)
  show ?thesis
  proof (cases pre)
    case (Inl e)
    moreover have "errors_ok pre" unfolding pre_def by (intro errors_intro)
    ultimately have "r = Inl e" "d' = d" "ce_exit e \<noteq> 0"
      using assms(3) by (auto simp: cli_invoke_def pre_def [symmetric] prepared_def errors_ok_def dest: error_ok_exit)
    then show ?thesis using Inl by (simp add: provider_run_def asks)
  next
    case (Inr x)
    obtain idn request where x: "x = (idn, request)" by (cases x)
    obtain result d'' where run: "record_invocation E idn request (run_command_provider E (w_process w program args))
        (map_option (take 16) (w_entropy w)) (w_others w) (w_outcome w) d = (result, d'')"
      by (cases "record_invocation E idn request (run_command_provider E (w_process w program args))
        (map_option (take 16) (w_entropy w)) (w_others w) (w_outcome w) d")
    have "r = (case result of Inl e \<Rightarrow> Inl (cli_provider_error E e) | Inr report \<Rightarrow> Inr (invocation_reply E report))"
      "d' = d''"
      using assms(3) Inr run
      by (simp_all add: cli_invoke_def pre_def [symmetric] prepared_def x split: sum.splits)
    then have "case result of Inr report \<Rightarrow> ir_outcome report = ResponseOutcome \<longrightarrow> exit_of r = 0
        | Inl e \<Rightarrow> exit_of r \<noteq> 0 \<and> (\<forall>k. documented_provider_exit e = Some k \<longrightarrow> exit_of r = k)"
      using error_ok_exit [OF error_ok_provider] documented_provider_exit_kept by (auto split: sum.splits)
    then show ?thesis
      unfolding provider_run_def asks Inr x using run \<open>d' = d''\<close> by auto
  qed
qed

text \<open>What else the contract fixes: a database that does not open, keys, and events that are not stored.\<close>

lemma dispatch_unopened:
  assumes "db_argument command = Some dbp" "w_open w dbp = Some e"
  shows "dispatch E w command s = (Inl (cli_store_error E e), s)"
proof -
  have "open_store E w dbp = Inl (cli_store_error E e)" using assms(2) by (simp add: open_store_def)
  then show ?thesis
    using assms(1)
    by (cases command)
      (simp_all add: on_db_def querying_def exporting_def prepared_def cli_context_create_def cli_context_join_def
        cli_context_authorize_def cli_append_def cli_branch_create_def cli_merge_def cli_bundle_import_def
        cli_show_event_def cli_show_projection_def cli_show_refs_def cli_bundle_export_def cli_invocation_def
        cli_verify_def cli_invoke_def cli_serve_def cli_sync_def cli_receipt_issue_def cli_receipt_verify_def)
qed

lemma dispatch_unloaded:
  assumes "db_argument command = Some dbp" "w_open w dbp = None" "key_argument command = Some key"
    and "\<not> is_ok (load_key_file (w_secret w key))"
  shows "\<exists>k. dispatch E w command s = (Inl (key_error k), s)"
proof -
  obtain k where "load_key_file (w_secret w key) = Inl k"
    using assms(4) by (cases "load_key_file (w_secret w key)") simp_all
  then have "load_identity w key = Inl (key_error k)" "open_store E w dbp = Inr ()"
    using assms(2) by (simp_all add: load_identity_def open_store_def)
  then show ?thesis
    using assms(1,3)
    by (cases command)
      (auto simp: on_db_def exporting_def prepared_def cli_context_create_def cli_append_def cli_merge_def
        cli_invoke_def cli_receipt_issue_def)
qed

lemma dispatch_secrets_exit:
  "writes_secrets command \<Longrightarrow> exit_of (fst (dispatch E w command s)) \<in> {0, 5}"
  by (cases command) (auto simp: on_secrets_def key_error_def error_defs split: prod.splits sum.splits)

lemma dispatch_shown:
  assumes "base64_lawful E" "store_inv E (cl_db s)" "w_open w dbp = None" "event_id_wf i"
  shows "exit_of (fst (dispatch E w (ShowEvent dbp (event_id_text E i)) s)) = (if has_event (cl_db s) i then 0 else 6)"
proof -
  have "cli_event E (event_id_text E i) ''id'' = Inr i" "open_store E w dbp = Inr ()"
    using assms by (simp_all add: read_ids read_inputs)
  then show ?thesis
    using store_event_lookup [OF assms(2), of i] lookup_event_None [OF assms(2), of i]
    by (cases "lookup_event E (cl_db s) i") (simp_all add: querying_def cli_show_event_def error_defs)
qed

definition contract_exit :: "env \<Rightarrow> world \<Rightarrow> cli_command \<Rightarrow> db \<Rightarrow> nat \<Rightarrow> bool" where
  "contract_exit E w command d code \<longleftrightarrow>
     (\<forall>dbp e k. db_argument command = Some dbp \<and> w_open w dbp = Some e \<and> documented_exit e = Some k \<longrightarrow> code = k) \<and>
     (\<forall>dbp key. db_argument command = Some dbp \<and> w_open w dbp = None \<and> key_argument command = Some key \<and>
       \<not> is_ok (load_key_file (w_secret w key)) \<longrightarrow> code = 5) \<and>
     (writes_secrets command \<longrightarrow> code \<in> {0, 5}) \<and>
     (\<forall>dbp i. command = ShowEvent dbp (event_id_text E i) \<and> w_open w dbp = None \<and> event_id_wf i \<longrightarrow>
       code = (if has_event d i then 0 else 6))"

lemma dispatch_contract:
  assumes "base64_lawful E" "store_inv E (cl_db s)"
  shows "contract_exit E w command (cl_db s) (exit_of (fst (dispatch E w command s)))"
  unfolding contract_exit_def
proof (intro conjI allI impI)
  fix dbp e k assume "db_argument command = Some dbp \<and> w_open w dbp = Some e \<and> documented_exit e = Some k"
  then show "exit_of (fst (dispatch E w command s)) = k"
    by (simp add: dispatch_unopened documented_exit_kept)
next
  fix dbp key assume "db_argument command = Some dbp \<and> w_open w dbp = None \<and> key_argument command = Some key \<and>
       \<not> is_ok (load_key_file (w_secret w key))"
  then obtain k where "dispatch E w command s = (Inl (key_error k), s)" using dispatch_unloaded by blast
  then show "exit_of (fst (dispatch E w command s)) = 5" by (simp add: key_error_def error_defs)
qed (use dispatch_secrets_exit dispatch_shown [OF assms] in auto)

section \<open>Runs\<close>

text \<open>What a command does to the database, with its exit code.\<close>

definition carried_out :: "env \<Rightarrow> world \<Rightarrow> cli_command \<Rightarrow> db \<Rightarrow> db \<Rightarrow> nat \<Rightarrow> bool" where
  "carried_out E w command d d' code \<longleftrightarrow>
     (\<not> writes_store command \<longrightarrow> d' = d) \<and>
     (writes_store command \<and> \<not> several_steps command \<longrightarrow> store_run E w command d d' code) \<and>
     (calls_provider command \<longrightarrow> provider_run E w command d d' code) \<and>
     contract_exit E w command d code"

definition dispatch_ok ::
  "env \<Rightarrow> world \<Rightarrow> cli_command \<Rightarrow> cli_state \<Rightarrow> (cli_error + json) \<times> cli_state \<Rightarrow> bool" where
  "dispatch_ok E w command s r \<longleftrightarrow>
     keeps_store E (cl_db s) (cl_db (snd r)) \<and> errors_ok (fst r) \<and>
     (\<not> writes_store command \<longrightarrow> cl_db (snd r) = cl_db s) \<and>
     (\<not> writes_secrets command \<longrightarrow> cl_secrets (snd r) = cl_secrets s) \<and>
     (writes_store command \<and> \<not> several_steps command \<longrightarrow>
       store_run E w command (cl_db s) (cl_db (snd r)) (exit_of (fst r))) \<and>
     (\<forall>e. fst r = Inl e \<and> \<not> several_steps command \<longrightarrow>
       cl_db (snd r) = cl_db s \<or> e = cli_store_error E IndeterminateCommit)"

lemma dispatch_ok_one:
  assumes "env_lawful E" "store_inv E (cl_db s)" "runs_one E w (asks_for E w command) (cl_db s) (f (cl_db s))"
    and "writes_store command" "\<not> writes_secrets command"
  shows "dispatch_ok E w command s (on_db f s)"
proof -
  obtain r d' where f: "f (cl_db s) = (r, d')" by (cases "f (cl_db s)")
  show ?thesis
    using runs_one_facts [OF assms(1,2) assms(3) [unfolded f]] runs_one_store_run [OF assms(3) [unfolded f]] assms(4,5)
    by (auto simp: dispatch_ok_def on_db_def f)
qed

lemma dispatch_ok_several:
  assumes "keeps_store E (cl_db s) (snd (f (cl_db s))) \<and> errors_ok (fst (f (cl_db s)))"
    and "writes_store command" "\<not> writes_secrets command" "several_steps command"
  shows "dispatch_ok E w command s (on_db f s)"
  using assms by (cases "f (cl_db s)") (simp add: dispatch_ok_def on_db_def)

lemma dispatch_ok_unchanged:
  assumes "store_inv E (cl_db s)" "errors_ok (fst r)" "cl_db (snd r) = cl_db s" "\<not> writes_store command"
    and "\<not> writes_secrets command \<longrightarrow> cl_secrets (snd r) = cl_secrets s"
  shows "dispatch_ok E w command s r"
  using assms keeps_store_refl [OF assms(1)] by (simp add: dispatch_ok_def)

lemma dispatch_ok_secrets:
  "store_inv E (cl_db s) \<Longrightarrow> writes_secrets command \<Longrightarrow> \<not> writes_store command \<Longrightarrow>
    dispatch_ok E w command s (on_secrets rend f s)"
  by (rule dispatch_ok_unchanged)
    (auto simp: on_secrets_def errors_ok_def split: prod.splits sum.splits)

lemma dispatch_ok_querying:
  "store_inv E (cl_db s) \<Longrightarrow> errors_ok (f (cl_db s)) \<Longrightarrow> \<not> writes_store command \<Longrightarrow>
    dispatch_ok E w command s (querying f s)"
  by (rule dispatch_ok_unchanged) (simp_all add: querying_def)

lemma dispatch_ok_exporting:
  "store_inv E (cl_db s) \<Longrightarrow> errors_ok (f (cl_db s)) \<Longrightarrow> \<not> writes_store command \<Longrightarrow>
    dispatch_ok E w command s (exporting f s)"
  by (rule dispatch_ok_unchanged) (auto simp: exporting_def errors_ok_def split: sum.splits prod.splits)

lemma dispatch_safe:
  assumes "env_lawful E" "store_inv E (cl_db s)" "others_lawful E (w_others w)" "entropy_ok w"
  shows "dispatch_ok E w command s (dispatch E w command s)"
proof (cases command)
  case (Serve dbp token listen ready ack)
  then show ?thesis
    using errors_ok_serve [of E w dbp token listen ready ack]
    by (cases "cli_serve E w dbp token listen ready ack") (auto intro!: dispatch_ok_unchanged assms(2))
qed (use assms env_lawfulD(1) [OF assms(1)] in \<open>simp_all add: dispatch_ok_one dispatch_ok_several dispatch_ok_secrets
    dispatch_ok_querying dispatch_ok_exporting errors_ok_queries errors_ok_receipt runs_one_commands cli_invoke_keeps
    cli_sync_keeps\<close>)

lemma dispatch_carried_out:
  assumes "env_lawful E" "store_inv E (cl_db s)" "others_lawful E (w_others w)" "entropy_ok w"
    and "dispatch E w command s = (r, s')"
  shows "carried_out E w command (cl_db s) (cl_db s') (exit_of r)"
proof -
  have base: "base64_lawful E" using assms(1) by (rule env_lawfulD(1))
  have "provider_run E w command (cl_db s) (cl_db s') (exit_of r)" if "calls_provider command"
    using that
  proof (cases command)
    case (Invoke dbp key ctx branch expected input stdin program args)
    then show ?thesis
      using assms(5) cli_invoke_run [OF base, of command dbp key ctx branch expected input stdin program args w "cl_db s"]
      by (cases "cli_invoke E w dbp key ctx branch expected input stdin program args (cl_db s)") (auto simp: on_db_def)
  qed simp_all
  then show ?thesis
    using dispatch_safe [OF assms(1-4), of command] dispatch_contract [OF base assms(2), of w command]
    by (simp add: carried_out_def dispatch_ok_def assms(5))
qed

text \<open>The line printed for a success and for a failure; the command a failure names is left open.\<close>

definition success_form :: "string \<Rightarrow> json \<Rightarrow> bool" where
  "success_form name document \<longleftrightarrow> (\<exists>reply. document = obj
     [(''command'', JString name), (''ok'', JBool True), (''result'', reply), (''schema_version'', JNumber (PosInt 1))])"

definition failure_form :: "string \<Rightarrow> json \<Rightarrow> bool" where
  "failure_form class document \<longleftrightarrow> (\<exists>name details. document = obj
     [(''command'', JString name), (''error'', obj [(''code'', JString class), (''details'', details)]),
      (''ok'', JBool False), (''schema_version'', JNumber (PosInt 1))])"

lemma documents_form: "success_form name (success_document name reply)" "failure_form class (failure_document class details)"
  by (auto simp: success_form_def failure_form_def success_document_def failure_document_def count_json_def
      CLI_SCHEMA_VERSION_def)

definition reported :: "cli_command option \<Rightarrow> db \<Rightarrow> db \<Rightarrow> json \<Rightarrow> nat \<Rightarrow> bool" where
  "reported parsed d d' document code \<longleftrightarrow>
     (\<exists>class. failure_form class document \<and> (class, code) \<in> exit_classes) \<and>
     (case parsed of None \<Rightarrow> code = 2
      | Some command \<Rightarrow> d' = d \<or> code = 9 \<or> several_steps command)"

lemma run_cli_spec:
  assumes "env_lawful E" "store_inv E (cl_db s)" "others_lawful E (w_others w)" "entropy_ok w"
    and "run_cli E w parsed s = (out, code, s')"
  shows "keeps_store E (cl_db s) (cl_db s') \<and>
    (\<exists>document. out = render E document @ [10] \<and>
      (code = 0 \<and> (\<exists>command. parsed = Some command \<and> success_form (command_name command) document) \<or>
       reported parsed (cl_db s) (cl_db s') document code)) \<and>
    (case parsed of None \<Rightarrow> s' = s
     | Some command \<Rightarrow> carried_out E w command (cl_db s) (cl_db s') code \<and>
        (\<not> writes_secrets command \<longrightarrow> cl_secrets s' = cl_secrets s))"
proof (cases parsed)
  case None
  then have "s' = s" "code = 2"
      "out = render E (failure_document ''usage'' (obj [(''reason'', JString ''clap'')])) @ [10]"
    using assms(5) by (simp_all add: run_cli_def)
  moreover have "reported parsed (cl_db s) (cl_db s) (failure_document ''usage'' (obj [(''reason'', JString ''clap'')])) 2"
    using documents_form(2) None by (force simp: reported_def exit_classes_def)
  ultimately show ?thesis using keeps_store_refl [OF assms(2)] None by auto
next
  case (Some command)
  obtain r t where run: "dispatch E w command s = (r, t)" by (cases "dispatch E w command s")
  note safe = dispatch_safe [OF assms(1-4), of command, unfolded run dispatch_ok_def fst_conv snd_conv]
  have done': "s' = t" "code = exit_of r" "out = (case r of
      Inr reply \<Rightarrow> render E (success_document (command_name command) reply) @ [10]
    | Inl e \<Rightarrow> render E (failure_document (ce_code e) (ce_details e)) @ [10])"
    using assms(5) Some run by (cases r; simp add: run_cli_def)+
  have "\<exists>document. out = render E document @ [10] \<and>
      (code = 0 \<and> (\<exists>command. parsed = Some command \<and> success_form (command_name command) document) \<or>
       reported parsed (cl_db s) (cl_db s') document code)"
  proof (cases r)
    case (Inr reply)
    then show ?thesis using done' Some documents_form(1) by auto
  next
    case (Inl e)
    have "(ce_code e, ce_exit e) \<in> exit_classes" using safe Inl by (simp add: errors_ok_def error_ok_def)
    moreover have "cl_db t = cl_db s \<or> ce_exit e = 9 \<or> several_steps command"
      using safe Inl by (auto simp: error_defs)
    ultimately have "reported parsed (cl_db s) (cl_db s') (failure_document (ce_code e) (ce_details e)) code"
      using documents_form(2) by (force simp: reported_def done' Inl Some)
    then show ?thesis using done'(3) Inl by auto
  qed
  then show ?thesis
    using safe dispatch_carried_out [OF assms(1-4) run] Some done'(1,2) by simp
qed

end
