(* ===== verification/Sample_Cli.thy ===== *)
theory Sample_Cli
  imports Sample_Runs Cli_Facts
begin

text \<open>
  A file system with a key, and a world in which the command line creates a context.
\<close>

definition sample_files :: file_system where
  "sample_files = \<lparr>fs_names = [''.'' \<mapsto> 0],
     fs_inodes = (\<lambda>_. \<lparr>in_kind = DirectoryFile, in_mode = 0x1c0, in_data = []\<rparr>), fs_fresh = 1\<rparr>"

definition sample_writer :: secret_writer where
  "sample_writer = \<lparr>sw_pid = 7, sw_suffix = Some [1], sw_umask = 0x12, sw_fault = (\<lambda>_. None), sw_written = 0\<rparr>"

lemma sample_files_wf: "fs_wf sample_files"
  by (simp add: fs_wf_def sample_files_def)

lemma sample_parent: "parent_path ''key'' = ''.''"
  by (simp add: parent_path_def Let_def)

lemma sample_temp: "secret_temp sample_writer ''key'' \<noteq> Some ''key''"
  by (simp add: secret_temp_def sample_writer_def temp_path_def sample_parent Let_def)

definition sample_key_file :: file_view where
  "sample_key_file = \<lparr>fv_kind = RegularFile, fv_mode = 0x180, fv_id = 1, fv_data = replicate 32 1\<rparr>"

definition sample_world :: world where
  "sample_world = \<lparr>w_open = (\<lambda>_. None),
     w_secret = (\<lambda>_. \<lparr>sv_before = Some sample_key_file, sv_opened = Some sample_key_file,
       sv_after = Some sample_key_file\<rparr>),
     w_writer = sample_writer, w_chmod_fails = False, w_race = id,
     w_token = (\<lambda>_. \<lparr>tf_before = None, tf_opened = None, tf_content = None, tf_after = None\<rparr>),
     w_stdin = None, w_read = (\<lambda>_. None), w_unwritable = {}, w_entropy = Some (replicate 32 7),
     w_outcome = (\<lambda>_. Committed), w_others = (\<lambda>_ d. d), w_process = (\<lambda>_ _ _. SpawnFailed),
     w_address = (\<lambda>_. None), w_listen = (\<lambda>_. None), w_served = False, w_environment = (\<lambda>_. None),
     w_client_built = False, w_send = (\<lambda>_ _. SendFailed), w_order = id,
     w_orders = \<lparr>order_contexts = id, order_events = id\<rparr>, w_schema_ok = True, w_now = 0\<rparr>"

definition sample_command :: cli_command where
  "sample_command = ContextCreate ''db'' ''key'' ''main''"

definition sample_cli_state :: cli_state where
  "sample_cli_state = \<lparr>cl_db = empty_db, cl_secrets = sample_files, cl_written = []\<rparr>"

lemma sample_identity_loads: "load_identity sample_world ''key'' = Inr sample_identity"
  by (simp add: load_identity_def load_key_file_def read_secret_file_def sample_world_def sample_key_file_def
      open_to_others_def sample_identity_def)

lemma sample_branch_name: "cli_branch ''main'' = Inr ''main''"
  by code_simp

lemma sample_run_create:
  "\<exists>out. run_cli sample_env sample_world (Some sample_command) sample_cli_state =
    (out, 0, sample_cli_state\<lparr>cl_db := genesis_db\<rparr>)"
proof -
  have "w_entropy sample_world = Some (replicate 32 7)" "w_outcome sample_world 0 = Committed"
      "open_store sample_env sample_world ''db'' = Inr ()" "cl_db sample_cli_state = empty_db"
    by (simp_all add: sample_world_def open_store_def sample_cli_state_def)
  then show ?thesis
    by (simp add: run_cli_def sample_command_def on_db_def cli_context_create_def prepared_def replying_def
        sample_identity_loads sample_branch_name sample_create_context)
qed

lemma sample_world_fine: "others_lawful sample_env (w_others sample_world)" "entropy_ok sample_world"
  by (simp_all add: others_lawful_def sample_world_def entropy_ok_def keeps_store_refl)

lemma sample_write_key:
  "\<exists>files. write_secret_file sample_writer ''key'' (replicate 32 1) sample_files = (Inr (), files)"
  by (simp add: write_secret_file_def sample_parent Let_def)
    (simp add: fs_lookup_def sample_files_def sample_writer_def write_steps_def io_then_def step_defs
      temp_path_def sample_parent Let_def)

end
