(* ===== verification/Spec2Isabelle.thy ===== *)
theory Spec2Isabelle
  imports Store_Admission Store_Queries Store_Open Sample_Bundle Json_Strict Verify_Store Store_Invocation
    Closure_Spec Sample_Context Eval_Facts Pull_Facts Sample_Sync Sample_Invocation Sample_Cli
begin

text \<open>
  A verification library of \<open>contextmesh-rs\<close>, a local-first store of signed, content-addressed
  events that replicas synchronise and agents exchange context through. The theories follow the
  files of the crate.

  \<^bold>\<open>The store.\<close>
  \<^item> \<open>src/src/model.rs\<close>: \<open>Json\<close> (values, the strict reader, payload checks), \<open>Json_Strict\<close> (what the
    reader accepts), \<open>Primitives\<close> (identifiers and their text forms, names; the libraries for
    base 64, hashing, signatures and canonical JSON as the fields of a record \<open>env\<close> with their
    documented laws, \<open>env_lawful\<close>), \<open>Event_Model\<close> (event bodies).
  \<^item> \<open>src/src/crypto.rs\<close> and the envelope of \<open>model.rs\<close>: \<open>Crypto\<close>; its key and token files:
    \<open>Secret_File\<close>.
  \<^item> \<open>src/src/store.rs\<close>: \<open>Store_Tables\<close> (the SQL tables with their constraints, the statements and
    readers), \<open>Store_Core\<close> (provisioning, admission, refs, contexts, branches, appends, merges),
    \<open>Store_Open\<close> (opening a file, migration, the check of its schema).
  \<^item> \<open>src/src/store/dag.rs\<close>: \<open>Dag_Walk\<close> (the invariant of an explicit-stack walk over any graph) and
    \<open>Store_Dag\<close> (projections).
  \<^item> \<open>src/src/store/bundle.rs\<close>: \<open>Store_Bundle\<close> (format, export, import), \<open>Bundle_Wire\<close> (the format
    round trip), \<open>Store_Import\<close> (the transaction of an import).
  \<^item> \<open>src/src/store/sync.rs\<close>: \<open>Store_Sync\<close> (snapshots, pages, replacing a peer's refs).
  \<^item> \<open>src/src/store/verify.rs\<close>: \<open>Store_Verify\<close>, with \<open>Verify_Facts\<close> and \<open>Verify_Store\<close> for what a
    report means.
  \<^item> \<open>src/src/store/invocation.rs\<close>: \<open>Store_Invocation\<close> (pending and detached invocations).

  \<^bold>\<open>Replication.\<close>
  \<^item> \<open>src/src/sync.rs\<close>: \<open>Sync_Protocol\<close> (messages and cursors), \<open>Sync_Facts\<close> (their wire forms),
    \<open>Pull_Client\<close> and \<open>Pull_Facts\<close> (the pull against an arbitrary peer).
  \<^item> \<open>src/src/http.rs\<close>: \<open>Http_Server\<close> (tokens, limits, the guard, the handlers), \<open>Http_Facts\<close> (the guard
    as a state machine of concurrent requests), \<open>Header_Guard\<close> (the bound on the header section of
    a connection), \<open>Http_Client\<close> (endpoints and the bounded transport).

  \<^bold>\<open>Context exchange.\<close>
  \<^item> \<open>src/src/selection.rs\<close> and \<open>src/src/compiler.rs\<close>: \<open>Selection\<close>, \<open>Selection_Facts\<close>.
  \<^item> \<open>src/src/closure.rs\<close>: \<open>Closure\<close>, \<open>Closure_Graph\<close> (any node list, cycles included),
    \<open>Closure_Facts\<close>, \<open>Closure_Store\<close> (on a store), \<open>Closure_Spec\<close> (edges and limits, stated apart
    from the code).
  \<^item> \<open>src/src/delta.rs\<close>, \<open>src/src/handoff.rs\<close>, \<open>src/src/capability.rs\<close>, \<open>src/src/repair.rs\<close>,
    \<open>src/src/summary.rs\<close>: \<open>Delta\<close>, \<open>Handoff\<close>, \<open>Capability\<close>, \<open>Repair\<close> and \<open>Summary\<close>, each with a theory
    of its facts.
  \<^item> \<open>src/src/receipt.rs\<close>: \<open>Receipt\<close>, \<open>Receipt_Facts\<close>, \<open>Calendar\<close> (timestamps against the calendar).
  \<^item> \<open>src/src/eval.rs\<close>: \<open>Eval\<close>, \<open>Eval_Facts\<close>.

  \<^bold>\<open>Agents and the command line.\<close>
  \<^item> \<open>src/src/provider.rs\<close>: \<open>Provider\<close> (recording an invocation, the child process transport),
    \<open>Provider_Facts\<close>.
  \<^item> \<open>src/src/cli.rs\<close>: \<open>Cli\<close> (every command, its dispatch to the components above, error classes, the
    printed document), \<open>Cli_Facts\<close> (the store command that arguments ask for, the exit codes the
    output contract fixes).

  \<^bold>\<open>State.\<close> The database is a record \<open>db\<close> of its six tables, each a list of rows in insertion
  order; the error enums are datatypes and every fallible function returns a sum. A write operation
  takes the outcome of its commit (\<open>commit_outcome\<close>: acknowledged, lost, or applied without
  acknowledgement) and the database, and returns its reply with the database afterwards. The write
  gate serialises writers, so a history is a sequence of commands: \<open>Store_System\<close> gives the commands
  and the step relation, \<open>store_reachable\<close> the stores they lead to. Where other writers may act
  between two steps of an operation (an invocation, a server, a repair loop), what they do is an
  argument that keeps the store. The HTTP server is a state of running requests with a step
  relation; the file system of secrets maps names to inodes; a run of the command line works on the
  database, those files and the files it writes.

  \<^bold>\<open>What is shown.\<close> \<open>Store_Invariant\<close> states the integrity invariant and what the readers return
  under it; \<open>Store_Blocks\<close> and \<open>Store_Preserve\<close> show that every transaction keeps it and only grows
  the store (locale \<open>store_transaction\<close>, interpreted on each transaction body); \<open>Store_Spec\<close>
  specifies admission on maps and shows the refinement; \<open>Store_Admission\<close> adds retries and
  atomicity; \<open>Store_Queries\<close> the queries. The text codecs of identifiers are instances of the
  locale \<open>text_codec\<close>, the protocol messages of \<open>wire_codec\<close>, the providers of
  \<open>invocation_provider\<close>. The \<open>Sample_\<close> theories build a concrete environment, a run of the store, a
  context exchange, a server, an invocation and a run of the command line, on which the properties
  are witnessed. The properties below are the claims C1, C2, \<dots> of the library.

  \<^bold>\<open>Bounds.\<close> Machine integers are naturals with \<open>usize_limit = 2 ^ 64\<close> where the code uses checked
  arithmetic (\<open>checked_add\<close>), words where it works on bits. The graph walks, the page search and
  the repair loop terminate outright: a walk by the events not yet entered, the repair loop by its
  limits. The loop \<open>drain_pages\<close> over a server's pages has fuel, and one request more than there are
  events is enough; the pull loop ends by the page limit of its configuration. Timestamps are
  exact to the end of the year 9999.

  \<^bold>\<open>Parameters.\<close> Base 64, hashing, signatures and canonical JSON (\<open>env\<close>); the order of rows that a
  query leaves open and of hash maps; the network, as the reply to each numbered request; the
  router and the keyed hash of the HTTP library; the task driver of the repair loop; the provider
  and its child process; and the \<open>world\<close> of a run of the command line.

  \<^bold>\<open>Not modelled.\<close> The SQL engine below its statements, sockets, the accept loop and routing, the
  parsing of arguments and of socket addresses, the readiness and shutdown of a running server, waiting and killing of a child process (its
  outcome is a parameter), the display texts of errors, the JSON renderings of deltas and
  handoffs, which nothing reads back, and the demonstration programs. Columns of the right type
  are taken for granted (a corrupt cell cannot be represented), and read transactions are taken to
  commit. The rollback of a failed transaction is taken to succeed, so the caller sees the error of
  the body; where it fails the code returns the error of the database instead. Whether the schema
  in a file is the expected one is an argument of the verification. A repair history that cannot be
  written is dropped with the error that ends the run, so the partial line and the sequence number
  it may have left are not kept.
\<close>

section \<open>The store\<close>

text \<open>
  C1: Whatever commands run, with whatever outcome of their commits, the store they lead to
  satisfies the integrity invariant: unique keys, canonical verified rows with matching columns
  and edges, parents before children in the same context, one genesis per active context, and
  refs that point at stored events of their context.
\<close>

theorem reachable_integrity: "env_lawful E \<Longrightarrow> store_reachable E d \<Longrightarrow> store_inv E d"
  by (rule reachable_inv)

theorem reachable_integrity_witness: "store_inv sample_env merged_db"
  by (rule reachable_integrity [OF sample_env_lawful sample_steps(5)])

text \<open>
  C2: A stored event never changes and never disappears: a step keeps every event, its context
  stays active, and its ancestry stays what it was.
\<close>

theorem step_keeps_events:
  assumes "env_lawful E" "store_reachable E d" "store_step E d reply d'"
    and "lookup_event E d i = Some ev"
  shows "lookup_event E d' i = Some ev \<and>
    (\<exists>x. context_row_of d' (event_context ev) = Inr (Some (x, 1))) \<and>
    ancestry E d' [i] = ancestry E d [i]"
proof -
  have inv: "store_inv E d" by (rule reachable_inv [OF assms(1,2)])
  then have kept: "store_inv E d'" "db_grows d d'"
    using store_step_keeps [OF assms(1) _ assms(3)] by (auto simp: keeps_store_def)
  have same: "lookup_event E d' i = Some ev" by (rule lookup_event_mono [OF kept(2) assms(4)])
  then have "stored_in d' i (event_context ev)" using stored_in_iff [OF kept(1)] by blast
  then have "\<exists>x. context_row_of d' (event_context ev) = Inr (Some (x, 1))"
    by (rule stored_context_row [OF kept(1)])
  moreover have "ancestry E d' [i] = ancestry E d [i]"
    using lookup_event_None [OF inv, of i] assms(4) by (intro ancestry_grows [OF inv kept(2)]) simp
  ultimately show ?thesis using same by blast
qed

theorem step_keeps_events_witness:
  "lookup_event sample_env side_db first_id = Some first_event \<and>
   (\<exists>x. context_row_of side_db sample_context = Inr (Some (x, 1))) \<and>
   ancestry sample_env side_db [first_id] = ancestry sample_env first_db [first_id]"
  using step_keeps_events [OF sample_env_lawful sample_steps(2) sample_side_step sample_lookups(3)]
  by simp

text \<open>
  C3: A command whose commit fails has its full effect or none; any other error leaves the
  database as it was, and a success is the committed run.
\<close>

theorem command_atomic:
  "(case run_command E cmd oc d of
      (None, d') \<Rightarrow> run_command E cmd Committed d = (None, d')
    | (Some e, d') \<Rightarrow>
        if e = IndeterminateCommit then d' \<in> {d, snd (run_command E cmd Committed d)} else d' = d)"
  using atomic_command [of d E cmd oc] by (auto simp: atomic_reply_def split: option.splits prod.splits)

text \<open>
  C4: No query reports a corrupt store on a reachable one: events are found or absent, refs
  resolve to the heads of the tables, and the listings are exactly the rows of the context, the
  local refs in the order of their names, the remote refs in the order of peers and names, of one
  peer alone when one is given.
\<close>

theorem queries_never_corrupt:
  assumes "env_lawful E" "store_reachable E d"
  shows "store_event E d i = Inr (lookup_event E d i) \<and>
    local_ref E d c n = Inr (local_view d (c, n)) \<and>
    list_local_refs E d c = Inr (sort_key ref_name (filter (\<lambda>r. ref_context r = c) (db_local d))) \<and>
    list_remote_refs E d peer c = Inr (sort_key rem_peer (sort_key rem_name
      (filter (\<lambda>r. rem_context r = c \<and> (case peer of Some p \<Rightarrow> rem_peer r = p | None \<Rightarrow> True)) (db_remote d))))"
  using reachable_inv [OF assms]
  by (simp add: store_event_lookup local_ref_view list_local_refs_view list_remote_refs_view)

theorem queries_never_corrupt_witness:
  "store_event sample_env merged_db merge_id = Inr (Some merge_event) \<and>
   list_remote_refs sample_env merged_db (Some ''peer'') sample_context =
     Inr (sort_key rem_peer (sort_key rem_name
       (filter (\<lambda>r. rem_context r = sample_context \<and> rem_peer r = ''peer'') (db_remote merged_db))))"
  using queries_never_corrupt [OF sample_env_lawful sample_steps(5), where peer = "Some ''peer''"]
  by (simp add: sample_lookups)

text \<open>
  C5: Opening a store either leaves the file as it was or, on a file without tables, gives it the
  schema and empty tables; a success means that the file has this version's schema and sound
  foreign keys, a failure other than an indeterminate commit changes nothing, and a newer version
  is refused as such. A file that opened with the rows of a reachable store opens again, unchanged,
  after any run of the store on it.
\<close>

theorem open_keeps_file:
  assumes "env_lawful E" "store_open utf8 fault keys_on oc f = (r, f')"
  shows "(f' = f \<or> blank_file f \<and> f' = fresh_file f) \<and>
    (r = Inr () \<longrightarrow> current_schema f' \<and> foreign_keys_hold (df_rows f')) \<and>
    (r \<noteq> Inr () \<and> r \<noteq> Inl IndeterminateCommit \<longrightarrow> f' = f) \<and>
    (open_steps utf8 fault keys_on = Inr () \<and> table_count f \<noteq> 0 \<longrightarrow>
      (\<forall>v. schema_version f = Inr v \<and> STORE_SCHEMA_VERSION < v \<longrightarrow> r = Inl NewerSchema)) \<and>
    (r = Inr () \<and> store_reachable E (df_rows f') \<and> store_steps E (df_rows f') d \<longrightarrow>
      store_open True (\<lambda>_. None) True Committed (f'\<lparr>df_rows := d\<rparr>) = (Inr (), f'\<lparr>df_rows := d\<rparr>))"
proof -
  note opened = store_open_cases [OF assms(2)]
  have "store_inv E d" if "store_reachable E (df_rows f')" "store_steps E (df_rows f') d"
    using store_steps_keeps [OF that(2) assms(1) reachable_inv [OF assms(1) that(1)]] by (simp add: keeps_store_def)
  then have "store_open True (\<lambda>_. None) True Committed (f'\<lparr>df_rows := d\<rparr>) = (Inr (), f'\<lparr>df_rows := d\<rparr>)"
    if "r = Inr ()" "store_reachable E (df_rows f')" "store_steps E (df_rows f') d"
    using that opened current_opens [OF current_rows] store_inv_foreign_keys by blast
  then show ?thesis
    using opened assms(2) current_foreign_keys [of f'] newer_refused [of f _ utf8 fault keys_on oc] by auto
qed

theorem open_keeps_file_witness:
  "store_open True (\<lambda>_. None) True Committed ((fresh_file sample_blank)\<lparr>df_rows := merged_db\<rparr>) =
     (Inr (), (fresh_file sample_blank)\<lparr>df_rows := merged_db\<rparr>)"
proof -
  have rows: "df_rows (fresh_file sample_blank) = empty_db" by (simp add: fresh_file_def)
  have steps: "store_reachable sample_env empty_db" "store_steps sample_env empty_db merged_db"
    using sample_steps(5) by (simp_all add: store_reachable_def store_steps.refl)
  show ?thesis
    using open_keeps_file [OF sample_env_lawful sample_opens, where d = merged_db] steps by (simp add: rows)
qed

text \<open>
  C6: Admission implements its specification on the maps of contexts, authors, events and refs:
  the same status or the same error, and the same view of the store afterwards.
\<close>

theorem admit_refines:
  assumes "env_lawful E" "store_reachable E d" "event_wf ev" "is_ok (to_wire E ev)"
    and "mutation_matches ev m" "mutation_wf m"
  shows "(case admit E ev m Committed d of (reply, d') \<Rightarrow> (reply, store_view E d')) =
    (case spec_admit (norm_event ev) m (store_view E d) of
       Inl e \<Rightarrow> (Inl e, store_view E d) | Inr (status, v) \<Rightarrow> (Inr status, v))"
proof -
  obtain w where w: "to_wire E ev = Inr w" using assms(4) by (auto simp: is_ok_iff)
  have "wire_of E ev w" using w assms(3) by (simp add: wire_of_def)
  from run_refines [where tx = "admit_tx E ev w (norm_event ev) m" and view = "store_view E",
      OF admit_tx_refines [OF assms(1) reachable_inv [OF assms(1,2)] this assms(5,6)]]
  show ?thesis unfolding admit_run [OF assms(1,3) w assms(5)] .
qed

theorem admit_refines_witness:
  "(case spec_admit first_event (CompareAndSwap sample_context ''main'' (Head genesis_id) first_id)
       (store_view sample_env genesis_db) of
     Inl e \<Rightarrow> (Inl e, store_view sample_env genesis_db) | Inr (status, v) \<Rightarrow> (Inr status, v)) =
   (Inr Inserted, store_view sample_env first_db)"
  using admit_refines [OF sample_env_lawful sample_steps(1), of first_event
      "CompareAndSwap sample_context ''main'' (Head genesis_id) first_id"]
  by (simp add: sample_admit sample_names event_context_def [symmetric])

text \<open>
  C7: Admission is idempotent, also after a commit whose outcome was never learned: admitting
  the event again succeeds, reports that it was there, and changes nothing.
\<close>

theorem admit_retry:
  assumes "env_lawful E" "store_reachable E d" "event_wf ev" "mutation_wf m"
    and "admit E ev m oc d = (reply, d')" "d' \<noteq> d \<or> is_ok reply"
  shows "admit E ev m Committed d' = (Inr (repeated_status m), d')"
proof (rule admit_cases [OF assms(1,3), of m])
  fix w assume w: "wire_of E ev w" "mutation_matches ev m"
    "\<And>oc d. admit E ev m oc d = write_tx oc (admit_tx E ev w (norm_event ev) m) d"
  obtain status where "admit_tx E ev w (norm_event ev) m d = Inr (status, d')"
    using assms(5,6) write_tx_state [of oc "admit_tx E ev w (norm_event ev) m" d]
      write_tx_Inr [of oc "admit_tx E ev w (norm_event ev) m" d] by (auto simp: w(3) is_ok_iff)
  from admit_tx_again [OF assms(1) reachable_inv [OF assms(1,2)] w(1,2) assms(4) this]
  show ?thesis by (simp add: w(3) write_tx_def finish_transaction_def)
qed (use assms(5,6) in auto)

theorem admit_retry_witness:
  "admit sample_env first_event (CompareAndSwap sample_context ''main'' (Head genesis_id) first_id)
     Committed first_db = (Inr AlreadyApplied, first_db)"
  using admit_retry [OF sample_env_lawful sample_steps(1) first_event_facts(1) _ sample_admit]
  by (simp add: sample_names repeated_status_def)

section \<open>Projections\<close>

text \<open>
  C8: A projection is the ancestry of its heads, each event once, parents first, all of the
  requested context and within the limits; it is refused only because an ancestor is missing
  or belongs to another context, or because a limit is exceeded. It never reports a cycle or a
  corrupt store.
\<close>

theorem project_exact:
  assumes "env_lawful E" "store_reachable E d" "validate_projection_limits limits = Inr ()"
    and "heads \<noteq> []" "length heads \<le> MAX_PROJECTION_HEADS"
  shows "case project E d c heads limits of
      Inl e \<Rightarrow> projection_refused E d c limits heads e
    | Inr p \<Rightarrow> proj_context p = c \<and> set (proj_heads p) = set heads \<and>
        exact_projection E d c limits heads (proj_events p) (proj_wire_bytes p)"
  using project_spec [OF reachable_inv [OF assms(1,2)] assms(3-5)] .

theorem project_exact_witness:
  "case project sample_env merged_db sample_context [merge_id] default_projection_limits of
      Inl e \<Rightarrow> projection_refused sample_env merged_db sample_context default_projection_limits [merge_id] e
    | Inr p \<Rightarrow> proj_context p = sample_context \<and> set (proj_heads p) = set [merge_id] \<and>
        exact_projection sample_env merged_db sample_context default_projection_limits [merge_id]
          (proj_events p) (proj_wire_bytes p)"
  by (rule project_exact [OF sample_env_lawful sample_steps(5) valid_default_limits])
    (simp_all add: MAX_PROJECTION_HEADS_def)

section \<open>Bundles and synchronisation\<close>

text \<open>
  C9: An export contains exactly what the requested heads reach and the known heads do not,
  each event as stored, in an order the bundle format accepts.
\<close>

theorem export_exact:
  assumes "env_lawful E" "store_reachable E d"
    and "export_bundle E d c requested known snapshot limits = Inr b"
  shows "ev_id ` set (bundle_events b) = ancestry E d requested - ancestry E d known \<and>
    (\<forall>ev \<in> set (bundle_events b). lookup_event E d (ev_id ev) = Some ev) \<and>
    bundle_context b = c \<and> bundle_ok E b"
  using export_bundle_exact [OF reachable_inv [OF assms(1,2)] assms(3)] by blast

theorem export_exact_witness:
  "ev_id ` set (bundle_events sample_bundle) =
     ancestry sample_env first_db [first_id] - ancestry sample_env first_db [genesis_id] \<and>
   bundle_ok sample_env sample_bundle"
  using export_exact [OF sample_env_lawful sample_steps(2) sample_export] by blast

text \<open>
  C10: A bundle that is rendered reads back as the bundle, with payload numbers in normal form,
  and renders to the same bytes again.
\<close>

theorem bundle_round_trip:
  assumes "env_lawful E" "bundle_wf b" "bundle_ok E b" "bundle_to_wire E b = Inr w"
  shows "bundle_from_wire E w = Inr (norm_bundle b) \<and> bundle_to_wire E (norm_bundle b) = Inr w"
  using bundle_round_trip_aux [OF assms] by blast

theorem bundle_round_trip_witness:
  "\<exists>w. bundle_to_wire sample_env sample_bundle = Inr w \<and>
     bundle_from_wire sample_env w = Inr (norm_bundle sample_bundle)"
proof -
  obtain w where w: "bundle_to_wire sample_env sample_bundle = Inr w" by (rule sample_bundle_wire)
  from bundle_round_trip [OF sample_env_lawful sample_bundle_ok(2,1) w] w show ?thesis by blast
qed

text \<open>
  C11: Importing a bundle never touches a local ref, puts every event of the bundle into the
  store, points the peer's refs at the bundle's heads, and imports nothing when repeated.
\<close>

theorem import_effect:
  assumes "env_lawful E" "store_reachable E d" "ref_name_wf peer" "bundle_wf b"
    and "import_bundle_tx E peer b d = Inr (report, d')"
  shows "db_local d' = db_local d \<and>
    (\<forall>ev \<in> set (bundle_events b). lookup_event E d' (ev_id ev) = Some (norm_event ev)) \<and>
    (\<forall>r \<in> set (bundle_refs b). query_remote d' peer (bundle_context b) (ar_name r) = Inr (Some (ar_head r))) \<and>
    import_inserted report + import_already_present report = length (bundle_events b) \<and>
    import_bundle_tx E peer b d' =
      Inr (\<lparr>import_inserted = 0, import_already_present = length (bundle_events b),
            import_remote_refs_updated = 0\<rparr>, d')"
proof -
  note inv = reachable_inv [OF assms(1,2)]
  obtain x where d': "store_inv E d'" "db_local d' = db_local d"
    "\<forall>ev \<in> set (bundle_events b). in_place E d' x ev"
    "\<forall>r \<in> set (bundle_refs b). stored_in d' (ar_head r) (bundle_context b) \<and>
       query_remote d' peer (bundle_context b) (ar_name r) = Inr (Some (ar_head r))"
    "import_inserted report + import_already_present report = length (bundle_events b)"
    by (rule import_bundle_tx_Inr [OF assms(1) inv assms(3-5)]) blast
  have "lookup_event E d' (ev_id ev) = Some (norm_event ev)" if "ev \<in> set (bundle_events b)" for ev
    using in_place_lookup [OF assms(1) d'(1)] that d'(3) assms(4) by (auto simp: bundle_wf_def)
  then show ?thesis
    using d' import_bundle_tx_idempotent [OF assms(1) inv assms(3-5)] by blast
qed

theorem import_effect_witness:
  "lookup_event sample_env imported_db first_id = Some first_event \<and>
   import_bundle_tx sample_env ''peer'' sample_bundle imported_db =
     Inr (\<lparr>import_inserted = 0, import_already_present = 1, import_remote_refs_updated = 0\<rparr>, imported_db)"
  using import_effect [OF sample_env_lawful sample_steps(1) sample_names(3) sample_bundle_ok(2) sample_import]
  by (simp add: sample_bundle_def)

text \<open>
  C12: A page of a synchronisation is the longest run of the plan from its offset that fits: it
  is within both limits, another event would exceed one of them, and the next offset follows it.
\<close>

theorem sync_page_maximal:
  assumes "export_sync_page E d c requested known offset max_events max_bytes = Inr page"
  shows "\<exists>plan n. sync_plan E d c requested known = Inr plan \<and>
    bundle_events (page_bundle page) = take n (drop offset plan) \<and>
    n \<le> min (length plan - offset) max_events \<and> (plan \<noteq> [] \<longrightarrow> 1 \<le> n) \<and>
    (plan \<noteq> [] \<longrightarrow> (\<exists>w. bundle_to_wire E (page_bundle page) = Inr w \<and> length w \<le> max_bytes)) \<and>
    page_next page = (if offset + n < length plan then Some (offset + n) else None) \<and>
    (n = min (length plan - offset) max_events \<or>
     probe_too_long (page_probe E c (drop offset plan)) max_bytes (Suc n))"
  by (rule export_sync_page_plan [OF assms]) blast

theorem sync_page_maximal_witness:
  "\<exists>plan n. sync_plan sample_env first_db sample_context [first_id] [genesis_id] = Inr plan \<and>
     bundle_events page_sample = take n (drop 0 plan) \<and> (plan \<noteq> [] \<longrightarrow> 1 \<le> n)"
  using sync_page_maximal [OF sample_sync_page(1)] by auto

text \<open>
  C13: Following the offsets of the pages yields the whole plan, event for event, with one
  request more than there are events as a bound.
\<close>

theorem drained_pages_are_plan:
  assumes "sync_plan E d c requested known = Inr plan" "length plan < fuel"
    and "drain_pages E d c requested known max_events max_bytes fuel 0 = Inr res"
  shows "res = Some plan"
  using drain_pages_plan [OF assms(3,1)] assms(2) by simp

theorem drained_pages_are_plan_witness:
  "Inr (Some [first_event]) =
    drain_pages sample_env first_db sample_context [first_id] [genesis_id] 1 MAX_BUNDLE_CANONICAL_BYTES 2 0"
  using drained_pages_are_plan [OF sample_sync_page(2) _ sample_drain] sample_drain by simp

text \<open>
  C14: Replacing the refs of a peer makes its namespace exactly the advertised one, counts the
  names that changed, leaves other peers, other contexts and local refs alone, and writes
  nothing when there is no change.
\<close>

theorem replace_refs_exact:
  assumes "env_lawful E" "store_reachable E d" "ref_name_wf peer" "\<forall>r \<in> set refs. ref_name_wf (ar_name r)"
    and "replace_remote_ref_snapshot E peer c refs oc d = (Inr n, d')"
  shows "remote_view d' peer c = map_of (map ref_pair refs) \<and> db_local d' = db_local d \<and>
    (\<forall>peer' c'. (peer', c') \<noteq> (peer, c) \<longrightarrow> remote_view d' peer' c' = remote_view d peer' c') \<and>
    n = card {name. remote_view d peer c name \<noteq> remote_view d' peer c name} \<and> (n = 0 \<longleftrightarrow> d' = d)"
proof -
  have guard: "\<not> windows2_any (\<lambda>a b. ar_name b \<le> ar_name a) refs"
    and "write_tx oc (replace_refs_tx E peer c refs) d = (Inr n, d')"
    using assms(5) by (auto simp: replace_remote_ref_snapshot_def split: if_splits)
  then have tx: "replace_refs_tx E peer c refs d = Inr (n, d')" by (blast dest: write_tx_InrD)
  have "replace_ok (peer, c, refs)"
    using guard assms(3,4) windows2_any_ge_iff [of ar_name refs] by (simp add: replace_ok_def)
  from replace_refs_tx_Inr [OF reachable_inv [OF assms(1,2)] this tx] show ?thesis by simp
qed

theorem replace_refs_exact_witness:
  "1 = card {name. remote_view first_db ''peer'' sample_context name \<noteq> (map_of [(''main'', first_id)]) name}"
  using replace_refs_exact [OF sample_env_lawful sample_steps(2) sample_names(3) _ sample_replace]
  by (simp add: sample_names ref_pair_def)

section \<open>The synchronisation protocol\<close>

text \<open>
  C15: A message of the protocol has exactly one accepted wire form: a request, a snapshot of
  refs and a page response are read exactly from the canonical bytes they render to, and a
  cursor exactly from the text it was encoded as.
\<close>

theorem protocol_wire_exact:
  assumes "env_lawful E"
  shows "(export_request_from_wire E w = Inr q \<longleftrightarrow>
      export_request_wf E q \<and> norm_request q = q \<and> export_request_to_wire E q = Inr w) \<and>
    (ref_snapshot_from_wire E w = Inr s \<longleftrightarrow> ref_snapshot_wf E s \<and> ref_snapshot_to_wire E s = Inr w) \<and>
    (export_response_from_wire E w = Inr p \<longleftrightarrow>
      export_response_wf E p \<and> norm_response p = p \<and> export_response_to_wire E p = Inr w) \<and>
    (decode_cursor E t = Inr (n, f) \<longleftrightarrow> length f = 32 \<and> encode_cursor E n f = Inr t)"
  using export_request.from_wire_iff [OF assms] ref_snapshot.from_wire_iff [OF assms]
    export_response.from_wire_iff [OF assms] decode_encode_cursor [OF env_lawfulD(1) [OF assms]]
    decode_cursor_Inr by blast

theorem protocol_wire_exact_witness:
  "decode_cursor sample_env (''cursor1_'' @ b64_encode sample_env (be_bytes 8 7 @ replicate 32 0)) =
     Inr (7, replicate 32 0)"
  by (rule protocol_wire_exact [OF sample_env_lawful, THEN conjunct2, THEN conjunct2, THEN conjunct2, THEN iffD2])
    (simp add: encode_cursor_Inr)

text \<open>
  C16: A pull is safe whatever the network answers and whatever its commits do: it keeps the
  store's invariant, every event and every local ref; it leaves the refs of other peers alone,
  and replaces those of its peer only by a whole snapshot, whose heads are all stored. A
  successful pull accounts for every event received. It makes at most one request for the
  snapshot and one for each allowed page.
\<close>

theorem pull_any_peer:
  fixes net :: "nat \<Rightarrow> http_request \<Rightarrow> send_result" and oc :: "nat \<Rightarrow> commit_outcome"
    and getenv :: "string \<Rightarrow> bytes option" and built :: bool
  assumes "env_lawful E" "store_inv E d" "ref_name_wf (pc_peer cfg)"
  defines "d' \<equiv> snd (pull E getenv built cfg net oc d)"
  shows "keeps_store E d d' \<and> db_local d' = db_local d \<and>
    (\<forall>peer c. (peer, c) \<noteq> (pc_peer cfg, pc_context cfg) \<longrightarrow> remote_view d' peer c = remote_view d peer c) \<and>
    (case fst (pull E getenv built cfg net oc d) of
       Inl e \<Rightarrow> db_remote d' = db_remote d \<or> e = SyncStore IndeterminateCommit
     | Inr report \<Rightarrow>
         pr_pages report \<le> pul_max_pages (pc_limits cfg) \<and>
         pr_received report = pr_inserted report + pr_already_present report \<and>
         (\<exists>client snapshot. pull_snapshot E cfg client (net 0) = Inr snapshot \<and>
           remote_view d' (pc_peer cfg) (pc_context cfg) = map_of (map ref_pair (rs_refs snapshot)) \<and>
           (\<forall>r \<in> set (rs_refs snapshot). stored_in d' (ar_head r) (pc_context cfg)))) \<and>
    (\<forall>net'. (\<forall>k \<le> pul_max_pages (pc_limits cfg). net k = net' k) \<longrightarrow>
       pull E getenv built cfg net' oc d = pull E getenv built cfg net oc d)"
proof -
  have run: "pull E getenv built cfg net oc d = (fst (pull E getenv built cfg net oc d), d')"
    by (simp add: d'_def)
  have bounded: "\<forall>net'. (\<forall>k \<le> pul_max_pages (pc_limits cfg). net k = net' k) \<longrightarrow>
      pull E getenv built cfg net' oc d = pull E getenv built cfg net oc d"
    using pull_requests [of cfg net] by metis
  from pull_spec [OF assms(1-3) run]
  have "keeps_refs E d d' \<and> (\<exists>e. fst (pull E getenv built cfg net oc d) = Inl e) \<or> (\<exists>client snapshot.
      pull_snapshot E cfg client (net 0) = Inr snapshot \<and> refs_replaced E cfg (rs_refs snapshot) d d' \<and>
      (fst (pull E getenv built cfg net oc d) = Inl (SyncStore IndeterminateCommit) \<or>
       (\<exists>report. fst (pull E getenv built cfg net oc d) = Inr report \<and>
         pr_pages report \<le> pul_max_pages (pc_limits cfg) \<and>
         pr_received report = pr_inserted report + pr_already_present report)))" by blast
  then show ?thesis
    by (intro conjI bounded)
      (auto simp: keeps_refs_def refs_replaced_def remote_view_def split: sum.splits)
qed

theorem pull_any_peer_witness:
  "keeps_store sample_env merged_db (snd (pull sample_env (\<lambda>_. None) True
     \<lparr>pc_peer = ''peer'', pc_endpoint = \<lparr>pe_address = \<lparr>sa_text = ''127.0.0.1:80'', sa_loopback = True\<rparr>,
        pe_acknowledged = False\<rparr>, pc_token = EnvironmentToken ''TOKEN'', pc_context = sample_context,
      pc_limits = default_pull_limits, pc_transport = default_transport_limits\<rparr>
     (\<lambda>_ _. SendFailed) (\<lambda>_. Committed) merged_db))"
  by (rule pull_any_peer [OF sample_env_lawful reachable_inv [OF sample_env_lawful sample_steps(5)],
        THEN conjunct1]) (simp add: sample_names)

text \<open>
  C17: The bound on the header section of a connection does not depend on how its bytes arrive:
  fed in any pieces, the stream is refused exactly when the whole input has its header section
  beyond the limit, and it is complete exactly when the input contains the end of it.
\<close>

theorem header_guard_exact:
  assumes "\<forall>b \<in> set pieces. length b < 2 ^ 63"
  shows "(fst (observe_all pieces guard_stream_new) = Inr () \<longleftrightarrow> header_accepted (concat pieces)) \<and>
    (fst (observe_all pieces guard_stream_new) = Inr () \<longrightarrow>
      (hg_complete (snd (observe_all pieces guard_stream_new)) \<longleftrightarrow> header_end (concat pieces) \<noteq> None))"
  using observe_all_exact [OF guard_stream_new_seen(1) assms guard_stream_new_seen(2)]
  by (auto simp: guard_seen_def header_end_def split: if_splits)

theorem header_guard_exact_witness:
  "fst (observe_all [[71, 13, 10], [13, 10, 66]] guard_stream_new) = Inr () \<and>
   hg_complete (snd (observe_all [[71, 13, 10], [13, 10, 66]] guard_stream_new))"
proof -
  have "header_end (concat [[71, 13, 10], [13, 10, 66]]) = Some 5"
    by (simp add: header_end_def header_terminator_def)
  with header_guard_exact [of "[[71, 13, 10], [13, 10, 66]]"] show ?thesis
    by (simp add: header_accepted_def MAX_HTTP_HEADER_BYTES_def del: observe_all.simps)
qed

text \<open>
  C18: However requests interleave, no more handlers run than the configured limit, and a
  handler answers only requests that carried the token and kept the limits on target and
  headers. Every other request gets an error status and changes nothing.
\<close>

theorem server_guarded:
  assumes "transport_limits_new max_request max_response max_concurrent = Inr limits"
    and "app_state_new auth_hash limits entropy = Inr app"
    and "server_reachable E keyed_hash router app s"
  shows "length (sv_running s) + as_permits (sv_app s) = max_concurrent \<and>
    max_concurrent \<le> MAX_CONCURRENT_HTTP_REQUESTS \<and>
    (\<forall>d event s'. server_step E keyed_hash router d s event s' \<longrightarrow>
      (case event of
         Refused request response \<Rightarrow> rp_status response \<in> refusal_statuses \<and> sv_running s' = sv_running s
       | Admitted request rid \<Rightarrow> request_allowed E auth_hash request
       | Answered request response \<Rightarrow> request_allowed E auth_hash request \<and>
           (\<exists>rid. (rid, request) \<in> set (sv_running s) \<and>
             (rp_status response = 408 \<or>
              rp_status response = rp_status (run_endpoint E router limits d rid request) \<and>
              rp_body response = rp_body (run_endpoint E router limits d rid request)))))"
proof -
  have app: "as_permits app = max_concurrent" "as_auth_hash app = auth_hash" "as_limits app = limits"
    "max_concurrent \<le> MAX_CONCURRENT_HTTP_REQUESTS"
    using assms(1,2) by (auto simp: transport_limits_new_def app_state_new_def bindR_Inr_iff split: if_splits)
  moreover have "server_inv E app s" by (rule server_reachable_inv [OF assms(3)])
  ultimately show ?thesis
    using server_answers [OF assms(3), unfolded app(2,3)] by (simp add: server_inv_def add.commute)
qed

theorem server_guarded_witness:
  "\<exists>s :: server. sv_running s = [(''req1_'', sample_request)] \<and> length (sv_running s) + as_permits (sv_app s) = 16 \<and>
     16 \<le> MAX_CONCURRENT_HTTP_REQUESTS"
proof -
  have limits: "transport_limits_new MAX_PULL_REQUEST_BODY_BYTES MAX_SYNC_RESPONSE_BODY_BYTES 16 =
      Inr default_transport_limits"
    by (simp add: transport_limits_new_def default_transport_limits_def MAX_PULL_REQUEST_BODY_BYTES_def
        MAX_SYNC_RESPONSE_BODY_BYTES_def MAX_CONCURRENT_HTTP_REQUESTS_def)
  show ?thesis
    using server_guarded [OF limits sample_app sample_server_reachable, THEN conjunct1]
      server_guarded [OF limits sample_app sample_server_reachable, THEN conjunct2, THEN conjunct1]
      sample_server_running by blast
qed

section \<open>Events and their encodings\<close>

text \<open>
  C19: The envelope of a verified event fits the wire limit and reads back as the event, with
  payload numbers in normal form, and rendering again gives the same bytes. And whatever bytes are
  read as an event, the event is complete and verified: its identifier is the digest of its
  canonical body, its author's signature holds, its body obeys every limit.
\<close>

theorem wire_round_trip:
  assumes "env_lawful E"
  shows "(event_wf ev \<and> to_wire E ev = Inr w \<longrightarrow>
      from_wire E w = Inr (norm_event ev) \<and> to_wire E (norm_event ev) = Inr w \<and>
      length w \<le> MAX_RAW_WIRE_BYTES) \<and>
    (from_wire E b = Inr ev' \<longrightarrow>
      derive_event_id E (ev_body ev') = Inr (ev_id ev') \<and>
      ed_verify_strict E (author_id_bytes (body_author (ev_body ev'))) (signing_message (ev_id ev'))
        (event_signature_bytes (ev_signature ev')) \<and>
      validate_body E (ev_body ev') = Inr () \<and> event_wf ev')"
  using from_wire_to_wire [OF assms, of ev w] from_wire_to_wire_eq(2) [OF assms, of ev w]
    to_wire_len [OF assms, of ev w] from_wire_Inr [of E b ev']
  by (auto simp: verify_event_def verify_parts_iff)

theorem wire_round_trip_witness:
  "from_wire sample_env (sample_wire [] ''context.genesis'') = Inr (sample_event [] ''context.genesis'') \<and>
   derive_event_id sample_env (ev_body (sample_event [] ''context.genesis'')) = Inr genesis_id"
  using wire_round_trip [OF sample_env_lawful, of "sample_event [] ''context.genesis''"
      "sample_wire [] ''context.genesis''" "sample_wire [] ''context.genesis''" "sample_event [] ''context.genesis''"]
    sample_event_wf [OF sample_oks(1)] sample_to_wire [OF sample_oks(1)] sample_from_wire [OF sample_oks(1)]
  by (simp add: sample_lens)

text \<open>
  C20: The strict reader accepts exactly the documents without a duplicate member at any depth,
  a parser error or a number out of range, and returns what the plain reader returns.
\<close>

theorem strict_reader_exact:
  "is_ok (strict_value t) = tree_clean t \<and> (tree_clean t \<longrightarrow> plain_value t = strict_value t)"
  by (rule strict_reader_aux)

theorem strict_reader_exact_witness:
  "plain_value (TMap [(''a'', TU64 1), (''b'', TNull)] None) =
     strict_value (TMap [(''a'', TU64 1), (''b'', TNull)] None)"
  using strict_reader_exact [of "TMap [(''a'', TU64 1), (''b'', TNull)] None"] by simp

text \<open>
  C21: A body is valid exactly when its version, its number of parents, its kind, the strict
  order of its parents, the depth and the numbers of its payload and both canonical sizes are.
\<close>

theorem validate_body_exact:
  "validate_body E b = Inr () \<longleftrightarrow>
     body_version b = EVENT_VERSION \<and> length (body_parents b) \<le> MAX_PARENTS \<and>
     name_grammar MAX_KIND_BYTES (body_kind b) \<and> strictly_sorted (event_id_text E) (body_parents b) \<and>
     json_depth (body_payload b) \<le> MAX_PAYLOAD_DEPTH \<and> numbers_safe (body_payload b) \<and>
     (\<exists>p. canonicalize E (body_payload b) = Inr p \<and> length p \<le> MAX_CANONICAL_PAYLOAD_BYTES) \<and>
     (\<exists>c. canonicalize E (body_json E b) = Inr c \<and> length c \<le> MAX_CANONICAL_BODY_BYTES)"
  by (simp add: validate_body_iff name_ok_iff_grammar)

section \<open>Verification and recovery\<close>

text \<open>
  C22: Verifying a reachable store finds nothing wrong with it: the only findings are refs whose
  history exceeds the projection limits, listed in the order of the tables up to the bound, and
  the report counts the rows.
\<close>

theorem verify_reports_exact:
  assumes "env_lawful E" "store_reachable E d" "orders_lawful h" "vl_max_findings limits > 0"
    and "validate_projection_limits (vl_projection limits) = Inr ()"
  shows "verify_on E h True d limits = Inr (clean_report E d limits)"
  by (rule verify_on_invariant [OF reachable_inv [OF assms(1,2)] assms(3-5)])

theorem verify_reports_exact_witness:
  "verify_on sample_env \<lparr>order_contexts = rev, order_events = rev\<rparr> True merged_db
     \<lparr>vl_max_findings = 10, vl_projection = default_projection_limits\<rparr> =
   Inr (clean_report sample_env merged_db \<lparr>vl_max_findings = 10, vl_projection = default_projection_limits\<rparr>)"
  by (rule verify_reports_exact [OF sample_env_lawful sample_steps(5)])
    (simp_all add: orders_lawful_def valid_default_limits)

text \<open>
  C23: A database that verifies is intact, whoever wrote it: if the rows of a database with the
  schema's constraints verify, then in some order of insertion they are a store that satisfies
  the integrity invariant, and every ref projects within the limits.
\<close>

theorem verify_sound:
  assumes "schema_ok_db d" "orders_lawful h" "verify_on E h schema_ok d limits = Inr report"
    and "vr_valid report"
  shows "schema_ok \<and> (\<exists>d'. same_rows d d' \<and> store_inv E d') \<and>
    (\<forall>(c, head) \<in> set (ref_heads d). is_ok (project_on E d c [head] (vl_projection limits)))"
proof -
  have "inv_keys d" using assms(1) by (simp add: schema_ok_db_def)
  then have "schema_ok" "db_audit E d" "refs_project E d (vl_projection limits)"
    using verify_on_valid [OF _ assms(2,3)] assms(4) by auto
  then show ?thesis using audited_same_rows [OF assms(1)] by (simp add: refs_project_def)
qed

theorem verify_sound_witness:
  "\<exists>d'. same_rows genesis_db d' \<and> store_inv sample_env d'"
proof -
  let ?h = "\<lparr>order_contexts = rev, order_events = rev\<rparr>"
  let ?limits = "\<lparr>vl_max_findings = 10, vl_projection = default_projection_limits\<rparr>"
  have lawful: "orders_lawful ?h" by (simp add: orders_lawful_def)
  have run: "verify_on sample_env ?h True genesis_db ?limits = Inr (clean_report sample_env genesis_db ?limits)"
    by (rule verify_on_invariant [OF sample_invs(1) lawful]) (simp_all add: valid_default_limits)
  have "vr_valid (clean_report sample_env genesis_db ?limits)" by (rule sample_genesis_clean)
  from verify_sound [OF sample_schema lawful run this] show ?thesis by blast
qed

text \<open>
  C24: Recovery is exact whatever order the rows come in: among the events the branch reaches, the
  pending invocations are the recorded requests no recorded result answers; the detached results
  are the recorded results the branch does not reach. Each is returned once and at most 1024 are;
  both are refused only for a missing branch, its projection, or a context with more than 1024
  invocations. Nothing is claimed of the requests outside the branch.
\<close>

theorem invocations_exact:
  assumes "env_lawful E" "store_reachable E d" "permuting order"
  shows "(case pending_invocations E order d c branch of
        Inl e \<Rightarrow> invocations_refused E d c branch e
      | Inr events \<Rightarrow> distinct (map ev_id events) \<and> length events \<le> 1024 \<and>
          {ev \<in> set events. ev_id ev \<in> branch_reach E d c branch} =
          {ev \<in> recorded E d c {''agent.request''}. ev_id ev \<in> branch_reach E d c branch \<and>
            \<not> (\<exists>res \<in> recorded E d c {''agent.response'', ''agent.error''}. answers res (ev_id ev))}) \<and>
    (case detached_results E order d c branch of
        Inl e \<Rightarrow> invocations_refused E d c branch e
      | Inr events \<Rightarrow> distinct (map ev_id events) \<and> length events \<le> 1024 \<and>
          set events = {ev \<in> recorded E d c {''agent.response'', ''agent.error''}.
            ev_id ev \<notin> branch_reach E d c branch})"
  using pending_result [OF reachable_inv [OF assms(1,2)] assms(3), of c branch]
    detached_result [OF reachable_inv [OF assms(1,2)] assms(3), of c branch]
    invocations_bound [of E order d c branch, unfolded MAX_INVOCATION_QUERY_RESULTS_def]
  by (cases "pending_invocations E order d c branch"; cases "detached_results E order d c branch") auto

theorem invocations_exact_witness:
  "case detached_results sample_env rev merged_db sample_context ''main'' of
      Inl e \<Rightarrow> invocations_refused sample_env merged_db sample_context ''main'' e
    | Inr events \<Rightarrow> distinct (map ev_id events) \<and> length events \<le> 1024 \<and>
        set events = {ev \<in> recorded sample_env merged_db sample_context {''agent.response'', ''agent.error''}.
          ev_id ev \<notin> branch_reach sample_env merged_db sample_context ''main''}"
  using invocations_exact [OF sample_env_lawful sample_steps(5), of rev] by (simp add: permuting_def)

section \<open>Closure, deltas and handoffs\<close>

text \<open>
  C25: The pure closure agrees with its mathematical definition: it exceeds its limit exactly
  when there are more nodes than allowed; otherwise it reports a cycle exactly when the edges
  between listed nodes form one, closes over every listed node once and lists exactly the edges
  to parents that are not listed, each once, children and parents in canonical order.
\<close>

theorem close_over_exact:
  assumes "base64_lawful E"
    and "\<forall>n \<in> set nodes. event_id_wf (node_event n) \<and> (\<forall>p \<in> set (node_parents n). event_id_wf p)"
  shows "if cl_max_events limits < card (node_event ` set nodes)
    then cr_exceeded (close_over E nodes limits)
    else \<not> cr_exceeded (close_over E nodes limits) \<and>
      (cr_cycle (close_over E nodes limits) \<longleftrightarrow> (\<exists>i. (i, i) \<in> (listed_edges nodes)\<^sup>+)) \<and>
      set (cr_closed (close_over E nodes limits)) = node_event ` set nodes \<and>
      strictly_sorted (event_id_text E) (cr_closed (close_over E nodes limits)) \<and>
      set (cr_dangling (close_over E nodes limits)) = dangling_edges nodes \<and>
      strictly_sorted (edge_key E) (cr_dangling (close_over E nodes limits))"
  using close_over_facts [OF assms, of limits] unfolding cyclic_edges missing_edges
  by (simp add: not_less)

theorem close_over_exact_witness:
  "(\<nexists>i. (i, i) \<in> (listed_edges
     [\<lparr>node_event = first_id, node_parents = [genesis_id]\<rparr>, \<lparr>node_event = genesis_id, node_parents = []\<rparr>])\<^sup>+) \<and>
   dangling_edges
     [\<lparr>node_event = first_id, node_parents = [genesis_id]\<rparr>, \<lparr>node_event = genesis_id, node_parents = []\<rparr>] = {}"
  using close_over_exact [OF env_lawfulD(1) [OF sample_env_lawful], of
      "[\<lparr>node_event = first_id, node_parents = [genesis_id]\<rparr>, \<lparr>node_event = genesis_id, node_parents = []\<rparr>]"
      default_closure_limits]
  by (simp add: sample_close_over sample_max_events)

text \<open>
  C26: When the ancestry of the selected events together with the critical candidates fits the
  limits, closing the selection returns exactly these events, in canonical order, each reference
  as stored, and is refused only for a limit out of range, too many candidates, a missing event or
  an event of another context. A selection whose ancestry alone exceeds the limits is always
  refused. Nothing is claimed of a selection that only its critical candidates make too large.
\<close>

theorem close_selection_exact:
  assumes "env_lawful E" "store_reachable E d" "\<forall>i \<in> set selected \<union> set candidates. event_id_wf i"
  shows "(fits_limits E d limits (critical_closed E d selected candidates policy) \<longrightarrow>
      (case close_selection E d c selected candidates policy limits of
         Inl e \<Rightarrow> closure_refused E d c selected candidates limits e
       | Inr r \<Rightarrow> exact_closure E d c selected candidates policy limits r)) \<and>
    (\<not> fits_limits E d limits (ancestry E d selected) \<longrightarrow>
      \<not> is_ok (close_selection E d c selected candidates policy limits))"
  using close_selection_spec [OF assms(1) reachable_inv [OF assms(1,2)] assms(3), where c = c and policy = policy and limits = limits]
    close_selection_fails_closed [OF assms(1) reachable_inv [OF assms(1,2)]] by blast

theorem close_selection_exact_witness:
  "exact_closure sample_env merged_db sample_context [first_id] [second_id] sample_policy
     default_closure_limits sample_wider"
proof -
  have "fits_limits sample_env merged_db default_closure_limits
      (critical_closed sample_env merged_db [first_id] [second_id] sample_policy)"
    unfolding exact_closure_fits [OF sample_exact(2)]
    by (simp add: sample_wider_def default_closure_limits_def MAX_CLOSURE_EVENTS_def MAX_CLOSURE_BYTES_def)
  with close_selection_exact [OF sample_env_lawful sample_steps(5), where selected = "[first_id]"
      and candidates = "[second_id]" and c = sample_context and policy = sample_policy
      and limits = default_closure_limits]
  show ?thesis by (simp add: sample_close)
qed

text \<open>
  C27: A recipient's history is derived exactly when its head is an event of the context, the
  limits are legal and the history fits them; it is then the ancestry of the head, in canonical
  order, with its size in bytes, never more than the limits allow.
\<close>

theorem history_bounds:
  assumes "env_lawful E" "store_reachable E d"
  shows "(is_ok (at_head E d c head limits) \<longleftrightarrow> history_fits E d c head limits) \<and>
    (\<forall>r. at_head E d c head limits = Inr r \<longrightarrow> exact_history E d c head r \<and>
      length (rs_closure r) \<le> cl_max_events limits \<and> rs_total_bytes r \<le> cl_max_bytes limits \<and>
      length (rs_closure r) \<le> MAX_CLOSURE_EVENTS \<and> rs_total_bytes r \<le> MAX_CLOSURE_BYTES)"
proof (intro conjI allI impI)
  note inv = reachable_inv [OF assms]
  show "is_ok (at_head E d c head limits) \<longleftrightarrow> history_fits E d c head limits"
    by (rule at_head_iff [OF assms(1) inv])
  fix r assume r: "at_head E d c head limits = Inr r"
  note exact = at_head_history [OF assms(1) inv r] and fits = at_head_fits [OF inv r]
  have "length (rs_closure r) = card (ancestry E d [head])"
    using exact length_strictly_sorted [of "event_id_text E"] by (auto simp: exact_history_def)
  then show "exact_history E d c head r" "length (rs_closure r) \<le> cl_max_events limits"
    "rs_total_bytes r \<le> cl_max_bytes limits" "length (rs_closure r) \<le> MAX_CLOSURE_EVENTS"
    "rs_total_bytes r \<le> MAX_CLOSURE_BYTES"
    using exact fits by (auto simp: exact_history_def history_fits_def)
qed

theorem history_bounds_witness:
  "exact_history sample_env merged_db sample_context genesis_id sample_history \<and>
   length (rs_closure sample_history) \<le> MAX_CLOSURE_EVENTS"
  using history_bounds [OF sample_env_lawful sample_steps(5)] sample_at_head by blast

text \<open>
  C28: The delta of a closed selection against a recipient's history sends nothing the recipient
  has, each missing reference once and in canonical order, and leaves it with the whole ancestry
  of the selection; it is refused only for its limits (the recipient being of the context).
\<close>

theorem delta_exact:
  assumes "env_lawful E" "store_reachable E d" "at_head E d c head limits = Inr recipient"
    and "close_selection E d c selected candidates policy limits' = Inr r"
    and "\<forall>i \<in> set selected \<union> set candidates. event_id_wf i"
  shows "case compute_delta E d r recipient of
      Inl e \<Rightarrow> e = DeltaLimit
    | Inr delta \<Rightarrow> exact_delta E r recipient delta \<and>
        set (delta_events delta) \<inter> ancestry E d [head] = {} \<and>
        ancestry E d selected \<subseteq> ancestry E d [head] \<union> set (delta_events delta) \<and>
        strictly_sorted (event_id_text E) (delta_events delta)"
proof -
  note inv = reachable_inv [OF assms(1,2)]
  have closed: "exact_closure E d c selected candidates policy limits' r"
    using close_selection_spec [OF assms(1) inv assms(5), where c = c and policy = policy
        and limits = limits'] assms(4) by simp
  have history: "exact_history E d c head recipient" by (rule at_head_history [OF assms(1) inv assms(3)])
  have "\<forall>i \<in> sr_event ` set (cd_references r) \<union> set (rs_closure recipient). event_id_wf i"
    using exact_closure_wf [OF inv closed] exact_history_wf [OF inv history] by blast
  note spec = compute_delta_spec [OF assms(1) inv this]
  have "stored_in d head c" using at_head_fits [OF inv assms(3)] by (simp add: history_fits_def)
  then have "delta_refused d r recipient e \<Longrightarrow> e = DeltaLimit" for e
    using closed history by (auto simp: delta_refused_def exact_closure_def exact_history_def Let_def)
  moreover have "set (rs_closure recipient) = ancestry E d [head]" using history by (simp add: exact_history_def)
  ultimately show ?thesis
    using spec delta_completes [OF closed, of recipient] by (cases "compute_delta E d r recipient") auto
qed

theorem delta_exact_witness:
  "exact_delta sample_env sample_closed sample_history sample_delta \<and>
   ancestry sample_env merged_db [first_id] \<subseteq> ancestry sample_env merged_db [genesis_id] \<union> {first_id}"
  using delta_exact [OF sample_env_lawful sample_steps(5) sample_at_head sample_close(1)] sample_compute_delta
  by (simp add: delta_events_def sample_delta_def)

text \<open>
  C29: A handoff is delivered only to a recipient that is still where it was computed for: its
  delta is released exactly when the recipient's current head is the stated one and a stored
  event of the context; a recipient at another stored head gets the stale error with both heads.
\<close>

theorem handoff_delivery:
  assumes "env_lawful E" "store_reachable E d"
  shows "(verified_delta E d h current = Inr delta \<longleftrightarrow>
      delta = ho_delta h \<and> de_recipient_head (ho_delta h) = current \<and>
      (\<forall>head. current = Some head \<longrightarrow> stored_in d head (de_context (ho_delta h)))) \<and>
    (de_recipient_head (ho_delta h) \<noteq> current \<and>
      (\<forall>head \<in> set_option (de_recipient_head (ho_delta h)) \<union> set_option current.
        stored_in d head (de_context (ho_delta h))) \<longrightarrow>
      verified_delta E d h current = Inl (Stale (de_recipient_head (ho_delta h)) current))"
  using verify_valid_iff [OF reachable_inv [OF assms], of h current]
    verify_valid_stale [OF reachable_inv [OF assms], of h current]
  by (auto simp: verified_delta_def bindR_Inr_iff)

theorem handoff_delivery_witness:
  "verified_delta sample_env merged_db sample_handoff (Some first_id) =
     Inl (Stale (Some genesis_id) (Some first_id))"
  using handoff_delivery [OF sample_env_lawful sample_steps(5), of sample_handoff "Some first_id"]
  by (simp add: sample_handoff_def sample_delta_def stored_in_iff [OF sample_invs(5)] sample_lookups
      genesis_event_def)

text \<open>
  C30: A follow-up answers a challenge without losing track: it keeps the invariant of handoffs,
  carries the challenged event, is still bound to the recipient's head, records the challenge,
  keeps every uncertainty marker, and every earlier omission is now carried or still listed.
\<close>

theorem follow_up_keeps:
  assumes "env_lawful E" "store_reachable E d" "handoff_inv E h" "event_id_wf (och_event ch)"
    and "exact_closure E d c selected candidates policy limits chosen"
    and "exact_history E d c head recipient" "event_id_wf head"
    and "follow_up E d h chosen recipient ch = Inr h'"
  shows "handoff_inv E h' \<and> exact_delta E chosen recipient (ho_delta h') \<and>
    och_event ch \<in> set (handoff_events h') \<and> och_event ch \<in> om_event ` set (ho_omissions h) \<and>
    de_recipient_head (ho_delta h') = de_recipient_head (ho_delta h) \<and>
    ho_uncertainty h' = ho_uncertainty h \<and>
    ho_re_included h' = ho_re_included h @ [\<lparr>ri_event = och_event ch, ri_challenge = ch\<rparr>] \<and>
    om_event ` set (ho_omissions h) \<subseteq> set (handoff_events h') \<union> om_event ` set (ho_omissions h')"
proof -
  note inv = reachable_inv [OF assms(1,2)]
  have sorted: "strictly_sorted (event_id_text E) (map sr_event (cd_references chosen))"
    "strictly_sorted (event_id_text E) (rs_closure recipient)"
    using assms(5,6) by (simp_all add: exact_closure_def exact_history_def Let_def)
  have "rs_head recipient = Some head" using assms(6) by (simp add: exact_history_def)
  then have "\<forall>i \<in> sr_event ` set (cd_references chosen) \<union> set (rs_closure recipient) \<union>
      set_option (rs_head recipient). event_id_wf i"
    using exact_closure_wf [OF inv assms(5)] exact_history_wf [OF inv assms(6)] assms(7) by auto
  note spec = follow_up_spec [OF assms(1) inv assms(3,4) sorted this assms(8)]
  show ?thesis using spec follow_up_accounts [OF spec(5)] by blast
qed

theorem follow_up_keeps_witness:
  "handoff_inv sample_env sample_followed \<and> second_id \<in> set (handoff_events sample_followed)"
  using follow_up_keeps [OF sample_env_lawful sample_steps(5) sample_omitting_inv _ sample_exact(2,1) _
      sample_follow_up]
  by simp

text \<open>
  C31: Shaping a handoff for a recipient hides nothing and verifies: it changes neither what is
  carried nor what is omitted, marks every carried event the recipient does not cover, and the
  result is accepted exactly when the omissions claimed to be capability mismatches are; a
  handoff with an unmarked mismatch or a dishonest claim is never accepted.
\<close>

theorem shaped_handoff_verifies:
  assumes "env_lawful E" "store_reachable E d" "shape_handoff E h rc = Inr s"
  shows "ho_delta (sh_handoff s) = ho_delta h \<and> ho_omissions (sh_handoff s) = ho_omissions h \<and>
    set (ho_uncertainty (sh_handoff s)) = set (ho_uncertainty h) \<union> mismatch_note E ` set (uncovered_refs rc h) \<and>
    (handoff_inv E h \<longrightarrow> handoff_inv E (sh_handoff s)) \<and>
    (is_ok (verify_handoff E d (sh_handoff s) rc) \<longleftrightarrow> honest_omissions E d h rc) \<and>
    (\<forall>g v. verify_handoff E d g rc = Inr v \<longrightarrow> honest_omissions E d g rc \<and> flagged_mismatches E g rc)"
proof -
  note inv = reachable_inv [OF assms(1,2)] and shape = shape_handoff_spec [OF assms(3)]
  have "honest_omissions E d (sh_handoff s) rc \<longleftrightarrow> honest_omissions E d h rc"
    by (simp add: honest_omissions_def shape(2))
  then have "is_ok (verify_handoff E d (sh_handoff s) rc) \<longleftrightarrow> honest_omissions E d h rc"
    using shaped_flags [OF assms(3)] by (auto simp: is_ok_iff verify_handoff_iff [OF inv])
  then show ?thesis using shape by (simp add: verify_handoff_iff [OF inv])
qed

theorem shaped_handoff_verifies_witness:
  "is_ok (verify_handoff sample_env merged_db (sh_handoff sample_shaped) sample_capabilities)"
  using shaped_handoff_verifies [OF sample_env_lawful sample_steps(5) sample_shape]
  by (simp add: honest_omissions_def sample_handoff_def)

section \<open>Repair and summaries\<close>

text \<open>
  C32: Whatever the driver answers, the repair loop ends within its bounds. A run that returns
  has appended one record per attempt, at most one more than the iteration bound, with exactly
  the last one terminal; it converges only on the driver's success and otherwise hands back the
  original handoff. A run fails only for zero bounds, an unwritable history or a re-inclusion
  that is refused.
\<close>

theorem repair_ends:
  "case run_repair S h of
     Inl e \<Rightarrow> repair_refused S e
   | Inr (r, h') \<Rightarrow> report_ok S r \<and>
       (\<exists>records. rh_records h' = rh_records h @ records \<and>
         rh_sequence h' = rh_sequence h + length records \<and>
         attempt_records (rh_sequence h) 0 [] r records \<and>
         length records \<le> Suc (bo_max_iterations (se_bounds S)))"
  using run_repair_spec [of S h] run_repair_Inl [of S h] by (auto split: sum.splits)

text \<open>
  C33: A summary verifies against every later store: what an event, ref or project summary
  covers is stored (the event, the ancestry of the ref's head, the ancestries of all the
  context's refs), and verification accepts it then and ever after, counting what it covers.
\<close>

theorem summaries_verify:
  assumes "env_lawful E" "store_reachable E d" "store_steps E d d'"
  shows "(event_summary E d c i = Inr s \<longrightarrow> summary_covers E d c {i} s) \<and>
    (ref_summary E d c n limits = Inr s \<longrightarrow>
      (\<exists>head. local_view d (c, n) = Some head \<and> summary_covers E d c (ancestry E d [head]) s)) \<and>
    (project_summary E d c limits = Inr s \<longrightarrow>
      summary_covers E d c (\<Union>r \<in> {r \<in> set (db_local d). ref_context r = c}. ancestry E d [ref_head r]) s) \<and>
    (\<forall>X. summary_covers E d c X s \<longrightarrow>
      verify_summary E d' s = Inr \<lparr>sv_valid = True, sv_checked = card X\<rparr>)"
proof -
  note inv = reachable_inv [OF assms(1,2)]
  have later: "store_inv E d'" "db_grows d d'"
    using store_steps_keeps [OF assms(3,1) inv] by (simp_all add: keeps_store_def)
  have "\<exists>head. local_view d (c, n) = Some head \<and> summary_covers E d c (ancestry E d [head]) s"
    if "ref_summary E d c n limits = Inr s"
    by (rule ref_summary_covers [OF assms(1) inv that]) (simp add: local_ref_view [OF inv])
  then show ?thesis
    using event_summary_covers(1) [OF inv] project_summary_covers(1) [OF assms(1) inv]
      summary_covers_verifies [OF _ later] by simp
qed

theorem summaries_verify_witness:
  "\<exists>s. event_summary sample_env merged_db sample_context first_id = Inr s \<and>
     verify_summary sample_env merged_db s = Inr \<lparr>sv_valid = True, sv_checked = 1\<rparr>"
proof -
  obtain s where s: "event_summary sample_env merged_db sample_context first_id = Inr s"
    using sample_event_summary by blast
  note verified = summaries_verify [OF sample_env_lawful sample_steps(5) store_steps.refl,
      where c = sample_context and i = first_id and s = s]
  have "verify_summary sample_env merged_db s = Inr \<lparr>sv_valid = True, sv_checked = card {first_id}\<rparr>"
    using verified s by blast
  with s show ?thesis by simp
qed

section \<open>Providers, secrets and the command line\<close>

text \<open>
  C34: Whatever the provider answers and whatever other writers do, recording an invocation only
  adds to the store: a report names a request on the expected head and a result on that request,
  both stored with the correlation identifier of the report, with the branch on the result; a
  conflict after the run leaves request and result stored, with the branch elsewhere; and the
  provider makes a difference only once a request is stored.
\<close>

theorem invocation_recorded:
  assumes "env_lawful E" "store_reachable E d" "request_wf request" "others_lawful E gap"
    and "\<And>invocation. outcome_wf (provider invocation)"
    and "record_invocation E idn request provider entropy gap oc d = (res, d')"
  shows "keeps_store E d d' \<and>
    (case res of
       Inr report \<Rightarrow>
         event_recorded E idn (iq_context request) d' (ir_request_event report)
           (iq_expected_head request) ''agent.request'' (ir_invocation report) \<and>
         event_recorded E idn (iq_context request) d' (ir_result_event report) (ir_request_event report)
           (outcome_event_kind (ir_outcome report)) (ir_invocation report) \<and>
         local_view d' (iq_context request, iq_branch request) = Some (ir_result_event report)
     | Inl (PostExecutionConflict i current) \<Rightarrow>
         (\<exists>rid iid kind. current \<noteq> Some rid \<and>
           event_recorded E idn (iq_context request) d' rid (iq_expected_head request) ''agent.request'' iid \<and>
           event_recorded E idn (iq_context request) d' i rid (outcome_event_kind kind) iid)
     | Inl _ \<Rightarrow> True) \<and>
    ((\<forall>provider'. record_invocation E idn request provider' entropy gap oc d = (res, d')) \<or>
     (\<exists>rid iid. event_recorded E idn (iq_context request) d' rid (iq_expected_head request) ''agent.request'' iid))"
  by (rule invocation_provider.record_invocation_spec [OF invocation_provider.intro [OF assms(5)]
      assms(1) reachable_inv [OF assms(1,2)] assms(3,4,6)])

theorem invocation_recorded_witness:
  "\<exists>report d'. record_invocation sample_env sample_identity sample_invocation
     (\<lambda>_. ProviderFailure ''provider_timeout'' []) (Some (replicate 16 7)) (\<lambda>_ d. d) (\<lambda>_. Committed) first_db =
     (Inr report, d') \<and>
   event_recorded sample_env sample_identity sample_context d' (ir_request_event report) first_id
     ''agent.request'' (ir_invocation report) \<and>
   event_recorded sample_env sample_identity sample_context d' (ir_result_event report)
     (ir_request_event report) ''agent.error'' (ir_invocation report) \<and>
   local_view d' (sample_context, ''main'') = Some (ir_result_event report)"
proof -
  obtain report d' where run: "record_invocation sample_env sample_identity sample_invocation
      (\<lambda>_. ProviderFailure ''provider_timeout'' []) (Some (replicate 16 7)) (\<lambda>_ d. d) (\<lambda>_. Committed) first_db =
      (Inr report, d')" and "ir_outcome report = ErrorOutcome"
    using sample_record by blast
  then show ?thesis
    using invocation_recorded [OF sample_env_lawful sample_steps(2) sample_invocation_wf _ _ run]
    by (auto simp: others_lawful_def keeps_store_refl outcome_wf_def)
qed

text \<open>
  C35: A provider process is held to its contract: its outcome is a response whose rendering fits
  the bound, read from the first line of a run that ended well and whose four members include the
  correlation identifier of the request, or a failure with one of the six documented codes and a
  detail of at most 1024 bytes without control characters.
\<close>

theorem command_provider_bounded:
  "case run_command_provider E process invocation of
     ProviderResponse v \<Rightarrow>
       json_wf v \<and> (\<exists>wire. canonicalize E v = Inr wire \<and> length wire \<le> PROVIDER_RESPONSE_LIMIT) \<and>
       (\<exists>object. answered E process invocation object \<and> length object = 4 \<and>
         obj_get object ''ok'' = Some (JBool True) \<and> obj_get object ''response'' = Some v)
   | ProviderFailure code detail \<Rightarrow> code \<in> provider_codes \<and> plain_detail detail"
proof (cases "run_command_provider E process invocation")
  case (ProviderResponse v)
  then show ?thesis
    using run_command_provider_ok [of E process invocation] provider_response_answered [OF ProviderResponse]
    by (auto simp: outcome_ok_def)
next
  case (ProviderFailure code detail)
  then show ?thesis
    using run_command_provider_ok [of E process invocation] by (simp add: outcome_ok_def failure_ok_def)
qed

text \<open>
  C36: When the temporary name it chose is free, writing a secret touches no file that exists, the
  one at its own path included, and no name but its path and the temporary one. Whatever call
  fails, the path is left as it was or holds the complete secret, private to its owner. After a
  success the path alone is new and holds the secret, and a key written under a mask that lets the
  owner read loads again.
\<close>

theorem secret_file_atomic:
  assumes "fs_wf fs" "secret_temp W path \<noteq> Some path" "write_secret_file W path b fs = (r, fs')"
    and "\<forall>temp. secret_temp W path = Some temp \<longrightarrow> fs_lookup fs temp = None"
  shows "(\<forall>p. p \<noteq> path \<and> fs_lookup fs p \<noteq> None \<longrightarrow> fs_lookup fs' p = fs_lookup fs p) \<and>
    (\<forall>p. p \<noteq> path \<and> secret_temp W path \<noteq> Some p \<longrightarrow> fs_lookup fs' p = fs_lookup fs p) \<and>
    (fs_lookup fs path \<noteq> None \<longrightarrow> fs' = fs \<and> r \<noteq> Inr ()) \<and>
    (fs_lookup fs' path = fs_lookup fs path \<or> holds_secret fs' path b) \<and>
    (r = Inr () \<longrightarrow> holds_secret fs' path b \<and> (\<forall>p. p \<noteq> path \<longrightarrow> fs_lookup fs' p = fs_lookup fs p) \<and>
      (length b = 32 \<and> and (sw_umask W) 0x100 = 0 \<longrightarrow>
        load_key_file (quiet_views fs' path) = Inr (SigningIdentity b)))"
proof -
  note spec = write_secret_file_spec [OF assms(1-3)]
  have "fs_lookup fs' p = fs_lookup fs p" if "p \<noteq> path" "fs_lookup fs p \<noteq> None" for p
    using that spec assms(4) by (cases "secret_temp W path = Some p") auto
  moreover have "fs_lookup fs' p = fs_lookup fs p" if "r = Inr ()" "p \<noteq> path" for p
    using that spec assms(4) by (cases "secret_temp W path = Some p") auto
  ultimately show ?thesis
    using spec written_key_loads [OF assms(1,2)] assms(3) by blast
qed

theorem secret_file_atomic_witness:
  "\<exists>files. write_secret_file sample_writer ''key'' (replicate 32 1) sample_files = (Inr (), files) \<and>
     load_key_file (quiet_views files ''key'') = Inr (SigningIdentity (replicate 32 1))"
proof -
  obtain files where run: "write_secret_file sample_writer ''key'' (replicate 32 1) sample_files = (Inr (), files)"
    using sample_write_key by blast
  have free: "\<forall>temp. secret_temp sample_writer ''key'' = Some temp \<longrightarrow> fs_lookup sample_files temp = None"
    by (simp add: secret_temp_def sample_writer_def temp_path_def sample_parent Let_def fs_lookup_def sample_files_def)
  have "and (sw_umask sample_writer) 0x100 = 0" by (simp add: sample_writer_def)
  with secret_file_atomic [OF sample_files_wf sample_temp run free] run show ?thesis by simp
qed

text \<open>
  C37: A run of the command line keeps the store whatever the files, the network, the provider and
  the other writers do. It prints one line, the document of a success with exit code 0 or of a
  failure with one of the eight classes and the exit code of that class. A command that is a single
  step of the store runs exactly the store command that its arguments ask for, and fails without
  touching the database when they ask for none; \<open>invoke\<close> likewise makes exactly the provider call it
  asks for, and queries leave the database as it was. The exit code is the one the output contract
  fixes: for arguments that are refused, for stale heads, missing refs, unknown contexts and events,
  for a database that fails, for keys that do not load, and for the errors of \<open>record_invocation\<close>;
  of the other errors, of an invocation recorded with an error and of the command a failure names
  nothing is claimed. A failure of a single step
  leaves the database as it was or is reported as internal, and every command but the three for
  secrets leaves the secrets as they were.
\<close>

theorem cli_safe:
  assumes "env_lawful E" "store_reachable E (cl_db s)" "others_lawful E (w_others w)" "entropy_ok w"
    and "run_cli E w parsed s = (out, code, s')"
  shows "keeps_store E (cl_db s) (cl_db s') \<and>
    (\<exists>document. out = render E document @ [10] \<and>
      (code = 0 \<and> (\<exists>command. parsed = Some command \<and> success_form (command_name command) document) \<or>
       reported parsed (cl_db s) (cl_db s') document code)) \<and>
    (case parsed of None \<Rightarrow> s' = s
     | Some command \<Rightarrow> carried_out E w command (cl_db s) (cl_db s') code \<and>
        (\<not> writes_secrets command \<longrightarrow> cl_secrets s' = cl_secrets s))"
  by (rule run_cli_spec [OF assms(1) reachable_inv [OF assms(1,2)] assms(3-5)])

theorem cli_safe_witness:
  "\<exists>out. run_cli sample_env sample_world (Some sample_command) sample_cli_state =
      (out, 0, sample_cli_state\<lparr>cl_db := genesis_db\<rparr>) \<and> keeps_store sample_env empty_db genesis_db \<and>
    carried_out sample_env sample_world sample_command empty_db genesis_db 0"
proof -
  obtain out where run: "run_cli sample_env sample_world (Some sample_command) sample_cli_state =
      (out, 0, sample_cli_state\<lparr>cl_db := genesis_db\<rparr>)"
    using sample_run_create by blast
  have "store_reachable sample_env (cl_db sample_cli_state)"
    by (simp add: sample_cli_state_def store_reachable_def store_steps.refl)
  from cli_safe [OF sample_env_lawful this sample_world_fine run] run show ?thesis
    by (simp add: sample_cli_state_def)
qed

section \<open>Selection and receipts\<close>

text \<open>
  C38: The baseline selection returns exactly the candidates whose kind or text contains a word of
  the task, those with the most occurrences of the task's words first and ties by identifier,
  within the budget, and marks an empty result with its cause; a word is a maximal run of letters
  and digits in lower case. It is refused only for the reasons of its specification, over budget
  only when the matching candidates are.
\<close>

theorem selection_exact:
  assumes "env_lawful E" "store_reachable E d" "\<forall>i \<in> set candidates. event_id_wf i"
  shows "case select_sources E d task structured budget (baseline_selector E version) candidates of
      Inl e \<Rightarrow> selection_refused E d task structured budget (baseline_selector E version) candidates e
    | Inr sel \<Rightarrow> exact_selection E d task budget candidates sel"
  by (rule select_baseline_spec [OF assms(1) reachable_inv [OF assms(1,2)] assms(3)])

theorem selection_exact_witness:
  "case select_sources sample_env merged_db ''the genesis'' None default_selection_budget
      (baseline_selector sample_env ''1'') [genesis_id, first_id] of
      Inl e \<Rightarrow> selection_refused sample_env merged_db ''the genesis'' None default_selection_budget
        (baseline_selector sample_env ''1'') [genesis_id, first_id] e
    | Inr sel \<Rightarrow> exact_selection sample_env merged_db ''the genesis'' default_selection_budget
        [genesis_id, first_id] sel"
  by (rule selection_exact [OF sample_env_lawful sample_steps(5)]) simp

text \<open>
  C39: The wire of a receipt reads back as the receipt, its task in normal form, and renders to
  the same bytes again, except that an envelope above the wire limit, which rendering does not
  check, is refused; and whatever bytes are read as a receipt, the receipt verifies.
\<close>

theorem receipt_round_trip:
  assumes "env_lawful E" "receipt_wf r" "receipt_to_wire E r = Inr w"
  shows "receipt_from_wire E w =
      (if length w > MAX_RECEIPT_WIRE_BYTES then Inl WireTooLarge else Inr (norm_receipt r)) \<and>
    receipt_to_wire E (norm_receipt r) = Inr w \<and>
    (\<forall>w' r'. receipt_from_wire E w' = Inr r' \<longrightarrow>
      verify_receipt E r' = Inr () \<and> validate_receipt_body E (rc_body r') = Inr ())"
  using receipt_wire_round_trip_aux [OF assms] receipt_from_wire_Inr(1) verify_receipt_valid by blast

theorem receipt_round_trip_witness:
  "\<exists>w. receipt_to_wire sample_env sample_receipt = Inr w \<and> receipt_from_wire sample_env w = Inr sample_receipt"
proof -
  obtain w where w: "receipt_to_wire sample_env sample_receipt = Inr w" "length w \<le> MAX_RECEIPT_WIRE_BYTES"
    by (rule sample_receipt_wire)
  from receipt_round_trip [OF sample_env_lawful sample_receipt_wf w(1)] w
  show ?thesis by (auto simp: sample_receipt_norm)
qed

text \<open>
  C40: Timestamps agree with the calendar: up to the end of the year 9999 the text written for a
  second since the epoch is accepted, and its fields are the date obtained by stepping through
  the Gregorian calendar day by day from 1970-01-01, and the time of day.
\<close>

theorem timestamp_exact:
  assumes "now < 253402300800"
  shows "valid_utc_timestamp (utc_timestamp now) \<and>
    (case date_after (now div 86400) of (y, m, d) \<Rightarrow>
      timestamp_fields (utc_timestamp now) =
        map Some [nat y, nat m, nat d, now div 3600 mod 24, now div 60 mod 60, now mod 60])"
  using utc_timestamp_fields [OF assms] by (cases "date_after (now div 86400)") simp

theorem timestamp_exact_witness:
  "timestamp_fields (utc_timestamp 86399) = map Some [1970, 1, 1, 23, 59, 59]"
  using timestamp_exact [of 86399] by (simp add: date_after_def)

end
